(* ===== verification/Prelude.thy ===== *)
theory Prelude
  imports Main "HOL-Library.Word" "HOL-Library.Sublist"
begin

text \<open>
  Shared vocabulary of the development: byte strings, the fixed-width casts the C++ code uses,
  positional writes into a file image, and the generic list lemmas that the component theories
  rest on. The collections below gather, per theme, the facts that later proofs pass to the
  simplifier: \<open>range_simps\<close> (byte ranges and slices), \<open>guard_simps\<close> (guards and early
  returns of handlers), \<open>inv_intros\<close> (preservation lemmas of the step invariants) and
  \<open>text_simps\<close> (the Qt string operations).
\<close>

named_theorems range_simps
named_theorems guard_simps
named_theorems inv_intros
named_theorems text_simps

type_synonym byte = "8 word"
type_synonym bytes = "8 word list"

section \<open>Machine integers of the code\<close>

text \<open>
  \<open>qint64\<close> and \<open>std::int64_t\<close> are modelled by \<open>int\<close>; where the code narrows a value the cast
  is written out. \<open>to_int32\<close> is the value-preserving-modulo conversion every supported compiler
  gives for \<open>int(x)\<close> on an out-of-range 64-bit value.
\<close>

definition to_int32 :: "int \<Rightarrow> int" where
  "to_int32 x = (x + 2147483648) mod 4294967296 - 2147483648"

definition int64_max :: int where
  "int64_max = 9223372036854775807"

definition int64_min :: int where
  "int64_min = - 9223372036854775808"

definition clamp_int :: "int \<Rightarrow> int \<Rightarrow> int \<Rightarrow> int" where
  "clamp_int v lo hi = (if v < lo then lo else if hi < v then hi else v)"

text \<open>C++ integer division truncates towards zero.\<close>

definition cdiv :: "int \<Rightarrow> int \<Rightarrow> int" where
  "cdiv a b = (if (0 \<le> a) = (0 < b) then \<bar>a\<bar> div \<bar>b\<bar> else - (\<bar>a\<bar> div \<bar>b\<bar>))"

section \<open>File images\<close>

text \<open>
  A regular file is its list of bytes. \<open>write_at\<close> is a seek followed by a write: a hole before
  the write position reads as zeros. \<open>resize_file\<close> is \<open>QFile::resize\<close>.
\<close>

definition zeros :: "nat \<Rightarrow> bytes" where
  "zeros n = replicate n 0"

definition resize_file :: "nat \<Rightarrow> bytes \<Rightarrow> bytes" where
  "resize_file n f = take n f @ zeros (n - length f)"

definition write_at :: "nat \<Rightarrow> bytes \<Rightarrow> bytes \<Rightarrow> bytes" where
  "write_at off chunk f =
     (if chunk = [] then f
      else resize_file off f @ chunk @ drop (off + length chunk) f)"

section \<open>Generic lemmas\<close>

lemma to_int32_id:
  "- 2147483648 \<le> x \<Longrightarrow> x < 2147483648 \<Longrightarrow> to_int32 x = x"
  by (simp add: to_int32_def)

lemma to_int32_range: "- 2147483648 \<le> to_int32 x \<and> to_int32 x < 2147483648"
proof -
  have "0 \<le> (x + 2147483648) mod 4294967296" "(x + 2147483648) mod 4294967296 < 4294967296"
    by simp_all
  then show ?thesis by (simp add: to_int32_def)
qed

lemma clamp_int_bounds: "lo \<le> hi \<Longrightarrow> lo \<le> clamp_int v lo hi \<and> clamp_int v lo hi \<le> hi"
  by (auto simp: clamp_int_def)

lemma cdiv_nonneg: "0 \<le> a \<Longrightarrow> 0 < b \<Longrightarrow> cdiv a b = a div b"
  by (simp add: cdiv_def)

lemma length_zeros [simp]: "length (zeros n) = n"
  by (simp add: zeros_def)

lemma zeros_0 [simp]: "zeros 0 = []"
  by (simp add: zeros_def)

lemma length_resize_file [simp]: "length (resize_file n f) = n"
  by (simp add: resize_file_def)

lemma length_write_at [simp]:
  "length (write_at off chunk f) =
     (if chunk = [] then length f else max (length f) (off + length chunk))"
  by (auto simp: write_at_def)

lemma nth_resize_file: "k < length f \<Longrightarrow> k < n \<Longrightarrow> resize_file n f ! k = f ! k"
  by (simp add: resize_file_def nth_append)

lemma resize_file_id [simp]: "resize_file (length f) f = f"
  by (simp add: resize_file_def)

lemma nth_write_at_in:
  "off \<le> k \<Longrightarrow> k < off + length chunk \<Longrightarrow> write_at off chunk f ! k = chunk ! (k - off)"
  by (auto simp: write_at_def nth_append)

lemma nth_write_at_before:
  "k < off \<Longrightarrow> k < length f \<Longrightarrow> write_at off chunk f ! k = f ! k"
  by (auto simp: write_at_def nth_append nth_resize_file)

lemma nth_write_at_after:
  "off + length chunk \<le> k \<Longrightarrow> k < length f \<Longrightarrow> write_at off chunk f ! k = f ! k"
  by (auto simp: write_at_def nth_append)

lemma sum_list_map_update:
  fixes g :: "'a \<Rightarrow> int"
  shows "i < length xs \<Longrightarrow>
    sum_list (map g (xs[i := x])) = sum_list (map g xs) - g (xs ! i) + g x"
proof (induction xs arbitrary: i)
  case Nil
  then show ?case by simp
next
  case (Cons y ys)
  then show ?case by (cases i) auto
qed

lemma sum_list_eq_pointwise:
  fixes f g :: "'a \<Rightarrow> int"
  assumes "\<And>x. x \<in> set xs \<Longrightarrow> f x \<le> g x"
    and "sum_list (map f xs) = sum_list (map g xs)"
    and "x \<in> set xs"
  shows "f x = g x"
  using assms
proof (induction xs)
  case Nil
  then show ?case by simp
next
  case (Cons y ys)
  have le: "sum_list (map f ys) \<le> sum_list (map g ys)"
    using Cons.prems(1) by (intro sum_list_mono) simp
  have y: "f y \<le> g y"
    using Cons.prems(1) by simp
  have eq: "f y = g y" "sum_list (map f ys) = sum_list (map g ys)"
    using Cons.prems(2) le y by simp_all
  show ?case
  proof (cases "x = y")
    case True
    with eq show ?thesis by simp
  next
    case False
    with Cons eq show ?thesis by simp
  qed
qed

lemma ball_update: "\<forall>x \<in> set xs. P x \<Longrightarrow> P y \<Longrightarrow> \<forall>x \<in> set (xs[i := y]). P x"
  using set_update_subset_insert [of xs i y] by blast

lemma removeAll_nth:
  "distinct xs \<Longrightarrow> i < length xs \<Longrightarrow> removeAll (xs ! i) xs = take i xs @ drop (Suc i) xs"
proof (induction xs arbitrary: i)
  case Nil
  then show ?case by simp
next
  case (Cons x xs)
  then show ?case by (cases i) (auto simp: removeAll_id)
qed

lemma take_drop_slice: "take n (drop k xs) = map (\<lambda>i. xs ! (k + i)) [0..<min n (length xs - k)]"
  by (rule nth_equalityI) auto

end
