(* ===== verification/RangePlan.thy ===== *)
theory RangePlan
  imports Prelude
begin

text \<open>
  The segment planner of the HTTP downloader (\<open>src/services/downloads/rangeplan.h\<close>): a file of
  \<open>totalSize\<close> bytes is split into at most \<open>numConns\<close> contiguous inclusive byte ranges. The
  locale \<open>segment_planner\<close> states what the downloader relies on (the ranges tile the file, none
  is empty); \<open>planSegments\<close> interprets it.
\<close>

section \<open>Definitions\<close>

record ByteRange =
  br_start :: int
  br_end :: int

definition br_size :: "ByteRange \<Rightarrow> int" where
  "br_size r = br_end r - br_start r + 1"

text \<open>The \<open>for\<close> loop of \<open>planSegments\<close>, from its counter \<open>i\<close> and position \<open>pos\<close>.\<close>

function plan_loop :: "int \<Rightarrow> int \<Rightarrow> int \<Rightarrow> int \<Rightarrow> int \<Rightarrow> ByteRange list" where
  "plan_loop i n base rem pos =
     (if i < n
      then (let len = base + (if i < rem then 1 else 0)
            in \<lparr>br_start = pos, br_end = pos + len - 1\<rparr>
               # plan_loop (i + 1) n base rem (pos + len))
      else [])"
  by pat_completeness auto
termination
  by (relation "measure (\<lambda>(i, n, base, rem, pos). nat (n - i))") auto

declare plan_loop.simps [simp del]

definition planSegments :: "int \<Rightarrow> int \<Rightarrow> ByteRange list" where
  "planSegments totalSize numConns =
     (if totalSize \<le> 0 then []
      else let n0 = (if numConns < 1 then 1 else numConns);
               n = min n0 totalSize;
               base = cdiv totalSize n;
               rem = totalSize - n * base
           in plan_loop 0 n base rem 0)"

text \<open>
  The abstract contract: \<open>tiles p rs q\<close> says that the ranges \<open>rs\<close>, in order, are non-empty and
  cover the offsets from \<open>p\<close> up to but excluding \<open>q\<close> without gap or overlap.
\<close>

fun tiles :: "int \<Rightarrow> ByteRange list \<Rightarrow> int \<Rightarrow> bool" where
  "tiles p [] q \<longleftrightarrow> p = q"
| "tiles p (r # rs) q \<longleftrightarrow> br_start r = p \<and> p \<le> br_end r \<and> tiles (br_end r + 1) rs q"

section \<open>Consequences of tiling\<close>

lemma tiles_le: "tiles p rs q \<Longrightarrow> p \<le> q"
proof (induction rs arbitrary: p)
  case Nil
  then show ?case by simp
next
  case (Cons r rs)
  then have "br_end r + 1 \<le> q" "p \<le> br_end r"
    by auto
  then show ?case by simp
qed

lemma tiles_sum [range_simps]: "tiles p rs q \<Longrightarrow> sum_list (map br_size rs) = q - p"
  by (induction rs arbitrary: p) (auto simp: br_size_def)

lemma tiles_member:
  "tiles p rs q \<Longrightarrow> r \<in> set rs \<Longrightarrow> p \<le> br_start r \<and> br_start r \<le> br_end r \<and> br_end r < q"
proof (induction rs arbitrary: p)
  case Nil
  then show ?case by simp
next
  case (Cons s rs)
  then have t: "tiles (br_end s + 1) rs q" and le: "p \<le> br_end s" and st: "br_start s = p"
    by simp_all
  show ?case
  proof (cases "r = s")
    case True
    with tiles_le [OF t] le st show ?thesis by simp
  next
    case False
    with Cons.prems(2) Cons.IH [OF t] le st show ?thesis by auto
  qed
qed

lemma tiles_nth_order:
  "tiles p rs q \<Longrightarrow> i < j \<Longrightarrow> j < length rs \<Longrightarrow> br_end (rs ! i) < br_start (rs ! j)"
proof (induction rs arbitrary: p i j)
  case Nil
  then show ?case by simp
next
  case (Cons s rs)
  then obtain j' where j: "j = Suc j'"
    by (cases j) auto
  have t: "tiles (br_end s + 1) rs q"
    using Cons.prems(1) by simp
  show ?case
  proof (cases i)
    case 0
    have "rs ! j' \<in> set rs"
      using Cons.prems(3) j by simp
    from tiles_member [OF t this] show ?thesis using 0 j by simp
  next
    case (Suc i')
    with Cons.IH [OF t, of i' j'] Cons.prems j show ?thesis by simp
  qed
qed

lemma tiles_disjoint:
  assumes "tiles p rs q" "i < length rs" "j < length rs" "i \<noteq> j"
  shows "br_end (rs ! i) < br_start (rs ! j) \<or> br_end (rs ! j) < br_start (rs ! i)"
  using assms tiles_nth_order [of p rs q i j] tiles_nth_order [of p rs q j i]
  by (metis nat_neq_iff)

lemma tiles_cover:
  "tiles p rs q \<Longrightarrow> p \<le> k \<Longrightarrow> k < q \<Longrightarrow>
    \<exists>i < length rs. br_start (rs ! i) \<le> k \<and> k \<le> br_end (rs ! i)"
proof (induction rs arbitrary: p)
  case Nil
  then show ?case by simp
next
  case (Cons s rs)
  show ?case
  proof (cases "k \<le> br_end s")
    case True
    with Cons.prems show ?thesis by (intro exI [of _ 0]) simp
  next
    case False
    with Cons.prems have "tiles (br_end s + 1) rs q" "br_end s + 1 \<le> k"
      by simp_all
    from Cons.IH [OF this Cons.prems(3)] obtain i
      where "i < length rs" "br_start (rs ! i) \<le> k" "k \<le> br_end (rs ! i)"
      by blast
    then show ?thesis by (intro exI [of _ "Suc i"]) simp
  qed
qed

section \<open>The planner interface\<close>

text \<open>
  What \<open>HttpDownload::onProbeFinished\<close> relies on: for a positive size the plan tiles the file
  and has at least one segment.
\<close>

locale segment_planner =
  fixes plan :: "int \<Rightarrow> int \<Rightarrow> ByteRange list"
  assumes plan_tiles: "0 < sz \<Longrightarrow> tiles 0 (plan sz conns) sz"
begin

lemma plan_nonempty: "0 < sz \<Longrightarrow> plan sz conns \<noteq> []"
  using plan_tiles [of sz conns] by auto

lemma plan_total: "0 < sz \<Longrightarrow> sum_list (map br_size (plan sz conns)) = sz"
  using tiles_sum [OF plan_tiles] by simp

lemma plan_unique_owner:
  assumes "0 < sz" "0 \<le> k" "k < sz"
  shows "\<exists>!i. i < length (plan sz conns)
    \<and> br_start (plan sz conns ! i) \<le> k \<and> k \<le> br_end (plan sz conns ! i)"
proof -
  have t: "tiles 0 (plan sz conns) sz"
    using assms(1) by (rule plan_tiles)
  from tiles_cover [OF t assms(2,3)] obtain i where i: "i < length (plan sz conns)"
    "br_start (plan sz conns ! i) \<le> k" "k \<le> br_end (plan sz conns ! i)"
    by blast
  show ?thesis
  proof (rule ex1I [of _ i])
    fix j
    assume j: "j < length (plan sz conns) \<and>
      br_start (plan sz conns ! j) \<le> k \<and> k \<le> br_end (plan sz conns ! j)"
    show "j = i"
    proof (rule ccontr)
      assume "j \<noteq> i"
      with tiles_disjoint [OF t, of j i] i j show False by auto
    qed
  qed (use i in simp)
qed

end

section \<open>The loop of planSegments\<close>

lemma plan_loop_tiles:
  assumes "0 < base" "0 \<le> rem" "0 \<le> i" "i \<le> n"
  shows "tiles pos (plan_loop i n base rem pos) (pos + (n - i) * base + max 0 (min rem n - i))"
  using assms
proof (induction i n base rem pos rule: plan_loop.induct)
  case (1 i n base rem pos)
  show ?case
  proof (cases "i < n")
    case False
    with "1.prems" show ?thesis by (simp add: plan_loop.simps)
  next
    case True
    define len where "len = base + (if i < rem then 1 else 0)"
    have "tiles (pos + len) (plan_loop (i + 1) n base rem (pos + len))
      (pos + len + (n - (i + 1)) * base + max 0 (min rem n - (i + 1)))"
      using "1.IH" [OF True len_def] "1.prems" True by simp
    moreover have "pos + len + (n - (i + 1)) * base + max 0 (min rem n - (i + 1))
      = pos + (n - i) * base + max 0 (min rem n - i)"
      using True "1.prems" by (auto simp: len_def algebra_simps min_def max_def)
    ultimately have "tiles (pos + len) (plan_loop (i + 1) n base rem (pos + len))
      (pos + (n - i) * base + max 0 (min rem n - i))"
      by simp
    moreover have "plan_loop i n base rem pos =
      \<lparr>br_start = pos, br_end = pos + len - 1\<rparr> # plan_loop (i + 1) n base rem (pos + len)"
      using True by (simp add: plan_loop.simps [of i] len_def Let_def)
    moreover have "0 < len"
      using "1.prems" by (simp add: len_def)
    ultimately show ?thesis
      by simp
  qed
qed

lemma plan_loop_length: "i \<le> n \<Longrightarrow> int (length (plan_loop i n base rem pos)) = n - i"
proof (induction i n base rem pos rule: plan_loop.induct)
  case (1 i n base rem pos)
  then show ?case by (cases "i < n") (simp_all add: plan_loop.simps [of _ n] Let_def)
qed

lemma plan_loop_sizes:
  "0 \<le> i \<Longrightarrow> k < length (plan_loop i n base rem pos) \<Longrightarrow>
    br_size (plan_loop i n base rem pos ! k) = base + (if i + int k < rem then 1 else 0)"
proof (induction i n base rem pos arbitrary: k rule: plan_loop.induct)
  case (1 i n base rem pos)
  show ?case
  proof (cases "i < n")
    case False
    with "1.prems" show ?thesis by (simp add: plan_loop.simps)
  next
    case True
    note unf = plan_loop.simps [of i n base rem pos]
    show ?thesis
    proof (cases k)
      case 0
      then show ?thesis using True by (simp add: unf Let_def br_size_def)
    next
      case (Suc j)
      have "br_size (plan_loop (i + 1) n base rem (pos + (base + (if i < rem then 1 else 0))) ! j)
        = base + (if i + 1 + int j < rem then 1 else 0)"
        using "1.IH" [OF True refl, of j] "1.prems" True Suc
        by (simp add: unf Let_def)
      then show ?thesis using True Suc by (simp add: unf Let_def ac_simps)
    qed
  qed
qed

lemma plan_params:
  fixes total conns :: int
  assumes "0 < total"
  defines "n \<equiv> min (if conns < 1 then 1 else conns) total"
  shows "0 < n" "n \<le> total" "cdiv total n = total div n" "0 < total div n"
    "total - n * (total div n) = total mod n" "0 \<le> total mod n" "total mod n < n"
    "n * (total div n) + total mod n = total"
proof -
  show n: "0 < n" and le: "n \<le> total"
    using assms by (auto simp: n_def)
  show "cdiv total n = total div n"
    using n assms by (simp add: cdiv_nonneg)
  show "0 < total div n"
    using n le by (simp add: pos_imp_zdiv_pos_iff)
  show "total - n * (total div n) = total mod n"
    by (simp add: minus_mult_div_eq_mod)
  show "0 \<le> total mod n" "total mod n < n"
    using n by simp_all
  show "n * (total div n) + total mod n = total"
    by simp
qed

lemma planSegments_tiles_aux:
  fixes total conns :: int
  assumes "0 < total"
  shows "tiles 0 (planSegments total conns) total"
proof -
  define n where "n = min (if conns < 1 then 1 else conns) total"
  note p = plan_params [OF assms, of conns, folded n_def]
  have "tiles 0 (plan_loop 0 n (total div n) (total mod n) 0)
    (0 + (n - 0) * (total div n) + max 0 (min (total mod n) n - 0))"
    by (rule plan_loop_tiles) (use p in simp_all)
  moreover have "0 + (n - 0) * (total div n) + max 0 (min (total mod n) n - 0) = total"
    using p(6-8) by (simp add: max_def min_def)
  moreover have "planSegments total conns = plan_loop 0 n (total div n) (total mod n) 0"
    unfolding planSegments_def Let_def n_def [symmetric] p(3,5) using assms by (subst if_not_P) simp_all
  ultimately show ?thesis by simp
qed

interpretation planner: segment_planner planSegments
  by unfold_locales (rule planSegments_tiles_aux)

section \<open>Properties\<close>

text \<open>
  C9: for a known size, the planned ranges tile the file: contiguous, none empty, first byte 0,
  last byte \<open>total - 1\<close>; every offset belongs to exactly one segment.
\<close>

theorem planSegments_tile_file:
  fixes total conns :: int
  shows "0 < total \<Longrightarrow> tiles 0 (planSegments total conns) total
    \<and> (\<forall>k. 0 \<le> k \<and> k < total \<longrightarrow>
        (\<exists>!i. i < length (planSegments total conns)
          \<and> br_start (planSegments total conns ! i) \<le> k
          \<and> k \<le> br_end (planSegments total conns ! i)))"
  using planner.plan_tiles planner.plan_unique_owner by blast

theorem planSegments_tile_file_witness:
  "tiles 0 (planSegments 10 4) 10
    \<and> map (\<lambda>r. (br_start r, br_end r)) (planSegments 10 4) = [(0, 2), (3, 5), (6, 7), (8, 9)]"
  using planSegments_tile_file [of 10 4]
  by (simp add: planSegments_def Let_def plan_loop.simps cdiv_def)

end
