(* ===== verification/QtText.thy ===== *)
theory QtText
  imports Prelude "HOL-Library.Char_ord"
begin

text \<open>
  The operations of \<open>QString\<close> and \<open>QByteArray\<close> that the modelled code calls. A text is a list of
  characters, one per code unit, restricted to the Latin-1 range U+0000..U+00FF: on such texts the
  operations below are what Qt computes, case mapping and classification included.
\<close>

section \<open>Characters\<close>

definition code :: "char \<Rightarrow> nat" where
  "code c = of_char c"

text \<open>\<open>QChar::isSpace\<close> and the C-locale space test that \<open>QByteArray::trimmed\<close> uses.\<close>

definition qt_space :: "char \<Rightarrow> bool" where
  "qt_space c \<longleftrightarrow> (let n = code c in (9 \<le> n \<and> n \<le> 13) \<or> n = 32 \<or> n = 133 \<or> n = 160)"

definition ascii_space :: "char \<Rightarrow> bool" where
  "ascii_space c \<longleftrightarrow> (let n = code c in (9 \<le> n \<and> n \<le> 13) \<or> n = 32)"

definition is_digit :: "char \<Rightarrow> bool" where
  "is_digit c \<longleftrightarrow> (let n = code c in 48 \<le> n \<and> n \<le> 57)"

definition is_ascii_alpha :: "char \<Rightarrow> bool" where
  "is_ascii_alpha c \<longleftrightarrow> (let n = code c in (65 \<le> n \<and> n \<le> 90) \<or> (97 \<le> n \<and> n \<le> 122))"

text \<open>\<open>QChar::isLetterOrNumber\<close>: the general categories L*, Nd and No of the Latin-1 block.\<close>

definition is_letter_or_number :: "char \<Rightarrow> bool" where
  "is_letter_or_number c \<longleftrightarrow>
     (let n = code c in is_digit c \<or> is_ascii_alpha c
        \<or> n \<in> {170, 178, 179, 181, 185, 186, 188, 189, 190}
        \<or> (192 \<le> n \<and> n \<noteq> 215 \<and> n \<noteq> 247))"

definition lower_char :: "char \<Rightarrow> char" where
  "lower_char c =
     (let n = code c in
      if (65 \<le> n \<and> n \<le> 90) \<or> (192 \<le> n \<and> n \<le> 222 \<and> n \<noteq> 215) then char_of (n + 32) else c)"

section \<open>Strings\<close>

definition to_lower :: "string \<Rightarrow> string" where
  "to_lower s = map lower_char s"

definition trim_by :: "(char \<Rightarrow> bool) \<Rightarrow> string \<Rightarrow> string" where
  "trim_by p s = rev (dropWhile p (rev (dropWhile p s)))"

definition trimmed :: "string \<Rightarrow> string" where
  "trimmed s = trim_by qt_space s"

definition ba_trimmed :: "string \<Rightarrow> string" where
  "ba_trimmed s = trim_by ascii_space s"

definition starts_with :: "string \<Rightarrow> string \<Rightarrow> bool" where
  "starts_with p s \<longleftrightarrow> take (length p) s = p"

definition ends_with :: "string \<Rightarrow> string \<Rightarrow> bool" where
  "ends_with p s \<longleftrightarrow> length p \<le> length s \<and> drop (length s - length p) s = p"

text \<open>\<open>chop n\<close> drops the last \<open>n\<close> code units; \<open>section(c, -1)\<close> is the text after the last \<open>c\<close>.\<close>

definition chop :: "nat \<Rightarrow> string \<Rightarrow> string" where
  "chop n s = take (length s - n) s"

definition after_last :: "char \<Rightarrow> string \<Rightarrow> string" where
  "after_last c s = rev (takeWhile (\<lambda>x. x \<noteq> c) (rev s))"

definition before_first :: "char \<Rightarrow> string \<Rightarrow> string" where
  "before_first c s = takeWhile (\<lambda>x. x \<noteq> c) s"

text \<open>The text from after the first \<open>c\<close>; empty when there is none (callers test first).\<close>

definition after_first :: "char \<Rightarrow> string \<Rightarrow> string" where
  "after_first c s = drop 1 (dropWhile (\<lambda>x. x \<noteq> c) s)"

text \<open>The text before the last \<open>c\<close> (callers test that there is one).\<close>

definition before_last :: "char \<Rightarrow> string \<Rightarrow> string" where
  "before_last c s = rev (drop 1 (dropWhile (\<lambda>x. x \<noteq> c) (rev s)))"

text \<open>\<open>QString::split\<close> with \<open>Qt::KeepEmptyParts\<close>; skipping empty parts is a filter on top.\<close>

fun split_on :: "char \<Rightarrow> string \<Rightarrow> string list" where
  "split_on c [] = [[]]"
| "split_on c (x # xs) =
     (if x = c then [] # split_on c xs
      else (case split_on c xs of [] \<Rightarrow> [[x]] | p # ps \<Rightarrow> (x # p) # ps))"

definition split_skip_empty :: "char \<Rightarrow> string \<Rightarrow> string list" where
  "split_skip_empty c s = filter (\<lambda>p. p \<noteq> []) (split_on c s)"

section \<open>Decimal numbers\<close>

definition digit_val :: "char \<Rightarrow> int" where
  "digit_val c = int (code c) - 48"

fun dec_val :: "int \<Rightarrow> string \<Rightarrow> int" where
  "dec_val acc [] = acc"
| "dec_val acc (c # cs) = dec_val (10 * acc + digit_val c) cs"

text \<open>
  The C-locale integer parser behind \<open>toInt\<close> and \<open>toLongLong\<close> on a text without surrounding white
  space: an optional sign, then one or more ASCII digits up to the end.
\<close>

definition parse_unsigned :: "string \<Rightarrow> int option" where
  "parse_unsigned s = (if s \<noteq> [] \<and> list_all is_digit s then Some (dec_val 0 s) else None)"

definition parse_integer :: "string \<Rightarrow> int option" where
  "parse_integer s =
     (case s of [] \<Rightarrow> None
      | c # cs \<Rightarrow>
          if c = CHR ''-'' then map_option uminus (parse_unsigned cs)
          else if c = CHR ''+'' then parse_unsigned cs
          else parse_unsigned s)"

definition to_long_long :: "string \<Rightarrow> int option" where
  "to_long_long s =
     (case parse_integer s of None \<Rightarrow> None
      | Some v \<Rightarrow> if int64_min \<le> v \<and> v \<le> int64_max then Some v else None)"

text \<open>\<open>toInt()\<close> without the \<open>ok\<close> flag: 0 when the text is no number or out of range.\<close>

definition to_int :: "string \<Rightarrow> int" where
  "to_int s =
     (case parse_integer (trimmed s) of None \<Rightarrow> 0
      | Some v \<Rightarrow> if - 2147483648 \<le> v \<and> v \<le> 2147483647 then v else 0)"

text \<open>\<open>QByteArray::number\<close> for a non-negative value.\<close>

fun show_nat :: "nat \<Rightarrow> string" where
  "show_nat n = (if n < 10 then [char_of (48 + n)] else show_nat (n div 10) @ [char_of (48 + n mod 10)])"

declare show_nat.simps [simp del]

definition show_int :: "int \<Rightarrow> string" where
  "show_int i = (if i < 0 then CHR ''-'' # show_nat (nat (- i)) else show_nat (nat i))"

section \<open>Lemmas\<close>

lemma after_last_no_sep [text_simps]: "c \<notin> set (after_last c s)"
  by (auto simp: after_last_def dest: set_takeWhileD)

lemma set_after_last: "set (after_last c s) \<subseteq> set s"
  by (auto simp: after_last_def dest: set_takeWhileD)

lemma set_trim_by: "set (trim_by p s) \<subseteq> set s"
proof
  fix x
  assume "x \<in> set (trim_by p s)"
  then have "x \<in> set (dropWhile p (rev (dropWhile p s)))"
    by (simp add: trim_by_def)
  from set_dropWhileD [OF this] have "x \<in> set (dropWhile p s)"
    by simp
  then show "x \<in> set s"
    by (rule set_dropWhileD)
qed

lemma set_before_first: "set (before_first c s) \<subseteq> set s"
  by (auto simp: before_first_def dest: set_takeWhileD)

lemma split_on_nonempty [simp]: "split_on c s \<noteq> []"
  by (induction c s rule: split_on.induct) (auto split: list.splits)

lemma split_on_no_sep: "p \<in> set (split_on c s) \<Longrightarrow> c \<notin> set p"
proof (induction c s arbitrary: p rule: split_on.induct)
  case (1 c)
  then show ?case by simp
next
  case (2 c x xs)
  then show ?case by (cases "split_on c xs") (auto split: if_splits)
qed

lemma split_on_set: "p \<in> set (split_on c s) \<Longrightarrow> set p \<subseteq> set s"
proof (induction c s arbitrary: p rule: split_on.induct)
  case (1 c)
  then show ?case by simp
next
  case (2 c x xs)
  then show ?case by (cases "split_on c xs") (fastforce split: if_splits)+
qed

lemma split_on_single: "c \<notin> set s \<Longrightarrow> split_on c s = [s]"
  by (induction s) auto

lemma split_on_append: "c \<notin> set a \<Longrightarrow> split_on c (a @ c # b) = a # split_on c b"
  by (induction a) auto

lemma trim_by_none: "list_all (\<lambda>c. \<not> p c) s \<Longrightarrow> trim_by p s = s"
proof -
  assume a: "list_all (\<lambda>c. \<not> p c) s"
  then have "dropWhile p s = s"
    by (cases s) auto
  moreover from a have "dropWhile p (rev s) = rev s"
    by (cases s rule: rev_cases) auto
  ultimately show ?thesis by (simp add: trim_by_def)
qed

lemma digit_val_char_of: "(d::nat) < 10 \<Longrightarrow> digit_val (char_of (48 + d)) = int d"
  by (simp add: digit_val_def code_def)

lemma is_digit_char_of: "(d::nat) < 10 \<Longrightarrow> is_digit (char_of (48 + d))"
  by (simp add: is_digit_def code_def)

lemma dec_val_append: "dec_val a (xs @ ys) = dec_val (dec_val a xs) ys"
  by (induction xs arbitrary: a) auto

lemma show_nat_digits: "list_all is_digit (show_nat n)"
proof (induction n rule: show_nat.induct)
  case (1 n)
  then show ?case
    by (cases "n < 10") (simp_all add: show_nat.simps [of n] is_digit_char_of)
qed

lemma show_nat_nonempty [simp]: "show_nat n \<noteq> []"
  by (simp add: show_nat.simps [of n])

lemma dec_val_show_nat: "dec_val 0 (show_nat n) = int n"
proof (induction n rule: show_nat.induct)
  case (1 n)
  show ?case
  proof (cases "n < 10")
    case True
    then show ?thesis by (simp add: show_nat.simps [of n] digit_val_char_of)
  next
    case False
    then have "dec_val 0 (show_nat n) = 10 * int (n div 10) + int (n mod 10)"
      using 1 by (simp add: show_nat.simps [of n] dec_val_append digit_val_char_of)
    also have "\<dots> = int n"
      by presburger
    finally show ?thesis .
  qed
qed

lemma parse_unsigned_show_nat [text_simps]: "parse_unsigned (show_nat n) = Some (int n)"
  by (simp add: parse_unsigned_def show_nat_digits dec_val_show_nat)

lemma digit_not_sign: "is_digit c \<Longrightarrow> c \<noteq> CHR ''-'' \<and> c \<noteq> CHR ''+''"
  by (auto simp: is_digit_def code_def)

lemma parse_integer_show_nat [text_simps]: "parse_integer (show_nat n) = Some (int n)"
proof -
  obtain c cs where s: "show_nat n = c # cs"
    by (cases "show_nat n") auto
  with show_nat_digits [of n] have "is_digit c"
    by simp
  with s show ?thesis
    using digit_not_sign [of c] parse_unsigned_show_nat [of n]
    by (simp add: parse_integer_def)
qed

lemma digit_not_space: "is_digit c \<Longrightarrow> \<not> qt_space c \<and> \<not> ascii_space c"
  by (auto simp: is_digit_def qt_space_def ascii_space_def Let_def)

lemma trimmed_show_nat: "trimmed (show_nat n) = show_nat n" "ba_trimmed (show_nat n) = show_nat n"
  using show_nat_digits [of n]
  by (auto simp: trimmed_def ba_trimmed_def list_all_iff digit_not_space intro!: trim_by_none)

end
