(* ===== verification/HttpDownload.thy ===== *)
theory HttpDownload
  imports RangePlan QtText
begin

text \<open>
  The segmented HTTP downloader (\<open>src/services/downloads/httpdownload.{h,cpp}\<close>). The record
  \<open>HttpDownload\<close> holds the members of the class, the record extension \<open>DlWorld\<close> what the object
  acts on: the files on disk, the network replies it has in flight and the signals it has emitted.
  Every slot, every operation and the sampler's timer callback is a state transformer; \<open>dl_step\<close>
  runs one event. A \<open>QNetworkReply\<close> is a number; a reply in flight remembers the segment it was
  created for, the \<open>Range\<close> header it was sent with and how many bytes it has delivered. Outcomes of
  the file system (can the part file be opened, does the rename succeed, how much of a write
  reaches the disk) are inputs of the transitions. An aborted reply delivers nothing more.
\<close>

section \<open>State\<close>

datatype DlState = Queued | Probing | Downloading | Paused | Completed | Failed

text \<open>The texts given to \<open>fail\<close>, as values.\<close>

datatype DlError =
    NoError
  | Stalled
  | CannotOpen string
  | DiskWriteFailed
  | SegmentOverrun
  | SizeMismatch int int
  | CannotFinalize string
  | ReplyError string

datatype DlSignal = Progressed | StateChanged | Finished bool

record Segment =
  sg_range :: ByteRange
  sg_received :: int
  sg_reply :: "nat option"

record NetReply =
  nr_seg :: nat
  nr_range :: "(int \<times> int) option"
  nr_sent :: int

record HttpDownload =
  m_id :: string
  m_url :: string
  m_urlPath :: string
  m_saveDir :: string
  m_fileName :: string
  m_state :: DlState
  m_total :: int
  m_acceptRanges :: bool
  m_error :: DlError
  m_file :: "string option"
  m_segments :: "Segment list"
  m_conns :: int
  m_probe :: "nat option"
  m_samplerOn :: bool
  m_lastSampledBytes :: int
  m_rate :: int
  m_lastProgressMs :: int
  m_stallRetried :: bool

record DlWorld = HttpDownload +
  w_files :: "string \<Rightarrow> bytes option"
  w_net :: "nat \<Rightarrow> NetReply option"
  w_next :: nat
  w_signals :: "DlSignal list"

text \<open>What the environment decides while an operation runs.\<close>

record Io =
  io_open :: bool
  io_rename :: bool

record ProbeReply =
  pr_error :: "string option"
  pr_code :: int
  pr_disposition :: "string option"
  pr_contentRange :: string
  pr_contentLength :: "int option"

section \<open>Constants and helpers\<close>

definition kStallMs :: int where
  "kStallMs = 30000"

definition kMaxTotal :: int where
  "kMaxTotal = 4398046511104"

definition totalFromContentRange :: "string \<Rightarrow> int" where
  "totalFromContentRange cr =
     (if CHR ''/'' \<notin> set cr then -1
      else let tail = ba_trimmed (after_last CHR ''/'' cr) in
        if tail = ''*'' \<or> tail = [] then -1
        else case to_long_long tail of
               None \<Rightarrow> -1
             | Some v \<Rightarrow> if 0 < v \<and> v \<le> kMaxTotal then v else -1)"

text \<open>\<open>Segment::done()\<close>.\<close>

definition seg_done :: "Segment \<Rightarrow> bool" where
  "seg_done s \<longleftrightarrow> br_size (sg_range s) \<le> sg_received s"

text \<open>\<open>QDir(dir).filePath(name)\<close> for a clean, non-empty directory path.\<close>

definition filePath :: "string \<Rightarrow> string \<Rightarrow> string" where
  "filePath dir name =
     (if starts_with ''/'' name then name
      else if ends_with ''/'' dir then dir @ name
      else dir @ ''/'' @ name)"

definition finalPath :: "('a) HttpDownload_scheme \<Rightarrow> string" where
  "finalPath d = filePath (m_saveDir d) (m_fileName d)"

definition partPath :: "('a) HttpDownload_scheme \<Rightarrow> string" where
  "partPath d = finalPath d @ ''.part''"

definition receivedBytes :: "('a) HttpDownload_scheme \<Rightarrow> int" where
  "receivedBytes d = sum_list (map sg_received (m_segments d))"

text \<open>
  The regular expression of \<open>fileNameFromReply\<close>,
  \<open>filename\*?=(?:UTF-8''|")?([^";]+)\<close>, case-insensitive: the match attempt at one position, with
  the alternatives in the order the matcher tries them, then the leftmost position that matches.
\<close>

definition capture_name :: "string \<Rightarrow> string option" where
  "capture_name s =
     (let c = takeWhile (\<lambda>x. x \<noteq> CHR 0x22 \<and> x \<noteq> CHR '';'') s in if c = [] then None else Some c)"

definition strip_prefix_ci :: "string \<Rightarrow> string \<Rightarrow> string option" where
  "strip_prefix_ci p s =
     (if to_lower (take (length p) s) = p then Some (drop (length p) s) else None)"

definition match_value :: "string \<Rightarrow> string option" where
  "match_value s =
     (case strip_prefix_ci [CHR ''u'', CHR ''t'', CHR ''f'', CHR ''-'', CHR ''8'', CHR 0x27, CHR 0x27] s of
        Some r \<Rightarrow> (case capture_name r of Some c \<Rightarrow> Some c | None \<Rightarrow> capture_name s)
      | None \<Rightarrow>
          (case s of
             q # r \<Rightarrow> if q = CHR 0x22 then capture_name r else capture_name s
           | [] \<Rightarrow> None))"

definition match_filename_at :: "string \<Rightarrow> string option" where
  "match_filename_at s =
     (case strip_prefix_ci ''filename'' s of
        None \<Rightarrow> None
      | Some r \<Rightarrow>
          (case (if starts_with ''*'' r then drop 1 r else r) of
             e # v \<Rightarrow> if e = CHR ''='' then match_value v else None
           | [] \<Rightarrow> None))"

fun match_filename :: "string \<Rightarrow> string option" where
  "match_filename [] = match_filename_at []"
| "match_filename (c # cs) =
     (case match_filename_at (c # cs) of Some n \<Rightarrow> Some n | None \<Rightarrow> match_filename cs)"

text \<open>\<open>decode\<close> is \<open>QUrl::fromPercentEncoding\<close> on the UTF-8 form of its argument.\<close>

definition fileNameFromReply :: "(string \<Rightarrow> string) \<Rightarrow> string option \<Rightarrow> string \<Rightarrow> string" where
  "fileNameFromReply decode cd urlPath =
     (let fallback = after_last CHR ''/'' urlPath in
      case cd of
        None \<Rightarrow> fallback
      | Some h \<Rightarrow>
          if h = [] then fallback
          else (case match_filename h of
                  None \<Rightarrow> fallback
                | Some c \<Rightarrow>
                    let fn = after_last CHR 0x5C (after_last CHR ''/'' (decode (trimmed c)))
                    in if fn \<noteq> [] then fn else fallback))"

section \<open>Operations\<close>

text \<open>
  The constructor: the file name falls back to the URL's last path part, then to the id. A URL is
  its text \<open>url\<close> together with the path component \<open>urlPath\<close> that \<open>QUrl::path\<close> gives for it.
\<close>

definition mkHttpDownload ::
  "string \<Rightarrow> string \<Rightarrow> string \<Rightarrow> string \<Rightarrow> string \<Rightarrow> (string \<Rightarrow> bytes option) \<Rightarrow> DlWorld" where
  "mkHttpDownload ident url urlPath saveDir fileName files =
     \<lparr>m_id = ident, m_url = url, m_urlPath = urlPath, m_saveDir = saveDir,
      m_fileName =
        (if fileName \<noteq> [] then fileName
         else let n = after_last CHR ''/'' urlPath in
              if n = [] then ''download-'' @ ident else n),
      m_state = Queued, m_total = -1, m_acceptRanges = False, m_error = NoError,
      m_file = None, m_segments = [], m_conns = 4, m_probe = None, m_samplerOn = False,
      m_lastSampledBytes = 0, m_rate = 0, m_lastProgressMs = 0, m_stallRetried = False,
      w_files = files, w_net = (\<lambda>_. None), w_next = 0, w_signals = []\<rparr>"

definition emit :: "DlSignal \<Rightarrow> DlWorld \<Rightarrow> DlWorld" where
  "emit sig d = d\<lparr>w_signals := w_signals d @ [sig]\<rparr>"

definition setState :: "DlState \<Rightarrow> DlWorld \<Rightarrow> DlWorld" where
  "setState s d = (if m_state d = s then d else emit StateChanged (d\<lparr>m_state := s\<rparr>))"

text \<open>
  \<open>abortReplies\<close>: every reply pointer is cleared before the reply is aborted, and an aborted reply
  leaves the network. The \<open>finished\<close> signal that \<open>abort()\<close> emits re-enters \<open>onSegmentFinished\<close>,
  which ignores a reply no segment holds (\<open>stale_reply_ignored\<close> below).
\<close>

definition abortReplies :: "DlWorld \<Rightarrow> DlWorld" where
  "abortReplies d =
     d\<lparr>m_probe := None,
       m_segments := map (\<lambda>s. s\<lparr>sg_reply := None\<rparr>) (m_segments d),
       w_net := (\<lambda>r. if Some r \<in> set (map sg_reply (m_segments d)) then None else w_net d r)\<rparr>"

definition fail :: "DlError \<Rightarrow> DlWorld \<Rightarrow> DlWorld" where
  "fail why d =
     emit (Finished False)
       (setState Failed
         ((abortReplies (d\<lparr>m_error := why\<rparr>))\<lparr>m_file := None, m_samplerOn := False\<rparr>))"

definition spawnSegment :: "nat \<Rightarrow> DlWorld \<Rightarrow> DlWorld" where
  "spawnSegment idx d =
     (let s = m_segments d ! idx in
      if sg_reply s \<noteq> None \<or> seg_done s then d
      else
        let rng = (if m_acceptRanges d \<and> 0 \<le> br_end (sg_range s)
                   then Some (br_start (sg_range s) + sg_received s, br_end (sg_range s))
                   else None);
            r = w_next d
        in d\<lparr>m_segments := (m_segments d)[idx := s\<lparr>sg_reply := Some r\<rparr>],
             w_net := (w_net d)(r \<mapsto> \<lparr>nr_seg = idx, nr_range = rng, nr_sent = 0\<rparr>),
             w_next := Suc r\<rparr>)"

text \<open>The loops that spawn every segment not yet done (and, on a stall, not yet in flight).\<close>

definition spawnPending :: "DlWorld \<Rightarrow> DlWorld" where
  "spawnPending d =
     fold (\<lambda>i x. if \<not> seg_done (m_segments x ! i) then spawnSegment i x else x)
       [0..<length (m_segments d)] d"

definition respawnIdle :: "DlWorld \<Rightarrow> DlWorld" where
  "respawnIdle d =
     fold (\<lambda>i x. if sg_reply (m_segments x ! i) = None \<and> \<not> seg_done (m_segments x ! i)
                 then spawnSegment i x else x)
       [0..<length (m_segments d)] d"

definition maybeComplete :: "Io \<Rightarrow> DlWorld \<Rightarrow> DlWorld" where
  "maybeComplete io d =
     (if \<not> list_all seg_done (m_segments d) then d
      else
        let got = receivedBytes d; d1 = d\<lparr>m_file := None\<rparr> in
        if 0 < m_total d1 \<and> got \<noteq> m_total d1 then fail (SizeMismatch got (m_total d1)) d1
        else
          let d2 = d1\<lparr>w_files := (w_files d1)(finalPath d1 := None)\<rparr> in
          case w_files d2 (partPath d2) of
            None \<Rightarrow> fail (CannotFinalize (finalPath d2)) d2
          | Some content \<Rightarrow>
              if \<not> io_rename io then fail (CannotFinalize (finalPath d2)) d2
              else
                let d3 = d2\<lparr>w_files :=
                       (w_files d2)(finalPath d2 := Some content, partPath d2 := None),
                       m_samplerOn := False, m_rate := 0\<rparr>
                in emit (Finished True) (emit Progressed (setState Completed d3)))"

text \<open>Opening the part file for reading and writing creates it; a wrong size is corrected.\<close>

definition openPart :: "DlWorld \<Rightarrow> DlWorld" where
  "openPart d =
     (let p = partPath d;
          c = (case w_files d p of None \<Rightarrow> [] | Some f \<Rightarrow> f);
          c' = (if 0 < m_total d \<and> int (length c) \<noteq> m_total d
                then resize_file (nat (m_total d)) c else c)
      in d\<lparr>m_file := Some p, w_files := (w_files d)(p \<mapsto> c')\<rparr>)"

definition beginSegments :: "Io \<Rightarrow> DlWorld \<Rightarrow> DlWorld" where
  "beginSegments io d =
     (if m_file d = None \<and> \<not> io_open io then fail (CannotOpen (partPath d)) d
      else
        let d1 = (if m_file d = None then openPart d else d);
            d2 = (setState Downloading d1)\<lparr>m_stallRetried := False, m_samplerOn := True\<rparr>
        in maybeComplete io (spawnPending d2))"

definition start :: "Io \<Rightarrow> DlWorld \<Rightarrow> DlWorld" where
  "start io d =
     (if m_state d = Downloading \<or> m_state d = Probing then d
      else
        let d1 = d\<lparr>m_error := NoError, m_lastProgressMs := 0,
                   m_lastSampledBytes := receivedBytes d\<rparr>
        in if 0 < m_total d1 \<and> m_segments d1 \<noteq> [] then beginSegments io d1
           else (setState Probing d1)\<lparr>m_probe := Some (w_next d1), w_next := Suc (w_next d1)\<rparr>)"

definition onProbeFinished :: "(string \<Rightarrow> string) \<Rightarrow> ProbeReply \<Rightarrow> Io \<Rightarrow> DlWorld \<Rightarrow> DlWorld" where
  "onProbeFinished decode pr io d0 =
     (if m_probe d0 = None then d0
      else
        let d = d0\<lparr>m_probe := None\<rparr> in
        case pr_error pr of
          Some e \<Rightarrow> fail (ReplyError e) d
        | None \<Rightarrow>
            let name = (if pr_disposition pr \<noteq> None \<and> starts_with ''download-'' (m_fileName d)
                        then let fn = fileNameFromReply decode (pr_disposition pr) (m_urlPath d)
                             in if fn \<noteq> [] then fn else m_fileName d
                        else m_fileName d);
                ranges = (pr_code pr = 206);
                total = (if ranges then totalFromContentRange (pr_contentRange pr)
                         else case pr_contentLength pr of
                                None \<Rightarrow> -1
                              | Some len \<Rightarrow> if 0 < len \<and> len \<le> kMaxTotal then len else -1);
                segs = (if ranges \<and> 0 < total
                        then map (\<lambda>br. \<lparr>sg_range = br, sg_received = 0, sg_reply = None\<rparr>)
                               (planSegments total (m_conns d))
                        else [\<lparr>sg_range =
                                 \<lparr>br_start = 0, br_end = (if 0 < total then total - 1 else -1)\<rparr>,
                               sg_received = 0, sg_reply = None\<rparr>])
            in beginSegments io
                 (d\<lparr>m_fileName := name, m_acceptRanges := ranges, m_total := total,
                    m_segments := segs\<rparr>))"

text \<open>
  \<open>onSegmentReadyRead\<close> for the reply \<open>r\<close>: \<open>chunk\<close> is what \<open>readAll\<close> returns, \<open>written\<close> how many of
  its bytes reach the file (\<open>None\<close> when the seek fails). The bytes are written before the overrun
  test, as in the code.
\<close>

definition writePart :: "int \<Rightarrow> bytes \<Rightarrow> DlWorld \<Rightarrow> DlWorld" where
  "writePart off bs d =
     (case m_file d of
        None \<Rightarrow> d
      | Some p \<Rightarrow>
          (case w_files d p of
             None \<Rightarrow> d
           | Some c \<Rightarrow> d\<lparr>w_files := (w_files d)(p \<mapsto> write_at (nat off) bs c)\<rparr>))"

definition onSegmentReadyRead :: "nat \<Rightarrow> bytes \<Rightarrow> nat option \<Rightarrow> DlWorld \<Rightarrow> DlWorld" where
  "onSegmentReadyRead r chunk written d =
     (case w_net d r of
        None \<Rightarrow> d
      | Some nr \<Rightarrow>
          if m_state d \<noteq> Downloading then d
          else
            let idx = nr_seg nr in
            if length (m_segments d) \<le> idx then d
            else if chunk = [] then d
            else
              let s = m_segments d ! idx;
                  writeAt = br_start (sg_range s) + sg_received s;
                  n = (case written of None \<Rightarrow> 0 | Some k \<Rightarrow> min k (length chunk));
                  d1 = writePart writeAt (take n chunk)
                         (d\<lparr>w_net := (w_net d)
                              (r \<mapsto> nr\<lparr>nr_sent := nr_sent nr + int (length chunk)\<rparr>)\<rparr>)
              in if m_file d = None \<or> n \<noteq> length chunk then fail DiskWriteFailed d1
                 else
                   let s' = s\<lparr>sg_received := sg_received s + int (length chunk)\<rparr>;
                       d2 = d1\<lparr>m_segments := (m_segments d1)[idx := s']\<rparr>
                   in if 0 \<le> br_end (sg_range s')
                         \<and> br_end (sg_range s') + 1 < br_start (sg_range s') + sg_received s'
                      then fail SegmentOverrun d2 else d2)"

definition onSegmentFinished :: "nat \<Rightarrow> string option \<Rightarrow> Io \<Rightarrow> DlWorld \<Rightarrow> DlWorld" where
  "onSegmentFinished r err io d =
     (case w_net d r of
        None \<Rightarrow> d
      | Some nr \<Rightarrow>
          let idx = nr_seg nr in
          if length (m_segments d) \<le> idx then d
          else
            let s = m_segments d ! idx in
            if sg_reply s \<noteq> Some r then d
            else
              let s1 = s\<lparr>sg_reply := None\<rparr>;
                  d1 = d\<lparr>m_segments := (m_segments d)[idx := s1], w_net := (w_net d)(r := None)\<rparr>
              in if m_state d1 \<noteq> Downloading then d1
                 else
                   (case err of
                      Some e \<Rightarrow> fail (ReplyError e) d1
                    | None \<Rightarrow>
                        (let d2 =
                           (if m_total d1 \<le> 0 \<and> br_end (sg_range s1) < 0
                            then d1\<lparr>m_total := sg_received s1,
                                   m_segments := (m_segments d1)
                                     [idx := s1\<lparr>sg_range := (sg_range s1)
                                        \<lparr>br_end := sg_received s1 - 1\<rparr>\<rparr>]\<rparr>
                            else d1)
                         in maybeComplete io d2)))"

text \<open>The sampler's timer callback; \<open>elapsed\<close> is \<open>m_clock.elapsed()\<close>.\<close>

definition samplerTick :: "int \<Rightarrow> DlWorld \<Rightarrow> DlWorld" where
  "samplerTick elapsed d =
     (if \<not> m_samplerOn d then d
      else
        let now = receivedBytes d;
            rate = to_int32 (now - m_lastSampledBytes d);
            d1 = emit Progressed
                   (d\<lparr>m_rate := rate,
                      m_lastProgressMs := (if 0 < rate then elapsed else m_lastProgressMs d),
                      m_lastSampledBytes := now\<rparr>)
        in if m_state d1 = Downloading \<and> kStallMs < elapsed - m_lastProgressMs d1
           then if \<not> m_stallRetried d1
                then respawnIdle (d1\<lparr>m_stallRetried := True, m_lastProgressMs := elapsed\<rparr>)
                else fail Stalled d1
           else d1)"

definition pause :: "DlWorld \<Rightarrow> DlWorld" where
  "pause d =
     (if m_state d \<noteq> Downloading \<and> m_state d \<noteq> Probing then d
      else emit Progressed
             (setState Paused ((abortReplies d)\<lparr>m_samplerOn := False, m_rate := 0\<rparr>)))"

definition resume :: "Io \<Rightarrow> DlWorld \<Rightarrow> DlWorld" where
  "resume io d = (if m_state d \<noteq> Paused \<and> m_state d \<noteq> Failed then d else start io d)"

definition cancel :: "bool \<Rightarrow> DlWorld \<Rightarrow> DlWorld" where
  "cancel deletePartial d =
     (let d1 = (abortReplies d)\<lparr>m_file := None, m_samplerOn := False\<rparr>
      in if deletePartial then d1\<lparr>w_files := (w_files d1)(partPath d1 := None)\<rparr> else d1)"

section \<open>The persisted state\<close>

text \<open>The \<open>QVariantMap\<close> of \<open>toState\<close>, with its fixed keys as fields.\<close>

record SavedSegment =
  ss_start :: int
  ss_end :: int
  ss_received :: int

record SavedState =
  sv_id :: string
  sv_url :: string
  sv_saveDir :: string
  sv_fileName :: string
  sv_total :: int
  sv_acceptRanges :: bool
  sv_state :: DlState
  sv_segments :: "SavedSegment list"

definition toState :: "DlWorld \<Rightarrow> SavedState" where
  "toState d =
     \<lparr>sv_id = m_id d, sv_url = m_url d, sv_saveDir = m_saveDir d, sv_fileName = m_fileName d, sv_total = m_total d,
      sv_acceptRanges = m_acceptRanges d,
      sv_state = (if m_state d = Completed then Completed else Paused),
      sv_segments = map (\<lambda>s. \<lparr>ss_start = br_start (sg_range s), ss_end = br_end (sg_range s),
                             ss_received = sg_received s\<rparr>) (m_segments d)\<rparr>"

definition restoreState :: "SavedState \<Rightarrow> DlWorld \<Rightarrow> DlWorld" where
  "restoreState m d =
     d\<lparr>m_total := sv_total m, m_acceptRanges := sv_acceptRanges m, m_state := sv_state m,
       m_segments := map (\<lambda>s. \<lparr>sg_range = \<lparr>br_start = ss_start s, br_end = ss_end s\<rparr>,
                              sg_received = ss_received s, sg_reply = None\<rparr>) (sv_segments m)\<rparr>"

section \<open>Runs\<close>

datatype DlEvent =
    EvStart Io
  | EvProbe ProbeReply Io
  | EvChunk nat bytes "nat option"
  | EvSegFinished nat "string option" Io
  | EvTick int
  | EvPause
  | EvResume Io
  | EvCancel bool

fun dl_step :: "(string \<Rightarrow> string) \<Rightarrow> DlEvent \<Rightarrow> DlWorld \<Rightarrow> DlWorld" where
  "dl_step dec (EvStart io) d = start io d"
| "dl_step dec (EvProbe pr io) d = onProbeFinished dec pr io d"
| "dl_step dec (EvChunk r bs w) d = onSegmentReadyRead r bs w d"
| "dl_step dec (EvSegFinished r e io) d = onSegmentFinished r e io d"
| "dl_step dec (EvTick t) d = samplerTick t d"
| "dl_step dec EvPause d = pause d"
| "dl_step dec (EvResume io) d = resume io d"
| "dl_step dec (EvCancel b) d = cancel b d"

fun dl_run :: "(string \<Rightarrow> string) \<Rightarrow> DlEvent list \<Rightarrow> DlWorld \<Rightarrow> DlWorld" where
  "dl_run dec [] d = d"
| "dl_run dec (e # es) d = dl_run dec es (dl_step dec e d)"

end
