(* ===== verification/HttpDownloadInv.thy ===== *)
theory HttpDownloadInv
  imports HttpDownload
begin

text \<open>
  Correctness of the segmented downloader. For a server that honours ranges and serves the bytes
  \<open>D\<close>, the invariant \<open>dl_inv D\<close> holds in every state an event sequence reaches, whatever the
  interleaving of chunks, early closes, errors, stalls, pauses, resumes and file-system failures;
  a download that reports completion has exactly \<open>D\<close> under its final name. Then come the
  behaviours off that path: the size gate, stale replies, the sanitised file name, the resume-state
  round trip, and the two cases in which the code completes with other bytes than the server's.
\<close>

section \<open>The invariant\<close>

definition slice_ok :: "bytes \<Rightarrow> bytes \<Rightarrow> Segment \<Rightarrow> bool" where
  "slice_ok D c s \<longleftrightarrow>
     (\<forall>k. br_start (sg_range s) \<le> int k \<and> int k < br_start (sg_range s) + sg_received s
        \<longrightarrow> c ! k = D ! k)"

definition seg_wf :: "Segment \<Rightarrow> bool" where
  "seg_wf s \<longleftrightarrow> 0 \<le> sg_received s \<and> sg_received s \<le> br_size (sg_range s)"

definition planned :: "bytes \<Rightarrow> DlWorld \<Rightarrow> bool" where
  "planned D d \<longleftrightarrow>
     m_total d = int (length D) \<and> m_acceptRanges d \<and> m_segments d \<noteq> [] \<and> m_probe d = None
     \<and> tiles 0 (map sg_range (m_segments d)) (int (length D))
     \<and> (\<forall>s \<in> set (m_segments d). seg_wf s)"

definition part_ok :: "bytes \<Rightarrow> DlWorld \<Rightarrow> bool" where
  "part_ok D d \<longleftrightarrow>
     (\<exists>c. w_files d (partPath d) = Some c \<and> length c = length D
        \<and> (\<forall>s \<in> set (m_segments d). slice_ok D c s))
     \<or> (m_file d = None \<and> (\<forall>s \<in> set (m_segments d). sg_received s = 0))"

definition net_ok :: "DlWorld \<Rightarrow> bool" where
  "net_ok d \<longleftrightarrow>
     (\<forall>r nr. w_net d r = Some nr \<longrightarrow>
        nr_seg nr < length (m_segments d)
        \<and> sg_reply (m_segments d ! nr_seg nr) = Some r
        \<and> (\<exists>from. nr_range nr = Some (from, br_end (sg_range (m_segments d ! nr_seg nr)))
             \<and> from + nr_sent nr = br_start (sg_range (m_segments d ! nr_seg nr))
                 + sg_received (m_segments d ! nr_seg nr)))"

definition file_ok :: "DlWorld \<Rightarrow> bool" where
  "file_ok d \<longleftrightarrow> (m_file d = None \<or> m_file d = Some (partPath d))"

definition xfer_ok :: "bytes \<Rightarrow> DlWorld \<Rightarrow> bool" where
  "xfer_ok D d \<longleftrightarrow> planned D d \<and> part_ok D d \<and> net_ok d \<and> file_ok d"

definition unplanned :: "DlWorld \<Rightarrow> bool" where
  "unplanned d \<longleftrightarrow>
     m_segments d = [] \<and> m_total d = -1 \<and> m_file d = None \<and> w_net d = (\<lambda>_. None)
     \<and> m_state d \<noteq> Downloading"

definition dl_inv :: "bytes \<Rightarrow> DlWorld \<Rightarrow> bool" where
  "dl_inv D d \<longleftrightarrow>
     (if m_state d = Completed then m_probe d = None \<and> w_files d (finalPath d) = Some D
      else unplanned d \<or> xfer_ok D d)"

text \<open>
  The environment of the transfer theorem: the server answers the probe with an error or with 206
  and the right size, and every chunk of a ranged reply is the next piece of \<open>D\<close> inside the range
  that was asked for. Replies may end early, with or without an error; files may fail to open, to
  take a whole write or to be renamed; pauses, resumes and sampler ticks come at any time. The
  manager starts a download once and drops it after \<open>cancel\<close>.
\<close>

fun honest :: "bytes \<Rightarrow> DlEvent \<Rightarrow> DlWorld \<Rightarrow> bool" where
  "honest D (EvStart io) d \<longleftrightarrow> m_state d = Queued"
| "honest D (EvProbe pr io) d \<longleftrightarrow>
     pr_error pr \<noteq> None
     \<or> (pr_code pr = 206 \<and> totalFromContentRange (pr_contentRange pr) = int (length D))"
| "honest D (EvChunk r bs w) d \<longleftrightarrow>
     (case w_net d r of
        None \<Rightarrow> True
      | Some nr \<Rightarrow>
          (case nr_range nr of
             None \<Rightarrow> False
           | Some (from, to) \<Rightarrow>
               from + nr_sent nr + int (length bs) \<le> to + 1
               \<and> bs = take (length bs) (drop (nat (from + nr_sent nr)) D)))"
| "honest D (EvSegFinished r e io) d \<longleftrightarrow> True"
| "honest D (EvTick t) d \<longleftrightarrow> True"
| "honest D EvPause d \<longleftrightarrow> True"
| "honest D (EvResume io) d \<longleftrightarrow> True"
| "honest D (EvCancel b) d \<longleftrightarrow> False"

fun honest_run :: "(string \<Rightarrow> string) \<Rightarrow> bytes \<Rightarrow> DlEvent list \<Rightarrow> DlWorld \<Rightarrow> bool" where
  "honest_run dec D [] d \<longleftrightarrow> True"
| "honest_run dec D (e # es) d \<longleftrightarrow> honest D e d \<and> honest_run dec D es (dl_step dec e d)"

section \<open>Frame lemmas\<close>

lemma part_neq_final [simp]: "partPath d \<noteq> finalPath d" "finalPath d \<noteq> partPath d"
  by (simp_all add: partPath_def)

lemma emit_fields [simp]:
  "m_state (emit s d) = m_state d" "m_probe (emit s d) = m_probe d" "w_files (emit s d) = w_files d"
  "finalPath (emit s d) = finalPath d" "partPath (emit s d) = partPath d"
  "m_segments (emit s d) = m_segments d" "m_total (emit s d) = m_total d"
  "m_file (emit s d) = m_file d" "w_net (emit s d) = w_net d"
  "m_acceptRanges (emit s d) = m_acceptRanges d" "w_signals (emit s d) = w_signals d @ [s]"
  "m_fileName (emit s d) = m_fileName d"
  by (simp_all add: emit_def finalPath_def partPath_def)

lemma setState_fields [simp]:
  "m_state (setState s d) = s" "m_probe (setState s d) = m_probe d"
  "w_files (setState s d) = w_files d"
  "finalPath (setState s d) = finalPath d" "partPath (setState s d) = partPath d"
  "m_segments (setState s d) = m_segments d" "m_total (setState s d) = m_total d"
  "m_file (setState s d) = m_file d" "w_net (setState s d) = w_net d"
  "m_acceptRanges (setState s d) = m_acceptRanges d"
  "m_fileName (setState s d) = m_fileName d"
  by (simp_all add: setState_def emit_def finalPath_def partPath_def)

lemma path_frames [simp]:
  "partPath (d\<lparr>m_error := e\<rparr>) = partPath d" "partPath (d\<lparr>m_state := st\<rparr>) = partPath d"
  "partPath (d\<lparr>m_segments := sg\<rparr>) = partPath d" "partPath (d\<lparr>m_file := f\<rparr>) = partPath d"
  "partPath (d\<lparr>m_total := t\<rparr>) = partPath d" "partPath (d\<lparr>w_files := fs\<rparr>) = partPath d"
  "partPath (d\<lparr>w_net := nt\<rparr>) = partPath d" "partPath (d\<lparr>w_next := nx\<rparr>) = partPath d"
  "partPath (d\<lparr>m_samplerOn := b\<rparr>) = partPath d" "partPath (d\<lparr>m_rate := ra\<rparr>) = partPath d"
  "partPath (d\<lparr>m_stallRetried := b\<rparr>) = partPath d" "partPath (d\<lparr>m_probe := pr\<rparr>) = partPath d"
  "partPath (d\<lparr>m_acceptRanges := b\<rparr>) = partPath d"
  "partPath (d\<lparr>m_lastProgressMs := t\<rparr>) = partPath d"
  "partPath (d\<lparr>m_lastSampledBytes := t\<rparr>) = partPath d"
  "finalPath (d\<lparr>m_error := e\<rparr>) = finalPath d" "finalPath (d\<lparr>m_state := st\<rparr>) = finalPath d"
  "finalPath (d\<lparr>m_segments := sg\<rparr>) = finalPath d" "finalPath (d\<lparr>m_file := f\<rparr>) = finalPath d"
  "finalPath (d\<lparr>m_total := t\<rparr>) = finalPath d" "finalPath (d\<lparr>w_files := fs\<rparr>) = finalPath d"
  "finalPath (d\<lparr>w_net := nt\<rparr>) = finalPath d" "finalPath (d\<lparr>w_next := nx\<rparr>) = finalPath d"
  "finalPath (d\<lparr>m_samplerOn := b\<rparr>) = finalPath d" "finalPath (d\<lparr>m_rate := ra\<rparr>) = finalPath d"
  "finalPath (d\<lparr>m_stallRetried := b\<rparr>) = finalPath d" "finalPath (d\<lparr>m_probe := pr\<rparr>) = finalPath d"
  "finalPath (d\<lparr>m_acceptRanges := b\<rparr>) = finalPath d"
  "finalPath (d\<lparr>m_lastProgressMs := t\<rparr>) = finalPath d"
  "finalPath (d\<lparr>m_lastSampledBytes := t\<rparr>) = finalPath d"
  by (simp_all add: finalPath_def partPath_def)

lemmas xfer_defs = xfer_ok_def planned_def part_ok_def net_ok_def file_ok_def

lemma xfer_frames [simp]:
  "xfer_ok D (d\<lparr>m_error := e\<rparr>) = xfer_ok D d" "xfer_ok D (d\<lparr>m_state := st\<rparr>) = xfer_ok D d"
  "xfer_ok D (d\<lparr>m_samplerOn := b\<rparr>) = xfer_ok D d" "xfer_ok D (d\<lparr>m_rate := ra\<rparr>) = xfer_ok D d"
  "xfer_ok D (d\<lparr>m_stallRetried := b\<rparr>) = xfer_ok D d"
  "xfer_ok D (d\<lparr>m_lastProgressMs := t\<rparr>) = xfer_ok D d"
  "xfer_ok D (d\<lparr>m_lastSampledBytes := t\<rparr>) = xfer_ok D d"
  "xfer_ok D (emit sig d) = xfer_ok D d" "xfer_ok D (setState st d) = xfer_ok D d"
  by (simp_all add: xfer_defs)

lemma xfer_close: "xfer_ok D d \<Longrightarrow> xfer_ok D (d\<lparr>m_file := None\<rparr>)"
  by (auto simp: xfer_defs)

lemma xfer_nonempty: "xfer_ok D d \<Longrightarrow> D \<noteq> []"
proof
  assume "xfer_ok D d" and "D = []"
  then have ne: "m_segments d \<noteq> []" and t: "tiles 0 (map sg_range (m_segments d)) 0"
    by (simp_all add: xfer_ok_def planned_def)
  then have "sg_range (hd (m_segments d)) \<in> set (map sg_range (m_segments d))"
    by simp
  from tiles_member [OF t this] show False by linarith
qed

section \<open>Each operation keeps the invariant\<close>

lemma abort_fields [simp]:
  "m_state (abortReplies d) = m_state d" "m_file (abortReplies d) = m_file d"
  "w_files (abortReplies d) = w_files d" "finalPath (abortReplies d) = finalPath d"
  "partPath (abortReplies d) = partPath d" "m_total (abortReplies d) = m_total d"
  "m_probe (abortReplies d) = None"
  "length (m_segments (abortReplies d)) = length (m_segments d)"
  by (simp_all add: abortReplies_def finalPath_def partPath_def)

lemma abort_net: "net_ok d \<Longrightarrow> w_net (abortReplies d) = (\<lambda>_. None)"
proof
  fix r
  assume n: "net_ok d"
  show "w_net (abortReplies d) r = None"
  proof (cases "w_net d r")
    case None
    then show ?thesis by (simp add: abortReplies_def)
  next
    case (Some nr)
    with n have "nr_seg nr < length (m_segments d)" "sg_reply (m_segments d ! nr_seg nr) = Some r"
      by (auto simp: net_ok_def)
    then have "Some r \<in> set (map sg_reply (m_segments d))"
      by (metis length_map nth_map nth_mem)
    then show ?thesis by (simp add: abortReplies_def)
  qed
qed

lemma abort_segments: "m_segments (abortReplies d) = map (\<lambda>s. s\<lparr>sg_reply := None\<rparr>) (m_segments d)"
  by (simp add: abortReplies_def)

lemma xfer_abort [inv_intros]:
  assumes "xfer_ok D d"
  shows "xfer_ok D (abortReplies d)"
proof -
  have "planned D (abortReplies d)"
    using assms by (simp add: xfer_ok_def planned_def abortReplies_def comp_def seg_wf_def)
  moreover have "part_ok D (abortReplies d)"
    using assms by (simp add: xfer_ok_def part_ok_def abort_segments slice_ok_def)
  moreover have "net_ok (abortReplies d)"
    using abort_net assms by (simp add: xfer_ok_def net_ok_def)
  ultimately show ?thesis
    using assms by (simp add: xfer_ok_def file_ok_def)
qed

lemma unplanned_abort: "unplanned d \<Longrightarrow> unplanned (abortReplies d)"
  by (simp add: unplanned_def abortReplies_def)

lemma fail_fields [simp]:
  "m_state (fail e d) = Failed" "w_files (fail e d) = w_files d" "m_file (fail e d) = None"
  "m_probe (fail e d) = None" "m_total (fail e d) = m_total d" "finalPath (fail e d) = finalPath d"
  "w_signals (fail e d) =
     w_signals d @ (if m_state d = Failed then [] else [StateChanged]) @ [Finished False]"
  by (simp_all add: fail_def setState_def emit_def abortReplies_def finalPath_def)

lemma xfer_fail [inv_intros]: "xfer_ok D d \<Longrightarrow> xfer_ok D (fail e d)"
  by (simp add: fail_def xfer_close xfer_abort)

lemma inv_fail: "unplanned d \<or> xfer_ok D d \<Longrightarrow> dl_inv D (fail e d)"
proof -
  have "unplanned d \<Longrightarrow> unplanned (fail e d)"
    by (auto simp: unplanned_def fail_def setState_def emit_def abortReplies_def)
  then show "unplanned d \<or> xfer_ok D d \<Longrightarrow> dl_inv D (fail e d)"
    by (auto simp: dl_inv_def xfer_fail)
qed

lemma spawn_fields [simp]:
  "m_state (spawnSegment i d) = m_state d" "m_file (spawnSegment i d) = m_file d"
  "w_files (spawnSegment i d) = w_files d" "finalPath (spawnSegment i d) = finalPath d"
  "partPath (spawnSegment i d) = partPath d" "m_total (spawnSegment i d) = m_total d"
  "length (m_segments (spawnSegment i d)) = length (m_segments d)"
  by (simp_all add: spawnSegment_def Let_def)

lemma map_range_update:
  "i < length segs \<Longrightarrow> sg_range s = sg_range (segs ! i) \<Longrightarrow>
    map sg_range (segs[i := s]) = map sg_range segs"
  by (metis length_map list_update_id map_update nth_map)

lemma xfer_spawn [inv_intros]:
  assumes "xfer_ok D d" "i < length (m_segments d)"
  shows "xfer_ok D (spawnSegment i d)"
proof (cases "sg_reply (m_segments d ! i) \<noteq> None \<or> seg_done (m_segments d ! i)")
  case True
  with assms show ?thesis by (simp add: spawnSegment_def)
next
  case False
  let ?s = "m_segments d ! i" and ?r = "w_next d"
  let ?s' = "?s\<lparr>sg_reply := Some ?r\<rparr>"
  have mem: "?s \<in> set (m_segments d)"
    using assms(2) by simp
  have "0 \<le> br_start (sg_range ?s)" "br_start (sg_range ?s) \<le> br_end (sg_range ?s)"
    using assms tiles_member [of 0 "map sg_range (m_segments d)" "int (length D)" "sg_range ?s"]
    by (auto simp: xfer_defs)
  then have e: "0 \<le> br_end (sg_range ?s)"
    by simp
  have sp: "spawnSegment i d =
    d\<lparr>m_segments := (m_segments d)[i := ?s'],
      w_net := (w_net d)(?r \<mapsto> \<lparr>nr_seg = i,
        nr_range = Some (br_start (sg_range ?s) + sg_received ?s, br_end (sg_range ?s)),
        nr_sent = 0\<rparr>),
      w_next := Suc ?r\<rparr>"
    using False e assms(1) by (auto simp: spawnSegment_def Let_def xfer_defs)
  have wf: "\<forall>s \<in> set (m_segments d). seg_wf s" and pd: "planned D d"
    using assms(1) by (simp_all add: xfer_ok_def planned_def)
  have "\<forall>s \<in> set ((m_segments d)[i := ?s']). seg_wf s"
    using wf mem by (intro ball_update) (auto simp: seg_wf_def)
  then have pl: "planned D (spawnSegment i d)"
    using pd assms(2) by (simp add: sp planned_def map_range_update)
  have po: "part_ok D (spawnSegment i d)"
  proof (cases "\<exists>c. w_files d (partPath d) = Some c \<and> length c = length D
      \<and> (\<forall>s \<in> set (m_segments d). slice_ok D c s)")
    case True
    then obtain c where c: "w_files d (partPath d) = Some c" "length c = length D"
      "\<forall>s \<in> set (m_segments d). slice_ok D c s"
      by blast
    have "\<forall>s \<in> set ((m_segments d)[i := ?s']). slice_ok D c s"
      using c(3) mem by (intro ball_update) (auto simp: slice_ok_def)
    with c show ?thesis by (simp add: sp part_ok_def)
  next
    case no: False
    then have z: "m_file d = None" "\<forall>s \<in> set (m_segments d). sg_received s = 0"
      using assms(1) by (auto simp: xfer_ok_def part_ok_def)
    have "\<forall>s \<in> set ((m_segments d)[i := ?s']). sg_received s = 0"
      using z(2) mem by (intro ball_update) auto
    with z show ?thesis by (simp add: sp part_ok_def)
  qed
  have no: "net_ok (spawnSegment i d)"
  proof -
    have n: "net_ok d"
      using assms(1) by (simp add: xfer_ok_def)
    show ?thesis
      using n False assms(2) by (auto simp: sp net_ok_def nth_list_update)
  qed
  show ?thesis
    using assms(1) pl po no by (simp add: xfer_ok_def file_ok_def)
qed

lemma spawn_fold:
  assumes "xfer_ok D d" "\<forall>i \<in> set is. i < length (m_segments d)"
  shows "xfer_ok D (fold (\<lambda>i x. if P i x then spawnSegment i x else x) is d)
    \<and> m_state (fold (\<lambda>i x. if P i x then spawnSegment i x else x) is d) = m_state d
    \<and> m_file (fold (\<lambda>i x. if P i x then spawnSegment i x else x) is d) = m_file d"
  using assms
proof (induction "is" arbitrary: d)
  case Nil
  then show ?case by simp
next
  case (Cons j js)
  then show ?case by (simp add: xfer_spawn)
qed

lemma xfer_spawnPending:
  "xfer_ok D d \<Longrightarrow> xfer_ok D (spawnPending d)
    \<and> m_state (spawnPending d) = m_state d \<and> m_file (spawnPending d) = m_file d"
  unfolding spawnPending_def by (rule spawn_fold) simp_all

lemma xfer_respawnIdle:
  "xfer_ok D d \<Longrightarrow> xfer_ok D (respawnIdle d)
    \<and> m_state (respawnIdle d) = m_state d \<and> m_file (respawnIdle d) = m_file d"
  unfolding respawnIdle_def by (rule spawn_fold) simp_all

lemma openPart_fields [simp]:
  "m_state (openPart d) = m_state d" "m_segments (openPart d) = m_segments d"
  "m_total (openPart d) = m_total d" "partPath (openPart d) = partPath d"
  "finalPath (openPart d) = finalPath d" "m_probe (openPart d) = m_probe d"
  by (simp_all add: openPart_def Let_def)

lemma openPart_new:
  "w_files d (partPath d) = None \<Longrightarrow> 0 < m_total d \<Longrightarrow>
    w_files (openPart d) (partPath d) = Some (zeros (nat (m_total d)))"
  by (simp add: openPart_def Let_def resize_file_def)

lemma xfer_openPart:
  assumes "xfer_ok D d" "m_file d = None"
  shows "xfer_ok D (openPart d)" "m_file (openPart d) = Some (partPath d)"
    "m_state (openPart d) = m_state d"
proof -
  define c where "c = (case w_files d (partPath d) of None \<Rightarrow> [] | Some f \<Rightarrow> f)"
  define c' where "c' = (if int (length c) \<noteq> m_total d then resize_file (nat (m_total d)) c else c)"
  have pos: "0 < m_total d" and tot: "m_total d = int (length D)"
    using assms(1) xfer_nonempty [OF assms(1)] by (simp_all add: xfer_ok_def planned_def)
  have op: "openPart d = d\<lparr>m_file := Some (partPath d), w_files := (w_files d)(partPath d \<mapsto> c')\<rparr>"
    using pos by (simp add: openPart_def Let_def c_def c'_def)
  have len: "length c' = length D"
    using tot by (auto simp: c'_def)
  have sl: "\<forall>s \<in> set (m_segments d). slice_ok D c' s"
  proof (cases "\<exists>b. w_files d (partPath d) = Some b \<and> length b = length D
      \<and> (\<forall>s \<in> set (m_segments d). slice_ok D b s)")
    case True
    then show ?thesis using tot by (auto simp: c'_def c_def)
  next
    case False
    then have "\<forall>s \<in> set (m_segments d). sg_received s = 0"
      using assms(1) by (auto simp: xfer_ok_def part_ok_def)
    then show ?thesis by (auto simp: slice_ok_def)
  qed
  show "xfer_ok D (openPart d)"
    using assms(1) len sl
    by (simp add: op xfer_ok_def planned_def part_ok_def net_ok_def file_ok_def)
  show "m_file (openPart d) = Some (partPath d)" "m_state (openPart d) = m_state d"
    by (simp_all add: op)
qed

text \<open>When every segment is done, the part file is the served content.\<close>

lemma all_done_content:
  assumes x: "xfer_ok D d" and dn: "list_all seg_done (m_segments d)"
  shows "receivedBytes d = m_total d" "w_files d (partPath d) = Some D"
proof -
  have t: "tiles 0 (map sg_range (m_segments d)) (int (length D))"
    and wf: "\<forall>s \<in> set (m_segments d). seg_wf s" and ne: "m_segments d \<noteq> []"
    using x by (simp_all add: xfer_ok_def planned_def)
  have full: "\<forall>s \<in> set (m_segments d). sg_received s = br_size (sg_range s)"
    using dn wf by (fastforce simp: list_all_iff seg_done_def seg_wf_def intro: antisym)
  then have "receivedBytes d = sum_list (map br_size (map sg_range (m_segments d)))"
    unfolding receivedBytes_def by (simp add: comp_def cong: map_cong)
  also have "\<dots> = int (length D)"
    using tiles_sum [OF t] by simp
  finally show "receivedBytes d = m_total d"
    using x by (simp add: xfer_ok_def planned_def)
  have nz: "0 < sg_received s" if "s \<in> set (m_segments d)" for s
    using full tiles_member [OF t, of "sg_range s"] that by (simp add: br_size_def)
  then have "\<not> (\<forall>s \<in> set (m_segments d). sg_received s = 0)"
    using nz [of "hd (m_segments d)"] ne hd_in_set by force
  with x obtain c where c: "w_files d (partPath d) = Some c" "length c = length D"
    "\<forall>s \<in> set (m_segments d). slice_ok D c s"
    by (auto simp: xfer_ok_def part_ok_def)
  have "c = D"
  proof (rule nth_equalityI)
    show "length c = length D"
      by (rule c(2))
    fix k
    assume "k < length c"
    then obtain i where i: "i < length (m_segments d)"
      "br_start (sg_range (m_segments d ! i)) \<le> int k"
      "int k \<le> br_end (sg_range (m_segments d ! i))"
      using tiles_cover [OF t, of "int k"] c(2) by auto
    then have m: "m_segments d ! i \<in> set (m_segments d)"
      by simp
    have "int k < br_start (sg_range (m_segments d ! i)) + sg_received (m_segments d ! i)"
      using full m i(3) by (simp add: br_size_def)
    then show "c ! k = D ! k"
      using c(3) m i(2) by (simp add: slice_ok_def)
  qed
  with c(1) show "w_files d (partPath d) = Some D"
    by simp
qed

lemma inv_maybeComplete:
  assumes x: "xfer_ok D d" and st: "m_state d \<noteq> Completed"
  shows "dl_inv D (maybeComplete io d)"
proof (cases "list_all seg_done (m_segments d)")
  case False
  then show ?thesis using assms by (simp add: maybeComplete_def dl_inv_def)
next
  case True
  note ad = all_done_content [OF x True]
  let ?d2 = "d\<lparr>m_file := None, w_files := (w_files d)(finalPath d := None)\<rparr>"
  have x2: "xfer_ok D ?d2"
    using x ad by (auto simp: xfer_ok_def planned_def part_ok_def net_ok_def file_ok_def)
  have pr: "m_probe d = None"
    using x by (simp add: xfer_ok_def planned_def)
  show ?thesis
  proof (cases "io_rename io")
    case False
    then have "maybeComplete io d = fail (CannotFinalize (finalPath d)) ?d2"
      using True ad by (simp add: maybeComplete_def Let_def receivedBytes_def)
    then show ?thesis using x2 inv_fail by simp
  next
    case True
    with \<open>list_all seg_done (m_segments d)\<close> show ?thesis
      using ad pr by (simp add: maybeComplete_def Let_def dl_inv_def)
  qed
qed

lemma inv_beginSegments:
  assumes "xfer_ok D d"
  shows "dl_inv D (beginSegments io d)"
proof (cases "m_file d = None \<and> \<not> io_open io")
  case True
  then show ?thesis using assms by (simp add: beginSegments_def inv_fail)
next
  case False
  define d1 where "d1 = (if m_file d = None then openPart d else d)"
  define d2 where "d2 = (setState Downloading d1)\<lparr>m_stallRetried := False, m_samplerOn := True\<rparr>"
  have "xfer_ok D d1"
    using assms xfer_openPart by (simp add: d1_def)
  then have "xfer_ok D d2" "m_state d2 = Downloading"
    by (simp_all add: d2_def)
  then have "dl_inv D (maybeComplete io (spawnPending d2))"
    using inv_maybeComplete [of D "spawnPending d2" io] xfer_spawnPending [of D d2] by simp
  moreover have "beginSegments io d = maybeComplete io (spawnPending d2)"
    using False by (auto simp: beginSegments_def Let_def d1_def d2_def)
  ultimately show ?thesis
    by simp
qed

lemma inv_start:
  assumes "dl_inv D d" "m_state d \<noteq> Completed"
  shows "dl_inv D (start io d)"
proof (cases "m_state d = Downloading \<or> m_state d = Probing")
  case True
  then show ?thesis using assms by (auto simp: start_def)
next
  case False
  let ?d1 = "d\<lparr>m_error := NoError, m_lastProgressMs := 0, m_lastSampledBytes := receivedBytes d\<rparr>"
  consider "unplanned d" | "xfer_ok D d"
    using assms by (auto simp: dl_inv_def)
  then show ?thesis
  proof cases
    case 1
    then have "unplanned (start io d)"
      using False by (auto simp: start_def unplanned_def setState_def emit_def)
    moreover have "m_state (start io d) = Probing"
      using 1 False by (simp add: start_def unplanned_def)
    ultimately show ?thesis by (simp add: dl_inv_def)
  next
    case 2
    then have "0 < m_total d" "m_segments d \<noteq> []"
      using xfer_nonempty [OF 2] by (auto simp: xfer_ok_def planned_def)
    then have "start io d = beginSegments io ?d1"
      using False by (simp add: start_def)
    moreover have "xfer_ok D ?d1"
      using 2 by simp
    ultimately show ?thesis
      using inv_beginSegments by simp
  qed
qed

lemma inv_resume: "dl_inv D d \<Longrightarrow> dl_inv D (resume io d)"
  using inv_start by (auto simp: resume_def)

lemma inv_pause:
  assumes "dl_inv D d"
  shows "dl_inv D (pause d)"
proof (cases "m_state d = Downloading \<or> m_state d = Probing")
  case False
  then show ?thesis using assms by (simp add: pause_def)
next
  case True
  then have "unplanned d \<or> xfer_ok D d"
    using assms by (auto simp: dl_inv_def)
  moreover have "unplanned d \<Longrightarrow> unplanned (pause d)"
    using True by (auto simp: pause_def unplanned_def setState_def emit_def abortReplies_def)
  moreover have "xfer_ok D d \<Longrightarrow> xfer_ok D (pause d)"
    using True by (auto simp: pause_def xfer_abort)
  moreover have "m_state (pause d) = Paused"
    using True by (auto simp: pause_def)
  ultimately show ?thesis by (auto simp: dl_inv_def)
qed

lemma inv_samplerTick:
  assumes "dl_inv D d"
  shows "dl_inv D (samplerTick t d)"
proof (cases "m_samplerOn d")
  case False
  then show ?thesis using assms by (simp add: samplerTick_def)
next
  case True
  define rate where "rate = to_int32 (receivedBytes d - m_lastSampledBytes d)"
  define d1 where "d1 = emit Progressed
    (d\<lparr>m_rate := rate, m_lastProgressMs := (if 0 < rate then t else m_lastProgressMs d),
       m_lastSampledBytes := receivedBytes d\<rparr>)"
  have i1: "dl_inv D d1" and st: "m_state d1 = m_state d"
    using assms by (auto simp: dl_inv_def d1_def unplanned_def split: if_splits)
  have tk: "samplerTick t d =
    (if m_state d1 = Downloading \<and> kStallMs < t - m_lastProgressMs d1
     then if \<not> m_stallRetried d1
          then respawnIdle (d1\<lparr>m_stallRetried := True, m_lastProgressMs := t\<rparr>)
          else fail Stalled d1
     else d1)"
    using True by (simp add: samplerTick_def Let_def d1_def rate_def)
  show ?thesis
  proof (cases "m_state d1 = Downloading")
    case False
    then show ?thesis using i1 by (simp add: tk)
  next
    case True
    then have x: "xfer_ok D d1"
      using i1 by (auto simp: dl_inv_def unplanned_def)
    let ?d2 = "d1\<lparr>m_stallRetried := True, m_lastProgressMs := t\<rparr>"
    have "xfer_ok D (respawnIdle ?d2)" "m_state (respawnIdle ?d2) = Downloading"
      using xfer_respawnIdle [of D ?d2] x True by simp_all
    then have "dl_inv D (respawnIdle ?d2)"
      by (simp add: dl_inv_def)
    then show ?thesis
      using i1 x by (simp add: tk inv_fail)
  qed
qed

lemma inv_onProbeFinished:
  assumes i: "dl_inv D d" and D: "D \<noteq> []" and h: "honest D (EvProbe pr io) d"
  shows "dl_inv D (onProbeFinished dec pr io d)"
proof (cases "m_probe d")
  case None
  then show ?thesis using i by (simp add: onProbeFinished_def)
next
  case (Some p)
  then have u: "unplanned d" "m_state d \<noteq> Completed"
    using i by (auto simp: dl_inv_def xfer_ok_def planned_def split: if_splits)
  then have u': "unplanned (d\<lparr>m_probe := None\<rparr>)"
    by (simp add: unplanned_def)
  show ?thesis
  proof (cases "pr_error pr")
    case (Some e)
    then show ?thesis
      using u' \<open>m_probe d = Some p\<close> by (simp add: onProbeFinished_def inv_fail)
  next
    case None
    define name where "name =
      (if pr_disposition pr \<noteq> None \<and> starts_with ''download-'' (m_fileName d)
       then let fn = fileNameFromReply dec (pr_disposition pr) (m_urlPath d)
            in if fn \<noteq> [] then fn else m_fileName d
       else m_fileName d)"
    define segs where "segs =
      map (\<lambda>br. \<lparr>sg_range = br, sg_received = 0, sg_reply = None\<rparr>)
        (planSegments (int (length D)) (m_conns d))"
    define d2 where "d2 = d\<lparr>m_probe := None, m_fileName := name, m_acceptRanges := True,
      m_total := int (length D), m_segments := segs\<rparr>"
    have pos: "0 < int (length D)"
      using D by simp
    have r: "map sg_range segs = planSegments (int (length D)) (m_conns d)"
      by (simp add: segs_def comp_def)
    have t: "tiles 0 (map sg_range segs) (int (length D))"
      unfolding r using pos by (rule planner.plan_tiles)
    have ne: "segs \<noteq> []"
      using planner.plan_nonempty [OF pos] by (simp add: segs_def)
    have wf: "\<forall>s \<in> set segs. seg_wf s"
    proof
      fix s
      assume s: "s \<in> set segs"
      then have "sg_range s \<in> set (map sg_range segs)"
        by simp
      from tiles_member [OF t this] s show "seg_wf s"
        by (auto simp: segs_def seg_wf_def br_size_def)
    qed
    have z: "\<forall>s \<in> set segs. sg_received s = 0"
      by (auto simp: segs_def)
    have "xfer_ok D d2"
      using u ne t wf z
      by (simp add: xfer_ok_def planned_def part_ok_def net_ok_def file_ok_def d2_def unplanned_def)
    moreover have "onProbeFinished dec pr io d = beginSegments io d2"
      using h None \<open>m_probe d = Some p\<close> pos
      by (simp add: onProbeFinished_def Let_def d2_def name_def segs_def)
    ultimately show ?thesis
      by (simp add: inv_beginSegments)
  qed
qed

lemma part_at_write:
  assumes x: "xfer_ok D d" and f: "m_file d \<noteq> None"
  obtains c where "w_files d (partPath d) = Some c" "length c = length D"
    "\<forall>s \<in> set (m_segments d). slice_ok D c s" "m_file d = Some (partPath d)"
  using assms by (auto simp: xfer_ok_def part_ok_def file_ok_def)

text \<open>
  Writing the served bytes at their own offsets changes no byte that already agrees with the
  content, and makes the written ones agree.
\<close>

lemma write_served:
  assumes "length c = length D" "off + n \<le> length D"
  shows "length (write_at off (take n (drop off D)) c) = length D"
    and "k < length D \<Longrightarrow> c ! k = D ! k \<or> (off \<le> k \<and> k < off + n)
      \<Longrightarrow> write_at off (take n (drop off D)) c ! k = D ! k"
proof -
  let ?bs = "take n (drop off D)"
  have lb: "length ?bs = n"
    using assms by simp
  show "length (write_at off ?bs c) = length D"
    using assms lb by (cases "?bs = []") (auto simp del: take_eq_Nil)
  assume k: "k < length D" and a: "c ! k = D ! k \<or> (off \<le> k \<and> k < off + n)"
  show "write_at off ?bs c ! k = D ! k"
  proof (cases "off \<le> k \<and> k < off + n")
    case True
    then have kn: "k - off < n"
      by arith
    have "write_at off ?bs c ! k = ?bs ! (k - off)"
      using True lb by (simp add: nth_write_at_in)
    also have "\<dots> = drop off D ! (k - off)"
      using kn by (rule nth_take)
    also have "\<dots> = D ! k"
      using True k by simp
    finally show ?thesis .
  next
    case False
    then have ck: "c ! k = D ! k"
      using a by blast
    show ?thesis
    proof (cases "k < off")
      case True
      then show ?thesis using nth_write_at_before [of k off c ?bs] k assms(1) ck by simp
    next
      case False
      with \<open>\<not> (off \<le> k \<and> k < off + n)\<close> have "off + length ?bs \<le> k"
        using lb by simp
      then show ?thesis using nth_write_at_after [of off ?bs k c] k assms(1) ck by simp
    qed
  qed
qed

lemma net_okD:
  assumes "net_ok d" "w_net d r = Some nr" "nr_range nr = Some (from, to)"
  shows "nr_seg nr < length (m_segments d)" "sg_reply (m_segments d ! nr_seg nr) = Some r"
    "to = br_end (sg_range (m_segments d ! nr_seg nr))"
    "from + nr_sent nr = br_start (sg_range (m_segments d ! nr_seg nr))
       + sg_received (m_segments d ! nr_seg nr)"
proof -
  have "nr_seg nr < length (m_segments d) \<and> sg_reply (m_segments d ! nr_seg nr) = Some r
    \<and> (\<exists>f. nr_range nr = Some (f, br_end (sg_range (m_segments d ! nr_seg nr)))
         \<and> f + nr_sent nr = br_start (sg_range (m_segments d ! nr_seg nr))
             + sg_received (m_segments d ! nr_seg nr))"
    using assms(1,2) unfolding net_ok_def by blast
  with assms(3) show "nr_seg nr < length (m_segments d)"
    "sg_reply (m_segments d ! nr_seg nr) = Some r"
    "to = br_end (sg_range (m_segments d ! nr_seg nr))"
    "from + nr_sent nr = br_start (sg_range (m_segments d ! nr_seg nr))
       + sg_received (m_segments d ! nr_seg nr)"
    by auto
qed

lemma net_ok_owner:
  assumes "net_ok d" "w_net d r = Some nr"
  shows "nr_seg nr < length (m_segments d)" "sg_reply (m_segments d ! nr_seg nr) = Some r"
  using assms unfolding net_ok_def by blast+

text \<open>What a reply in flight has delivered does not matter once it is aborted.\<close>

lemma abort_forget:
  assumes "Some r \<in> set (map sg_reply (m_segments d))"
  shows "abortReplies (d\<lparr>w_net := (w_net d)(r := v)\<rparr>) = abortReplies d"
proof -
  have "(\<lambda>q. if Some q \<in> set (map sg_reply (m_segments d)) then None else ((w_net d)(r := v)) q)
    = (\<lambda>q. if Some q \<in> set (map sg_reply (m_segments d)) then None else w_net d q)"
    using assms by (auto simp: fun_eq_iff)
  then show ?thesis
    by (simp add: abortReplies_def cong: if_cong)
qed

lemma fail_forget:
  assumes "Some r \<in> set (map sg_reply (m_segments d))"
  shows "fail e (d\<lparr>w_net := (w_net d)(r := v)\<rparr>) = fail e d"
proof -
  have comm: "d\<lparr>w_net := (w_net d)(r := v), m_error := e\<rparr>
      = d\<lparr>m_error := e, w_net := (w_net d)(r := v)\<rparr>"
    by simp
  have "abortReplies (d\<lparr>m_error := e, w_net := (w_net d)(r := v)\<rparr>)
      = abortReplies (d\<lparr>m_error := e\<rparr>)"
    using abort_forget [of r "d\<lparr>m_error := e\<rparr>" v] assms by simp
  then show ?thesis
    unfolding fail_def comm by simp
qed

lemma writePart_fields [simp]:
  "m_state (writePart off bs d) = m_state d" "m_segments (writePart off bs d) = m_segments d"
  "m_file (writePart off bs d) = m_file d" "w_net (writePart off bs d) = w_net d"
  "partPath (writePart off bs d) = partPath d" "finalPath (writePart off bs d) = finalPath d"
  "m_total (writePart off bs d) = m_total d" "m_probe (writePart off bs d) = m_probe d"
  "m_acceptRanges (writePart off bs d) = m_acceptRanges d"
  by (auto simp: writePart_def split: option.splits)

text \<open>
  The heart of the transfer: an honest chunk for a live reply. \<open>d1\<close> is the state after the write,
  \<open>d2\<close> the state with the segment's counter advanced; both keep the invariant.
\<close>

lemma xfer_chunk:
  assumes x: "xfer_ok D d" and f: "m_file d \<noteq> None" and nr: "w_net d r = Some nr"
    and rng: "nr_range nr = Some (from, to)"
    and fit: "from + nr_sent nr + int (length bs) \<le> to + 1"
    and bs: "bs = take (length bs) (drop (nat (from + nr_sent nr)) D)"
    and n: "n \<le> length bs"
  defines "s \<equiv> m_segments d ! nr_seg nr"
  defines "off \<equiv> br_start (sg_range s) + sg_received s"
  defines "d1 \<equiv> writePart off (take n bs)
    (d\<lparr>w_net := (w_net d)(r \<mapsto> nr\<lparr>nr_sent := nr_sent nr + int (length bs)\<rparr>)\<rparr>)"
  defines "d2 \<equiv> d1\<lparr>m_segments := (m_segments d1)
    [nr_seg nr := s\<lparr>sg_received := sg_received s + int (length bs)\<rparr>]\<rparr>"
  shows "n = length bs \<Longrightarrow> xfer_ok D d2"
    and "xfer_ok D (fail e d1)"
    and "br_start (sg_range s) + (sg_received s + int (length bs)) \<le> br_end (sg_range s) + 1"
proof -
  have nk: "net_ok d"
    using x by (simp add: xfer_ok_def)
  have idx: "nr_seg nr < length (m_segments d)" and own: "sg_reply s = Some r"
    and to: "to = br_end (sg_range s)" and cur: "from + nr_sent nr = off"
    using net_okD [OF nk nr rng] by (simp_all add: s_def off_def)
  have mem: "s \<in> set (m_segments d)"
    using idx by (simp add: s_def)
  have t: "tiles 0 (map sg_range (m_segments d)) (int (length D))"
    and wf: "\<forall>s \<in> set (m_segments d). seg_wf s"
    using x by (simp_all add: xfer_ok_def planned_def)
  have rg: "0 \<le> br_start (sg_range s)" "br_start (sg_range s) \<le> br_end (sg_range s)"
    "br_end (sg_range s) < int (length D)"
    using tiles_member [OF t, of "sg_range s"] mem by simp_all
  have rc: "0 \<le> sg_received s"
    using wf mem by (auto simp: seg_wf_def)
  have off: "0 \<le> off"
    using rg rc by (simp add: off_def)
  show bound: "br_start (sg_range s) + (sg_received s + int (length bs)) \<le> br_end (sg_range s) + 1"
    using fit to cur by (simp add: off_def)
  have fitD: "nat off + length bs \<le> length D"
    using bound rg off by (simp add: off_def)
  then have fitn: "nat off + n \<le> length D"
    using n by simp
  have tk: "take n bs = take n (drop (nat off) D)"
    using bs n cur by (metis min.absorb1 take_take)
  obtain c where c: "w_files d (partPath d) = Some c" "length c = length D"
    "\<forall>s \<in> set (m_segments d). slice_ok D c s" "m_file d = Some (partPath d)"
    using part_at_write [OF x f] .
  define c' where "c' = write_at (nat off) (take n (drop (nat off) D)) c"
  note ws = write_served [OF c(2) fitn, folded c'_def]
  have d1: "d1 = d\<lparr>w_net := (w_net d)(r \<mapsto> nr\<lparr>nr_sent := nr_sent nr + int (length bs)\<rparr>),
      w_files := (w_files d)(partPath d \<mapsto> c')\<rparr>"
    using c by (simp add: d1_def writePart_def c'_def tk)
  have sl: "\<forall>s \<in> set (m_segments d). slice_ok D c' s"
  proof
    fix u
    assume u: "u \<in> set (m_segments d)"
    have ru: "br_end (sg_range u) < int (length D)" "sg_received u \<le> br_size (sg_range u)"
      using tiles_member [OF t, of "sg_range u"] u wf by (auto simp: seg_wf_def)
    show "slice_ok D c' u"
      unfolding slice_ok_def
    proof (intro allI impI)
      fix k
      assume k: "br_start (sg_range u) \<le> int k \<and> int k < br_start (sg_range u) + sg_received u"
      then have "k < length D"
        using ru by (simp add: br_size_def)
      moreover have "c ! k = D ! k"
        using c(3) u k by (auto simp: slice_ok_def)
      ultimately show "c' ! k = D ! k"
        using ws(2) by blast
    qed
  qed
  have pl1: "planned D d1"
    using x by (simp add: d1 xfer_ok_def planned_def)
  have po1: "part_ok D d1" and fo1: "file_ok d1"
    using ws(1) sl c(4) by (simp_all add: d1 part_ok_def file_ok_def)
  show "xfer_ok D (fail e d1)"
  proof -
    let ?e = "d1\<lparr>w_net := w_net d\<rparr>"
    have "xfer_ok D ?e"
      using x ws(1) sl c(4) by (simp add: d1 xfer_ok_def planned_def part_ok_def net_ok_def file_ok_def)
    then have xe: "xfer_ok D (fail e ?e)"
      by (rule xfer_fail)
    have "Some r \<in> set (map sg_reply (m_segments ?e))"
      using own mem by (simp add: d1) (metis imageI)
    from fail_forget [OF this, of e "Some (nr\<lparr>nr_sent := nr_sent nr + int (length bs)\<rparr>)"]
    have "fail e (?e\<lparr>w_net := (w_net ?e)(r \<mapsto> nr\<lparr>nr_sent := nr_sent nr + int (length bs)\<rparr>)\<rparr>)
      = fail e ?e" .
    moreover have "?e\<lparr>w_net := (w_net ?e)(r \<mapsto> nr\<lparr>nr_sent := nr_sent nr + int (length bs)\<rparr>)\<rparr> = d1"
      by (simp add: d1)
    ultimately show ?thesis
      using xe by metis
  qed
  show "xfer_ok D d2" if full: "n = length bs"
  proof -
    let ?s' = "s\<lparr>sg_received := sg_received s + int (length bs)\<rparr>"
    have d2: "d2 = d1\<lparr>m_segments := (m_segments d)[nr_seg nr := ?s']\<rparr>"
      by (simp add: d2_def d1)
    have "\<forall>u \<in> set ((m_segments d)[nr_seg nr := ?s']). seg_wf u"
      using wf rc bound by (intro ball_update) (auto simp: seg_wf_def br_size_def)
    then have "planned D d2"
      using pl1 idx by (simp add: d2 d1 planned_def map_range_update s_def)
    moreover have "slice_ok D c' ?s'"
      unfolding slice_ok_def
    proof (intro allI impI)
      fix k
      assume k: "br_start (sg_range ?s') \<le> int k
        \<and> int k < br_start (sg_range ?s') + sg_received ?s'"
      then have kl: "k < length D"
        using bound rg by simp
      show "c' ! k = D ! k"
      proof (cases "int k < off")
        case True
        then have "c ! k = D ! k"
          using c(3) mem k by (auto simp: slice_ok_def off_def)
        then show ?thesis using ws(2) kl by blast
      next
        case False
        then have "nat off \<le> k" "k < nat off + n"
          using k full off by (auto simp: off_def)
        then show ?thesis using ws(2) kl by blast
      qed
    qed
    then have "\<forall>u \<in> set ((m_segments d)[nr_seg nr := ?s']). slice_ok D c' u"
      by (rule ball_update [OF sl])
    then have "part_ok D d2"
      using ws(1) by (simp add: d2 d1 part_ok_def)
    moreover have "net_ok d2"
    proof -
      have other: "nr_seg q \<noteq> nr_seg nr" if "w_net d r' = Some q" "r' \<noteq> r" for r' q
        using net_ok_owner [OF nk that(1)] that(2) own by (auto simp: s_def)
      have "nr_seg q < length (m_segments d2) \<and> sg_reply (m_segments d2 ! nr_seg q) = Some r'
        \<and> (\<exists>f. nr_range q = Some (f, br_end (sg_range (m_segments d2 ! nr_seg q)))
             \<and> f + nr_sent q = br_start (sg_range (m_segments d2 ! nr_seg q))
                 + sg_received (m_segments d2 ! nr_seg q))"
        if q: "w_net d2 r' = Some q" for r' q
      proof (cases "r' = r")
        case True
        then have "q = nr\<lparr>nr_sent := nr_sent nr + int (length bs)\<rparr>"
          using q by (simp add: d2 d1)
        then show ?thesis
          using True idx own rng to cur by (simp add: d2 off_def)
      next
        case False
        then have "w_net d r' = Some q"
          using q by (simp add: d2 d1)
        then show ?thesis
          using other [OF _ False] nk by (simp add: d2 net_ok_def)
      qed
      then show ?thesis
        unfolding net_ok_def by blast
    qed
    ultimately show ?thesis
      using fo1 by (simp add: xfer_ok_def file_ok_def d2)
  qed
qed

lemma inv_onSegmentReadyRead:
  assumes i: "dl_inv D d" and h: "honest D (EvChunk r bs w) d"
  shows "dl_inv D (onSegmentReadyRead r bs w d)"
proof (cases "w_net d r")
  case None
  then show ?thesis using i by (simp add: onSegmentReadyRead_def)
next
  case (Some nr)
  show ?thesis
  proof (cases "m_state d = Downloading \<and> nr_seg nr < length (m_segments d) \<and> bs \<noteq> []")
    case False
    then show ?thesis using i Some by (auto simp: onSegmentReadyRead_def Let_def)
  next
    case True
    then have x: "xfer_ok D d"
      using i by (auto simp: dl_inv_def unplanned_def)
    obtain fr hi where rng: "nr_range nr = Some (fr, hi)"
      and fit: "fr + nr_sent nr + int (length bs) \<le> hi + 1"
      and bs: "bs = take (length bs) (drop (nat (fr + nr_sent nr)) D)"
      using h Some by (auto split: option.splits)
    define n where "n = (case w of None \<Rightarrow> 0 | Some k \<Rightarrow> min k (length bs))"
    have n: "n \<le> length bs"
      by (simp add: n_def split: option.split)
    define s where "s = m_segments d ! nr_seg nr"
    define off where "off = br_start (sg_range s) + sg_received s"
    define d1 where "d1 = writePart off (take n bs)
      (d\<lparr>w_net := (w_net d)(r \<mapsto> nr\<lparr>nr_sent := nr_sent nr + int (length bs)\<rparr>)\<rparr>)"
    define d2 where "d2 = d1\<lparr>m_segments := (m_segments d1)
      [nr_seg nr := s\<lparr>sg_received := sg_received s + int (length bs)\<rparr>]\<rparr>"
    have rd: "onSegmentReadyRead r bs w d =
      (if m_file d = None \<or> n \<noteq> length bs then fail DiskWriteFailed d1
       else if 0 \<le> br_end (sg_range s)
         \<and> br_end (sg_range s) + 1 < br_start (sg_range s) + (sg_received s + int (length bs))
       then fail SegmentOverrun d2 else d2)"
      using True Some
      by (simp add: onSegmentReadyRead_def Let_def n_def s_def off_def d1_def d2_def)
    show ?thesis
    proof (cases "m_file d = None")
      case True
      have nk: "net_ok d"
        using x by (simp add: xfer_ok_def)
      have "part_ok D d" "m_file d1 = None"
        using x True by (simp_all add: xfer_ok_def d1_def)
      have d1: "d1 = d\<lparr>w_net := (w_net d)(r \<mapsto> nr\<lparr>nr_sent := nr_sent nr + int (length bs)\<rparr>)\<rparr>"
        using True by (simp add: d1_def writePart_def)
      have "Some r \<in> set (map sg_reply (m_segments d))"
        using net_okD [OF nk Some rng] by (metis list.set_map imageI nth_mem)
      then have "fail DiskWriteFailed d1 = fail DiskWriteFailed d"
        unfolding d1 by (rule fail_forget)
      then show ?thesis
        using rd True x by (simp add: inv_fail)
    next
      case f: False
      note xc = xfer_chunk [OF x f Some rng fit bs n, folded s_def, folded off_def,
          folded d1_def, folded d2_def]
      have "m_state d2 = Downloading"
        using True by (simp add: d2_def d1_def)
      then show ?thesis
        using rd f xc by (auto simp: dl_inv_def)
    qed
  qed
qed

lemma inv_onSegmentFinished:
  assumes i: "dl_inv D d"
  shows "dl_inv D (onSegmentFinished r e io d)"
proof (cases "w_net d r")
  case None
  then show ?thesis using i by (simp add: onSegmentFinished_def)
next
  case (Some nr)
  define s where "s = m_segments d ! nr_seg nr"
  show ?thesis
  proof (cases "nr_seg nr < length (m_segments d) \<and> sg_reply s = Some r")
    case False
    then show ?thesis using i Some by (auto simp: onSegmentFinished_def Let_def s_def)
  next
    case True
    define s1 where "s1 = s\<lparr>sg_reply := None\<rparr>"
    define d1 where "d1 = d\<lparr>m_segments := (m_segments d)[nr_seg nr := s1],
      w_net := (w_net d)(r := None)\<rparr>"
    have fin: "onSegmentFinished r e io d =
      (if m_state d \<noteq> Downloading then d1
       else case e of Some e \<Rightarrow> fail (ReplyError e) d1
       | None \<Rightarrow> maybeComplete io
           (if m_total d1 \<le> 0 \<and> br_end (sg_range s1) < 0
            then d1\<lparr>m_total := sg_received s1, m_segments := (m_segments d1)
              [nr_seg nr := s1\<lparr>sg_range := (sg_range s1)\<lparr>br_end := sg_received s1 - 1\<rparr>\<rparr>]\<rparr>
            else d1))"
      using Some True
      by (auto simp: onSegmentFinished_def Let_def s_def s1_def d1_def split: option.split)
    have x1: "xfer_ok D d1" if x: "xfer_ok D d"
    proof -
      have mem: "s \<in> set (m_segments d)"
        using True by (simp add: s_def)
      have pd: "planned D d" and po: "part_ok D d"
        using x by (simp_all add: xfer_ok_def)
      then have "\<forall>u \<in> set ((m_segments d)[nr_seg nr := s1]). seg_wf u"
        using mem by (intro ball_update) (auto simp: planned_def s1_def seg_wf_def)
      then have "planned D d1"
        using pd True by (simp add: planned_def d1_def s1_def s_def map_range_update)
      moreover have "part_ok D d1"
        using po unfolding part_ok_def
      proof (elim disjE exE conjE)
        fix c
        assume c: "w_files d (partPath d) = Some c" "length c = length D"
          "\<forall>s \<in> set (m_segments d). slice_ok D c s"
        have "\<forall>u \<in> set ((m_segments d)[nr_seg nr := s1]). slice_ok D c u"
          using c(3) mem by (intro ball_update) (auto simp: s1_def slice_ok_def)
        with c(1,2) show "(\<exists>c. w_files d1 (partPath d1) = Some c \<and> length c = length D
            \<and> (\<forall>s \<in> set (m_segments d1). slice_ok D c s))
          \<or> (m_file d1 = None \<and> (\<forall>s \<in> set (m_segments d1). sg_received s = 0))"
          by (simp add: d1_def)
      next
        assume z: "m_file d = None" "\<forall>s \<in> set (m_segments d). sg_received s = 0"
        have "\<forall>u \<in> set ((m_segments d)[nr_seg nr := s1]). sg_received u = 0"
          using z(2) mem by (intro ball_update) (auto simp: s1_def)
        with z(1) show "(\<exists>c. w_files d1 (partPath d1) = Some c \<and> length c = length D
            \<and> (\<forall>s \<in> set (m_segments d1). slice_ok D c s))
          \<or> (m_file d1 = None \<and> (\<forall>s \<in> set (m_segments d1). sg_received s = 0))"
          by (simp add: d1_def)
      qed
      moreover have "net_ok d1"
        using x True by (auto simp: xfer_ok_def net_ok_def d1_def s1_def s_def nth_list_update)
      ultimately show ?thesis
        using x by (simp add: xfer_ok_def file_ok_def d1_def)
    qed
    show ?thesis
    proof (cases "m_state d = Downloading")
      case False
      then show ?thesis
        using i x1 fin Some by (auto simp: dl_inv_def d1_def unplanned_def split: if_splits)
    next
      case dl: True
      then have x: "xfer_ok D d"
        using i by (auto simp: dl_inv_def unplanned_def)
      have "0 < m_total d1"
        using x xfer_nonempty [OF x] by (simp add: d1_def xfer_ok_def planned_def)
      moreover have "m_state d1 \<noteq> Completed"
        using dl by (simp add: d1_def)
      ultimately show ?thesis
        using fin dl x1 [OF x] by (simp add: inv_fail inv_maybeComplete split: option.split)
    qed
  qed
qed

lemma inv_step [inv_intros]:
  assumes "dl_inv D d" "D \<noteq> []" "honest D e d"
  shows "dl_inv D (dl_step dec e d)"
proof (cases e)
  case (EvStart io)
  then show ?thesis using assms inv_start by simp
next
  case (EvProbe pr io)
  then show ?thesis using assms inv_onProbeFinished by simp
next
  case (EvChunk r bs w)
  then show ?thesis using assms inv_onSegmentReadyRead by simp
next
  case (EvResume io)
  then show ?thesis using assms inv_resume by simp
next
  case (EvCancel b)
  then show ?thesis using assms by simp
qed (use assms in \<open>simp_all add: inv_onSegmentFinished inv_samplerTick inv_pause\<close>)

lemma inv_run:
  "dl_inv D d \<Longrightarrow> D \<noteq> [] \<Longrightarrow> honest_run dec D es d \<Longrightarrow> dl_inv D (dl_run dec es d)"
  by (induction es arbitrary: d) (simp_all add: inv_step)

lemma inv_fresh: "dl_inv D (mkHttpDownload i w u dir n fs)"
  by (simp add: dl_inv_def unplanned_def mkHttpDownload_def)

section \<open>Properties\<close>


definition sample_io :: Io where
  "sample_io = \<lparr>io_open = True, io_rename = True\<rparr>"

definition sample_fresh :: DlWorld where
  "sample_fresh = mkHttpDownload ''a'' ''http://h/f.iso'' ''/f.iso'' ''d'' '''' (\<lambda>_. None)"

definition sample_events :: "DlEvent list" where
  "sample_events =
     [EvStart sample_io,
      EvProbe \<lparr>pr_error = None, pr_code = 206, pr_disposition = None,
               pr_contentRange = ''bytes 0-0/5'', pr_contentLength = Some 1\<rparr> sample_io,
      EvChunk 3 [13] (Some 1), EvChunk 1 [10] (Some 1), EvPause, EvResume sample_io,
      EvChunk 5 [11] (Some 1), EvChunk 6 [12] (Some 1), EvSegFinished 5 None sample_io,
      EvChunk 7 [14] (Some 1), EvSegFinished 6 None sample_io, EvSegFinished 7 None sample_io]"


text \<open>
  whatever the server and the file system do, \<open>maybeComplete\<close> reports completion only when every
  segment is done and, for a known size, exactly that many bytes arrived; it then moves the part
  file to the final path, closes it and announces \<open>finished(true)\<close> last.
\<close>

theorem completion_size_gate:
  assumes "m_state d \<noteq> Completed" and "m_state (maybeComplete io d) = Completed"
  shows "list_all seg_done (m_segments d)
    \<and> (0 < m_total d \<longrightarrow> receivedBytes d = m_total d)
    \<and> w_files (maybeComplete io d) (finalPath d) = w_files d (partPath d)
    \<and> w_files (maybeComplete io d) (partPath d) = None
    \<and> m_file (maybeComplete io d) = None
    \<and> last (w_signals (maybeComplete io d)) = Finished True"
proof -
  have dn: "list_all seg_done (m_segments d)"
    using assms by (auto simp: maybeComplete_def split: if_splits)
  have gate: "\<not> (0 < m_total d \<and> receivedBytes d \<noteq> m_total d)"
    using assms(2) dn by (auto simp: maybeComplete_def Let_def split: if_splits)
  obtain c where c: "w_files d (partPath d) = Some c" "io_rename io"
    using assms(2) dn gate
    by (auto simp: maybeComplete_def Let_def receivedBytes_def split: if_splits option.splits)
  show ?thesis
    using dn gate c by (auto simp: maybeComplete_def Let_def receivedBytes_def)
qed

definition sample_last :: DlWorld where
  "sample_last = dl_run id (take 10 sample_events) sample_fresh"

theorem completion_size_gate_witness:
  "m_state sample_last = Downloading \<and> receivedBytes sample_last = m_total sample_last"
proof -
  have d: "m_state sample_last = Downloading"
    by code_simp
  then have n: "m_state sample_last \<noteq> Completed"
    by simp
  have c: "m_state (maybeComplete sample_io sample_last) = Completed"
    by code_simp
  have t: "0 < m_total sample_last"
    by code_simp
  show ?thesis
    using completion_size_gate [OF n c] t d by simp
qed

text \<open>
  when the probe answers without a usable size (status 200, no \<open>Content-Length\<close>), the single
  segment \<open>{0, -1}\<close> has size 0 and counts as done, so no data request is sent and the download
  completes at once with an empty file, announced as finished.
\<close>

theorem unknown_size_completes_empty:
  assumes "m_probe d = Some p" "pr_error pr = None" "pr_code pr \<noteq> 206"
    and "pr_contentLength pr = None" "pr_disposition pr = None"
    and "m_file d = None" "w_files d (partPath d) = None" "m_state d = Probing"
    and "io_open io" "io_rename io"
  shows "m_state (onProbeFinished dec pr io d) = Completed
    \<and> w_files (onProbeFinished dec pr io d) (finalPath d) = Some []
    \<and> w_net (onProbeFinished dec pr io d) = w_net d
    \<and> w_next (onProbeFinished dec pr io d) = w_next d
    \<and> last (w_signals (onProbeFinished dec pr io d)) = Finished True"
  using assms
  by (simp add: onProbeFinished_def Let_def beginSegments_def openPart_def spawnPending_def
      seg_done_def br_size_def maybeComplete_def receivedBytes_def setState_def emit_def
      partPath_def finalPath_def)

definition sample_probing :: DlWorld where
  "sample_probing = start sample_io sample_fresh"

definition sample_200 :: ProbeReply where
  "sample_200 = \<lparr>pr_error = None, pr_code = 200, pr_disposition = None, pr_contentRange = [],
                 pr_contentLength = None\<rparr>"

theorem unknown_size_completes_empty_witness:
  "w_files (onProbeFinished id sample_200 sample_io sample_probing) (finalPath sample_probing)
     = Some []"
proof -
  have p: "m_probe sample_probing = Some 0" "m_file sample_probing = None"
    "w_files sample_probing (partPath sample_probing) = None" "m_state sample_probing = Probing"
    by code_simp+
  show ?thesis
    using unknown_size_completes_empty [of sample_probing 0 sample_200 sample_io id] p
    by (simp add: sample_200_def sample_io_def)
qed

text \<open>
  a restored download whose part file is gone (its sidecar survived, the \<open>.part\<close> did not) is
  not noticed: resuming recreates the file at full size, trusts the saved counters, and finishes
  with zero bytes where the lost data was.
\<close>

theorem lost_part_completes_with_zeros:
  assumes "m_state d = Paused" "m_file d = None" "w_files d (partPath d) = None"
    and "0 < m_total d" "m_segments d \<noteq> []" "list_all seg_done (m_segments d)"
    and "receivedBytes d = m_total d" "io_open io" "io_rename io"
  shows "m_state (resume io d) = Completed
    \<and> w_files (resume io d) (finalPath d) = Some (zeros (nat (m_total d)))"
proof -
  let ?d1 = "d\<lparr>m_error := NoError, m_lastProgressMs := 0, m_lastSampledBytes := receivedBytes d\<rparr>"
  define d2 where "d2 = (setState Downloading (openPart ?d1))
    \<lparr>m_stallRetried := False, m_samplerOn := True\<rparr>"
  have seg: "m_segments d2 = m_segments d"
    by (simp add: d2_def)
  have "fold (\<lambda>i x. if \<not> seg_done (m_segments x ! i) then spawnSegment i x else x) is d2 = d2"
    if "\<forall>i \<in> set is. i < length (m_segments d)" for "is"
    using that assms(6) by (induction "is") (auto simp: seg list_all_length)
  then have "spawnPending d2 = d2"
    by (simp add: spawnPending_def seg)
  then have "resume io d = maybeComplete io d2"
    using assms by (simp add: resume_def start_def beginSegments_def d2_def)
  moreover have "receivedBytes d2 = m_total d2" "m_total d2 = m_total d"
    "finalPath d2 = finalPath d" "partPath d2 = partPath d"
    "w_files d2 (partPath d) = Some (zeros (nat (m_total d)))"
    using assms(3,4,7) openPart_new [of ?d1] by (simp_all add: receivedBytes_def seg d2_def)
  ultimately show ?thesis
    using assms(6,9) seg by (simp add: maybeComplete_def Let_def receivedBytes_def)
qed

definition sample_lost :: DlWorld where
  "sample_lost = restoreState
     \<lparr>sv_id = ''a'', sv_url = ''http://h/f.iso'', sv_saveDir = ''d'', sv_fileName = ''f.iso'', sv_total = 3,
      sv_acceptRanges = True, sv_state = Paused,
      sv_segments = [\<lparr>ss_start = 0, ss_end = 2, ss_received = 3\<rparr>]\<rparr> sample_fresh"

theorem lost_part_completes_with_zeros_witness:
  "w_files (resume sample_io sample_lost) (finalPath sample_lost) = Some [0, 0, 0]"
proof -
  have p: "m_state sample_lost = Paused" "m_file sample_lost = None"
    "w_files sample_lost (partPath sample_lost) = None" "m_total sample_lost = 3"
    "m_segments sample_lost \<noteq> []" "list_all seg_done (m_segments sample_lost)"
    "receivedBytes sample_lost = m_total sample_lost"
    by code_simp+
  show ?thesis
    using lost_part_completes_with_zeros [of sample_lost sample_io] p
    by (simp add: sample_io_def zeros_def numeral_eq_Suc)
qed

text \<open>
  a single stream from a server without ranges cannot be resumed after a pause: the new request
  carries no \<open>Range\<close> header although bytes are already counted, so when the server sends the whole
  body again the segment overruns and the download fails.
\<close>

theorem single_stream_resume_overruns:
  assumes "m_state d = Paused" "m_file d = Some (partPath d)" "\<not> m_acceptRanges d"
    and "m_total d = int (length D)"
    and "m_segments d = [\<lparr>sg_range = \<lparr>br_start = 0, br_end = int (length D) - 1\<rparr>,
                          sg_received = k, sg_reply = None\<rparr>]"
    and "0 < k" "k < int (length D)"
  shows "w_net (resume io d) (w_next d) = Some \<lparr>nr_seg = 0, nr_range = None, nr_sent = 0\<rparr>
    \<and> m_state (onSegmentReadyRead (w_next d) D (Some (length D)) (resume io d)) = Failed
    \<and> m_error (onSegmentReadyRead (w_next d) D (Some (length D)) (resume io d)) = SegmentOverrun"
proof -
  have "D \<noteq> []"
    using assms(6,7) by auto
  then have pos: "0 < m_total d"
    using assms(4) by simp
  define d2 where "d2 = (setState Downloading
      (d\<lparr>m_error := NoError, m_lastProgressMs := 0, m_lastSampledBytes := receivedBytes d\<rparr>))
    \<lparr>m_stallRetried := False, m_samplerOn := True\<rparr>"
  define d1 where "d1 = resume io d"
  have f2: "m_segments d2 = m_segments d" "m_file d2 = Some (partPath d)" "w_next d2 = w_next d"
    "\<not> m_acceptRanges d2" "m_state d2 = Downloading"
    using assms(1,2,3) by (simp_all add: d2_def setState_def emit_def)
  have "spawnPending d2 = spawnSegment 0 d2"
    using assms(5,7) by (simp add: spawnPending_def f2 seg_done_def br_size_def)
  then have "d1 = maybeComplete io (spawnSegment 0 d2)"
    using assms(1,2,5) pos by (simp add: d1_def resume_def start_def beginSegments_def d2_def)
  moreover have "m_segments (spawnSegment 0 d2) =
      [\<lparr>sg_range = \<lparr>br_start = 0, br_end = int (length D) - 1\<rparr>,
        sg_received = k, sg_reply = Some (w_next d)\<rparr>]"
    using assms(5,7) f2 by (simp add: spawnSegment_def Let_def seg_done_def br_size_def)
  ultimately have sp: "d1 = spawnSegment 0 d2"
    using assms(7) by (simp add: maybeComplete_def seg_done_def br_size_def)
  have d1: "m_segments d1 = [\<lparr>sg_range = \<lparr>br_start = 0, br_end = int (length D) - 1\<rparr>,
      sg_received = k, sg_reply = Some (w_next d)\<rparr>]" "m_file d1 = Some (partPath d)"
    "m_state d1 = Downloading"
    "w_net d1 (w_next d) = Some \<lparr>nr_seg = 0, nr_range = None, nr_sent = 0\<rparr>"
    using assms(5,7) f2 by (simp_all add: sp spawnSegment_def Let_def seg_done_def br_size_def)
  have "onSegmentReadyRead (w_next d) D (Some (length D)) d1 = fail SegmentOverrun x
    \<Longrightarrow> m_error (onSegmentReadyRead (w_next d) D (Some (length D)) d1) = SegmentOverrun
      \<and> m_state (onSegmentReadyRead (w_next d) D (Some (length D)) d1) = Failed" for x
    by (simp add: fail_def setState_def emit_def abortReplies_def)
  then show ?thesis
    using d1 \<open>D \<noteq> []\<close> assms(6) unfolding d1_def [symmetric]
    by (simp add: onSegmentReadyRead_def Let_def)
qed

definition sample_single :: DlWorld where
  "sample_single = dl_run id
     [EvStart sample_io, EvProbe (sample_200\<lparr>pr_contentLength := Some 3\<rparr>) sample_io,
      EvChunk 1 [7] (Some 1), EvPause] sample_fresh"

theorem single_stream_resume_overruns_witness:
  "m_state (onSegmentReadyRead (w_next sample_single) [7, 8, 9] (Some 3)
     (resume sample_io sample_single)) = Failed"
proof -
  have p: "m_state sample_single = Paused" "m_file sample_single = Some (partPath sample_single)"
    "\<not> m_acceptRanges sample_single" "m_total sample_single = int (length ([7, 8, 9] :: bytes))"
    "m_segments sample_single =
      [\<lparr>sg_range = \<lparr>br_start = 0, br_end = int (length ([7, 8, 9] :: bytes)) - 1\<rparr>,
        sg_received = 1, sg_reply = None\<rparr>]"
    by code_simp+
  show ?thesis
    using single_stream_resume_overruns [OF p, of sample_io] by (simp add: numeral_eq_Suc)
qed

text \<open>
  the file name taken from a server's reply never contains a slash, and one taken from
  \<open>Content-Disposition\<close> no backslash either, whatever percent-decoding yields: the path built from
  it stays directly in the save directory.
\<close>

theorem reply_name_stays_in_directory:
  shows "CHR ''/'' \<notin> set (fileNameFromReply decode cd urlPath)
    \<and> (fileNameFromReply decode cd urlPath \<noteq> after_last CHR ''/'' urlPath
        \<longrightarrow> CHR 0x5C \<notin> set (fileNameFromReply decode cd urlPath))
    \<and> filePath dir (fileNameFromReply decode cd urlPath)
        = (if ends_with ''/'' dir then dir else dir @ ''/'') @ fileNameFromReply decode cd urlPath"
proof -
  have slash: "CHR ''/'' \<notin> set (after_last CHR 0x5C (after_last CHR ''/'' t))" for t
    using after_last_no_sep [of "CHR ''/''" t] set_after_last by blast
  have a: "CHR ''/'' \<notin> set (fileNameFromReply decode cd urlPath)"
    using slash by (auto simp: fileNameFromReply_def Let_def after_last_no_sep split: option.split)
  have b: "fileNameFromReply decode cd urlPath \<noteq> after_last CHR ''/'' urlPath
      \<Longrightarrow> CHR 0x5C \<notin> set (fileNameFromReply decode cd urlPath)"
    by (auto simp: fileNameFromReply_def Let_def after_last_no_sep split: option.splits if_splits)
  have "\<not> starts_with ''/'' (fileNameFromReply decode cd urlPath)"
    using a by (cases "fileNameFromReply decode cd urlPath") (auto simp: starts_with_def)
  then show ?thesis
    using a b by (simp add: filePath_def)
qed

theorem reply_name_stays_in_directory_witness:
  "CHR ''/'' \<notin> set (fileNameFromReply id (Some ''attachment; filename=../../etc/x'') ''/u'')
   \<and> fileNameFromReply id (Some ''attachment; filename=../../etc/x'') ''/u'' = ''x''"
proof -
  have e: "fileNameFromReply id (Some ''attachment; filename=../../etc/x'') ''/u'' = ''x''" by code_simp
  show ?thesis
    using reply_name_stays_in_directory [of id "Some ''attachment; filename=../../etc/x''" "''/u''" "''d''"]
    unfolding e by simp
qed

text \<open>
  saving and restoring a download keeps the size, the range support, every segment's range and
  counter; only a completed download stays completed, anything else comes back paused, with no reply
  in flight; saving it again gives the same record.
\<close>

theorem saved_state_roundtrip:
  assumes "m_id d0 = m_id d" "m_url d0 = m_url d" "m_saveDir d0 = m_saveDir d" "m_fileName d0 = m_fileName d"
  shows "toState (restoreState (toState d) d0) = toState d
    \<and> map sg_range (m_segments (restoreState (toState d) d0)) = map sg_range (m_segments d)
    \<and> map sg_received (m_segments (restoreState (toState d) d0)) = map sg_received (m_segments d)
    \<and> (\<forall>s \<in> set (m_segments (restoreState (toState d) d0)). sg_reply s = None)
    \<and> m_state (restoreState (toState d) d0) = (if m_state d = Completed then Completed else Paused)"
  using assms by (auto simp: toState_def restoreState_def comp_def)

theorem saved_state_roundtrip_witness:
  "toState (restoreState (toState sample_last) sample_fresh) = toState sample_last"
proof -
  have e: "m_id sample_fresh = m_id sample_last" "m_url sample_fresh = m_url sample_last"
    "m_saveDir sample_fresh = m_saveDir sample_last"
    "m_fileName sample_fresh = m_fileName sample_last"
    by code_simp+
  show ?thesis
    using saved_state_roundtrip [OF e] by simp
qed

text \<open>
  a stall is forgiven once. While downloading with no new bytes for more than 30 s, the first
  sampler tick marks the retry and only re-requests segments without a reply; a second stalled tick
  fails the download with \<open>Stalled\<close> and aborts every reply.
\<close>

theorem second_stall_fails:
  assumes "m_state d = Downloading" "m_samplerOn d" "\<not> m_stallRetried d"
    and "m_lastSampledBytes d = receivedBytes d"
    and "kStallMs < t1 - m_lastProgressMs d" "kStallMs < t2 - t1"
  shows "m_state (samplerTick t1 d) = Downloading \<and> m_stallRetried (samplerTick t1 d)
    \<and> map sg_received (m_segments (samplerTick t1 d)) = map sg_received (m_segments d)
    \<and> m_state (samplerTick t2 (samplerTick t1 d)) = Failed
    \<and> m_error (samplerTick t2 (samplerTick t1 d)) = Stalled
    \<and> (\<forall>s \<in> set (m_segments (samplerTick t2 (samplerTick t1 d))). sg_reply s = None)"
proof -
  let ?f = "\<lambda>i x. if sg_reply (m_segments x ! i) = None \<and> \<not> seg_done (m_segments x ! i)
    then spawnSegment i x else x"
  have keep: "m_state (?f i x) = m_state x \<and> m_samplerOn (?f i x) = m_samplerOn x
      \<and> m_stallRetried (?f i x) = m_stallRetried x \<and> m_lastProgressMs (?f i x) = m_lastProgressMs x
      \<and> m_lastSampledBytes (?f i x) = m_lastSampledBytes x
      \<and> map sg_received (m_segments (?f i x)) = map sg_received (m_segments x)" for i x
    by (cases "i < length (m_segments x)")
      (auto simp: spawnSegment_def Let_def map_update list_update_same_conv list_update_beyond)
  have fold_keep: "m_state (fold ?f is x) = m_state x \<and> m_samplerOn (fold ?f is x) = m_samplerOn x
      \<and> m_stallRetried (fold ?f is x) = m_stallRetried x
      \<and> m_lastProgressMs (fold ?f is x) = m_lastProgressMs x
      \<and> m_lastSampledBytes (fold ?f is x) = m_lastSampledBytes x
      \<and> map sg_received (m_segments (fold ?f is x)) = map sg_received (m_segments x)" for "is" x
    by (induction "is" arbitrary: x) (use keep in \<open>simp_all (no_asm_simp)\<close>)
  define d1 where "d1 = samplerTick t1 d"
  have z: "to_int32 0 = 0"
    by (simp add: to_int32_def)
  have d1: "d1 = respawnIdle ((emit Progressed
      (d\<lparr>m_rate := 0, m_lastProgressMs := m_lastProgressMs d,
         m_lastSampledBytes := receivedBytes d\<rparr>))\<lparr>m_stallRetried := True, m_lastProgressMs := t1\<rparr>)"
    using assms z by (simp add: d1_def samplerTick_def Let_def emit_def)
  have f: "m_state d1 = Downloading" "m_samplerOn d1" "m_stallRetried d1" "m_lastProgressMs d1 = t1"
    "m_lastSampledBytes d1 = receivedBytes d"
    "map sg_received (m_segments d1) = map sg_received (m_segments d)"
    using assms(1,2) by (simp_all add: d1 respawnIdle_def fold_keep emit_def)
  have "receivedBytes d1 = receivedBytes d"
    using f(6) by (simp add: receivedBytes_def)
  then have "samplerTick t2 d1 = fail Stalled (emit Progressed
      (d1\<lparr>m_rate := 0, m_lastProgressMs := t1, m_lastSampledBytes := receivedBytes d1\<rparr>))"
    using f assms(6) z by (simp add: samplerTick_def Let_def emit_def)
  then show ?thesis
    unfolding d1_def [symmetric] using f
    by (simp add: fail_def setState_def emit_def abortReplies_def)
qed

definition sample_stalled :: DlWorld where
  "sample_stalled = dl_run id (take 3 sample_events @ [EvTick 1000]) sample_fresh"

theorem second_stall_fails_witness:
  "m_error (samplerTick 80000 (samplerTick 40000 sample_stalled)) = Stalled"
proof -
  have p: "m_state sample_stalled = Downloading" "m_samplerOn sample_stalled"
    "\<not> m_stallRetried sample_stalled"
    "m_lastSampledBytes sample_stalled = receivedBytes sample_stalled"
    "m_lastProgressMs sample_stalled = 1000"
    by code_simp+
  show ?thesis
    using second_stall_fails [OF p(1-4), of 40000 80000] p(5) by (simp add: kStallMs_def)
qed

text \<open>
  a \<open>finished\<close> signal of a reply no segment holds (the one \<open>abort()\<close> re-enters the handler with,
  after the pointer was cleared) changes nothing, and after \<open>abortReplies\<close> every reply is one.
\<close>

theorem stale_reply_ignored:
  "((\<forall>s \<in> set (m_segments d). sg_reply s \<noteq> Some r) \<longrightarrow> onSegmentFinished r e io d = d)
   \<and> onSegmentFinished r e io (abortReplies d) = abortReplies d"
proof -
  have st: "onSegmentFinished r e io x = x" if "\<forall>s \<in> set (m_segments x). sg_reply s \<noteq> Some r" for x
  proof (cases "w_net x r")
    case None
    then show ?thesis by (simp add: onSegmentFinished_def)
  next
    case (Some nr)
    have "sg_reply (m_segments x ! nr_seg nr) \<noteq> Some r" if "nr_seg nr < length (m_segments x)"
      using that \<open>\<forall>s \<in> set (m_segments x). sg_reply s \<noteq> Some r\<close> by simp
    with Some show ?thesis by (simp add: onSegmentFinished_def Let_def)
  qed
  have "onSegmentFinished r e io (abortReplies d) = abortReplies d"
    by (rule st) (simp add: abort_segments)
  with st show ?thesis
    by blast
qed

theorem stale_reply_ignored_witness:
  "onSegmentFinished 2 None sample_io (pause sample_last) = pause sample_last"
proof -
  have "\<forall>s \<in> set (m_segments (pause sample_last)). sg_reply s \<noteq> Some 2"
    by code_simp
  then show ?thesis
    using stale_reply_ignored [of "pause sample_last" 2 None sample_io] by simp
qed

end
