(* ===== verification/HttpManager.thy ===== *)
theory HttpManager
  imports HttpDownloadInv
begin

text \<open>
  The list of direct downloads (\<open>src/services/downloads/httpdownloadmanager.{h,cpp}\<close>): adding,
  pausing, resuming and removing by id, the debounced save, and loading the sidecar. The downloads
  share one file system, \<open>hm_files\<close>; an operation on an item runs on that file system, and the
  signals it emits go through the connections that \<open>wire\<close> makes.
\<close>

section \<open>State\<close>

datatype HmSignal = Changed | DownloadFinished string string bool

text \<open>What \<open>load\<close> finds at the store path.\<close>

datatype Store = NoStore | CorruptStore | StoredItems "SavedState list"

record HttpManager =
  hm_items :: "DlWorld list"
  hm_defaultDir :: string
  hm_saveActive :: bool
  hm_files :: "string \<Rightarrow> bytes option"
  hm_store :: Store
  hm_quarantined :: bool
  hm_signals :: "HmSignal list"

section \<open>Operations\<close>

definition httpRowHash :: "string \<Rightarrow> string" where
  "httpRowHash ident = ''httpdl-'' @ ident"

definition isHttpRowHash :: "string \<Rightarrow> bool" where
  "isHttpRowHash h \<longleftrightarrow> starts_with ''httpdl-'' h"

definition httpRowId :: "string \<Rightarrow> string" where
  "httpRowId h = drop 7 h"

definition hm_count :: "HttpManager \<Rightarrow> int" where
  "hm_count m = int (length (hm_items m))"

definition hm_at :: "HttpManager \<Rightarrow> int \<Rightarrow> DlWorld option" where
  "hm_at m i = (if 0 \<le> i \<and> i < hm_count m then Some (hm_items m ! nat i) else None)"

text \<open>The index of the first item with an id, as the loops of \<open>byId\<close> and \<open>remove\<close> find it.\<close>

fun find_item :: "string \<Rightarrow> DlWorld list \<Rightarrow> nat option" where
  "find_item ident [] = None"
| "find_item ident (d # ds) =
     (if m_id d = ident then Some 0 else map_option Suc (find_item ident ds))"

definition byId :: "HttpManager \<Rightarrow> string \<Rightarrow> DlWorld option" where
  "byId m ident = map_option (\<lambda>i. hm_items m ! i) (find_item ident (hm_items m))"

definition hm_emit :: "HmSignal \<Rightarrow> HttpManager \<Rightarrow> HttpManager" where
  "hm_emit sig m = m\<lparr>hm_signals := hm_signals m @ [sig]\<rparr>"

definition scheduleSave :: "HttpManager \<Rightarrow> HttpManager" where
  "scheduleSave m = (if hm_saveActive m then m else m\<lparr>hm_saveActive := True\<rparr>)"

text \<open>The three connections of \<open>wire\<close>.\<close>

fun on_signal :: "string \<Rightarrow> string \<Rightarrow> DlSignal \<Rightarrow> HttpManager \<Rightarrow> HttpManager" where
  "on_signal ident name Progressed m = hm_emit Changed m"
| "on_signal ident name StateChanged m = hm_emit Changed (scheduleSave m)"
| "on_signal ident name (Finished ok) m =
     hm_emit Changed (hm_emit (DownloadFinished ident name ok) (scheduleSave m))"

text \<open>
  Runs an operation of the item at position \<open>i\<close> on the shared file system and delivers what it
  emits.
\<close>

definition with_item :: "nat \<Rightarrow> (DlWorld \<Rightarrow> DlWorld) \<Rightarrow> HttpManager \<Rightarrow> HttpManager" where
  "with_item i f m =
     (let d = f ((hm_items m ! i)\<lparr>w_files := hm_files m, w_signals := []\<rparr>);
          m1 = m\<lparr>hm_items := (hm_items m)[i := d], hm_files := w_files d\<rparr>
      in fold (on_signal (m_id d) (m_fileName d)) (w_signals d) m1)"

text \<open>\<open>ident\<close> is the fresh UUID; \<open>url\<close> and \<open>urlPath\<close> are the URL's text and path.\<close>

definition hm_add ::
  "Io \<Rightarrow> string \<Rightarrow> string \<Rightarrow> string \<Rightarrow> string \<Rightarrow> string \<Rightarrow> HttpManager \<Rightarrow> HttpManager" where
  "hm_add io ident url urlPath saveDir fileName m =
     (let dir = (if saveDir = [] then hm_defaultDir m else saveDir);
          d = mkHttpDownload ident url urlPath dir fileName (hm_files m);
          m1 = m\<lparr>hm_items := hm_items m @ [d]\<rparr>
      in hm_emit Changed (scheduleSave (with_item (length (hm_items m)) (start io) m1)))"

definition hm_pause :: "string \<Rightarrow> HttpManager \<Rightarrow> HttpManager" where
  "hm_pause ident m =
     (case find_item ident (hm_items m) of
        None \<Rightarrow> m
      | Some i \<Rightarrow> hm_emit Changed (with_item i pause m))"

definition hm_resume :: "Io \<Rightarrow> string \<Rightarrow> HttpManager \<Rightarrow> HttpManager" where
  "hm_resume io ident m =
     (case find_item ident (hm_items m) of
        None \<Rightarrow> m
      | Some i \<Rightarrow> hm_emit Changed (with_item i (resume io) m))"

definition hm_remove :: "string \<Rightarrow> bool \<Rightarrow> HttpManager \<Rightarrow> HttpManager" where
  "hm_remove ident deleteFiles m =
     (case find_item ident (hm_items m) of
        None \<Rightarrow> m
      | Some i \<Rightarrow>
          let m1 = with_item i (cancel deleteFiles) m;
              fp = finalPath (hm_items m1 ! i);
              m2 = (if deleteFiles then m1\<lparr>hm_files := (hm_files m1)(fp := None)\<rparr> else m1);
              m3 = m2\<lparr>hm_items := take i (hm_items m2) @ drop (Suc i) (hm_items m2)\<rparr>
          in hm_emit Changed (scheduleSave m3))"

text \<open>The save timer fires (or the destructor flushes a pending save).\<close>

definition hm_save :: "HttpManager \<Rightarrow> HttpManager" where
  "hm_save m = m\<lparr>hm_store := StoredItems (map toState (hm_items m)), hm_saveActive := False\<rparr>"

text \<open>
  \<open>load\<close>: \<open>qurl\<close> parses a URL text, \<open>None\<close> for an invalid one and otherwise its path. A corrupt
  store is renamed aside; an entry without an id or with an invalid URL is skipped.
\<close>

definition load_item :: "(string \<Rightarrow> string option) \<Rightarrow> (string \<Rightarrow> bytes option) \<Rightarrow> SavedState \<Rightarrow> DlWorld option" where
  "load_item qurl files v =
     (case qurl (sv_url v) of
        None \<Rightarrow> None
      | Some p \<Rightarrow>
          if sv_id v = [] then None
          else Some (restoreState v
                 (mkHttpDownload (sv_id v) (sv_url v) p (sv_saveDir v) (sv_fileName v) files)))"

definition hm_load :: "(string \<Rightarrow> string option) \<Rightarrow> HttpManager \<Rightarrow> HttpManager" where
  "hm_load qurl m =
     (case hm_store m of
        NoStore \<Rightarrow> m
      | CorruptStore \<Rightarrow> m\<lparr>hm_store := NoStore, hm_quarantined := True\<rparr>
      | StoredItems vs \<Rightarrow>
          m\<lparr>hm_items := hm_items m @ List.map_filter (load_item qurl (hm_files m)) vs\<rparr>)"

section \<open>Lemmas\<close>

lemma find_item_Some:
  "find_item ident ds = Some i \<Longrightarrow> i < length ds \<and> m_id (ds ! i) = ident"
  by (induction ident ds arbitrary: i rule: find_item.induct) (auto split: if_splits)

lemma find_item_first:
  "find_item ident ds = Some i \<Longrightarrow> j < i \<Longrightarrow> m_id (ds ! j) \<noteq> ident"
proof (induction ident ds arbitrary: i j rule: find_item.induct)
  case (1 ident)
  then show ?case by simp
next
  case (2 ident d ds)
  then show ?case by (cases j) (auto split: if_splits)
qed

lemma find_item_None: "find_item ident ds = None \<longleftrightarrow> ident \<notin> m_id ` set ds"
  by (induction ident ds rule: find_item.induct) auto

lemma emit_id [simp]: "m_id (emit s d) = m_id d"
  by (simp add: emit_def)

lemma setState_id [simp]: "m_id (setState s d) = m_id d"
  by (simp add: setState_def)

lemma fail_id [simp]: "m_id (fail e d) = m_id d"
  by (simp add: fail_def abortReplies_def)

lemma spawn_fold_id:
  "m_id (fold (\<lambda>i x. if P i x then spawnSegment i x else x) is d) = m_id d"
  by (induction "is" arbitrary: d) (auto simp: spawnSegment_def Let_def)

lemma maybeComplete_id [simp]: "m_id (maybeComplete io d) = m_id d"
  by (simp add: maybeComplete_def Let_def split: option.split)

lemma beginSegments_id [simp]: "m_id (beginSegments io d) = m_id d"
  by (simp add: beginSegments_def Let_def spawnPending_def spawn_fold_id openPart_def)

lemma ops_id [simp]:
  "m_id (start io d) = m_id d" "m_id (pause d) = m_id d" "m_id (resume io d) = m_id d"
  "m_id (cancel b d) = m_id d"
  by (simp_all add: start_def pause_def resume_def cancel_def abortReplies_def Let_def)

lemma on_signal_items [simp]:
  "hm_items (on_signal ident name s m) = hm_items m"
  "hm_files (on_signal ident name s m) = hm_files m"
  by (cases s; simp add: hm_emit_def scheduleSave_def)+

lemma fold_on_signal_items [simp]:
  "hm_items (fold (on_signal ident name) ss m) = hm_items m"
  "hm_files (fold (on_signal ident name) ss m) = hm_files m"
  by (induction ss arbitrary: m) simp_all

lemma with_item_items [simp]:
  "hm_items (with_item i f m) =
     (hm_items m)[i := f ((hm_items m ! i)\<lparr>w_files := hm_files m, w_signals := []\<rparr>)]"
  "hm_files (with_item i f m) =
     w_files (f ((hm_items m ! i)\<lparr>w_files := hm_files m, w_signals := []\<rparr>))"
  by (simp_all add: with_item_def Let_def)

lemma with_item_ids:
  assumes "\<And>d. m_id (f d) = m_id d"
  shows "map m_id (hm_items (with_item i f m)) = map m_id (hm_items m)"
  using assms
  by (cases "i < length (hm_items m)")
    (simp_all add: map_update list_update_same_conv list_update_beyond)

lemma scheduleSave_items [simp]:
  "hm_items (scheduleSave m) = hm_items m" "hm_files (scheduleSave m) = hm_files m"
  by (simp_all add: scheduleSave_def)

lemma hm_emit_items [simp]:
  "hm_items (hm_emit s m) = hm_items m" "hm_files (hm_emit s m) = hm_files m"
  by (simp_all add: hm_emit_def)

lemma start_files:
  "m_total d \<le> 0 \<or> m_segments d = [] \<Longrightarrow> w_files (start io d) = w_files d"
  by (auto simp: start_def)

lemma manager_remove_ids:
  assumes "distinct (map m_id (hm_items m))"
  shows "map m_id (hm_items (hm_remove k b m)) = removeAll k (map m_id (hm_items m))"
proof (cases "find_item k (hm_items m)")
  case None
  then have "k \<notin> set (map m_id (hm_items m))"
    by (simp add: find_item_None)
  with None show ?thesis by (simp add: hm_remove_def removeAll_id)
next
  case (Some i)
  let ?ks = "map m_id (hm_items m)"
  from find_item_Some [OF Some] have i: "i < length ?ks" "?ks ! i = k"
    by simp_all
  have "map m_id (hm_items (hm_remove k b m)) = take i ?ks @ drop (Suc i) ?ks"
    using Some i by (simp add: hm_remove_def Let_def map_update take_map drop_map
        take_update_cancel drop_update_cancel)
  also have "\<dots> = removeAll k ?ks"
    using removeAll_nth [OF assms i(1)] i(2) by simp
  finally show ?thesis .
qed

section \<open>Properties\<close>

text \<open>
  the ids of the list. Adding appends the new id, pausing and resuming change none, removing
  drops exactly the removed one; so distinct ids stay distinct when the added one is fresh.
\<close>

theorem manager_ids:
  shows "map m_id (hm_items (hm_add io ident url up dir name m)) = map m_id (hm_items m) @ [ident]
    \<and> map m_id (hm_items (hm_pause k m)) = map m_id (hm_items m)
    \<and> map m_id (hm_items (hm_resume io k m)) = map m_id (hm_items m)
    \<and> (distinct (map m_id (hm_items m)) \<longrightarrow>
        map m_id (hm_items (hm_remove k b m)) = removeAll k (map m_id (hm_items m)))"
proof -
  have a: "map m_id (hm_items (hm_add io ident url up dir name m)) = map m_id (hm_items m) @ [ident]"
    by (simp add: hm_add_def Let_def mkHttpDownload_def)
  have p: "map m_id (hm_items (hm_pause k m)) = map m_id (hm_items m)"
    using with_item_ids [of pause] by (simp add: hm_pause_def split: option.split)
  have r: "map m_id (hm_items (hm_resume io k m)) = map m_id (hm_items m)"
    using with_item_ids [of "resume io"] by (simp add: hm_resume_def split: option.split)
  show ?thesis
    using a p r manager_remove_ids by blast
qed

definition sample_manager :: HttpManager where
  "sample_manager =
     hm_add sample_io ''k2'' ''http://h/b'' ''/b'' '''' ''''
      (hm_add sample_io ''k1'' ''http://h/a'' ''/a'' '''' ''''
        \<lparr>hm_items = [], hm_defaultDir = ''dl'', hm_saveActive = False,
         hm_files = (\<lambda>_. None), hm_store = NoStore, hm_quarantined = False, hm_signals = []\<rparr>)"

theorem manager_ids_witness:
  "map m_id (hm_items (hm_remove ''k1'' True sample_manager)) = [''k2'']"
proof -
  have "distinct (map m_id (hm_items sample_manager))" "map m_id (hm_items sample_manager) = [''k1'', ''k2'']"
    by code_simp+
  then show ?thesis
    using manager_ids [of sample_io "''x''" "''u''" "''p''" "''d''" "''n''" sample_manager "''k1''" True] by simp
qed

text \<open>
  removing a download with its files leaves neither its part file nor its final file on disk,
  keeps every other file, schedules a save and announces the change; removing without files keeps
  the file system.
\<close>

theorem remove_deletes_files:
  assumes "find_item k (hm_items m) = Some i"
  shows "hm_files (hm_remove k True m) =
      (hm_files m)(partPath (hm_items m ! i) := None, finalPath (hm_items m ! i) := None)
    \<and> hm_files (hm_remove k False m) = hm_files m
    \<and> hm_saveActive (hm_remove k b m)
    \<and> last (hm_signals (hm_remove k b m)) = Changed"
proof -
  have i: "i < length (hm_items m)"
    using find_item_Some [OF assms] by simp
  have fp: "finalPath (cancel b (d\<lparr>w_files := fs, w_signals := ss\<rparr>)) = finalPath d"
    "partPath (d\<lparr>w_files := fs, w_signals := ss\<rparr>) = partPath d" for d :: DlWorld and b fs ss
    by (simp_all add: cancel_def Let_def abortReplies_def finalPath_def partPath_def)
  have wf: "w_files (cancel b d) = (if b then (w_files d)(partPath d := None) else w_files d)"
    for b and d :: DlWorld
    by (simp add: cancel_def Let_def)
  show ?thesis
    using assms i fp by (simp add: hm_remove_def Let_def wf hm_emit_def scheduleSave_def)
qed

theorem remove_deletes_files_witness:
  "hm_files (hm_remove ''k1'' True sample_manager) ''dl/a.part'' = None"
proof -
  have f: "find_item ''k1'' (hm_items sample_manager) = Some 0"
    and p: "partPath (hm_items sample_manager ! 0) = ''dl/a.part''"
    by code_simp+
  show ?thesis
    using remove_deletes_files [OF f] p by simp
qed

text \<open>
  what \<open>save\<close> writes, \<open>load\<close> brings back: with valid URLs and non-empty ids, every item returns
  with its saved state (so completed ones stay completed, all others come back paused), in order.
\<close>

theorem save_load_roundtrip:
  assumes "\<forall>d \<in> set (hm_items m). m_id d \<noteq> [] \<and> m_fileName d \<noteq> [] \<and> qurl (m_url d) \<noteq> None"
  shows "map toState (hm_items (hm_load qurl ((hm_save m)\<lparr>hm_items := []\<rparr>)))
    = map toState (hm_items m)"
proof -
  have one: "\<exists>x. load_item qurl fs (toState d) = Some x \<and> toState x = toState d"
    if v: "m_id d \<noteq> [] \<and> m_fileName d \<noteq> [] \<and> qurl (m_url d) \<noteq> None" for d fs
  proof -
    obtain p where p: "qurl (m_url d) = Some p"
      using v by auto
    show ?thesis
      using v p by (simp add: load_item_def toState_def restoreState_def mkHttpDownload_def comp_def)
  qed
  have "map toState (List.map_filter (load_item qurl fs) (map toState ds)) = map toState ds"
    if "\<forall>d \<in> set ds. m_id d \<noteq> [] \<and> m_fileName d \<noteq> [] \<and> qurl (m_url d) \<noteq> None" for ds fs
    using that
  proof (induction ds)
    case Nil
    then show ?case by (simp add: List.map_filter_def)
  next
    case (Cons d ds)
    then obtain x where "load_item qurl fs (toState d) = Some x" "toState x = toState d"
      using one [of d fs] by auto
    with Cons show ?case by (simp add: List.map_filter_def)
  qed
  then show ?thesis
    using assms by (simp add: hm_load_def hm_save_def)
qed

theorem save_load_roundtrip_witness:
  "map toState (hm_items (hm_load Some ((hm_save sample_manager)\<lparr>hm_items := []\<rparr>)))
     = map toState (hm_items sample_manager)"
proof (rule save_load_roundtrip)
  have "list_all (\<lambda>d. m_id d \<noteq> [] \<and> m_fileName d \<noteq> []) (hm_items sample_manager)"
    by code_simp
  then show "\<forall>d \<in> set (hm_items sample_manager).
      m_id d \<noteq> [] \<and> m_fileName d \<noteq> [] \<and> Some (m_url d) \<noteq> None"
    by (simp add: list_all_iff)
qed

end
