(* ===== verification/TorrentTable.thy ===== *)
theory TorrentTable
  imports QtText
begin

text \<open>
  The row space of the session (\<open>src/torrent/sessionmanager_query.cpp\<close>,
  \<open>src/torrent/sessionmanager_info.cpp\<close>): the torrents in their order, the info-hash of a row and
  the row of an info-hash. The user interface addresses rows by index and keys everything it keeps
  by hash, so the two must agree; the locale \<open>row_table\<close> states what it relies on, and the session
  interprets it.
\<close>

section \<open>The interface\<close>

locale row_table =
  fixes count :: "'e \<Rightarrow> int"
    and hashAt :: "'e \<Rightarrow> int \<Rightarrow> string"
    and indexOf :: "'e \<Rightarrow> string \<Rightarrow> int"
    and invar :: "'e \<Rightarrow> bool"
  assumes count_nonneg: "0 \<le> count e"
    and hash_out_of_range: "i < 0 \<or> count e \<le> i \<Longrightarrow> hashAt e i = []"
    and index_sound: "indexOf e h \<noteq> -1 \<Longrightarrow>
      0 \<le> indexOf e h \<and> indexOf e h < count e
      \<and> to_lower (hashAt e (indexOf e h)) = to_lower h"
    and index_first: "invar e \<Longrightarrow> 0 \<le> i \<Longrightarrow> i < count e \<Longrightarrow> hashAt e i \<noteq> [] \<Longrightarrow>
      0 \<le> indexOf e (hashAt e i) \<and> indexOf e (hashAt e i) \<le> i"
begin

definition distinct_rows :: "'e \<Rightarrow> bool" where
  "distinct_rows e \<longleftrightarrow>
     (\<forall>i j. 0 \<le> i \<longrightarrow> i < j \<longrightarrow> j < count e \<longrightarrow> hashAt e i \<noteq> [] \<longrightarrow>
        to_lower (hashAt e i) \<noteq> to_lower (hashAt e j))"

lemma index_of_hash:
  assumes "invar e" "distinct_rows e" "0 \<le> i" "i < count e" "hashAt e i \<noteq> []"
  shows "indexOf e (hashAt e i) = i"
proof (rule ccontr)
  define j where "j = indexOf e (hashAt e i)"
  assume "indexOf e (hashAt e i) \<noteq> i"
  then have j: "0 \<le> j" "j < i"
    using index_first [OF assms(1,3,4,5)] by (auto simp: j_def)
  then have s: "to_lower (hashAt e j) = to_lower (hashAt e i)"
    using index_sound [of e "hashAt e i"] by (simp add: j_def)
  then have "hashAt e j \<noteq> []"
    using assms(5) by (auto simp: to_lower_def)
  then show False
    using assms(2,4) j s by (auto simp: distinct_rows_def)
qed

end

section \<open>The session's rows\<close>

text \<open>
  What the row queries read of a libtorrent handle: whether it is valid, whether it has metadata, the
  text of its best info-hash, and the hash captured from its magnet (\<open>m_magnetHashes\<close>).
\<close>

record TorrentHandle =
  th_valid :: bool
  th_has_metadata :: bool
  th_hash :: string
  th_magnet_hash :: "string option"

type_synonym Session = "TorrentHandle list"

definition session_torrentCount :: "Session \<Rightarrow> int" where
  "session_torrentCount s = int (length s)"

definition session_torrentHash :: "Session \<Rightarrow> int \<Rightarrow> string" where
  "session_torrentHash s index =
     (if index < 0 \<or> int (length s) \<le> index then []
      else let t = s ! nat index in
        if \<not> th_valid t then []
        else if \<not> th_has_metadata t
             then (case th_magnet_hash t of Some h \<Rightarrow> h | None \<Rightarrow> [])
             else th_hash t)"

fun session_find :: "Session \<Rightarrow> string \<Rightarrow> int list \<Rightarrow> int" where
  "session_find s h [] = -1"
| "session_find s h (i # is) =
     (if to_lower (session_torrentHash s i) = to_lower h then i else session_find s h is)"

definition session_indexByInfoHash :: "Session \<Rightarrow> string \<Rightarrow> int" where
  "session_indexByInfoHash s h =
     (if h = [] then -1 else session_find s h (map int [0..<length s]))"

section \<open>Lemmas\<close>

lemma session_find_sound:
  "session_find s h is \<noteq> -1 \<Longrightarrow> session_find s h is \<in> set is
    \<and> to_lower (session_torrentHash s (session_find s h is)) = to_lower h"
  by (induction s h "is" rule: session_find.induct) (auto split: if_splits)

lemma session_find_first:
  "sorted is \<Longrightarrow> i \<in> set is \<Longrightarrow> session_find s (session_torrentHash s i) is \<le> i
    \<and> session_find s (session_torrentHash s i) is \<in> set is"
  by (induction "is") auto

lemma sorted_int_upt: "sorted (map int [0..<n])"
  by (simp add: sorted_map)

lemma session_index_sound:
  assumes "session_indexByInfoHash s h \<noteq> -1"
  shows "0 \<le> session_indexByInfoHash s h \<and> session_indexByInfoHash s h < session_torrentCount s
    \<and> to_lower (session_torrentHash s (session_indexByInfoHash s h)) = to_lower h"
  using assms session_find_sound [of s h "map int [0..<length s]"]
  by (auto simp: session_indexByInfoHash_def session_torrentCount_def split: if_splits)

lemma session_index_first:
  assumes "0 \<le> i" "i < session_torrentCount s" "session_torrentHash s i \<noteq> []"
  shows "0 \<le> session_indexByInfoHash s (session_torrentHash s i)
    \<and> session_indexByInfoHash s (session_torrentHash s i) \<le> i"
proof -
  have "i \<in> set (map int [0..<length s])"
    using assms(1,2) by (auto simp: session_torrentCount_def image_iff intro!: bexI [of _ "nat i"])
  from session_find_first [OF sorted_int_upt this, of s] assms(3) show ?thesis
    by (auto simp: session_indexByInfoHash_def)
qed

interpretation session: row_table session_torrentCount session_torrentHash session_indexByInfoHash
  "\<lambda>_. True"
proof
  show "0 \<le> session_torrentCount s" for s
    by (simp add: session_torrentCount_def)
  show "session_torrentHash s i = []" if "i < 0 \<or> session_torrentCount s \<le> i" for s i
    using that by (auto simp: session_torrentHash_def session_torrentCount_def)
qed (use session_index_sound session_index_first in blast)+

end
