(* ===== verification/HttpMerge.thy ===== *)
theory HttpMerge
  imports HttpManager TorrentTable Complex_Main
begin

text \<open>
  The engine decorator (\<open>src/services/downloads/httpmergeengine.{h,cpp}\<close>): direct downloads appear
  as rows after the torrents. The wrapped engine is any implementation of \<open>IEngine\<close>: a record
  \<open>Engine\<close> of the operations the decorator calls, over a state of its own. The merged row space is
  shown to be a \<open>row_table\<close> again, and interpreted over the session's rows.
\<close>

section \<open>The wrapped engine\<close>

text \<open>The per-row commands that only make sense for a torrent, with their arguments.\<close>

datatype TorrentCmd =
    SetFilePriority int int
  | SetTorrentQueuePosition int
  | SetSequentialDownload bool
  | PrioritizeFilePieceBoundaries int
  | RenameFile int string
  | ExtractTorrent string
  | UnmarkCompleted
  | StopSeedingTorrent
  | SetTorrentUploadLimit int
  | SetTorrentTags "string list"
  | SetTorrentStopAfterDownload int
  | SetTorrentMaxSeedSeconds int
  | SetTorrentDownloadLimit int
  | SetTorrentCategory string
  | SetSuperSeeding bool
  | SetForceStart bool
  | ReplaceTrackers "string list"
  | MoveStorage string
  | MarkCompleted
  | ForceRecheck
  | ForceReannounce
  | AddTracker string
  | StreamSetDeadlineWindow int int int

datatype IntQuery =
    TorrentDownloadLimit
  | TorrentUploadLimit
  | TorrentStopAfterDownload
  | TorrentMaxSeedSeconds
  | StreamContiguousAvailableBytes int int int

datatype BoolQuery = IsSuperSeeding | IsSequentialDownload | IsForceStart

text \<open>
  The fields of \<open>TorrentInfo\<close> that a direct download sets; \<open>ti_stateKey\<close> is the translation key given
  to \<open>tr_\<close>, and \<open>ti_progress\<close> the exact quotient behind the float.
\<close>

record TorrentInfo =
  ti_name :: string
  ti_category :: string
  ti_savePath :: string
  ti_totalSize :: int
  ti_totalDone :: int
  ti_completed :: bool
  ti_paused :: bool
  ti_filesMissing :: bool
  ti_progress :: rat
  ti_downloadRate :: int
  ti_stateKey :: string
  ti_stateDetail :: DlError

record 'e Engine =
  en_count :: "'e \<Rightarrow> int"
  en_hashAt :: "'e \<Rightarrow> int \<Rightarrow> string"
  en_indexOf :: "'e \<Rightarrow> string \<Rightarrow> int"
  en_torrentAt :: "'e \<Rightarrow> int \<Rightarrow> TorrentInfo"
  en_pause :: "int \<Rightarrow> 'e \<Rightarrow> 'e"
  en_resume :: "int \<Rightarrow> 'e \<Rightarrow> 'e"
  en_remove :: "int \<Rightarrow> bool \<Rightarrow> bool \<Rightarrow> 'e \<Rightarrow> 'e"
  en_cmd :: "TorrentCmd \<Rightarrow> int \<Rightarrow> 'e \<Rightarrow> 'e"
  en_int :: "IntQuery \<Rightarrow> int \<Rightarrow> 'e \<Rightarrow> int"
  en_bool :: "BoolQuery \<Rightarrow> int \<Rightarrow> 'e \<Rightarrow> bool"
  en_rootPath :: "'e \<Rightarrow> int \<Rightarrow> string"
  en_hasVideo :: "'e \<Rightarrow> int \<Rightarrow> bool"
  en_hasArchives :: "'e \<Rightarrow> int \<Rightarrow> bool"
  en_magnetUri :: "'e \<Rightarrow> int \<Rightarrow> string"
  en_fileNames :: "'e \<Rightarrow> int \<Rightarrow> string list"
  en_streamFilePath :: "'e \<Rightarrow> int \<Rightarrow> int \<Rightarrow> string"
  en_streamFileSize :: "'e \<Rightarrow> int \<Rightarrow> int \<Rightarrow> int"

record 'e Merge =
  mg_inner :: 'e
  mg_http :: HttpManager
  mg_presence :: "string \<Rightarrow> (int \<times> bool) option"

section \<open>Rows\<close>

definition mg_base :: "'e Engine \<Rightarrow> 'e Merge \<Rightarrow> int" where
  "mg_base E g = en_count E (mg_inner g)"

definition mg_isHttp :: "'e Engine \<Rightarrow> 'e Merge \<Rightarrow> int \<Rightarrow> bool" where
  "mg_isHttp E g index \<longleftrightarrow> mg_base E g \<le> index"

definition mg_httpAt :: "'e Engine \<Rightarrow> 'e Merge \<Rightarrow> int \<Rightarrow> DlWorld option" where
  "mg_httpAt E g index = hm_at (mg_http g) (index - mg_base E g)"

definition mg_torrentCount :: "'e Engine \<Rightarrow> 'e Merge \<Rightarrow> int" where
  "mg_torrentCount E g = mg_base E g + hm_count (mg_http g)"

definition mg_torrentHashAt :: "'e Engine \<Rightarrow> 'e Merge \<Rightarrow> int \<Rightarrow> string" where
  "mg_torrentHashAt E g index =
     (if \<not> mg_isHttp E g index then en_hashAt E (mg_inner g) index
      else case mg_httpAt E g index of Some d \<Rightarrow> httpRowHash (m_id d) | None \<Rightarrow> [])"

definition mg_torrentIndexByInfoHash :: "'e Engine \<Rightarrow> 'e Merge \<Rightarrow> string \<Rightarrow> int" where
  "mg_torrentIndexByInfoHash E g h =
     (if isHttpRowHash h
      then (case find_item (httpRowId h) (hm_items (mg_http g)) of
              Some i \<Rightarrow> mg_base E g + int i
            | None \<Rightarrow> -1)
      else en_indexOf E (mg_inner g) h)"

section \<open>Row contents\<close>

text \<open>\<open>QFileInfo::suffix\<close>: the text after the last dot of the file name.\<close>

definition suffix_of :: "string \<Rightarrow> string" where
  "suffix_of name =
     (let f = after_last CHR ''/'' name in
      if CHR ''.'' \<in> set f then after_last CHR ''.'' f else [])"

definition kPosteredExts :: "string list" where
  "kPosteredExts =
     [''mkv'', ''mp4'', ''avi'', ''mov'', ''m4v'', ''wmv'', ''webm'', ''flv'', ''mpg'', ''mpeg'',
      ''ts'', ''m2ts'', ''iso'', ''img'']"

definition videoExts :: "string list" where
  "videoExts =
     [''.mp4'', ''.mkv'', ''.avi'', ''.mov'', ''.wmv'', ''.flv'', ''.webm'', ''.m4v'', ''.ts'',
      ''.mpg'', ''.mpeg'', ''.m2ts'']"

definition archiveExts :: "string list" where
  "archiveExts = [''.zip'', ''.rar'', ''.7z'']"

definition hasExt :: "string \<Rightarrow> string list \<Rightarrow> bool" where
  "hasExt name exts =
     (let n0 = to_lower name;
          n = (if ends_with ''.part'' n0 then chop 5 n0 else n0)
      in list_ex (\<lambda>e. ends_with e n) exts)"

definition dl_progress :: "DlWorld \<Rightarrow> rat" where
  "dl_progress d =
     (if m_total d \<le> 0 then 0 else of_int (receivedBytes d) / of_int (m_total d))"

text \<open>The presence cache: the disk is asked at most once in 5 s per item.\<close>

definition finishedFilePresent :: "int \<Rightarrow> DlWorld \<Rightarrow> 'e Merge \<Rightarrow> bool \<times> 'e Merge" where
  "finishedFilePresent now d g =
     (let ask = (hm_files (mg_http g) (finalPath d) \<noteq> None) in
      case mg_presence g (m_id d) of
        Some (t0, p) \<Rightarrow>
          if now - t0 < 5000 then (p, g)
          else (ask, g\<lparr>mg_presence := (mg_presence g)(m_id d \<mapsto> (now, ask))\<rparr>)
      | None \<Rightarrow> (ask, g\<lparr>mg_presence := (mg_presence g)(m_id d \<mapsto> (now, ask))\<rparr>))"

definition empty_info :: TorrentInfo where
  "empty_info =
     \<lparr>ti_name = [], ti_category = [], ti_savePath = [], ti_totalSize = 0, ti_totalDone = 0,
      ti_completed = False, ti_paused = False, ti_filesMissing = False, ti_progress = 0,
      ti_downloadRate = 0, ti_stateKey = [], ti_stateDetail = NoError\<rparr>"

definition http_info :: "DlWorld \<Rightarrow> TorrentInfo" where
  "http_info d =
     empty_info
       \<lparr>ti_name := m_fileName d,
        ti_category :=
          (let ext = to_lower (suffix_of (m_fileName d))
           in if ext \<in> set kPosteredExts then [] else ext),
        ti_savePath := before_last CHR ''/'' (finalPath d),
        ti_totalSize := (if 0 < m_total d then m_total d else 0),
        ti_totalDone := receivedBytes d\<rparr>"

definition mg_torrentAt :: "'e Engine \<Rightarrow> int \<Rightarrow> int \<Rightarrow> 'e Merge \<Rightarrow> TorrentInfo \<times> 'e Merge" where
  "mg_torrentAt E now index g =
     (if \<not> mg_isHttp E g index then (en_torrentAt E (mg_inner g) index, g)
      else case mg_httpAt E g index of
        None \<Rightarrow> (empty_info, g)
      | Some d \<Rightarrow>
          let info = http_info d in
          (case m_state d of
             Completed \<Rightarrow>
               (let (present, g') = finishedFilePresent now d g
                in (info\<lparr>ti_completed := True, ti_progress := 1,
                        ti_stateKey := ''state_completed'', ti_filesMissing := \<not> present\<rparr>, g'))
           | Paused \<Rightarrow>
               (info\<lparr>ti_paused := True, ti_progress := dl_progress d,
                     ti_stateKey := ''state_paused''\<rparr>, g)
           | Failed \<Rightarrow>
               (info\<lparr>ti_paused := True, ti_progress := dl_progress d,
                     ti_stateKey := ''state_failed'', ti_stateDetail := m_error d\<rparr>, g)
           | Probing \<Rightarrow>
               (info\<lparr>ti_progress := dl_progress d, ti_stateKey := ''state_connecting''\<rparr>, g)
           | _ \<Rightarrow>
               (info\<lparr>ti_progress := dl_progress d, ti_downloadRate := m_rate d,
                     ti_stateKey := ''state_downloading''\<rparr>, g)))"

definition on_http :: "'e Engine \<Rightarrow> 'e Merge \<Rightarrow> int \<Rightarrow> 'a \<Rightarrow> (DlWorld \<Rightarrow> 'a) \<Rightarrow> 'a \<Rightarrow> 'a" where
  "on_http E g index delegated f dflt =
     (if mg_isHttp E g index
      then (case mg_httpAt E g index of Some d \<Rightarrow> f d | None \<Rightarrow> dflt)
      else delegated)"

definition mg_torrentRootPath :: "'e Engine \<Rightarrow> 'e Merge \<Rightarrow> int \<Rightarrow> string" where
  "mg_torrentRootPath E g i = on_http E g i (en_rootPath E (mg_inner g) i) finalPath []"

definition mg_torrentHasVideo :: "'e Engine \<Rightarrow> 'e Merge \<Rightarrow> int \<Rightarrow> bool" where
  "mg_torrentHasVideo E g i =
     on_http E g i (en_hasVideo E (mg_inner g) i) (\<lambda>d. hasExt (m_fileName d) videoExts) False"

definition mg_torrentHasArchives :: "'e Engine \<Rightarrow> 'e Merge \<Rightarrow> int \<Rightarrow> bool" where
  "mg_torrentHasArchives E g i =
     on_http E g i (en_hasArchives E (mg_inner g) i) (\<lambda>d. hasExt (m_fileName d) archiveExts) False"

definition mg_torrentMagnetUri :: "'e Engine \<Rightarrow> 'e Merge \<Rightarrow> int \<Rightarrow> string" where
  "mg_torrentMagnetUri E g i = on_http E g i (en_magnetUri E (mg_inner g) i) m_url []"

definition mg_torrentFileNames :: "'e Engine \<Rightarrow> 'e Merge \<Rightarrow> int \<Rightarrow> string list" where
  "mg_torrentFileNames E g i =
     on_http E g i (en_fileNames E (mg_inner g) i) (\<lambda>d. [m_fileName d]) []"

definition mg_streamFilePath :: "'e Engine \<Rightarrow> 'e Merge \<Rightarrow> int \<Rightarrow> int \<Rightarrow> string" where
  "mg_streamFilePath E g i f =
     on_http E g i (en_streamFilePath E (mg_inner g) i f)
       (\<lambda>d. if m_state d = Completed then finalPath d else []) []"

definition mg_streamFileSize :: "'e Engine \<Rightarrow> 'e Merge \<Rightarrow> int \<Rightarrow> int \<Rightarrow> int" where
  "mg_streamFileSize E g i f = on_http E g i (en_streamFileSize E (mg_inner g) i f) m_total 0"

section \<open>Commands\<close>

definition mg_on_http :: "'e Engine \<Rightarrow> int \<Rightarrow> (string \<Rightarrow> HttpManager \<Rightarrow> HttpManager)
    \<Rightarrow> ('e \<Rightarrow> 'e) \<Rightarrow> 'e Merge \<Rightarrow> 'e Merge" where
  "mg_on_http E index op del g =
     (if mg_isHttp E g index
      then (case mg_httpAt E g index of
              Some d \<Rightarrow> g\<lparr>mg_http := op (m_id d) (mg_http g)\<rparr>
            | None \<Rightarrow> g)
      else g\<lparr>mg_inner := del (mg_inner g)\<rparr>)"

definition mg_pauseTorrent :: "'e Engine \<Rightarrow> int \<Rightarrow> 'e Merge \<Rightarrow> 'e Merge" where
  "mg_pauseTorrent E i g = mg_on_http E i hm_pause (en_pause E i) g"

definition mg_resumeTorrent :: "'e Engine \<Rightarrow> Io \<Rightarrow> int \<Rightarrow> 'e Merge \<Rightarrow> 'e Merge" where
  "mg_resumeTorrent E io i g = mg_on_http E i (hm_resume io) (en_resume E i) g"

definition mg_removeTorrent :: "'e Engine \<Rightarrow> int \<Rightarrow> bool \<Rightarrow> bool \<Rightarrow> 'e Merge \<Rightarrow> 'e Merge" where
  "mg_removeTorrent E i deleteFiles permanent g =
     mg_on_http E i (\<lambda>ident. hm_remove ident deleteFiles) (en_remove E i deleteFiles permanent) g"

definition mg_cmd :: "'e Engine \<Rightarrow> TorrentCmd \<Rightarrow> int \<Rightarrow> 'e Merge \<Rightarrow> 'e Merge" where
  "mg_cmd E c i g =
     (if mg_isHttp E g i then g else g\<lparr>mg_inner := en_cmd E c i (mg_inner g)\<rparr>)"

definition mg_int :: "'e Engine \<Rightarrow> IntQuery \<Rightarrow> int \<Rightarrow> 'e Merge \<Rightarrow> int" where
  "mg_int E q i g = (if mg_isHttp E g i then 0 else en_int E q i (mg_inner g))"

definition mg_bool :: "'e Engine \<Rightarrow> BoolQuery \<Rightarrow> int \<Rightarrow> 'e Merge \<Rightarrow> bool" where
  "mg_bool E q i g = (if mg_isHttp E g i then False else en_bool E q i (mg_inner g))"

section \<open>The merged rows are a row table\<close>

lemma isHttp_httpRowHash [simp]: "isHttpRowHash (httpRowHash ident)"
  by (simp add: isHttpRowHash_def httpRowHash_def starts_with_def)

lemma httpRowId_httpRowHash [simp]: "httpRowId (httpRowHash ident) = ident"
  by (simp add: httpRowId_def httpRowHash_def)

lemma isHttpRowHash_iff: "isHttpRowHash h \<longleftrightarrow> h = httpRowHash (httpRowId h)"
proof
  assume "isHttpRowHash h"
  then have "take 7 h = ''httpdl-''"
    by (simp add: isHttpRowHash_def starts_with_def eval_nat_numeral)
  then show "h = httpRowHash (httpRowId h)"
    using append_take_drop_id [of 7 h] by (simp add: httpRowId_def httpRowHash_def)
next
  assume "h = httpRowHash (httpRowId h)"
  then show "isHttpRowHash h"
    by (metis isHttp_httpRowHash)
qed

text \<open>The merged invariant: no row of the wrapped engine has a hash in the direct-download form.\<close>

definition mg_inv :: "'e Engine \<Rightarrow> ('e \<Rightarrow> bool) \<Rightarrow> 'e Merge \<Rightarrow> bool" where
  "mg_inv E einv g \<longleftrightarrow>
     einv (mg_inner g)
     \<and> (\<forall>i. 0 \<le> i \<and> i < mg_base E g \<longrightarrow> \<not> isHttpRowHash (en_hashAt E (mg_inner g) i))"

lemma mg_httpAt_Some:
  "mg_base E g \<le> i \<Longrightarrow> i < mg_torrentCount E g \<Longrightarrow>
    mg_httpAt E g i = Some (hm_items (mg_http g) ! nat (i - mg_base E g))"
  by (simp add: mg_httpAt_def hm_at_def mg_torrentCount_def)

lemma merged_row_table:
  assumes "row_table (en_count E) (en_hashAt E) (en_indexOf E) einv"
  shows "row_table (mg_torrentCount E) (mg_torrentHashAt E) (mg_torrentIndexByInfoHash E) (mg_inv E einv)"
proof (rule row_table.intro)
  note nonneg = row_table.count_nonneg [OF assms] and oor = row_table.hash_out_of_range [OF assms]
    and snd = row_table.index_sound [OF assms] and fst = row_table.index_first [OF assms]
  show "0 \<le> mg_torrentCount E g" for g
    using nonneg [of "mg_inner g"] by (simp add: mg_torrentCount_def mg_base_def hm_count_def)
  show "mg_torrentHashAt E g i = []" if "i < 0 \<or> mg_torrentCount E g \<le> i" for g i
    using that nonneg [of "mg_inner g"] oor [of i "mg_inner g"]
    by (auto simp: mg_torrentHashAt_def mg_isHttp_def mg_httpAt_def hm_at_def mg_torrentCount_def
        mg_base_def hm_count_def)
  show "0 \<le> mg_torrentIndexByInfoHash E g h \<and> mg_torrentIndexByInfoHash E g h < mg_torrentCount E g
      \<and> to_lower (mg_torrentHashAt E g (mg_torrentIndexByInfoHash E g h)) = to_lower h"
    if ne: "mg_torrentIndexByInfoHash E g h \<noteq> -1" for g h
  proof (cases "isHttpRowHash h")
    case True
    then obtain k where k: "find_item (httpRowId h) (hm_items (mg_http g)) = Some k"
      using ne by (auto simp: mg_torrentIndexByInfoHash_def split: option.splits)
    then have ix: "mg_torrentIndexByInfoHash E g h = mg_base E g + int k"
      using True by (simp add: mg_torrentIndexByInfoHash_def)
    have kl: "k < length (hm_items (mg_http g))" "m_id (hm_items (mg_http g) ! k) = httpRowId h"
      using find_item_Some [OF k] by simp_all
    then have "mg_torrentHashAt E g (mg_base E g + int k) = httpRowHash (httpRowId h)"
      by (simp add: mg_torrentHashAt_def mg_isHttp_def mg_httpAt_def hm_at_def hm_count_def)
    then show ?thesis
      using ix kl(1) nonneg [of "mg_inner g"] True isHttpRowHash_iff [of h]
      by (simp add: mg_torrentCount_def mg_base_def hm_count_def)
  next
    case False
    then show ?thesis
      using ne snd [of "mg_inner g" h]
      by (simp add: mg_torrentIndexByInfoHash_def mg_torrentCount_def mg_torrentHashAt_def
          mg_isHttp_def mg_base_def hm_count_def)
  qed
  show "0 \<le> mg_torrentIndexByInfoHash E g (mg_torrentHashAt E g i)
      \<and> mg_torrentIndexByInfoHash E g (mg_torrentHashAt E g i) \<le> i"
    if iv: "mg_inv E einv g" and r: "0 \<le> i" "i < mg_torrentCount E g"
      and ne: "mg_torrentHashAt E g i \<noteq> []" for g i
  proof (cases "mg_isHttp E g i")
    case False
    then have "i < mg_base E g"
      by (simp add: mg_isHttp_def)
    then show ?thesis
      using iv r ne False fst [of "mg_inner g" i]
      by (simp add: mg_torrentHashAt_def mg_torrentIndexByInfoHash_def mg_inv_def mg_base_def)
  next
    case True
    define k where "k = nat (i - mg_base E g)"
    have k: "k < length (hm_items (mg_http g))" "i = mg_base E g + int k"
      using True r by (auto simp: k_def mg_isHttp_def mg_torrentCount_def hm_count_def)
    have at: "mg_httpAt E g i = Some (hm_items (mg_http g) ! k)"
      using True r mg_httpAt_Some by (simp add: mg_isHttp_def k_def)
    have "m_id (hm_items (mg_http g) ! k) \<in> m_id ` set (hm_items (mg_http g))"
      using k by simp
    then obtain j where j: "find_item (m_id (hm_items (mg_http g) ! k)) (hm_items (mg_http g)) = Some j"
      using find_item_None by (metis not_None_eq)
    have "j \<le> k"
      using find_item_first [OF j, of k] by (meson linorder_not_le)
    then show ?thesis
      using True at j k nonneg [of "mg_inner g"]
      by (simp add: mg_torrentHashAt_def mg_torrentIndexByInfoHash_def mg_base_def)
  qed
qed

text \<open>The session as the wrapped engine: its row operations, any other operations.\<close>

definition over_session :: "Session Engine \<Rightarrow> Session Engine" where
  "over_session X =
     X\<lparr>en_count := session_torrentCount, en_hashAt := session_torrentHash,
       en_indexOf := session_indexByInfoHash\<rparr>"

interpretation merged: row_table "mg_torrentCount (over_session X)"
  "mg_torrentHashAt (over_session X)" "mg_torrentIndexByInfoHash (over_session X)"
  "mg_inv (over_session X) (\<lambda>_. True)"
  for X
  by (rule merged_row_table) (simp add: over_session_def session.row_table_axioms)

section \<open>Properties\<close>

text \<open>
  over the session, index and hash agree on the merged rows: for a torrent row with a unique
  non-empty hash, and for every direct-download row when the ids are distinct, looking the row's
  hash up gives the row back.
\<close>

theorem merged_index_roundtrip:
  assumes "\<forall>i. 0 \<le> i \<and> i < session_torrentCount (mg_inner g) \<longrightarrow>
      \<not> isHttpRowHash (session_torrentHash (mg_inner g) i)"
    and "merged.distinct_rows X g"
    and "0 \<le> i" "i < mg_torrentCount (over_session X) g"
    and "mg_torrentHashAt (over_session X) g i \<noteq> []"
  shows "mg_torrentIndexByInfoHash (over_session X) g (mg_torrentHashAt (over_session X) g i) = i"
proof (rule merged.index_of_hash)
  show "mg_inv (over_session X) (\<lambda>_. True) g"
    using assms(1) by (simp add: mg_inv_def over_session_def mg_base_def)
qed (use assms in simp_all)

definition sample_engine :: "Session Engine" where
  "sample_engine =
     \<lparr>en_count = session_torrentCount, en_hashAt = session_torrentHash,
      en_indexOf = session_indexByInfoHash, en_torrentAt = (\<lambda>_ _. empty_info),
      en_pause = (\<lambda>_ e. e), en_resume = (\<lambda>_ e. e), en_remove = (\<lambda>_ _ _ e. e),
      en_cmd = (\<lambda>_ _ e. e), en_int = (\<lambda>_ _ _. 7), en_bool = (\<lambda>_ _ _. True),
      en_rootPath = (\<lambda>_ _. []), en_hasVideo = (\<lambda>_ _. False), en_hasArchives = (\<lambda>_ _. False),
      en_magnetUri = (\<lambda>_ _. []), en_fileNames = (\<lambda>_ _. []),
      en_streamFilePath = (\<lambda>_ _ _. []), en_streamFileSize = (\<lambda>_ _ _. 0)\<rparr>"

definition sample_merge :: "Session Merge" where
  "sample_merge =
     \<lparr>mg_inner = [\<lparr>th_valid = True, th_has_metadata = True, th_hash = ''ab12'',
                  th_magnet_hash = None\<rparr>],
      mg_http = sample_manager, mg_presence = (\<lambda>_. None)\<rparr>"

lemma sample_merge_rows:
  "mg_torrentCount (over_session sample_engine) sample_merge = 3"
  "mg_torrentHashAt (over_session sample_engine) sample_merge 0 = ''ab12''"
  "mg_torrentHashAt (over_session sample_engine) sample_merge 1 = ''httpdl-k1''"
  "mg_torrentHashAt (over_session sample_engine) sample_merge 2 = ''httpdl-k2''"
  "session_torrentCount (mg_inner sample_merge) = 1"
  "session_torrentHash (mg_inner sample_merge) 0 = ''ab12''"
  by code_simp+

lemma int_below_3: "0 \<le> i \<Longrightarrow> i < (3::int) \<Longrightarrow> i = 0 \<or> i = 1 \<or> i = 2"
  by arith

theorem merged_index_roundtrip_witness:
  "mg_torrentIndexByInfoHash (over_session sample_engine) sample_merge ''httpdl-k2'' = 2"
proof -
  have a: "\<forall>i. 0 \<le> i \<and> i < session_torrentCount (mg_inner sample_merge) \<longrightarrow>
      \<not> isHttpRowHash (session_torrentHash (mg_inner sample_merge) i)"
  proof (intro allI impI)
    fix i :: int
    assume "0 \<le> i \<and> i < session_torrentCount (mg_inner sample_merge)"
    then have "i = 0"
      by (simp add: sample_merge_rows)
    then show "\<not> isHttpRowHash (session_torrentHash (mg_inner sample_merge) i)"
      by (simp add: sample_merge_rows isHttpRowHash_def starts_with_def)
  qed
  have low: "to_lower ''ab12'' \<noteq> to_lower ''httpdl-k1''" "to_lower ''ab12'' \<noteq> to_lower ''httpdl-k2''"
    "to_lower ''httpdl-k1'' \<noteq> to_lower ''httpdl-k2''"
    by code_simp+
  have d: "merged.distinct_rows sample_engine sample_merge"
    unfolding merged.distinct_rows_def
  proof (intro allI impI)
    fix i j :: int
    assume "0 \<le> i" "i < j" "j < mg_torrentCount (over_session sample_engine) sample_merge"
    then have "(i = 0 \<and> j = 1) \<or> (i = 0 \<and> j = 2) \<or> (i = 1 \<and> j = 2)"
      using sample_merge_rows(1) by arith
    then show "to_lower (mg_torrentHashAt (over_session sample_engine) sample_merge i)
        \<noteq> to_lower (mg_torrentHashAt (over_session sample_engine) sample_merge j)"
      using low by (auto simp: sample_merge_rows)
  qed
  show ?thesis
    using merged_index_roundtrip [OF a d, of 2] by (simp add: sample_merge_rows)
qed

text \<open>
  a torrent-only command on a direct-download row changes nothing at all, and on a torrent row
  it runs on the wrapped engine and leaves the direct downloads alone; queries on a direct-download
  row answer zero and false.
\<close>

theorem torrent_commands_partition:
  "mg_cmd E c i g =
     (if mg_base E g \<le> i then g else g\<lparr>mg_inner := en_cmd E c i (mg_inner g)\<rparr>)
   \<and> mg_http (mg_cmd E c i g) = mg_http g
   \<and> mg_int E q i g = (if mg_base E g \<le> i then 0 else en_int E q i (mg_inner g))
   \<and> mg_bool E b i g = (if mg_base E g \<le> i then False else en_bool E b i (mg_inner g))"
  by (simp add: mg_cmd_def mg_int_def mg_bool_def mg_isHttp_def)

text \<open>
  removing the direct-download row \<open>base + k\<close> removes exactly the \<open>k\<close>-th download and no
  torrent: with distinct ids the rows before keep their hashes and the rows behind move up by one.
\<close>

theorem remove_row_shifts:
  assumes "distinct (map m_id (hm_items (mg_http g)))" "k < length (hm_items (mg_http g))"
  shows "mg_inner (mg_removeTorrent E (mg_base E g + int k) b p g) = mg_inner g
    \<and> map m_id (hm_items (mg_http (mg_removeTorrent E (mg_base E g + int k) b p g)))
        = take k (map m_id (hm_items (mg_http g))) @ drop (Suc k) (map m_id (hm_items (mg_http g)))
    \<and> mg_torrentCount E (mg_removeTorrent E (mg_base E g + int k) b p g) = mg_torrentCount E g - 1"
proof -
  let ?ids = "map m_id (hm_items (mg_http g))"
  let ?d = "hm_items (mg_http g) ! k"
  have at: "mg_httpAt E g (mg_base E g + int k) = Some ?d"
    using assms(2) by (simp add: mg_httpAt_def hm_at_def hm_count_def)
  have rm: "mg_removeTorrent E (mg_base E g + int k) b p g =
      g\<lparr>mg_http := hm_remove (m_id ?d) b (mg_http g)\<rparr>"
    using at by (simp add: mg_removeTorrent_def mg_on_http_def mg_isHttp_def)
  have "\<exists>i. find_item (m_id ?d) (hm_items (mg_http g)) = Some i"
    using assms(2) find_item_None by (metis imageI not_None_eq nth_mem)
  then have "map m_id (hm_items (hm_remove (m_id ?d) b (mg_http g))) = removeAll (?ids ! k) ?ids"
    using manager_remove_ids [OF assms(1)] assms(2) by simp
  also have "\<dots> = take k ?ids @ drop (Suc k) ?ids"
    using assms by (intro removeAll_nth) simp_all
  finally have ids: "map m_id (hm_items (hm_remove (m_id ?d) b (mg_http g)))
      = take k ?ids @ drop (Suc k) ?ids" .
  then have "length (map m_id (hm_items (hm_remove (m_id ?d) b (mg_http g))))
      = length (hm_items (mg_http g)) - 1"
    using assms(2) by simp
  then have "int (length (hm_items (hm_remove (m_id ?d) b (mg_http g))))
      = int (length (hm_items (mg_http g))) - 1"
    using assms(2) by simp
  then show ?thesis
    unfolding rm using ids by (simp add: mg_torrentCount_def mg_base_def hm_count_def)
qed

theorem remove_row_shifts_witness:
  "mg_torrentCount sample_engine (mg_removeTorrent sample_engine 1 True False sample_merge) = 2"
proof -
  have d: "distinct (map m_id (hm_items (mg_http sample_merge)))"
    "0 < length (hm_items (mg_http sample_merge))"
    "mg_base sample_engine sample_merge = 1" "mg_torrentCount sample_engine sample_merge = 3"
    by code_simp+
  show ?thesis
    using remove_row_shifts [OF d(1,2), of sample_engine True False] d(3,4) by simp
qed

text \<open>
  the presence of a finished download's file is asked of the disk at most once in five seconds:
  after an answer at time \<open>t\<close>, every question before \<open>t + 5000\<close> gets the same answer and changes
  nothing, whatever happens to the file meanwhile; a later question sees the disk again.
\<close>

theorem presence_cached_five_seconds:
  assumes "mg_presence g (m_id d) = None" "t \<le> t1" "t1 < t + 5000" "t + 5000 \<le> t2"
  shows "fst (finishedFilePresent t1 d ((snd (finishedFilePresent t d g))\<lparr>mg_http := h\<rparr>))
      = fst (finishedFilePresent t d g)
    \<and> snd (finishedFilePresent t1 d ((snd (finishedFilePresent t d g))\<lparr>mg_http := h\<rparr>))
      = (snd (finishedFilePresent t d g))\<lparr>mg_http := h\<rparr>
    \<and> fst (finishedFilePresent t2 d ((snd (finishedFilePresent t d g))\<lparr>mg_http := h\<rparr>))
      = (hm_files h (finalPath d) \<noteq> None)"
  using assms by (simp add: finishedFilePresent_def Let_def)

theorem presence_cached_five_seconds_witness:
  "fst (finishedFilePresent 9000 (hm_items sample_manager ! 0)
     ((snd (finishedFilePresent 1000 (hm_items sample_manager ! 0) sample_merge))
        \<lparr>mg_http := sample_manager\<rparr>)) = False"
proof -
  have p: "mg_presence sample_merge (m_id (hm_items sample_manager ! 0)) = None"
    and f: "hm_files sample_manager (finalPath (hm_items sample_manager ! 0)) = None"
    by code_simp+
  show ?thesis
    using presence_cached_five_seconds [OF p, of 1000 2000 9000 sample_manager] f by simp
qed

end
