(* ===== verification/WireguardConfig.thy ===== *)
theory WireguardConfig
  imports QtText
begin

text \<open>
  The WireGuard configuration parser (\<open>src/services/vpn/wireguardconfig.h\<close>): the INI text a VPN
  provider hands out, read line by line into a \<open>WgConfig\<close> and validated. The parser's loop state
  (the configuration so far, the current section, whether an [Interface] was seen) is the record
  \<open>WgParse\<close>; \<open>wg_line\<close> is the loop body.
\<close>

section \<open>Definitions\<close>

record WgPeer =
  publicKey :: string
  presharedKey :: string
  endpoint :: string
  allowedIps :: "string list"
  persistentKeepalive :: int

record WgConfig =
  privateKey :: string
  addresses :: "string list"
  dns :: "string list"
  mtu :: int
  peers :: "WgPeer list"
  wg_valid :: bool
  wg_error :: string

datatype WgSection = SecNone | SecInterface | SecPeer

record WgParse =
  wp_cfg :: WgConfig
  wp_section :: WgSection
  wp_sawInterface :: bool

definition empty_peer :: WgPeer where
  "empty_peer = \<lparr>publicKey = [], presharedKey = [], endpoint = [], allowedIps = [],
                 persistentKeepalive = 0\<rparr>"

definition empty_config :: WgConfig where
  "empty_config = \<lparr>privateKey = [], addresses = [], dns = [], mtu = 0, peers = [],
                   wg_valid = False, wg_error = []\<rparr>"

definition wgList :: "string \<Rightarrow> string list" where
  "wgList v = filter (\<lambda>t. t \<noteq> []) (map trimmed (split_skip_empty CHR '','' v))"

definition looksLikeWgKey :: "string \<Rightarrow> bool" where
  "looksLikeWgKey k \<longleftrightarrow>
     length k = 44 \<and> ends_with ''='' k
     \<and> list_all (\<lambda>c. is_letter_or_number c \<or> c = CHR ''+'' \<or> c = CHR ''/'' \<or> c = CHR ''='') k"

definition interface_key :: "string \<Rightarrow> string \<Rightarrow> WgConfig \<Rightarrow> WgConfig" where
  "interface_key key val cfg =
     (if key = ''privatekey'' then cfg\<lparr>privateKey := val\<rparr>
      else if key = ''address'' then cfg\<lparr>addresses := wgList val\<rparr>
      else if key = ''dns'' then cfg\<lparr>dns := wgList val\<rparr>
      else if key = ''mtu'' then cfg\<lparr>mtu := to_int val\<rparr>
      else cfg)"

definition peer_key :: "string \<Rightarrow> string \<Rightarrow> WgPeer \<Rightarrow> WgPeer" where
  "peer_key key val p =
     (if key = ''publickey'' then p\<lparr>publicKey := val\<rparr>
      else if key = ''presharedkey'' then p\<lparr>presharedKey := val\<rparr>
      else if key = ''endpoint'' then p\<lparr>endpoint := val\<rparr>
      else if key = ''allowedips'' then p\<lparr>allowedIps := wgList val\<rparr>
      else if key = ''persistentkeepalive'' then p\<lparr>persistentKeepalive := to_int val\<rparr>
      else p)"

definition strip_comment :: "string \<Rightarrow> string" where
  "strip_comment raw = before_first CHR ''#'' raw"

definition wg_section :: "string \<Rightarrow> WgParse \<Rightarrow> WgParse" where
  "wg_section line st =
     (let name = to_lower (trimmed (take (length line - 2) (drop 1 line))) in
      if name = ''interface'' then st\<lparr>wp_section := SecInterface, wp_sawInterface := True\<rparr>
      else if name = ''peer''
           then st\<lparr>wp_section := SecPeer,
                   wp_cfg := (wp_cfg st)\<lparr>peers := peers (wp_cfg st) @ [empty_peer]\<rparr>\<rparr>
           else st\<lparr>wp_section := SecNone\<rparr>)"

definition wg_keyval :: "string \<Rightarrow> string \<Rightarrow> WgParse \<Rightarrow> WgParse" where
  "wg_keyval key val st =
     (case wp_section st of
        SecInterface \<Rightarrow> st\<lparr>wp_cfg := interface_key key val (wp_cfg st)\<rparr>
      | SecPeer \<Rightarrow>
          (let ps = peers (wp_cfg st) in
           if ps = [] then st
           else st\<lparr>wp_cfg := (wp_cfg st)\<lparr>peers := butlast ps @ [peer_key key val (last ps)]\<rparr>\<rparr>)
      | SecNone \<Rightarrow> st)"

definition wg_line :: "string \<Rightarrow> WgParse \<Rightarrow> WgParse" where
  "wg_line raw st =
     (let line = trimmed (strip_comment raw) in
      if line = [] then st
      else if starts_with ''['' line \<and> ends_with '']'' line then wg_section line st
      else if CHR ''='' \<notin> set line then st
      else
        let key = to_lower (trimmed (before_first CHR ''='' line));
            val = trimmed (after_first CHR ''='' line)
        in if key = [] then st else wg_keyval key val st)"

definition wg_fail :: "string \<Rightarrow> WgConfig \<Rightarrow> WgConfig" where
  "wg_fail why cfg = cfg\<lparr>wg_valid := False, wg_error := why\<rparr>"

text \<open>The validation loop over the peers: the first offence, if any.\<close>

fun peer_error :: "WgPeer list \<Rightarrow> string option" where
  "peer_error [] = None"
| "peer_error (p # ps) =
     (if \<not> looksLikeWgKey (publicKey p) then Some ''a Peer is missing a valid PublicKey''
      else if endpoint p = [] \<or> CHR '':'' \<notin> set (endpoint p)
           then Some ''a Peer is missing a host:port Endpoint''
      else if allowedIps p = [] then Some ''a Peer is missing AllowedIPs''
      else if presharedKey p \<noteq> [] \<and> \<not> looksLikeWgKey (presharedKey p)
           then Some (''a Peer'' @ [CHR 0x27] @ ''s PresharedKey is invalid'')
      else peer_error ps)"

definition wg_validate :: "WgParse \<Rightarrow> WgConfig" where
  "wg_validate st =
     (let cfg = wp_cfg st in
      if \<not> wp_sawInterface st then wg_fail ''missing [Interface] section'' cfg
      else if privateKey cfg = [] then wg_fail ''missing PrivateKey'' cfg
      else if \<not> looksLikeWgKey (privateKey cfg)
           then wg_fail ''PrivateKey is not a valid WireGuard key'' cfg
      else if addresses cfg = [] then wg_fail ''missing interface Address'' cfg
      else if peers cfg = [] then wg_fail ''missing [Peer] section'' cfg
      else case peer_error (peers cfg) of
             Some why \<Rightarrow> wg_fail why cfg
           | None \<Rightarrow> cfg\<lparr>wg_valid := True\<rparr>)"

definition wg_start :: WgParse where
  "wg_start = \<lparr>wp_cfg = empty_config, wp_section = SecNone, wp_sawInterface = False\<rparr>"

definition parseWireguardConfig :: "string \<Rightarrow> WgConfig" where
  "parseWireguardConfig text =
     wg_validate (fold wg_line (split_on CHR 0x0A text) wg_start)"

section \<open>The specification: what a usable configuration is, and its text\<close>

text \<open>A peer and a configuration the tunnel can be brought up with.\<close>

definition peer_ok :: "WgPeer \<Rightarrow> bool" where
  "peer_ok p \<longleftrightarrow>
     looksLikeWgKey (publicKey p) \<and> CHR '':'' \<in> set (endpoint p) \<and> allowedIps p \<noteq> []
     \<and> (presharedKey p = [] \<or> looksLikeWgKey (presharedKey p))"

definition config_ok :: "WgConfig \<Rightarrow> bool" where
  "config_ok c \<longleftrightarrow>
     looksLikeWgKey (privateKey c) \<and> addresses c \<noteq> [] \<and> peers c \<noteq> []
     \<and> list_all peer_ok (peers c)"

text \<open>
  The text of a configuration in the layout of the header comment: one \<open>Key = value\<close> line per
  field, lists joined by comma and space, optional fields left out.
\<close>

fun join_with :: "string \<Rightarrow> string list \<Rightarrow> string" where
  "join_with sep [] = []"
| "join_with sep [x] = x"
| "join_with sep (x # y # ys) = x @ sep @ join_with sep (y # ys)"

definition kv :: "string \<Rightarrow> string \<Rightarrow> string" where
  "kv key val = key @ '' = '' @ val"

definition peer_lines :: "WgPeer \<Rightarrow> string list" where
  "peer_lines p =
     [''[Peer]'', kv ''PublicKey'' (publicKey p)]
     @ (if presharedKey p = [] then [] else [kv ''PresharedKey'' (presharedKey p)])
     @ [kv ''AllowedIPs'' (join_with '', '' (allowedIps p)), kv ''Endpoint'' (endpoint p)]
     @ (if persistentKeepalive p = 0 then []
        else [kv ''PersistentKeepalive'' (show_int (persistentKeepalive p))])"

definition config_lines :: "WgConfig \<Rightarrow> string list" where
  "config_lines c =
     [''[Interface]'', kv ''PrivateKey'' (privateKey c),
      kv ''Address'' (join_with '', '' (addresses c))]
     @ (if dns c = [] then [] else [kv ''DNS'' (join_with '', '' (dns c))])
     @ (if mtu c = 0 then [] else [kv ''MTU'' (show_int (mtu c))])
     @ concat (map peer_lines (peers c))"

definition render_config :: "WgConfig \<Rightarrow> string" where
  "render_config c = join_with [CHR 0x0A] (config_lines c)"

text \<open>Values a line can carry: non-empty, on one line, no comment sign, no white space at the ends.\<close>

definition line_value :: "string \<Rightarrow> bool" where
  "line_value v \<longleftrightarrow>
     v \<noteq> [] \<and> CHR 0x0A \<notin> set v \<and> CHR ''#'' \<notin> set v
     \<and> \<not> qt_space (hd v) \<and> \<not> qt_space (last v)"

definition list_value :: "string list \<Rightarrow> bool" where
  "list_value vs \<longleftrightarrow> list_all (\<lambda>v. line_value v \<and> CHR '','' \<notin> set v) vs"

definition peer_writable :: "WgPeer \<Rightarrow> bool" where
  "peer_writable p \<longleftrightarrow>
     line_value (publicKey p) \<and> (presharedKey p = [] \<or> line_value (presharedKey p))
     \<and> line_value (endpoint p) \<and> list_value (allowedIps p)
     \<and> 0 \<le> persistentKeepalive p \<and> persistentKeepalive p \<le> 2147483647"

definition config_writable :: "WgConfig \<Rightarrow> bool" where
  "config_writable c \<longleftrightarrow>
     line_value (privateKey c) \<and> list_value (addresses c) \<and> list_value (dns c)
     \<and> 0 \<le> mtu c \<and> mtu c \<le> 2147483647 \<and> list_all peer_writable (peers c)"

section \<open>Lemmas on lines\<close>

lemma trim_ends:
  assumes "s \<noteq> []" "\<not> p (hd s)" "\<not> p (last s)"
  shows "trim_by p s = s"
proof -
  have "dropWhile p s = s"
    using assms by (cases s) auto
  moreover have "dropWhile p (rev s) = rev s"
    using assms by (cases s rule: rev_cases) auto
  ultimately show ?thesis by (simp add: trim_by_def)
qed

lemma trimmed_ends [text_simps]:
  "s \<noteq> [] \<Longrightarrow> \<not> qt_space (hd s) \<Longrightarrow> \<not> qt_space (last s) \<Longrightarrow> trimmed s = s"
  unfolding trimmed_def by (rule trim_ends)

lemma qt_space_blank [simp]: "qt_space CHR '' ''"
  by code_simp

lemma trimmed_space_before: "trimmed (CHR '' '' # s) = trimmed s"
  by (simp add: trimmed_def trim_by_def)

lemma trimmed_space_after:
  assumes "s \<noteq> []" "\<not> qt_space (hd s)" "\<not> qt_space (last s)"
  shows "trimmed (s @ '' '') = s"
proof -
  have "dropWhile qt_space (s @ '' '') = s @ '' ''"
    using assms by (cases s) auto
  moreover have "dropWhile qt_space (CHR '' '' # rev s) = rev s"
    using assms by (cases s rule: rev_cases) auto
  ultimately show ?thesis by (simp add: trimmed_def trim_by_def)
qed

lemma takeWhile_none: "x \<notin> set s \<Longrightarrow> takeWhile (\<lambda>c. c \<noteq> x) s = s"
  by (induction s) auto

lemma before_first_append: "x \<notin> set a \<Longrightarrow> before_first x (a @ x # b) = a"
  by (induction a) (auto simp: before_first_def)

lemma after_first_append: "x \<notin> set a \<Longrightarrow> after_first x (a @ x # b) = b"
  by (induction a) (auto simp: after_first_def)

text \<open>A key as it stands in front of the equals sign.\<close>

definition line_key :: "string \<Rightarrow> bool" where
  "line_key k \<longleftrightarrow>
     k \<noteq> [] \<and> CHR ''='' \<notin> set k \<and> CHR ''#'' \<notin> set k \<and> CHR 0x0A \<notin> set k
     \<and> \<not> qt_space (hd k) \<and> \<not> qt_space (last k) \<and> hd k \<noteq> CHR ''[''"

lemma wg_line_kv:
  assumes k: "line_key k" and v: "line_value v"
  shows "wg_line (kv k v) st = wg_keyval (to_lower k) v st"
proof -
  have nc: "strip_comment (kv k v) = kv k v"
    unfolding strip_comment_def before_first_def
    by (rule takeWhile_none) (use k v in \<open>auto simp: kv_def line_key_def line_value_def\<close>)
  have tr: "trimmed (kv k v) = kv k v"
    using k v by (intro trimmed_ends) (auto simp: kv_def line_key_def line_value_def hd_append)
  have eqs: "kv k v = (k @ '' '') @ CHR ''='' # ('' '' @ v)"
    by (simp add: kv_def)
  have sp: "CHR ''='' \<notin> set (k @ '' '')"
    using k by (simp add: line_key_def)
  have key: "trimmed (before_first CHR ''='' (kv k v)) = k"
    unfolding eqs before_first_append [OF sp]
    using k by (intro trimmed_space_after) (simp_all add: line_key_def)
  have val: "trimmed (after_first CHR ''='' (kv k v)) = v"
    unfolding eqs after_first_append [OF sp]
    using v by (simp add: trimmed_space_before text_simps line_value_def)
  have ne: "kv k v \<noteq> []" "CHR ''='' \<in> set (kv k v)"
    by (simp_all add: kv_def)
  have nb: "\<not> starts_with ''['' (kv k v)"
    using k by (cases k) (auto simp: starts_with_def kv_def line_key_def)
  have "to_lower k \<noteq> []"
    using k by (simp add: line_key_def to_lower_def)
  then show ?thesis
    using key val ne nb by (simp add: wg_line_def nc tr Let_def)
qed

lemma split_skip_empty_single:
  "c \<notin> set s \<Longrightarrow> s \<noteq> [] \<Longrightarrow> split_skip_empty c s = [s]"
  by (simp add: split_skip_empty_def split_on_single)

lemma split_skip_empty_append:
  "c \<notin> set a \<Longrightarrow> a \<noteq> [] \<Longrightarrow> split_skip_empty c (a @ c # b) = a # split_skip_empty c b"
  by (simp add: split_skip_empty_def split_on_append)

lemma wgList_join_blank:
  "list_value vs \<Longrightarrow> vs \<noteq> [] \<Longrightarrow> wgList (CHR '' '' # join_with '', '' vs) = vs"
proof (induction vs rule: induct_list012)
  case 1
  then show ?case by simp
next
  case (2 x)
  then show ?case
    by (simp add: wgList_def list_value_def split_skip_empty_single trimmed_space_before text_simps
        line_value_def)
next
  case (3 x y zs)
  have x: "line_value x" "CHR '','' \<notin> set x" and r: "list_value (y # zs)"
    using "3.prems" by (simp_all add: list_value_def)
  have "split_skip_empty CHR '','' ((CHR '' '' # x) @ CHR '','' # CHR '' '' # join_with '', '' (y # zs))
    = (CHR '' '' # x) # split_skip_empty CHR '','' (CHR '' '' # join_with '', '' (y # zs))"
    using x by (intro split_skip_empty_append) simp_all
  then show ?case
    using "3.IH"(2) [OF r] x
    by (simp add: wgList_def trimmed_space_before text_simps line_value_def)
qed

lemma wgList_space: "wgList (CHR '' '' # s) = wgList s" if "s \<noteq> []" "hd s \<noteq> CHR '',''"
proof -
  obtain p ps where sp: "split_on CHR '','' s = p # ps"
    by (cases "split_on CHR '','' s") auto
  have "p \<noteq> []"
    using that sp by (cases s) (auto split: list.splits)
  then show ?thesis
    by (simp add: wgList_def split_skip_empty_def sp trimmed_space_before)
qed

lemma wgList_join [text_simps]:
  assumes "list_value vs" "vs \<noteq> []"
  shows "wgList (join_with '', '' vs) = vs"
proof -
  obtain x xs where vs: "vs = x # xs"
    using assms(2) by (cases vs) auto
  have x: "x \<noteq> []" "CHR '','' \<notin> set x"
    using assms(1) by (simp_all add: vs list_value_def line_value_def)
  then obtain c cs where c: "x = c # cs" "c \<noteq> CHR '',''"
    by (cases x) auto
  have "\<exists>r. join_with '', '' vs = c # r"
    by (cases xs) (simp_all add: vs c(1))
  then have "join_with '', '' vs \<noteq> []" "hd (join_with '', '' vs) \<noteq> CHR '',''"
    using c(2) by auto
  then show ?thesis
    using wgList_space [of "join_with '', '' vs"] wgList_join_blank [OF assms] by simp
qed

lemma join_list_value:
  assumes "list_value vs" "vs \<noteq> []"
  shows "line_value (join_with '', '' vs)"
  using assms
proof (induction vs rule: induct_list012)
  case (3 x y zs)
  then have "line_value x" "line_value (join_with '', '' (y # zs))"
    by (simp_all add: list_value_def)
  then show ?case
    by (auto simp: line_value_def hd_append)
qed (simp_all add: list_value_def)

lemma show_int_line_value: "0 \<le> n \<Longrightarrow> line_value (show_int n)"
proof -
  assume "0 \<le> n"
  then have s: "show_int n = show_nat (nat n)"
    by (simp add: show_int_def)
  have d: "is_digit c" if "c \<in> set (show_nat (nat n))" for c
    using show_nat_digits [of "nat n"] that by (simp add: list_all_iff)
  have "\<not> is_digit CHR 0x0A" "\<not> is_digit CHR ''#''"
    by code_simp+
  then have "CHR 0x0A \<notin> set (show_nat (nat n))" "CHR ''#'' \<notin> set (show_nat (nat n))"
    using d by blast+
  then show ?thesis
    using d digit_not_space hd_in_set last_in_set
    by (auto simp: line_value_def s)
qed

lemma to_int_show_int [text_simps]: "0 \<le> n \<Longrightarrow> n \<le> 2147483647 \<Longrightarrow> to_int (show_int n) = n"
  by (simp add: to_int_def show_int_def trimmed_show_nat parse_integer_show_nat)

lemma wg_line_section:
  assumes "s = ''[Interface]'' \<or> s = ''[Peer]''"
  shows "wg_line s st = (if s = ''[Interface]''
      then st\<lparr>wp_section := SecInterface, wp_sawInterface := True\<rparr>
      else st\<lparr>wp_section := SecPeer,
              wp_cfg := (wp_cfg st)\<lparr>peers := peers (wp_cfg st) @ [empty_peer]\<rparr>\<rparr>)"
proof -
  have i: "trimmed (strip_comment ''[Interface]'') = ''[Interface]''"
    "to_lower (trimmed (take (length ''[Interface]'' - 2) (drop 1 ''[Interface]''))) = ''interface''"
    "starts_with ''['' ''[Interface]'' \<and> ends_with '']'' ''[Interface]''"
    by code_simp+
  have p: "trimmed (strip_comment ''[Peer]'') = ''[Peer]''"
    "to_lower (trimmed (take (length ''[Peer]'' - 2) (drop 1 ''[Peer]''))) = ''peer''"
    "starts_with ''['' ''[Peer]'' \<and> ends_with '']'' ''[Peer]''"
    by code_simp+
  show ?thesis
    using assms
  proof
    assume s: "s = ''[Interface]''"
    show ?thesis
      unfolding s wg_line_def wg_section_def i(1) Let_def i(2) using i(3) by simp
  next
    assume s: "s = ''[Peer]''"
    show ?thesis
      unfolding s wg_line_def wg_section_def p(1) Let_def p(2) using p(3) by simp
  qed
qed

lemma line_keys:
  "line_key ''PrivateKey''" "line_key ''Address''" "line_key ''DNS''" "line_key ''MTU''"
  "line_key ''PublicKey''" "line_key ''PresharedKey''" "line_key ''AllowedIPs''"
  "line_key ''Endpoint''" "line_key ''PersistentKeepalive''"
  by code_simp+

lemma lower_keys:
  "to_lower ''PrivateKey'' = ''privatekey''" "to_lower ''Address'' = ''address''"
  "to_lower ''DNS'' = ''dns''" "to_lower ''MTU'' = ''mtu''" "to_lower ''PublicKey'' = ''publickey''"
  "to_lower ''PresharedKey'' = ''presharedkey''" "to_lower ''AllowedIPs'' = ''allowedips''"
  "to_lower ''Endpoint'' = ''endpoint''"
  "to_lower ''PersistentKeepalive'' = ''persistentkeepalive''"
  by code_simp+

lemmas wg_line_keys = line_keys [THEN wg_line_kv, unfolded lower_keys]

section \<open>The parser reads its layout back\<close>

lemma peer_lines_parse:
  assumes w: "peer_writable p" and ok: "peer_ok p"
  shows "fold wg_line (peer_lines p) st =
    st\<lparr>wp_section := SecPeer, wp_cfg := (wp_cfg st)\<lparr>peers := peers (wp_cfg st) @ [p]\<rparr>\<rparr>"
proof -
  have ips: "allowedIps p \<noteq> []" "list_value (allowedIps p)"
    using w ok by (simp_all add: peer_ok_def peer_writable_def)
  note lv = join_list_value [OF ips(2,1)]
  have vals: "line_value (publicKey p)" "line_value (endpoint p)"
    "presharedKey p \<noteq> [] \<Longrightarrow> line_value (presharedKey p)"
    "line_value (show_int (persistentKeepalive p))"
    "0 \<le> persistentKeepalive p" "persistentKeepalive p \<le> 2147483647"
    using w by (auto simp: peer_writable_def show_int_line_value)
  show ?thesis
    using vals lv ips
    by (cases "presharedKey p = []"; cases "persistentKeepalive p = 0")
      (simp_all add: peer_lines_def wg_line_section wg_line_keys wg_keyval_def Let_def peer_key_def
        empty_peer_def text_simps)
qed

lemma peers_lines_parse:
  "list_all peer_writable ps \<Longrightarrow> list_all peer_ok ps \<Longrightarrow> ps \<noteq> [] \<Longrightarrow>
    fold wg_line (concat (map peer_lines ps)) st =
    st\<lparr>wp_section := SecPeer, wp_cfg := (wp_cfg st)\<lparr>peers := peers (wp_cfg st) @ ps\<rparr>\<rparr>"
proof (induction ps arbitrary: st)
  case Nil
  then show ?case by simp
next
  case (Cons p ps)
  then show ?case by (cases "ps = []") (simp_all add: peer_lines_parse)
qed

lemma config_lines_parse:
  assumes w: "config_writable c" and ok: "config_ok c"
  shows "fold wg_line (config_lines c) wg_start =
    \<lparr>wp_cfg = c\<lparr>wg_valid := False, wg_error := []\<rparr>, wp_section = SecPeer, wp_sawInterface = True\<rparr>"
proof -
  have ad: "addresses c \<noteq> []" "list_value (addresses c)"
    using w ok by (simp_all add: config_ok_def config_writable_def)
  note av = join_list_value [OF ad(2,1)]
  have dv: "dns c \<noteq> [] \<Longrightarrow> line_value (join_with '', '' (dns c))" "list_value (dns c)"
    using w join_list_value by (auto simp: config_writable_def)
  have mv: "line_value (show_int (mtu c))" "0 \<le> mtu c" "mtu c \<le> 2147483647"
    and pk: "line_value (privateKey c)"
    using w by (auto simp: config_writable_def show_int_line_value)
  have ps: "list_all peer_writable (peers c)" "list_all peer_ok (peers c)" "peers c \<noteq> []"
    using w ok by (simp_all add: config_ok_def config_writable_def)
  show ?thesis
    using ad av dv mv pk ps
    by (cases "dns c = []"; cases "mtu c = 0")
      (simp_all add: config_lines_def wg_line_section wg_line_keys wg_keyval_def interface_key_def
        wg_start_def empty_config_def text_simps peers_lines_parse)
qed

lemma kv_no_newline: "line_value v \<Longrightarrow> line_key k \<Longrightarrow> CHR 0x0A \<notin> set (kv k v)"
  by (simp add: kv_def line_value_def line_key_def)

lemma peer_lines_no_newline:
  assumes "peer_writable p" "peer_ok p" "l \<in> set (peer_lines p)"
  shows "CHR 0x0A \<notin> set l"
proof -
  have "line_value (join_with '', '' (allowedIps p))"
    using assms by (intro join_list_value) (simp_all add: peer_writable_def peer_ok_def)
  then show ?thesis
    using assms kv_no_newline line_keys show_int_line_value
    by (auto simp: peer_lines_def peer_writable_def split: if_splits)
qed

lemma config_lines_no_newline:
  assumes "config_writable c" "config_ok c" "l \<in> set (config_lines c)"
  shows "CHR 0x0A \<notin> set l"
proof (cases "l \<in> set (concat (map peer_lines (peers c)))")
  case True
  then show ?thesis
    using assms peer_lines_no_newline by (auto simp: config_writable_def config_ok_def list_all_iff)
next
  case False
  have "line_value (join_with '', '' (addresses c))"
    using assms by (intro join_list_value) (simp_all add: config_writable_def config_ok_def)
  moreover have "dns c \<noteq> [] \<Longrightarrow> line_value (join_with '', '' (dns c))"
    using assms by (intro join_list_value) (simp_all add: config_writable_def)
  moreover have "line_value (show_int (mtu c))" "line_value (privateKey c)"
    using assms by (simp_all add: config_writable_def show_int_line_value)
  ultimately show ?thesis
    using assms(3) False kv_no_newline line_keys by (auto simp: config_lines_def split: if_splits)
qed

lemma split_on_join:
  "ls \<noteq> [] \<Longrightarrow> \<forall>l \<in> set ls. x \<notin> set l \<Longrightarrow> split_on x (join_with [x] ls) = ls"
  by (induction ls rule: induct_list012) (simp_all add: split_on_single split_on_append)

lemma peer_error_None: "peer_error ps = None \<longleftrightarrow> list_all peer_ok ps"
  by (induction ps) (auto simp: peer_ok_def)

lemma render_parses:
  assumes "config_writable c" "config_ok c"
  shows "parseWireguardConfig (render_config c) = c\<lparr>wg_valid := True, wg_error := []\<rparr>"
proof -
  have "config_lines c \<noteq> []"
    by (simp add: config_lines_def)
  then have "split_on CHR 0x0A (render_config c) = config_lines c"
    unfolding render_config_def
    using config_lines_no_newline [OF assms] by (intro split_on_join) auto
  then have p: "parseWireguardConfig (render_config c) =
      wg_validate \<lparr>wp_cfg = c\<lparr>wg_valid := False, wg_error := []\<rparr>, wp_section = SecPeer,
        wp_sawInterface = True\<rparr>"
    by (simp add: parseWireguardConfig_def config_lines_parse [OF assms])
  have "looksLikeWgKey (privateKey c)" "privateKey c \<noteq> []" "addresses c \<noteq> []" "peers c \<noteq> []"
    "peer_error (peers c) = None"
    using assms by (auto simp: config_ok_def config_writable_def line_value_def peer_error_None)
  then show ?thesis
    by (simp add: p wg_validate_def)
qed

section \<open>Properties\<close>

text \<open>
  C38: printing and parsing. The text of every usable configuration whose values fit on a line
  parses back to that configuration, marked valid: keys, address, DNS and AllowedIPs lists, MTU,
  keepalive and every peer, in order.
\<close>

theorem parse_render_roundtrip:
  assumes "config_writable c" "config_ok c"
  shows "parseWireguardConfig (render_config c) = c\<lparr>wg_valid := True, wg_error := []\<rparr>"
  using assms by (rule render_parses)

definition sample_key :: string where
  "sample_key = replicate 43 (CHR ''A'') @ ''=''"

definition sample_config :: WgConfig where
  "sample_config =
     \<lparr>privateKey = sample_key, addresses = [''10.64.0.2/32'', ''fd7a:1::2/128''],
      dns = [''10.64.0.1''], mtu = 1420,
      peers = [\<lparr>publicKey = sample_key, presharedKey = [], endpoint = ''193.32.127.1:51820'',
                allowedIps = [''0.0.0.0/0'', ''::/0''], persistentKeepalive = 25\<rparr>],
      wg_valid = True, wg_error = []\<rparr>"

lemma sample_config_ok: "config_writable sample_config" "config_ok sample_config"
  by code_simp+

lemma sample_config_parsed: "parseWireguardConfig (render_config sample_config) = sample_config"
  using render_parses [OF sample_config_ok] by (simp add: sample_config_def)

theorem parse_render_roundtrip_witness:
  "parseWireguardConfig (render_config sample_config) = sample_config"
  using parse_render_roundtrip [OF sample_config_ok] by (simp add: sample_config_def)

text \<open>
  the validator is sound and explains itself. A text that parses as valid gives a usable
  configuration (a well-formed private key, an address, at least one peer, each with a well-formed
  key, a host:port endpoint and allowed addresses, and a preshared key that is well-formed if
  given); a text that does not parse as valid carries a reason.
\<close>

theorem valid_config_is_usable:
  "(wg_valid (parseWireguardConfig t) \<longrightarrow> config_ok (parseWireguardConfig t))
   \<and> (\<not> wg_valid (parseWireguardConfig t) \<longrightarrow> wg_error (parseWireguardConfig t) \<noteq> [])"
proof -
  define st where "st = fold wg_line (split_on CHR 0x0A t) wg_start"
  have pe: "peer_error ps = Some why \<Longrightarrow> why \<noteq> []" for ps why
    by (induction ps) (auto split: if_splits)
  have p: "parseWireguardConfig t = wg_validate st"
    by (simp add: parseWireguardConfig_def st_def)
  show ?thesis
    unfolding p wg_validate_def Let_def wg_fail_def
    using peer_error_None [of "peers (wp_cfg st)"] pe
    by (auto simp: config_ok_def split: option.split)
qed

theorem valid_config_is_usable_witness:
  "config_ok (parseWireguardConfig (render_config sample_config))
   \<and> wg_error (parseWireguardConfig ''[Peer]'') \<noteq> []"
proof -
  have v: "wg_valid (parseWireguardConfig (render_config sample_config))"
    unfolding sample_config_parsed by (simp add: sample_config_def)
  have n: "\<not> wg_valid (parseWireguardConfig ''[Peer]'')" by code_simp
  show ?thesis
    using valid_config_is_usable [of "render_config sample_config"]
      valid_config_is_usable [of "''[Peer]''"] v n by blast
qed

text \<open>
  what a line means does not depend on a trailing comment or on white space around it, and a
  text whose lines hold no section header never yields a valid configuration: every key before the
  first header is ignored, and the reason is the missing [Interface].
\<close>

theorem comments_and_headerless_lines_ignored:
  "wg_line (raw @ CHR ''#'' # junk) st = wg_line raw st
   \<and> (CHR ''#'' \<notin> set raw \<longrightarrow> wg_line (trimmed raw) st = wg_line raw st)
   \<and> ((\<forall>l \<in> set (split_on CHR 0x0A t).
         \<not> starts_with ''['' (trimmed (strip_comment l))) \<longrightarrow>
       wg_error (parseWireguardConfig t) = ''missing [Interface] section'')"
proof -
  have c: "strip_comment (raw @ CHR ''#'' # junk) = strip_comment raw" for raw junk
    by (induction raw) (simp_all add: strip_comment_def before_first_def)
  have tt: "trim_by p (trim_by p s) = trim_by p s" for p s
  proof (cases "trim_by p s = []")
    case True
    have "trim_by p [] = []" by (simp add: trim_by_def)
    with True show ?thesis by simp
  next
    case False
    have l: "\<not> p (last (trim_by p s))"
      using False hd_dropWhile [of p "rev (dropWhile p s)"] by (simp add: trim_by_def last_rev)
    have "\<not> p (hd (trim_by p s))"
    proof -
      obtain y where y: "dropWhile p s = trim_by p s @ y"
        by (metis rev_append rev_rev_ident takeWhile_dropWhile_id trim_by_def)
      then have "hd (dropWhile p s) = hd (trim_by p s)"
        using False by simp
      moreover have "dropWhile p s \<noteq> []"
        using y False by auto
      ultimately show ?thesis
        using hd_dropWhile by metis
    qed
    with l False show ?thesis by (intro trim_ends) simp_all
  qed
  have b: "wg_line (trimmed raw) st = wg_line raw st" if h: "CHR ''#'' \<notin> set raw" for raw st
  proof -
    have "CHR ''#'' \<notin> set (trimmed raw)"
      using h set_trim_by [of qt_space raw] by (auto simp: trimmed_def)
    then have "strip_comment (trimmed raw) = trimmed raw" "strip_comment raw = raw"
      using h by (simp_all add: strip_comment_def before_first_def takeWhile_none)
    then show ?thesis
      using tt by (simp add: wg_line_def trimmed_def)
  qed
  have "fold wg_line ls wg_start = wg_start"
    if "\<forall>l \<in> set ls. \<not> starts_with ''['' (trimmed (strip_comment l))" for ls
    using that by (induction ls) (auto simp: wg_line_def Let_def wg_keyval_def wg_start_def)
  then have "wg_error (parseWireguardConfig t) = ''missing [Interface] section''"
    if "\<forall>l \<in> set (split_on CHR 0x0A t). \<not> starts_with ''['' (trimmed (strip_comment l))"
    using that
    by (simp add: parseWireguardConfig_def wg_validate_def wg_fail_def wg_start_def)
  then show ?thesis
    using c b by (simp add: wg_line_def)
qed

theorem comments_and_headerless_lines_ignored_witness:
  "wg_error (parseWireguardConfig ''PrivateKey = x # no header'') = ''missing [Interface] section''"
proof -
  have l: "split_on CHR 0x0A ''PrivateKey = x # no header'' = [''PrivateKey = x # no header'']"
    "\<not> starts_with ''['' (trimmed (strip_comment ''PrivateKey = x # no header''))"
    by code_simp+
  show ?thesis
    using comments_and_headerless_lines_ignored [of "[]" "[]" wg_start "''PrivateKey = x # no header''"] l
    by simp
qed

end
