(* ===== verification/WgTunnel.thy ===== *)
theory WgTunnel
  imports WireguardConfig
begin

text \<open>
  The tunnel behind the VPN (\<open>src/services/vpn/wgtunnel.h\<close>) and its two implementations: the
  stub of the same header and the userspace one (\<open>wgtunnel_userspace.{h,cpp}\<close>), which drives the
  \<open>batwg\<close> helper process. A virtual class is the record \<open>WgTunnelOps\<close> of its methods over a state
  type. Signals posted with a zero timer wait in a list; the signals a slot emits at once are in its
  result. The locale \<open>wg_tunnel\<close> is the contract the manager relies on, \<open>orderly_tunnel\<close> the
  stronger one of a tunnel that never reports a connection after it was told to go down; the stub
  meets the first only, the userspace tunnel both.
\<close>

section \<open>The interface\<close>

datatype TunnelSignal =
    TunConnected string
  | TunDisconnected
  | TunFailed string
  | TunForwardedPort int

record SocksInfo =
  sk_port :: int
  sk_user :: string
  sk_pass :: string
  sk_ip :: string

text \<open>\<open>op_up\<close> gets the path, what the file at that path holds and the parsed configuration.\<close>

record 't WgTunnelOps =
  op_up :: "string \<Rightarrow> string option \<Rightarrow> WgConfig \<Rightarrow> 't \<Rightarrow> 't"
  op_down :: "'t \<Rightarrow> 't"
  op_interfaceName :: "'t \<Rightarrow> string"
  op_isReal :: "'t \<Rightarrow> bool"
  op_adopt :: "string \<Rightarrow> string \<Rightarrow> 't \<Rightarrow> 't \<times> bool"
  op_viaSocks :: bool
  op_socks :: "'t \<Rightarrow> SocksInfo option"
  op_failureIsFinal :: "'t \<Rightarrow> bool"

section \<open>The stub\<close>

datatype StubTimer = StubConnects | StubDisconnects

record StubWgTunnel =
  st_iface :: string
  st_timers :: "StubTimer list"

definition stub_up :: "string \<Rightarrow> string option \<Rightarrow> WgConfig \<Rightarrow> StubWgTunnel \<Rightarrow> StubWgTunnel" where
  "stub_up path file cfg t =
     t\<lparr>st_iface := ''wg-stub'', st_timers := st_timers t @ [StubConnects]\<rparr>"

definition stub_down :: "StubWgTunnel \<Rightarrow> StubWgTunnel" where
  "stub_down t = t\<lparr>st_iface := [], st_timers := st_timers t @ [StubDisconnects]\<rparr>"

text \<open>The \<open>i\<close>-th running timer fires; the lambda reads \<open>m_iface\<close> then.\<close>

definition stub_fire :: "nat \<Rightarrow> StubWgTunnel \<Rightarrow> StubWgTunnel \<times> TunnelSignal list" where
  "stub_fire i t =
     (if i < length (st_timers t)
      then (t\<lparr>st_timers := take i (st_timers t) @ drop (Suc i) (st_timers t)\<rparr>,
            [case st_timers t ! i of
               StubConnects \<Rightarrow> TunConnected (st_iface t)
             | StubDisconnects \<Rightarrow> TunDisconnected])
      else (t, []))"

definition stub_ops :: "StubWgTunnel WgTunnelOps" where
  "stub_ops = \<lparr>op_up = stub_up, op_down = stub_down, op_interfaceName = st_iface,
     op_isReal = (\<lambda>_. False), op_adopt = (\<lambda>conf iface t. (t, False)), op_viaSocks = False,
     op_socks = (\<lambda>_. None), op_failureIsFinal = (\<lambda>_. False)\<rparr>"

section \<open>The userspace tunnel\<close>

text \<open>One line of the helper's output, decoded.\<close>

datatype BatwgEvent =
    EvReady int string string string
  | EvFwd int
  | EvError string string
  | EvStale
  | EvOther

text \<open>
  A process is the number of its start; \<open>ut_stdin\<close> is what was written to the helper, \<open>ut_stdinOpen\<close>
  and \<open>ut_killed\<close> what was asked of the running process. \<open>ut_helper\<close> says whether \<open>helperPath\<close> finds
  the executable.
\<close>

record UserspaceWgTunnel =
  ut_helper :: bool
  ut_proc :: "nat option"
  ut_starts :: nat
  ut_stdin :: string
  ut_stdinOpen :: bool
  ut_killed :: bool
  ut_buf :: string
  ut_ready :: bool
  ut_stopping :: bool
  ut_error :: string
  ut_final :: bool
  ut_fwd :: int
  ut_port :: int
  ut_user :: string
  ut_pass :: string
  ut_ip :: string
  ut_posted :: "TunnelSignal list"

definition mkUserspace :: "bool \<Rightarrow> UserspaceWgTunnel" where
  "mkUserspace helper = \<lparr>ut_helper = helper, ut_proc = None, ut_starts = 0, ut_stdin = [],
     ut_stdinOpen = False, ut_killed = False, ut_buf = [], ut_ready = False, ut_stopping = False,
     ut_error = [], ut_final = False, ut_fwd = 0, ut_port = 0, ut_user = [], ut_pass = [],
     ut_ip = [], ut_posted = []\<rparr>"

definition describeError :: "string \<Rightarrow> string \<Rightarrow> string" where
  "describeError ecode detail =
     (if ecode = ''conf'' then ''The config file is not valid: '' @ detail
      else if ecode = ''server'' then ''Could not reach the VPN server: '' @ detail
      else if ecode = ''handshake''
           then ''The VPN server did not answer. The config may be expired or the server down.''
      else if ecode = ''traffic'' then ''The VPN server answered, but nothing passes through it.''
      else if detail \<noteq> [] then detail
      else ''The VPN stopped.'')"

definition ut_interfaceName :: "UserspaceWgTunnel \<Rightarrow> string" where
  "ut_interfaceName t =
     (if ut_ready t then ''WireGuard '' @ [CHR 0xB7] @ '' '' @ ut_ip t else [])"

definition ut_socks :: "UserspaceWgTunnel \<Rightarrow> SocksInfo option" where
  "ut_socks t =
     (if ut_ready t
      then Some \<lparr>sk_port = ut_port t, sk_user = ut_user t, sk_pass = ut_pass t, sk_ip = ut_ip t\<rparr>
      else None)"

definition ut_post :: "TunnelSignal \<Rightarrow> UserspaceWgTunnel \<Rightarrow> UserspaceWgTunnel" where
  "ut_post s t = t\<lparr>ut_posted := ut_posted t @ [s]\<rparr>"

definition ut_up ::
  "string \<Rightarrow> string option \<Rightarrow> WgConfig \<Rightarrow> UserspaceWgTunnel \<Rightarrow> UserspaceWgTunnel" where
  "ut_up path file cfg t =
     (if ut_proc t \<noteq> None then t
      else if \<not> ut_helper t
      then ut_post (TunFailed ''The VPN component is missing from this install.'')
             (t\<lparr>ut_final := True\<rparr>)
      else (case file of
          None \<Rightarrow> ut_post (TunFailed ''config missing on disk'') (t\<lparr>ut_final := True\<rparr>)
        | Some conf \<Rightarrow>
            t\<lparr>ut_final := False, ut_ready := False, ut_stopping := False, ut_error := [],
              ut_buf := [], ut_proc := Some (ut_starts t), ut_starts := Suc (ut_starts t),
              ut_stdin := conf @ [CHR 0x0A, CHR ''.'', CHR 0x0A], ut_stdinOpen := True,
              ut_killed := False\<rparr>))"

text \<open>The 40 second backstop and the 3 second kill of \<open>down\<close>, for the process \<open>p\<close> they captured.\<close>

definition ut_backstop :: "nat \<Rightarrow> UserspaceWgTunnel \<Rightarrow> UserspaceWgTunnel" where
  "ut_backstop p t =
     (if ut_proc t = Some p \<and> \<not> ut_ready t \<and> \<not> ut_stopping t
      then t\<lparr>ut_error := ''The VPN took too long to connect.'', ut_killed := True\<rparr>
      else t)"

definition ut_killTimer :: "nat \<Rightarrow> UserspaceWgTunnel \<Rightarrow> UserspaceWgTunnel" where
  "ut_killTimer p t = (if ut_proc t = Some p then t\<lparr>ut_killed := True\<rparr> else t)"

text \<open>One decoded line inside the loop of \<open>readEvents\<close>, with the signals it emits.\<close>

fun ut_event :: "BatwgEvent \<Rightarrow> UserspaceWgTunnel \<Rightarrow> UserspaceWgTunnel \<times> TunnelSignal list" where
  "ut_event (EvReady port user pass ip) t =
     (let t1 = t\<lparr>ut_port := port, ut_user := user, ut_pass := pass, ut_ip := ip,
                 ut_ready := 0 < port\<rparr>
      in (t1, if ut_ready t1 \<and> \<not> ut_stopping t1 then [TunConnected (ut_interfaceName t1)] else []))"
| "ut_event (EvFwd port) t =
     (t\<lparr>ut_fwd := port\<rparr>, if ut_ready t then [TunForwardedPort port] else [])"
| "ut_event (EvError ecode msg) t =
     (t\<lparr>ut_final := ecode = ''conf'', ut_error := describeError ecode msg\<rparr>, [])"
| "ut_event EvStale t =
     (t\<lparr>ut_error := ''The VPN server stopped answering.'', ut_stdinOpen := False\<rparr>, [])"
| "ut_event EvOther t = (t, [])"

text \<open>
  \<open>readEvents\<close> appends the output to the buffer and takes the complete lines off it; the lines are
  then handled one by one with \<open>ut_event\<close>.
\<close>

definition ut_lines :: "string \<Rightarrow> UserspaceWgTunnel \<Rightarrow> string list" where
  "ut_lines out t = map ba_trimmed (butlast (split_on CHR 0x0A (ut_buf t @ out)))"

definition ut_rest :: "string \<Rightarrow> UserspaceWgTunnel \<Rightarrow> UserspaceWgTunnel" where
  "ut_rest out t = t\<lparr>ut_buf := last (split_on CHR 0x0A (ut_buf t @ out))\<rparr>"

definition ut_finish ::
  "string \<Rightarrow> UserspaceWgTunnel \<Rightarrow> UserspaceWgTunnel \<times> TunnelSignal list" where
  "ut_finish error t =
     (if ut_proc t = None then (t, [])
      else
        (t\<lparr>ut_proc := None, ut_ready := False, ut_stopping := False, ut_port := 0,
           ut_user := [], ut_pass := [], ut_fwd := 0\<rparr>,
         (if ut_fwd t \<noteq> 0 then [TunForwardedPort 0] else [])
         @ [if ut_stopping t then TunDisconnected else TunFailed error]))"

text \<open>The text the \<open>finished\<close> slot passes to \<open>finish\<close>, after its last \<open>readEvents\<close>.\<close>

definition ut_exitText :: "UserspaceWgTunnel \<Rightarrow> string" where
  "ut_exitText t =
     (if ut_error t = []
      then (if ut_ready t then ''The VPN stopped.''
            else ''The VPN component quit before connecting.'')
      else ut_error t)"

definition ut_down :: "UserspaceWgTunnel \<Rightarrow> UserspaceWgTunnel" where
  "ut_down t =
     (if ut_proc t = None then ut_post TunDisconnected t
      else t\<lparr>ut_stopping := True, ut_stdinOpen := False\<rparr>)"

definition userspace_ops :: "UserspaceWgTunnel WgTunnelOps" where
  "userspace_ops = \<lparr>op_up = ut_up, op_down = ut_down, op_interfaceName = ut_interfaceName,
     op_isReal = ut_helper, op_adopt = (\<lambda>conf iface t. (t, False)), op_viaSocks = True,
     op_socks = ut_socks, op_failureIsFinal = ut_final\<rparr>"

section \<open>The contract\<close>

text \<open>
  \<open>owes t\<close>: the tunnel still has to answer a \<open>down\<close>. Going down creates the debt and bringing the
  tunnel up or adopting one does not lose it.
\<close>

locale wg_tunnel =
  fixes ops :: "'t WgTunnelOps"
    and owes :: "'t \<Rightarrow> bool"
  assumes down_owes: "owes (op_down ops t)"
    and up_keeps: "owes t \<Longrightarrow> owes (op_up ops path file cfg t)"
    and adopt_keeps: "owes t \<Longrightarrow> owes (fst (op_adopt ops conf iface t))"

text \<open>
  \<open>live t\<close>: the tunnel may still report a connection. Only \<open>up\<close> makes it live, \<open>down\<close> ends it.
\<close>

locale orderly_tunnel = wg_tunnel ops owes for ops :: "'t WgTunnelOps" and owes +
  fixes live :: "'t \<Rightarrow> bool"
  assumes down_not_live: "\<not> live (op_down ops t)"
    and adopt_not_live: "\<not> live t \<Longrightarrow> \<not> live (fst (op_adopt ops conf iface t))"

definition stub_owes :: "StubWgTunnel \<Rightarrow> bool" where
  "stub_owes t \<longleftrightarrow> StubDisconnects \<in> set (st_timers t)"

definition ut_owes :: "UserspaceWgTunnel \<Rightarrow> bool" where
  "ut_owes t \<longleftrightarrow> ut_proc t \<noteq> None \<and> ut_stopping t \<or> TunDisconnected \<in> set (ut_posted t)"

definition ut_live :: "UserspaceWgTunnel \<Rightarrow> bool" where
  "ut_live t \<longleftrightarrow> ut_proc t \<noteq> None \<and> \<not> ut_stopping t"

interpretation stub: wg_tunnel stub_ops stub_owes
  by unfold_locales
    (simp_all add: stub_ops_def stub_owes_def stub_down_def stub_up_def)

interpretation userspace: orderly_tunnel userspace_ops ut_owes ut_live
  by unfold_locales
    (auto simp: userspace_ops_def ut_owes_def ut_live_def ut_down_def ut_up_def ut_post_def
          split: option.split)

section \<open>Lemmas\<close>

text \<open>What an event or the exit of the helper does to the debt and to being live.\<close>

lemma ut_event_frame [simp]:
  "ut_proc (fst (ut_event ev t)) = ut_proc t"
  "ut_stopping (fst (ut_event ev t)) = ut_stopping t"
  "ut_posted (fst (ut_event ev t)) = ut_posted t"
  "ut_starts (fst (ut_event ev t)) = ut_starts t"
  "ut_helper (fst (ut_event ev t)) = ut_helper t"
  by (cases ev; simp add: Let_def)+

lemma ut_event_connected:
  "TunConnected i \<in> set (snd (ut_event ev t)) \<Longrightarrow>
     ut_ready (fst (ut_event ev t)) \<and> \<not> ut_stopping t
     \<and> i = ut_interfaceName (fst (ut_event ev t))"
  by (cases ev) (auto simp: Let_def split: if_splits)

lemma ut_rest_frame [simp]:
  "ut_proc (ut_rest s t) = ut_proc t" "ut_stopping (ut_rest s t) = ut_stopping t"
  "ut_posted (ut_rest s t) = ut_posted t" "ut_ready (ut_rest s t) = ut_ready t"
  "ut_port (ut_rest s t) = ut_port t" "ut_starts (ut_rest s t) = ut_starts t"
  "ut_fwd (ut_rest s t) = ut_fwd t" "ut_helper (ut_rest s t) = ut_helper t"
  by (simp_all add: ut_rest_def)

end
