(* ===== verification/VpnManager.thy ===== *)
theory VpnManager
  imports WgTunnel
begin

text \<open>
  The VPN manager (\<open>src/services/vpn/vpnmanager.{h,cpp}\<close>): the imported profiles, the connection
  state machine over a tunnel, and the automatic reconnect. The record \<open>VpnManager\<close> is the class's
  state over a tunnel of type \<open>'t\<close>, with the files and settings the class reads and writes; every
  operation and every slot is a state transformer that takes the tunnel's methods as \<open>ops\<close> and,
  where the code reads the clock, the time in milliseconds as \<open>now\<close>. Log output is left out.
\<close>

section \<open>State\<close>

datatype VpnState = VpnDisconnected | VpnConnecting | VpnConnected | VpnFailed

datatype VpnSignal =
    VpnStateChanged
  | ProfilesChanged
  | ForwardedPortChanged
  | RetryChanged
  | InterfaceUp string
  | InterfaceDown bool

record VpnProfile =
  pf_id :: string
  pf_name :: string
  pf_endpoint :: string
  pf_cc :: string
  pf_pendingIp :: string

text \<open>
  \<open>vm_files\<close>: path to contents; \<open>vm_index\<close>: \<open>profiles.json\<close> as its (id, name) entries;
  \<open>vm_settings\<close>: the string settings; \<open>vm_geoAsked\<close> and \<open>vm_dnsAsked\<close>: the look-ups started.
\<close>

record 't VpnManager =
  vm_profiles :: "VpnProfile list"
  vm_tunnel :: 't
  vm_state :: VpnState
  vm_activeId :: string
  vm_iface :: string
  vm_error :: string
  vm_lastTunnelConf :: string
  vm_userDown :: bool
  vm_retryTimer :: bool
  vm_retryTick :: bool
  vm_retryAt :: int
  vm_retries :: nat
  vm_keepUp :: bool
  vm_retryId :: string
  vm_fwdPort :: int
  vm_dir :: string
  vm_files :: "string \<Rightarrow> string option"
  vm_index :: "(string \<times> string) list option"
  vm_settings :: "string \<Rightarrow> string option"
  vm_geoAsked :: "string list"
  vm_dnsAsked :: "(string \<times> string) list"
  vm_signals :: "VpnSignal list"

section \<open>Helpers\<close>

definition vm_emit :: "VpnSignal \<Rightarrow> 't VpnManager \<Rightarrow> 't VpnManager" where
  "vm_emit s m = m\<lparr>vm_signals := vm_signals m @ [s]\<rparr>"

definition confPath :: "'t VpnManager \<Rightarrow> string \<Rightarrow> string" where
  "confPath m ident = vm_dir m @ ''/'' @ ident @ ''.conf''"

fun find_profile :: "string \<Rightarrow> VpnProfile list \<Rightarrow> nat option" where
  "find_profile ident [] = None"
| "find_profile ident (p # ps) =
     (if pf_id p = ident then Some 0 else map_option Suc (find_profile ident ps))"

definition indexOf :: "'t VpnManager \<Rightarrow> string \<Rightarrow> nat option" where
  "indexOf m ident = find_profile ident (vm_profiles m)"

definition vm_setState :: "VpnState \<Rightarrow> 't VpnManager \<Rightarrow> 't VpnManager" where
  "vm_setState s m =
     (if vm_state m = s then m else vm_emit VpnStateChanged (m\<lparr>vm_state := s\<rparr>))"

definition saveIndex :: "bool \<Rightarrow> 't VpnManager \<Rightarrow> 't VpnManager" where
  "saveIndex canWrite m =
     (if canWrite
      then m\<lparr>vm_index := Some (map (\<lambda>p. (pf_id p, pf_name p)) (vm_profiles m))\<rparr>
      else m)"

definition setting :: "'t VpnManager \<Rightarrow> string \<Rightarrow> string" where
  "setting m k = (case vm_settings m k of None \<Rightarrow> [] | Some v \<Rightarrow> v)"

definition saveActiveTunnel :: "'t WgTunnelOps \<Rightarrow> string \<Rightarrow> 't VpnManager \<Rightarrow> 't VpnManager" where
  "saveActiveTunnel ops iface m =
     (if op_isReal ops (vm_tunnel m)
      then m\<lparr>vm_settings := (vm_settings m)(''vpnActiveIface'' \<mapsto> iface,
               ''vpnActiveConf'' \<mapsto> vm_lastTunnelConf m, ''vpnActiveProfile'' \<mapsto> vm_activeId m)\<rparr>
      else m)"

definition clearActiveTunnel :: "'t WgTunnelOps \<Rightarrow> 't VpnManager \<Rightarrow> 't VpnManager" where
  "clearActiveTunnel ops m =
     (if op_isReal ops (vm_tunnel m)
      then m\<lparr>vm_settings := (vm_settings m)(''vpnActiveIface'' := None,
               ''vpnActiveConf'' := None, ''vpnActiveProfile'' := None)\<rparr>
      else m)"

section \<open>The automatic reconnect\<close>

definition retry_delays :: "int list" where
  "retry_delays = [5, 10, 30, 60, 120]"

definition retryIn :: "int \<Rightarrow> 't VpnManager \<Rightarrow> int" where
  "retryIn now m =
     (if vm_retryAt m \<le> 0 then 0
      else let left = vm_retryAt m - now
           in if 0 < left then to_int32 (cdiv (left + 999) 1000) else 0)"

definition scheduleRetry :: "int \<Rightarrow> 't VpnManager \<Rightarrow> 't VpnManager" where
  "scheduleRetry now m =
     (let s = retry_delays ! min (vm_retries m) 4
      in vm_emit RetryChanged
           (m\<lparr>vm_retries := Suc (vm_retries m), vm_retryAt := now + s * 1000,
              vm_retryTimer := True, vm_retryTick := True\<rparr>))"

definition stopRetry :: "'t VpnManager \<Rightarrow> 't VpnManager" where
  "stopRetry m =
     (if vm_retryAt m = 0 \<and> \<not> vm_retryTimer m then m
      else vm_emit RetryChanged
             (m\<lparr>vm_retryTimer := False, vm_retryTick := False, vm_retryAt := 0\<rparr>))"

section \<open>Connecting and disconnecting\<close>

definition vm_refuse :: "string \<Rightarrow> 't VpnManager \<Rightarrow> 't VpnManager" where
  "vm_refuse why m = vm_setState VpnFailed (m\<lparr>vm_error := why\<rparr>)"

definition connectProfile :: "'t WgTunnelOps \<Rightarrow> string \<Rightarrow> 't VpnManager \<Rightarrow> 't VpnManager" where
  "connectProfile ops ident m =
     (if vm_state m = VpnConnecting \<or> vm_state m = VpnConnected then m
      else
        let m1 = (stopRetry m)\<lparr>vm_retryId := ident\<rparr> in
        if indexOf m1 ident = None then vm_refuse ''unknown profile'' m1
        else (case vm_files m1 (confPath m1 ident) of
            None \<Rightarrow> vm_refuse ''config missing on disk'' m1
          | Some conf \<Rightarrow>
              let cfg = parseWireguardConfig conf in
              if \<not> wg_valid cfg then vm_refuse (wg_error cfg) m1
              else
                let m2 = vm_setState VpnConnecting
                       (m1\<lparr>vm_activeId := ident, vm_error := [],
                           vm_lastTunnelConf := confPath m1 ident,
                           vm_settings := (vm_settings m1)(''vpnLastProfileId'' \<mapsto> ident)\<rparr>)
                in m2\<lparr>vm_tunnel := op_up ops (confPath m1 ident) (Some conf) cfg (vm_tunnel m2)\<rparr>))"

definition connectLastUsed :: "'t WgTunnelOps \<Rightarrow> 't VpnManager \<Rightarrow> 't VpnManager" where
  "connectLastUsed ops m =
     (let ident = setting m ''vpnLastProfileId''
      in if ident = [] \<or> indexOf m ident = None then m
         else connectProfile ops ident (m\<lparr>vm_keepUp := True\<rparr>))"

text \<open>No tunnel here answers \<open>down\<close> synchronously, so the state it leaves is the one before.\<close>

definition disconnectVpn :: "'t WgTunnelOps \<Rightarrow> 't VpnManager \<Rightarrow> 't VpnManager" where
  "disconnectVpn ops m =
     (let m1 = stopRetry (m\<lparr>vm_keepUp := False, vm_retries := 0\<rparr>) in
      if vm_state m1 = VpnDisconnected then m1
      else
        let m2 = m1\<lparr>vm_activeId := [], vm_userDown := True,
                    vm_tunnel := op_down ops (vm_tunnel m1)\<rparr>
        in if vm_state m2 = VpnFailed
           then vm_emit (InterfaceDown True) (vm_setState VpnDisconnected (m2\<lparr>vm_iface := []\<rparr>))
           else m2)"

text \<open>\<open>stillUp\<close>: an up network interface has the recorded name.\<close>

definition adoptRunningTunnel ::
  "'t WgTunnelOps \<Rightarrow> bool \<Rightarrow> 't VpnManager \<Rightarrow> 't VpnManager" where
  "adoptRunningTunnel ops stillUp m =
     (let iface = setting m ''vpnActiveIface''; conf = setting m ''vpnActiveConf'';
          profile = setting m ''vpnActiveProfile''
      in if iface = [] then m
         else if \<not> stillUp \<or> conf = [] \<or> vm_files m conf = None then clearActiveTunnel ops m
         else
           let (t, ok) = op_adopt ops conf iface (vm_tunnel m); m1 = m\<lparr>vm_tunnel := t\<rparr>
           in if \<not> ok then clearActiveTunnel ops m1
              else vm_emit (InterfaceUp iface) (vm_setState VpnConnected
                     (m1\<lparr>vm_activeId := (if indexOf m1 profile = None then [] else profile),
                         vm_lastTunnelConf := conf, vm_iface := iface\<rparr>)))"

section \<open>The slots on the tunnel's signals and on the retry timer\<close>

definition onConnected :: "'t WgTunnelOps \<Rightarrow> string \<Rightarrow> 't VpnManager \<Rightarrow> 't VpnManager" where
  "onConnected ops iface m =
     (if vm_state m \<noteq> VpnConnecting then m\<lparr>vm_tunnel := op_down ops (vm_tunnel m)\<rparr>
      else
        vm_emit (InterfaceUp iface)
          (saveActiveTunnel ops iface
            (vm_setState VpnConnected
              (stopRetry (m\<lparr>vm_iface := iface, vm_keepUp := True, vm_retries := 0\<rparr>)))))"

definition onDisconnected :: "'t WgTunnelOps \<Rightarrow> 't VpnManager \<Rightarrow> 't VpnManager" where
  "onDisconnected ops m =
     (let m1 = clearActiveTunnel ops (vm_setState VpnDisconnected (m\<lparr>vm_iface := []\<rparr>))
      in vm_emit (InterfaceDown (vm_userDown m1)) (m1\<lparr>vm_userDown := False\<rparr>))"

definition onFailed :: "'t WgTunnelOps \<Rightarrow> int \<Rightarrow> string \<Rightarrow> 't VpnManager \<Rightarrow> 't VpnManager" where
  "onFailed ops now why m =
     (let m1 = m\<lparr>vm_error := why, vm_iface := []\<rparr>;
          m2 = (if vm_keepUp m1 \<and> \<not> op_failureIsFinal ops (vm_tunnel m1)
                then scheduleRetry now m1 else m1);
          m3 = clearActiveTunnel ops (vm_setState VpnFailed m2)
      in vm_emit (InterfaceDown False) (m3\<lparr>vm_userDown := False\<rparr>))"

definition onForwardedPort :: "int \<Rightarrow> 't VpnManager \<Rightarrow> 't VpnManager" where
  "onForwardedPort port m =
     (if vm_fwdPort m = port then m
      else vm_emit ForwardedPortChanged (m\<lparr>vm_fwdPort := port\<rparr>))"

fun onTunnel ::
  "'t WgTunnelOps \<Rightarrow> int \<Rightarrow> TunnelSignal \<Rightarrow> 't VpnManager \<Rightarrow> 't VpnManager" where
  "onTunnel ops now (TunConnected iface) m = onConnected ops iface m"
| "onTunnel ops now TunDisconnected m = onDisconnected ops m"
| "onTunnel ops now (TunFailed why) m = onFailed ops now why m"
| "onTunnel ops now (TunForwardedPort port) m = onForwardedPort port m"

definition onRetryTimer :: "'t WgTunnelOps \<Rightarrow> 't VpnManager \<Rightarrow> 't VpnManager" where
  "onRetryTimer ops m =
     (if \<not> vm_retryTimer m then m
      else
        let m1 = vm_emit RetryChanged
               (m\<lparr>vm_retryTimer := False, vm_retryTick := False, vm_retryAt := 0\<rparr>)
        in if vm_keepUp m1 \<and> (vm_state m1 = VpnFailed \<or> vm_state m1 = VpnDisconnected)
              \<and> indexOf m1 (vm_retryId m1) \<noteq> None
           then connectProfile ops (vm_retryId m1) m1
           else m1)"

section \<open>Profiles\<close>

text \<open>\<open>ident\<close> is the fresh UUID, \<open>canOpen\<close> and \<open>canCommit\<close> the outcomes of saving the file.\<close>

definition importConfig ::
  "string \<Rightarrow> bool \<Rightarrow> bool \<Rightarrow> bool \<Rightarrow> string \<Rightarrow> string \<Rightarrow> 't VpnManager \<Rightarrow> 't VpnManager \<times> string" where
  "importConfig ident canOpen canCommit canIndex name confText m =
     (let cfg = parseWireguardConfig confText in
      if \<not> wg_valid cfg then (m\<lparr>vm_error := wg_error cfg\<rparr>, [])
      else if \<not> canOpen then (m\<lparr>vm_error := ''cannot write config''\<rparr>, [])
      else if \<not> canCommit then (m\<lparr>vm_error := ''cannot save config''\<rparr>, [])
      else
        let m1 = m\<lparr>vm_files := (vm_files m)(confPath m ident \<mapsto> confText),
                   vm_profiles := vm_profiles m @
                     [\<lparr>pf_id = ident,
                       pf_name = (if trimmed name = [] then ''WireGuard'' else trimmed name),
                       pf_endpoint = endpoint (hd (peers cfg)), pf_cc = [], pf_pendingIp = []\<rparr>]\<rparr>
        in (vm_emit ProfilesChanged (saveIndex canIndex m1), ident))"

definition renameProfile :: "bool \<Rightarrow> string \<Rightarrow> string \<Rightarrow> 't VpnManager \<Rightarrow> 't VpnManager" where
  "renameProfile canIndex ident name m =
     (case indexOf m ident of
        None \<Rightarrow> m
      | Some i \<Rightarrow>
          if trimmed name = [] then m
          else if pf_name (vm_profiles m ! i) = trimmed name then m
          else vm_emit ProfilesChanged (saveIndex canIndex
                 (m\<lparr>vm_profiles :=
                      (vm_profiles m)[i := (vm_profiles m ! i)\<lparr>pf_name := trimmed name\<rparr>]\<rparr>)))"

definition removeProfile ::
  "'t WgTunnelOps \<Rightarrow> bool \<Rightarrow> string \<Rightarrow> 't VpnManager \<Rightarrow> 't VpnManager" where
  "removeProfile ops canIndex ident m =
     (case indexOf m ident of
        None \<Rightarrow> m
      | Some i \<Rightarrow>
          let m1 = (if vm_activeId m = ident then disconnectVpn ops m else m);
              m2 = m1\<lparr>vm_files := (vm_files m1)(confPath m1 ident := None),
                      vm_profiles := take i (vm_profiles m1) @ drop (Suc i) (vm_profiles m1)\<rparr>
          in vm_emit ProfilesChanged (saveIndex canIndex m2))"

definition load_profile :: "'t VpnManager \<Rightarrow> string \<times> string \<Rightarrow> VpnProfile option" where
  "load_profile m entry =
     (case entry of (ident, name) \<Rightarrow>
       if ident = [] then None
       else (case vm_files m (confPath m ident) of
           None \<Rightarrow> None
         | Some conf \<Rightarrow>
             let cfg = parseWireguardConfig conf
             in Some \<lparr>pf_id = ident, pf_name = name,
                      pf_endpoint = (if wg_valid cfg then endpoint (hd (peers cfg)) else []),
                      pf_cc = [], pf_pendingIp = []\<rparr>))"

definition vm_load :: "'t VpnManager \<Rightarrow> 't VpnManager" where
  "vm_load m =
     (case vm_index m of
        None \<Rightarrow> m
      | Some entries \<Rightarrow>
          m\<lparr>vm_profiles := vm_profiles m @ List.map_filter (load_profile m) entries\<rparr>)"

text \<open>The constructor: the members' initial values, then \<open>load\<close>.\<close>

definition mkVpnManager ::
  "'t \<Rightarrow> string \<Rightarrow> (string \<Rightarrow> string option) \<Rightarrow> (string \<times> string) list option
     \<Rightarrow> (string \<Rightarrow> string option) \<Rightarrow> 't VpnManager" where
  "mkVpnManager t dir files index settings =
     vm_load \<lparr>vm_profiles = [], vm_tunnel = t, vm_state = VpnDisconnected, vm_activeId = [],
       vm_iface = [], vm_error = [], vm_lastTunnelConf = [], vm_userDown = False,
       vm_retryTimer = False, vm_retryTick = False, vm_retryAt = 0, vm_retries = 0,
       vm_keepUp = False, vm_retryId = [], vm_fwdPort = 0, vm_dir = dir, vm_files = files,
       vm_index = index, vm_settings = settings, vm_geoAsked = [], vm_dnsAsked = [],
       vm_signals = []\<rparr>"

section \<open>The country of a profile\<close>

text \<open>
  \<open>isAddr\<close> is \<open>QHostAddress\<close>'s recognition of a literal address and \<open>cached\<close> the resolver's cache
  (empty: not cached).
\<close>

definition endpoint_host :: "string \<Rightarrow> string" where
  "endpoint_host ep =
     filter (\<lambda>c. c \<noteq> CHR ''['' \<and> c \<noteq> CHR '']'')
       (if before_last CHR '':'' ep = [] then ep else before_last CHR '':'' ep)"

definition update_profile :: "nat \<Rightarrow> (VpnProfile \<Rightarrow> VpnProfile) \<Rightarrow> 't VpnManager \<Rightarrow> 't VpnManager" where
  "update_profile i f m = m\<lparr>vm_profiles := (vm_profiles m)[i := f (vm_profiles m ! i)]\<rparr>"

definition resolveCountry ::
  "(string \<Rightarrow> bool) \<Rightarrow> (string \<Rightarrow> string) \<Rightarrow> string \<Rightarrow> 't VpnManager \<Rightarrow> 't VpnManager" where
  "resolveCountry isAddr cached ident m =
     (case indexOf m ident of
        None \<Rightarrow> m
      | Some i \<Rightarrow>
          if pf_cc (vm_profiles m ! i) \<noteq> [] then m
          else
            let host = endpoint_host (pf_endpoint (vm_profiles m ! i)) in
            if host = [] then m
            else if isAddr host
            then (let m1 = update_profile i (\<lambda>p. p\<lparr>pf_pendingIp := host\<rparr>) m
                  in if cached host \<noteq> []
                     then update_profile i (\<lambda>p. p\<lparr>pf_cc := cached host\<rparr>) m1
                     else m1\<lparr>vm_geoAsked := vm_geoAsked m1 @ [host]\<rparr>)
            else m\<lparr>vm_dnsAsked := vm_dnsAsked m @ [(host, ident)]\<rparr>)"

text \<open>The callbacks: DNS answered for \<open>ident\<close>, and the resolver answered for an address.\<close>

definition onHostFound ::
  "(string \<Rightarrow> string) \<Rightarrow> string \<Rightarrow> string list \<Rightarrow> 't VpnManager \<Rightarrow> 't VpnManager" where
  "onHostFound cached ident addrs m =
     (if addrs = [] then m
      else (case indexOf m ident of
          None \<Rightarrow> m
        | Some j \<Rightarrow>
            if pf_cc (vm_profiles m ! j) \<noteq> [] then m
            else
              let ip = hd addrs; m1 = update_profile j (\<lambda>p. p\<lparr>pf_pendingIp := ip\<rparr>) m
              in if cached ip \<noteq> []
                 then vm_emit ProfilesChanged
                        (update_profile j (\<lambda>p. p\<lparr>pf_cc := cached ip\<rparr>) m1)
                 else m1\<lparr>vm_geoAsked := vm_geoAsked m1 @ [ip]\<rparr>))"

definition onResolved :: "string \<Rightarrow> string \<Rightarrow> 't VpnManager \<Rightarrow> 't VpnManager" where
  "onResolved ip cc m =
     (if cc = [] then m
      else
        let hit = (\<lambda>p. pf_cc p = [] \<and> pf_pendingIp p = ip);
            m1 = m\<lparr>vm_profiles := map (\<lambda>p. if hit p then p\<lparr>pf_cc := cc\<rparr> else p) (vm_profiles m)\<rparr>
        in if list_ex hit (vm_profiles m) then vm_emit ProfilesChanged m1 else m1)"

text \<open>
  \<open>toLocal\<close> is \<open>QUrl::toLocalFile\<close> and \<open>disk\<close> what the files outside the store hold.
\<close>

definition completeBaseName :: "string \<Rightarrow> string" where
  "completeBaseName path =
     (let f = after_last CHR ''/'' path
      in if CHR ''.'' \<in> set f then before_last CHR ''.'' f else f)"

definition importFromFile ::
  "(string \<Rightarrow> string) \<Rightarrow> (string \<Rightarrow> string option) \<Rightarrow> string \<Rightarrow> bool \<Rightarrow> bool \<Rightarrow> bool
     \<Rightarrow> string \<Rightarrow> string \<Rightarrow> 't VpnManager \<Rightarrow> 't VpnManager \<times> string" where
  "importFromFile toLocal disk ident canOpen canCommit canIndex fileUrlOrPath name m =
     (let path = (if starts_with ''file:'' fileUrlOrPath then toLocal fileUrlOrPath
                  else fileUrlOrPath) in
      case disk path of
        None \<Rightarrow> (m\<lparr>vm_error := ''cannot read '' @ path\<rparr>, [])
      | Some confText \<Rightarrow>
          importConfig ident canOpen canCommit canIndex
            (if trimmed name = [] then completeBaseName path else name) confText m)"

section \<open>Lemmas on the profile list\<close>

lemma vm_emit_sel [simp]:
  "vm_profiles (vm_emit s m) = vm_profiles m" "vm_tunnel (vm_emit s m) = vm_tunnel m"
  "vm_state (vm_emit s m) = vm_state m" "vm_userDown (vm_emit s m) = vm_userDown m"
  "vm_files (vm_emit s m) = vm_files m" "vm_index (vm_emit s m) = vm_index m"
  "vm_dir (vm_emit s m) = vm_dir m" "vm_keepUp (vm_emit s m) = vm_keepUp m"
  "vm_retryTimer (vm_emit s m) = vm_retryTimer m" "vm_retryAt (vm_emit s m) = vm_retryAt m"
  "vm_retries (vm_emit s m) = vm_retries m" "vm_fwdPort (vm_emit s m) = vm_fwdPort m"
  "vm_activeId (vm_emit s m) = vm_activeId m" "vm_iface (vm_emit s m) = vm_iface m"
  "vm_retryId (vm_emit s m) = vm_retryId m" "vm_retryTick (vm_emit s m) = vm_retryTick m"
  "vm_signals (vm_emit s m) = vm_signals m @ [s]" "vm_error (vm_emit s m) = vm_error m"
  by (simp_all add: vm_emit_def)

lemma vm_setState_sel [simp]:
  "vm_profiles (vm_setState st m) = vm_profiles m" "vm_tunnel (vm_setState st m) = vm_tunnel m"
  "vm_state (vm_setState st m) = st" "vm_userDown (vm_setState st m) = vm_userDown m"
  "vm_files (vm_setState st m) = vm_files m" "vm_index (vm_setState st m) = vm_index m"
  "vm_dir (vm_setState st m) = vm_dir m" "vm_keepUp (vm_setState st m) = vm_keepUp m"
  "vm_retryTimer (vm_setState st m) = vm_retryTimer m"
  "vm_retryAt (vm_setState st m) = vm_retryAt m" "vm_retries (vm_setState st m) = vm_retries m"
  "vm_fwdPort (vm_setState st m) = vm_fwdPort m" "vm_iface (vm_setState st m) = vm_iface m"
  "vm_activeId (vm_setState st m) = vm_activeId m" "vm_retryId (vm_setState st m) = vm_retryId m"
  "vm_retryTick (vm_setState st m) = vm_retryTick m" "vm_error (vm_setState st m) = vm_error m"
  by (simp_all add: vm_setState_def)

lemma stopRetry_sel [simp]:
  "vm_profiles (stopRetry m) = vm_profiles m" "vm_tunnel (stopRetry m) = vm_tunnel m"
  "vm_state (stopRetry m) = vm_state m" "vm_userDown (stopRetry m) = vm_userDown m"
  "vm_files (stopRetry m) = vm_files m" "vm_index (stopRetry m) = vm_index m"
  "vm_dir (stopRetry m) = vm_dir m" "vm_keepUp (stopRetry m) = vm_keepUp m"
  "vm_retryTimer (stopRetry m) = False" "vm_retryAt (stopRetry m) = 0"
  "vm_retries (stopRetry m) = vm_retries m" "vm_fwdPort (stopRetry m) = vm_fwdPort m"
  "vm_iface (stopRetry m) = vm_iface m" "vm_activeId (stopRetry m) = vm_activeId m"
  "vm_retryId (stopRetry m) = vm_retryId m" "vm_error (stopRetry m) = vm_error m"
  by (auto simp: stopRetry_def)

lemma activeTunnel_sel [simp]:
  "vm_profiles (clearActiveTunnel ops m) = vm_profiles m"
  "vm_tunnel (clearActiveTunnel ops m) = vm_tunnel m"
  "vm_state (clearActiveTunnel ops m) = vm_state m"
  "vm_userDown (clearActiveTunnel ops m) = vm_userDown m"
  "vm_keepUp (clearActiveTunnel ops m) = vm_keepUp m"
  "vm_retryTimer (clearActiveTunnel ops m) = vm_retryTimer m"
  "vm_retryAt (clearActiveTunnel ops m) = vm_retryAt m"
  "vm_retries (clearActiveTunnel ops m) = vm_retries m"
  "vm_fwdPort (clearActiveTunnel ops m) = vm_fwdPort m"
  "vm_iface (clearActiveTunnel ops m) = vm_iface m"
  "vm_signals (clearActiveTunnel ops m) = vm_signals m"
  "vm_retryId (clearActiveTunnel ops m) = vm_retryId m"
  "vm_retryTick (clearActiveTunnel ops m) = vm_retryTick m"
  "vm_profiles (saveActiveTunnel ops i m) = vm_profiles m"
  "vm_tunnel (saveActiveTunnel ops i m) = vm_tunnel m"
  "vm_state (saveActiveTunnel ops i m) = vm_state m"
  "vm_userDown (saveActiveTunnel ops i m) = vm_userDown m"
  "vm_keepUp (saveActiveTunnel ops i m) = vm_keepUp m"
  "vm_retryTimer (saveActiveTunnel ops i m) = vm_retryTimer m"
  "vm_retryAt (saveActiveTunnel ops i m) = vm_retryAt m"
  "vm_retries (saveActiveTunnel ops i m) = vm_retries m"
  "vm_fwdPort (saveActiveTunnel ops i m) = vm_fwdPort m"
  "vm_iface (saveActiveTunnel ops i m) = vm_iface m"
  "vm_signals (saveActiveTunnel ops i m) = vm_signals m"
  by (simp_all add: clearActiveTunnel_def saveActiveTunnel_def)

lemma disconnectVpn_sel [simp]:
  "vm_profiles (disconnectVpn ops m) = vm_profiles m" "vm_files (disconnectVpn ops m) = vm_files m"
  "vm_index (disconnectVpn ops m) = vm_index m" "vm_dir (disconnectVpn ops m) = vm_dir m"
  "vm_keepUp (disconnectVpn ops m) = False" "vm_retryTimer (disconnectVpn ops m) = False"
  by (simp_all add: disconnectVpn_def Let_def)

lemma find_profile_Some:
  "find_profile ident ps = Some i \<Longrightarrow> i < length ps \<and> pf_id (ps ! i) = ident"
  by (induction ident ps arbitrary: i rule: find_profile.induct) (auto split: if_splits)

lemma find_profile_None: "find_profile ident ps = None \<longleftrightarrow> ident \<notin> pf_id ` set ps"
  by (induction ident ps rule: find_profile.induct) auto

lemma confPath_inj: "confPath m a = confPath m b \<longleftrightarrow> a = b"
  by (simp add: confPath_def)

section \<open>The store of profiles\<close>

text \<open>What the store promises: the index lists the profiles, each with a usable configuration.\<close>

definition profile_ok :: "'t VpnManager \<Rightarrow> VpnProfile \<Rightarrow> bool" where
  "profile_ok m p \<longleftrightarrow> pf_id p \<noteq> []
     \<and> (case vm_files m (confPath m (pf_id p)) of
          None \<Rightarrow> False
        | Some conf \<Rightarrow> wg_valid (parseWireguardConfig conf)
            \<and> pf_endpoint p = endpoint (hd (peers (parseWireguardConfig conf))))"

definition store_ok :: "'t VpnManager \<Rightarrow> bool" where
  "store_ok m \<longleftrightarrow> distinct (map pf_id (vm_profiles m))
     \<and> (\<forall>p \<in> set (vm_profiles m). profile_ok m p)
     \<and> (vm_index m = Some (map (\<lambda>p. (pf_id p, pf_name p)) (vm_profiles m))
        \<or> vm_profiles m = [] \<and> vm_index m = None)"

datatype ProfileOp =
    PImport string string string
  | PRename string string
  | PRemove string

fun profile_step :: "'t WgTunnelOps \<Rightarrow> ProfileOp \<Rightarrow> 't VpnManager \<Rightarrow> 't VpnManager" where
  "profile_step ops (PImport ident name conf) m =
     fst (importConfig ident True True True name conf m)"
| "profile_step ops (PRename ident name) m = renameProfile True ident name m"
| "profile_step ops (PRemove ident) m = removeProfile ops True ident m"

text \<open>A new id is fresh, as UUIDs are taken to be.\<close>

fun fresh_op :: "ProfileOp \<Rightarrow> 't VpnManager \<Rightarrow> bool" where
  "fresh_op (PImport ident name conf) m \<longleftrightarrow> ident \<noteq> [] \<and> ident \<notin> pf_id ` set (vm_profiles m)"
| "fresh_op _ m \<longleftrightarrow> True"

fun fresh_ops :: "'t WgTunnelOps \<Rightarrow> ProfileOp list \<Rightarrow> 't VpnManager \<Rightarrow> bool" where
  "fresh_ops ops [] m \<longleftrightarrow> True"
| "fresh_ops ops (p # ps) m \<longleftrightarrow> fresh_op p m \<and> fresh_ops ops ps (profile_step ops p m)"

lemma profile_ok_files:
  "vm_files m' = vm_files m \<Longrightarrow> vm_dir m' = vm_dir m \<Longrightarrow> profile_ok m' p = profile_ok m p"
  by (simp add: profile_ok_def confPath_def)

lemma store_ok_import:
  assumes ok: "store_ok m" and f: "ident \<noteq> []" "ident \<notin> pf_id ` set (vm_profiles m)"
  shows "store_ok (fst (importConfig ident True True True name conf m))"
proof (cases "wg_valid (parseWireguardConfig conf)")
  case True
  let ?m = "fst (importConfig ident True True True name conf m)"
  let ?p = "\<lparr>pf_id = ident, pf_name = (if trimmed name = [] then ''WireGuard'' else trimmed name),
      pf_endpoint = endpoint (hd (peers (parseWireguardConfig conf))), pf_cc = [], pf_pendingIp = []\<rparr>"
  have sel: "vm_profiles ?m = vm_profiles m @ [?p]" "vm_dir ?m = vm_dir m"
    "vm_files ?m = (vm_files m)(confPath m ident \<mapsto> conf)"
    "vm_index ?m = Some (map (\<lambda>p. (pf_id p, pf_name p)) (vm_profiles m @ [?p]))"
    using True by (simp_all add: importConfig_def Let_def saveIndex_def)
  have cp: "confPath ?m x = confPath m x" for x by (simp add: confPath_def sel)
  have "profile_ok ?m p" if "p \<in> set (vm_profiles m)" for p
  proof -
    have "pf_id p \<noteq> ident" using that f by auto
    then have "confPath m (pf_id p) \<noteq> confPath m ident" by (simp add: confPath_inj)
    then show ?thesis using ok that by (simp add: store_ok_def profile_ok_def cp sel)
  qed
  moreover have "profile_ok ?m ?p" using True f by (simp add: profile_ok_def cp sel)
  ultimately show ?thesis using ok f by (auto simp: store_ok_def sel)
next
  case False
  then have "fst (importConfig ident True True True name conf m) =
      m\<lparr>vm_error := wg_error (parseWireguardConfig conf)\<rparr>"
    by (simp add: importConfig_def Let_def)
  then show ?thesis
    using ok by (auto simp: store_ok_def intro: profile_ok_files [THEN iffD1, rotated -1])
qed

lemma store_ok_rename:
  assumes ok: "store_ok m"
  shows "store_ok (renameProfile True ident name m)"
proof (cases "\<exists>i. indexOf m ident = Some i \<and> trimmed name \<noteq> []
          \<and> pf_name (vm_profiles m ! i) \<noteq> trimmed name")
  case True
  then obtain i where i: "indexOf m ident = Some i" "trimmed name \<noteq> []"
    "pf_name (vm_profiles m ! i) \<noteq> trimmed name" by blast
  let ?m = "renameProfile True ident name m"
  let ?q = "(vm_profiles m ! i)\<lparr>pf_name := trimmed name\<rparr>"
  have l: "i < length (vm_profiles m)"
    using i find_profile_Some by (auto simp: indexOf_def)
  have sel: "vm_profiles ?m = (vm_profiles m)[i := ?q]" "vm_files ?m = vm_files m"
    "vm_dir ?m = vm_dir m"
    "vm_index ?m = Some (map (\<lambda>p. (pf_id p, pf_name p)) ((vm_profiles m)[i := ?q]))"
    using i by (simp_all add: renameProfile_def saveIndex_def)
  have "profile_ok m (vm_profiles m ! i)" using ok l by (simp add: store_ok_def)
  then have q: "profile_ok m ?q"
    by (cases "vm_profiles m ! i") (auto simp: profile_ok_def split: option.splits)
  have "map pf_id ((vm_profiles m)[i := ?q]) = map pf_id (vm_profiles m)"
    using l by (simp add: map_update list_update_same_conv)
  moreover have "\<forall>p \<in> set ((vm_profiles m)[i := ?q]). profile_ok m p"
    using ok q by (intro ball_update) (simp_all add: store_ok_def)
  ultimately show ?thesis
    using ok profile_ok_files [of ?m m] by (simp add: store_ok_def sel)
next
  case False
  then have "renameProfile True ident name m = m"
    by (auto simp: renameProfile_def split: option.split)
  with ok show ?thesis by simp
qed

lemma store_ok_remove:
  assumes ok: "store_ok m"
  shows "store_ok (removeProfile ops True ident m)"
proof (cases "indexOf m ident")
  case None
  then show ?thesis using ok by (simp add: removeProfile_def)
next
  case (Some i)
  let ?m = "removeProfile ops True ident m"
  let ?ps = "take i (vm_profiles m) @ drop (Suc i) (vm_profiles m)"
  have i: "i < length (vm_profiles m)" "pf_id (vm_profiles m ! i) = ident"
    using Some find_profile_Some by (auto simp: indexOf_def)
  have cp: "confPath (if b then disconnectVpn ops m else m) x = confPath m x" for b x
    by (simp add: confPath_def)
  have sel: "vm_profiles ?m = ?ps" "vm_dir ?m = vm_dir m"
    "vm_files ?m = (vm_files m)(confPath m ident := None)"
    "vm_index ?m = Some (map (\<lambda>p. (pf_id p, pf_name p)) ?ps)"
    using Some by (simp_all add: removeProfile_def Let_def saveIndex_def cp)
  have cp': "confPath ?m x = confPath m x" for x by (simp add: confPath_def sel)
  have split: "vm_profiles m = take i (vm_profiles m) @ vm_profiles m ! i # drop (Suc i) (vm_profiles m)"
    using i by (rule_tac id_take_nth_drop) simp
  have d: "distinct (map pf_id (vm_profiles m))" using ok by (simp add: store_ok_def)
  have ne: "pf_id p \<noteq> ident" if "p \<in> set ?ps" for p
  proof -
    have "pf_id (vm_profiles m ! i) \<notin> pf_id ` set ?ps"
      using d by (subst (asm) split) auto
    then show ?thesis using i(2) imageI [OF that, of pf_id] by metis
  qed
  have sub: "set ?ps \<subseteq> set (vm_profiles m)"
    using set_take_subset set_drop_subset by fastforce
  have "profile_ok ?m p" if "p \<in> set ?ps" for p
  proof -
    have "profile_ok m p" using sub that ok unfolding store_ok_def by blast
    moreover have "confPath m (pf_id p) \<noteq> confPath m ident"
      using ne [OF that] by (simp add: confPath_inj)
    ultimately show ?thesis by (simp add: profile_ok_def cp' sel)
  qed
  moreover have "distinct (map pf_id ?ps)"
    using d by (subst (asm) split) auto
  ultimately show ?thesis by (simp add: store_ok_def sel)
qed

lemma store_ok_run:
  "store_ok m \<Longrightarrow> fresh_ops ops ps m \<Longrightarrow> store_ok (fold (profile_step ops) ps m)"
proof (induction ps arbitrary: m)
  case Nil
  then show ?case by simp
next
  case (Cons p ps)
  have "store_ok (profile_step ops p m)"
    using Cons.prems store_ok_import store_ok_rename store_ok_remove by (cases p) auto
  then show ?case using Cons by simp
qed

lemma load_profile_cong:
  "vm_files m' = vm_files m \<Longrightarrow> vm_dir m' = vm_dir m \<Longrightarrow> load_profile m' = load_profile m"
  by (auto simp: fun_eq_iff load_profile_def confPath_def split: option.split)

text \<open>
  the profile store survives a restart: after any sequence of imports (valid or not), renames
  and removals, a manager started on the files and the index left behind loads exactly the same
  profiles, with the same ids, names, order and endpoints.
\<close>

theorem profiles_survive_restart:
  assumes "fresh_ops ops ps (mkVpnManager t dir (\<lambda>_. None) None st)"
  shows "let m = fold (profile_step ops) ps (mkVpnManager t dir (\<lambda>_. None) None st);
             m' = mkVpnManager t' (vm_dir m) (vm_files m) (vm_index m) st'
         in map (\<lambda>p. (pf_id p, pf_name p, pf_endpoint p)) (vm_profiles m') =
            map (\<lambda>p. (pf_id p, pf_name p, pf_endpoint p)) (vm_profiles m)"
proof -
  define m where "m = fold (profile_step ops) ps (mkVpnManager t dir (\<lambda>_. None) None st)"
  have "store_ok (mkVpnManager t dir (\<lambda>_. None) None st)"
    by (simp add: store_ok_def mkVpnManager_def vm_load_def)
  then have ok: "store_ok m" using assms store_ok_run unfolding m_def by blast
  let ?b = "\<lambda>m. (mkVpnManager t' (vm_dir m) (vm_files m) None st')"
  have lp: "load_profile (?b m) (pf_id p, pf_name p) =
      Some \<lparr>pf_id = pf_id p, pf_name = pf_name p, pf_endpoint = pf_endpoint p,
            pf_cc = [], pf_pendingIp = []\<rparr>" if "profile_ok m p" for p
    using that
    by (auto simp: load_profile_def profile_ok_def mkVpnManager_def vm_load_def confPath_def Let_def
        split: option.splits)
  have mf: "List.map_filter (load_profile (?b m)) (map (\<lambda>p. (pf_id p, pf_name p)) qs) =
      map (\<lambda>p. \<lparr>pf_id = pf_id p, pf_name = pf_name p, pf_endpoint = pf_endpoint p,
            pf_cc = [], pf_pendingIp = []\<rparr>) qs" if "\<forall>p \<in> set qs. profile_ok m p" for qs
    using that by (induction qs) (simp_all add: lp)
  have "vm_profiles (mkVpnManager t' (vm_dir m) (vm_files m) (Some es) st') =
      List.map_filter (load_profile (?b m)) es" for es
    by (auto simp: mkVpnManager_def vm_load_def
        intro!: arg_cong [where f = "\<lambda>f. List.map_filter f es"] load_profile_cong)
  moreover have "vm_profiles (?b m) = []"
    by (simp add: mkVpnManager_def vm_load_def)
  ultimately show ?thesis
    using ok mf [of "vm_profiles m"] unfolding m_def [symmetric] Let_def
    by (auto simp: store_ok_def)
qed

section \<open>The manager as a client of the tunnel's contract\<close>

definition debt_ok :: "('t \<Rightarrow> bool) \<Rightarrow> 't VpnManager \<Rightarrow> bool" where
  "debt_ok owes m \<longleftrightarrow> (vm_userDown m \<longrightarrow> owes (vm_tunnel m))"

lemma vm_refuse_sel [simp]:
  "vm_userDown (vm_refuse why m) = vm_userDown m" "vm_tunnel (vm_refuse why m) = vm_tunnel m"
  "vm_state (vm_refuse why m) = VpnFailed" "vm_retryTimer (vm_refuse why m) = vm_retryTimer m"
  "vm_keepUp (vm_refuse why m) = vm_keepUp m" "vm_iface (vm_refuse why m) = vm_iface m"
  "vm_retryAt (vm_refuse why m) = vm_retryAt m" "vm_fwdPort (vm_refuse why m) = vm_fwdPort m"
  "vm_retryTick (vm_refuse why m) = vm_retryTick m"
  by (simp_all add: vm_refuse_def)

lemma connectProfile_cases:
  obtains (busy) "vm_state m = VpnConnecting \<or> vm_state m = VpnConnected"
      "connectProfile ops ident m = m"
    | (refused) why where "vm_state m = VpnFailed \<or> vm_state m = VpnDisconnected"
      "connectProfile ops ident m = vm_refuse why ((stopRetry m)\<lparr>vm_retryId := ident\<rparr>)"
    | (up) conf where "vm_state m = VpnFailed \<or> vm_state m = VpnDisconnected"
      "vm_files m (confPath m ident) = Some conf" "indexOf m ident \<noteq> None"
      "wg_valid (parseWireguardConfig conf)"
      "vm_state (connectProfile ops ident m) = VpnConnecting"
      "vm_tunnel (connectProfile ops ident m) =
         op_up ops (confPath m ident) (Some conf) (parseWireguardConfig conf) (vm_tunnel m)"
      "vm_userDown (connectProfile ops ident m) = vm_userDown m"
      "vm_retryTimer (connectProfile ops ident m) = False"
      "vm_retryTick (connectProfile ops ident m) = vm_retryTick (stopRetry m)"
      "vm_retryAt (connectProfile ops ident m) = 0"
      "vm_keepUp (connectProfile ops ident m) = vm_keepUp m"
      "vm_retries (connectProfile ops ident m) = vm_retries m"
      "vm_retryId (connectProfile ops ident m) = ident"
      "vm_iface (connectProfile ops ident m) = vm_iface m"
      "vm_profiles (connectProfile ops ident m) = vm_profiles m"
      "vm_files (connectProfile ops ident m) = vm_files m"
      "vm_dir (connectProfile ops ident m) = vm_dir m"
      "vm_fwdPort (connectProfile ops ident m) = vm_fwdPort m"
proof (cases "vm_state m = VpnConnecting \<or> vm_state m = VpnConnected")
  case True
  then show ?thesis by (intro busy) (simp_all add: connectProfile_def)
next
  case False
  then have st: "vm_state m = VpnFailed \<or> vm_state m = VpnDisconnected"
    by (cases "vm_state m") auto
  have cp: "confPath ((stopRetry m)\<lparr>vm_retryId := ident\<rparr>) ident = confPath m ident"
    by (simp add: confPath_def)
  have ix: "indexOf ((stopRetry m)\<lparr>vm_retryId := ident\<rparr>) ident = indexOf m ident"
    by (simp add: indexOf_def)
  show ?thesis
  proof (cases "\<exists>conf. vm_files m (confPath m ident) = Some conf
            \<and> wg_valid (parseWireguardConfig conf) \<and> indexOf m ident \<noteq> None")
    case True
    then obtain conf where c: "vm_files m (confPath m ident) = Some conf"
      "wg_valid (parseWireguardConfig conf)" "indexOf m ident \<noteq> None" by blast
    then show ?thesis
      using st False by (intro up [of conf]) (auto simp: connectProfile_def Let_def cp ix)
  next
    case no: False
    have "\<exists>why. connectProfile ops ident m = vm_refuse why ((stopRetry m)\<lparr>vm_retryId := ident\<rparr>)"
      using False no by (auto simp: connectProfile_def Let_def cp ix split: option.split)
    then show ?thesis using st refused by blast
  qed
qed

context wg_tunnel
begin

lemma connect_debt: "debt_ok owes m \<Longrightarrow> debt_ok owes (connectProfile ops ident m)"
  by (rule connectProfile_cases [of m ops ident]) (auto simp: debt_ok_def up_keeps)

lemma connectLast_debt: "debt_ok owes m \<Longrightarrow> debt_ok owes (connectLastUsed ops m)"
  using connect_debt [of "m\<lparr>vm_keepUp := True\<rparr>"]
  by (simp add: connectLastUsed_def Let_def debt_ok_def)

lemma disconnect_debt: "debt_ok owes m \<Longrightarrow> debt_ok owes (disconnectVpn ops m)"
  by (simp add: disconnectVpn_def Let_def debt_ok_def down_owes)

lemma retry_debt: "debt_ok owes m \<Longrightarrow> debt_ok owes (onRetryTimer ops m)"
  by (auto simp: onRetryTimer_def Let_def debt_ok_def intro!: connect_debt [unfolded debt_ok_def, rule_format])

lemma remove_debt: "debt_ok owes m \<Longrightarrow> debt_ok owes (removeProfile ops w ident m)"
  using disconnect_debt [of m]
  by (auto simp: removeProfile_def Let_def debt_ok_def saveIndex_def split: option.split)

lemma connected_debt: "debt_ok owes m \<Longrightarrow> debt_ok owes (onConnected ops iface m)"
  by (simp add: onConnected_def debt_ok_def down_owes)

lemma adopt_debt: "debt_ok owes m \<Longrightarrow> debt_ok owes (adoptRunningTunnel ops up m)"
  using adopt_keeps
  by (auto simp: adoptRunningTunnel_def Let_def debt_ok_def split: prod.split)
    (metis fst_conv)+

lemma answer_debt:
  "debt_ok owes (onDisconnected ops m)" "debt_ok owes (onFailed ops now why m)"
  by (simp_all add: onDisconnected_def onFailed_def Let_def debt_ok_def)

end

context orderly_tunnel
begin

text \<open>After a disconnect the tunnel cannot report a connection, unless nothing was up.\<close>

lemma disconnect_not_live:
  "vm_state m \<noteq> VpnDisconnected \<Longrightarrow> \<not> live (vm_tunnel (disconnectVpn ops m))"
  by (simp add: disconnectVpn_def Let_def down_not_live)

end

section \<open>The reconnect schedule\<close>

text \<open>A drop at time \<open>now\<close>, then the retry timer fires.\<close>

definition drop_cycle :: "'t WgTunnelOps \<Rightarrow> string \<Rightarrow> int \<Rightarrow> 't VpnManager \<Rightarrow> 't VpnManager" where
  "drop_cycle ops why now m = onRetryTimer ops (onFailed ops now why m)"

text \<open>The profile to retry can be connected.\<close>

definition retriable :: "'t VpnManager \<Rightarrow> bool" where
  "retriable m \<longleftrightarrow> indexOf m (vm_retryId m) \<noteq> None
     \<and> (case vm_files m (confPath m (vm_retryId m)) of None \<Rightarrow> False
        | Some conf \<Rightarrow> wg_valid (parseWireguardConfig conf))"

lemma clearActive_frame [simp]:
  "vm_files (clearActiveTunnel ops m) = vm_files m" "vm_dir (clearActiveTunnel ops m) = vm_dir m"
  by (simp_all add: clearActiveTunnel_def)

lemma onFailed_sel:
  assumes "vm_keepUp m" "\<not> op_failureIsFinal ops (vm_tunnel m)"
  shows "vm_state (onFailed ops now why m) = VpnFailed" "vm_keepUp (onFailed ops now why m)"
    "vm_retryTimer (onFailed ops now why m)"
    "vm_retries (onFailed ops now why m) = Suc (vm_retries m)"
    "vm_retryAt (onFailed ops now why m) = now + retry_delays ! min (vm_retries m) 4 * 1000"
    "vm_retryId (onFailed ops now why m) = vm_retryId m"
    "retriable (onFailed ops now why m) = retriable m"
  using assms
  by (simp_all add: onFailed_def Let_def scheduleRetry_def retriable_def indexOf_def confPath_def)

lemma drop_cycle_sel:
  assumes k: "vm_keepUp m" and f: "\<And>t. \<not> op_failureIsFinal ops t" and r: "retriable m"
  shows "vm_state (drop_cycle ops why now m) = VpnConnecting"
    "vm_retries (drop_cycle ops why now m) = Suc (vm_retries m)"
    "vm_keepUp (drop_cycle ops why now m)" "retriable (drop_cycle ops why now m)"
proof -
  let ?f = "onFailed ops now why m"
  define g where "g = vm_emit RetryChanged
      (?f\<lparr>vm_retryTimer := False, vm_retryTick := False, vm_retryAt := 0\<rparr>)"
  note fs = onFailed_sel [OF k f, of now why]
  have rf: "retriable ?f" using r fs by simp
  have gs: "vm_state g = VpnFailed" "vm_keepUp g" "vm_retries g = Suc (vm_retries m)"
    "vm_retryId g = vm_retryId m" "vm_files g = vm_files ?f" "vm_dir g = vm_dir ?f"
    "vm_profiles g = vm_profiles ?f"
    using fs by (simp_all add: g_def)
  have rg: "retriable g"
    using rf fs gs by (simp add: retriable_def indexOf_def confPath_def)
  then have "indexOf g (vm_retryId m) \<noteq> None" using gs by (simp add: retriable_def)
  then have d: "drop_cycle ops why now m = connectProfile ops (vm_retryId m) g"
    using fs gs by (simp add: drop_cycle_def onRetryTimer_def Let_def g_def [symmetric])
  have all: "vm_state (connectProfile ops (vm_retryId m) g) = VpnConnecting
    \<and> vm_retries (connectProfile ops (vm_retryId m) g) = Suc (vm_retries m)
    \<and> vm_keepUp (connectProfile ops (vm_retryId m) g)
    \<and> retriable (connectProfile ops (vm_retryId m) g)"
  proof (rule connectProfile_cases [of g ops "vm_retryId m"])
    fix why
    assume "connectProfile ops (vm_retryId m) g = vm_refuse why (stopRetry g\<lparr>vm_retryId := vm_retryId m\<rparr>)"
    moreover have "vm_state (connectProfile ops (vm_retryId m) g) = VpnConnecting"
      using rg gs by (auto simp: retriable_def connectProfile_def Let_def indexOf_def confPath_def
          split: option.splits)
    ultimately show ?thesis by simp
  qed (use rg gs in \<open>auto simp: retriable_def indexOf_def confPath_def\<close>)
  show "vm_state (drop_cycle ops why now m) = VpnConnecting"
    "vm_retries (drop_cycle ops why now m) = Suc (vm_retries m)"
    "vm_keepUp (drop_cycle ops why now m)" "retriable (drop_cycle ops why now m)"
    using all d by simp_all
qed

lemma drop_cycles_sel:
  assumes "vm_keepUp m" "\<And>t. \<not> op_failureIsFinal ops t" "retriable m"
  shows "vm_retries (fold (drop_cycle ops why) nows m) = vm_retries m + length nows
    \<and> vm_keepUp (fold (drop_cycle ops why) nows m)
    \<and> retriable (fold (drop_cycle ops why) nows m)
    \<and> (nows \<noteq> [] \<longrightarrow> vm_state (fold (drop_cycle ops why) nows m) = VpnConnecting)"
  using assms
proof (induction nows arbitrary: m)
  case Nil
  then show ?case by simp
next
  case (Cons now nows)
  note c = drop_cycle_sel [OF Cons.prems, of why now]
  show ?case
    using Cons.IH [OF c(3) Cons.prems(2) c(4)] c by (cases nows) simp_all
qed

text \<open>
  a tunnel that is to be kept up is retried without end while its failures are not final: after
  any number of failed tries the next drop schedules another, the waits being 5, 10, 30, 60 seconds
  and then always 120, and what the page shows as the time left is exactly that wait; a connection
  starts the sequence again.
\<close>

theorem reconnect_backoff:
  assumes "vm_keepUp m" "\<And>t. \<not> op_failureIsFinal ops t" "retriable m" "0 \<le> now"
  shows "let m' = onFailed ops now why (fold (drop_cycle ops why) nows m);
             wait = [5, 10, 30, 60, 120] ! min (vm_retries m + length nows) 4
         in vm_retryTimer m' \<and> vm_state m' = VpnFailed
            \<and> vm_retryAt m' = now + wait * 1000 \<and> retryIn now m' = wait
            \<and> vm_state (onRetryTimer ops m') = VpnConnecting
            \<and> vm_retries (onConnected ops iface (onRetryTimer ops m')) = 0"
proof -
  define d where "d = fold (drop_cycle ops why) nows m"
  have dk: "vm_keepUp d" "retriable d" "vm_retries d = vm_retries m + length nows"
    using drop_cycles_sel [OF assms(1-3), of why nows] by (simp_all add: d_def)
  note fs = onFailed_sel [OF dk(1) assms(2), of now why]
  let ?k = "min (vm_retries d) 4"
  have k: "?k \<in> {0, 1, 2, 3, 4}" by auto
  have w: "retry_delays ! ?k \<in> {5, 10, 30, 60, 120}"
    using k by (auto simp: retry_delays_def)
  have at: "vm_retryAt (onFailed ops now why d) = now + retry_delays ! ?k * 1000"
    using fs by simp
  have "retryIn now (onFailed ops now why d) = to_int32 (cdiv (retry_delays ! ?k * 1000 + 999) 1000)"
    using at w assms(4) by (auto simp: retryIn_def)
  also have "\<dots> = retry_delays ! ?k"
    using w by (auto simp: cdiv_def to_int32_def)
  finally have r: "retryIn now (onFailed ops now why d) = retry_delays ! ?k" .
  have c: "vm_state (onRetryTimer ops (onFailed ops now why d)) = VpnConnecting"
    using drop_cycle_sel(1) [OF dk(1) assms(2) dk(2)] by (simp add: drop_cycle_def)
  have "vm_retries (onConnected ops iface (onRetryTimer ops (onFailed ops now why d))) = 0"
    using c by (simp add: onConnected_def)
  then show ?thesis
    using r c at fs dk(3) unfolding Let_def d_def [symmetric] by (simp add: retry_delays_def)
qed

section \<open>The state machine\<close>

text \<open>
  What may happen to a manager after its start: requests, the tunnel's signals in any order, the
  retry timer, and changes of the profile list.
\<close>

inductive vm_step :: "'t WgTunnelOps \<Rightarrow> 't VpnManager \<Rightarrow> 't VpnManager \<Rightarrow> bool" for ops where
  connect: "vm_step ops m (connectProfile ops ident m)"
| connectLast: "vm_step ops m (connectLastUsed ops m)"
| disconnect: "vm_step ops m (disconnectVpn ops m)"
| signal: "0 \<le> now \<Longrightarrow> vm_step ops m (onTunnel ops now sg m)"
| retry: "vm_step ops m (onRetryTimer ops m)"
| import: "vm_step ops m (fst (importConfig ident o1 o2 o3 name conf m))"
| rename: "vm_step ops m (renameProfile w ident name m)"
| remove: "vm_step ops m (removeProfile ops w ident m)"
| tunnel: "vm_step ops m (m\<lparr>vm_tunnel := t\<rparr>)"

inductive_cases vm_stepE: "vm_step ops m m'"

definition vm_inv :: "'t VpnManager \<Rightarrow> bool" where
  "vm_inv m \<longleftrightarrow>
     (vm_iface m \<noteq> [] \<longrightarrow> vm_state m = VpnConnected)
     \<and> (vm_retryTimer m \<longleftrightarrow> 0 < vm_retryAt m) \<and> 0 \<le> vm_retryAt m
     \<and> vm_retryTick m = vm_retryTimer m
     \<and> (vm_retryTimer m \<longrightarrow> vm_keepUp m)
     \<and> (vm_retryTimer m \<longrightarrow> vm_state m = VpnFailed \<or> vm_state m = VpnDisconnected)"

lemma stopRetry_tick: "vm_inv m \<Longrightarrow> \<not> vm_retryTick (stopRetry m)"
  by (auto simp: vm_inv_def stopRetry_def)

lemma connectProfile_inv: "vm_inv m \<Longrightarrow> vm_inv (connectProfile ops ident m)"
proof (rule connectProfile_cases [of m ops ident])
  fix why
  assume i: "vm_inv m" and st: "vm_state m = VpnFailed \<or> vm_state m = VpnDisconnected"
    and c: "connectProfile ops ident m = vm_refuse why (stopRetry m\<lparr>vm_retryId := ident\<rparr>)"
  show ?thesis
    using i st stopRetry_tick [OF i] by (auto simp: c vm_inv_def)
next
  fix conf
  assume i: "vm_inv m"
  assume "vm_state m = VpnFailed \<or> vm_state m = VpnDisconnected"
    "vm_state (connectProfile ops ident m) = VpnConnecting"
    "vm_retryTimer (connectProfile ops ident m) = False"
    "vm_retryTick (connectProfile ops ident m) = vm_retryTick (stopRetry m)"
    "vm_retryAt (connectProfile ops ident m) = 0"
    "vm_iface (connectProfile ops ident m) = vm_iface m"
  then show ?thesis using i stopRetry_tick [OF i] by (auto simp: vm_inv_def)
qed simp

lemma disconnectVpn_inv: "vm_inv m \<Longrightarrow> vm_inv (disconnectVpn ops m)"
proof -
  assume i: "vm_inv m"
  let ?m = "m\<lparr>vm_keepUp := False, vm_retries := 0\<rparr>"
  have "\<not> vm_retryTick (stopRetry ?m)"
    using i by (auto simp: vm_inv_def stopRetry_def)
  then show ?thesis
    using i by (auto simp: vm_inv_def disconnectVpn_def Let_def)
qed

lemma onTunnel_inv: "vm_inv m \<Longrightarrow> 0 \<le> now \<Longrightarrow> vm_inv (onTunnel ops now sg m)"
proof (cases sg)
  case (TunConnected iface)
  assume i: "vm_inv m"
  let ?m = "m\<lparr>vm_iface := iface, vm_keepUp := True, vm_retries := 0\<rparr>"
  have "\<not> vm_retryTick (stopRetry ?m)" using i by (auto simp: vm_inv_def stopRetry_def)
  moreover have "vm_retryTick (saveActiveTunnel ops iface x) = vm_retryTick x" for x
    by (simp add: saveActiveTunnel_def)
  ultimately show ?thesis
    using i TunConnected by (auto simp: vm_inv_def onConnected_def)
next
  case TunDisconnected
  assume "vm_inv m"
  with TunDisconnected show ?thesis by (auto simp: vm_inv_def onDisconnected_def Let_def)
next
  case (TunFailed why)
  assume i: "vm_inv m" and n: "0 \<le> now"
  have "0 < retry_delays ! min (vm_retries m) 4"
  proof -
    have "min (vm_retries m) 4 \<in> {0, 1, 2, 3, 4}" by auto
    then show ?thesis by (auto simp: retry_delays_def)
  qed
  with TunFailed i n show ?thesis
    by (auto simp: vm_inv_def onFailed_def scheduleRetry_def Let_def)
next
  case (TunForwardedPort port)
  assume "vm_inv m"
  with TunForwardedPort show ?thesis by (auto simp: vm_inv_def onForwardedPort_def)
qed

lemma vm_step_inv: "vm_step ops m m' \<Longrightarrow> vm_inv m \<Longrightarrow> vm_inv m'"
proof (induction rule: vm_step.induct)
  case (connect m ident)
  then show ?case by (rule connectProfile_inv)
next
  case (connectLast m)
  then have "vm_inv (m\<lparr>vm_keepUp := True\<rparr>)" by (auto simp: vm_inv_def)
  with connectLast show ?case
    using connectProfile_inv by (auto simp: connectLastUsed_def Let_def)
next
  case (disconnect m)
  then show ?case by (rule disconnectVpn_inv)
next
  case (signal now m sg)
  then show ?case using onTunnel_inv by blast
next
  case (retry m)
  have "vm_inv (vm_emit RetryChanged
      (m\<lparr>vm_retryTimer := False, vm_retryTick := False, vm_retryAt := 0\<rparr>))"
    using retry by (auto simp: vm_inv_def)
  with retry show ?case
    using connectProfile_inv by (auto simp: onRetryTimer_def Let_def)
next
  case (import m ident o1 o2 o3 name conf)
  then show ?case by (auto simp: importConfig_def Let_def saveIndex_def vm_inv_def)
next
  case (rename m w ident name)
  then show ?case by (auto simp: renameProfile_def saveIndex_def vm_inv_def split: option.split)
next
  case (remove m w ident)
  then show ?case
    using disconnectVpn_inv [of m ops]
    by (auto simp: removeProfile_def Let_def saveIndex_def vm_inv_def split: option.split)
next
  case (tunnel m t)
  then show ?case by (simp add: vm_inv_def)
qed

text \<open>
  whatever the tunnel signals and the person asks for, in whatever order, an interface is
  recorded only while connected; the retry timer, its ticking and the time it is due always agree;
  and a retry is pending only for a tunnel that is to be kept up and is not up or coming up.
\<close>

theorem vpn_state_machine_invariant:
  assumes "(vm_step ops)\<^sup>*\<^sup>* (mkVpnManager t dir files index settings) m"
  shows "(vm_iface m \<noteq> [] \<longrightarrow> vm_state m = VpnConnected)
         \<and> (vm_retryTimer m \<longleftrightarrow> 0 < vm_retryAt m) \<and> vm_retryTick m = vm_retryTimer m
         \<and> (vm_retryTimer m \<longrightarrow> vm_keepUp m
              \<and> (vm_state m = VpnFailed \<or> vm_state m = VpnDisconnected))"
proof -
  have "vm_inv m"
    using assms
  proof (induction rule: rtranclp_induct)
    case base
    then show ?case by (simp add: vm_inv_def mkVpnManager_def vm_load_def split: option.split)
  next
    case (step y z)
    then show ?case using vm_step_inv by blast
  qed
  then show ?thesis by (simp add: vm_inv_def)
qed

definition sample_conf :: string where
  "sample_conf = render_config sample_config"

definition sample_start :: "StubWgTunnel VpnManager" where
  "sample_start = mkVpnManager \<lparr>st_iface = [], st_timers = []\<rparr> ''vpn'' (\<lambda>_. None) None (\<lambda>_. None)"

definition sample_vpn :: "StubWgTunnel VpnManager" where
  "sample_vpn = sample_start\<lparr>vm_profiles := [\<lparr>pf_id = ''p1'', pf_name = ''Home'',
       pf_endpoint = ''193.32.127.1:51820'', pf_cc = [], pf_pendingIp = []\<rparr>],
     vm_files := [''vpn/p1.conf'' \<mapsto> sample_conf], vm_state := VpnConnecting,
     vm_keepUp := True, vm_retryId := ''p1'', vm_activeId := ''p1''\<rparr>"

theorem profiles_survive_restart_witness:
  "map (\<lambda>p. (pf_id p, pf_name p)) (vm_profiles
     (let m = fold (profile_step stub_ops)
            [PImport ''p1'' '' Home '' sample_conf, PImport ''p2'' ''x'' ''junk'',
             PRename ''p1'' ''Work''] sample_start
      in mkVpnManager () (vm_dir m) (vm_files m) (vm_index m) (\<lambda>_. None)))
   = [(''p1'', ''Work'')]"
proof -
  let ?ops = "[PImport ''p1'' '' Home '' sample_conf, PImport ''p2'' ''x'' ''junk'',
             PRename ''p1'' ''Work'']"
  have v: "wg_valid sample_config" "parseWireguardConfig sample_conf = sample_config"
    by (simp_all add: sample_conf_def sample_config_parsed) (simp add: sample_config_def)
  have j: "\<not> wg_valid (parseWireguardConfig ''junk'')" by code_simp
  have t: "trimmed '' Home '' = ''Home''" "trimmed ''Work'' = ''Work''" by code_simp+
  have f: "fresh_ops stub_ops ?ops sample_start"
    by (simp add: sample_start_def mkVpnManager_def vm_load_def)
       (simp add: importConfig_def Let_def v j vm_emit_def saveIndex_def)
  have e: "map (\<lambda>p. (pf_id p, pf_name p, pf_endpoint p))
      (vm_profiles (fold (profile_step stub_ops) ?ops sample_start)) =
      [(''p1'', ''Work'', endpoint (hd (peers sample_config)))]"
    by (simp add: sample_start_def mkVpnManager_def vm_load_def)
       (simp add: importConfig_def renameProfile_def indexOf_def Let_def v j t vm_emit_def saveIndex_def)
  have m: "map (\<lambda>p. (pf_id p, pf_name p)) ps =
      map (\<lambda>(a, b, c). (a, b)) (map (\<lambda>p. (pf_id p, pf_name p, pf_endpoint p)) ps)" for ps
    by simp
  show ?thesis
    using profiles_survive_restart [OF f [unfolded sample_start_def], of "()" "\<lambda>_. None"] e
    unfolding m Let_def sample_start_def [symmetric] by simp
qed

theorem reconnect_backoff_witness:
  "retryIn 1000 (onFailed stub_ops 1000 ''gone''
     (fold (drop_cycle stub_ops ''gone'') [10, 20, 30] sample_vpn)) = 60"
proof -
  have "wg_valid (parseWireguardConfig sample_conf)"
    unfolding sample_conf_def sample_config_parsed by (simp add: sample_config_def)
  then have "vm_keepUp sample_vpn" "retriable sample_vpn" "vm_retries sample_vpn = 0"
    by (simp_all add: sample_vpn_def sample_start_def retriable_def indexOf_def confPath_def
        mkVpnManager_def vm_load_def)
  moreover have "\<not> op_failureIsFinal stub_ops t" for t by (simp add: stub_ops_def)
  ultimately show ?thesis
    using reconnect_backoff [of sample_vpn stub_ops 1000 "''gone''" "[10, 20, 30]"]
    by (simp add: Let_def)
qed

theorem vpn_state_machine_invariant_witness:
  "vm_retryTick (connectProfile stub_ops ''none'' sample_start) =
     vm_retryTimer (connectProfile stub_ops ''none'' sample_start)"
proof -
  have "(vm_step stub_ops)\<^sup>*\<^sup>* sample_start (connectProfile stub_ops ''none'' sample_start)"
    by (rule r_into_rtranclp) (rule vm_step.connect)
  then show ?thesis
    unfolding sample_start_def by (intro conjunct1 [OF conjunct2 [OF conjunct2
        [OF vpn_state_machine_invariant]]])
qed

end
