(* ===== verification/SessionNetwork.thy ===== *)
theory SessionNetwork
  imports QtText
begin

text \<open>
  The network side of the torrent session (\<open>src/torrent/sessionmanager_network.cpp\<close> and
  \<open>proxycontroller.{h,cpp}\<close>): interface binding with its kill switch, the user's proxy, and the
  proxy of the VPN. A libtorrent \<open>settings_pack\<close> is a map from setting names to values and
  \<open>apply_settings\<close> merges it into the session's settings. A torrent handle is a number; what the
  session knows of it is a \<open>TorrentRt\<close>, and pausing or resuming a torrent is immediate. The
  machine's network interfaces are the list \<open>nets\<close>. The library version has \<open>announce_port\<close>.
\<close>

section \<open>State\<close>

datatype SpValue = SpInt int | SpStr string | SpBool bool

type_synonym SettingsPack = "string \<Rightarrow> SpValue option"

record ProxyController =
  px_type :: int
  px_host :: string
  px_port :: int
  px_user :: string
  px_pass :: string
  px_leakProof :: bool

record NetIf =
  ni_name :: string
  ni_human :: string
  ni_up :: bool
  ni_running :: bool
  ni_ipv4 :: "string option"

record TorrentRt =
  rt_valid :: bool
  rt_paused :: bool
  rt_reannounced :: nat

datatype NetSignal = KillSwitchTriggered | InterfaceRestored | AltSpeedsActiveChanged bool

record SessionNet =
  sn_settings :: SettingsPack
  sn_outgoingInterface :: string
  sn_listenPort :: int
  sn_livePort :: int
  sn_killSwitchEnabled :: bool
  sn_autoResume :: bool
  sn_killSwitchActive :: bool
  sn_killSwitchPaused :: "nat list"
  sn_torrents :: "nat list"
  sn_rt :: "nat \<Rightarrow> TorrentRt"
  sn_proxy :: ProxyController
  sn_anonymousMode :: bool
  sn_vpnProxyPort :: int
  sn_vpnAnnouncePort :: int
  sn_vpnProxyUser :: string
  sn_vpnProxyPass :: string
  sn_restarts :: nat
  sn_forceIpv4 :: bool
  sn_ptMode :: bool
  sn_dhtEnabled :: bool
  sn_utpEnabled :: bool
  sn_encryptionMode :: int
  sn_blockLeechers :: bool
  sn_blockedLeechers :: nat
  sn_ipFilter :: "string list"
  sn_normalDown :: int
  sn_normalUp :: int
  sn_altDown :: int
  sn_altUp :: int
  sn_altActive :: bool
  sn_schedulerEnabled :: bool
  sn_scheduleFrom :: int
  sn_scheduleTo :: int
  sn_scheduleDays :: int
  sn_signals :: "NetSignal list"

section \<open>Settings of a proxy\<close>

text \<open>The values of libtorrent's \<open>proxy_type_t\<close>.\<close>

definition lt_none :: int where "lt_none = 0"
definition lt_socks5 :: int where "lt_socks5 = 2"
definition lt_socks5_pw :: int where "lt_socks5_pw = 3"
definition lt_http :: int where "lt_http = 4"
definition lt_http_pw :: int where "lt_http_pw = 5"

definition buildProxySettings ::
  "int \<Rightarrow> string \<Rightarrow> int \<Rightarrow> string \<Rightarrow> string \<Rightarrow> bool \<Rightarrow> bool \<Rightarrow> SettingsPack" where
  "buildProxySettings ty host port user pass leakProof anonymousMode =
     (if ty = 0 then
        [''proxy_type'' \<mapsto> SpInt lt_none,
         ''proxy_peer_connections'' \<mapsto> SpBool False,
         ''proxy_tracker_connections'' \<mapsto> SpBool False,
         ''proxy_hostnames'' \<mapsto> SpBool False,
         ''enable_upnp'' \<mapsto> SpBool True,
         ''enable_natpmp'' \<mapsto> SpBool True,
         ''enable_lsd'' \<mapsto> SpBool True,
         ''anonymous_mode'' \<mapsto> SpBool anonymousMode]
      else
        let ltType = (if user = [] then (if ty = 1 then lt_socks5 else lt_http)
                      else (if ty = 1 then lt_socks5_pw else lt_http_pw));
            base = [''proxy_type'' \<mapsto> SpInt ltType,
                    ''proxy_hostname'' \<mapsto> SpStr host,
                    ''proxy_port'' \<mapsto> SpInt port];
            cred = (if user \<noteq> []
                    then base(''proxy_username'' \<mapsto> SpStr user, ''proxy_password'' \<mapsto> SpStr pass)
                    else base);
            routed = cred(''proxy_peer_connections'' \<mapsto> SpBool True,
                          ''proxy_tracker_connections'' \<mapsto> SpBool True,
                          ''proxy_hostnames'' \<mapsto> SpBool True)
        in if leakProof
           then routed(''enable_upnp'' \<mapsto> SpBool False, ''enable_natpmp'' \<mapsto> SpBool False,
                       ''enable_lsd'' \<mapsto> SpBool False, ''anonymous_mode'' \<mapsto> SpBool True)
           else routed)"

definition proxy_settings :: "ProxyController \<Rightarrow> bool \<Rightarrow> SettingsPack" where
  "proxy_settings p anonymousMode =
     buildProxySettings (px_type p) (px_host p) (px_port p) (px_user p) (px_pass p)
       (px_leakProof p) anonymousMode"

definition proxy_set ::
  "int \<Rightarrow> string \<Rightarrow> int \<Rightarrow> string \<Rightarrow> string \<Rightarrow> ProxyController \<Rightarrow> ProxyController" where
  "proxy_set ty host port user pass p =
     p\<lparr>px_type := ty, px_host := host, px_port := port, px_user := user, px_pass := pass\<rparr>"

definition proxy_setLeakProof :: "bool \<Rightarrow> ProxyController \<Rightarrow> ProxyController" where
  "proxy_setLeakProof enabled p = p\<lparr>px_leakProof := enabled\<rparr>"

definition setAnnouncePort :: "int \<Rightarrow> SettingsPack \<Rightarrow> SettingsPack" where
  "setAnnouncePort port pack = pack(''announce_port'' \<mapsto> SpInt port)"

definition apply_settings :: "SettingsPack \<Rightarrow> SessionNet \<Rightarrow> SessionNet" where
  "apply_settings pack s = s\<lparr>sn_settings := sn_settings s ++ pack\<rparr>"

section \<open>Interface binding and the kill switch\<close>

definition pause_torrent :: "nat \<Rightarrow> SessionNet \<Rightarrow> SessionNet" where
  "pause_torrent h s = s\<lparr>sn_rt := (sn_rt s)(h := (sn_rt s h)\<lparr>rt_paused := True\<rparr>)\<rparr>"

definition resume_torrent :: "nat \<Rightarrow> SessionNet \<Rightarrow> SessionNet" where
  "resume_torrent h s = s\<lparr>sn_rt := (sn_rt s)(h := (sn_rt s h)\<lparr>rt_paused := False\<rparr>)\<rparr>"

text \<open>The loop that resumes what the kill switch paused, then \<open>clear\<close>.\<close>

definition resume_killed :: "SessionNet \<Rightarrow> SessionNet" where
  "resume_killed s =
     (fold (\<lambda>h t. if rt_valid (sn_rt t h) then resume_torrent h t else t)
        (sn_killSwitchPaused s) s)\<lparr>sn_killSwitchPaused := []\<rparr>"

text \<open>\<open>interfaceFromName\<close>, then the scan of the human readable names.\<close>

definition find_netif :: "NetIf list \<Rightarrow> string \<Rightarrow> NetIf option" where
  "find_netif nets name =
     (case find (\<lambda>n. ni_name n = name) nets of
        Some n \<Rightarrow> Some n
      | None \<Rightarrow> find (\<lambda>n. ni_human n = name) nets)"

text \<open>\<open>listenPort\<close>: the configured port, else the live socket's.\<close>

definition listenPort :: "SessionNet \<Rightarrow> int" where
  "listenPort s = (if 0 < sn_listenPort s then sn_listenPort s else sn_livePort s)"

definition listen_port_or :: "SessionNet \<Rightarrow> string" where
  "listen_port_or s = show_int (if 0 < listenPort s then listenPort s else 6881)"

definition bind_pack :: "NetIf list \<Rightarrow> string \<Rightarrow> SessionNet \<Rightarrow> SettingsPack" where
  "bind_pack nets interfaceName s =
     (if interfaceName = []
      then [''outgoing_interfaces'' \<mapsto> SpStr [],
            ''listen_interfaces'' \<mapsto> SpStr (''0.0.0.0:'' @ listen_port_or s)]
      else
        let listenAddr =
              (case find_netif nets interfaceName of
                 None \<Rightarrow> ''0.0.0.0''
               | Some n \<Rightarrow> (case ni_ipv4 n of None \<Rightarrow> ''0.0.0.0'' | Some ip \<Rightarrow> ip))
        in [''outgoing_interfaces'' \<mapsto> SpStr interfaceName,
            ''listen_interfaces'' \<mapsto> SpStr (listenAddr @ '':'' @ listen_port_or s)])"

definition setOutgoingInterface :: "NetIf list \<Rightarrow> string \<Rightarrow> SessionNet \<Rightarrow> SessionNet" where
  "setOutgoingInterface nets interfaceName s =
     (let s1 = resume_killed
                 (s\<lparr>sn_outgoingInterface := interfaceName, sn_killSwitchActive := False\<rparr>)
      in if 0 < sn_vpnProxyPort s1 then s1
         else apply_settings (bind_pack nets interfaceName s1) s1)"

definition setKillSwitchEnabled :: "bool \<Rightarrow> SessionNet \<Rightarrow> SessionNet" where
  "setKillSwitchEnabled enabled s =
     (let s1 = s\<lparr>sn_killSwitchEnabled := enabled\<rparr>
      in if \<not> enabled then resume_killed (s1\<lparr>sn_killSwitchActive := False\<rparr>) else s1)"

definition setAutoResumeOnReconnect :: "bool \<Rightarrow> SessionNet \<Rightarrow> SessionNet" where
  "setAutoResumeOnReconnect enabled s = s\<lparr>sn_autoResume := enabled\<rparr>"

definition interfaceOk :: "NetIf list \<Rightarrow> string \<Rightarrow> bool" where
  "interfaceOk nets name =
     (case find (\<lambda>n. ni_name n = name) nets of
        None \<Rightarrow> False
      | Some n \<Rightarrow> ni_up n \<and> ni_running n \<and> ni_ipv4 n \<noteq> None)"

text \<open>The body of the loop that pauses every running torrent and remembers it.\<close>

definition kill_one :: "nat \<Rightarrow> SessionNet \<Rightarrow> SessionNet" where
  "kill_one h s =
     (if rt_valid (sn_rt s h) \<and> \<not> rt_paused (sn_rt s h)
      then (pause_torrent h s)\<lparr>sn_killSwitchPaused := List.insert h (sn_killSwitchPaused s)\<rparr>
      else s)"

definition checkInterfaceStatus :: "NetIf list \<Rightarrow> SessionNet \<Rightarrow> SessionNet" where
  "checkInterfaceStatus nets s =
     (if sn_outgoingInterface s = [] \<or> \<not> sn_killSwitchEnabled s \<or> 0 < sn_vpnProxyPort s then s
      else
        let ok = interfaceOk nets (sn_outgoingInterface s) in
        if \<not> ok \<and> \<not> sn_killSwitchActive s
        then (let s1 = fold kill_one (sn_torrents s)
                    (s\<lparr>sn_killSwitchActive := True, sn_killSwitchPaused := []\<rparr>)
              in s1\<lparr>sn_signals := sn_signals s1 @ [KillSwitchTriggered]\<rparr>)
        else if ok \<and> sn_killSwitchActive s
        then (let s1 = setOutgoingInterface nets (sn_outgoingInterface s)
                    (s\<lparr>sn_killSwitchActive := False\<rparr>);
                  s2 = (if sn_autoResume s1
                        then fold (\<lambda>h t. if rt_valid (sn_rt t h) then resume_torrent h t else t)
                               (sn_killSwitchPaused s1) s1
                        else s1)
              in s2\<lparr>sn_killSwitchPaused := [], sn_signals := sn_signals s2 @ [InterfaceRestored]\<rparr>)
        else s)"

section \<open>Proxies\<close>

definition applyProxy :: "SessionNet \<Rightarrow> SessionNet" where
  "applyProxy s =
     (if sn_vpnProxyPort s \<le> 0
      then apply_settings (setAnnouncePort 0 (proxy_settings (sn_proxy s) (sn_anonymousMode s))) s
      else apply_settings
             (setAnnouncePort (sn_vpnAnnouncePort s)
               ((buildProxySettings 1 ''127.0.0.1'' (sn_vpnProxyPort s) (sn_vpnProxyUser s)
                   (sn_vpnProxyPass s) True (sn_anonymousMode s))
                 (''outgoing_interfaces'' \<mapsto> SpStr []))) s)"

definition setProxySettings ::
  "int \<Rightarrow> string \<Rightarrow> int \<Rightarrow> string \<Rightarrow> string \<Rightarrow> SessionNet \<Rightarrow> SessionNet" where
  "setProxySettings ty host port user pass s =
     applyProxy (s\<lparr>sn_proxy := proxy_set ty host port user pass (sn_proxy s)\<rparr>)"

definition setProxyLeakProof :: "bool \<Rightarrow> SessionNet \<Rightarrow> SessionNet" where
  "setProxyLeakProof enabled s =
     applyProxy (s\<lparr>sn_proxy := proxy_setLeakProof enabled (sn_proxy s)\<rparr>)"

definition reannounce :: "nat \<Rightarrow> SessionNet \<Rightarrow> SessionNet" where
  "reannounce h s =
     (if rt_valid (sn_rt s h)
      then s\<lparr>sn_rt := (sn_rt s)(h := (sn_rt s h)\<lparr>rt_reannounced := Suc (rt_reannounced (sn_rt s h))\<rparr>)\<rparr>
      else s)"

definition setVpnAnnouncePort :: "int \<Rightarrow> SessionNet \<Rightarrow> SessionNet" where
  "setVpnAnnouncePort p s =
     (let port = max 0 (min p 65535) in
      if port = sn_vpnAnnouncePort s then s
      else
        let s1 = s\<lparr>sn_vpnAnnouncePort := port\<rparr>
        in if sn_vpnProxyPort s1 \<le> 1 then s1
           else fold reannounce (sn_torrents s1)
                  (apply_settings (setAnnouncePort port (\<lambda>_. None)) s1))"

definition setVpnProxy :: "NetIf list \<Rightarrow> int \<Rightarrow> string \<Rightarrow> string \<Rightarrow> SessionNet \<Rightarrow> SessionNet" where
  "setVpnProxy nets port user pass s =
     (let was = 0 < sn_vpnProxyPort s;
          before = sn_vpnProxyPort s;
          s1 = s\<lparr>sn_vpnProxyPort := max 0 port\<rparr>;
          s2 = (if sn_vpnProxyPort s1 \<le> 1 then s1\<lparr>sn_vpnAnnouncePort := 0\<rparr> else s1);
          s3 = applyProxy (s2\<lparr>sn_vpnProxyUser := user, sn_vpnProxyPass := pass\<rparr>);
          s4 = (if 0 < sn_vpnProxyPort s3 \<and> sn_vpnProxyPort s3 \<noteq> before
                then s3\<lparr>sn_restarts := Suc (sn_restarts s3)\<rparr> else s3)
      in if was \<and> sn_vpnProxyPort s4 = 0
         then setOutgoingInterface nets (sn_outgoingInterface s4) s4 else s4)"

section \<open>Lemmas on the loops\<close>

abbreviation resume_valid :: "nat \<Rightarrow> SessionNet \<Rightarrow> SessionNet" where
  "resume_valid h s \<equiv> (if rt_valid (sn_rt s h) then resume_torrent h s else s)"

lemma resume_fold:
  "fold resume_valid hs s =
     s\<lparr>sn_rt := \<lambda>h. if h \<in> set hs \<and> rt_valid (sn_rt s h) then (sn_rt s h)\<lparr>rt_paused := False\<rparr>
                    else sn_rt s h\<rparr>"
proof (induction hs arbitrary: s)
  case Nil
  then show ?case by simp
next
  case (Cons h hs)
  show ?case
    by (simp add: Cons.IH del: split_paired_All)
      (cases s; auto simp: resume_torrent_def fun_eq_iff cong: if_cong)
qed

lemma resume_killed_eq:
  "resume_killed s =
     s\<lparr>sn_rt := \<lambda>h. if h \<in> set (sn_killSwitchPaused s) \<and> rt_valid (sn_rt s h)
                    then (sn_rt s h)\<lparr>rt_paused := False\<rparr> else sn_rt s h,
       sn_killSwitchPaused := []\<rparr>"
  by (simp add: resume_killed_def resume_fold)

lemma rt_ks_cong:
  "f = g \<Longrightarrow> s\<lparr>sn_rt := f, sn_killSwitchPaused := ks\<rparr> = s\<lparr>sn_rt := g, sn_killSwitchPaused := ks\<rparr>"
  by simp

lemma kill_fold:
  "\<exists>ks. fold kill_one hs s =
       s\<lparr>sn_rt := \<lambda>h. if h \<in> set hs \<and> rt_valid (sn_rt s h) then (sn_rt s h)\<lparr>rt_paused := True\<rparr>
                      else sn_rt s h,
         sn_killSwitchPaused := ks\<rparr>
     \<and> set ks = set (sn_killSwitchPaused s)
         \<union> {h \<in> set hs. rt_valid (sn_rt s h) \<and> \<not> rt_paused (sn_rt s h)}"
proof (induction hs arbitrary: s)
  case Nil
  show ?case by (intro exI [of _ "sn_killSwitchPaused s"]) simp
next
  case (Cons x hs)
  show ?case
  proof (cases "rt_valid (sn_rt s x) \<and> \<not> rt_paused (sn_rt s x)")
    case True
    obtain ks where ks: "fold kill_one hs (kill_one x s) =
         (kill_one x s)\<lparr>sn_rt := \<lambda>h. if h \<in> set hs \<and> rt_valid (sn_rt (kill_one x s) h)
                           then (sn_rt (kill_one x s) h)\<lparr>rt_paused := True\<rparr>
                           else sn_rt (kill_one x s) h,
           sn_killSwitchPaused := ks\<rparr>"
      "set ks = set (sn_killSwitchPaused (kill_one x s))
         \<union> {h \<in> set hs. rt_valid (sn_rt (kill_one x s) h) \<and> \<not> rt_paused (sn_rt (kill_one x s) h)}"
      using Cons.IH [of "kill_one x s"] by blast
    have k: "kill_one x s = s\<lparr>sn_rt := (sn_rt s)(x := (sn_rt s x)\<lparr>rt_paused := True\<rparr>),
         sn_killSwitchPaused := List.insert x (sn_killSwitchPaused s)\<rparr>"
      using True by (simp add: kill_one_def pause_torrent_def)
    show ?thesis
    proof (intro exI [of _ ks] conjI)
      show "fold kill_one (x # hs) s = s\<lparr>sn_rt := \<lambda>h. if h \<in> set (x # hs) \<and> rt_valid (sn_rt s h)
          then (sn_rt s h)\<lparr>rt_paused := True\<rparr> else sn_rt s h, sn_killSwitchPaused := ks\<rparr>"
      proof -
        have "fold kill_one (x # hs) s = fold kill_one hs (kill_one x s)" by simp
        also have "\<dots> = s\<lparr>sn_rt := \<lambda>h. if h \<in> set hs \<and> rt_valid (sn_rt (kill_one x s) h)
            then (sn_rt (kill_one x s) h)\<lparr>rt_paused := True\<rparr> else sn_rt (kill_one x s) h,
            sn_killSwitchPaused := ks\<rparr>"
          unfolding ks(1) by (simp add: k cong: if_cong)
        also have "\<dots> = s\<lparr>sn_rt := \<lambda>h. if h \<in> set (x # hs) \<and> rt_valid (sn_rt s h)
            then (sn_rt s h)\<lparr>rt_paused := True\<rparr> else sn_rt s h, sn_killSwitchPaused := ks\<rparr>"
          using True by (intro rt_ks_cong) (auto simp: k fun_eq_iff)
        finally show ?thesis .
      qed
      show "set ks = set (sn_killSwitchPaused s)
          \<union> {h \<in> set (x # hs). rt_valid (sn_rt s h) \<and> \<not> rt_paused (sn_rt s h)}"
        using True by (auto simp: ks(2) k split: if_splits)
    qed
  next
    case False
    then have k: "kill_one x s = s" by (auto simp: kill_one_def)
    obtain ks where ks: "fold kill_one hs s =
         s\<lparr>sn_rt := \<lambda>h. if h \<in> set hs \<and> rt_valid (sn_rt s h) then (sn_rt s h)\<lparr>rt_paused := True\<rparr>
                       else sn_rt s h, sn_killSwitchPaused := ks\<rparr>"
      "set ks = set (sn_killSwitchPaused s)
         \<union> {h \<in> set hs. rt_valid (sn_rt s h) \<and> \<not> rt_paused (sn_rt s h)}"
      using Cons.IH [of s] by blast
    have p: "rt_valid (sn_rt s x) \<Longrightarrow> (sn_rt s x)\<lparr>rt_paused := True\<rparr> = sn_rt s x"
      using False by (cases "sn_rt s x") simp
    show ?thesis
      using False ks p by (intro exI [of _ ks]) (auto simp: k fun_eq_iff)
  qed
qed

section \<open>The kill switch\<close>

text \<open>
  when the bound interface goes down with the kill switch on, every torrent of the session is
  paused, and turning the kill switch off again brings every torrent back to exactly the state it
  was in: what the user had paused stays paused.
\<close>

theorem kill_switch_pauses_and_restores:
  assumes "sn_outgoingInterface s \<noteq> []" "sn_killSwitchEnabled s" "sn_vpnProxyPort s \<le> 0"
    and "\<not> sn_killSwitchActive s" "\<not> interfaceOk nets (sn_outgoingInterface s)"
  shows "(\<forall>h \<in> set (sn_torrents s). rt_valid (sn_rt s h) \<longrightarrow>
            rt_paused (sn_rt (checkInterfaceStatus nets s) h))
         \<and> sn_killSwitchActive (checkInterfaceStatus nets s)
         \<and> sn_rt (setKillSwitchEnabled False (checkInterfaceStatus nets s)) = sn_rt s
         \<and> checkInterfaceStatus nets (checkInterfaceStatus nets s) = checkInterfaceStatus nets s"
proof -
  let ?s0 = "s\<lparr>sn_killSwitchActive := True, sn_killSwitchPaused := []\<rparr>"
  obtain ks where ks: "fold kill_one (sn_torrents s) ?s0 =
       ?s0\<lparr>sn_rt := \<lambda>h. if h \<in> set (sn_torrents s) \<and> rt_valid (sn_rt ?s0 h)
                       then (sn_rt ?s0 h)\<lparr>rt_paused := True\<rparr> else sn_rt ?s0 h,
           sn_killSwitchPaused := ks\<rparr>"
    "set ks = {h \<in> set (sn_torrents s). rt_valid (sn_rt s h) \<and> \<not> rt_paused (sn_rt s h)}"
    using kill_fold [of "sn_torrents s" ?s0] by auto
  have check: "checkInterfaceStatus nets s =
       (?s0\<lparr>sn_rt := \<lambda>h. if h \<in> set (sn_torrents s) \<and> rt_valid (sn_rt s h)
                       then (sn_rt s h)\<lparr>rt_paused := True\<rparr> else sn_rt s h,
           sn_killSwitchPaused := ks\<rparr>)\<lparr>sn_signals := sn_signals s @ [KillSwitchTriggered]\<rparr>"
    using assms by (simp add: checkInterfaceStatus_def ks(1) cong: if_cong)
  have same: "(rt\<lparr>rt_paused := True\<rparr>)\<lparr>rt_paused := False\<rparr> = rt" if "\<not> rt_paused rt" for rt
    using that by (cases rt) simp
  have same': "rt\<lparr>rt_paused := True\<rparr> = rt" if "rt_paused rt" for rt :: TorrentRt
    using that by (cases rt) simp
  have undo: "sn_rt (setKillSwitchEnabled False (checkInterfaceStatus nets s)) = sn_rt s"
    using same same' ks(2)
    by (auto simp: check setKillSwitchEnabled_def resume_killed_eq fun_eq_iff Let_def)
  have again: "checkInterfaceStatus nets (checkInterfaceStatus nets s) = checkInterfaceStatus nets s"
    using assms by (simp add: check) (simp add: checkInterfaceStatus_def)
  show ?thesis
    using undo again by (simp add: check)
qed

text \<open>
  when the interface is back, every torrent the kill switch had paused is resumed whatever the
  setting "auto resume" says: \<open>setOutgoingInterface\<close> resumes them and empties the set before the
  setting is looked at, so the two settings give the same session.
\<close>

theorem auto_resume_setting_ignored:
  assumes "sn_outgoingInterface s \<noteq> []" "sn_killSwitchEnabled s" "sn_vpnProxyPort s \<le> 0"
    and "sn_killSwitchActive s" "interfaceOk nets (sn_outgoingInterface s)"
  shows "checkInterfaceStatus nets (setAutoResumeOnReconnect False s) =
           (checkInterfaceStatus nets (setAutoResumeOnReconnect True s))\<lparr>sn_autoResume := False\<rparr>
         \<and> (\<forall>h \<in> set (sn_killSwitchPaused s). rt_valid (sn_rt s h) \<longrightarrow>
              \<not> rt_paused (sn_rt (checkInterfaceStatus nets (setAutoResumeOnReconnect False s)) h))"
  using assms
  by (auto simp: checkInterfaceStatus_def setAutoResumeOnReconnect_def setOutgoingInterface_def
      resume_killed_eq apply_settings_def bind_pack_def listen_port_or_def listenPort_def Let_def
      cong: if_cong)

section \<open>The VPN's proxy\<close>

text \<open>The session sends everything through the SOCKS5 proxy on 127.0.0.1 at a port.\<close>

definition tunnelled :: "int \<Rightarrow> SessionNet \<Rightarrow> bool" where
  "tunnelled p s \<longleftrightarrow>
     sn_vpnProxyPort s = p
     \<and> sn_settings s ''proxy_type'' \<in> {Some (SpInt lt_socks5), Some (SpInt lt_socks5_pw)}
     \<and> sn_settings s ''proxy_hostname'' = Some (SpStr ''127.0.0.1'')
     \<and> sn_settings s ''proxy_port'' = Some (SpInt p)
     \<and> sn_settings s ''proxy_peer_connections'' = Some (SpBool True)
     \<and> sn_settings s ''proxy_tracker_connections'' = Some (SpBool True)
     \<and> sn_settings s ''proxy_hostnames'' = Some (SpBool True)
     \<and> sn_settings s ''enable_upnp'' = Some (SpBool False)
     \<and> sn_settings s ''enable_natpmp'' = Some (SpBool False)
     \<and> sn_settings s ''enable_lsd'' = Some (SpBool False)
     \<and> sn_settings s ''anonymous_mode'' = Some (SpBool True)
     \<and> sn_settings s ''outgoing_interfaces'' = Some (SpStr [])"

text \<open>Every operation of this part that may run while the VPN's proxy is in force.\<close>

datatype NetOp =
    OpBind string
  | OpKillSwitch bool
  | OpAutoResume bool
  | OpCheck
  | OpProxy int string int string string
  | OpLeakProof bool
  | OpAnnouncePort int
  | OpVpnProxy int string string

fun net_step :: "NetIf list \<Rightarrow> NetOp \<Rightarrow> SessionNet \<Rightarrow> SessionNet" where
  "net_step nets (OpBind i) s = setOutgoingInterface nets i s"
| "net_step nets (OpKillSwitch b) s = setKillSwitchEnabled b s"
| "net_step nets (OpAutoResume b) s = setAutoResumeOnReconnect b s"
| "net_step nets OpCheck s = checkInterfaceStatus nets s"
| "net_step nets (OpProxy ty host port user pass) s = setProxySettings ty host port user pass s"
| "net_step nets (OpLeakProof b) s = setProxyLeakProof b s"
| "net_step nets (OpAnnouncePort p) s = setVpnAnnouncePort p s"
| "net_step nets (OpVpnProxy port user pass) s = setVpnProxy nets port user pass s"

fun keeps_proxy :: "NetOp \<Rightarrow> bool" where
  "keeps_proxy (OpVpnProxy port user pass) = (0 < port)"
| "keeps_proxy _ = True"

lemma applyProxy_tunnels:
  "0 < sn_vpnProxyPort s \<Longrightarrow> tunnelled (sn_vpnProxyPort s) (applyProxy s)"
  by (simp add: applyProxy_def apply_settings_def setAnnouncePort_def buildProxySettings_def
      Let_def tunnelled_def)

lemma setVpnProxy_tunnels: "0 < port \<Longrightarrow> tunnelled port (setVpnProxy nets port user pass s)"
proof -
  assume port: "0 < port"
  define s2 where "s2 = (let s1 = s\<lparr>sn_vpnProxyPort := max 0 port\<rparr>
     in if sn_vpnProxyPort s1 \<le> 1 then s1\<lparr>sn_vpnAnnouncePort := 0\<rparr> else s1)\<lparr>sn_vpnProxyUser := user, sn_vpnProxyPass := pass\<rparr>"
  have p: "sn_vpnProxyPort s2 = port" using port by (simp add: s2_def Let_def)
  have t: "tunnelled port (applyProxy s2)" using applyProxy_tunnels [of s2] p port by simp
  then have a: "sn_vpnProxyPort (applyProxy s2) = port" by (simp add: tunnelled_def)
  have r: "tunnelled port (x\<lparr>sn_restarts := k\<rparr>) = tunnelled port x" for x k by (simp add: tunnelled_def)
  show ?thesis
    using t a port r unfolding setVpnProxy_def Let_def s2_def [unfolded Let_def, symmetric]
    by (simp only: if_split) auto
qed

lemma fold_reannounce_frame [simp]:
  "sn_settings (fold reannounce hs s) = sn_settings s"
  "sn_vpnProxyPort (fold reannounce hs s) = sn_vpnProxyPort s"
proof -
  have "sn_settings (fold reannounce hs s) = sn_settings s
        \<and> sn_vpnProxyPort (fold reannounce hs s) = sn_vpnProxyPort s"
    by (induction hs arbitrary: s) (simp_all add: reannounce_def)
  then show "sn_settings (fold reannounce hs s) = sn_settings s"
    "sn_vpnProxyPort (fold reannounce hs s) = sn_vpnProxyPort s" by simp_all
qed

lemma tunnelled_keep:
  assumes t: "tunnelled p s" and p: "0 < p" and k: "\<nexists>q user pass. op = OpVpnProxy q user pass"
  shows "tunnelled p (net_step nets op s)"
proof (cases op)
  case (OpVpnProxy port user pass)
  then show ?thesis using k by auto
next
  case (OpProxy ty host port user pass)
  then show ?thesis
    using t p applyProxy_tunnels [of "s\<lparr>sn_proxy := proxy_set ty host port user pass (sn_proxy s)\<rparr>"]
    by (auto simp: setProxySettings_def tunnelled_def)
next
  case (OpLeakProof b)
  then show ?thesis
    using t p applyProxy_tunnels [of "s\<lparr>sn_proxy := proxy_setLeakProof b (sn_proxy s)\<rparr>"]
    by (auto simp: setProxyLeakProof_def tunnelled_def)
next
  case (OpAnnouncePort q)
  have "tunnelled p (setVpnAnnouncePort q s)"
    using t p
    by (auto simp: setVpnAnnouncePort_def Let_def tunnelled_def apply_settings_def
        setAnnouncePort_def)
  with OpAnnouncePort p show ?thesis by auto
qed (use t p in \<open>auto simp: setOutgoingInterface_def setKillSwitchEnabled_def tunnelled_def
       setAutoResumeOnReconnect_def checkInterfaceStatus_def resume_killed_eq Let_def\<close>)

lemma tunnelled_step:
  assumes t: "tunnelled p s" and p: "0 < p" and k: "keeps_proxy op"
  shows "\<exists>q > 0. tunnelled q (net_step nets op s)"
proof (cases "\<exists>q user pass. op = OpVpnProxy q user pass")
  case True
  then show ?thesis using k setVpnProxy_tunnels by auto
next
  case False
  then show ?thesis using tunnelled_keep [OF t p] p by blast
qed


text \<open>
  turning leak-proof mode off while a proxy is in force changes none of the settings it had
  switched: UPnP, NAT-PMP and local discovery stay off and the fingerprint stays scrubbed, because
  the settings of a proxy without leak-proof mode say nothing about them.
\<close>

theorem leak_proof_off_has_no_effect:
  assumes "ty \<noteq> 0" "sn_vpnProxyPort s \<le> 0" "px_leakProof (sn_proxy s)"
  shows "sn_settings (setProxyLeakProof False (setProxySettings ty host port user pass s)) =
           sn_settings (setProxySettings ty host port user pass s)
         \<and> sn_settings (setProxySettings ty host port user pass s) ''anonymous_mode'' =
             Some (SpBool True)
         \<and> sn_settings (setProxySettings ty host port user pass s) ''enable_upnp'' =
             Some (SpBool False)"
proof -
  let ?pack = "\<lambda>l. setAnnouncePort 0
      (buildProxySettings ty host port user pass l (sn_anonymousMode s))"
  have absorb: "m ++ pack ++ pack' = m ++ pack" if "pack' \<subseteq>\<^sub>m pack"
    for m pack pack' :: SettingsPack
    using that by (auto simp: map_add_def map_le_def fun_eq_iff dom_def split: option.splits)
  have le: "?pack False \<subseteq>\<^sub>m ?pack True"
    using assms(1) by (auto simp: map_le_def setAnnouncePort_def buildProxySettings_def Let_def)
  have on: "sn_settings (setProxySettings ty host port user pass s) = sn_settings s ++ ?pack True"
    using assms by (simp add: setProxySettings_def applyProxy_def apply_settings_def
        proxy_settings_def proxy_set_def)
  have off: "sn_settings (setProxyLeakProof False (setProxySettings ty host port user pass s))
      = sn_settings s ++ ?pack True ++ ?pack False"
    using assms by (simp add: setProxyLeakProof_def setProxySettings_def applyProxy_def
        apply_settings_def proxy_settings_def proxy_set_def proxy_setLeakProof_def)
  have "?pack True ''anonymous_mode'' = Some (SpBool True)"
    "?pack True ''enable_upnp'' = Some (SpBool False)"
    using assms(1) by (simp_all add: setAnnouncePort_def buildProxySettings_def Let_def)
  then show ?thesis
    using absorb [OF le] by (simp add: on off map_add_def)
qed

definition sample_net :: SessionNet where
  "sample_net = \<lparr>sn_settings = (\<lambda>_. None), sn_outgoingInterface = ''wg0'', sn_listenPort = 0, sn_livePort = 0,
     sn_killSwitchEnabled = True, sn_autoResume = True, sn_killSwitchActive = False,
     sn_killSwitchPaused = [], sn_torrents = [1, 2],
     sn_rt = (\<lambda>h. \<lparr>rt_valid = True, rt_paused = h = 2, rt_reannounced = 0\<rparr>),
     sn_proxy = \<lparr>px_type = 0, px_host = [], px_port = 0, px_user = [], px_pass = [],
                 px_leakProof = True\<rparr>,
     sn_anonymousMode = False, sn_vpnProxyPort = 0, sn_vpnAnnouncePort = 0,
     sn_vpnProxyUser = [], sn_vpnProxyPass = [], sn_restarts = 0, sn_forceIpv4 = False,
     sn_ptMode = False, sn_dhtEnabled = True, sn_utpEnabled = True, sn_encryptionMode = 0,
     sn_blockLeechers = False, sn_blockedLeechers = 0, sn_ipFilter = [], sn_normalDown = 0,
     sn_normalUp = 0, sn_altDown = 100, sn_altUp = 50, sn_altActive = False,
     sn_schedulerEnabled = True, sn_scheduleFrom = 22, sn_scheduleTo = 6, sn_scheduleDays = 127,
     sn_signals = []\<rparr>"

definition sample_nets :: "NetIf list" where
  "sample_nets = [\<lparr>ni_name = ''wg0'', ni_human = ''wg0'', ni_up = True, ni_running = True,
                   ni_ipv4 = Some ''10.2.0.2''\<rparr>]"

theorem kill_switch_pauses_and_restores_witness:
  "rt_paused (sn_rt (checkInterfaceStatus [] sample_net) 1)
   \<and> sn_rt (setKillSwitchEnabled False (checkInterfaceStatus [] sample_net)) = sn_rt sample_net"
  using kill_switch_pauses_and_restores [of sample_net "[]"]
  by (simp add: sample_net_def interfaceOk_def)

theorem auto_resume_setting_ignored_witness:
  "\<not> rt_paused (sn_rt (checkInterfaceStatus sample_nets (setAutoResumeOnReconnect False
       (checkInterfaceStatus [] sample_net))) 1)"
proof -
  let ?s = "checkInterfaceStatus [] sample_net"
  have "sn_outgoingInterface ?s = ''wg0''" "sn_killSwitchEnabled ?s" "sn_vpnProxyPort ?s \<le> 0"
    "sn_killSwitchActive ?s" "interfaceOk sample_nets ''wg0''" "sn_killSwitchPaused ?s = [1]"
    "rt_valid (sn_rt ?s 1)"
    by code_simp+
  then show ?thesis
    using conjunct2 [OF auto_resume_setting_ignored [of ?s sample_nets]] by simp
qed


theorem leak_proof_off_has_no_effect_witness:
  "sn_settings (setProxyLeakProof False
     (setProxySettings 1 ''proxy'' 1080 [] [] sample_net)) ''anonymous_mode'' = Some (SpBool True)"
  using leak_proof_off_has_no_effect [of 1 sample_net "''proxy''" 1080 "[]" "[]"]
  by (simp add: sample_net_def)

end
