(* ===== verification/VpnWiring.thy ===== *)
theory VpnWiring
  imports VpnManager SessionNetwork
begin

text \<open>
  The VPN, its tunnel and the torrent session put together
  (\<open>src/app/vpnwiring.cpp\<close> over the manager of \<open>VpnManager\<close>, the userspace tunnel of \<open>WgTunnel\<close>
  and the session of \<open>SessionNetwork\<close>): the slots that point the session at the tunnel, hold it
  when the tunnel drops, and release it on a deliberate disconnect; the hand-over to a restarted
  engine and the start of the app. \<open>vpn_event\<close> runs one event of the composed system, from a click
  to a line of the helper's output. \<open>parse\<close> decodes such a line, \<open>nets\<close> are the machine's
  interfaces. The wiring of a tunnel that is an interface of its own is not modelled: the app's
  only tunnel is the userspace one.
\<close>

section \<open>The wiring\<close>

record VpnSystem =
  vs_vpn :: "UserspaceWgTunnel VpnManager"
  vs_eng :: SessionNet
  vs_hold :: bool
  vs_killSwitch :: "bool option"
  vs_autoConnect :: bool

text \<open>An unset kill switch reads as on.\<close>

definition kill_switch_on :: "VpnSystem \<Rightarrow> bool" where
  "kill_switch_on s = (case vs_killSwitch s of None \<Rightarrow> True | Some b \<Rightarrow> b)"

definition sendProxy :: "NetIf list \<Rightarrow> int \<Rightarrow> string \<Rightarrow> string \<Rightarrow> VpnSystem \<Rightarrow> VpnSystem" where
  "sendProxy nets port user pass s = s\<lparr>vs_eng := setVpnProxy nets port user pass (vs_eng s)\<rparr>"

definition sendAnnounce :: "VpnSystem \<Rightarrow> VpnSystem" where
  "sendAnnounce s = s\<lparr>vs_eng := setVpnAnnouncePort (vm_fwdPort (vs_vpn s)) (vs_eng s)\<rparr>"

definition vs_socks :: "VpnSystem \<Rightarrow> SocksInfo option" where
  "vs_socks s = op_socks userspace_ops (vm_tunnel (vs_vpn s))"

text \<open>The port \<open>socks()\<close> shows: an empty map reads as 0.\<close>

definition socks_port :: "VpnSystem \<Rightarrow> int" where
  "socks_port s = (case vs_socks s of None \<Rightarrow> 0 | Some k \<Rightarrow> sk_port k)"

definition sendTunnel :: "NetIf list \<Rightarrow> VpnSystem \<Rightarrow> VpnSystem" where
  "sendTunnel nets s =
     (case vs_socks s of
        None \<Rightarrow> s
      | Some k \<Rightarrow>
          let s1 = sendProxy nets (sk_port k) (sk_user k) (sk_pass k) s
          in if 0 < vm_fwdPort (vs_vpn s1) then sendAnnounce s1 else s1)"

fun vs_slot :: "NetIf list \<Rightarrow> VpnSignal \<Rightarrow> VpnSystem \<Rightarrow> VpnSystem" where
  "vs_slot nets (InterfaceUp iface) s =
     (if socks_port s \<le> 0 then s else (sendTunnel nets s)\<lparr>vs_hold := True\<rparr>)"
| "vs_slot nets (InterfaceDown deliberate) s =
     (if \<not> deliberate \<and> kill_switch_on s then sendProxy nets 1 [] [] s
      else (sendProxy nets 0 [] [] s)\<lparr>vs_hold := False\<rparr>)"
| "vs_slot nets ForwardedPortChanged s =
     (if vm_state (vs_vpn s) = VpnConnected then sendAnnounce s else s)"
| "vs_slot nets _ s = s"

definition resync :: "NetIf list \<Rightarrow> VpnSystem \<Rightarrow> VpnSystem" where
  "resync nets s =
     (if vm_state (vs_vpn s) = VpnConnected \<and> 0 < socks_port s then sendTunnel nets s
      else sendProxy nets (if vs_hold s \<and> kill_switch_on s then 1 else 0) [] [] s)"

text \<open>
  The rest of \<open>wireSocks\<close>: give up a hold whose VPN cannot come back, else say whether
  \<open>connectLastUsed\<close> is to be called shortly.
\<close>

definition wireSocks :: "NetIf list \<Rightarrow> VpnSystem \<Rightarrow> VpnSystem \<times> bool" where
  "wireSocks nets s =
     (let ident = setting (vs_vpn s) ''vpnLastProfileId'';
          known = list_ex (\<lambda>p. pf_id p = ident) (vm_profiles (vs_vpn s));
          real = op_isReal userspace_ops (vm_tunnel (vs_vpn s))
      in if vs_hold s \<and> (\<not> known \<or> \<not> real)
         then ((sendProxy nets 0 [] [] s)\<lparr>vs_hold := False\<rparr>, False)
         else (s, known \<and> real \<and> (vs_hold s \<or> vs_autoConnect s)))"

section \<open>The composed system\<close>

text \<open>An operation of the manager, then the slots on what it emitted.\<close>

definition with_vpn ::
  "NetIf list \<Rightarrow> (UserspaceWgTunnel VpnManager \<Rightarrow> UserspaceWgTunnel VpnManager) \<Rightarrow> VpnSystem \<Rightarrow> VpnSystem"
  where
  "with_vpn nets f s =
     (let m = f ((vs_vpn s)\<lparr>vm_signals := []\<rparr>)
      in fold (vs_slot nets) (vm_signals m) (s\<lparr>vs_vpn := m\<rparr>))"

text \<open>An operation of the tunnel, then the manager's slots on what it emitted.\<close>

definition with_tunnel ::
  "NetIf list \<Rightarrow> int \<Rightarrow> (UserspaceWgTunnel \<Rightarrow> UserspaceWgTunnel \<times> TunnelSignal list)
     \<Rightarrow> VpnSystem \<Rightarrow> VpnSystem" where
  "with_tunnel nets now g s =
     (let (t, sgs) = g (vm_tunnel (vs_vpn s))
      in fold (\<lambda>sg. with_vpn nets (onTunnel userspace_ops now sg)) sgs
           (s\<lparr>vs_vpn := (vs_vpn s)\<lparr>vm_tunnel := t\<rparr>\<rparr>))"

text \<open>
  \<open>VeLine\<close> is one complete line handled in the loop of \<open>readEvents\<close>; \<open>VeExit\<close> is \<open>finished\<close> after
  its last lines; \<open>VePosted\<close> delivers the oldest signal posted with a zero timer.
\<close>

datatype VpnEvent =
    VeConnect string
  | VeDisconnect
  | VeAutoConnect
  | VeRemove string
  | VeImport string string string
  | VeRetryTimer
  | VeLine BatwgEvent
  | VeExit
  | VeStartFailed
  | VeBackstop nat
  | VeKillTimer nat
  | VePosted
  | VeKillSwitch bool
  | VeEngineRestart SessionNet
  | VeNet NetOp

text \<open>The constructor of the session, as far as it concerns the VPN: an engine that starts held.\<close>

definition startEngine :: "bool \<Rightarrow> bool option \<Rightarrow> SessionNet \<Rightarrow> SessionNet" where
  "startEngine hold ks e =
     (let on = (case ks of None \<Rightarrow> True | Some b \<Rightarrow> b);
          e1 = e\<lparr>sn_killSwitchEnabled := on\<rparr>;
          e2 = (if hold \<and> on then e1\<lparr>sn_vpnProxyPort := 1\<rparr> else e1)
      in if px_type (sn_proxy e2) \<noteq> 0 \<or> 0 < sn_vpnProxyPort e2 then applyProxy e2 else e2)"

definition on_tunnel_state :: "(UserspaceWgTunnel \<Rightarrow> UserspaceWgTunnel) \<Rightarrow> VpnSystem \<Rightarrow> VpnSystem" where
  "on_tunnel_state f s = s\<lparr>vs_vpn := (vs_vpn s)\<lparr>vm_tunnel := f (vm_tunnel (vs_vpn s))\<rparr>\<rparr>"

fun vpn_event :: "NetIf list \<Rightarrow> int \<Rightarrow> VpnEvent \<Rightarrow> VpnSystem \<Rightarrow> VpnSystem" where
  "vpn_event nets now (VeConnect ident) s = with_vpn nets (connectProfile userspace_ops ident) s"
| "vpn_event nets now VeDisconnect s = with_vpn nets (disconnectVpn userspace_ops) s"
| "vpn_event nets now VeAutoConnect s = with_vpn nets (connectLastUsed userspace_ops) s"
| "vpn_event nets now (VeRemove ident) s =
     with_vpn nets (removeProfile userspace_ops True ident) s"
| "vpn_event nets now (VeImport ident name conf) s =
     with_vpn nets (\<lambda>m. fst (importConfig ident True True True name conf m)) s"
| "vpn_event nets now VeRetryTimer s = with_vpn nets (onRetryTimer userspace_ops) s"
| "vpn_event nets now (VeLine ev) s =
     (if ut_proc (vm_tunnel (vs_vpn s)) = None then s
      else with_tunnel nets now (ut_event ev) s)"
| "vpn_event nets now VeExit s = with_tunnel nets now (\<lambda>t. ut_finish (ut_exitText t) t) s"
| "vpn_event nets now VeStartFailed s =
     with_tunnel nets now (ut_finish ''The VPN component could not start.'') s"
| "vpn_event nets now (VeBackstop p) s = on_tunnel_state (ut_backstop p) s"
| "vpn_event nets now (VeKillTimer p) s = on_tunnel_state (ut_killTimer p) s"
| "vpn_event nets now VePosted s =
     with_tunnel nets now (\<lambda>t. case ut_posted t of [] \<Rightarrow> (t, [])
                                | sg # sgs \<Rightarrow> (t\<lparr>ut_posted := sgs\<rparr>, [sg])) s"
| "vpn_event nets now (VeKillSwitch b) s = s\<lparr>vs_killSwitch := Some b\<rparr>"
| "vpn_event nets now (VeEngineRestart e) s =
     resync nets (s\<lparr>vs_eng := startEngine (vs_hold s) (vs_killSwitch s) e\<rparr>)"
| "vpn_event nets now (VeNet op) s = s\<lparr>vs_eng := net_step nets op (vs_eng s)\<rparr>"

text \<open>
  The start of the app: a manager on the stored profiles, an engine that starts held if the VPN was
  on when the app closed, and the wiring.
\<close>

definition vpn_launch ::
  "NetIf list \<Rightarrow> UserspaceWgTunnel VpnManager \<Rightarrow> SessionNet \<Rightarrow> bool \<Rightarrow> bool option \<Rightarrow> bool \<Rightarrow> VpnSystem"
  where
  "vpn_launch nets m e hold ks auto =
     fst (wireSocks nets
       \<lparr>vs_vpn = m, vs_eng = startEngine hold ks e, vs_hold = hold, vs_killSwitch = ks,
        vs_autoConnect = auto\<rparr>)"

text \<open>A chunk of output: the complete lines, one after the other.\<close>

definition readEvents ::
  "NetIf list \<Rightarrow> int \<Rightarrow> (string \<Rightarrow> BatwgEvent) \<Rightarrow> string \<Rightarrow> VpnSystem \<Rightarrow> VpnSystem" where
  "readEvents nets now parse out s =
     (let t = vm_tunnel (vs_vpn s) in
      if ut_proc t = None then s
      else fold (\<lambda>l. vpn_event nets now (VeLine (parse l))) (ut_lines out t)
             (on_tunnel_state (ut_rest out) s))"

section \<open>The invariant of the composed system\<close>

definition tun_ok :: "UserspaceWgTunnel \<Rightarrow> bool" where
  "tun_ok t \<longleftrightarrow> (ut_ready t \<longrightarrow> ut_proc t \<noteq> None \<and> 0 < ut_port t)
     \<and> (\<forall>sg \<in> set (ut_posted t). sg = TunDisconnected \<or> (\<exists>why. sg = TunFailed why))"

text \<open>Held means tunnelled, unless the kill switch is off.\<close>

definition hold_ok :: "VpnSystem \<Rightarrow> bool" where
  "hold_ok s \<longleftrightarrow> (kill_switch_on s \<and> vs_hold s \<longrightarrow> (\<exists>p > 0. tunnelled p (vs_eng s)))"

definition sys_inv :: "VpnSystem \<Rightarrow> bool" where
  "sys_inv s \<longleftrightarrow>
     (let m = vs_vpn s; t = vm_tunnel m in
      tun_ok t \<and> hold_ok s \<and> debt_ok ut_owes m
      \<and> (vm_state m = VpnConnected \<longrightarrow>
           ut_ready t \<and> vs_hold s \<and> tunnelled (ut_port t) (vs_eng s))
      \<and> (vm_state m = VpnConnecting \<longrightarrow> ut_proc t \<noteq> None \<or> ut_posted t \<noteq> []))"

text \<open>
  What the environment is taken to respect: the helper reports that it is ready once, the kill
  switch is not switched on in the middle, and only the wiring sets the VPN's proxy.
\<close>

fun vpn_honest :: "VpnEvent \<Rightarrow> VpnSystem \<Rightarrow> bool" where
  "vpn_honest (VeLine (EvReady port user pass ip)) s \<longleftrightarrow> \<not> ut_ready (vm_tunnel (vs_vpn s))"
| "vpn_honest (VeNet (OpVpnProxy port user pass)) s \<longleftrightarrow> False"
| "vpn_honest (VeKillSwitch b) s \<longleftrightarrow> \<not> b"
| "vpn_honest _ s \<longleftrightarrow> True"

fun loud :: "VpnSignal \<Rightarrow> bool" where
  "loud (InterfaceUp i) = True"
| "loud (InterfaceDown d) = True"
| "loud ForwardedPortChanged = True"
| "loud _ = False"

lemma fold_loud: "fold (vs_slot nets) (filter loud ss) s = fold (vs_slot nets) ss s"
proof (induction ss arbitrary: s)
  case Nil
  then show ?case by simp
next
  case (Cons sg ss)
  then show ?case by (cases sg) simp_all
qed

lemma loud_signals [simp]:
  "filter loud (vm_signals (vm_setState st m)) = filter loud (vm_signals m)"
  "filter loud (vm_signals (stopRetry m)) = filter loud (vm_signals m)"
  "filter loud (vm_signals (scheduleRetry now m)) = filter loud (vm_signals m)"
  "filter loud (vm_signals (vm_refuse why m)) = filter loud (vm_signals m)"
  "filter loud (vm_signals (saveIndex w m)) = filter loud (vm_signals m)"
  by (simp_all add: vm_setState_def stopRetry_def scheduleRetry_def vm_refuse_def saveIndex_def
      Let_def)

lemma connectProfile_quiet:
  "filter loud (vm_signals (connectProfile ops ident m)) = filter loud (vm_signals m)"
  by (simp add: connectProfile_def Let_def split: option.split)

lemma disconnectVpn_loud:
  "filter loud (vm_signals (disconnectVpn ops m)) =
     filter loud (vm_signals m) @ (if vm_state m = VpnFailed then [InterfaceDown True] else [])"
  by (simp add: disconnectVpn_def Let_def)

lemma onConnected_loud:
  "filter loud (vm_signals (onConnected ops i m)) =
     filter loud (vm_signals m) @ (if vm_state m = VpnConnecting then [InterfaceUp i] else [])"
  by (simp add: onConnected_def)

lemma onDisconnected_loud:
  "filter loud (vm_signals (onDisconnected ops m)) =
     filter loud (vm_signals m) @ [InterfaceDown (vm_userDown m)]"
  by (simp add: onDisconnected_def Let_def)

lemma onFailed_loud:
  "filter loud (vm_signals (onFailed ops now why m)) =
     filter loud (vm_signals m) @ [InterfaceDown False]"
  by (simp add: onFailed_def Let_def)

lemma with_vpn_loud:
  "with_vpn nets f s =
     fold (vs_slot nets) (filter loud (vm_signals (f ((vs_vpn s)\<lparr>vm_signals := []\<rparr>))))
       (s\<lparr>vs_vpn := f ((vs_vpn s)\<lparr>vm_signals := []\<rparr>)\<rparr>)"
  by (simp add: with_vpn_def fold_loud Let_def)

lemma slot_frame [simp]:
  "vs_vpn (vs_slot nets sg s) = vs_vpn s" "vs_killSwitch (vs_slot nets sg s) = vs_killSwitch s"
  by (cases sg; simp add: sendProxy_def sendAnnounce_def sendTunnel_def Let_def split: option.split)+

lemma fold_slot_frame [simp]:
  "vs_vpn (fold (vs_slot nets) ss s) = vs_vpn s"
  "vs_killSwitch (fold (vs_slot nets) ss s) = vs_killSwitch s"
  by (induction ss arbitrary: s) simp_all

lemma with_vpn_vpn [simp]:
  "vs_vpn (with_vpn nets f s) = f ((vs_vpn s)\<lparr>vm_signals := []\<rparr>)"
  "vs_killSwitch (with_vpn nets f s) = vs_killSwitch s"
  by (simp_all add: with_vpn_def Let_def)

lemma vpn_proxy_off: "sn_vpnProxyPort (setVpnProxy nets 0 user pass e) = 0"
proof -
  have "sn_vpnProxyPort (applyProxy x) = sn_vpnProxyPort x"
    "sn_vpnProxyPort (resume_killed x) = sn_vpnProxyPort x" for x
    by (simp_all add: applyProxy_def apply_settings_def resume_killed_eq)
  then show ?thesis
    by (simp add: setVpnProxy_def setOutgoingInterface_def apply_settings_def Let_def)
qed

text \<open>The slots keep a hold tunnelled.\<close>

lemma announce_tunnelled:
  "tunnelled p e \<Longrightarrow> 0 < p \<Longrightarrow> tunnelled p (setVpnAnnouncePort q e)"
  using tunnelled_keep [of p e "OpAnnouncePort q" nets] by auto

lemma slot_down:
  "hold_ok s \<Longrightarrow> hold_ok (vs_slot nets (InterfaceDown d) s)"
  using setVpnProxy_tunnels [of 1 nets "[]" "[]" "vs_eng s"]
  by (auto simp: hold_ok_def sendProxy_def kill_switch_on_def intro!: exI [of _ 1])

lemma slot_announce:
  "hold_ok s \<Longrightarrow> hold_ok (vs_slot nets ForwardedPortChanged s)"
  using announce_tunnelled by (auto simp: hold_ok_def sendAnnounce_def kill_switch_on_def)

lemma sendTunnel_tunnels:
  assumes "ut_ready (vm_tunnel (vs_vpn s))" "0 < ut_port (vm_tunnel (vs_vpn s))"
  shows "tunnelled (ut_port (vm_tunnel (vs_vpn s))) (vs_eng (sendTunnel nets s))"
    "vs_hold (sendTunnel nets s) = vs_hold s" "vs_vpn (sendTunnel nets s) = vs_vpn s"
    "vs_killSwitch (sendTunnel nets s) = vs_killSwitch s"
  using assms announce_tunnelled setVpnProxy_tunnels
  by (simp_all add: sendTunnel_def vs_socks_def userspace_ops_def ut_socks_def sendProxy_def
      sendAnnounce_def Let_def)

lemma slot_up:
  assumes "ut_ready (vm_tunnel (vs_vpn s))" "0 < ut_port (vm_tunnel (vs_vpn s))"
  shows "vs_hold (vs_slot nets (InterfaceUp i) s)
    \<and> tunnelled (ut_port (vm_tunnel (vs_vpn s))) (vs_eng (vs_slot nets (InterfaceUp i) s))"
  using assms sendTunnel_tunnels [OF assms]
  by (simp add: socks_port_def vs_socks_def userspace_ops_def ut_socks_def)

section \<open>Preservation\<close>

lemma ut_up_ok: "tun_ok t \<Longrightarrow> tun_ok (ut_up path file cfg t)
    \<and> (ut_proc (ut_up path file cfg t) \<noteq> None \<or> ut_posted (ut_up path file cfg t) \<noteq> [])"
  by (auto simp: tun_ok_def ut_up_def ut_post_def split: option.split)

lemma ut_down_ok: "tun_ok t \<Longrightarrow> tun_ok (ut_down t)"
  by (auto simp: tun_ok_def ut_down_def ut_post_def)

lemma ut_down_sel [simp]:
  "ut_ready (ut_down t) = ut_ready t" "ut_port (ut_down t) = ut_port t"
  "ut_proc (ut_down t) = ut_proc t" "ut_posted t \<noteq> [] \<Longrightarrow> ut_posted (ut_down t) \<noteq> []"
  "ut_starts (ut_down t) = ut_starts t"
  by (simp_all add: ut_down_def ut_post_def)

lemma ops_sel [simp]:
  "op_up userspace_ops = ut_up" "op_down userspace_ops = ut_down"
  by (simp_all add: userspace_ops_def)

lemma clear_debt: "debt_ok owes (m\<lparr>vm_signals := x\<rparr>) = debt_ok owes m"
  by (simp add: debt_ok_def)

text \<open>What \<open>sys_inv\<close> asks of a manager that stays silent, from the manager \<open>m\<close> before.\<close>

definition quiet_ok :: "UserspaceWgTunnel VpnManager \<Rightarrow> UserspaceWgTunnel VpnManager \<Rightarrow> bool" where
  "quiet_ok m m' \<longleftrightarrow> tun_ok (vm_tunnel m') \<and> debt_ok ut_owes m'
     \<and> (vm_state m' = VpnConnected \<longrightarrow> ut_ready (vm_tunnel m')
          \<and> ut_port (vm_tunnel m') = ut_port (vm_tunnel m) \<and> vm_state m = VpnConnected)
     \<and> (vm_state m' = VpnConnecting \<longrightarrow>
          ut_proc (vm_tunnel m') \<noteq> None \<or> ut_posted (vm_tunnel m') \<noteq> [])"

lemma inv_quiet_ok:
  assumes "sys_inv s" "quiet_ok (vs_vpn s) (f ((vs_vpn s)\<lparr>vm_signals := []\<rparr>))"
    and "filter loud (vm_signals (f ((vs_vpn s)\<lparr>vm_signals := []\<rparr>))) = []"
  shows "sys_inv (with_vpn nets f s)"
  using assms
  by (auto simp: with_vpn_loud sys_inv_def Let_def hold_ok_def kill_switch_on_def quiet_ok_def)

lemma sys_inv_quiet: "sys_inv s \<Longrightarrow> quiet_ok (vs_vpn s) ((vs_vpn s)\<lparr>vm_signals := x\<rparr>)"
  by (simp add: sys_inv_def Let_def quiet_ok_def clear_debt)

lemma connect_quiet_ok:
  assumes q: "quiet_ok m0 m"
  shows "quiet_ok m0 (connectProfile userspace_ops ident m)"
proof -
  have t: "tun_ok (vm_tunnel m)" and d: "debt_ok ut_owes m"
    using q by (simp_all add: quiet_ok_def)
  have d': "debt_ok ut_owes (connectProfile userspace_ops ident m)"
    by (rule userspace.connect_debt [OF d])
  show ?thesis
    by (rule connectProfile_cases [of m userspace_ops ident])
      (use q t d' ut_up_ok in \<open>auto simp: quiet_ok_def\<close>)
qed

lemma inv_connectProfile:
  "sys_inv s \<Longrightarrow> sys_inv (with_vpn nets (connectProfile userspace_ops ident) s)"
  by (rule inv_quiet_ok) (simp_all add: connect_quiet_ok sys_inv_quiet connectProfile_quiet)

lemma inv_connectLastUsed:
  assumes "sys_inv s"
  shows "sys_inv (with_vpn nets (connectLastUsed userspace_ops) s)"
proof (rule inv_quiet_ok [OF assms])
  let ?m = "(vs_vpn s)\<lparr>vm_signals := []\<rparr>"
  have q: "quiet_ok (vs_vpn s) ?m" using assms by (rule sys_inv_quiet)
  then have "quiet_ok (vs_vpn s) (?m\<lparr>vm_keepUp := True\<rparr>)"
    by (simp add: quiet_ok_def debt_ok_def)
  with q show "quiet_ok (vs_vpn s) (connectLastUsed userspace_ops ?m)"
    using connect_quiet_ok by (simp add: connectLastUsed_def Let_def)
  show "filter loud (vm_signals (connectLastUsed userspace_ops ?m)) = []"
    by (simp add: connectLastUsed_def Let_def connectProfile_quiet)
qed

lemma inv_onRetryTimer:
  assumes "sys_inv s"
  shows "sys_inv (with_vpn nets (onRetryTimer userspace_ops) s)"
proof (rule inv_quiet_ok [OF assms])
  let ?m = "(vs_vpn s)\<lparr>vm_signals := []\<rparr>"
  let ?m1 = "vm_emit RetryChanged
      (?m\<lparr>vm_retryTimer := False, vm_retryTick := False, vm_retryAt := 0\<rparr>)"
  have q: "quiet_ok (vs_vpn s) ?m" using assms by (rule sys_inv_quiet)
  then have "quiet_ok (vs_vpn s) ?m1"
    by (simp add: quiet_ok_def debt_ok_def)
  with q show "quiet_ok (vs_vpn s) (onRetryTimer userspace_ops ?m)"
    using connect_quiet_ok by (simp add: onRetryTimer_def Let_def)
  show "filter loud (vm_signals (onRetryTimer userspace_ops ?m)) = []"
    by (simp add: onRetryTimer_def Let_def connectProfile_quiet vm_emit_def)
qed

lemma inv_import:
  assumes "sys_inv s"
  shows "sys_inv (with_vpn nets (\<lambda>m. fst (importConfig ident a b c name conf m)) s)"
proof (rule inv_quiet_ok [OF assms])
  let ?m = "(vs_vpn s)\<lparr>vm_signals := []\<rparr>"
  have q: "quiet_ok (vs_vpn s) ?m" using assms by (rule sys_inv_quiet)
  then show "quiet_ok (vs_vpn s) (fst (importConfig ident a b c name conf ?m))"
    by (simp add: importConfig_def Let_def quiet_ok_def saveIndex_def debt_ok_def)
  show "filter loud (vm_signals (fst (importConfig ident a b c name conf ?m))) = []"
    by (simp add: importConfig_def Let_def saveIndex_def)
qed

lemma down_quiet_ok:
  "quiet_ok m0 m \<Longrightarrow> vm_state m' = vm_state m \<Longrightarrow> vm_tunnel m' = ut_down (vm_tunnel m) \<Longrightarrow>
     quiet_ok m0 m'"
  using userspace.down_owes [of "vm_tunnel m"]
  by (auto simp: quiet_ok_def ut_down_ok debt_ok_def)

text \<open>A disconnect, and whatever follows it silently on the manager only.\<close>

lemma inv_disconnect_then:
  assumes i: "sys_inv s"
    and g: "\<And>m. vm_state (g m) = vm_state m \<and> vm_tunnel (g m) = vm_tunnel m
              \<and> vm_userDown (g m) = vm_userDown m
              \<and> filter loud (vm_signals (g m)) = filter loud (vm_signals m)"
  shows "sys_inv (with_vpn nets (\<lambda>m. g (disconnectVpn userspace_ops m)) s)"
proof (cases "vm_state (vs_vpn s) = VpnFailed")
  case False
  let ?m = "(vs_vpn s)\<lparr>vm_signals := []\<rparr>"
  have q: "quiet_ok (vs_vpn s) ?m" using i by (rule sys_inv_quiet)
  have "quiet_ok (vs_vpn s) (disconnectVpn userspace_ops ?m)"
  proof (cases "vm_state (vs_vpn s) = VpnDisconnected")
    case True
    with q show ?thesis by (simp add: disconnectVpn_def Let_def quiet_ok_def debt_ok_def)
  next
    case no: False
    then show ?thesis
      using False by (intro down_quiet_ok [OF q]) (simp_all add: disconnectVpn_def Let_def)
  qed
  then have "quiet_ok (vs_vpn s) (g (disconnectVpn userspace_ops ?m))"
    using g by (simp add: quiet_ok_def debt_ok_def)
  then show ?thesis
    using False g by (intro inv_quiet_ok [OF i]) (simp_all add: disconnectVpn_loud)
next
  case True
  let ?m = "g (disconnectVpn userspace_ops ((vs_vpn s)\<lparr>vm_signals := []\<rparr>))"
  have m: "vm_state ?m = VpnDisconnected" "vm_tunnel ?m = ut_down (vm_tunnel (vs_vpn s))"
    using True g by (simp_all add: disconnectVpn_def Let_def)
  have t: "tun_ok (vm_tunnel ?m)" using i m ut_down_ok by (simp add: sys_inv_def Let_def)
  have d: "debt_ok ut_owes ?m"
    using m(2) userspace.down_owes by (simp add: debt_ok_def)
  have "with_vpn nets (\<lambda>m. g (disconnectVpn userspace_ops m)) s =
      vs_slot nets (InterfaceDown True) (s\<lparr>vs_vpn := ?m\<rparr>)"
    using True g by (simp add: with_vpn_loud disconnectVpn_loud)
  then show ?thesis
    using t d m by (simp add: sys_inv_def Let_def hold_ok_def sendProxy_def)
qed

lemma inv_disconnect: "sys_inv s \<Longrightarrow> sys_inv (with_vpn nets (disconnectVpn userspace_ops) s)"
  using inv_disconnect_then [where g = "\<lambda>m. m"] by simp

lemma with_vpn_cong:
  "f ((vs_vpn s)\<lparr>vm_signals := []\<rparr>) = f' ((vs_vpn s)\<lparr>vm_signals := []\<rparr>) \<Longrightarrow>
     with_vpn nets f s = with_vpn nets f' s"
  by (simp add: with_vpn_def)

lemma inv_remove:
  assumes i: "sys_inv s"
  shows "sys_inv (with_vpn nets (removeProfile userspace_ops True ident) s)"
proof -
  let ?m = "(vs_vpn s)\<lparr>vm_signals := []\<rparr>"
  show ?thesis
  proof (cases "indexOf (vs_vpn s) ident")
    case None
    then have r: "removeProfile userspace_ops True ident ?m = ?m"
      by (simp add: removeProfile_def indexOf_def)
    show ?thesis
      by (rule inv_quiet_ok [OF i]) (simp_all add: r sys_inv_quiet i)
  next
    case (Some k)
    let ?g = "\<lambda>m. vm_emit ProfilesChanged (saveIndex True
        (m\<lparr>vm_files := (vm_files m)(confPath m ident := None),
           vm_profiles := take k (vm_profiles m) @ drop (Suc k) (vm_profiles m)\<rparr>))"
    have g: "vm_state (?g m) = vm_state m \<and> vm_tunnel (?g m) = vm_tunnel m
        \<and> vm_userDown (?g m) = vm_userDown m
        \<and> filter loud (vm_signals (?g m)) = filter loud (vm_signals m)" for m
      by (simp add: saveIndex_def)
    have ix: "indexOf ?m ident = Some k" using Some by (simp add: indexOf_def)
    show ?thesis
    proof (cases "vm_activeId (vs_vpn s) = ident")
      case True
      have "removeProfile userspace_ops True ident ?m = ?g (disconnectVpn userspace_ops ?m)"
        using ix True by (simp add: removeProfile_def Let_def)
      then have "with_vpn nets (removeProfile userspace_ops True ident) s =
          with_vpn nets (\<lambda>m. ?g (disconnectVpn userspace_ops m)) s"
        by (rule with_vpn_cong)
      then show ?thesis
        by (rule ssubst) (rule inv_disconnect_then [where g = ?g, OF i g])
    next
      case False
      have e: "removeProfile userspace_ops True ident ?m = ?g ?m"
        using ix False by (simp add: removeProfile_def Let_def)
      have "quiet_ok (vs_vpn s) (?g ?m)"
        using sys_inv_quiet [OF i, of "[]"] g [of ?m] by (simp add: quiet_ok_def debt_ok_def)
      then show ?thesis
        using g [of ?m] by (intro inv_quiet_ok [OF i]) (simp_all add: e saveIndex_def)
    qed
  qed
qed

text \<open>What remains of the invariant while the tunnel has changed and its signals are on the way.\<close>

definition weak_ok :: "VpnSystem \<Rightarrow> bool" where
  "weak_ok s \<longleftrightarrow> tun_ok (vm_tunnel (vs_vpn s)) \<and> hold_ok s"

lemma hold_ok_vpn [simp]: "hold_ok (s\<lparr>vs_vpn := m\<rparr>) = hold_ok s"
  by (simp add: hold_ok_def kill_switch_on_def)

lemma sys_inv_weak: "sys_inv s \<Longrightarrow> weak_ok s"
  by (simp add: sys_inv_def weak_ok_def Let_def)

lemma answer_sel [simp]:
  "vm_state (onDisconnected ops m) = VpnDisconnected" "vm_tunnel (onDisconnected ops m) = vm_tunnel m"
  "vm_state (onFailed ops now why m) = VpnFailed" "vm_tunnel (onFailed ops now why m) = vm_tunnel m"
  "vm_userDown (onDisconnected ops m) = False" "vm_userDown (onFailed ops now why m) = False"
  by (simp_all add: onDisconnected_def onFailed_def Let_def scheduleRetry_def)

lemma inv_answer:
  assumes w: "weak_ok s" and sg: "sg = TunDisconnected \<or> (\<exists>why. sg = TunFailed why)"
  shows "sys_inv (with_vpn nets (onTunnel userspace_ops now sg) s)"
proof -
  let ?m = "onTunnel userspace_ops now sg ((vs_vpn s)\<lparr>vm_signals := []\<rparr>)"
  have m: "vm_state ?m \<noteq> VpnConnected" "vm_state ?m \<noteq> VpnConnecting"
    "vm_tunnel ?m = vm_tunnel (vs_vpn s)" "\<not> vm_userDown ?m"
    "\<exists>d. filter loud (vm_signals ?m) = [InterfaceDown d]"
    using sg by (auto simp: onDisconnected_loud onFailed_loud)
  obtain d where d: "filter loud (vm_signals ?m) = [InterfaceDown d]" using m(5) by blast
  have e: "with_vpn nets (onTunnel userspace_ops now sg) s =
      vs_slot nets (InterfaceDown d) (s\<lparr>vs_vpn := ?m\<rparr>)"
    by (simp only: with_vpn_loud d) simp
  have "hold_ok (vs_slot nets (InterfaceDown d) (s\<lparr>vs_vpn := ?m\<rparr>))"
    using w by (intro slot_down) (simp add: weak_ok_def)
  then show ?thesis
    using w m unfolding e sys_inv_def Let_def slot_frame weak_ok_def debt_ok_def by simp
qed

lemma fwd_cases:
  "with_vpn nets (onTunnel userspace_ops now (TunForwardedPort p)) s =
     (let m = onForwardedPort p ((vs_vpn s)\<lparr>vm_signals := []\<rparr>); s1 = s\<lparr>vs_vpn := m\<rparr>
      in if vm_fwdPort (vs_vpn s) = p then s1 else vs_slot nets ForwardedPortChanged s1)"
  by (simp add: with_vpn_loud onForwardedPort_def Let_def)

lemma fwd_sel [simp]:
  "vm_state (onForwardedPort p m) = vm_state m" "vm_tunnel (onForwardedPort p m) = vm_tunnel m"
  "vm_userDown (onForwardedPort p m) = vm_userDown m"
  by (simp_all add: onForwardedPort_def)

lemma weak_fwd:
  "weak_ok s \<Longrightarrow> weak_ok (with_vpn nets (onTunnel userspace_ops now (TunForwardedPort p)) s)"
  using slot_announce [of "s\<lparr>vs_vpn := onForwardedPort p ((vs_vpn s)\<lparr>vm_signals := []\<rparr>)\<rparr>" nets]
  unfolding fwd_cases Let_def weak_ok_def
  by (simp only: slot_frame split: if_split) (simp del: vs_slot.simps)

lemma inv_fwd:
  assumes i: "sys_inv s"
  shows "sys_inv (with_vpn nets (onTunnel userspace_ops now (TunForwardedPort p)) s)"
proof -
  let ?s = "s\<lparr>vs_vpn := onForwardedPort p ((vs_vpn s)\<lparr>vm_signals := []\<rparr>)\<rparr>"
  have i': "sys_inv ?s" using i by (simp add: sys_inv_def Let_def debt_ok_def)
  have "hold_ok ?s" using i' by (simp add: sys_inv_def Let_def)
  then have h: "hold_ok (vs_slot nets ForwardedPortChanged ?s)" by (rule slot_announce)
  have "sys_inv (vs_slot nets ForwardedPortChanged ?s)"
  proof -
    have "0 < ut_port (vm_tunnel (vs_vpn s))" if "ut_ready (vm_tunnel (vs_vpn s))"
      using i that by (simp add: sys_inv_def Let_def tun_ok_def)
    then show ?thesis
      using i' h announce_tunnelled
      by (auto simp: sys_inv_def Let_def sendAnnounce_def)
  qed
  with i' show ?thesis unfolding fwd_cases Let_def by (simp del: vs_slot.simps)
qed

lemma onConnected_sel:
  "vm_state m \<noteq> VpnConnecting \<Longrightarrow> onConnected ops i m = m\<lparr>vm_tunnel := op_down ops (vm_tunnel m)\<rparr>"
  "vm_state m = VpnConnecting \<Longrightarrow> vm_state (onConnected ops i m) = VpnConnected
     \<and> vm_tunnel (onConnected ops i m) = vm_tunnel m
     \<and> vm_userDown (onConnected ops i m) = vm_userDown m"
  by (simp_all add: onConnected_def)

lemma inv_connected:
  assumes i: "sys_inv s" and r: "ut_ready (vm_tunnel (vs_vpn s))"
  shows "sys_inv (with_vpn nets (onTunnel userspace_ops now (TunConnected iface)) s)"
proof (cases "vm_state (vs_vpn s) = VpnConnecting")
  case False
  let ?m = "(vs_vpn s)\<lparr>vm_signals := []\<rparr>"
  have q: "quiet_ok (vs_vpn s) ?m" using i by (rule sys_inv_quiet)
  have "quiet_ok (vs_vpn s) (?m\<lparr>vm_tunnel := ut_down (vm_tunnel ?m)\<rparr>)"
    by (rule down_quiet_ok [OF q]) simp_all
  then show ?thesis
    using False by (intro inv_quiet_ok [OF i]) (simp_all add: onConnected_sel)
next
  case True
  let ?m = "onConnected userspace_ops iface ((vs_vpn s)\<lparr>vm_signals := []\<rparr>)"
  let ?s = "s\<lparr>vs_vpn := ?m\<rparr>"
  have m: "vm_state ?m = VpnConnected" "vm_tunnel ?m = vm_tunnel (vs_vpn s)"
    "vm_userDown ?m = vm_userDown (vs_vpn s)"
    using True onConnected_sel(2) [of "(vs_vpn s)\<lparr>vm_signals := []\<rparr>" userspace_ops iface]
    by simp_all
  have p: "0 < ut_port (vm_tunnel (vs_vpn s))"
    using i r by (simp add: sys_inv_def Let_def tun_ok_def)
  have e: "with_vpn nets (onTunnel userspace_ops now (TunConnected iface)) s =
      vs_slot nets (InterfaceUp iface) ?s"
    using True by (simp only: with_vpn_loud onTunnel.simps onConnected_loud) simp
  have u: "vs_hold (vs_slot nets (InterfaceUp iface) ?s)
    \<and> tunnelled (ut_port (vm_tunnel (vs_vpn s))) (vs_eng (vs_slot nets (InterfaceUp iface) ?s))"
    using slot_up [of ?s nets iface] r p m by simp
  then have h: "hold_ok (vs_slot nets (InterfaceUp iface) ?s)"
    using p by (auto simp: hold_ok_def simp del: vs_slot.simps)
  have d: "debt_ok ut_owes ?m"
    using i m by (simp add: sys_inv_def Let_def debt_ok_def)
  have "tun_ok (vm_tunnel (vs_vpn s))" using i by (simp add: sys_inv_def Let_def)
  then show ?thesis
    using u h d m r unfolding e sys_inv_def Let_def slot_frame by simp
qed

section \<open>Events\<close>

lemma with_tunnel_fold:
  "g (vm_tunnel (vs_vpn s)) = (t, sgs) \<Longrightarrow>
     with_tunnel nets now g s =
       fold (\<lambda>sg. with_vpn nets (onTunnel userspace_ops now sg)) sgs
         (s\<lparr>vs_vpn := (vs_vpn s)\<lparr>vm_tunnel := t\<rparr>\<rparr>)"
  by (simp add: with_tunnel_def)

lemma inv_line:
  assumes i: "sys_inv s" and h: "vpn_honest (VeLine ev) s"
    and p: "ut_proc (vm_tunnel (vs_vpn s)) \<noteq> None"
  shows "sys_inv (with_tunnel nets now (ut_event ev) s)"
proof -
  let ?t = "vm_tunnel (vs_vpn s)"
  let ?s = "s\<lparr>vs_vpn := (vs_vpn s)\<lparr>vm_tunnel := fst (ut_event ev ?t)\<rparr>\<rparr>"
  have w: "with_tunnel nets now (ut_event ev) s =
      fold (\<lambda>sg. with_vpn nets (onTunnel userspace_ops now sg)) (snd (ut_event ev ?t)) ?s"
    by (rule with_tunnel_fold) simp
  have owes: "ut_owes (fst (ut_event ev ?t)) = ut_owes ?t" by (simp add: ut_owes_def)
  have s: "sys_inv ?s"
  proof (cases ev)
    case (EvReady port user pass ip)
    with h have "\<not> ut_ready ?t" by simp
    with EvReady i p owes show ?thesis
      by (auto simp: sys_inv_def Let_def tun_ok_def debt_ok_def)
  qed (use i owes in \<open>auto simp: sys_inv_def Let_def tun_ok_def debt_ok_def\<close>)
  show ?thesis
  proof (cases ev)
    case (EvReady port user pass ip)
    show ?thesis
    proof (cases "0 < port \<and> \<not> ut_stopping ?t")
      case True
      with EvReady have "ut_ready (vm_tunnel (vs_vpn ?s))" by (simp add: Let_def)
      with True EvReady show ?thesis
        unfolding w using inv_connected [OF s] by (simp add: Let_def)
    next
      case False
      with EvReady s show ?thesis unfolding w by (auto simp: Let_def)
    qed
  next
    case (EvFwd port)
    with s show ?thesis unfolding w using inv_fwd [OF s] by simp
  qed (use s w in \<open>simp_all\<close>)
qed

lemma inv_finish:
  assumes i: "sys_inv s"
  shows "sys_inv (with_tunnel nets now (ut_finish why) s)"
proof (cases "ut_proc (vm_tunnel (vs_vpn s)) = None")
  case True
  then show ?thesis using i by (simp add: with_tunnel_def ut_finish_def)
next
  case False
  let ?t = "vm_tunnel (vs_vpn s)"
  let ?s = "s\<lparr>vs_vpn := (vs_vpn s)\<lparr>vm_tunnel := fst (ut_finish why ?t)\<rparr>\<rparr>"
  let ?last = "if ut_stopping ?t then TunDisconnected else TunFailed why"
  have sgs: "snd (ut_finish why ?t) =
      (if ut_fwd ?t \<noteq> 0 then [TunForwardedPort 0] else []) @ [?last]"
    using False by (auto simp: ut_finish_def)
  have w: "with_tunnel nets now (ut_finish why) s =
      fold (\<lambda>sg. with_vpn nets (onTunnel userspace_ops now sg)) (snd (ut_finish why ?t)) ?s"
    by (rule with_tunnel_fold) simp
  have wk: "weak_ok ?s"
    using i False by (auto simp: weak_ok_def sys_inv_def Let_def tun_ok_def ut_finish_def)
  have a: "sys_inv (with_vpn nets (onTunnel userspace_ops now ?last) x)" if "weak_ok x" for x
    by (rule inv_answer [OF that]) simp
  show ?thesis
    unfolding w sgs using a [OF wk] a [OF weak_fwd [OF wk]]
    by (cases "ut_fwd ?t \<noteq> 0") (simp_all split del: if_split)
qed

lemma inv_posted:
  assumes i: "sys_inv s"
  shows "sys_inv (vpn_event nets now VePosted s)"
proof (cases "ut_posted (vm_tunnel (vs_vpn s))")
  case Nil
  then show ?thesis using i by (simp add: with_tunnel_def)
next
  case (Cons sg sgs)
  let ?s = "s\<lparr>vs_vpn := (vs_vpn s)\<lparr>vm_tunnel := (vm_tunnel (vs_vpn s))\<lparr>ut_posted := sgs\<rparr>\<rparr>\<rparr>"
  have "weak_ok ?s" and sg: "sg = TunDisconnected \<or> (\<exists>why. sg = TunFailed why)"
    using i Cons by (auto simp: weak_ok_def sys_inv_def Let_def tun_ok_def)
  then have "sys_inv (with_vpn nets (onTunnel userspace_ops now sg) ?s)"
    by (rule inv_answer)
  then show ?thesis using Cons by (simp add: with_tunnel_def)
qed

lemma startEngine_tunnelled:
  "hold \<Longrightarrow> ks \<noteq> Some False \<Longrightarrow> tunnelled 1 (startEngine hold ks e)"
  using applyProxy_tunnels [of "e\<lparr>sn_killSwitchEnabled := True, sn_vpnProxyPort := 1\<rparr>"]
  by (auto simp: startEngine_def Let_def split: option.split)

lemma inv_restart:
  assumes i: "sys_inv s"
  shows "sys_inv (resync nets (s\<lparr>vs_eng := e\<rparr>))"
proof (cases "vm_state (vs_vpn s) = VpnConnected")
  case True
  let ?s = "s\<lparr>vs_eng := e\<rparr>"
  have r: "ut_ready (vm_tunnel (vs_vpn ?s))" "0 < ut_port (vm_tunnel (vs_vpn ?s))" "vs_hold s"
    using i True by (simp_all add: sys_inv_def Let_def tun_ok_def)
  have "0 < socks_port ?s"
    using r by (simp add: socks_port_def vs_socks_def userspace_ops_def ut_socks_def)
  then show ?thesis
    using True i r sendTunnel_tunnels [OF r(1,2), of nets]
    by (auto simp: resync_def sys_inv_def Let_def hold_ok_def)
next
  case False
  have "sys_inv (sendProxy nets (if vs_hold s \<and> kill_switch_on s then 1 else 0) [] [] (s\<lparr>vs_eng := e\<rparr>))"
    using i False setVpnProxy_tunnels [of 1 nets "[]" "[]" e]
    by (auto simp: sys_inv_def Let_def hold_ok_def sendProxy_def kill_switch_on_def
        intro!: exI [of _ 1])
  with False show ?thesis by (simp add: resync_def kill_switch_on_def)
qed

lemma vpn_event_inv:
  assumes i: "sys_inv s" and h: "vpn_honest ev s"
  shows "sys_inv (vpn_event nets now ev s)"
proof (cases ev)
  case (VeLine e)
  with i h inv_line show ?thesis by simp
next
  case VeExit
  have "with_tunnel nets now (\<lambda>t. ut_finish (ut_exitText t) t) s =
      with_tunnel nets now (ut_finish (ut_exitText (vm_tunnel (vs_vpn s)))) s"
    by (simp add: with_tunnel_def)
  with VeExit show ?thesis using inv_finish [OF i] by simp
next
  case VePosted
  with inv_posted [OF i] show ?thesis by metis
next
  case (VeKillSwitch b)
  with i h show ?thesis by (auto simp: sys_inv_def Let_def hold_ok_def kill_switch_on_def)
next
  case (VeEngineRestart e)
  with inv_restart [OF i] show ?thesis by simp
next
  case (VeNet op)
  have "\<nexists>q user pass. op = OpVpnProxy q user pass"
    using h VeNet by auto
  then have k: "tunnelled p e \<Longrightarrow> 0 < p \<Longrightarrow> tunnelled p (net_step nets op e)" for p e
    using tunnelled_keep by blast
  show ?thesis
    using i k VeNet by (auto simp: sys_inv_def Let_def hold_ok_def kill_switch_on_def tun_ok_def)
next
  case (VeBackstop p)
  with i show ?thesis
    by (auto simp: sys_inv_def Let_def on_tunnel_state_def ut_backstop_def tun_ok_def debt_ok_def
        ut_owes_def)
next
  case (VeKillTimer p)
  with i show ?thesis
    by (auto simp: sys_inv_def Let_def on_tunnel_state_def ut_killTimer_def tun_ok_def debt_ok_def
        ut_owes_def)
qed (use i in \<open>simp_all add: inv_connectProfile inv_disconnect inv_connectLastUsed inv_remove
       inv_import inv_onRetryTimer inv_finish\<close>)

section \<open>Runs\<close>

type_synonym VpnRun = "(int \<times> VpnEvent) list"

fun vpn_run :: "NetIf list \<Rightarrow> VpnRun \<Rightarrow> VpnSystem \<Rightarrow> VpnSystem" where
  "vpn_run nets [] s = s"
| "vpn_run nets ((now, ev) # es) s = vpn_run nets es (vpn_event nets now ev s)"

fun honest_vpn_run :: "NetIf list \<Rightarrow> VpnRun \<Rightarrow> VpnSystem \<Rightarrow> bool" where
  "honest_vpn_run nets [] s \<longleftrightarrow> True"
| "honest_vpn_run nets ((now, ev) # es) s \<longleftrightarrow>
     vpn_honest ev s \<and> honest_vpn_run nets es (vpn_event nets now ev s)"

text \<open>The manager as the app makes it: on the stored files, with a tunnel that is down.\<close>

definition fresh_vpn ::
  "bool \<Rightarrow> string \<Rightarrow> (string \<Rightarrow> string option) \<Rightarrow> (string \<times> string) list option
     \<Rightarrow> (string \<Rightarrow> string option) \<Rightarrow> UserspaceWgTunnel VpnManager" where
  "fresh_vpn helper dir files index settings =
     mkVpnManager (mkUserspace helper) dir files index settings"

lemma vpn_run_inv: "sys_inv s \<Longrightarrow> honest_vpn_run nets es s \<Longrightarrow> sys_inv (vpn_run nets es s)"
  by (induction nets es s rule: vpn_run.induct) (auto intro: vpn_event_inv)

lemma launch_inv: "sys_inv (vpn_launch nets (fresh_vpn helper dir files ix st) e hold ks auto)"
proof -
  have "vm_state (fresh_vpn helper dir files ix st) = VpnDisconnected"
    "vm_tunnel (fresh_vpn helper dir files ix st) = mkUserspace helper"
    "\<not> vm_userDown (fresh_vpn helper dir files ix st)"
    by (simp_all add: fresh_vpn_def mkVpnManager_def vm_load_def split: option.split)
  moreover have "tun_ok (mkUserspace helper)" by (simp add: tun_ok_def mkUserspace_def)
  ultimately show ?thesis
    using startEngine_tunnelled [of hold ks e]
    by (auto simp: vpn_launch_def wireSocks_def Let_def sys_inv_def hold_ok_def debt_ok_def
        kill_switch_on_def sendProxy_def split: option.splits intro!: exI [of _ 1])
qed


section \<open>No leak until the person asks\<close>

definition held :: "VpnSystem \<Rightarrow> bool" where
  "held s \<longleftrightarrow> vs_hold s \<and> kill_switch_on s \<and> \<not> vm_userDown (vs_vpn s)"

text \<open>Events that are not the person letting go.\<close>

fun lets_go :: "VpnEvent \<Rightarrow> bool" where
  "lets_go VeDisconnect = True"
| "lets_go (VeRemove ident) = True"
| "lets_go (VeKillSwitch b) = True"
| "lets_go _ = False"

lemma held_quiet:
  assumes "held s" "filter loud (vm_signals (f ((vs_vpn s)\<lparr>vm_signals := []\<rparr>))) = []"
    and "vm_userDown (f ((vs_vpn s)\<lparr>vm_signals := []\<rparr>)) = vm_userDown (vs_vpn s)"
  shows "held (with_vpn nets f s)"
  using assms by (simp add: held_def with_vpn_loud kill_switch_on_def)

lemma connectProfile_userDown [simp]:
  "vm_userDown (connectProfile ops ident m) = vm_userDown m"
  by (rule connectProfile_cases [of m ops ident]) simp_all

lemma retry_userDown [simp]: "vm_userDown (onRetryTimer ops m) = vm_userDown m"
  by (simp add: onRetryTimer_def Let_def)

lemma last_userDown [simp]: "vm_userDown (connectLastUsed ops m) = vm_userDown m"
  by (simp add: connectLastUsed_def Let_def)

lemma retry_quiet: "filter loud (vm_signals (onRetryTimer ops m)) = filter loud (vm_signals m)"
  by (simp add: onRetryTimer_def Let_def connectProfile_quiet)

lemma last_quiet: "filter loud (vm_signals (connectLastUsed ops m)) = filter loud (vm_signals m)"
  by (simp add: connectLastUsed_def Let_def connectProfile_quiet)

lemma held_signal:
  assumes h: "held s"
  shows "held (with_vpn nets (onTunnel userspace_ops now sg) s)"
proof (cases sg)
  case (TunConnected iface)
  show ?thesis
  proof (cases "vm_state (vs_vpn s) = VpnConnecting")
    case True
    let ?m = "onConnected userspace_ops iface ((vs_vpn s)\<lparr>vm_signals := []\<rparr>)"
    have u: "vm_userDown ?m = vm_userDown (vs_vpn s)"
      using True onConnected_sel(2) [of "(vs_vpn s)\<lparr>vm_signals := []\<rparr>" userspace_ops iface] by simp
    have e: "with_vpn nets (onTunnel userspace_ops now sg) s =
        vs_slot nets (InterfaceUp iface) (s\<lparr>vs_vpn := ?m\<rparr>)"
      using True TunConnected by (simp only: with_vpn_loud onTunnel.simps onConnected_loud) simp
    have k: "kill_switch_on (vs_slot nets (InterfaceUp iface) (s\<lparr>vs_vpn := ?m\<rparr>)) = kill_switch_on s"
      by (simp add: kill_switch_on_def del: vs_slot.simps)
    have "vs_hold (vs_slot nets (InterfaceUp iface) (s\<lparr>vs_vpn := ?m\<rparr>))"
      using h by (simp add: held_def)
    then show ?thesis using h u k unfolding e held_def slot_frame by simp
  next
    case False
    then show ?thesis
      using TunConnected by (intro held_quiet [OF h]) (simp_all add: onConnected_sel)
  qed
next
  case (TunForwardedPort p)
  have "held (vs_slot nets ForwardedPortChanged s')" if "held s'" for s'
    using that by (simp add: held_def sendAnnounce_def kill_switch_on_def)
  then show ?thesis
    using h unfolding TunForwardedPort fwd_cases Let_def
    by (auto simp: held_def kill_switch_on_def simp del: vs_slot.simps)
next
  case TunDisconnected
  then show ?thesis
    using h by (simp add: with_vpn_loud onDisconnected_loud held_def kill_switch_on_def sendProxy_def)
next
  case (TunFailed why)
  then show ?thesis
    using h by (simp add: with_vpn_loud onFailed_loud held_def kill_switch_on_def sendProxy_def)
qed

lemma held_tunnel:
  assumes "held s" shows "held (with_tunnel nets now g s)"
proof -
  have f: "held (fold (\<lambda>sg. with_vpn nets (onTunnel userspace_ops now sg)) sgs x)" if "held x" for sgs x
    using that by (induction sgs arbitrary: x) (simp_all add: held_signal)
  show ?thesis
    using assms f by (simp add: with_tunnel_def held_def kill_switch_on_def split: prod.split)
qed

lemma held_event:
  assumes h: "held s" and g: "\<not> lets_go ev"
  shows "held (vpn_event nets now ev s)"
proof (cases ev)
  case (VeEngineRestart e)
  have "held (sendProxy nets p a b x)" "held (sendTunnel nets x)" if "held x" for p a b x
    using that by (auto simp: held_def sendProxy_def sendTunnel_def sendAnnounce_def
        kill_switch_on_def Let_def split: option.splits)
  moreover have "held (s\<lparr>vs_eng := e'\<rparr>)" for e'
    using h by (simp add: held_def kill_switch_on_def)
  ultimately show ?thesis using VeEngineRestart by (simp add: resync_def)
next
  case (VeImport ident name conf)
  then show ?thesis
    by (simp, intro held_quiet [OF h]) (simp_all add: importConfig_def Let_def saveIndex_def)
qed (use h g in \<open>simp_all add: held_quiet held_tunnel connectProfile_quiet retry_quiet last_quiet
       on_tunnel_state_def\<close>, (simp add: held_def kill_switch_on_def)+)

lemma held_run:
  "held s \<Longrightarrow> list_all (\<lambda>(now, ev). \<not> lets_go ev) es \<Longrightarrow> held (vpn_run nets es s)"
  by (induction nets es s rule: vpn_run.induct) (auto intro: held_event)


section \<open>Disconnect is final\<close>

text \<open>Nothing of the app's own will bring the tunnel up again.\<close>

definition let_go :: "VpnSystem \<Rightarrow> bool" where
  "let_go s \<longleftrightarrow>
     (let m = vs_vpn s in \<not> vm_keepUp m \<and> \<not> vm_retryTimer m
       \<and> (vm_state m = VpnConnecting \<or> vm_state m = VpnConnected \<longrightarrow> \<not> ut_live (vm_tunnel m)))"

fun asks_connect :: "VpnEvent \<Rightarrow> bool" where
  "asks_connect (VeConnect ident) = True"
| "asks_connect VeAutoConnect = True"
| "asks_connect _ = False"

text \<open>The state only falls, and no helper is started.\<close>

definition falls :: "VpnSystem \<Rightarrow> VpnSystem \<Rightarrow> bool" where
  "falls s s' \<longleftrightarrow> ut_starts (vm_tunnel (vs_vpn s')) = ut_starts (vm_tunnel (vs_vpn s))
     \<and> (vm_state (vs_vpn s') = vm_state (vs_vpn s)
        \<or> vm_state (vs_vpn s') = VpnDisconnected \<or> vm_state (vs_vpn s') = VpnFailed)"

lemma falls_trans: "falls s t \<Longrightarrow> falls t u \<Longrightarrow> falls s u"
  by (auto simp: falls_def)

lemma falls_refl: "falls s s"
  by (simp add: falls_def)

lemma disconnect_lets_go:
  "let_go (with_vpn nets (disconnectVpn userspace_ops) s)
   \<and> falls s (with_vpn nets (disconnectVpn userspace_ops) s)"
  using userspace.down_not_live [of "vm_tunnel (vs_vpn s)"]
  by (auto simp: let_go_def falls_def disconnectVpn_def Let_def)

lemma let_go_quiet:
  assumes "let_go s" and "let m = vs_vpn s; m' = f (m\<lparr>vm_signals := []\<rparr>) in
      vm_state m' = vm_state m \<and> vm_tunnel m' = vm_tunnel m \<and> vm_keepUp m' = vm_keepUp m
      \<and> vm_retryTimer m' = vm_retryTimer m"
  shows "let_go (with_vpn nets f s) \<and> falls s (with_vpn nets f s)"
  using assms by (simp add: let_go_def falls_def Let_def)

lemma remove_lets_go:
  assumes "let_go s"
  shows "let_go (with_vpn nets (removeProfile userspace_ops True ident) s)
    \<and> falls s (with_vpn nets (removeProfile userspace_ops True ident) s)"
proof -
  have sv: "vm_state (saveIndex w m) = vm_state m" "vm_tunnel (saveIndex w m) = vm_tunnel m"
    "vm_keepUp (saveIndex w m) = vm_keepUp m" "vm_retryTimer (saveIndex w m) = vm_retryTimer m"
    for w and m :: "UserspaceWgTunnel VpnManager"
    by (simp_all add: saveIndex_def)
  show ?thesis
    using assms disconnect_lets_go [of nets s]
    by (auto simp: let_go_def falls_def removeProfile_def Let_def sv split: option.split)
qed

text \<open>A signal, from a tunnel that is not live if it reports a connection.\<close>

lemma signal_lets_go:
  assumes g: "let_go s"
    and c: "\<And>i. sg = TunConnected i \<Longrightarrow> ut_live (vm_tunnel (vs_vpn s))"
  shows "let_go (with_vpn nets (onTunnel userspace_ops now sg) s)
    \<and> falls s (with_vpn nets (onTunnel userspace_ops now sg) s)"
proof (cases sg)
  case (TunConnected i)
  with c g have "vm_state (vs_vpn s) \<noteq> VpnConnecting" "vm_state (vs_vpn s) \<noteq> VpnConnected"
    by (auto simp: let_go_def Let_def)
  with g TunConnected show ?thesis
    by (simp add: let_go_def falls_def onConnected_sel Let_def)
next
  case (TunForwardedPort p)
  have "vm_keepUp (onForwardedPort p m) = vm_keepUp m"
    "vm_retryTimer (onForwardedPort p m) = vm_retryTimer m" for m :: "UserspaceWgTunnel VpnManager"
    by (simp_all add: onForwardedPort_def)
  with g TunForwardedPort show ?thesis by (simp add: let_go_def falls_def Let_def)
next
  case TunDisconnected
  with g show ?thesis by (simp add: let_go_def falls_def onDisconnected_def Let_def)
next
  case (TunFailed why)
  with g show ?thesis by (simp add: let_go_def falls_def onFailed_def Let_def)
qed

lemma signals_let_go:
  assumes "let_go s" "\<forall>sg \<in> set sgs. \<forall>i. sg \<noteq> TunConnected i"
  shows "let_go (fold (\<lambda>sg. with_vpn nets (onTunnel userspace_ops now sg)) sgs s)
    \<and> falls s (fold (\<lambda>sg. with_vpn nets (onTunnel userspace_ops now sg)) sgs s)"
  using assms
proof (induction sgs arbitrary: s)
  case Nil
  then show ?case by (simp add: falls_refl)
next
  case (Cons sg sgs)
  have 1: "let_go (with_vpn nets (onTunnel userspace_ops now sg) s)
      \<and> falls s (with_vpn nets (onTunnel userspace_ops now sg) s)"
    using Cons.prems by (intro signal_lets_go) auto
  then show ?case using Cons falls_trans by (simp, blast)
qed

lemma line_lets_go:
  assumes g: "let_go s" and p: "ut_proc (vm_tunnel (vs_vpn s)) \<noteq> None"
  shows "let_go (with_tunnel nets now (ut_event ev) s)
    \<and> falls s (with_tunnel nets now (ut_event ev) s)"
proof -
  let ?t = "vm_tunnel (vs_vpn s)"
  let ?s = "s\<lparr>vs_vpn := (vs_vpn s)\<lparr>vm_tunnel := fst (ut_event ev ?t)\<rparr>\<rparr>"
  have s: "let_go ?s" "falls s ?s"
    using g by (simp_all add: let_go_def falls_def Let_def ut_live_def)
  have w: "with_tunnel nets now (ut_event ev) s =
      fold (\<lambda>sg. with_vpn nets (onTunnel userspace_ops now sg)) (snd (ut_event ev ?t)) ?s"
    by (rule with_tunnel_fold) simp
  show ?thesis
  proof (cases "\<exists>i. snd (ut_event ev ?t) = [TunConnected i]")
    case True
    then obtain i where c: "snd (ut_event ev ?t) = [TunConnected i]" by blast
    then have "\<not> ut_stopping ?t" using ut_event_connected [of i ev ?t] by simp
    then have "ut_live (vm_tunnel (vs_vpn ?s))" using p by (simp add: ut_live_def)
    then have "let_go (with_vpn nets (onTunnel userspace_ops now (TunConnected i)) ?s)
        \<and> falls ?s (with_vpn nets (onTunnel userspace_ops now (TunConnected i)) ?s)"
      by (intro signal_lets_go s)
    then show ?thesis unfolding w c using s(2) by (auto intro: falls_trans)
  next
    case False
    then have "\<forall>sg \<in> set (snd (ut_event ev ?t)). \<forall>i. sg \<noteq> TunConnected i"
      by (cases ev) (auto simp: Let_def split: if_splits)
    then show ?thesis unfolding w using signals_let_go [OF s(1)] s(2) falls_trans by blast
  qed
qed

lemma finish_lets_go:
  assumes g: "let_go s"
  shows "let_go (with_tunnel nets now (ut_finish why) s)
    \<and> falls s (with_tunnel nets now (ut_finish why) s)"
proof -
  let ?t = "vm_tunnel (vs_vpn s)"
  let ?s = "s\<lparr>vs_vpn := (vs_vpn s)\<lparr>vm_tunnel := fst (ut_finish why ?t)\<rparr>\<rparr>"
  have s: "let_go ?s" "falls s ?s"
    using g by (auto simp: let_go_def falls_def Let_def ut_live_def ut_finish_def)
  have w: "with_tunnel nets now (ut_finish why) s =
      fold (\<lambda>sg. with_vpn nets (onTunnel userspace_ops now sg)) (snd (ut_finish why ?t)) ?s"
    by (rule with_tunnel_fold) simp
  have "\<forall>sg \<in> set (snd (ut_finish why ?t)). \<forall>i. sg \<noteq> TunConnected i"
    by (auto simp: ut_finish_def split: if_splits)
  then show ?thesis unfolding w using signals_let_go [OF s(1)] s(2) falls_trans by blast
qed

lemma posted_lets_go:
  assumes g: "let_go s" and i: "sys_inv s"
  shows "let_go (vpn_event nets now VePosted s) \<and> falls s (vpn_event nets now VePosted s)"
proof (cases "ut_posted (vm_tunnel (vs_vpn s))")
  case Nil
  then show ?thesis using g by (simp add: with_tunnel_def falls_refl)
next
  case (Cons sg sgs)
  let ?s = "s\<lparr>vs_vpn := (vs_vpn s)\<lparr>vm_tunnel := (vm_tunnel (vs_vpn s))\<lparr>ut_posted := sgs\<rparr>\<rparr>\<rparr>"
  have s: "let_go ?s" "falls s ?s"
    using g by (simp_all add: let_go_def falls_def Let_def ut_live_def)
  have "sg = TunDisconnected \<or> (\<exists>why. sg = TunFailed why)"
    using i Cons by (simp add: sys_inv_def Let_def tun_ok_def)
  then have "let_go (with_vpn nets (onTunnel userspace_ops now sg) ?s)
      \<and> falls ?s (with_vpn nets (onTunnel userspace_ops now sg) ?s)"
    by (intro signal_lets_go s) auto
  then show ?thesis using Cons s(2) by (auto simp: with_tunnel_def intro: falls_trans)
qed

lemma eng_lets_go:
  assumes "let_go s" "vs_vpn s' = vs_vpn s"
  shows "let_go s' \<and> falls s s'"
  using assms by (simp add: let_go_def falls_def)

lemma resync_vpn [simp]: "vs_vpn (resync nets s) = vs_vpn s"
  by (simp add: resync_def sendProxy_def sendTunnel_def sendAnnounce_def Let_def split: option.split)

lemma event_lets_go:
  assumes g: "let_go s" and i: "sys_inv s" and a: "\<not> asks_connect ev"
  shows "let_go (vpn_event nets now ev s) \<and> falls s (vpn_event nets now ev s)"
proof (cases ev)
  case VeExit
  have "with_tunnel nets now (\<lambda>t. ut_finish (ut_exitText t) t) s =
      with_tunnel nets now (ut_finish (ut_exitText (vm_tunnel (vs_vpn s)))) s"
    by (simp add: with_tunnel_def)
  with VeExit show ?thesis using finish_lets_go [OF g] by simp
next
  case VePosted
  with posted_lets_go [OF g i] show ?thesis by metis
next
  case VeRetryTimer
  have "\<not> vm_retryTimer (vs_vpn s)" using g by (simp add: let_go_def Let_def)
  then show ?thesis
    using VeRetryTimer by (simp, intro let_go_quiet [OF g]) (simp add: onRetryTimer_def)
next
  case (VeImport ident name conf)
  then show ?thesis
    by (simp, intro let_go_quiet [OF g]) (simp add: importConfig_def Let_def saveIndex_def)
next
  case (VeLine e)
  then show ?thesis using line_lets_go [OF g] g by (simp add: falls_refl)
next
  case (VeBackstop p)
  then show ?thesis
    using g by (auto simp: let_go_def falls_def on_tunnel_state_def ut_backstop_def Let_def ut_live_def)
next
  case (VeKillTimer p)
  then show ?thesis
    using g by (auto simp: let_go_def falls_def on_tunnel_state_def ut_killTimer_def Let_def ut_live_def)
next
  case VeDisconnect
  then show ?thesis using disconnect_lets_go by simp
next
  case (VeRemove ident)
  then show ?thesis using remove_lets_go [OF g] by simp
next
  case VeStartFailed
  then show ?thesis using finish_lets_go [OF g] by simp
next
  case (VeKillSwitch b)
  then show ?thesis using eng_lets_go [OF g] by simp
next
  case (VeEngineRestart e)
  then show ?thesis using eng_lets_go [OF g] by simp
next
  case (VeNet op)
  then show ?thesis using eng_lets_go [OF g] by simp
qed (use a in simp_all)

lemma run_lets_go:
  "let_go s \<Longrightarrow> sys_inv s \<Longrightarrow> honest_vpn_run nets es s \<Longrightarrow>
     list_all (\<lambda>(now, ev). \<not> asks_connect ev) es \<Longrightarrow>
     let_go (vpn_run nets es s) \<and> falls s (vpn_run nets es s)"
proof (induction nets es s rule: vpn_run.induct)
  case (1 nets s)
  then show ?case by (simp add: falls_refl)
next
  case (2 nets now ev es s)
  have "let_go (vpn_event nets now ev s) \<and> falls s (vpn_event nets now ev s)"
    using 2 by (intro event_lets_go) auto
  moreover have "sys_inv (vpn_event nets now ev s)"
    using 2 vpn_event_inv by simp
  ultimately show ?case using 2 falls_trans by (simp, blast)
qed


section \<open>A drop\<close>

text \<open>
  when the helper dies under a connected VPN that the person wants up, the VPN shows as failed
  with the reason, the session is pointed at a proxy that is not there with the hold kept if the
  kill switch is on and released if it is off, and a retry is scheduled unless the failure is final;
  a disconnect then lifts the hold at once.
\<close>

theorem drop_holds_until_disconnect:
  assumes "honest_vpn_run nets es0 (vpn_launch nets (fresh_vpn helper dir files ix st) e hold ks auto)"
    and "s = vpn_run nets es0 (vpn_launch nets (fresh_vpn helper dir files ix st) e hold ks auto)"
    and "vm_state (vs_vpn s) = VpnConnected" "\<not> ut_stopping (vm_tunnel (vs_vpn s))"
    and "vm_keepUp (vs_vpn s)"
    and "s1 = vpn_event nets now VeExit s" and "s2 = vpn_event nets now' VeDisconnect s1"
  shows "vm_state (vs_vpn s1) = VpnFailed
     \<and> vm_error (vs_vpn s1) = ut_exitText (vm_tunnel (vs_vpn s))
     \<and> vs_hold s1 = kill_switch_on s
     \<and> sn_vpnProxyPort (vs_eng s1) = (if kill_switch_on s then 1 else 0)
     \<and> vm_retryTimer (vs_vpn s1) = (vm_retryTimer (vs_vpn s) \<or> \<not> ut_final (vm_tunnel (vs_vpn s)))
     \<and> vm_state (vs_vpn s2) = VpnDisconnected \<and> \<not> vs_hold s2
     \<and> sn_vpnProxyPort (vs_eng s2) = 0 \<and> \<not> vm_retryTimer (vs_vpn s2)"
proof -
  let ?t = "vm_tunnel (vs_vpn s)"
  let ?x = "s\<lparr>vs_vpn := (vs_vpn s)\<lparr>vm_tunnel := fst (ut_finish (ut_exitText ?t) ?t)\<rparr>\<rparr>"
  have i: "sys_inv s" using vpn_run_inv [OF launch_inv assms(1)] assms(2) by simp
  have p: "ut_proc ?t \<noteq> None" "vs_hold s"
    using i assms(3) by (simp_all add: sys_inv_def Let_def tun_ok_def)
  have e: "s1 = fold (\<lambda>sg. with_vpn nets (onTunnel userspace_ops now sg))
      ((if ut_fwd ?t \<noteq> 0 then [TunForwardedPort 0] else []) @ [TunFailed (ut_exitText ?t)]) ?x"
    using p assms(4,6) by (auto simp: with_tunnel_def ut_finish_def)
  define y where "y = (if ut_fwd ?t \<noteq> 0
      then with_vpn nets (onTunnel userspace_ops now (TunForwardedPort 0)) ?x else ?x)"
  have s1: "s1 = with_vpn nets (onTunnel userspace_ops now (TunFailed (ut_exitText ?t))) y"
    unfolding e y_def by simp
  have fin: "ut_final (fst (ut_finish (ut_exitText ?t) ?t)) = ut_final ?t"
    by (simp add: ut_finish_def)
  have fp: "vm_keepUp (onForwardedPort q m) = vm_keepUp m"
    "vm_retryTimer (onForwardedPort q m) = vm_retryTimer m" for q and m :: "UserspaceWgTunnel VpnManager"
    by (simp_all add: onForwardedPort_def)
  have y: "vs_hold y" "kill_switch_on y = kill_switch_on s" "vm_keepUp (vs_vpn y)"
    "vm_retryTimer (vs_vpn y) = vm_retryTimer (vs_vpn s)"
    "ut_final (vm_tunnel (vs_vpn y)) = ut_final ?t"
    using p assms(5) fin
    by (auto simp: y_def kill_switch_on_def fp fwd_cases Let_def sendAnnounce_def)
  have er: "vm_error (onFailed userspace_ops now why m) = why" for why and m :: "UserspaceWgTunnel VpnManager"
    by (simp add: onFailed_def scheduleRetry_def Let_def clearActiveTunnel_def)
  have rt: "vm_retryTimer (onFailed userspace_ops now why m) =
      (vm_retryTimer m \<or> vm_keepUp m \<and> \<not> ut_final (vm_tunnel m))" for why m
    by (auto simp: onFailed_def scheduleRetry_def Let_def userspace_ops_def)
  have on1: "sn_vpnProxyPort (setVpnProxy nets 1 [] [] x) = 1" for x
    using setVpnProxy_tunnels [of 1] by (simp add: tunnelled_def)
  have r1: "vm_state (vs_vpn s1) = VpnFailed" "vm_error (vs_vpn s1) = ut_exitText ?t"
    "vs_hold s1 = kill_switch_on s"
    "sn_vpnProxyPort (vs_eng s1) = (if kill_switch_on s then 1 else 0)"
    "vm_retryTimer (vs_vpn s1) = (vm_retryTimer (vs_vpn s) \<or> \<not> ut_final ?t)"
  proof -
    have k: "kill_switch_on (y\<lparr>vs_vpn := m\<rparr>) = kill_switch_on s" for m
      using y(2) by (simp add: kill_switch_on_def)
    show "vm_state (vs_vpn s1) = VpnFailed" "vm_error (vs_vpn s1) = ut_exitText ?t"
      "vm_retryTimer (vs_vpn s1) = (vm_retryTimer (vs_vpn s) \<or> \<not> ut_final ?t)"
      using y by (simp_all add: s1 er rt)
    show "vs_hold s1 = kill_switch_on s"
      "sn_vpnProxyPort (vs_eng s1) = (if kill_switch_on s then 1 else 0)"
      using y(1) by (simp_all add: s1 with_vpn_loud onFailed_loud k sendProxy_def on1 vpn_proxy_off)
  qed
  have "s2 = vs_slot nets (InterfaceDown True)
      (s1\<lparr>vs_vpn := disconnectVpn userspace_ops ((vs_vpn s1)\<lparr>vm_signals := []\<rparr>)\<rparr>)"
    using r1(1) assms(7) by (simp add: with_vpn_loud disconnectVpn_loud)
  then have r2: "\<not> vs_hold s2" "sn_vpnProxyPort (vs_eng s2) = 0"
    "vs_vpn s2 = disconnectVpn userspace_ops ((vs_vpn s1)\<lparr>vm_signals := []\<rparr>)"
    using vpn_proxy_off by (simp_all add: sendProxy_def)
  have "vm_state (disconnectVpn userspace_ops ((vs_vpn s1)\<lparr>vm_signals := []\<rparr>)) = VpnDisconnected"
    using r1(1) by (simp add: disconnectVpn_def Let_def)
  then show ?thesis using r1 r2 by simp
qed

section \<open>Concrete runs\<close>

definition sample_launch :: VpnSystem where
  "sample_launch = vpn_launch [] (fresh_vpn True ''vpn'' [''vpn/p1.conf'' \<mapsto> sample_conf]
     (Some [(''p1'', ''Home'')]) (\<lambda>_. None)) sample_net False None False"

definition sample_up :: VpnRun where
  "sample_up = [(0, VeConnect ''p1''), (5, VeLine (EvReady 40123 ''u'' ''p'' ''10.2.0.2''))]"

lemma launch_vpn [simp]:
  "vs_vpn (vpn_launch nets m e hold ks auto) = m"
  "vs_killSwitch (vpn_launch nets m e hold ks auto) = ks"
  by (simp_all add: vpn_launch_def wireSocks_def Let_def sendProxy_def)

lemma fresh_vpn_sel:
  "vm_state (fresh_vpn helper dir files ix st) = VpnDisconnected"
  "vm_tunnel (fresh_vpn helper dir files ix st) = mkUserspace helper"
  "vm_files (fresh_vpn helper dir files ix st) = files"
  "vm_dir (fresh_vpn helper dir files ix st) = dir"
  "\<not> vm_userDown (fresh_vpn helper dir files ix st)"
  by (simp_all add: fresh_vpn_def mkVpnManager_def vm_load_def split: option.split)

lemma fresh_vpn_one:
  assumes "ident \<noteq> []" "files (dir @ ''/'' @ ident @ ''.conf'') = Some conf"
  shows "indexOf (fresh_vpn helper dir files (Some [(ident, name)]) st) ident = Some 0"
  using assms
  by (simp add: fresh_vpn_def mkVpnManager_def vm_load_def indexOf_def load_profile_def confPath_def
      map_filter_simps Let_def)

abbreviation sample_m0 :: "UserspaceWgTunnel VpnManager" where
  "sample_m0 \<equiv> (vs_vpn sample_launch)\<lparr>vm_signals := []\<rparr>"

lemma sample_m0_sel:
  "vm_state sample_m0 = VpnDisconnected" "vm_tunnel sample_m0 = mkUserspace True"
  "vm_files sample_m0 (confPath sample_m0 ''p1'') = Some sample_conf" "\<not> vm_userDown sample_m0"
  "indexOf sample_m0 ''p1'' = Some 0" "vs_killSwitch sample_launch = None"
proof -
  show "indexOf sample_m0 ''p1'' = Some 0"
    using fresh_vpn_one [of "''p1''" "[''vpn/p1.conf'' \<mapsto> sample_conf]" "''vpn''" sample_conf True
        "''Home''" "\<lambda>_. None"]
    by (simp add: sample_launch_def indexOf_def)
qed (simp_all add: sample_launch_def fresh_vpn_sel confPath_def)

lemma sample_connecting:
  "vm_state (connectProfile userspace_ops ''p1'' sample_m0) = VpnConnecting
   \<and> vm_tunnel (connectProfile userspace_ops ''p1'' sample_m0) =
       ut_up (confPath sample_m0 ''p1'') (Some sample_conf) (parseWireguardConfig sample_conf)
         (mkUserspace True)
   \<and> \<not> vm_userDown (connectProfile userspace_ops ''p1'' sample_m0)"
proof -
  have v: "wg_valid (parseWireguardConfig sample_conf)"
    unfolding sample_conf_def sample_config_parsed by (simp add: sample_config_def)
  show ?thesis
  proof (rule connectProfile_cases [of sample_m0 userspace_ops "''p1''"])
    fix why
    assume "connectProfile userspace_ops ''p1'' sample_m0 =
        vm_refuse why (stopRetry sample_m0\<lparr>vm_retryId := ''p1''\<rparr>)"
    moreover have "vm_state (connectProfile userspace_ops ''p1'' sample_m0) = VpnConnecting"
      using v sample_m0_sel by (simp add: connectProfile_def Let_def indexOf_def confPath_def)
    ultimately show ?thesis by simp
  qed (use sample_m0_sel in simp_all)
qed

lemma sample_up_tunnel:
  "ut_proc (ut_up path (Some conf) cfg (mkUserspace True)) = Some 0"
  "\<not> ut_stopping (ut_up path (Some conf) cfg (mkUserspace True))"
  "\<not> ut_ready (ut_up path (Some conf) cfg (mkUserspace True))"
  by (simp_all add: ut_up_def mkUserspace_def)

lemma sample_honest: "honest_vpn_run [] sample_up sample_launch"
  using sample_connecting sample_up_tunnel by (simp add: sample_up_def)

lemma sample_connected:
  "vm_state (vs_vpn (vpn_run [] sample_up sample_launch)) = VpnConnected
   \<and> vm_keepUp (vs_vpn (vpn_run [] sample_up sample_launch))
   \<and> \<not> vm_userDown (vs_vpn (vpn_run [] sample_up sample_launch))
   \<and> \<not> ut_stopping (vm_tunnel (vs_vpn (vpn_run [] sample_up sample_launch)))
   \<and> kill_switch_on (vpn_run [] sample_up sample_launch)"
proof -
  let ?c = "connectProfile userspace_ops ''p1'' sample_m0"
  let ?s = "with_vpn [] (connectProfile userspace_ops ''p1'') sample_launch"
  let ?t = "fst (ut_event (EvReady 40123 ''u'' ''p'' ''10.2.0.2'') (vm_tunnel ?c))"
  have c: "vm_state ?c = VpnConnecting" "ut_proc (vm_tunnel ?c) = Some 0"
    "\<not> ut_stopping (vm_tunnel ?c)" "\<not> vm_userDown ?c"
    using sample_connecting sample_up_tunnel by simp_all
  have e: "vpn_run [] sample_up sample_launch =
      with_vpn [] (onTunnel userspace_ops 5 (TunConnected (ut_interfaceName ?t)))
        (?s\<lparr>vs_vpn := ?c\<lparr>vm_tunnel := ?t\<rparr>\<rparr>)"
    using c by (simp add: sample_up_def with_tunnel_def Let_def)
  show ?thesis
    using c sample_m0_sel(6)
    by (simp add: e kill_switch_on_def) (simp add: onConnected_def Let_def)
qed




theorem drop_holds_until_disconnect_witness:
  "sn_vpnProxyPort (vs_eng (vpn_event [] 10 VeExit (vpn_run [] sample_up sample_launch))) = 1"
  using drop_holds_until_disconnect [where now = 10 and now' = 11,
      OF sample_honest [unfolded sample_launch_def] refl _ _ _ refl refl]
    sample_connected unfolding sample_launch_def by simp

end
