(* ===== verification/SessionConfig.thy ===== *)
theory SessionConfig
  imports SessionNetwork
begin

text \<open>
  The pure configuration helpers of the session (\<open>src/torrent/sessionconfig.cpp\<close>): the command run
  when a torrent completes and its quoting, the passwords to try on archives, the renaming of a
  torrent's files for a content layout, the advanced settings with their load, store and hand-over
  to libtorrent, and the files to leave out. Settings are maps from keys to the values of
  \<open>SpValue\<close>. What a regular expression matches is a parameter. \<open>sh_bare\<close> is what a POSIX shell
  reads outside quotes.
\<close>

section \<open>The command on completion\<close>

text \<open>\<open>QString::replace\<close> of a non-empty text: left to right, without looking at what it put in.\<close>

fun replace_all :: "string \<Rightarrow> string \<Rightarrow> string \<Rightarrow> string" where
  "replace_all before after [] = []"
| "replace_all before after (c # cs) =
     (if before \<noteq> [] \<and> starts_with before (c # cs)
      then after @ replace_all before after (drop (length before - 1) cs)
      else c # replace_all before after cs)"

definition shellQuote :: "string \<Rightarrow> string" where
  "shellQuote s =
     [CHR 0x27] @ replace_all [CHR 0x27] [CHR 0x27, CHR 0x5C, CHR 0x27, CHR 0x27] s @ [CHR 0x27]"

definition expandOnCompleteCommand ::
  "string \<Rightarrow> string \<Rightarrow> string \<Rightarrow> string \<Rightarrow> int \<Rightarrow> string" where
  "expandOnCompleteCommand tmpl name savePath hash totalSize =
     (let c1 = replace_all ''%N'' (shellQuote name) tmpl;
          c2 = replace_all ''%D'' (shellQuote savePath) c1;
          c3 = replace_all ''%H'' (shellQuote hash) c2;
          c4 = replace_all ''%Z'' (shellQuote (show_int totalSize)) c3
      in replace_all ''%F'' (shellQuote (savePath @ ''/'' @ name)) c4)"

section \<open>Small helpers\<close>

definition parseExtractPasswords :: "string \<Rightarrow> string list" where
  "parseExtractPasswords raw =
     filter (\<lambda>t. t \<noteq> []) (map trimmed (split_skip_empty CHR 0x0A
       (map (\<lambda>c. if c = CHR '';'' then CHR 0x0A else c) raw)))"

definition autoCompleteSecondsFromIndex :: "int \<Rightarrow> int" where
  "autoCompleteSecondsFromIndex index =
     (if index < 0 \<or> 6 \<le> index then 0 else [0, 1, 3, 7, 14, 30] ! nat index * 86400)"

definition portStatusCode :: "bool \<Rightarrow> bool \<Rightarrow> int" where
  "portStatusCode listenOk portmapOk = (if \<not> listenOk then 3 else if portmapOk then 1 else 2)"

text \<open>The plan maps file indices to new paths.\<close>

definition planContentLayout :: "int \<Rightarrow> string \<Rightarrow> string list \<Rightarrow> (nat \<times> string) list" where
  "planContentLayout mode torrentName filePaths =
     (if filePaths = [] \<or> mode = 0 then []
      else if mode = 2 then
        (let root = hd filePaths in
         if CHR ''/'' \<notin> set root \<or> length filePaths \<le> 1 then []
         else
           let prefix = before_first CHR ''/'' root @ ''/'' in
           if list_ex (\<lambda>p. \<not> starts_with prefix p) filePaths then []
           else zip [0..<length filePaths] (map (drop (length prefix)) filePaths))
      else if mode = 1 \<and> length filePaths = 1 then
        (if CHR ''/'' \<notin> set (hd filePaths) then [(0, torrentName @ ''/'' @ hd filePaths)] else [])
      else [])"

text \<open>\<open>regex\<close> compiles a pattern: \<open>None\<close> when it is not valid, else what it matches.\<close>

definition excludedFileIndexes ::
  "(string \<Rightarrow> (string \<Rightarrow> bool) option) \<Rightarrow> string list \<Rightarrow> string list \<Rightarrow> nat list" where
  "excludedFileIndexes regex patterns filePaths =
     (let regexes = List.map_filter regex (filter (\<lambda>t. t \<noteq> []) (map trimmed patterns))
      in filter (\<lambda>i. list_ex (\<lambda>re. re (filePaths ! i)) regexes) [0..<length filePaths])"

section \<open>Advanced settings\<close>

record AdvancedSettings =
  aioThreads :: int
  hashingThreads :: int
  filePoolSize :: int
  checkingMemUsage :: int
  diskIOReadMode :: int
  diskIOWriteMode :: int
  connectionsLimit :: int
  connectionSpeed :: int
  maxUploadsPerTorrent :: int
  maxConnectionsPerTorrent :: int
  unchokeSlotsLimit :: int
  chokingAlgorithm :: int
  seedChokingAlgorithm :: int
  sendBufferWatermark :: int
  outgoingPortMin :: int
  outgoingPortMax :: int
  rateLimitIpOverhead :: bool
  ignoreLimitsOnLAN :: bool

definition adv_default :: AdvancedSettings where
  "adv_default = \<lparr>aioThreads = 10, hashingThreads = 2, filePoolSize = 100,
     checkingMemUsage = 512, diskIOReadMode = 0, diskIOWriteMode = 0, connectionsLimit = 500,
     connectionSpeed = 30, maxUploadsPerTorrent = 4, maxConnectionsPerTorrent = 100,
     unchokeSlotsLimit = 20, chokingAlgorithm = 0, seedChokingAlgorithm = 0,
     sendBufferWatermark = 500, outgoingPortMin = 0, outgoingPortMax = 0,
     rateLimitIpOverhead = False, ignoreLimitsOnLAN = True\<rparr>"

text \<open>\<open>value(key, fallback).toInt()\<close> and \<open>.toBool()\<close>.\<close>

definition qs_int :: "SettingsPack \<Rightarrow> string \<Rightarrow> int \<Rightarrow> int" where
  "qs_int s k d =
     (case s k of None \<Rightarrow> d
      | Some (SpInt v) \<Rightarrow> v
      | Some (SpBool b) \<Rightarrow> (if b then 1 else 0)
      | Some (SpStr t) \<Rightarrow> to_int t)"

definition qs_bool :: "SettingsPack \<Rightarrow> string \<Rightarrow> bool \<Rightarrow> bool" where
  "qs_bool s k d =
     (case s k of None \<Rightarrow> d
      | Some (SpInt v) \<Rightarrow> v \<noteq> 0
      | Some (SpBool b) \<Rightarrow> b
      | Some (SpStr t) \<Rightarrow> to_lower t \<notin> {[], ''0'', ''false''})"

definition atLeastOne :: "int \<Rightarrow> int \<Rightarrow> int" where
  "atLeastOne v fallback = (if v < 1 then fallback else v)"

definition notZero :: "int \<Rightarrow> int \<Rightarrow> int" where
  "notZero v fallback = (if v = 0 then fallback else v)"

definition loadAdvanced :: "SettingsPack \<Rightarrow> AdvancedSettings" where
  "loadAdvanced s =
     \<lparr>aioThreads = atLeastOne (qs_int s ''adv/aioThreads'' 10) (aioThreads adv_default),
      hashingThreads = atLeastOne (qs_int s ''adv/hashingThreads'' 2) (hashingThreads adv_default),
      filePoolSize = atLeastOne (qs_int s ''adv/filePoolSize'' 100) (filePoolSize adv_default),
      checkingMemUsage =
        atLeastOne (qs_int s ''adv/checkingMemUsage'' 512) (checkingMemUsage adv_default),
      diskIOReadMode = qs_int s ''adv/diskIOReadMode'' 0,
      diskIOWriteMode = qs_int s ''adv/diskIOWriteMode'' 0,
      connectionsLimit =
        notZero (qs_int s ''adv/connectionsLimit'' 500) (connectionsLimit adv_default),
      connectionSpeed =
        atLeastOne (qs_int s ''adv/connectionSpeed'' 30) (connectionSpeed adv_default),
      maxUploadsPerTorrent =
        notZero (qs_int s ''adv/maxUploadsPerTorrent'' 4) (maxUploadsPerTorrent adv_default),
      maxConnectionsPerTorrent =
        notZero (qs_int s ''adv/maxConnectionsPerTorrent'' 100)
          (maxConnectionsPerTorrent adv_default),
      unchokeSlotsLimit =
        notZero (qs_int s ''adv/unchokeSlotsLimit'' 20) (unchokeSlotsLimit adv_default),
      chokingAlgorithm = qs_int s ''adv/chokingAlgorithm'' 0,
      seedChokingAlgorithm = qs_int s ''adv/seedChokingAlgorithm'' 0,
      sendBufferWatermark =
        atLeastOne (qs_int s ''adv/sendBufferWatermark'' 500) (sendBufferWatermark adv_default),
      outgoingPortMin = qs_int s ''adv/outgoingPortMin'' 0,
      outgoingPortMax = qs_int s ''adv/outgoingPortMax'' 0,
      rateLimitIpOverhead = qs_bool s ''adv/rateLimitIpOverhead'' False,
      ignoreLimitsOnLAN = qs_bool s ''adv/ignoreLimitsOnLAN'' True\<rparr>"

definition persistAdvanced :: "AdvancedSettings \<Rightarrow> SettingsPack \<Rightarrow> SettingsPack" where
  "persistAdvanced a s =
     s(''adv/aioThreads'' \<mapsto> SpInt (aioThreads a),
       ''adv/hashingThreads'' \<mapsto> SpInt (hashingThreads a),
       ''adv/filePoolSize'' \<mapsto> SpInt (filePoolSize a),
       ''adv/checkingMemUsage'' \<mapsto> SpInt (checkingMemUsage a),
       ''adv/diskIOReadMode'' \<mapsto> SpInt (diskIOReadMode a),
       ''adv/diskIOWriteMode'' \<mapsto> SpInt (diskIOWriteMode a),
       ''adv/connectionsLimit'' \<mapsto> SpInt (connectionsLimit a),
       ''adv/connectionSpeed'' \<mapsto> SpInt (connectionSpeed a),
       ''adv/maxUploadsPerTorrent'' \<mapsto> SpInt (maxUploadsPerTorrent a),
       ''adv/maxConnectionsPerTorrent'' \<mapsto> SpInt (maxConnectionsPerTorrent a),
       ''adv/unchokeSlotsLimit'' \<mapsto> SpInt (unchokeSlotsLimit a),
       ''adv/chokingAlgorithm'' \<mapsto> SpInt (chokingAlgorithm a),
       ''adv/seedChokingAlgorithm'' \<mapsto> SpInt (seedChokingAlgorithm a),
       ''adv/sendBufferWatermark'' \<mapsto> SpInt (sendBufferWatermark a),
       ''adv/outgoingPortMin'' \<mapsto> SpInt (outgoingPortMin a),
       ''adv/outgoingPortMax'' \<mapsto> SpInt (outgoingPortMax a),
       ''adv/rateLimitIpOverhead'' \<mapsto> SpBool (rateLimitIpOverhead a),
       ''adv/ignoreLimitsOnLAN'' \<mapsto> SpBool (ignoreLimitsOnLAN a))"

definition fillAdvancedPack :: "AdvancedSettings \<Rightarrow> SettingsPack \<Rightarrow> SettingsPack" where
  "fillAdvancedPack a pack =
     (let p = pack(''aio_threads'' \<mapsto> SpInt (aioThreads a),
            ''hashing_threads'' \<mapsto> SpInt (hashingThreads a),
            ''file_pool_size'' \<mapsto> SpInt (filePoolSize a),
            ''checking_mem_usage'' \<mapsto> SpInt (checkingMemUsage a),
            ''disk_io_read_mode'' \<mapsto> SpInt (diskIOReadMode a),
            ''disk_io_write_mode'' \<mapsto> SpInt (diskIOWriteMode a),
            ''connections_limit'' \<mapsto> SpInt (connectionsLimit a),
            ''connection_speed'' \<mapsto> SpInt (connectionSpeed a),
            ''unchoke_slots_limit'' \<mapsto> SpInt (unchokeSlotsLimit a),
            ''choking_algorithm'' \<mapsto> SpInt (chokingAlgorithm a),
            ''seed_choking_algorithm'' \<mapsto> SpInt (seedChokingAlgorithm a),
            ''send_buffer_watermark'' \<mapsto> SpInt (to_int32 (sendBufferWatermark a * 1024)),
            ''rate_limit_ip_overhead'' \<mapsto> SpBool (rateLimitIpOverhead a))
      in if 0 < outgoingPortMin a \<and> outgoingPortMin a \<le> outgoingPortMax a
         then p(''outgoing_port'' \<mapsto> SpInt (outgoingPortMin a),
                ''num_outgoing_ports'' \<mapsto> SpInt (outgoingPortMax a - outgoingPortMin a + 1))
         else p)"

definition patchAdvancedKey ::
  "AdvancedSettings \<Rightarrow> string \<Rightarrow> SpValue \<Rightarrow> AdvancedSettings option" where
  "patchAdvancedKey a key v =
     (let i = qs_int [key \<mapsto> v] key 0; b = qs_bool [key \<mapsto> v] key False in
      if key = ''advAioThreads'' then Some (a\<lparr>aioThreads := i\<rparr>)
      else if key = ''advHashingThreads'' then Some (a\<lparr>hashingThreads := i\<rparr>)
      else if key = ''advFilePool'' then Some (a\<lparr>filePoolSize := i\<rparr>)
      else if key = ''advCheckingMem'' then Some (a\<lparr>checkingMemUsage := i\<rparr>)
      else if key = ''advSendBuffer'' then Some (a\<lparr>sendBufferWatermark := i\<rparr>)
      else if key = ''advConnLimit'' then Some (a\<lparr>connectionsLimit := i\<rparr>)
      else if key = ''advConnSpeed'' then Some (a\<lparr>connectionSpeed := i\<rparr>)
      else if key = ''advUnchokeSlots'' then Some (a\<lparr>unchokeSlotsLimit := i\<rparr>)
      else if key = ''advMaxUploadsTor'' then Some (a\<lparr>maxUploadsPerTorrent := i\<rparr>)
      else if key = ''advMaxConnsTor'' then Some (a\<lparr>maxConnectionsPerTorrent := i\<rparr>)
      else if key = ''advChokingAlgo'' then Some (a\<lparr>chokingAlgorithm := (if i = 1 then 2 else 0)\<rparr>)
      else if key = ''advSeedChoking'' then Some (a\<lparr>seedChokingAlgorithm := i\<rparr>)
      else if key = ''advRateOverhead'' then Some (a\<lparr>rateLimitIpOverhead := b\<rparr>)
      else if key = ''advIgnoreLan'' then Some (a\<lparr>ignoreLimitsOnLAN := b\<rparr>)
      else None)"

definition setAdvancedSettings ::
  "AdvancedSettings \<Rightarrow> SettingsPack \<times> SessionNet \<Rightarrow> SettingsPack \<times> SessionNet" where
  "setAdvancedSettings a st =
     (persistAdvanced a (fst st), apply_settings (fillAdvancedPack a (\<lambda>_. None)) (snd st))"

section \<open>What the shell reads\<close>

text \<open>
  The characters a POSIX shell reads outside single quotes; a backslash outside quotes makes the
  next character literal. The flag says whether a single quote is open.
\<close>

fun sh_bare :: "bool \<Rightarrow> string \<Rightarrow> string" where
  "sh_bare q [] = []"
| "sh_bare True (c # cs) = (if c = CHR 0x27 then sh_bare False cs else sh_bare True cs)"
| "sh_bare False (c # cs) =
     (if c = CHR 0x27 then sh_bare True cs
      else if c = CHR 0x5C then sh_bare False (drop 1 cs)
      else c # sh_bare False cs)"

lemma sh_bare_escaped:
  "sh_bare True (replace_all [CHR 0x27] [CHR 0x27, CHR 0x5C, CHR 0x27, CHR 0x27] s @ rest) =
     sh_bare True rest"
  by (induction s) (simp_all add: starts_with_def)

text \<open>A quoted value is invisible to the shell's parser, whatever it holds.\<close>

lemma sh_bare_shellQuote: "sh_bare False (shellQuote s @ rest) = sh_bare False rest"
  by (simp add: shellQuote_def sh_bare_escaped)

text \<open>A command under construction: characters of the template, and inserted quoted values.\<close>

datatype CmdSeg = Lit char | Ins string

fun render_seg :: "CmdSeg \<Rightarrow> string" where
  "render_seg (Lit c) = [c]"
| "render_seg (Ins v) = shellQuote v"

definition render :: "CmdSeg list \<Rightarrow> string" where
  "render ss = concat (map render_seg ss)"

fun seg_replace :: "char \<Rightarrow> string \<Rightarrow> CmdSeg list \<Rightarrow> CmdSeg list" where
  "seg_replace x v (Lit c # Lit d # ss) =
     (if c = CHR ''%'' \<and> d = x then Ins v # seg_replace x v ss
      else Lit c # seg_replace x v (Lit d # ss))"
| "seg_replace x v (Ins i # ss) = Ins i # seg_replace x v ss"
| "seg_replace x v [Lit c] = [Lit c]"
| "seg_replace x v (Lit c # Ins i # ss) = Lit c # seg_replace x v (Ins i # ss)"
| "seg_replace x v [] = []"

definition seg_clean :: "CmdSeg list \<Rightarrow> bool" where
  "seg_clean ss \<longleftrightarrow> (\<forall>v. Ins v \<in> set ss \<longrightarrow> CHR ''%'' \<notin> set v)"

lemma seg_clean_simps [simp]:
  "seg_clean []" "seg_clean (Lit c # ss) = seg_clean ss"
  "seg_clean (Ins v # ss) = (CHR ''%'' \<notin> set v \<and> seg_clean ss)"
  by (auto simp: seg_clean_def)

definition same_shape :: "CmdSeg list \<Rightarrow> CmdSeg list \<Rightarrow> bool" where
  "same_shape ss ts \<longleftrightarrow>
     list_all2 (\<lambda>s t. case s of Lit c \<Rightarrow> t = Lit c | Ins v \<Rightarrow> (\<exists>w. t = Ins w)) ss ts"

lemma set_escape:
  "set (replace_all [CHR 0x27] [CHR 0x27, CHR 0x5C, CHR 0x27, CHR 0x27] s)
     \<subseteq> set s \<union> {CHR 0x27, CHR 0x5C}"
  by (induction s) (auto simp: starts_with_def)

lemma replace_all_skip:
  "CHR ''%'' \<notin> set i \<Longrightarrow> replace_all [CHR ''%'', x] q (i @ rest) = i @ replace_all [CHR ''%'', x] q rest"
  by (induction i) (auto simp: starts_with_def)

lemma shellQuote_clean: "CHR ''%'' \<notin> set v \<Longrightarrow> CHR ''%'' \<notin> set (shellQuote v)"
  using set_escape [of v] by (auto simp: shellQuote_def)

lemma replace_all_render:
  assumes "seg_clean ss" "x \<noteq> CHR 0x27"
  shows "replace_all [CHR ''%'', x] (shellQuote v) (render ss) = render (seg_replace x v ss)"
  using assms
proof (induction x v ss rule: seg_replace.induct)
  case (1 x v c d ss)
  then show ?case
    by (auto simp: render_def starts_with_def seg_clean_def)
next
  case (2 x v i ss)
  have "CHR ''%'' \<notin> set (shellQuote i)"
    using 2 by (intro shellQuote_clean) (simp add: seg_clean_def)
  moreover have "seg_clean ss" using 2 by (simp add: seg_clean_def)
  ultimately show ?case using 2 by (simp add: render_def replace_all_skip)
next
  case (3 x v c)
  then show ?case by (simp add: render_def starts_with_def)
next
  case (4 x v c i ss)
  have n: "\<not> starts_with [CHR ''%'', x] (c # shellQuote i @ y)" for y
    using 4 by (simp add: starts_with_def shellQuote_def)
  have "seg_clean (Ins i # ss)" using 4 by (simp add: seg_clean_def)
  with 4 n show ?case by (simp add: render_def)
next
  case (5 x v)
  then show ?case by (simp add: render_def)
qed

lemma seg_replace_clean:
  "seg_clean ss \<Longrightarrow> CHR ''%'' \<notin> set v \<Longrightarrow> seg_clean (seg_replace x v ss)"
  by (induction x v ss rule: seg_replace.induct) simp_all

lemma seg_replace_shape:
  "same_shape ss ts \<Longrightarrow> same_shape (seg_replace x v ss) (seg_replace x w ts)"
proof (induction x v ss arbitrary: ts rule: seg_replace.induct)
  case (1 x v c d ss)
  then obtain ts' where "ts = Lit c # Lit d # ts'" "same_shape ss ts'"
    by (auto simp: same_shape_def list_all2_Cons1)
  with 1 show ?case by (auto simp: same_shape_def)
next
  case (2 x v i ss)
  then obtain j ts' where "ts = Ins j # ts'" "same_shape ss ts'"
    by (auto simp: same_shape_def list_all2_Cons1)
  with 2 show ?case by (auto simp: same_shape_def)
next
  case (3 x v c)
  then have "ts = [Lit c]" by (auto simp: same_shape_def list_all2_Cons1)
  then show ?case by (simp add: same_shape_def)
next
  case (4 x v c i ss)
  then obtain j ts' where t: "ts = Lit c # Ins j # ts'" "same_shape (Ins i # ss) (Ins j # ts')"
    by (auto simp: same_shape_def list_all2_Cons1)
  have "same_shape (seg_replace x v (Ins i # ss)) (seg_replace x w (Ins j # ts'))"
    using 4 t(2) by blast
  with t show ?case by (simp add: same_shape_def)
next
  case (5 x v)
  then show ?case by (simp add: same_shape_def)
qed

lemma render_bare_shape:
  assumes "same_shape ss ts" "\<forall>c. Lit c \<in> set ss \<longrightarrow> c \<noteq> CHR 0x5C \<and> c \<noteq> CHR 0x27"
  shows "sh_bare False (render ss) = sh_bare False (render ts)"
  using assms
proof (induction ss arbitrary: ts)
  case Nil
  then show ?case by (simp add: same_shape_def)
next
  case (Cons s ss)
  then obtain t ts' where t: "ts = t # ts'" "same_shape ss ts'"
    by (auto simp: same_shape_def list_all2_Cons1)
  have "sh_bare False (render ss) = sh_bare False (render ts')"
    using Cons t(2) by simp
  then show ?case
    using Cons.prems t
    by (cases s) (auto simp: same_shape_def render_def sh_bare_shellQuote)
qed

lemma seg_replace_lits: "Lit c \<in> set (seg_replace x v ss) \<Longrightarrow> Lit c \<in> set ss"
  by (induction x v ss rule: seg_replace.induct) (auto split: if_splits)

lemma same_shape_refl: "same_shape ss ss"
  by (simp add: same_shape_def list_all2_same split: CmdSeg.split)

lemma show_nat_no_percent: "CHR ''%'' \<notin> set (show_nat n)"
proof
  assume "CHR ''%'' \<in> set (show_nat n)"
  then have "is_digit CHR ''%''" using show_nat_digits [of n] by (simp add: list_all_iff)
  then show False by (simp add: is_digit_def code_def)
qed

lemma show_int_no_percent: "CHR ''%'' \<notin> set (show_int i)"
  using show_nat_no_percent by (simp add: show_int_def)

definition expand_segs :: "CmdSeg list \<Rightarrow> string \<Rightarrow> string \<Rightarrow> string \<Rightarrow> int \<Rightarrow> CmdSeg list" where
  "expand_segs ss name savePath hash totalSize =
     seg_replace CHR ''F'' (savePath @ ''/'' @ name)
       (seg_replace CHR ''Z'' (show_int totalSize)
         (seg_replace CHR ''H'' hash (seg_replace CHR ''D'' savePath (seg_replace CHR ''N'' name ss))))"

lemma expand_render:
  assumes "CHR ''%'' \<notin> set name" "CHR ''%'' \<notin> set savePath" "CHR ''%'' \<notin> set hash"
  shows "expandOnCompleteCommand tmpl name savePath hash totalSize =
           render (expand_segs (map Lit tmpl) name savePath hash totalSize)"
proof -
  have r: "tmpl = render (map Lit tmpl)" by (induction tmpl) (simp_all add: render_def)
  have c: "seg_clean (map Lit tmpl)" by (auto simp: seg_clean_def)
  show ?thesis
    unfolding expandOnCompleteCommand_def Let_def expand_segs_def
    by (subst r) (simp add: replace_all_render seg_replace_clean c assms show_int_no_percent)
qed

text \<open>
  as long as the torrent's name, its folder and its hash hold no percent sign, the quoting
  does its job for every template without quotes or backslashes of its own: what the shell reads
  outside quotes is the same as for empty values, so nothing in a name can become a command.
\<close>

theorem quoting_contains_values:
  assumes "CHR ''%'' \<notin> set name" "CHR ''%'' \<notin> set savePath" "CHR ''%'' \<notin> set hash"
    and "CHR 0x27 \<notin> set tmpl" "CHR 0x5C \<notin> set tmpl"
  shows "sh_bare False (expandOnCompleteCommand tmpl name savePath hash totalSize) =
           sh_bare False (expandOnCompleteCommand tmpl [] [] [] 0)"
proof -
  have s: "same_shape (expand_segs (map Lit tmpl) name savePath hash totalSize)
      (expand_segs (map Lit tmpl) [] [] [] 0)"
    unfolding expand_segs_def by (intro seg_replace_shape same_shape_refl)
  have "Lit c \<in> set (expand_segs (map Lit tmpl) name savePath hash totalSize) \<Longrightarrow> c \<in> set tmpl" for c
    unfolding expand_segs_def by (drule seg_replace_lits)+ auto
  then have "\<forall>c. Lit c \<in> set (expand_segs (map Lit tmpl) name savePath hash totalSize) \<longrightarrow>
      c \<noteq> CHR 0x5C \<and> c \<noteq> CHR 0x27"
    using assms(4,5) by blast
  then show ?thesis
    using render_bare_shape [OF s] expand_render assms by simp
qed

text \<open>
  a torrent whose name ends in "%F" breaks out of the quotes: the placeholders are replaced one
  after the other in the text that already holds the name, so the "%F" inside the quoted name is
  replaced too and the whole path, with whatever the name says, reaches the shell unquoted.
\<close>

theorem name_breaks_out_of_quotes:
  assumes "\<forall>c \<in> set (payload @ savePath). c \<noteq> CHR ''%'' \<and> c \<noteq> CHR 0x27 \<and> c \<noteq> CHR 0x5C"
  shows "sh_bare False (expandOnCompleteCommand ''%N'' (payload @ ''%F'') savePath hash totalSize) =
           savePath @ ''/'' @ payload @ ''%F''"
proof -
  have esc: "replace_all [CHR 0x27] y s = s" if "CHR 0x27 \<notin> set s" for s y
    using that by (induction s) (auto simp: starts_with_def)
  have q: "shellQuote s = CHR 0x27 # s @ [CHR 0x27]" if "CHR 0x27 \<notin> set s" for s
    using that by (simp add: shellQuote_def esc)
  have p: "CHR ''%'' \<notin> set payload" "CHR 0x27 \<notin> set (payload @ ''%F'')"
    "CHR 0x27 \<notin> set (savePath @ ''/'' @ payload @ ''%F'')"
    using assms by auto
  have 1: "replace_all ''%N'' (shellQuote (payload @ ''%F'')) ''%N'' =
      (CHR 0x27 # payload) @ ''%F'' @ [CHR 0x27]"
    using q [OF p(2)] by (simp add: starts_with_def)
  have 2: "replace_all [CHR ''%'', x] v ((CHR 0x27 # payload) @ ''%F'' @ [CHR 0x27]) =
      (CHR 0x27 # payload) @ ''%F'' @ [CHR 0x27]" if "x \<noteq> CHR ''F''" for x v
  proof -
    have "CHR ''%'' \<notin> set (CHR 0x27 # payload)" using p(1) by simp
    from replace_all_skip [OF this, of x v "''%F'' @ [CHR 0x27]"] that show ?thesis
      by (simp add: starts_with_def)
  qed
  have 3: "replace_all ''%F'' v ((CHR 0x27 # payload) @ ''%F'' @ [CHR 0x27]) =
      (CHR 0x27 # payload) @ v @ [CHR 0x27]" for v
  proof -
    have "CHR ''%'' \<notin> set (CHR 0x27 # payload)" using p(1) by simp
    from replace_all_skip [OF this, of "CHR ''F''" v "''%F'' @ [CHR 0x27]"] show ?thesis
      by (simp add: starts_with_def)
  qed
  have e: "expandOnCompleteCommand ''%N'' (payload @ ''%F'') savePath hash totalSize =
      (CHR 0x27 # payload) @ (CHR 0x27 # (savePath @ ''/'' @ payload @ ''%F'') @ [CHR 0x27]) @ [CHR 0x27]"
    unfolding expandOnCompleteCommand_def Let_def
    by (simp only: 1 2 3 q [OF p(3)]) (simp only: 2 char.inject 3 q [OF p(3)] simp_thms)
  have t: "sh_bare True (s @ CHR 0x27 # rest) = sh_bare False rest" if "CHR 0x27 \<notin> set s" for s rest
    using that by (induction s) auto
  have f: "sh_bare False (s @ rest) = s @ sh_bare False rest"
    if "CHR 0x27 \<notin> set s" "CHR 0x5C \<notin> set s" for s rest
    using that by (induction s) auto
  have nb: "CHR 0x5C \<notin> set (savePath @ ''/'' @ payload @ ''%F'')" "CHR 0x27 \<notin> set payload"
    using assms by auto
  show ?thesis
    unfolding e using t [OF nb(2)] f [OF p(3) nb(1)] by simp
qed

section \<open>Advanced settings and content layout\<close>

text \<open>The settings a person can have chosen: none of those whose zero would stop the session.\<close>

definition adv_ok :: "AdvancedSettings \<Rightarrow> bool" where
  "adv_ok a \<longleftrightarrow> 1 \<le> aioThreads a \<and> 1 \<le> hashingThreads a \<and> 1 \<le> filePoolSize a
     \<and> 1 \<le> checkingMemUsage a \<and> 1 \<le> connectionSpeed a \<and> 1 \<le> sendBufferWatermark a
     \<and> connectionsLimit a \<noteq> 0 \<and> maxUploadsPerTorrent a \<noteq> 0
     \<and> maxConnectionsPerTorrent a \<noteq> 0 \<and> unchokeSlotsLimit a \<noteq> 0"

lemma load_persist: "adv_ok a \<Longrightarrow> loadAdvanced (persistAdvanced a s) = a"
  by (simp add: loadAdvanced_def persistAdvanced_def qs_int_def qs_bool_def atLeastOne_def
      notZero_def adv_ok_def)

lemma load_ok: "adv_ok (loadAdvanced s)"
  by (simp add: adv_ok_def loadAdvanced_def atLeastOne_def notZero_def adv_default_def)

text \<open>
  whatever the stored settings hold, missing and zeroed values included, what is loaded is a
  usable configuration; storing a usable configuration and loading it gives it back unchanged, and
  a stored one that was changed by the load is stable from then on.
\<close>

theorem advanced_settings_roundtrip:
  "adv_ok (loadAdvanced s)
   \<and> (loadAdvanced (persistAdvanced a s) = a \<longleftrightarrow> adv_ok a)
   \<and> loadAdvanced (persistAdvanced (loadAdvanced s) s') = loadAdvanced s"
  using load_ok load_persist by metis

text \<open>
  a content layout never makes two files of a torrent collide: the plan renames each file at
  most once, to paths that are distinct when the torrent's were, and removing the root folder
  takes exactly the folder that all the files share.
\<close>

theorem content_layout_keeps_files_apart:
  assumes "distinct filePaths"
  shows "distinct (map fst (planContentLayout mode torrentName filePaths))
     \<and> distinct (map snd (planContentLayout mode torrentName filePaths))
     \<and> (\<forall>(i, p) \<in> set (planContentLayout 2 torrentName filePaths).
          i < length filePaths
          \<and> filePaths ! i = before_first CHR ''/'' (hd filePaths) @ ''/'' @ p)
     \<and> (planContentLayout 2 torrentName filePaths = []
        \<or> map fst (planContentLayout 2 torrentName filePaths) = [0..<length filePaths])"
proof -
  let ?pre = "before_first CHR ''/'' (hd filePaths) @ ''/''"
  have strip: "p = ?pre @ drop (length ?pre) p" if "starts_with ?pre p" for p
    using that unfolding starts_with_def by (metis append_take_drop_id)
  have inj: "distinct (map (drop (length ?pre)) filePaths)"
    if "\<forall>p \<in> set filePaths. starts_with ?pre p"
  proof -
    have "inj_on (drop (length ?pre)) (set filePaths)"
      using strip that by (intro inj_onI) metis
    with assms show ?thesis by (simp add: distinct_map)
  qed
  have two: "planContentLayout 2 torrentName filePaths = []
      \<or> ((\<forall>p \<in> set filePaths. starts_with ?pre p)
         \<and> planContentLayout 2 torrentName filePaths =
             zip [0..<length filePaths] (map (drop (length ?pre)) filePaths))"
    by (auto simp: planContentLayout_def Let_def list_ex_iff)
  have "distinct (map fst (planContentLayout mode torrentName filePaths))
     \<and> distinct (map snd (planContentLayout mode torrentName filePaths))"
  proof (cases "mode = 2")
    case True
    with two inj show ?thesis by auto
  next
    case False
    then show ?thesis by (simp add: planContentLayout_def)
  qed
  moreover have "\<forall>(i, p) \<in> set (planContentLayout 2 torrentName filePaths).
      i < length filePaths \<and> filePaths ! i = before_first CHR ''/'' (hd filePaths) @ ''/'' @ p"
    using two
  proof
    assume a: "(\<forall>p \<in> set filePaths. starts_with ?pre p)
         \<and> planContentLayout 2 torrentName filePaths =
             zip [0..<length filePaths] (map (drop (length ?pre)) filePaths)"
    have "filePaths ! i = before_first CHR ''/'' (hd filePaths) @ ''/'' @ drop (length ?pre) (filePaths ! i)"
      if "i < length filePaths" for i
      using strip a that by (metis append.assoc nth_mem)
    then show ?thesis using a by (auto simp: set_zip)
  qed simp
  ultimately show ?thesis using two by auto
qed

theorem quoting_contains_values_witness:
  "sh_bare False (expandOnCompleteCommand ''notify %N %F'' ''it`s; rm -rf'' ''/dl'' ''ab'' 42) =
     ''notify  ''"
proof -
  have "sh_bare False (expandOnCompleteCommand ''notify %N %F'' [] [] [] 0) = ''notify  ''"
    by code_simp
  then show ?thesis
    using quoting_contains_values [of "''it`s; rm -rf''" "''/dl''" "''ab''" "''notify %N %F''" 42]
    by simp
qed

theorem name_breaks_out_of_quotes_witness:
  "sh_bare False (expandOnCompleteCommand ''%N'' ('';reboot;'' @ ''%F'') ''/dl'' ''ab'' 42) =
     ''/dl/;reboot;%F''"
  using name_breaks_out_of_quotes [of "'';reboot;''" "''/dl''" "''ab''" 42] by simp

theorem advanced_settings_roundtrip_witness:
  "loadAdvanced (persistAdvanced adv_default (\<lambda>_. None)) = adv_default"
proof -
  have "adv_ok adv_default" by code_simp
  then show ?thesis using advanced_settings_roundtrip [of "\<lambda>_. None" adv_default] by simp
qed

theorem content_layout_keeps_files_apart_witness:
  "distinct (map snd (planContentLayout 2 ''Game'' [''Game/a'', ''Game/b/c'']))"
  using content_layout_keeps_files_apart [of "[''Game/a'', ''Game/b/c'']" 2 "''Game''"] by simp

end
