(* ===== verification/SessionLimits.thy ===== *)
theory SessionLimits
  imports SessionNetwork
begin

text \<open>
  The rate limits and protocol switches of the session
  (\<open>src/torrent/sessionmanager_limits.cpp\<close>), the alternative speeds and their schedule
  (\<open>sessionmanager_scheduler.cpp\<close>, \<open>bandwidthschedule.h\<close>) and the retry of the port mapping
  (\<open>sessionmanager_config.cpp\<close>). They work on the record \<open>SessionNet\<close> of \<open>SessionNetwork\<close>. The
  weekday and the hour are inputs; what \<open>get_peer_info\<close> returns for a torrent is the parameter
  \<open>peers\<close>, as pairs of a client id and an address (\<open>None\<close>: it throws).
\<close>

section \<open>Rate limits\<close>

text \<open>\<open>kbps > 0 ? kbps * 1024 : 0\<close>, in 32 bits.\<close>

definition rate :: "int \<Rightarrow> int" where
  "rate kbps = (if 0 < kbps then to_int32 (kbps * 1024) else 0)"

definition setDownloadLimit :: "int \<Rightarrow> SessionNet \<Rightarrow> SessionNet" where
  "setDownloadLimit kbps s =
     (let s1 = s\<lparr>sn_normalDown := kbps\<rparr>
      in if sn_altActive s1 then s1
         else apply_settings [''download_rate_limit'' \<mapsto> SpInt (rate kbps)] s1)"

definition setUploadLimit :: "int \<Rightarrow> SessionNet \<Rightarrow> SessionNet" where
  "setUploadLimit kbps s =
     (let s1 = s\<lparr>sn_normalUp := kbps\<rparr>
      in if sn_altActive s1 then s1
         else apply_settings [''upload_rate_limit'' \<mapsto> SpInt (rate kbps)] s1)"

definition applyLimits :: "int \<Rightarrow> int \<Rightarrow> SessionNet \<Rightarrow> SessionNet" where
  "applyLimits d u s =
     apply_settings [''download_rate_limit'' \<mapsto> SpInt (rate d),
                     ''upload_rate_limit'' \<mapsto> SpInt (rate u)] s"

definition setAltSpeedLimits :: "int \<Rightarrow> int \<Rightarrow> SessionNet \<Rightarrow> SessionNet" where
  "setAltSpeedLimits d u s =
     (let s1 = s\<lparr>sn_altDown := d, sn_altUp := u\<rparr>
      in if sn_altActive s1 then applyLimits d u s1 else s1)"

definition setSchedulerEnabled :: "bool \<Rightarrow> SessionNet \<Rightarrow> SessionNet" where
  "setSchedulerEnabled enabled s =
     (let s1 = s\<lparr>sn_schedulerEnabled := enabled\<rparr>
      in if \<not> enabled \<and> sn_altActive s1
         then (let s2 = s1\<lparr>sn_altActive := False\<rparr>
               in setUploadLimit (sn_normalUp s2) (setDownloadLimit (sn_normalDown s2) s2))
         else s1)"

definition setSchedule :: "int \<Rightarrow> int \<Rightarrow> int \<Rightarrow> SessionNet \<Rightarrow> SessionNet" where
  "setSchedule fromHour toHour days s =
     s\<lparr>sn_scheduleFrom := fromHour, sn_scheduleTo := toHour, sn_scheduleDays := days\<rparr>"

definition setAltSpeedsActive :: "bool \<Rightarrow> SessionNet \<Rightarrow> SessionNet" where
  "setAltSpeedsActive active s =
     (if active = sn_altActive s then s
      else
        let s1 = s\<lparr>sn_altActive := active\<rparr>;
            s2 = applyLimits (if active then sn_altDown s1 else sn_normalDown s1)
                   (if active then sn_altUp s1 else sn_normalUp s1) s1
        in s2\<lparr>sn_signals := sn_signals s2 @ [AltSpeedsActiveChanged active]\<rparr>)"

definition inBandwidthSchedule :: "int \<Rightarrow> int \<Rightarrow> int \<Rightarrow> int \<Rightarrow> int \<Rightarrow> bool" where
  "inBandwidthSchedule weekday hour daysMask fromHour toHour =
     (if weekday < 0 \<or> 6 < weekday then False
      else if \<not> bit daysMask (nat weekday) then False
      else if fromHour \<le> toHour then fromHour \<le> hour \<and> hour < toHour
      else fromHour \<le> hour \<or> hour < toHour)"

definition checkBandwidthSchedule :: "int \<Rightarrow> int \<Rightarrow> SessionNet \<Rightarrow> SessionNet" where
  "checkBandwidthSchedule dayOfWeek currentHour s =
     (if \<not> sn_schedulerEnabled s \<or> (sn_altDown s = 0 \<and> sn_altUp s = 0) then s
      else
        let inSchedule = inBandwidthSchedule dayOfWeek currentHour (sn_scheduleDays s)
                           (sn_scheduleFrom s) (sn_scheduleTo s)
        in if inSchedule \<and> \<not> sn_altActive s
           then applyLimits (sn_altDown s) (sn_altUp s) (s\<lparr>sn_altActive := True\<rparr>)
           else if \<not> inSchedule \<and> sn_altActive s
           then applyLimits (sn_normalDown s) (sn_normalUp s) (s\<lparr>sn_altActive := False\<rparr>)
           else s)"

section \<open>Protocol switches\<close>

definition listenInterfaces :: "string \<Rightarrow> int \<Rightarrow> bool \<Rightarrow> string" where
  "listenInterfaces listenAddr port forceIpv4 =
     (if listenAddr \<noteq> ''0.0.0.0'' \<or> forceIpv4 then listenAddr @ '':'' @ show_int port
      else ''0.0.0.0:'' @ show_int port @ '',[::]:'' @ show_int port)"

definition setListenPort :: "NetIf list \<Rightarrow> int \<Rightarrow> SessionNet \<Rightarrow> SessionNet" where
  "setListenPort nets port s =
     (let listenAddr =
            (if sn_outgoingInterface s = [] then ''0.0.0.0''
             else (case find (\<lambda>n. ni_name n = sn_outgoingInterface s) nets of
                 None \<Rightarrow> ''0.0.0.0''
               | Some n \<Rightarrow> (case ni_ipv4 n of None \<Rightarrow> ''0.0.0.0'' | Some ip \<Rightarrow> ip)))
      in (apply_settings
            [''listen_interfaces'' \<mapsto> SpStr (listenInterfaces listenAddr port (sn_forceIpv4 s))] s)
           \<lparr>sn_listenPort := port\<rparr>)"

definition setMaxConnections :: "int \<Rightarrow> SessionNet \<Rightarrow> SessionNet" where
  "setMaxConnections n s = apply_settings [''connections_limit'' \<mapsto> SpInt n] s"

definition setDhtEnabled :: "bool \<Rightarrow> SessionNet \<Rightarrow> SessionNet" where
  "setDhtEnabled b s = apply_settings [''enable_dht'' \<mapsto> SpBool b] (s\<lparr>sn_dhtEnabled := b\<rparr>)"

definition setUtpEnabled :: "bool \<Rightarrow> SessionNet \<Rightarrow> SessionNet" where
  "setUtpEnabled b s =
     apply_settings [''enable_outgoing_utp'' \<mapsto> SpBool b, ''enable_incoming_utp'' \<mapsto> SpBool b,
       ''enable_outgoing_tcp'' \<mapsto> SpBool True, ''enable_incoming_tcp'' \<mapsto> SpBool True]
       (s\<lparr>sn_utpEnabled := b\<rparr>)"

definition setAnonymousMode :: "bool \<Rightarrow> SessionNet \<Rightarrow> SessionNet" where
  "setAnonymousMode b s =
     apply_settings [''anonymous_mode'' \<mapsto> SpBool b] (s\<lparr>sn_anonymousMode := b\<rparr>)"

definition setForceIpv4 :: "bool \<Rightarrow> SessionNet \<Rightarrow> SessionNet" where
  "setForceIpv4 b s =
     (let port = (if listenPort s \<le> 0 then 6881 else listenPort s);
          iface = (if b then ''0.0.0.0:'' @ show_int port
                   else ''0.0.0.0:'' @ show_int port @ '',[::]:'' @ show_int port)
      in apply_settings [''listen_interfaces'' \<mapsto> SpStr iface] (s\<lparr>sn_forceIpv4 := b\<rparr>))"

definition setPtMode :: "bool \<Rightarrow> SessionNet \<Rightarrow> SessionNet" where
  "setPtMode b s =
     apply_settings [''enable_dht'' \<mapsto> SpBool (\<not> b \<and> sn_dhtEnabled s),
       ''enable_lsd'' \<mapsto> SpBool (\<not> b), ''announce_to_all_trackers'' \<mapsto> SpBool b,
       ''announce_to_all_tiers'' \<mapsto> SpBool True,
       ''anonymous_mode'' \<mapsto> SpBool (b \<or> sn_anonymousMode s)] (s\<lparr>sn_ptMode := b\<rparr>)"

text \<open>libtorrent's \<open>enc_policy\<close>: 0 forced, 1 enabled, 2 disabled.\<close>

definition setEncryptionMode :: "int \<Rightarrow> SessionNet \<Rightarrow> SessionNet" where
  "setEncryptionMode mode s =
     (let policy = (if mode = 1 then 0 else if mode = 2 then 2 else 1)
      in apply_settings [''out_enc_policy'' \<mapsto> SpInt policy, ''in_enc_policy'' \<mapsto> SpInt policy]
           (s\<lparr>sn_encryptionMode := mode\<rparr>))"

definition setBlockLeecherClients :: "bool \<Rightarrow> SessionNet \<Rightarrow> SessionNet" where
  "setBlockLeecherClients b s = s\<lparr>sn_blockLeechers := b\<rparr>"

definition kLeecherPrefixes :: "string list" where
  "kLeecherPrefixes = [''-SD'', ''-XL'', ''XL'', ''-DL'', ''-QD'', ''-BN'', ''-SP'']"

definition is_leecher :: "string \<Rightarrow> bool" where
  "is_leecher pid = list_ex (\<lambda>p. starts_with p (take 8 pid)) kLeecherPrefixes"

definition checkAndBlockLeechers ::
  "(nat \<Rightarrow> (string \<times> string) list option) \<Rightarrow> SessionNet \<Rightarrow> SessionNet" where
  "checkAndBlockLeechers peers s =
     (if \<not> sn_blockLeechers s then s
      else
        let hits = concat (map (\<lambda>h. if \<not> rt_valid (sn_rt s h) then []
              else (case peers h of None \<Rightarrow> [] | Some ps \<Rightarrow> filter (\<lambda>(pid, a). is_leecher pid) ps))
              (sn_torrents s))
        in s\<lparr>sn_ipFilter := sn_ipFilter s @ map snd hits,
             sn_blockedLeechers := sn_blockedLeechers s + length hits\<rparr>)"

definition retryPortMapping :: "SessionNet \<Rightarrow> SessionNet" where
  "retryPortMapping s =
     (if px_type (sn_proxy s) \<noteq> 0 then s
      else apply_settings [''enable_upnp'' \<mapsto> SpBool True, ''enable_natpmp'' \<mapsto> SpBool True]
             (apply_settings [''enable_upnp'' \<mapsto> SpBool False, ''enable_natpmp'' \<mapsto> SpBool False] s))"

section \<open>The limits in force\<close>

text \<open>What the session has applied: the alternative limits while they are active, else the user's.\<close>

definition limits_applied :: "SessionNet \<Rightarrow> bool" where
  "limits_applied s \<longleftrightarrow>
     sn_settings s ''download_rate_limit'' =
       Some (SpInt (rate (if sn_altActive s then sn_altDown s else sn_normalDown s)))
     \<and> sn_settings s ''upload_rate_limit'' =
       Some (SpInt (rate (if sn_altActive s then sn_altUp s else sn_normalUp s)))"

datatype LimitOp =
    LimDown int
  | LimUp int
  | LimAlt int int
  | LimScheduler bool
  | LimSchedule int int int
  | LimAltActive bool
  | LimTick int int
  | LimNet NetOp
  | LimListenPort int
  | LimMaxConnections int
  | LimDht bool
  | LimUtp bool
  | LimAnonymous bool
  | LimForceIpv4 bool
  | LimPtMode bool
  | LimEncryption int
  | LimRetryMapping

fun limit_step :: "NetIf list \<Rightarrow> LimitOp \<Rightarrow> SessionNet \<Rightarrow> SessionNet" where
  "limit_step nets (LimDown k) s = setDownloadLimit k s"
| "limit_step nets (LimUp k) s = setUploadLimit k s"
| "limit_step nets (LimAlt d u) s = setAltSpeedLimits d u s"
| "limit_step nets (LimScheduler b) s = setSchedulerEnabled b s"
| "limit_step nets (LimSchedule f t d) s = setSchedule f t d s"
| "limit_step nets (LimAltActive b) s = setAltSpeedsActive b s"
| "limit_step nets (LimTick day hour) s = checkBandwidthSchedule day hour s"
| "limit_step nets (LimNet op) s = net_step nets op s"
| "limit_step nets (LimListenPort p) s = setListenPort nets p s"
| "limit_step nets (LimMaxConnections n) s = setMaxConnections n s"
| "limit_step nets (LimDht b) s = setDhtEnabled b s"
| "limit_step nets (LimUtp b) s = setUtpEnabled b s"
| "limit_step nets (LimAnonymous b) s = setAnonymousMode b s"
| "limit_step nets (LimForceIpv4 b) s = setForceIpv4 b s"
| "limit_step nets (LimPtMode b) s = setPtMode b s"
| "limit_step nets (LimEncryption m) s = setEncryptionMode m s"
| "limit_step nets LimRetryMapping s = retryPortMapping s"

text \<open>The part of the state that \<open>limits_applied\<close> reads.\<close>

definition limit_view :: "SessionNet \<Rightarrow> bool \<times> int \<times> int \<times> int \<times> int \<times> SpValue option \<times> SpValue option"
  where
  "limit_view s = (sn_altActive s, sn_altDown s, sn_altUp s, sn_normalDown s, sn_normalUp s,
     sn_settings s ''download_rate_limit'', sn_settings s ''upload_rate_limit'')"

lemma limit_view_applied: "limit_view t = limit_view s \<Longrightarrow> limits_applied t = limits_applied s"
  by (simp add: limit_view_def limits_applied_def)

lemma apply_settings_view:
  "pack ''download_rate_limit'' = None \<Longrightarrow> pack ''upload_rate_limit'' = None \<Longrightarrow>
     limit_view (apply_settings pack s) = limit_view s"
  by (simp add: limit_view_def apply_settings_def map_add_def)

lemma resume_killed_view [simp]: "limit_view (resume_killed s) = limit_view s"
  by (simp add: limit_view_def resume_killed_eq)

lemma setOutgoingInterface_view [simp]: "limit_view (setOutgoingInterface nets i s) = limit_view s"
proof -
  have "limit_view (s\<lparr>sn_outgoingInterface := i, sn_killSwitchActive := False\<rparr>) = limit_view s"
    by (simp add: limit_view_def)
  then show ?thesis
    by (simp add: setOutgoingInterface_def Let_def apply_settings_view bind_pack_def)
qed

lemma applyProxy_view [simp]: "limit_view (applyProxy s) = limit_view s"
  by (simp add: applyProxy_def apply_settings_view setAnnouncePort_def proxy_settings_def
      buildProxySettings_def Let_def)

lemma fold_view:
  assumes "\<And>h t. limit_view (f h t) = limit_view t"
  shows "limit_view (fold f hs s) = limit_view s"
  using assms by (induction hs arbitrary: s) simp_all

lemma checkInterfaceStatus_view [simp]: "limit_view (checkInterfaceStatus nets s) = limit_view s"
proof -
  have k: "limit_view (fold kill_one hs t) = limit_view t" for hs t
    by (rule fold_view) (simp add: kill_one_def pause_torrent_def limit_view_def)
  have r: "limit_view (fold resume_valid hs t) = limit_view t" for hs t
    by (rule fold_view) (simp add: resume_torrent_def limit_view_def)
  have u: "limit_view (t\<lparr>sn_killSwitchPaused := a, sn_signals := b\<rparr>) = limit_view t"
    "limit_view (t\<lparr>sn_signals := b\<rparr>) = limit_view t"
    "limit_view (t\<lparr>sn_killSwitchPaused := a\<rparr>) = limit_view t"
    "limit_view (t\<lparr>sn_killSwitchActive := c, sn_killSwitchPaused := a\<rparr>) = limit_view t"
    "limit_view (t\<lparr>sn_killSwitchActive := c\<rparr>) = limit_view t" for t a b c
    by (simp_all add: limit_view_def)
  show ?thesis
    by (simp add: checkInterfaceStatus_def Let_def u k r)
qed

lemma setVpnProxy_view [simp]: "limit_view (setVpnProxy nets port user pass s) = limit_view s"
proof -
  have u: "limit_view (t\<lparr>sn_restarts := a\<rparr>) = limit_view t"
    "limit_view (t\<lparr>sn_vpnProxyUser := b, sn_vpnProxyPass := c\<rparr>) = limit_view t"
    "limit_view (t\<lparr>sn_vpnProxyPort := d\<rparr>) = limit_view t"
    "limit_view (t\<lparr>sn_vpnAnnouncePort := e\<rparr>) = limit_view t"
    "limit_view (t\<lparr>sn_vpnProxyPort := d, sn_vpnAnnouncePort := e, sn_vpnProxyUser := b,
        sn_vpnProxyPass := c\<rparr>) = limit_view t"
    "limit_view (t\<lparr>sn_vpnProxyPort := d, sn_vpnProxyUser := b, sn_vpnProxyPass := c\<rparr>) = limit_view t"
    for t a b c d e
    by (simp_all add: limit_view_def)
  show ?thesis
    by (simp add: setVpnProxy_def Let_def u)
qed

lemma setVpnAnnouncePort_view [simp]: "limit_view (setVpnAnnouncePort p s) = limit_view s"
proof -
  have r: "limit_view (fold reannounce hs t) = limit_view t" for hs t
    by (rule fold_view) (simp add: reannounce_def limit_view_def)
  have u: "limit_view (t\<lparr>sn_vpnAnnouncePort := e\<rparr>) = limit_view t" for t e
    by (simp add: limit_view_def)
  show ?thesis
    by (simp add: setVpnAnnouncePort_def Let_def r u apply_settings_view setAnnouncePort_def)
qed

lemma net_step_view [simp]: "limit_view (net_step nets op s) = limit_view s"
proof (cases op)
  case (OpProxy ty host port user pass)
  then show ?thesis by (simp add: setProxySettings_def) (simp add: limit_view_def)
next
  case (OpLeakProof b)
  then show ?thesis by (simp add: setProxyLeakProof_def) (simp add: limit_view_def)
next
  case (OpKillSwitch b)
  then show ?thesis by (simp add: setKillSwitchEnabled_def Let_def) (simp add: limit_view_def)
next
  case (OpAutoResume b)
  then show ?thesis by (simp add: setAutoResumeOnReconnect_def limit_view_def)
qed simp_all

lemma limit_step_applied:
  assumes "limits_applied s"
  shows "limits_applied (limit_step nets op s)"
proof -
  have v: "limit_view (limit_step nets op s) = limit_view s \<Longrightarrow> ?thesis"
    using assms limit_view_applied by blast
  show ?thesis
  proof (cases op)
    case (LimNet op')
    then show ?thesis using v by simp
  qed (use assms in \<open>auto simp: limits_applied_def setDownloadLimit_def setUploadLimit_def
      applyLimits_def setAltSpeedLimits_def setSchedulerEnabled_def setSchedule_def
      setAltSpeedsActive_def checkBandwidthSchedule_def setListenPort_def setMaxConnections_def
      setDhtEnabled_def setUtpEnabled_def setAnonymousMode_def setForceIpv4_def setPtMode_def
      setEncryptionMode_def retryPortMapping_def apply_settings_def Let_def\<close>)
qed

text \<open>
  the rate limits libtorrent was given are always the ones that should be in force: the
  alternative limits while alternative speeds are active and the user's own otherwise, whatever
  sequence of limit changes, schedule ticks, toggles and network operations ran before.
\<close>

theorem rate_limits_follow_mode:
  assumes "limits_applied s"
  shows "limits_applied (fold (limit_step nets) ops s)"
  using assms by (induction ops arbitrary: s) (simp_all add: limit_step_applied)

text \<open>
  the schedule's test is membership in the half-open window of hours from the start hour to
  the end hour around the clock, on a day the mask has: going past midnight is the same window
  modulo 24 hours.
\<close>

theorem schedule_window:
  assumes "0 \<le> hour" "hour < 24" "0 \<le> fromHour" "fromHour < 24" "0 \<le> toHour" "toHour < 24"
  shows "inBandwidthSchedule weekday hour daysMask fromHour toHour \<longleftrightarrow>
           0 \<le> weekday \<and> weekday \<le> 6 \<and> bit daysMask (nat weekday)
           \<and> (hour - fromHour) mod 24 < (toHour - fromHour) mod 24"
proof -
  have m: "x mod 24 = (if 0 \<le> x then x else x + 24)" if "-24 < x" "x < 24" for x :: int
  proof (cases "0 \<le> x")
    case False
    have "x mod 24 = (x + 24) mod 24" by simp
    with that False show ?thesis by (simp del: mod_add_self2)
  qed (use that in simp)
  have "(hour - fromHour) mod 24 < (toHour - fromHour) mod 24 \<longleftrightarrow>
      (if fromHour \<le> toHour then fromHour \<le> hour \<and> hour < toHour
       else fromHour \<le> hour \<or> hour < toHour)"
    using assms by (auto simp: m)
  then show ?thesis
    by (auto simp: inBandwidthSchedule_def)
qed

text \<open>
  clearing both alternative limits while the schedule has them active leaves alternative
  mode on for good: the tick returns before it looks at the clock, so the user's own limits do not
  come back when the window ends.
\<close>

theorem cleared_alt_limits_stick:
  assumes "sn_altActive s"
  shows "fold (\<lambda>(day, hour). checkBandwidthSchedule day hour) ticks (setAltSpeedLimits 0 0 s) =
           setAltSpeedLimits 0 0 s
         \<and> sn_altActive (setAltSpeedLimits 0 0 s)
         \<and> sn_settings (setAltSpeedLimits 0 0 s) ''download_rate_limit'' = Some (SpInt 0)"
proof -
  let ?s = "setAltSpeedLimits 0 0 s"
  have z: "sn_altDown ?s = 0" "sn_altUp ?s = 0"
    by (simp_all add: setAltSpeedLimits_def applyLimits_def apply_settings_def Let_def)
  have "fold (\<lambda>(day, hour). checkBandwidthSchedule day hour) ticks ?s = ?s"
    by (induction ticks) (auto simp: checkBandwidthSchedule_def z)
  then show ?thesis
    using assms
    by (simp add: setAltSpeedLimits_def applyLimits_def apply_settings_def Let_def rate_def)
qed

text \<open>
  three operations open, while the VPN's proxy is in force, what \<open>applyProxy\<close> says stays shut:
  retrying the port mapping switches UPnP and NAT-PMP on (its guard looks at the user's proxy only),
  leaving private-tracker mode switches local discovery on, and switching anonymous mode off
  uncovers the client.
\<close>

theorem leaks_past_vpn_proxy:
  assumes "0 < port" "px_type (sn_proxy s) = 0"
  shows "let t = setVpnProxy nets port user pass s in
           tunnelled port t
           \<and> sn_settings (retryPortMapping t) ''enable_upnp'' = Some (SpBool True)
           \<and> sn_settings (retryPortMapping t) ''enable_natpmp'' = Some (SpBool True)
           \<and> sn_settings (setPtMode False t) ''enable_lsd'' = Some (SpBool True)
           \<and> sn_settings (setAnonymousMode False t) ''anonymous_mode'' = Some (SpBool False)
           \<and> sn_vpnProxyPort (retryPortMapping t) = port"
proof -
  let ?t = "setVpnProxy nets port user pass s"
  have t: "tunnelled port ?t" using assms(1) by (rule setVpnProxy_tunnels)
  have "sn_proxy ?t = sn_proxy s"
    using assms(1) by (simp add: setVpnProxy_def applyProxy_def apply_settings_def Let_def)
  with t assms show ?thesis
    by (simp add: retryPortMapping_def setPtMode_def setAnonymousMode_def apply_settings_def
        tunnelled_def)
qed

theorem rate_limits_follow_mode_witness:
  "limits_applied (fold (limit_step [])
     [LimUp 30, LimAltActive True, LimDown 500, LimTick 0 12, LimAlt 10 10]
     (applyLimits 0 0 sample_net))"
  by (rule rate_limits_follow_mode) code_simp

theorem schedule_window_witness:
  "inBandwidthSchedule 0 2 127 22 6 \<and> \<not> inBandwidthSchedule 0 12 127 22 6"
  using schedule_window [of 2 22 6 0 127] schedule_window [of 12 22 6 0 127]
  by (simp add: bit_iff_odd)

theorem cleared_alt_limits_stick_witness:
  "sn_altActive (fold (\<lambda>(day, hour). checkBandwidthSchedule day hour) [(0, 12), (0, 13)]
     (setAltSpeedLimits 0 0 (checkBandwidthSchedule 0 23 sample_net)))"
proof -
  have "sn_altActive (checkBandwidthSchedule 0 23 sample_net)" by code_simp
  then show ?thesis
    using cleared_alt_limits_stick [of "checkBandwidthSchedule 0 23 sample_net" "[(0, 12), (0, 13)]"]
    by simp
qed

theorem leaks_past_vpn_proxy_witness:
  "sn_settings (retryPortMapping (setVpnProxy [] 40123 [] [] sample_net)) ''enable_upnp''
     = Some (SpBool True)"
  using leaks_past_vpn_proxy [of 40123 sample_net "[]" "[]" "[]"]
  by (simp add: sample_net_def Let_def)

end
