(* ===== verification/Streaming.thy ===== *)
theory Streaming
  imports QtText
begin

text \<open>
  Streaming a file that is still downloading: when it can be handed to the player and how far a
  reader may read (\<open>src/torrent/streamgate.h\<close>), and the session's side of it, the readable run and
  the deadline window that follows the reader (\<open>sessionmanager_streaming.cpp\<close>). A torrent with
  metadata is a \<open>StreamTorrent\<close>: its pieces, its files as (offset, size) pairs, the deadlines and
  priorities set in libtorrent and the session's window for it; a torrent without (or an invalid
  handle) is \<open>None\<close> in the session's list. Sizes are 64-bit in the code and unbounded here; a piece
  number is an \<open>int\<close> the code keeps in 32 bits. The progress fraction, which is floating point, and
  the boost of a file's ends, whose count is, are not modelled.
\<close>

section \<open>The gate\<close>

definition kMinHead :: int where "kMinHead = 3 * 1024 * 1024"
definition kMaxHead :: int where "kMaxHead = 10 * 1024 * 1024"
definition kHeadSecs :: int where "kHeadSecs = 3"
definition kAssumedRuntimeSecs :: int where "kAssumedRuntimeSecs = 30 * 60"
definition kMinBytesPerSec :: int where "kMinBytesPerSec = 256 * 1024"
definition kWindowSecs :: int where "kWindowSecs = 30"
definition kMinWindowPieces :: int where "kMinWindowPieces = 4"
definition kMaxWindowPieces :: int where "kMaxWindowPieces = 128"
definition kTailPieces :: int where "kTailPieces = 2"
definition kNearAheadWindows :: int where "kNearAheadWindows = 10"

lemmas gate_constants = kMinHead_def kMaxHead_def kHeadSecs_def kAssumedRuntimeSecs_def
  kMinBytesPerSec_def kWindowSecs_def kMinWindowPieces_def kMaxWindowPieces_def

definition bytesPerSec :: "int \<Rightarrow> int" where
  "bytesPerSec fileSize = max (cdiv fileSize kAssumedRuntimeSecs) kMinBytesPerSec"

definition deadlineMs :: "int \<Rightarrow> int \<Rightarrow> int" where
  "deadlineMs distance fileSize =
     (if distance \<le> 0 then 0
      else min (cdiv (distance * 1000) (bytesPerSec fileSize)) (10 * 60 * 1000))"

definition windowPieces :: "int \<Rightarrow> int \<Rightarrow> int" where
  "windowPieces pieceSize fileSize =
     (if pieceSize \<le> 0 then kMinWindowPieces
      else clamp_int (cdiv (kWindowSecs * bytesPerSec fileSize + pieceSize - 1) pieceSize)
             kMinWindowPieces kMaxWindowPieces)"

definition headBytes :: "int \<Rightarrow> int" where
  "headBytes fileSize =
     (if fileSize \<le> 0 then 0
      else min fileSize (clamp_int (kHeadSecs * bytesPerSec fileSize) kMinHead kMaxHead))"

definition needsTail :: "string \<Rightarrow> bool" where
  "needsTail fileName =
     (let n = to_lower fileName; m = (if ends_with ''.!bt'' n then chop 4 n else n)
      in ends_with ''.mp4'' m \<or> ends_with ''.m4v'' m \<or> ends_with ''.mov'' m)"

definition gate_ready :: "int \<Rightarrow> int \<Rightarrow> bool \<Rightarrow> bool \<Rightarrow> bool" where
  "gate_ready contiguousHead fileSize haveTail tailNeeded \<longleftrightarrow>
     0 < fileSize \<and> (haveTail \<or> \<not> tailNeeded) \<and> headBytes fileSize \<le> contiguousHead"

section \<open>The readable run\<close>

text \<open>A bit of the piece map; a number out of range is no piece.\<close>

definition have_piece :: "bool list \<Rightarrow> int \<Rightarrow> bool" where
  "have_piece hv p \<longleftrightarrow> 0 \<le> p \<and> p < int (length hv) \<and> hv ! nat p"

text \<open>The loop that moves the end of the run from piece to piece.\<close>

function extend_run :: "bool list \<Rightarrow> int \<Rightarrow> int \<Rightarrow> int \<Rightarrow> int \<Rightarrow> int" where
  "extend_run hv ps globalPos cap fin =
     (if ps \<le> 0 \<or> fin < 0 \<or> cap \<le> fin - globalPos then fin
      else
        let nxt = fin div ps in
        if int (length hv) \<le> nxt \<or> \<not> have_piece hv nxt then fin
        else extend_run hv ps globalPos cap ((nxt + 1) * ps))"
  by pat_completeness auto

termination
proof (relation "measure (\<lambda>(hv, ps, globalPos, cap, fin). nat (int (length hv) - fin div ps))")
  fix hv :: "bool list" and ps globalPos cap fin nxt :: int
  assume a: "\<not> (ps \<le> 0 \<or> fin < 0 \<or> cap \<le> fin - globalPos)" "nxt = fin div ps"
    "\<not> (int (length hv) \<le> nxt \<or> \<not> have_piece hv nxt)"
  then have "(nxt + 1) * ps div ps = nxt + 1" by simp
  then show "((hv, ps, globalPos, cap, (nxt + 1) * ps), hv, ps, globalPos, cap, fin)
      \<in> measure (\<lambda>(hv, ps, globalPos, cap, fin). nat (int (length hv) - fin div ps))"
    using a by auto
qed simp

declare extend_run.simps [simp del]

definition contiguousRun :: "bool list \<Rightarrow> int \<Rightarrow> int \<Rightarrow> int \<Rightarrow> int \<Rightarrow> int \<Rightarrow> int" where
  "contiguousRun hv pieceSize fileOffset fileSize fromByte cap =
     (if pieceSize \<le> 0 \<or> fromByte < 0 \<or> fileSize \<le> fromByte \<or> cap \<le> 0 then 0
      else
        let globalPos = fileOffset + fromByte; piece = globalPos div pieceSize in
        if int (length hv) \<le> piece \<or> \<not> have_piece hv piece then 0
        else
          let fin = extend_run hv pieceSize globalPos cap ((piece + 1) * pieceSize)
          in min cap (min fin (fileOffset + fileSize) - globalPos))"

section \<open>The session's torrents\<close>

record StreamWindow =
  sw_file :: int
  sw_firstMissing :: int
  sw_first :: int
  sw_last :: int

record StreamTorrent =
  tv_pieceSize :: int
  tv_files :: "(int \<times> int) list"
  tv_have :: "bool list"
  tv_deadlines :: "int \<Rightarrow> int option"
  tv_prio :: "int list"
  tv_window :: StreamWindow
  tv_streamed :: bool

text \<open>
  The guards every function of the slice starts with: the torrent and the file, if there are such.
\<close>

definition stream_torrent :: "StreamTorrent option list \<Rightarrow> int \<Rightarrow> StreamTorrent option" where
  "stream_torrent ts torrentIndex =
     (if torrentIndex < 0 \<or> int (length ts) \<le> torrentIndex then None else ts ! nat torrentIndex)"

definition stream_file :: "StreamTorrent \<Rightarrow> int \<Rightarrow> (int \<times> int) option" where
  "stream_file t fileIndex =
     (if fileIndex < 0 \<or> int (length (tv_files t)) \<le> fileIndex then None
      else Some (tv_files t ! nat fileIndex))"

definition numPieces :: "StreamTorrent \<Rightarrow> int" where
  "numPieces t = int (length (tv_have t))"

definition streamFileSize :: "StreamTorrent option list \<Rightarrow> int \<Rightarrow> int \<Rightarrow> int" where
  "streamFileSize ts torrentIndex fileIndex =
     (case stream_torrent ts torrentIndex of
        None \<Rightarrow> 0
      | Some t \<Rightarrow> (case stream_file t fileIndex of None \<Rightarrow> 0 | Some (off, sz) \<Rightarrow> sz))"

definition streamByteAvailable :: "StreamTorrent option list \<Rightarrow> int \<Rightarrow> int \<Rightarrow> int \<Rightarrow> bool" where
  "streamByteAvailable ts torrentIndex fileIndex byteInFile =
     (case stream_torrent ts torrentIndex of
        None \<Rightarrow> False
      | Some t \<Rightarrow>
          (case stream_file t fileIndex of
             None \<Rightarrow> False
           | Some (fileOffset, sz) \<Rightarrow>
               if tv_pieceSize t \<le> 0 then False
               else
                 let piece = cdiv (fileOffset + byteInFile) (tv_pieceSize t) in
                 if piece < 0 \<or> numPieces t \<le> piece then False else have_piece (tv_have t) piece))"

text \<open>The same loop as in \<open>contiguousRun\<close>, over the torrent's pieces.\<close>

definition streamContiguousAvailableBytes ::
  "StreamTorrent option list \<Rightarrow> int \<Rightarrow> int \<Rightarrow> int \<Rightarrow> int \<Rightarrow> int" where
  "streamContiguousAvailableBytes ts torrentIndex fileIndex fromByte cap =
     (case stream_torrent ts torrentIndex of
        None \<Rightarrow> 0
      | Some t \<Rightarrow>
          (case stream_file t fileIndex of
             None \<Rightarrow> 0
           | Some (fileOffset, fileSize) \<Rightarrow>
               if tv_pieceSize t \<le> 0 then 0
               else if fromByte < 0 \<or> fileSize \<le> fromByte then 0
               else
                 let globalPos = fileOffset + fromByte; piece = cdiv globalPos (tv_pieceSize t) in
                 if piece < 0 \<or> numPieces t \<le> piece \<or> \<not> have_piece (tv_have t) piece then 0
                 else
                   let fin = extend_run (tv_have t) (tv_pieceSize t) globalPos cap
                                ((piece + 1) * tv_pieceSize t)
                   in min cap (min fin (fileOffset + fileSize) - globalPos)))"

section \<open>The deadline window\<close>

definition set_piece_deadline :: "int \<Rightarrow> int \<Rightarrow> StreamTorrent \<Rightarrow> StreamTorrent" where
  "set_piece_deadline p ms t = t\<lparr>tv_deadlines := (tv_deadlines t)(p \<mapsto> ms)\<rparr>"

definition deadline_missing :: "(int \<Rightarrow> int) \<Rightarrow> int list \<Rightarrow> StreamTorrent \<Rightarrow> StreamTorrent" where
  "deadline_missing ms ps t =
     fold (\<lambda>p u. if have_piece (tv_have u) p then u else set_piece_deadline p (ms p) u) ps t"

definition window_level :: "int \<Rightarrow> int \<Rightarrow> int \<Rightarrow> int \<Rightarrow> int \<Rightarrow> int" where
  "window_level firstPiece lst nearEnd lastFilePiece p =
     (if lastFilePiece - kTailPieces < p then 7
      else if p < firstPiece then 1
      else if p \<le> lst then 7
      else if p \<le> nearEnd then 6
      else 4)"

definition window_prio :: "int \<Rightarrow> int \<Rightarrow> int \<Rightarrow> int \<Rightarrow> int \<Rightarrow> int list \<Rightarrow> int list" where
  "window_prio fileFirst firstPiece lst nearEnd lastFilePiece prio =
     map (\<lambda>i. if fileFirst \<le> int i \<and> int i \<le> lastFilePiece
              then window_level firstPiece lst nearEnd lastFilePiece (int i) else prio ! i)
       [0..<length prio]"

text \<open>The geometry of a call: the reader's byte, its piece, the file's last piece, the window.\<close>

definition reader_off :: "int \<Rightarrow> int \<Rightarrow> int \<Rightarrow> int" where
  "reader_off fileOffset fileSize startByte = fileOffset + clamp_int startByte 0 (fileSize - 1)"

definition win_first :: "int \<Rightarrow> int \<Rightarrow> int \<Rightarrow> StreamTorrent \<Rightarrow> int" where
  "win_first fileOffset fileSize startByte t =
     cdiv (reader_off fileOffset fileSize startByte) (tv_pieceSize t)"

definition win_lastFile :: "int \<Rightarrow> int \<Rightarrow> StreamTorrent \<Rightarrow> int" where
  "win_lastFile fileOffset fileSize t =
     min (cdiv (fileOffset + fileSize - 1) (tv_pieceSize t)) (numPieces t - 1)"

definition win_size :: "int \<Rightarrow> int \<Rightarrow> StreamTorrent \<Rightarrow> int" where
  "win_size fileSize wanted t =
     (if 0 < wanted then wanted else windowPieces (tv_pieceSize t) fileSize)"

definition win_last :: "int \<Rightarrow> int \<Rightarrow> int \<Rightarrow> int \<Rightarrow> StreamTorrent \<Rightarrow> int" where
  "win_last fileOffset fileSize startByte wanted t =
     min (win_first fileOffset fileSize startByte t + win_size fileSize wanted t - 1)
       (win_lastFile fileOffset fileSize t)"

text \<open>The function for a file of a torrent with pieces, after its guards.\<close>

definition window_step :: "int \<Rightarrow> int \<Rightarrow> int \<Rightarrow> int \<Rightarrow> int \<Rightarrow> StreamTorrent \<Rightarrow> StreamTorrent" where
  "window_step fileIndex fileOffset fileSize startByte wanted t =
     (let off = reader_off fileOffset fileSize startByte;
          firstPiece = win_first fileOffset fileSize startByte t;
          lastFilePiece = win_lastFile fileOffset fileSize t;
          lst = win_last fileOffset fileSize startByte wanted t
      in case find (\<lambda>p. \<not> have_piece (tv_have t) p) [firstPiece..lst] of
           None \<Rightarrow> t
         | Some firstMissing \<Rightarrow>
             let t1 = t\<lparr>tv_streamed := True\<rparr>; w = tv_window t in
             if sw_file w = fileIndex \<and> sw_first w = firstPiece \<and> sw_firstMissing w = firstMissing
             then t1
             else if lastFilePiece - kTailPieces < firstPiece \<and> sw_file w = fileIndex
             then deadline_missing (\<lambda>_. 0) [firstMissing..lst] t1
             else
               let jumped = (sw_file w \<noteq> fileIndex \<or> firstPiece < sw_first w \<or> sw_last w < firstPiece);
                   t2 = (if jumped \<and> 0 \<le> sw_file w
                         then deadline_missing (\<lambda>_. 2000)
                                [max (cdiv fileOffset (tv_pieceSize t))
                                   (lastFilePiece - kTailPieces + 1)..lastFilePiece]
                                (t1\<lparr>tv_deadlines := (\<lambda>_. None)\<rparr>)
                         else t1);
                   moved = (sw_file w \<noteq> fileIndex \<or> sw_first w \<noteq> firstPiece);
                   t3 = t2\<lparr>tv_window := \<lparr>sw_file = fileIndex, sw_firstMissing = firstMissing,
                                         sw_first = firstPiece, sw_last = lst\<rparr>\<rparr>;
                   nearEnd = min (lst + win_size fileSize wanted t * kNearAheadWindows) lastFilePiece;
                   t4 = (if moved
                         then t3\<lparr>tv_prio := window_prio (cdiv fileOffset (tv_pieceSize t)) firstPiece
                                             lst nearEnd lastFilePiece (tv_prio t3)\<rparr>
                         else t3)
               in deadline_missing (\<lambda>p. deadlineMs (p * tv_pieceSize t - off) fileSize)
                    [firstMissing..lst] t4)"

definition streamSetDeadlineWindow ::
  "int \<Rightarrow> int \<Rightarrow> int \<Rightarrow> int \<Rightarrow> StreamTorrent option list \<Rightarrow> StreamTorrent option list" where
  "streamSetDeadlineWindow torrentIndex fileIndex startByte wanted ts =
     (case stream_torrent ts torrentIndex of
        None \<Rightarrow> ts
      | Some t \<Rightarrow>
          (case stream_file t fileIndex of
             None \<Rightarrow> ts
           | Some (fileOffset, fileSize) \<Rightarrow>
               if tv_pieceSize t \<le> 0 \<or> fileSize \<le> 0 then ts
               else ts[nat torrentIndex :=
                      Some (window_step fileIndex fileOffset fileSize startByte wanted t)]))"

section \<open>The run is the longest readable one\<close>

lemma next_multiple:
  fixes x k :: int
  assumes "0 < k"
  shows "x < (x div k + 1) * k" "x div k * k \<le> x"
proof -
  have "x div k * k + x mod k = x" by (rule div_mult_mod_eq)
  moreover have "x mod k < k" "0 \<le> x mod k" using assms by simp_all
  moreover have "(x div k + 1) * k = x div k * k + k" by (simp add: distrib_right)
  ultimately show "x < (x div k + 1) * k" "x div k * k \<le> x" by linarith+
qed

lemma block_div:
  fixes g k a :: int
  assumes "0 < k" "a * k \<le> g" "g < (a + 1) * k"
  shows "g div k = a"
proof (rule int_div_pos_eq)
  show "g = k * a + (g - a * k)" by (simp add: mult.commute)
  have "(a + 1) * k = a * k + k" by (simp add: distrib_right)
  then show "g - a * k < k" using assms(3) by linarith
qed (use assms(2) in simp)

lemma extend_run_spec:
  assumes "0 < ps" "0 \<le> globalPos" "globalPos < fin" "fin mod ps = 0"
    and "\<forall>g. globalPos \<le> g \<and> g < fin \<longrightarrow> have_piece hv (g div ps)"
  shows "let e = extend_run hv ps globalPos cap fin in
           fin \<le> e \<and> (\<forall>g. globalPos \<le> g \<and> g < e \<longrightarrow> have_piece hv (g div ps))
           \<and> (e - globalPos < cap \<longrightarrow> \<not> have_piece hv (e div ps))"
  using assms
proof (induction hv ps globalPos cap fin rule: extend_run.induct)
  case (1 h ps globalPos cap fin)
  show ?case
  proof (cases "cap \<le> fin - globalPos")
    case True
    then show ?thesis using 1 by (subst extend_run.simps) (simp add: Let_def)
  next
    case False
    note c = False
    show ?thesis
    proof (cases "have_piece h (fin div ps)")
      case False
      then have "extend_run h ps globalPos cap fin = fin"
        by (subst extend_run.simps) (simp add: Let_def)
      then show ?thesis using 1 False by (simp add: Let_def)
    next
      case True
      let ?e = "(fin div ps + 1) * ps"
      have ee: "fin div ps * ps = fin" by (metis "1.prems"(4) add.right_neutral div_mult_mod_eq)
      have e: "?e = fin + ps" by (simp only: distrib_right ee mult_1)
      have step: "extend_run h ps globalPos cap fin = extend_run h ps globalPos cap ?e"
        using c True 1 by (subst extend_run.simps) (simp add: Let_def have_piece_def)
      have "have_piece h (g div ps)" if "globalPos \<le> g" "g < ?e" for g
      proof (cases "g < fin")
        case True
        then show ?thesis using 1 that by blast
      next
        case False
        then have "g div ps = fin div ps"
          using that by (intro block_div [OF 1(2)]) (simp_all add: ee)
        then show ?thesis using True by simp
      qed
      moreover have hp: "fin div ps < int (length h)" using True by (simp add: have_piece_def)
      moreover have "?e mod ps = 0" by simp
      ultimately have "let x = extend_run h ps globalPos cap ?e in
           ?e \<le> x \<and> (\<forall>g. globalPos \<le> g \<and> g < x \<longrightarrow> have_piece h (g div ps))
           \<and> (x - globalPos < cap \<longrightarrow> \<not> have_piece h (x div ps))"
        using 1 c True e by (intro "1.IH") auto
      then show ?thesis using e 1(2) unfolding step Let_def by auto
    qed
  qed
qed

lemma contiguous_run_core:
  assumes "0 < pieceSize" "0 \<le> fileOffset" "0 \<le> fromByte" "fromByte < fileSize" "0 < cap"
  shows "have_piece hv ((fileOffset + fromByte) div pieceSize) \<longleftrightarrow>
           0 < contiguousRun hv pieceSize fileOffset fileSize fromByte cap"
proof (cases "have_piece hv ((fileOffset + fromByte) div pieceSize)")
  case False
  then show ?thesis by (simp add: contiguousRun_def Let_def)
next
  case True
  let ?g = "fileOffset + fromByte"
  let ?start = "(?g div pieceSize + 1) * pieceSize"
  have g: "?g < ?start" using next_multiple(1) [OF assms(1)] by simp
  have m: "e \<le> extend_run hv pieceSize ?g cap e" for e
  proof (induction hv pieceSize ?g cap e rule: extend_run.induct)
    case (1 h ps cap e)
    show ?case
    proof (cases "ps \<le> 0 \<or> e < 0 \<or> cap \<le> e - ?g \<or> int (length h) \<le> e div ps \<or> \<not> have_piece h (e div ps)")
      case True
      then show ?thesis by (subst extend_run.simps) (auto simp: Let_def)
    next
      case False
      have "e < (e div ps + 1) * ps" using False by (intro next_multiple) simp
      then show ?thesis
        using 1 False by (subst extend_run.simps) (auto simp: Let_def)
    qed
  qed
  have "?g < extend_run hv pieceSize ?g cap ?start" using g m by (rule less_le_trans)
  then show ?thesis
    using True assms by (auto simp: contiguousRun_def Let_def have_piece_def)
qed

text \<open>
  what the gate offers a reader at a byte is exactly the longest run that can be read from
  there: every byte of it lies in a piece that is complete, it stays inside the file and the cap,
  and unless it reaches one of them the byte after it is in a piece that is missing.
\<close>

theorem contiguous_run_longest:
  assumes "0 < pieceSize" "0 \<le> fileOffset" "0 \<le> fromByte" "fromByte < fileSize" "0 < cap"
  shows "let n = contiguousRun hv pieceSize fileOffset fileSize fromByte cap in
           0 \<le> n \<and> n \<le> cap \<and> fromByte + n \<le> fileSize
           \<and> (\<forall>b. fromByte \<le> b \<and> b < fromByte + n \<longrightarrow> have_piece hv ((fileOffset + b) div pieceSize))
           \<and> (n < cap \<and> fromByte + n < fileSize \<longrightarrow>
                \<not> have_piece hv ((fileOffset + fromByte + n) div pieceSize))"
proof -
  let ?g = "fileOffset + fromByte"
  let ?start = "(?g div pieceSize + 1) * pieceSize"
  show ?thesis
  proof (cases "have_piece hv (?g div pieceSize)")
    case False
    then have "contiguousRun hv pieceSize fileOffset fileSize fromByte cap = 0"
      by (simp add: contiguousRun_def Let_def)
    then show ?thesis using False assms unfolding Let_def by auto
  next
    case True
    let ?e = "extend_run hv pieceSize ?g cap ?start"
    have le: "?g div pieceSize * pieceSize \<le> ?g" "?g < ?start"
      by (rule next_multiple [OF assms(1)])+
    have "g div pieceSize = ?g div pieceSize" if "?g \<le> g" "g < ?start" for g
      using that le by (intro block_div [OF assms(1)]) simp_all
    then have "\<forall>g. ?g \<le> g \<and> g < ?start \<longrightarrow> have_piece hv (g div pieceSize)"
      using True by metis
    then have sp: "?start \<le> ?e" "\<forall>g. ?g \<le> g \<and> g < ?e \<longrightarrow> have_piece hv (g div pieceSize)"
      "?e - ?g < cap \<longrightarrow> \<not> have_piece hv (?e div pieceSize)"
      using extend_run_spec [of pieceSize ?g ?start hv cap] assms le by (auto simp: Let_def)
    have n: "contiguousRun hv pieceSize fileOffset fileSize fromByte cap =
        min cap (min ?e (fileOffset + fileSize) - ?g)"
      using assms True by (simp add: contiguousRun_def Let_def have_piece_def)
    have "have_piece hv ((fileOffset + b) div pieceSize)"
      if "fromByte \<le> b" "b < fromByte + min cap (min ?e (fileOffset + fileSize) - ?g)" for b
      using sp(2) that by (auto simp: min_def split: if_splits)
    moreover have "\<not> have_piece hv ((fileOffset + fromByte
          + min cap (min ?e (fileOffset + fileSize) - ?g)) div pieceSize)"
      if a: "min cap (min ?e (fileOffset + fileSize) - ?g) < cap"
        "fromByte + min cap (min ?e (fileOffset + fileSize) - ?g) < fileSize"
    proof -
      have "min cap (min ?e (fileOffset + fileSize) - ?g) = ?e - ?g"
        using a by (auto simp: min_def split: if_splits)
      then show ?thesis using sp(3) a by (simp add: algebra_simps)
    qed
    ultimately show ?thesis
      using assms sp(1) le unfolding n Let_def by auto
  qed
qed

text \<open>
  the engine in its own process answers the player from a copy of the piece map, the engine in
  the app from libtorrent: the two give the same run for every reader, and a byte is available
  exactly when a run starts there.
\<close>

theorem local_and_remote_runs_agree:
  assumes "stream_torrent ts torrentIndex = Some t"
    and "stream_file t fileIndex = Some (fileOffset, fileSize)"
    and "0 \<le> fileOffset" "0 < cap"
  shows "streamContiguousAvailableBytes ts torrentIndex fileIndex fromByte cap =
           contiguousRun (tv_have t) (tv_pieceSize t) fileOffset fileSize fromByte cap
         \<and> (0 \<le> fromByte \<and> fromByte < fileSize \<longrightarrow>
              (streamByteAvailable ts torrentIndex fileIndex fromByte \<longleftrightarrow>
               0 < streamContiguousAvailableBytes ts torrentIndex fileIndex fromByte cap))"
proof -
  let ?c = "contiguousRun (tv_have t) (tv_pieceSize t) fileOffset fileSize fromByte cap"
  have cd: "cdiv (fileOffset + fromByte) (tv_pieceSize t) = (fileOffset + fromByte) div tv_pieceSize t"
    if "0 < tv_pieceSize t" "0 \<le> fromByte"
    using that assms(3) by (simp add: cdiv_nonneg)
  have dn: "0 \<le> (fileOffset + fromByte) div tv_pieceSize t" if "0 < tv_pieceSize t" "0 \<le> fromByte"
    using that assms(3) by (simp add: pos_imp_zdiv_nonneg_iff)
  have eq: "streamContiguousAvailableBytes ts torrentIndex fileIndex fromByte cap = ?c"
    using assms cd dn
    by (auto simp: streamContiguousAvailableBytes_def contiguousRun_def Let_def numPieces_def
        not_less not_le dest: leD)
  have "(streamByteAvailable ts torrentIndex fileIndex fromByte \<longleftrightarrow> 0 < ?c)"
    if f: "0 \<le> fromByte" "fromByte < fileSize"
  proof (cases "0 < tv_pieceSize t")
    case True
    note run = contiguous_run_core [OF True assms(3) f assms(4), of "tv_have t"]
    have "streamByteAvailable ts torrentIndex fileIndex fromByte \<longleftrightarrow>
        have_piece (tv_have t) ((fileOffset + fromByte) div tv_pieceSize t)"
      using assms True cd dn f
      by (simp add: streamByteAvailable_def Let_def numPieces_def have_piece_def)
    then show ?thesis using run by blast
  next
    case False
    then show ?thesis
      using assms by (simp add: streamByteAvailable_def contiguousRun_def)
  qed
  then show ?thesis using eq by simp
qed

section \<open>The window\<close>

lemma deadline_missing_have [simp]:
  "tv_have (deadline_missing ms ps t) = tv_have t"
  "tv_window (deadline_missing ms ps t) = tv_window t"
  "tv_pieceSize (deadline_missing ms ps t) = tv_pieceSize t"
  "tv_streamed (deadline_missing ms ps t) = tv_streamed t"
  "tv_prio (deadline_missing ms ps t) = tv_prio t"
proof -
  have "tv_have (deadline_missing ms ps t) = tv_have t
    \<and> tv_window (deadline_missing ms ps t) = tv_window t
    \<and> tv_pieceSize (deadline_missing ms ps t) = tv_pieceSize t
    \<and> tv_streamed (deadline_missing ms ps t) = tv_streamed t
    \<and> tv_prio (deadline_missing ms ps t) = tv_prio t"
    unfolding deadline_missing_def
    by (induction ps arbitrary: t) (simp_all add: set_piece_deadline_def)
  then show "tv_have (deadline_missing ms ps t) = tv_have t"
    "tv_window (deadline_missing ms ps t) = tv_window t"
    "tv_pieceSize (deadline_missing ms ps t) = tv_pieceSize t"
    "tv_streamed (deadline_missing ms ps t) = tv_streamed t"
    "tv_prio (deadline_missing ms ps t) = tv_prio t" by simp_all
qed

lemma deadline_missing_eq:
  "deadline_missing ms ps t =
     t\<lparr>tv_deadlines := \<lambda>p. if p \<in> set ps \<and> \<not> have_piece (tv_have t) p then Some (ms p)
                           else tv_deadlines t p\<rparr>"
  unfolding deadline_missing_def
proof (induction ps arbitrary: t)
  case Nil
  then show ?case by simp
next
  case (Cons p ps)
  show ?case
  proof (cases "have_piece (tv_have t) p")
    case True
    then show ?thesis
      by (simp add: Cons.IH) (intro arg_cong [where f = "\<lambda>d. t\<lparr>tv_deadlines := d\<rparr>"], auto)
  next
    case False
    have h: "tv_have (set_piece_deadline p (ms p) t) = tv_have t"
      "tv_deadlines (set_piece_deadline p (ms p) t) = (tv_deadlines t)(p \<mapsto> ms p)"
      by (simp_all add: set_piece_deadline_def)
    have u: "(set_piece_deadline p (ms p) t)\<lparr>tv_deadlines := d\<rparr> = t\<lparr>tv_deadlines := d\<rparr>" for d
      by (simp add: set_piece_deadline_def)
    show ?thesis
      using False
      by (simp add: Cons.IH h(1) u)
        (intro arg_cong [where f = "\<lambda>d. t\<lparr>tv_deadlines := d\<rparr>"], auto simp: h(2))
  qed
qed

lemma deadline_missing_idem:
  "deadline_missing ms ps (deadline_missing ms ps t) = deadline_missing ms ps t"
proof -
  have h: "tv_have (t\<lparr>tv_deadlines := d\<rparr>) = tv_have t" for d by simp
  show ?thesis
    unfolding deadline_missing_eq h
    by (simp, intro arg_cong [where f = "\<lambda>d. t\<lparr>tv_deadlines := d\<rparr>"], auto)
qed

lemma deadlineMs_bounds: "0 \<le> deadlineMs d n \<and> deadlineMs d n \<le> 600000"
proof -
  have b: "0 < bytesPerSec n" by (simp add: bytesPerSec_def gate_constants max_def)
  show ?thesis
  proof (cases "d \<le> 0")
    case False
    then have "0 \<le> cdiv (d * 1000) (bytesPerSec n)"
      using b by (simp add: cdiv_nonneg pos_imp_zdiv_nonneg_iff)
    then show ?thesis by (simp add: deadlineMs_def)
  qed (simp add: deadlineMs_def)
qed

lemma deadlineMs_mono: "d \<le> e \<Longrightarrow> deadlineMs d n \<le> deadlineMs e n"
proof -
  assume de: "d \<le> e"
  have b: "0 < bytesPerSec n" by (simp add: bytesPerSec_def gate_constants max_def)
  show ?thesis
  proof (cases "0 < d")
    case True
    then have "d * 1000 div bytesPerSec n \<le> e * 1000 div bytesPerSec n"
      using b de by (intro zdiv_mono1) simp_all
    then show ?thesis using True de b by (auto simp: deadlineMs_def cdiv_nonneg)
  next
    case False
    then show ?thesis using deadlineMs_bounds [of e n] by (simp add: deadlineMs_def)
  qed
qed

abbreviation first_missing :: "int \<Rightarrow> int \<Rightarrow> int \<Rightarrow> int \<Rightarrow> StreamTorrent \<Rightarrow> int option" where
  "first_missing fo fs sb wanted t \<equiv>
     find (\<lambda>p. \<not> have_piece (tv_have t) p) [win_first fo fs sb t..win_last fo fs sb wanted t]"

lemma window_step_cases:
  obtains (whole) "first_missing fo fs sb wanted t = None" "window_step fi fo fs sb wanted t = t"
    | (same) fm where "first_missing fo fs sb wanted t = Some fm"
      "sw_file (tv_window t) = fi" "sw_first (tv_window t) = win_first fo fs sb t"
      "sw_firstMissing (tv_window t) = fm"
      "window_step fi fo fs sb wanted t = t\<lparr>tv_streamed := True\<rparr>"
    | (tail) fm where "first_missing fo fs sb wanted t = Some fm"
      "win_lastFile fo fs t - kTailPieces < win_first fo fs sb t" "sw_file (tv_window t) = fi"
      "\<not> (sw_first (tv_window t) = win_first fo fs sb t \<and> sw_firstMissing (tv_window t) = fm)"
      "window_step fi fo fs sb wanted t =
         deadline_missing (\<lambda>_. 0) [fm..win_last fo fs sb wanted t] (t\<lparr>tv_streamed := True\<rparr>)"
    | (shift) fm u where "first_missing fo fs sb wanted t = Some fm"
      "tv_have u = tv_have t" "tv_pieceSize u = tv_pieceSize t" "tv_streamed u"
      "tv_window u = \<lparr>sw_file = fi, sw_firstMissing = fm, sw_first = win_first fo fs sb t,
                      sw_last = win_last fo fs sb wanted t\<rparr>"
      "window_step fi fo fs sb wanted t =
         deadline_missing (\<lambda>p. deadlineMs (p * tv_pieceSize t - reader_off fo fs sb) fs)
           [fm..win_last fo fs sb wanted t] u"
proof (cases "first_missing fo fs sb wanted t")
  case None
  then show ?thesis by (intro whole) (simp_all add: window_step_def Let_def)
next
  case (Some fm)
  let ?w = "tv_window t" and ?fp = "win_first fo fs sb t" and ?lf = "win_lastFile fo fs t"
    and ?lst = "win_last fo fs sb wanted t"
  let ?A = "sw_file ?w = fi \<and> sw_first ?w = ?fp \<and> sw_firstMissing ?w = fm"
  let ?B = "?lf - kTailPieces < ?fp \<and> sw_file ?w = fi"
  consider (a) "?A" | (b) "\<not> ?A" "?B" | (c) "\<not> ?A" "\<not> ?B" by blast
  then show ?thesis
  proof cases
    case a
    then have "window_step fi fo fs sb wanted t = t\<lparr>tv_streamed := True\<rparr>"
      using Some by (simp add: window_step_def Let_def)
    with a Some show ?thesis by (intro same) simp_all
  next
    case b
    then have "window_step fi fo fs sb wanted t =
        deadline_missing (\<lambda>_. 0) [fm..?lst] (t\<lparr>tv_streamed := True\<rparr>)"
      using Some by (auto simp: window_step_def Let_def)
    with b Some show ?thesis by (intro tail) simp_all
  next
    case c
    let ?t1 = "t\<lparr>tv_streamed := True\<rparr>"
    let ?jumped = "sw_file ?w \<noteq> fi \<or> ?fp < sw_first ?w \<or> sw_last ?w < ?fp"
    let ?t2 = "if ?jumped \<and> 0 \<le> sw_file ?w
        then deadline_missing (\<lambda>_. 2000)
               [max (cdiv fo (tv_pieceSize t)) (?lf - kTailPieces + 1)..?lf]
               (?t1\<lparr>tv_deadlines := (\<lambda>_. None)\<rparr>) else ?t1"
    let ?t3 = "?t2\<lparr>tv_window := \<lparr>sw_file = fi, sw_firstMissing = fm, sw_first = ?fp, sw_last = ?lst\<rparr>\<rparr>"
    let ?t4 = "if sw_file ?w \<noteq> fi \<or> sw_first ?w \<noteq> ?fp
        then ?t3\<lparr>tv_prio := window_prio (cdiv fo (tv_pieceSize t)) ?fp ?lst
               (min (?lst + win_size fs wanted t * kNearAheadWindows) ?lf) ?lf (tv_prio ?t3)\<rparr> else ?t3"
    have "window_step fi fo fs sb wanted t =
        deadline_missing (\<lambda>p. deadlineMs (p * tv_pieceSize t - reader_off fo fs sb) fs) [fm..?lst] ?t4"
      unfolding window_step_def Let_def Some option.case if_not_P [OF c(1)] if_not_P [OF c(2)] ..
    moreover have "tv_have ?t4 = tv_have t" "tv_pieceSize ?t4 = tv_pieceSize t" "tv_streamed ?t4"
      "tv_window ?t4 = \<lparr>sw_file = fi, sw_firstMissing = fm, sw_first = ?fp, sw_last = ?lst\<rparr>"
      by simp_all
    ultimately show ?thesis using Some by (intro shift [of fm ?t4]) simp_all
  qed
qed

lemma window_geometry:
  assumes "tv_have u = tv_have t" "tv_pieceSize u = tv_pieceSize t"
  shows "first_missing fo fs sb wanted u = first_missing fo fs sb wanted t"
    "win_first fo fs sb u = win_first fo fs sb t" "win_last fo fs sb wanted u = win_last fo fs sb wanted t"
    "win_lastFile fo fs u = win_lastFile fo fs t"
  using assms
  by (simp_all add: win_first_def win_last_def win_lastFile_def win_size_def numPieces_def)

lemma window_step_same:
  assumes "first_missing fo fs sb wanted t = Some fm" "sw_file (tv_window t) = fi"
    "sw_first (tv_window t) = win_first fo fs sb t" "sw_firstMissing (tv_window t) = fm" "tv_streamed t"
  shows "window_step fi fo fs sb wanted t = t"
  using assms by (simp add: window_step_def Let_def)

text \<open>
  the deadline window follows the reader and only the reader. Asking again for the same place
  before anything arrived changes nothing, so repeated polls do not push deadlines back; and when
  something of the window is missing, the first missing piece is wanted at once by a call that
  moves the window, every missing piece of the window after it gets a deadline between 0 and ten
  minutes that never decreases with the distance, and no other missing piece is touched.
\<close>

theorem window_follows_reader:
  "let t' = window_step fi fo fs sb wanted t in
     window_step fi fo fs sb wanted t' = t'
     \<and> tv_have t' = tv_have t
     \<and> (\<forall>fm. first_missing fo fs sb wanted t = Some fm
          \<and> (sw_file (tv_window t) \<noteq> fi
             \<or> win_first fo fs sb t \<le> win_lastFile fo fs t - kTailPieces
               \<and> (sw_first (tv_window t) \<noteq> win_first fo fs sb t \<or> sw_firstMissing (tv_window t) \<noteq> fm)) \<longrightarrow>
          (\<forall>p q. fm \<le> p \<and> p \<le> q \<and> q \<le> win_last fo fs sb wanted t
               \<and> \<not> have_piece (tv_have t) p \<and> \<not> have_piece (tv_have t) q \<and> 0 < tv_pieceSize t \<longrightarrow>
             (\<exists>a b. tv_deadlines t' p = Some a \<and> tv_deadlines t' q = Some b
                \<and> 0 \<le> a \<and> a \<le> b \<and> b \<le> 600000))
          \<and> sw_first (tv_window t') = win_first fo fs sb t)"
proof -
  define t' where "t' = window_step fi fo fs sb wanted t"
  have hv: "tv_have t' = tv_have t" "tv_pieceSize t' = tv_pieceSize t"
    unfolding t'_def by (rule window_step_cases [of t fo fs sb wanted fi]; simp)+
  note geo = window_geometry [OF hv]
  have again: "window_step fi fo fs sb wanted t' = t'"
  proof (rule window_step_cases [of t fo fs sb wanted fi])
    assume "first_missing fo fs sb wanted t = None" "window_step fi fo fs sb wanted t = t"
    then show ?thesis by (simp add: t'_def)
  next
    fix fm
    assume "first_missing fo fs sb wanted t = Some fm" "sw_file (tv_window t) = fi"
      "sw_first (tv_window t) = win_first fo fs sb t" "sw_firstMissing (tv_window t) = fm"
      "window_step fi fo fs sb wanted t = t\<lparr>tv_streamed := True\<rparr>"
    then show ?thesis
      using geo by (intro window_step_same [of _ _ _ _ _ fm]) (simp_all add: t'_def)
  next
    fix fm
    assume f: "first_missing fo fs sb wanted t = Some fm"
      and b: "win_lastFile fo fs t - kTailPieces < win_first fo fs sb t" "sw_file (tv_window t) = fi"
        "\<not> (sw_first (tv_window t) = win_first fo fs sb t \<and> sw_firstMissing (tv_window t) = fm)"
      and s: "window_step fi fo fs sb wanted t =
         deadline_missing (\<lambda>_. 0) [fm..win_last fo fs sb wanted t] (t\<lparr>tv_streamed := True\<rparr>)"
    have w: "tv_window t' = tv_window t" "t'\<lparr>tv_streamed := True\<rparr> = t'"
      using s by (simp_all add: t'_def deadline_missing_eq)
    have "window_step fi fo fs sb wanted t' =
        deadline_missing (\<lambda>_. 0) [fm..win_last fo fs sb wanted t] (t'\<lparr>tv_streamed := True\<rparr>)"
      using f b geo by (auto simp: window_step_def Let_def w(1))
    also have "\<dots> = t'"
      unfolding w(2) by (simp add: t'_def s deadline_missing_idem)
    finally show ?thesis .
  next
    fix fm u
    assume "first_missing fo fs sb wanted t = Some fm"
      "tv_have u = tv_have t" "tv_pieceSize u = tv_pieceSize t" "tv_streamed u"
      "tv_window u = \<lparr>sw_file = fi, sw_firstMissing = fm, sw_first = win_first fo fs sb t,
                      sw_last = win_last fo fs sb wanted t\<rparr>"
      "window_step fi fo fs sb wanted t =
         deadline_missing (\<lambda>p. deadlineMs (p * tv_pieceSize t - reader_off fo fs sb) fs)
           [fm..win_last fo fs sb wanted t] u"
    then show ?thesis
      using geo by (intro window_step_same [of _ _ _ _ _ fm]) (simp_all add: t'_def)
  qed
  have moved: "(\<forall>p q. fm \<le> p \<and> p \<le> q \<and> q \<le> win_last fo fs sb wanted t
               \<and> \<not> have_piece (tv_have t) p \<and> \<not> have_piece (tv_have t) q \<and> 0 < tv_pieceSize t \<longrightarrow>
             (\<exists>a b. tv_deadlines t' p = Some a \<and> tv_deadlines t' q = Some b
                \<and> 0 \<le> a \<and> a \<le> b \<and> b \<le> 600000))
          \<and> sw_first (tv_window t') = win_first fo fs sb t"
    if f: "first_missing fo fs sb wanted t = Some fm"
      and m: "sw_file (tv_window t) \<noteq> fi
             \<or> win_first fo fs sb t \<le> win_lastFile fo fs t - kTailPieces
               \<and> (sw_first (tv_window t) \<noteq> win_first fo fs sb t \<or> sw_firstMissing (tv_window t) \<noteq> fm)"
    for fm
  proof (rule window_step_cases [of t fo fs sb wanted fi])
    fix fm' u
    assume f': "first_missing fo fs sb wanted t = Some fm'" and u: "tv_have u = tv_have t"
      and w: "tv_window u = \<lparr>sw_file = fi, sw_firstMissing = fm', sw_first = win_first fo fs sb t,
                      sw_last = win_last fo fs sb wanted t\<rparr>"
      and s: "window_step fi fo fs sb wanted t =
         deadline_missing (\<lambda>p. deadlineMs (p * tv_pieceSize t - reader_off fo fs sb) fs)
           [fm'..win_last fo fs sb wanted t] u"
    have fm: "fm' = fm" using f f' by simp
    let ?ms = "\<lambda>p. deadlineMs (p * tv_pieceSize t - reader_off fo fs sb) fs"
    have d: "tv_deadlines t' p = Some (?ms p)"
      if "fm \<le> p" "p \<le> win_last fo fs sb wanted t" "\<not> have_piece (tv_have t) p" for p
      using that by (simp add: t'_def s deadline_missing_eq fm u)
    have "?ms p \<le> ?ms q" if "p \<le> q" "0 < tv_pieceSize t" for p q
      using that by (intro deadlineMs_mono) (simp add: mult_right_mono)
    then show ?thesis
      using d deadlineMs_bounds w by (auto simp: t'_def s)
  qed (use f m in auto)
  show ?thesis
    using again hv moved unfolding Let_def t'_def [symmetric] by blast
qed

definition sample_stream :: StreamTorrent where
  "sample_stream = \<lparr>tv_pieceSize = 1000000, tv_files = [(0, 8000000)],
     tv_have = [True, False, True, False, False, False, False, False],
     tv_deadlines = (\<lambda>_. None), tv_prio = replicate 8 4,
     tv_window = \<lparr>sw_file = -1, sw_firstMissing = -1, sw_first = -1, sw_last = -1\<rparr>,
     tv_streamed = False\<rparr>"

theorem contiguous_run_longest_witness:
  "contiguousRun [True, True, False, True] 100 50 300 20 1000 \<le> 1000
   \<and> have_piece [True, True, False, True] ((50 + 149) div 100)"
proof -
  have n: "contiguousRun [True, True, False, True] 100 50 300 20 1000 = 130" by code_simp
  show ?thesis
    using contiguous_run_longest [of 100 50 20 300 1000 "[True, True, False, True]"]
    unfolding n Let_def by (auto dest: spec [of _ 149])
qed

theorem local_and_remote_runs_agree_witness:
  "streamContiguousAvailableBytes [None, Some sample_stream] 1 0 0 5000000 =
     contiguousRun (tv_have sample_stream) 1000000 0 8000000 0 5000000"
  using local_and_remote_runs_agree [of "[None, Some sample_stream]" 1 sample_stream 0 0 8000000 5000000 0]
  by (simp add: stream_torrent_def stream_file_def sample_stream_def)

theorem window_follows_reader_witness:
  "\<exists>a b. tv_deadlines (window_step 0 0 8000000 0 4 sample_stream) 1 = Some a
     \<and> tv_deadlines (window_step 0 0 8000000 0 4 sample_stream) 3 = Some b \<and> a \<le> b"
proof -
  have "first_missing 0 8000000 0 4 sample_stream = Some 1" "win_last 0 8000000 0 4 sample_stream = 3"
    "\<not> have_piece (tv_have sample_stream) 1" "\<not> have_piece (tv_have sample_stream) 3"
    "sw_file (tv_window sample_stream) \<noteq> 0" "0 < tv_pieceSize sample_stream"
    by code_simp+
  note facts = this
  let ?t = "window_step 0 0 8000000 0 4 sample_stream"
  note w = window_follows_reader [of 0 0 8000000 0 4 sample_stream, unfolded Let_def,
      THEN conjunct2, THEN conjunct2, rule_format, of 1]
  have "\<exists>a b. tv_deadlines ?t 1 = Some a \<and> tv_deadlines ?t 3 = Some b
      \<and> 0 \<le> a \<and> a \<le> b \<and> b \<le> 600000"
    by (rule conjunct1 [OF w, rule_format]) (use facts in simp_all)
  then show ?thesis by blast
qed

end
