(* ===== verification/MediaSniff.thy ===== *)
theory MediaSniff
  imports QtText
begin

text \<open>
  What a file named like a video really is: \<open>services/security/mediasniff.cpp\<close>, and the warning about
  suspicious files of \<open>services/security/suspiciousscan.cpp\<close>. The head of a file is a byte string. The
  C++ code reads 32- and 64-bit numbers out of it without a check of its own; here such a read is
  \<open>None\<close> outside the head, and the functions that use it give \<open>None\<close> with it.
\<close>

section \<open>Reading the head\<close>

text \<open>Byte strings of the code's literals: characters, or the numbers of an escape.\<close>

definition ascii :: "string \<Rightarrow> bytes" where
  "ascii s = map of_char s"

definition hex :: "nat list \<Rightarrow> bytes" where
  "hex ns = map of_nat ns"

definition sig_at :: "bytes \<Rightarrow> int \<Rightarrow> bytes \<Rightarrow> bool" where
  "sig_at b off sig =
     (if off < 0 \<or> int (length b) < off + int (length sig) then False
      else take (length sig) (drop (nat off) b) = sig)"

definition byte_at :: "bytes \<Rightarrow> int \<Rightarrow> int option" where
  "byte_at b off = (if off < 0 \<or> int (length b) \<le> off then None else Some (uint (b ! nat off)))"

definition le32 :: "bytes \<Rightarrow> int \<Rightarrow> int option" where
  "le32 b off =
     (case (byte_at b off, byte_at b (off + 1), byte_at b (off + 2), byte_at b (off + 3)) of
        (Some p0, Some p1, Some p2, Some p3) \<Rightarrow>
          Some (p0 + 256 * p1 + 65536 * p2 + 16777216 * p3)
      | _ \<Rightarrow> None)"

definition le64 :: "bytes \<Rightarrow> int \<Rightarrow> int option" where
  "le64 b off =
     (case (le32 b off, le32 b (off + 4)) of
        (Some lo, Some hi) \<Rightarrow> Some (lo + 4294967296 * hi)
      | _ \<Rightarrow> None)"

section \<open>Signatures\<close>

definition kAsfHeader :: bytes where
  "kAsfHeader = hex [0x30,0x26,0xB2,0x75,0x8E,0x66,0xCF,0x11,0xA6,0xD9,0x00,0xAA,0x00,0x62,0xCE,0x6C]"

definition kAsfEncryption :: bytes where
  "kAsfEncryption =
     hex [0xFB,0xB3,0x11,0x22,0x23,0xBD,0xD2,0x11,0xB4,0xB7,0x00,0xA0,0xC9,0x55,0xFC,0x6E]"

definition kAsfExtEncrypt :: bytes where
  "kAsfExtEncrypt =
     hex [0x14,0xE6,0x8A,0x29,0x22,0x26,0x17,0x4C,0xB9,0x35,0xDA,0xE0,0x7E,0xE9,0x28,0x9C]"

definition kAsfScript :: bytes where
  "kAsfScript =
     hex [0x30,0x1A,0xFB,0x1E,0x62,0x0B,0xD0,0x11,0xA3,0x9B,0x00,0xA0,0xC9,0x03,0x48,0xF6]"

definition isPortableExecutable :: "bytes \<Rightarrow> bool option" where
  "isPortableExecutable b =
     (if \<not> sig_at b 0 (ascii ''MZ'') \<or> length b < 64 then Some False
      else map_option (\<lambda>off. sig_at b off (hex [0x50, 0x45, 0, 0])) (le32 b 0x3C))"

definition synced :: "bytes \<Rightarrow> int \<Rightarrow> int \<Rightarrow> bool" where
  "synced b start stride =
     list_all (\<lambda>i. byte_at b (start + i * stride) = Some 0x47) [0, 1, 2]"

definition isTransportStream :: "bytes \<Rightarrow> bool" where
  "isTransportStream b \<longleftrightarrow> synced b 0 188 \<or> synced b 4 192"

text \<open>\<open>QChar::isSpace\<close> on a byte, and \<open>QByteArray::toLower\<close> (ASCII letters only).\<close>

definition byte_space :: "byte \<Rightarrow> bool" where
  "byte_space c \<longleftrightarrow> (let n = uint c in (9 \<le> n \<and> n \<le> 13) \<or> n = 32 \<or> n = 133 \<or> n = 160)"

definition byte_lower :: "byte \<Rightarrow> byte" where
  "byte_lower c = (if 65 \<le> uint c \<and> uint c \<le> 90 then c + 32 else c)"

definition bytes_start :: "bytes \<Rightarrow> bytes \<Rightarrow> bool" where
  "bytes_start p b \<longleftrightarrow> take (length p) b = p"

text \<open>White space is skipped up to offset 512.\<close>

definition isWebPage :: "bytes \<Rightarrow> bool" where
  "isWebPage b =
     (let i = (if sig_at b 0 (hex [0xEF, 0xBB, 0xBF]) then 3 else 0);
          skipped = length (takeWhile byte_space (take (512 - i) (drop i b)));
          lead = map byte_lower (take 16 (drop (i + skipped) b))
      in bytes_start (ascii ''<!doctype html'') lead \<or> bytes_start (ascii ''<html'') lead
         \<or> bytes_start (ascii ''<script'') lead \<or> bytes_start (ascii ''<asx'') lead)"

section \<open>The verdict\<close>

datatype Kind = KUnknown | Matroska | Mp4 | Avi | MpegTs | MpegPs | Flv | Asf
  | Executable | Archive | Document | WebPage

datatype Verdict = NeedMore | VOk | Disguised | Lure

definition kHeadBytes :: int where "kHeadBytes = 64 * 1024"

definition headWanted :: "int \<Rightarrow> int" where
  "headWanted fileSize = clamp_int fileSize 0 kHeadBytes"

definition any_sig :: "bytes \<Rightarrow> int \<Rightarrow> bytes list \<Rightarrow> bool" where
  "any_sig b off sigs = list_ex (sig_at b off) sigs"

definition identify :: "bytes \<Rightarrow> Kind option" where
  "identify b =
     (if sig_at b 0 (hex [0x1A, 0x45, 0xDF, 0xA3]) then Some Matroska
      else if sig_at b 0 kAsfHeader then Some Asf
      else if any_sig b 4 (map ascii [''ftyp'', ''moov'', ''mdat'', ''free'', ''skip'', ''wide'', ''pnot''])
      then Some Mp4
      else if sig_at b 0 (ascii ''RIFF'') \<and> any_sig b 8 [ascii ''AVI '', ascii ''AVIX''] then Some Avi
      else if sig_at b 0 (hex [0x46, 0x4C, 0x56, 1]) then Some Flv
      else if any_sig b 0 [hex [0, 0, 1, 0xBA], hex [0, 0, 1, 0xB3]] then Some MpegPs
      else if isTransportStream b then Some MpegTs
      else
        map_option (\<lambda>pe.
          if pe \<or> any_sig b 0
               [hex [0x7F, 0x45, 0x4C, 0x46], hex [0xFE, 0xED, 0xFA, 0xCE], hex [0xFE, 0xED, 0xFA, 0xCF],
                hex [0xCE, 0xFA, 0xED, 0xFE], hex [0xCF, 0xFA, 0xED, 0xFE], hex [0xCA, 0xFE, 0xBA, 0xBE],
                hex [0x4C, 0, 0, 0, 1, 0x14, 2, 0], ascii ''#!'']
          then Executable
          else if any_sig b 0
               [hex [0x50, 0x4B, 3, 4], hex [0x50, 0x4B, 5, 6], hex [0x52, 0x61, 0x72, 0x21, 0x1A, 7],
                hex [0x37, 0x7A, 0xBC, 0xAF, 0x27, 0x1C], hex [0x1F, 0x8B], ascii ''MSCF'']
          then Archive
          else if any_sig b 0 [ascii ''%PDF-'', hex [0xD0, 0xCF, 0x11, 0xE0, 0xA1, 0xB1, 0x1A, 0xE1]]
          then Document
          else if isWebPage b then WebPage
          else KUnknown) (isPortableExecutable b))"

text \<open>The walk over the objects of an ASF header, from offset \<open>off\<close> up to \<open>fin\<close>.\<close>

function asf_walk :: "bytes \<Rightarrow> int \<Rightarrow> int \<Rightarrow> bool option" where
  "asf_walk b fin off =
     (if fin < off + 24 then Some False
      else if any_sig b off [kAsfEncryption, kAsfExtEncrypt, kAsfScript] then Some True
      else case le64 b (off + 16) of
             None \<Rightarrow> None
           | Some sz \<Rightarrow>
               if sz < 24 \<or> fin - off < sz then Some False else asf_walk b fin (off + sz))"
  by pat_completeness auto
termination
  by (relation "measure (\<lambda>(b, fin, off). nat (fin - off))") auto

declare asf_walk.simps [simp del]

definition asfHasLure :: "bytes \<Rightarrow> bool option" where
  "asfHasLure b =
     (if \<not> sig_at b 0 kAsfHeader \<or> length b < 30 then Some False
      else case le64 b 16 of
             None \<Rightarrow> None
           | Some sz \<Rightarrow> asf_walk b (min sz (int (length b))) 30)"

definition judge :: "bytes \<Rightarrow> int \<Rightarrow> Verdict option" where
  "judge head fileSize =
     (if fileSize \<le> 0 \<or> int (length head) < headWanted fileSize then Some NeedMore
      else case identify head of
             None \<Rightarrow> None
           | Some k \<Rightarrow>
               if k \<in> {Executable, Archive, Document, WebPage} then Some Disguised
               else if k = Asf then map_option (\<lambda>l. if l then Lure else VOk) (asfHasLure head)
               else Some VOk)"

definition kindKey :: "Kind \<Rightarrow> string" where
  "kindKey k = (case k of
     Executable \<Rightarrow> ''program'' | Archive \<Rightarrow> ''archive'' | Document \<Rightarrow> ''document''
   | WebPage \<Rightarrow> ''webpage'' | _ \<Rightarrow> ''unknown'')"

section \<open>Names\<close>

text \<open>\<open>QFileInfo\<close>: the last component, its suffix and what is before the suffix.\<close>

definition fi_fileName :: "string \<Rightarrow> string" where
  "fi_fileName p = after_last CHR ''/'' p"

definition fi_suffix :: "string \<Rightarrow> string" where
  "fi_suffix p = (let n = fi_fileName p in if CHR ''.'' \<in> set n then after_last CHR ''.'' n else [])"

definition fi_completeBaseName :: "string \<Rightarrow> string" where
  "fi_completeBaseName p = (let n = fi_fileName p in if CHR ''.'' \<in> set n then before_last CHR ''.'' n else n)"

definition sniffExts :: "string list" where
  "sniffExts = [''mkv'', ''mp4'', ''avi'', ''mov'', ''wmv'', ''m4v'', ''ts'', ''flv'', ''webm'', ''m2ts'',
     ''mpg'', ''mpeg'']"

definition isVideoName :: "string \<Rightarrow> bool" where
  "isVideoName name =
     (let n = (if ends_with ''.!bt'' name then chop 4 name else name)
      in to_lower (fi_suffix n) \<in> set sniffExts)"

section \<open>Suspicious files of a torrent\<close>

definition execExts :: "string list" where
  "execExts = [''exe'', ''scr'', ''bat'', ''cmd'', ''com'', ''pif'', ''lnk'', ''js'', ''vbs'', ''hta'', ''wsf'',
     ''ps1'', ''jar'', ''apk'', ''msi'']"

definition audioExts :: "string list" where
  "audioExts = [''mp3'', ''flac'', ''wav'', ''aac'', ''ogg'', ''m4a'', ''wma'', ''opus'', ''alac'', ''aiff'']"

definition lureExts :: "string list" where
  "lureExts = [''mkv'', ''mp4'', ''avi'', ''mov'', ''wmv'', ''m4v'', ''ts'', ''flv'', ''webm'', ''mpg'', ''mpeg'',
     ''mp3'', ''flac'', ''wav'', ''aac'', ''ogg'', ''m4a'', ''jpg'', ''jpeg'', ''png'', ''gif'', ''bmp'', ''webp'',
     ''pdf'', ''doc'', ''docx'', ''xls'', ''xlsx'', ''ppt'', ''txt'', ''srt'', ''sub'', ''epub'', ''zip'', ''rar'']"

definition codecish :: "string list" where
  "codecish = [''setup'', ''install'', ''installer'', ''codec'', ''player'', ''activex'', ''crack'', ''keygen'',
     ''activator'', ''patch'']"

definition has_sub :: "string \<Rightarrow> string \<Rightarrow> bool" where
  "has_sub p s = list_ex (\<lambda>i. starts_with p (drop i s)) [0..<Suc (length s)]"

definition is_media :: "string \<Rightarrow> bool" where
  "is_media p \<longleftrightarrow> isVideoName p \<or> to_lower (fi_suffix p) \<in> set audioExts"

definition mediaDominant :: "(string \<times> int) list \<Rightarrow> bool" where
  "mediaDominant files =
     (let total = sum_list (map snd files);
          media = sum_list (map snd (filter (\<lambda>f. is_media (fst f)) files))
      in 0 < total \<and> total * 6 \<le> media * 10)"

definition scan_file :: "bool \<Rightarrow> string \<Rightarrow> string option" where
  "scan_file dominant p =
     (let name = to_lower (fi_fileName p); ext = to_lower (fi_suffix p);
          innerExt = to_lower (fi_suffix (to_lower (fi_completeBaseName p)))
      in if ext \<in> set execExts \<and> innerExt \<in> set lureExts \<and> innerExt \<noteq> [] then Some ''double_ext''
         else if ext \<notin> set execExts then None
         else if dominant
         then Some (if list_ex (\<lambda>kw. has_sub kw name) codecish then ''fake_codec'' else ''exe_in_media'')
         else None)"

definition susp_scan :: "(string \<times> int) list \<Rightarrow> (string \<times> string) list" where
  "susp_scan files =
     List.map_filter (\<lambda>f. map_option (Pair (fst f)) (scan_file (mediaDominant files) (fst f))) files"

section \<open>Reads stay inside the head\<close>

lemma byte_at_Some: "0 \<le> off \<Longrightarrow> off < int (length b) \<Longrightarrow> \<exists>v. byte_at b off = Some v"
  by (auto simp: byte_at_def)

lemma le32_Some: "0 \<le> off \<Longrightarrow> off + 4 \<le> int (length b) \<Longrightarrow> \<exists>v. le32 b off = Some v"
  by (simp add: le32_def byte_at_def)

lemma le64_Some: "0 \<le> off \<Longrightarrow> off + 8 \<le> int (length b) \<Longrightarrow> \<exists>v. le64 b off = Some v"
  using le32_Some [of off b] le32_Some [of "off + 4" b] by (auto simp: le64_def)

lemma isPortableExecutable_Some: "\<exists>v. isPortableExecutable b = Some v"
  using le32_Some [of "0x3C" b] by (auto simp: isPortableExecutable_def)

lemma identify_Some: "\<exists>k. identify b = Some k"
proof -
  obtain pe where "isPortableExecutable b = Some pe"
    using isPortableExecutable_Some by blast
  then show ?thesis by (simp add: identify_def)
qed

lemma asf_walk_Some: "0 \<le> off \<Longrightarrow> fin \<le> int (length b) \<Longrightarrow> \<exists>v. asf_walk b fin off = Some v"
proof (induction b fin off rule: asf_walk.induct)
  case (1 b fin off)
  show ?case
  proof (cases "fin < off + 24 \<or> any_sig b off [kAsfEncryption, kAsfExtEncrypt, kAsfScript]")
    case True
    then show ?thesis by (auto simp: asf_walk.simps [of b fin off])
  next
    case False
    have "off + 16 + 8 \<le> int (length b)" "0 \<le> off + 16"
      using False "1.prems" by auto
    with le64_Some [of "off + 16" b] obtain sz where sz: "le64 b (off + 16) = Some sz"
      by auto
    show ?thesis
    proof (cases "sz < 24 \<or> fin - off < sz")
      case True
      with False sz show ?thesis by (auto simp: asf_walk.simps [of b fin off])
    next
      case step: False
      from "1.IH" [OF _ _ sz step] False step "1.prems"
      have "\<exists>v. asf_walk b fin (off + sz) = Some v" by auto
      with False sz step show ?thesis by (simp add: asf_walk.simps [of b fin off])
    qed
  qed
qed

lemma asfHasLure_Some: "\<exists>v. asfHasLure b = Some v"
proof (cases "sig_at b 0 kAsfHeader \<and> 30 \<le> length b")
  case True
  then obtain sz where "le64 b 16 = Some sz"
    using le64_Some [of 16 b] by auto
  with True asf_walk_Some [of 30 "min sz (int (length b))" b] show ?thesis
    by (auto simp: asfHasLure_def)
qed (auto simp: asfHasLure_def)

lemma judge_Some: "\<exists>v. judge head fileSize = Some v"
proof -
  obtain k where "identify head = Some k" using identify_Some by blast
  moreover obtain l where "asfHasLure head = Some l" using asfHasLure_Some by blast
  ultimately show ?thesis by (simp add: judge_def)
qed

text \<open>The objects of an ASF header, as a list of offsets: each starts where the one before ends.\<close>

inductive asf_object :: "bytes \<Rightarrow> int \<Rightarrow> int \<Rightarrow> bool" for b fin where
  asf_first: "30 + 24 \<le> fin \<Longrightarrow> asf_object b fin 30"
| asf_next: "asf_object b fin off \<Longrightarrow> le64 b (off + 16) = Some sz \<Longrightarrow> 24 \<le> sz
    \<Longrightarrow> sz \<le> fin - off \<Longrightarrow> off + sz + 24 \<le> fin \<Longrightarrow> asf_object b fin (off + sz)"

inductive_cases asf_objectE: "asf_object b fin off"

definition lure_guid :: "bytes \<Rightarrow> int \<Rightarrow> bool" where
  "lure_guid b off = any_sig b off [kAsfEncryption, kAsfExtEncrypt, kAsfScript]"

lemma asf_walk_sound:
  "asf_object b fin off \<Longrightarrow> asf_walk b fin off = Some True
    \<Longrightarrow> \<exists>o'. asf_object b fin o' \<and> lure_guid b o'"
proof (induction b fin off rule: asf_walk.induct)
  case (1 b fin off)
  show ?case
  proof (cases "any_sig b off [kAsfEncryption, kAsfExtEncrypt, kAsfScript]")
    case True
    with "1.prems" show ?thesis by (auto simp: lure_guid_def)
  next
    case False
    from "1.prems"(2) False obtain sz where sz: "le64 b (off + 16) = Some sz" "\<not> sz < 24"
      "\<not> fin - off < sz" "\<not> fin < off + 24" "asf_walk b fin (off + sz) = Some True"
      by (auto simp: asf_walk.simps [of b fin off] split: if_splits option.splits)
    have "off + sz + 24 \<le> fin"
      using sz(5) by (auto simp: asf_walk.simps [of b fin "off + sz"] split: if_splits)
    then have "asf_object b fin (off + sz)"
      using asf_next [OF "1.prems"(1) sz(1)] sz by auto
    with "1.IH" [OF sz(4) False sz(1)] sz show ?thesis by auto
  qed
qed

lemma asf_walk_complete:
  assumes "asf_object b fin off" "lure_guid b off" "fin \<le> int (length b)"
  shows "asf_walk b fin 30 = Some True"
proof -
  have "asf_walk b fin off = Some True \<longrightarrow> asf_walk b fin 30 = Some True"
    using assms(1)
  proof (induction rule: asf_object.induct)
    case asf_first
    then show ?case by simp
  next
    case (asf_next off sz)
    show ?case
    proof
      assume w: "asf_walk b fin (off + sz) = Some True"
      have "asf_walk b fin off = Some True"
        using asf_next w by (auto simp: asf_walk.simps [of b fin off])
      with asf_next.IH show "asf_walk b fin 30 = Some True" by simp
    qed
  qed
  moreover have "off + 24 \<le> fin"
    using assms(1) by (cases rule: asf_objectE) auto
  then have "asf_walk b fin off = Some True"
    using assms(2) by (simp add: asf_walk.simps [of b fin off] lure_guid_def)
  ultimately show ?thesis by simp
qed

lemma identify_Asf: "identify b = Some Asf \<longleftrightarrow> sig_at b 0 kAsfHeader"
proof
  assume a: "sig_at b 0 kAsfHeader"
  then have "take 1 b = hex [0x30]"
    by (auto simp: sig_at_def kAsfHeader_def hex_def take_Cons' split: if_splits dest: arg_cong [of _ _ "take 1"])
  moreover have "take 1 b = hex [0x1A]" if "sig_at b 0 (hex [0x1A, 0x45, 0xDF, 0xA3])"
    using that by (auto simp: sig_at_def hex_def split: if_splits dest: arg_cong [of _ _ "take 1"])
  ultimately have "\<not> sig_at b 0 (hex [0x1A, 0x45, 0xDF, 0xA3])"
    by (auto simp: hex_def)
  with a show "identify b = Some Asf" by (simp add: identify_def)
next
  assume "identify b = Some Asf"
  then show "sig_at b 0 kAsfHeader"
    by (auto simp: identify_def split: if_splits)
qed

lemma judge_Lure:
  assumes "0 < fileSize" "headWanted fileSize \<le> int (length b)"
  shows "judge b fileSize = Some Lure \<longleftrightarrow> sig_at b 0 kAsfHeader \<and> asfHasLure b = Some True"
proof -
  obtain k where k: "identify b = Some k" using identify_Some by blast
  have "k = Asf \<longleftrightarrow> sig_at b 0 kAsfHeader" using identify_Asf [of b] k by simp
  with k assms asfHasLure_Some [of b] show ?thesis
    by (auto simp: judge_def)
qed

lemma asfHasLure_iff:
  assumes "sig_at b 0 kAsfHeader"
  shows "asfHasLure b = Some True \<longleftrightarrow> 30 \<le> length b \<and>
    (\<exists>sz off. le64 b 16 = Some sz \<and> asf_object b (min sz (int (length b))) off \<and> lure_guid b off)"
proof (cases "30 \<le> length b")
  case True
  then obtain sz where sz: "le64 b 16 = Some sz"
    using le64_Some [of 16 b] by auto
  let ?fin = "min sz (int (length b))"
  have "asf_walk b ?fin 30 = Some True \<longleftrightarrow> (\<exists>off. asf_object b ?fin off \<and> lure_guid b off)"
  proof
    assume w: "asf_walk b ?fin 30 = Some True"
    then have "\<not> ?fin < 30 + 24"
      by (auto simp: asf_walk.simps [of b ?fin 30])
    then have "asf_object b ?fin 30" by (intro asf_first) linarith
    from asf_walk_sound [OF this w] show "\<exists>off. asf_object b ?fin off \<and> lure_guid b off" .
  qed (auto intro: asf_walk_complete)
  with assms True sz show ?thesis by (auto simp: asfHasLure_def)
qed (use assms in \<open>auto simp: asfHasLure_def\<close>)

text \<open>
  The verdict on a file is computed from its first bytes alone: whatever they are, no number is read
  outside them; the verdict waits exactly until the wanted head is there; and a file counts as a
  lure exactly when it is an ASF file in whose header, object by object, stands one of the objects
  that send the viewer to a licence or codec page.
\<close>

theorem sniff_verdict:
  "\<exists>v. judge head fileSize = Some v
     \<and> (v = NeedMore \<longleftrightarrow> fileSize \<le> 0 \<or> int (length head) < headWanted fileSize)
     \<and> (v = Lure \<longleftrightarrow> 0 < fileSize \<and> headWanted fileSize \<le> int (length head)
          \<and> sig_at head 0 kAsfHeader \<and> 30 \<le> length head
          \<and> (\<exists>sz off. le64 head 16 = Some sz
                \<and> asf_object head (min sz (int (length head))) off \<and> lure_guid head off))"
proof -
  obtain v where v: "judge head fileSize = Some v" using judge_Some by blast
  have nm: "v = NeedMore \<longleftrightarrow> fileSize \<le> 0 \<or> int (length head) < headWanted fileSize"
    using v by (auto simp: judge_def split: if_splits option.splits)
  show ?thesis
  proof (cases "0 < fileSize \<and> headWanted fileSize \<le> int (length head)")
    case True
    with judge_Lure [of fileSize head] asfHasLure_iff [of head] v nm show ?thesis by auto
  next
    case False
    with v nm show ?thesis by auto
  qed
qed

end
