(* ===== verification/MediaGuard.thy ===== *)
theory MediaGuard
  imports MediaSniff "HOL-Library.AList"
begin

text \<open>
  \<open>services/security/mediaguard.cpp\<close>: every video file is held to \<open>MediaSniff\<close> before anything plays
  it, and the ones that are not video are quarantined. What the engine answers at the time of a call
  is an \<open>EngineView\<close>, with the content of the files on disk; the commands the guard gives the engine
  are the list \<open>gd_cmds\<close>, its signals \<open>gd_signals\<close>. A quarantined file is an entry of an
  association list, in the iteration order of the hash table.
\<close>

section \<open>State\<close>

record EngineView =
  ev_index :: "string \<Rightarrow> int"
  ev_hash :: "int \<Rightarrow> string"
  ev_files :: "int \<Rightarrow> (string \<times> int) list"
  ev_path :: "int \<Rightarrow> int \<Rightarrow> string"
  ev_size :: "int \<Rightarrow> int \<Rightarrow> int"
  ev_avail :: "int \<Rightarrow> int \<Rightarrow> int \<Rightarrow> int \<Rightarrow> int"
  ev_disk :: "string \<Rightarrow> bytes option"

datatype EngineCmd =
    PauseRow int
  | SetPriority int int int
  | RenameRow int int string
  | SetWindow int int int

datatype GuardSignal = Quarantined string int string string | LureFound string int string

datatype Gate = GWait | GAllow | GBlock

record MediaGuard =
  gd_cleared :: "string set"
  gd_quarantined :: "(string \<times> string) list"
  gd_saved :: "(string \<times> string) list"
  gd_cmds :: "EngineCmd list"
  gd_signals :: "GuardSignal list"

section \<open>Operations\<close>

definition kQuarantineSuffix :: string where
  "kQuarantineSuffix = ''.quarantine''"

definition keyFor :: "string \<Rightarrow> int \<Rightarrow> string" where
  "keyFor infoHash fileIndex = to_lower infoHash @ '':'' @ show_int fileIndex"

text \<open>The constructor reads what was saved.\<close>

definition mkMediaGuard :: "(string \<times> string) list \<Rightarrow> MediaGuard" where
  "mkMediaGuard saved = \<lparr>gd_cleared = {}, gd_quarantined = saved, gd_saved = saved,
     gd_cmds = [], gd_signals = []\<rparr>"

definition isQuarantined :: "string \<Rightarrow> int \<Rightarrow> MediaGuard \<Rightarrow> bool" where
  "isQuarantined infoHash fileIndex g \<longleftrightarrow>
     keyFor infoHash fileIndex \<in> fst ` set (gd_quarantined g)"

definition quarantinedFileOf :: "string \<Rightarrow> MediaGuard \<Rightarrow> int" where
  "quarantinedFileOf infoHash g =
     (let prefix = to_lower infoHash @ '':''
      in case find (\<lambda>e. starts_with prefix (fst e)) (gd_quarantined g) of
           None \<Rightarrow> -1
         | Some e \<Rightarrow> to_int (drop (length prefix) (fst e)))"

definition chop_suffix :: "string \<Rightarrow> string \<Rightarrow> string" where
  "chop_suffix suf name = (if ends_with suf name then chop (length suf) name else name)"

definition leafName :: "EngineView \<Rightarrow> int \<Rightarrow> int \<Rightarrow> string" where
  "leafName ev t fileIndex =
     (let files = ev_files ev t in
      if fileIndex < 0 \<or> int (length files) \<le> fileIndex then []
      else chop_suffix kQuarantineSuffix (chop_suffix ''.!bt''
             (fi_fileName (fst (files ! nat fileIndex)))))"

definition remind :: "EngineView \<Rightarrow> string \<Rightarrow> int \<Rightarrow> MediaGuard \<Rightarrow> MediaGuard" where
  "remind ev infoHash fileIndex g =
     (let t = ev_index ev infoHash in
      case map_of (gd_quarantined g) (keyFor infoHash fileIndex) of
        None \<Rightarrow> g
      | Some kind \<Rightarrow>
          if t < 0 then g
          else g\<lparr>gd_signals := gd_signals g
                   @ [Quarantined infoHash fileIndex (leafName ev t fileIndex) kind]\<rparr>)"

definition quarantine ::
  "EngineView \<Rightarrow> int \<Rightarrow> int \<Rightarrow> string \<Rightarrow> Kind \<Rightarrow> MediaGuard \<Rightarrow> MediaGuard" where
  "quarantine ev t fileIndex key kind g =
     (let files = ev_files ev t in
      if fileIndex < 0 \<or> int (length files) \<le> fileIndex then g
      else
        let rel = chop_suffix ''.!bt'' (fst (files ! nat fileIndex));
            q = AList.update key (kindKey kind) (gd_quarantined g)
        in g\<lparr>gd_quarantined := q, gd_saved := q,
             gd_cmds := gd_cmds g @ [PauseRow t, SetPriority t fileIndex 0,
                                     RenameRow t fileIndex (rel @ kQuarantineSuffix)],
             gd_signals := gd_signals g
               @ [Quarantined (ev_hash ev t) fileIndex (fi_fileName rel) (kindKey kind)]\<rparr>)"

text \<open>A verdict is always computed (\<open>MediaSniff.judge_Some\<close>): the first case never happens.\<close>

definition admit :: "EngineView \<Rightarrow> string \<Rightarrow> int \<Rightarrow> MediaGuard \<Rightarrow> Gate \<times> MediaGuard" where
  "admit ev infoHash fileIndex g =
     (let key = keyFor infoHash fileIndex in
      if key \<in> fst ` set (gd_quarantined g) then (GBlock, g)
      else if key \<in> gd_cleared g then (GAllow, g)
      else
        let t = ev_index ev infoHash in
        if t < 0 then (GAllow, g)
        else
          let path = ev_path ev t fileIndex in
          if path = [] \<or> \<not> isVideoName path then (GAllow, g)
          else
            let sz = ev_size ev t fileIndex; want = headWanted sz in
            if want \<le> 0 \<or> ev_avail ev t fileIndex 0 want < want then (GWait, g)
            else (case ev_disk ev path of
                None \<Rightarrow> (GWait, g)
              | Some content \<Rightarrow>
                  let head = take (nat want) content in
                  (case judge head sz of
                     None \<Rightarrow> (GWait, g)
                   | Some NeedMore \<Rightarrow> (GWait, g)
                   | Some Disguised \<Rightarrow>
                       (GBlock, quarantine ev t fileIndex key (the (identify head)) g)
                   | Some Lure \<Rightarrow>
                       (GAllow, g\<lparr>gd_cleared := insert key (gd_cleared g),
                          gd_signals := gd_signals g
                            @ [LureFound infoHash fileIndex (leafName ev t fileIndex)]\<rparr>)
                   | Some VOk \<Rightarrow> (GAllow, g\<lparr>gd_cleared := insert key (gd_cleared g)\<rparr>))))"

definition onTorrentFinishedGuard :: "EngineView \<Rightarrow> string \<Rightarrow> MediaGuard \<Rightarrow> MediaGuard" where
  "onTorrentFinishedGuard ev infoHash g =
     (let t = ev_index ev infoHash in
      if t < 0 then g
      else fold (\<lambda>i g. let (path, prio) = ev_files ev t ! i
                        in if 0 < prio \<and> isVideoName path then snd (admit ev infoHash (int i) g) else g)
             [0..<length (ev_files ev t)] g)"

section \<open>Lemmas\<close>

lemma update_keys: "fst ` set (AList.update k v al) = insert k (fst ` set al)"
  by (metis dom_map_of_conv_image_fst AList.update_conv' dom_fun_upd option.distinct(1))

text \<open>The keys held in quarantine.\<close>

definition gd_keys :: "MediaGuard \<Rightarrow> string set" where
  "gd_keys g = fst ` set (gd_quarantined g)"

lemma gd_keys_quarantine:
  "gd_keys (quarantine ev t i key kind g) =
     (if 0 \<le> i \<and> i < int (length (ev_files ev t)) then insert key (gd_keys g) else gd_keys g)"
  by (simp add: quarantine_def gd_keys_def Let_def update_keys not_le)

lemma admit_cases:
  obtains "gd_keys (snd (admit ev h i g)) = gd_keys g"
  | t kind where "snd (admit ev h i g) = quarantine ev t i (keyFor h i) kind g"
proof -
  have "gd_quarantined (snd (admit ev h i g)) = gd_quarantined g
      \<or> (\<exists>t kind. snd (admit ev h i g) = quarantine ev t i (keyFor h i) kind g)"
    by (auto simp: admit_def Let_def split: option.splits Verdict.splits)
  with that show ?thesis by (auto simp: gd_keys_def)
qed

lemma admit_keeps: "gd_keys g \<subseteq> gd_keys (snd (admit ev h i g))"
  by (rule admit_cases [of ev h i g]) (auto simp: gd_keys_quarantine)

lemma finished_keeps: "gd_keys g \<subseteq> gd_keys (onTorrentFinishedGuard ev h g)"
proof -
  define step where "step = (\<lambda>i g. let (path, prio) = ev_files ev (ev_index ev h) ! i
     in if 0 < prio \<and> isVideoName path then snd (admit ev h (int i) g) else g)"
  have one: "gd_keys g \<subseteq> gd_keys (step i g)" for i g
    using admit_keeps [of g ev h "int i"] by (simp add: step_def split: prod.splits)
  have "gd_keys g \<subseteq> gd_keys (fold step ks g)" for ks
  proof (induction ks arbitrary: g)
    case (Cons i ks)
    show ?case using Cons.IH [of "step i g"] one [of g i] by simp
  qed simp
  then show ?thesis
    by (simp add: onTorrentFinishedGuard_def step_def Let_def)
qed

lemma to_lower_idem: "to_lower (to_lower s) = to_lower s"
proof -
  have "code (char_of (n + 32)) = n + 32" if "n < 224" for n
    using that by (simp add: code_def)
  then have "lower_char (lower_char c) = lower_char c" for c
    by (auto simp: lower_char_def Let_def)
  then show ?thesis by (simp add: to_lower_def)
qed

section \<open>The guard over time\<close>

datatype GuardOp = GAdmit EngineView string int | GFinished EngineView string | GRemind EngineView string int
  | GRestart

fun guard_op :: "GuardOp \<Rightarrow> MediaGuard \<Rightarrow> MediaGuard" where
  "guard_op (GAdmit ev h i) g = snd (admit ev h i g)"
| "guard_op (GFinished ev h) g = onTorrentFinishedGuard ev h g"
| "guard_op (GRemind ev h i) g = remind ev h i g"
| "guard_op GRestart g = mkMediaGuard (gd_saved g)"

definition guard_saved :: "MediaGuard \<Rightarrow> bool" where
  "guard_saved g \<longleftrightarrow> gd_saved g = gd_quarantined g"

lemma guard_saved_quarantine [inv_intros]:
  "guard_saved g \<Longrightarrow> guard_saved (quarantine ev t i key kind g)"
  by (simp add: guard_saved_def quarantine_def Let_def)

lemma guard_saved_admit [inv_intros]: "guard_saved g \<Longrightarrow> guard_saved (snd (admit ev h i g))"
  using guard_saved_quarantine
  by (auto simp: admit_def Let_def guard_saved_def split: option.splits Verdict.splits)

lemma guard_saved_finished [inv_intros]:
  "guard_saved g \<Longrightarrow> guard_saved (onTorrentFinishedGuard ev h g)"
proof -
  define step where "step = (\<lambda>i g. let (path, prio) = ev_files ev (ev_index ev h) ! i
     in if 0 < prio \<and> isVideoName path then snd (admit ev h (int i) g) else g)"
  have "guard_saved g \<Longrightarrow> guard_saved (fold step ks g)" for ks
    by (induction ks arbitrary: g) (auto simp: step_def guard_saved_admit split: prod.splits)
  then show "guard_saved g \<Longrightarrow> guard_saved (onTorrentFinishedGuard ev h g)"
    by (simp add: onTorrentFinishedGuard_def step_def Let_def)
qed

lemma guard_saved_op: "guard_saved g \<Longrightarrow> guard_saved (guard_op x g)"
  by (cases x) (auto simp: guard_saved_admit guard_saved_finished, auto simp: guard_saved_def
      remind_def mkMediaGuard_def Let_def split: option.split)

lemma gd_keys_op: "guard_saved g \<Longrightarrow> gd_keys g \<subseteq> gd_keys (guard_op x g)"
  by (cases x) (auto dest: admit_keeps [THEN subsetD] finished_keeps [THEN subsetD],
      auto simp: gd_keys_def guard_saved_def remind_def mkMediaGuard_def Let_def split: option.splits)

lemma gd_keys_ops: "guard_saved g \<Longrightarrow> gd_keys g \<subseteq> gd_keys (fold guard_op xs g)"
proof (induction xs arbitrary: g)
  case (Cons x xs)
  from Cons.IH [OF guard_saved_op [OF Cons.prems]] gd_keys_op [OF Cons.prems, of x] show ?case
    by auto
qed simp

lemma admit_Block:
  "fst (admit ev h i g) = GBlock \<Longrightarrow> keyFor h i \<in> gd_keys g
    \<or> (\<exists>kind. snd (admit ev h i g) = quarantine ev (ev_index ev h) i (keyFor h i) kind g)"
  unfolding admit_def Let_def gd_keys_def [symmetric]
  by (auto split: if_split_asm option.split_asm Verdict.split_asm)

lemma admit_Block_key:
  assumes "fst (admit ev h i g) = GBlock" "0 \<le> i" "i < int (length (ev_files ev (ev_index ev h)))"
  shows "keyFor h i \<in> gd_keys (snd (admit ev h i g))"
proof (cases "keyFor h i \<in> gd_keys g")
  case True
  then show ?thesis using admit_keeps by blast
next
  case False
  with admit_Block [OF assms(1)] assms(2,3) show ?thesis by (auto simp: gd_keys_quarantine)
qed

lemma admit_held: "keyFor h i \<in> gd_keys g \<Longrightarrow> admit ev h i g = (GBlock, g)"
  by (simp add: admit_def gd_keys_def)


lemma admit_Allow_judged:
  assumes "fst (admit ev h i g) = GAllow" "keyFor h i \<notin> gd_cleared g" "0 \<le> ev_index ev h"
    "ev_path ev (ev_index ev h) i \<noteq> []" "isVideoName (ev_path ev (ev_index ev h) i)"
  shows "\<exists>c v. ev_disk ev (ev_path ev (ev_index ev h) i) = Some c
     \<and> judge (take (nat (headWanted (ev_size ev (ev_index ev h) i))) c)
         (ev_size ev (ev_index ev h) i) = Some v \<and> (v = VOk \<or> v = Lure)"
  using assms
  by (auto simp: admit_def Let_def split: if_splits option.splits Verdict.splits)


text \<open>A script that calls itself a video.\<close>

definition script_view :: EngineView where
  "script_view = \<lparr>ev_index = (\<lambda>_. 0), ev_hash = (\<lambda>_. ''ab''), ev_files = (\<lambda>_. [(''a.mp4'', 4)]),
     ev_path = (\<lambda>_ _. ''a.mp4''), ev_size = (\<lambda>_ _. 2), ev_avail = (\<lambda>_ _ p n. min n (2 - p)),
     ev_disk = (\<lambda>_. Some [0x23, 0x21])\<rparr>"


end
