(* ===== verification/SessionResume.thy ===== *)
theory SessionResume
  imports QtText "HOL-Library.Product_Lexorder" "HOL-Library.List_Lexorder"
begin

text \<open>
  \<open>torrent/sessionresume.cpp\<close>: the pure decisions around resume files, the ".!bt" suffix of files
  that are not complete, the removal of a torrent's data and the history of removed torrents. Paths
  are as on Unix; whether a path exists and \<open>QDir::cleanPath\<close> are parameters.
\<close>

section \<open>Names\<close>

definition kIncompleteSuffix :: string where
  "kIncompleteSuffix = ''.!bt''"

definition kRemovedHistoryKeep :: int where
  "kRemovedHistoryKeep = 50"

definition kRemovedHistoryMaxAgeSecs :: int where
  "kRemovedHistoryMaxAgeSecs = 30 * 24 * 3600"

definition resumeFileName :: "string \<Rightarrow> string" where
  "resumeFileName hash = hash @ ''.resume''"

definition corruptSidecarName :: "string \<Rightarrow> string" where
  "corruptSidecarName n = n @ ''.corrupt''"

definition partsSidecarName :: "string \<Rightarrow> string" where
  "partsSidecarName hash = ''.'' @ hash @ ''.parts''"

definition shouldCopyLegacyResumes ::
  "(string \<Rightarrow> string) \<Rightarrow> bool \<Rightarrow> string \<Rightarrow> string \<Rightarrow> bool \<Rightarrow> bool" where
  "shouldCopyLegacyResumes cleanPath newDirHasResumes legacyPath newPath legacyHas =
     (if newDirHasResumes then False
      else if legacyPath = [] \<or> newPath = [] then False
      else if cleanPath legacyPath = cleanPath newPath then False
      else legacyHas)"

datatype CorruptResumeAction = Quarantine | RecoverRecheck

definition corruptResumeAction :: "bool \<Rightarrow> CorruptResumeAction" where
  "corruptResumeAction hasTorrentInfo = (if hasTorrentInfo then RecoverRecheck else Quarantine)"

section \<open>The suffix of incomplete files\<close>

definition stripIncompleteSuffix :: "string \<Rightarrow> string \<times> bool" where
  "stripIncompleteSuffix path =
     (if length path < 4 \<or> drop (length path - 4) path \<noteq> kIncompleteSuffix then (path, False)
      else (take (length path - 4) path, True))"

definition withIncompleteSuffix :: "string \<Rightarrow> string" where
  "withIncompleteSuffix path =
     (if 4 \<le> length path \<and> drop (length path - 4) path = kIncompleteSuffix then path
      else path @ kIncompleteSuffix)"

record DiskFilePresence =
  plainIsFile :: bool
  plainSize :: int
  btIsFile :: bool
  btSize :: int

definition reconcileIncompleteSuffix ::
  "string \<Rightarrow> int \<Rightarrow> bool \<Rightarrow> DiskFilePresence \<Rightarrow> string \<times> bool" where
  "reconcileIncompleteSuffix effectivePath wantSize wanted disk =
     (let base = fst (stripIncompleteSuffix effectivePath) in
      if plainIsFile disk \<and> plainSize disk = wantSize then (base, True)
      else if btIsFile disk \<and> btSize disk = wantSize then (base @ kIncompleteSuffix, True)
      else (effectivePath, \<not> wanted))"

section \<open>Removing a torrent's data\<close>

text \<open>\<open>indexOf('/')\<close> is at most 0 when there is no slash or it is the first character.\<close>

definition top_level :: "string \<Rightarrow> string" where
  "top_level p =
     (let q = map (\<lambda>c. if c = CHR 0x5C then CHR ''/'' else c) p
      in if CHR ''/'' \<in> set q \<and> before_first CHR ''/'' q \<noteq> [] then before_first CHR ''/'' q else q)"

definition add_top :: "string list \<Rightarrow> string \<Rightarrow> string list" where
  "add_top tops p =
     (let top = top_level p in if top \<noteq> [] \<and> top \<notin> set tops then tops @ [top] else tops)"

definition topLevelTrashNames :: "string list \<Rightarrow> string list" where
  "topLevelTrashNames filePaths = foldl add_top [] filePaths"

text \<open>\<open>QDir(dir).filePath(f)\<close>: one trailing slash of the directory goes, an empty one is ".".\<close>

definition dir_path :: "string \<Rightarrow> string" where
  "dir_path d =
     (if d = [] then ''.'' else if 1 < length d \<and> last d = CHR ''/'' then butlast d else d)"

definition treatAsAbsolute :: "string \<Rightarrow> bool" where
  "treatAsAbsolute f \<longleftrightarrow> f \<noteq> [] \<and> (hd f = CHR ''/'' \<or> hd f = CHR '':'')"

definition dir_filePath :: "string \<Rightarrow> string \<Rightarrow> string" where
  "dir_filePath d f =
     (if treatAsAbsolute f then f
      else if f = [] then dir_path d
      else if last (dir_path d) = CHR ''/'' then dir_path d @ f
      else dir_path d @ ''/'' @ f)"

definition trashTargetsForRemoval :: "string \<Rightarrow> string list \<Rightarrow> string \<Rightarrow> string list" where
  "trashTargetsForRemoval savePath tops hash =
     concat (map (\<lambda>t. if t = [] then []
         else let base = fst (stripIncompleteSuffix t)
              in [dir_filePath savePath base, dir_filePath savePath (base @ kIncompleteSuffix)]) tops)
     @ (if hash \<noteq> [] then [dir_filePath savePath (partsSidecarName hash)] else [])"

definition shouldScheduleFileRemoval :: "bool \<Rightarrow> string list \<Rightarrow> bool" where
  "shouldScheduleFileRemoval deleteFiles targets \<longleftrightarrow> deleteFiles \<and> targets \<noteq> []"

datatype RemovalDisposition = KeepData | TrashData | PermanentDelete

definition removalDisposition :: "bool \<Rightarrow> bool \<Rightarrow> string list \<Rightarrow> RemovalDisposition" where
  "removalDisposition deleteFiles permanent targets =
     (if \<not> shouldScheduleFileRemoval deleteFiles targets then KeepData
      else if permanent then PermanentDelete else TrashData)"

definition existingRemovalTargets :: "(string \<Rightarrow> bool) \<Rightarrow> string list \<Rightarrow> string list" where
  "existingRemovalTargets exist targets = filter exist targets"

section \<open>Finishing\<close>

definition downloadedPayloadThisSession :: "int \<Rightarrow> bool" where
  "downloadedPayloadThisSession n \<longleftrightarrow> 0 < n"

definition finishMoveDestination :: "string \<Rightarrow> bool \<Rightarrow> string \<Rightarrow> string" where
  "finishMoveDestination intended autoMoveEnabled autoMovePath =
     (if intended \<noteq> [] then intended
      else if autoMoveEnabled \<and> autoMovePath \<noteq> [] then autoMovePath else [])"

definition shouldEmitTorrentFinished :: "bool \<Rightarrow> bool \<Rightarrow> bool" where
  "shouldEmitTorrentFinished downloadedThisSession completedAtStartup \<longleftrightarrow>
     downloadedThisSession \<and> \<not> completedAtStartup"

section \<open>The history of removed torrents\<close>

definition prune_excess :: "(int \<times> string) list \<Rightarrow> int \<Rightarrow> string list" where
  "prune_excess oldestFirst keep =
     map snd (take (nat (int (length oldestFirst) - max keep 0)) oldestFirst)"

definition removedHistoryHashesToPrune ::
  "(int \<times> string) list \<Rightarrow> int \<Rightarrow> int \<Rightarrow> int \<Rightarrow> string list" where
  "removedHistoryHashesToPrune oldestFirst keep nowSecs maxAgeSecs =
     foldl (\<lambda>prune e. if maxAgeSecs < nowSecs - fst e \<and> snd e \<notin> set prune
                      then prune @ [snd e] else prune)
       (prune_excess oldestFirst keep) oldestFirst"

section \<open>Lemmas\<close>

lemma strip_with_suffix: "fst (stripIncompleteSuffix (withIncompleteSuffix p)) =
    fst (stripIncompleteSuffix p)"
  by (auto simp: stripIncompleteSuffix_def withIncompleteSuffix_def kIncompleteSuffix_def)

lemma prune_fold_set:
  "set (foldl (\<lambda>prune e. if P e \<and> snd e \<notin> set prune then prune @ [snd e] else prune) acc es) =
     set acc \<union> snd ` {e \<in> set es. P e}"
  by (induction es arbitrary: acc) auto

lemma set_removedHistoryHashesToPrune:
  "set (removedHistoryHashesToPrune oldestFirst keep nowSecs maxAgeSecs) =
     snd ` set (take (nat (int (length oldestFirst) - max keep 0)) oldestFirst)
     \<union> snd ` {e \<in> set oldestFirst. maxAgeSecs < nowSecs - fst e}"
  by (simp only: removedHistoryHashesToPrune_def prune_fold_set) (simp add: prune_excess_def)

end
