(* ===== verification/SessionTorrents.thy ===== *)
theory SessionTorrents
  imports SessionLimits SessionResume TorrentTable Complex_Main "HOL-Library.AList"
begin

text \<open>
  The session's torrents: \<open>sessionmanager_pertorrent.cpp\<close>, the pause/resume/remove commands of
  \<open>sessionmanager_lifecycle.cpp\<close> and \<open>cachedStatus\<close>/\<open>torrentHash\<close> of \<open>sessionmanager_query.cpp\<close>.
  The session's network part (\<open>t_net\<close>) keeps the list of handles, their validity and their paused
  flag, as the kill switch uses them; here each handle also has what libtorrent knows of it
  (\<open>LtTorrent\<close>; its info hash is the pair of its v1 and v2 hashes), and the session its status
  cache and its sets and maps. Pausing, resuming and
  setting priorities act on libtorrent's side at once; the cache keeps what it has until the next
  status update. \<open>QSettings\<close> is the map \<open>t_settings\<close>.
\<close>

section \<open>State\<close>

datatype TorState =
  CheckingFiles | DownloadingMetadata | DownloadingData | FinishedData | Seeding | CheckingResume

record TorStatus =
  st_hash :: string
  st_name :: string
  st_savePath :: string
  st_state :: TorState
  st_paused :: bool
  st_hasMetadata :: bool
  st_isFinished :: bool
  st_downloadRate :: int
  st_payloadDown :: int
  st_payloadUp :: int
  st_seedSecs :: int
  st_wantedDone :: int
  st_totalWanted :: int

text \<open>
  A file of a torrent: its current path (renames included), its size, its priority and how much of
  it is there. \<open>lh_files\<close> is \<open>None\<close> while the metadata is missing.
\<close>

record LtFile =
  lf_path :: string
  lf_size :: int
  lf_prio :: int
  lf_done :: int

record LtTorrent =
  lh_status :: TorStatus
  lh_infoHash :: "string \<times> string"
  lh_tiName :: string
  lh_uploadMode :: bool
  lh_files :: "LtFile list option"
  lh_private :: bool
  lh_noDiscovery :: bool
  lh_trackers :: "string list"
  lh_downLimit :: int
  lh_upLimit :: int
  lh_superSeeding :: bool
  lh_saves :: nat
  lh_rechecks :: nat
  lh_announces :: nat
  lh_movedTo :: "string option"

datatype TVal = TvInt int | TvBool bool | TvStr string | TvStrings "string set" | TvList "string list"

datatype TMsg =
    DiskAutoPause int int
  | LowDisk int
  | MissingPausedOne string
  | MissingPausedMany int
  | MemGuardWarn int int
  | TorrentFaulted string
  | DiskFullError
  | LibMessage string

datatype TSignal =
    TorrentsUpdated
  | TorrentRemoved int
  | TorrentError TMsg
  | TorrentFinished string string
  | PieceFinished string int
  | PortStatusChanged int
  | TorrentAdded int
  | StagedMetadata string string int "string list" "int list"
  | SuspiciousFilesDetected string "string list"
  | ExtractArchives string string string
  | CommandStarted string

text \<open>What the usage history is told.\<close>

datatype StatsEvent = RecordAdded | RecordCompleted string | RecordTransfer int int

record HistEntry =
  he_hash :: string
  he_name :: string
  he_size :: int
  he_removedAt :: int

record Removal =
  rm_permanent :: bool
  rm_targets :: "string list"
  rm_attempt :: nat

record SessionT =
  t_net :: SessionNet
  t_lt :: "nat \<Rightarrow> LtTorrent"
  t_cache :: "nat \<Rightarrow> TorStatus option"
  t_magnetHashes :: "nat \<Rightarrow> string option"
  t_magnetAddedAt :: "nat \<Rightarrow> int option"
  t_maxActive :: int
  t_queuePaused :: "nat set"
  t_lastFast :: "nat \<Rightarrow> int option"
  t_forceStart :: "string set"
  t_completed :: "string set"
  t_completedAtStartup :: "string set"
  t_stopAfter :: "string \<Rightarrow> int option"
  t_maxSeed :: "string \<Rightarrow> int option"
  t_downLimit :: "string \<Rightarrow> int option"
  t_upLimit :: "string \<Rightarrow> int option"
  t_tags :: "string \<Rightarrow> string list option"
  t_stopAfterDownload :: bool
  t_maxSeedSeconds :: int
  t_autoCompleteSeconds :: int
  t_seedRatioLimit :: rat
  t_pauseOnMissing :: bool
  t_missingHashes :: "string set"
  t_missingSeen :: "string set"
  t_missingPaused :: "string set"
  t_missingRunning :: bool
  t_lastMissingProbe :: int
  t_missingProbeMs :: int
  t_probes :: "(string \<times> string list) list"
  t_staged :: "(string \<times> nat \<times> string) list"
  t_stats :: "StatsEvent list"
  t_statsTick :: nat
  t_categories :: "string \<Rightarrow> string option"
  t_categoryPaths :: "string \<Rightarrow> string option"
  t_coverHints :: "string \<Rightarrow> (string \<times> int) option"
  t_tempPath :: string
  t_exportDir :: string
  t_exported :: "(string \<times> string) list"
  t_contentLayout :: int
  t_excluded :: "string list"
  t_preallocate :: bool
  t_autoRecheck :: bool
  t_diskProbes :: "string list"
  t_warnSuspicious :: bool
  t_securityWarned :: "string set"
  t_autoExtract :: bool
  t_runOnComplete :: string
  t_diskPath :: string
  t_diskFree :: int
  t_lastKick :: int
  t_lastDiskWarn :: int
  t_diskAutoPaused :: bool
  t_emptyAnnounced :: bool
  t_faultCount :: "(nat \<times> int) list"
  t_faultLastAt :: "(nat \<times> int) list"
  t_lastMemWarn :: int
  t_quit :: bool
  t_lastFileError :: int
  t_lastTorrentError :: "(nat \<times> int) list"
  t_lastResumeSave :: "nat \<Rightarrow> int option"
  t_resumeOutstanding :: int
  t_pendingStrip :: "nat set"
  t_streamed :: "nat \<Rightarrow> string option"
  t_intendedPath :: "string \<Rightarrow> string option"
  t_autoMove :: bool
  t_autoMovePath :: string
  t_removedHashes :: "string set"
  t_globalDownBase :: int
  t_globalUpBase :: int
  t_settings :: "string \<Rightarrow> TVal option"
  t_resumeFiles :: "string \<Rightarrow> string option"
  t_removedFiles :: "string \<Rightarrow> string option"
  t_history :: "HistEntry list"
  t_removals :: "Removal list"
  t_listenOk :: bool
  t_portmapOk :: bool
  t_portStatus :: int
  t_signals :: "TSignal list"

section \<open>Access\<close>

definition t_torrents :: "SessionT \<Rightarrow> nat list" where
  "t_torrents s = sn_torrents (t_net s)"

definition t_valid :: "SessionT \<Rightarrow> nat \<Rightarrow> bool" where
  "t_valid s h = rt_valid (sn_rt (t_net s) h)"

definition t_paused :: "SessionT \<Rightarrow> nat \<Rightarrow> bool" where
  "t_paused s h = rt_paused (sn_rt (t_net s) h)"

definition t_emit :: "TSignal \<Rightarrow> SessionT \<Rightarrow> SessionT" where
  "t_emit g s = s\<lparr>t_signals := t_signals s @ [g]\<rparr>"

definition t_put :: "string \<Rightarrow> TVal \<Rightarrow> SessionT \<Rightarrow> SessionT" where
  "t_put k v s = s\<lparr>t_settings := (t_settings s)(k \<mapsto> v)\<rparr>"

definition t_drop :: "string \<Rightarrow> SessionT \<Rightarrow> SessionT" where
  "t_drop k s = s\<lparr>t_settings := (t_settings s)(k := None)\<rparr>"

definition on_net :: "(SessionNet \<Rightarrow> SessionNet) \<Rightarrow> SessionT \<Rightarrow> SessionT" where
  "on_net f s = s\<lparr>t_net := f (t_net s)\<rparr>"

definition on_lt :: "nat \<Rightarrow> (LtTorrent \<Rightarrow> LtTorrent) \<Rightarrow> SessionT \<Rightarrow> SessionT" where
  "on_lt h f s = s\<lparr>t_lt := (t_lt s)(h := f (t_lt s h))\<rparr>"

definition h_pause :: "nat \<Rightarrow> SessionT \<Rightarrow> SessionT" where
  "h_pause h s = on_net (pause_torrent h) s"

definition h_resume :: "nat \<Rightarrow> SessionT \<Rightarrow> SessionT" where
  "h_resume h s = on_net (resume_torrent h) s"

definition h_save :: "nat \<Rightarrow> SessionT \<Rightarrow> SessionT" where
  "h_save h s = on_lt h (\<lambda>t. t\<lparr>lh_saves := Suc (lh_saves t)\<rparr>) s"

definition set_prios :: "int \<Rightarrow> LtTorrent \<Rightarrow> LtTorrent" where
  "set_prios p t = t\<lparr>lh_files := map_option (map (\<lambda>f. f\<lparr>lf_prio := p\<rparr>)) (lh_files t)\<rparr>"

text \<open>\<open>h.status()\<close>: what libtorrent says now.\<close>

definition live :: "SessionT \<Rightarrow> nat \<Rightarrow> TorStatus" where
  "live s h = (lh_status (t_lt s h))\<lparr>st_paused := t_paused s h\<rparr>"

text \<open>The default \<open>torrent_status\<close> an expired handle gives.\<close>

definition no_status :: TorStatus where
  "no_status = \<lparr>st_hash = replicate 40 CHR ''0'', st_name = [], st_savePath = [],
     st_state = CheckingResume, st_paused = False, st_hasMetadata = False, st_isFinished = False,
     st_downloadRate = 0, st_payloadDown = 0, st_payloadUp = 0, st_seedSecs = 0, st_wantedDone = 0,
     st_totalWanted = 0\<rparr>"

definition seen :: "SessionT \<Rightarrow> nat \<Rightarrow> TorStatus" where
  "seen s h = (case t_cache s h of
     Some st \<Rightarrow> st | None \<Rightarrow> if t_valid s h then live s h else no_status)"

text \<open>\<open>get_best\<close> of an info hash: the v2 hash cut to the length of a v1 hash, if there is one.\<close>

definition best_hash :: "string \<times> string \<Rightarrow> string" where
  "best_hash ih = (if snd ih = [] then fst ih else take 40 (snd ih))"

definition cachedStatus :: "nat \<Rightarrow> SessionT \<Rightarrow> TorStatus \<times> SessionT" where
  "cachedStatus h s =
     (case t_cache s h of
        Some st \<Rightarrow> (st, s)
      | None \<Rightarrow>
          if t_valid s h then (live s h, s\<lparr>t_cache := (t_cache s)(h \<mapsto> live s h)\<rparr>)
          else (no_status, s))"

definition handleAt :: "int \<Rightarrow> SessionT \<Rightarrow> nat option" where
  "handleAt i s =
     (if i < 0 \<or> int (length (t_torrents s)) \<le> i then None else Some (t_torrents s ! nat i))"

text \<open>The handle at a row, when the row exists and the handle has not expired.\<close>

definition validAt :: "int \<Rightarrow> SessionT \<Rightarrow> nat option" where
  "validAt i s = (case handleAt i s of
     None \<Rightarrow> None | Some h \<Rightarrow> if t_valid s h then Some h else None)"

definition torrentHash :: "int \<Rightarrow> SessionT \<Rightarrow> string \<times> SessionT" where
  "torrentHash i s =
     (case validAt i s of
        None \<Rightarrow> ([], s)
      | Some h \<Rightarrow>
          let (st, s1) = cachedStatus h s
          in if \<not> st_hasMetadata st
             then ((case t_magnetHashes s1 h of Some x \<Rightarrow> x | None \<Rightarrow> []), s1)
             else (st_hash st, s1))"


section \<open>Per-torrent overrides\<close>

definition setTorrentStopAfterDownload :: "int \<Rightarrow> int \<Rightarrow> SessionT \<Rightarrow> SessionT" where
  "setTorrentStopAfterDownload i v s =
     (let (hash, s1) = torrentHash i s in
      if hash = [] then s1
      else if v < 0 then s1\<lparr>t_stopAfter := (t_stopAfter s1)(hash := None)\<rparr>
      else s1\<lparr>t_stopAfter := (t_stopAfter s1)(hash \<mapsto> if v = 0 then 0 else 1)\<rparr>)"

definition torrentStopAfterDownload :: "int \<Rightarrow> SessionT \<Rightarrow> int" where
  "torrentStopAfterDownload i s =
     (let (hash, s1) = torrentHash i s in
      if hash = [] then -1 else case t_stopAfter s1 hash of None \<Rightarrow> -1 | Some v \<Rightarrow> v)"

definition setTorrentMaxSeedSeconds :: "int \<Rightarrow> int \<Rightarrow> SessionT \<Rightarrow> SessionT" where
  "setTorrentMaxSeedSeconds i secs s =
     (let (hash, s1) = torrentHash i s in
      if hash = [] then s1
      else if secs < 0 then s1\<lparr>t_maxSeed := (t_maxSeed s1)(hash := None)\<rparr>
      else s1\<lparr>t_maxSeed := (t_maxSeed s1)(hash \<mapsto> secs)\<rparr>)"

definition torrentMaxSeedSeconds :: "int \<Rightarrow> SessionT \<Rightarrow> int" where
  "torrentMaxSeedSeconds i s =
     (let (hash, s1) = torrentHash i s in
      if hash = [] then -1 else case t_maxSeed s1 hash of None \<Rightarrow> -1 | Some v \<Rightarrow> v)"

definition effectiveStopAfterDownload :: "string \<Rightarrow> SessionT \<Rightarrow> bool" where
  "effectiveStopAfterDownload hash s =
     (let v = (case t_stopAfter s hash of None \<Rightarrow> -1 | Some v \<Rightarrow> v)
      in if 0 \<le> v then v = 1 else t_stopAfterDownload s)"

definition effectiveMaxSeedSeconds :: "string \<Rightarrow> SessionT \<Rightarrow> int" where
  "effectiveMaxSeedSeconds hash s =
     (let v = (case t_maxSeed s hash of None \<Rightarrow> -1 | Some v \<Rightarrow> v)
      in if 0 \<le> v then v else t_maxSeedSeconds s)"

definition stopSeedingTorrent :: "int \<Rightarrow> SessionT \<Rightarrow> SessionT" where
  "stopSeedingTorrent i s = (case validAt i s of None \<Rightarrow> s | Some h \<Rightarrow> h_pause h s)"

definition setSuperSeeding :: "int \<Rightarrow> bool \<Rightarrow> SessionT \<Rightarrow> SessionT" where
  "setSuperSeeding i on s =
     (case validAt i s of None \<Rightarrow> s | Some h \<Rightarrow> on_lt h (\<lambda>t. t\<lparr>lh_superSeeding := on\<rparr>) s)"

definition isSuperSeeding :: "int \<Rightarrow> SessionT \<Rightarrow> bool" where
  "isSuperSeeding i s =
     (case validAt i s of None \<Rightarrow> False | Some h \<Rightarrow> lh_superSeeding (t_lt s h))"

definition setForceStart :: "int \<Rightarrow> bool \<Rightarrow> SessionT \<Rightarrow> SessionT" where
  "setForceStart i on s =
     (let (hash, s1) = torrentHash i s in
      if hash = [] then s1
      else
        let s2 = (if on
                  then (case handleAt i s1 of
                          None \<Rightarrow> s1
                        | Some h \<Rightarrow>
                            let s2 = s1\<lparr>t_forceStart := insert hash (t_forceStart s1)\<rparr>;
                                s3 = (if t_valid s2 h then h_resume h s2 else s2)
                            in s3\<lparr>t_queuePaused := t_queuePaused s3 - {h}\<rparr>)
                  else s1\<lparr>t_forceStart := t_forceStart s1 - {hash}\<rparr>)
        in t_emit TorrentsUpdated (t_put ''forceStartHashes'' (TvStrings (t_forceStart s2)) s2))"

definition isForceStart :: "int \<Rightarrow> SessionT \<Rightarrow> bool" where
  "isForceStart i s =
     (let (hash, s1) = torrentHash i s in hash \<noteq> [] \<and> hash \<in> t_forceStart s1)"

text \<open>Bytes per second at the handle; 0 is no limit.\<close>

definition setTorrentDownloadLimit :: "int \<Rightarrow> int \<Rightarrow> SessionT \<Rightarrow> SessionT" where
  "setTorrentDownloadLimit i kbps0 s =
     (case validAt i s of
        None \<Rightarrow> s
      | Some h \<Rightarrow>
          let kbps = (if kbps0 < 0 then 0 else kbps0);
              (hash, s1) = torrentHash i s;
              s2 = (if kbps = 0
                    then t_drop (''torrentDownLimit/'' @ hash)
                           (s1\<lparr>t_downLimit := (t_downLimit s1)(hash := None)\<rparr>)
                    else t_put (''torrentDownLimit/'' @ hash) (TvInt kbps)
                           (s1\<lparr>t_downLimit := (t_downLimit s1)(hash \<mapsto> kbps)\<rparr>))
          in on_lt h (\<lambda>t. t\<lparr>lh_downLimit := to_int32 (kbps * 1024)\<rparr>) s2)"

definition setTorrentUploadLimit :: "int \<Rightarrow> int \<Rightarrow> SessionT \<Rightarrow> SessionT" where
  "setTorrentUploadLimit i kbps0 s =
     (case validAt i s of
        None \<Rightarrow> s
      | Some h \<Rightarrow>
          let kbps = (if kbps0 < 0 then 0 else kbps0);
              (hash, s1) = torrentHash i s;
              s2 = (if kbps = 0
                    then t_drop (''torrentUpLimit/'' @ hash)
                           (s1\<lparr>t_upLimit := (t_upLimit s1)(hash := None)\<rparr>)
                    else t_put (''torrentUpLimit/'' @ hash) (TvInt kbps)
                           (s1\<lparr>t_upLimit := (t_upLimit s1)(hash \<mapsto> kbps)\<rparr>))
          in on_lt h (\<lambda>t. t\<lparr>lh_upLimit := to_int32 (kbps * 1024)\<rparr>) s2)"

definition torrentDownloadLimit :: "int \<Rightarrow> SessionT \<Rightarrow> int" where
  "torrentDownloadLimit i s =
     (let (hash, s1) = torrentHash i s in
      if hash = [] then 0 else case t_downLimit s1 hash of None \<Rightarrow> 0 | Some v \<Rightarrow> v)"

definition torrentUploadLimit :: "int \<Rightarrow> SessionT \<Rightarrow> int" where
  "torrentUploadLimit i s =
     (let (hash, s1) = torrentHash i s in
      if hash = [] then 0 else case t_upLimit s1 hash of None \<Rightarrow> 0 | Some v \<Rightarrow> v)"

section \<open>Completed torrents\<close>

definition saveCompletedSet :: "SessionT \<Rightarrow> SessionT" where
  "saveCompletedSet s = t_put ''completedTorrents'' (TvStrings (t_completed s)) s"

definition markCompleted :: "int \<Rightarrow> SessionT \<Rightarrow> SessionT" where
  "markCompleted i s =
     (case validAt i s of
        None \<Rightarrow> s
      | Some h \<Rightarrow>
          let (st, s1) = cachedStatus h s; hash = st_hash st in
          if \<not> st_hasMetadata st then s1
          else if hash \<in> t_completed s1 then s1
          else t_emit TorrentsUpdated (h_pause h (on_lt h (set_prios 0)
                 (saveCompletedSet (s1\<lparr>t_completed := insert hash (t_completed s1)\<rparr>)))))"

text \<open>libtorrent's default priority is 4.\<close>

definition unmarkCompleted :: "int \<Rightarrow> SessionT \<Rightarrow> SessionT" where
  "unmarkCompleted i s =
     (case validAt i s of
        None \<Rightarrow> s
      | Some h \<Rightarrow>
          let (st, s1) = cachedStatus h s; hash = st_hash st in
          if \<not> st_hasMetadata st then s1
          else if hash \<notin> t_completed s1 then s1
          else t_emit TorrentsUpdated (saveCompletedSet (h_resume h (on_lt h (set_prios 4)
                 (s1\<lparr>t_completed := t_completed s1 - {hash}\<rparr>)))))"

definition isTorrentCompleted :: "int \<Rightarrow> SessionT \<Rightarrow> bool" where
  "isTorrentCompleted i s =
     (case validAt i s of
        None \<Rightarrow> False
      | Some h \<Rightarrow>
          let (st, s1) = cachedStatus h s
          in st_hasMetadata st \<and> st_hash st \<in> t_completed s1)"

definition setAutoCompleteSeconds :: "int \<Rightarrow> SessionT \<Rightarrow> SessionT" where
  "setAutoCompleteSeconds secs s =
     (let v = (if secs < 0 then 0 else secs)
      in t_put ''autoCompleteSeconds'' (TvInt v) (s\<lparr>t_autoCompleteSeconds := v\<rparr>))"

section \<open>Pausing and resuming\<close>

definition pauseTorrent :: "int \<Rightarrow> SessionT \<Rightarrow> SessionT" where
  "pauseTorrent i s = (case validAt i s of None \<Rightarrow> s | Some h \<Rightarrow> h_save h (h_pause h s))"

definition resumeTorrent :: "int \<Rightarrow> SessionT \<Rightarrow> SessionT" where
  "resumeTorrent i s =
     (case validAt i s of None \<Rightarrow> s | Some h \<Rightarrow> h_save h (h_resume h (unmarkCompleted i s)))"

definition pause_and_save :: "nat \<Rightarrow> SessionT \<Rightarrow> SessionT" where
  "pause_and_save h s = (if t_valid s h then h_save h (h_pause h s) else s)"

definition resume_and_save :: "nat \<Rightarrow> SessionT \<Rightarrow> SessionT" where
  "resume_and_save h s = (if t_valid s h then h_save h (h_resume h s) else s)"

definition pauseAll :: "SessionT \<Rightarrow> SessionT" where
  "pauseAll s = fold pause_and_save (t_torrents s) s"

definition resumeAll :: "SessionT \<Rightarrow> SessionT" where
  "resumeAll s = fold resume_and_save (t_torrents s) s"

definition forceRecheck :: "int \<Rightarrow> SessionT \<Rightarrow> SessionT" where
  "forceRecheck i s =
     (case validAt i s of
        None \<Rightarrow> s
      | Some h \<Rightarrow> on_lt h (\<lambda>t. t\<lparr>lh_rechecks := Suc (lh_rechecks t)\<rparr>)
                    (s\<lparr>t_cache := (t_cache s)(h := None)\<rparr>))"

definition forceReannounce :: "int \<Rightarrow> SessionT \<Rightarrow> SessionT" where
  "forceReannounce i s =
     (case validAt i s of
        None \<Rightarrow> s | Some h \<Rightarrow> on_lt h (\<lambda>t. t\<lparr>lh_announces := Suc (lh_announces t)\<rparr>) s)"

definition setTorrentQueuePosition :: "int \<Rightarrow> int \<Rightarrow> SessionT \<Rightarrow> SessionT" where
  "setTorrentQueuePosition index position s =
     (let ts = t_torrents s; n = int (length ts) in
      if index < 0 \<or> n \<le> index then s
      else if position < 0 \<or> n \<le> position then s
      else if index = position then s
      else
        let h = ts ! nat index; rest = take (nat index) ts @ drop (Suc (nat index)) ts
        in on_net (\<lambda>e. e\<lparr>sn_torrents :=
                     take (nat position) rest @ [h] @ drop (nat position) rest\<rparr>) s)"

section \<open>Removing a torrent\<close>

definition drop_row :: "int \<Rightarrow> SessionT \<Rightarrow> SessionT" where
  "drop_row i s =
     t_emit (TorrentRemoved i)
       (on_net (\<lambda>e. e\<lparr>sn_torrents :=
          take (nat i) (sn_torrents e) @ drop (Suc (nat i)) (sn_torrents e)\<rparr>) s)"

definition forget_history :: "string list \<Rightarrow> SessionT \<Rightarrow> SessionT" where
  "forget_history hashes s =
     s\<lparr>t_history := filter (\<lambda>e. he_hash e \<notin> set hashes) (t_history s),
       t_removedFiles := (\<lambda>h. if h \<in> set hashes then None else t_removedFiles s h)\<rparr>"

definition pruneRemovedHistory :: "int \<Rightarrow> SessionT \<Rightarrow> SessionT" where
  "pruneRemovedHistory now s =
     (let oldestFirst = sort (map (\<lambda>e. (he_removedAt e, he_hash e)) (t_history s))
      in forget_history (removedHistoryHashesToPrune oldestFirst kRemovedHistoryKeep now
           kRemovedHistoryMaxAgeSecs) s)"

text \<open>The resume file moves into the history, with an entry that replaces one of the same hash.\<close>

definition to_history :: "int \<Rightarrow> string \<Rightarrow> TorStatus \<Rightarrow> SessionT \<Rightarrow> SessionT" where
  "to_history now hash st s =
     pruneRemovedHistory now
       (s\<lparr>t_removedFiles := (t_removedFiles s)(hash := t_resumeFiles s hash),
         t_resumeFiles := (t_resumeFiles s)(hash := None),
         t_history := filter (\<lambda>e. he_hash e \<noteq> hash) (t_history s)
           @ [\<lparr>he_hash = hash, he_name = st_name st, he_size = st_totalWanted st,
               he_removedAt = now\<rparr>]\<rparr>)"

text \<open>
  What is kept under the hash. \<open>||\<close> does not evaluate its right side when the left one is true: a
  torrent with a download limit keeps the entry of its upload limit in memory.
\<close>

definition forget_limits :: "string \<Rightarrow> SessionT \<Rightarrow> SessionT" where
  "forget_limits hash s =
     (let hadDown = t_downLimit s hash \<noteq> None;
          hadUp = \<not> hadDown \<and> t_upLimit s hash \<noteq> None;
          s1 = s\<lparr>t_downLimit := (t_downLimit s)(hash := None),
                 t_upLimit := (if hadDown then t_upLimit s else (t_upLimit s)(hash := None))\<rparr>
      in if hadDown \<or> hadUp
         then t_drop (''torrentUpLimit/'' @ hash) (t_drop (''torrentDownLimit/'' @ hash) s1)
         else s1)"

definition forget_completed :: "string \<Rightarrow> SessionT \<Rightarrow> SessionT" where
  "forget_completed hash s =
     (if hash \<in> t_completed s then saveCompletedSet (s\<lparr>t_completed := t_completed s - {hash}\<rparr>) else s)"

definition forget_forced :: "string \<Rightarrow> SessionT \<Rightarrow> SessionT" where
  "forget_forced hash s =
     (if hash \<in> t_forceStart s
      then t_put ''forceStartHashes'' (TvStrings (t_forceStart s - {hash}))
             (s\<lparr>t_forceStart := t_forceStart s - {hash}\<rparr>)
      else s)"

definition forget_tags :: "string \<Rightarrow> SessionT \<Rightarrow> SessionT" where
  "forget_tags hash s =
     (if t_tags s hash \<noteq> None
      then t_drop (''torrentTags/'' @ hash) (s\<lparr>t_tags := (t_tags s)(hash := None)\<rparr>) else s)"

definition remember_removed :: "string \<Rightarrow> SessionT \<Rightarrow> SessionT" where
  "remember_removed hash s =
     s\<lparr>t_removedHashes :=
         (if 500 < card (insert hash (t_removedHashes s)) then {} else insert hash (t_removedHashes s))\<rparr>"

definition forget_hash :: "string \<Rightarrow> SessionT \<Rightarrow> SessionT" where
  "forget_hash hash s =
     remember_removed hash (forget_tags hash (forget_forced hash (forget_completed hash (forget_limits hash
       (s\<lparr>t_stopAfter := (t_stopAfter s)(hash := None), t_maxSeed := (t_maxSeed s)(hash := None)\<rparr>)))))"

definition forget_handle :: "nat \<Rightarrow> SessionT \<Rightarrow> SessionT" where
  "forget_handle h s =
     on_net (\<lambda>e. e\<lparr>sn_killSwitchPaused := removeAll h (sn_killSwitchPaused e)\<rparr>)
       (s\<lparr>t_queuePaused := t_queuePaused s - {h}, t_cache := (t_cache s)(h := None),
         t_lastResumeSave := (t_lastResumeSave s)(h := None),
         t_lastFast := (t_lastFast s)(h := None), t_streamed := (t_streamed s)(h := None),
         t_pendingStrip := t_pendingStrip s - {h},
         t_magnetAddedAt := (t_magnetAddedAt s)(h := None),
         t_magnetHashes := (t_magnetHashes s)(h := None)\<rparr>)"

text \<open>
  The paths whose data goes: libtorrent's, or the name of a torrent without metadata.
\<close>

definition removal_targets :: "string \<Rightarrow> TorStatus \<Rightarrow> LtTorrent \<Rightarrow> string list" where
  "removal_targets hash st t =
     trashTargetsForRemoval (st_savePath st)
       (topLevelTrashNames (case lh_files t of
          Some fs \<Rightarrow> map lf_path fs | None \<Rightarrow> [st_name st])) hash"

definition addPendingTargets :: "string \<Rightarrow> string list \<Rightarrow> SessionT \<Rightarrow> SessionT" where
  "addPendingTargets key targets s =
     (let pending = (case t_settings s key of Some (TvList xs) \<Rightarrow> xs | _ \<Rightarrow> [])
      in t_put key (TvList (foldl (\<lambda>acc t. if t \<in> set acc then acc else acc @ [t]) pending targets)) s)"

definition pending_key :: "bool \<Rightarrow> string" where
  "pending_key permanent = (if permanent then ''pendingDeleteTargets'' else ''pendingTrashTargets'')"

text \<open>\<open>scheduleTrash\<close> and \<open>scheduleDelete\<close>: the pending timers are the list \<open>t_removals\<close>.\<close>

definition scheduleRemoval :: "bool \<Rightarrow> string list \<Rightarrow> nat \<Rightarrow> SessionT \<Rightarrow> SessionT" where
  "scheduleRemoval permanent targets attempt s =
     (let s1 = (if attempt = 0 then addPendingTargets (pending_key permanent) targets s else s)
      in s1\<lparr>t_removals := t_removals s1
              @ [\<lparr>rm_permanent = permanent, rm_targets = targets, rm_attempt = attempt\<rparr>]\<rparr>)"

definition removeTorrent :: "int \<Rightarrow> int \<Rightarrow> bool \<Rightarrow> bool \<Rightarrow> SessionT \<Rightarrow> SessionT" where
  "removeTorrent now i deleteFiles permanent s =
     (case handleAt i s of
        None \<Rightarrow> s
      | Some h \<Rightarrow>
          if \<not> t_valid s h then drop_row i s
          else
            let st = live s h;
                hash = (if st_hasMetadata st then st_hash st
                        else case t_magnetHashes s h of Some x \<Rightarrow> x | None \<Rightarrow> st_hash st);
                s1 = forget_hash hash (to_history now hash st s);
                s2 = forget_handle h
                       (s1\<lparr>t_globalDownBase := t_globalDownBase s1 + st_payloadDown st,
                          t_globalUpBase := t_globalUpBase s1 + st_payloadUp st\<rparr>);
                targets = (if deleteFiles then removal_targets hash st (t_lt s2 h) else []);
                s3 = (if deleteFiles then h_pause h s2 else s2);
                s4 = on_net (\<lambda>e. e\<lparr>sn_rt := (sn_rt e)(h := (sn_rt e h)\<lparr>rt_valid := False\<rparr>)\<rparr>) s3;
                s5 = (case removalDisposition deleteFiles permanent targets of
                        TrashData \<Rightarrow> scheduleRemoval False targets 0 s4
                      | PermanentDelete \<Rightarrow> scheduleRemoval True targets 0 s4
                      | KeepData \<Rightarrow> s4)
            in drop_row i s5)"

text \<open>
  The timer of a removal: the targets that exist and could not be moved or deleted (\<open>ok\<close> is the
  outcome per path) are tried again up to ten times; what was attempted and is gone leaves the
  pending list.
\<close>

definition clearDoneTargets :: "string \<Rightarrow> string list \<Rightarrow> string list \<Rightarrow> SessionT \<Rightarrow> SessionT" where
  "clearDoneTargets key attempted remaining s =
     (let pending = (case t_settings s key of Some (TvList xs) \<Rightarrow> xs | _ \<Rightarrow> []);
          left = filter (\<lambda>p. p \<notin> set attempted \<or> p \<in> set remaining) pending
      in if left = [] then t_drop key s else t_put key (TvList left) s)"

definition onRemovalTimer ::
  "(string \<Rightarrow> bool) \<Rightarrow> (string \<Rightarrow> bool) \<Rightarrow> Removal \<Rightarrow> SessionT \<Rightarrow> SessionT" where
  "onRemovalTimer exist ok r s =
     (let remaining = filter (\<lambda>p. \<not> ok p) (existingRemovalTargets exist (rm_targets r));
          s1 = clearDoneTargets (pending_key (rm_permanent r)) (rm_targets r) remaining
                 (s\<lparr>t_removals := remove1 r (t_removals s)\<rparr>)
      in if remaining = [] then s1
         else if rm_attempt r < 10
         then scheduleRemoval (rm_permanent r) remaining (Suc (rm_attempt r)) s1
         else s1)"

end
