(* ===== verification/SessionSecurity.thy ===== *)
theory SessionSecurity
  imports SessionTorrents MediaSniff
begin

text \<open>
  What protects the session from its own torrents: the isolation of torrents that keep failing and
  the warning about suspicious file names (\<open>sessionmanager_security.cpp\<close>), with the categories and
  tags of torrents (\<open>sessionmanager_categories.cpp\<close>) and the totals of \<open>sessionmanager_stats.cpp\<close>.
  The two maps of the fault counter are association lists, so that their size can be read.
\<close>

section \<open>Torrents that keep failing\<close>

definition at_or :: "'v \<Rightarrow> ('k \<times> 'v) list \<Rightarrow> 'k \<Rightarrow> 'v" where
  "at_or d m k = (case map_of m k of None \<Rightarrow> d | Some v \<Rightarrow> v)"

definition noteTorrentFault :: "int \<Rightarrow> nat \<Rightarrow> string \<Rightarrow> SessionT \<Rightarrow> SessionT" where
  "noteTorrentFault now h name s =
     (if \<not> t_valid s h then s
      else
        let last = at_or 0 (t_faultLastAt s) h;
            n = (if 120 < now - last then 0 else at_or 0 (t_faultCount s) h) + 1;
            s1 = s\<lparr>t_faultLastAt := AList.update h now (t_faultLastAt s),
                   t_faultCount := AList.update h n (t_faultCount s)\<rparr>
        in if n < 8 then s1
           else
             let st = live s1 h;
                 s2 = (if st_paused st then s1
                       else t_emit (TorrentError (TorrentFaulted (if name = [] then st_name st else name)))
                              (h_pause h s1));
                 s3 = s2\<lparr>t_faultCount := AList.update h 0 (t_faultCount s2)\<rparr>
             in if 500 < length (t_faultCount s3)
                then s3\<lparr>t_faultCount := [], t_faultLastAt := []\<rparr> else s3)"

section \<open>Suspicious names\<close>

definition saveSecurityWarned :: "SessionT \<Rightarrow> SessionT" where
  "saveSecurityWarned s = t_put ''securityWarned'' (TvStrings (t_securityWarned s)) s"

text \<open>A path without the suffix of an incomplete file.\<close>

definition shown_path :: "string \<Rightarrow> string" where
  "shown_path p = (if ends_with ''.!bt'' p then chop 4 p else p)"

definition scanTorrentForThreats :: "nat \<Rightarrow> string \<Rightarrow> SessionT \<Rightarrow> SessionT" where
  "scanTorrentForThreats h name s =
     (if \<not> t_warnSuspicious s \<or> \<not> t_valid s h then s
      else case lh_files (t_lt s h) of
          None \<Rightarrow> s
        | Some fs \<Rightarrow>
            let hash = best_hash (lh_infoHash (t_lt s h)) in
            if hash \<in> t_securityWarned s then s
            else
              let findings = susp_scan (map (\<lambda>f. (shown_path (lf_path f), lf_size f)) fs) in
              if findings = [] then s
              else
                let files = foldl (\<lambda>out f. if fi_fileName (fst f) \<in> set out then out
                                           else out @ [fi_fileName (fst f)]) [] findings
                in t_emit (SuspiciousFilesDetected name files)
                     (saveSecurityWarned (s\<lparr>t_securityWarned := insert hash (t_securityWarned s)\<rparr>)))"

section \<open>Totals\<close>

definition sum_payload :: "(TorStatus \<Rightarrow> int) \<Rightarrow> SessionT \<Rightarrow> int \<times> SessionT" where
  "sum_payload get s =
     fold (\<lambda>h (acc, s). if t_valid s h then let (st, s1) = cachedStatus h s in (acc + get st, s1)
                        else (acc, s)) (t_torrents s) (0, s)"

definition sessionDownloaded :: "SessionT \<Rightarrow> int \<times> SessionT" where
  "sessionDownloaded s = sum_payload st_payloadDown s"

definition sessionUploaded :: "SessionT \<Rightarrow> int \<times> SessionT" where
  "sessionUploaded s = sum_payload st_payloadUp s"

definition globalDownloaded :: "SessionT \<Rightarrow> int \<times> SessionT" where
  "globalDownloaded s = (let (d, s1) = sum_payload st_payloadDown s in (t_globalDownBase s1 + d, s1))"

definition globalUploaded :: "SessionT \<Rightarrow> int \<times> SessionT" where
  "globalUploaded s = (let (u, s1) = sum_payload st_payloadUp s in (t_globalUpBase s1 + u, s1))"

definition totalTorrentsAdded :: "SessionT \<Rightarrow> int" where
  "totalTorrentsAdded s = (case t_settings s ''totalTorrentsAdded'' of Some (TvInt n) \<Rightarrow> n | _ \<Rightarrow> 0)"

definition incrementTorrentCount :: "SessionT \<Rightarrow> SessionT" where
  "incrementTorrentCount s =
     (let s1 = s\<lparr>t_stats := t_stats s @ [RecordAdded]\<rparr>
      in t_put ''totalTorrentsAdded'' (TvInt (totalTorrentsAdded s1 + 1)) s1)"

section \<open>Categories and tags\<close>

text \<open>\<open>dirOk\<close> says whether a directory exists.\<close>

definition move_storage :: "nat \<Rightarrow> string \<Rightarrow> SessionT \<Rightarrow> SessionT" where
  "move_storage h path s = on_lt h (\<lambda>t. t\<lparr>lh_movedTo := Some path\<rparr>) s"

definition setTorrentCategory :: "(string \<Rightarrow> bool) \<Rightarrow> int \<Rightarrow> string \<Rightarrow> SessionT \<Rightarrow> SessionT" where
  "setTorrentCategory dirOk i category s =
     (case handleAt i s of
        None \<Rightarrow> s
      | Some h \<Rightarrow>
          let (hash, s1) = torrentHash i s in
          if hash = [] then s1
          else
            let s2 = (if category = []
                      then t_drop (''categories/'' @ hash)
                             (s1\<lparr>t_categories := (t_categories s1)(hash := None)\<rparr>)
                      else t_put (''categories/'' @ hash) (TvStr category)
                             (s1\<lparr>t_categories := (t_categories s1)(hash \<mapsto> category)\<rparr>))
            in (case (if category = [] then None else t_categoryPaths s2 category) of
                  None \<Rightarrow> s2
                | Some path \<Rightarrow>
                    if path = [] then s2
                    else
                      let (st, s3) = cachedStatus h s2 in
                      if st_state st \<noteq> DownloadingData \<and> st_state st \<noteq> DownloadingMetadata then s3
                      else if t_tempPath s3 \<noteq> [] \<and> dirOk (t_tempPath s3)
                      then s3\<lparr>t_intendedPath := (t_intendedPath s3)(hash \<mapsto> path)\<rparr>
                      else move_storage h path s3))"

definition setCategorySavePath :: "string \<Rightarrow> string \<Rightarrow> SessionT \<Rightarrow> SessionT" where
  "setCategorySavePath category path s =
     (if path = []
      then t_drop (''categorySavePaths/'' @ category)
             (s\<lparr>t_categoryPaths := (t_categoryPaths s)(category := None)\<rparr>)
      else t_put (''categorySavePaths/'' @ category) (TvStr path)
             (s\<lparr>t_categoryPaths := (t_categoryPaths s)(category \<mapsto> path)\<rparr>))"

definition categorySavePath :: "string \<Rightarrow> SessionT \<Rightarrow> string" where
  "categorySavePath category s = (case t_categoryPaths s category of None \<Rightarrow> [] | Some p \<Rightarrow> p)"

definition torrentTags :: "int \<Rightarrow> SessionT \<Rightarrow> string list" where
  "torrentTags i s =
     (let (hash, s1) = torrentHash i s in
      if hash = [] then [] else case t_tags s1 hash of None \<Rightarrow> [] | Some ts \<Rightarrow> ts)"

text \<open>Empty tags go, and a tag equal to an earlier one but for the case.\<close>

definition clean_tags :: "string list \<Rightarrow> string list" where
  "clean_tags tags =
     foldl (\<lambda>clean raw. let t = trimmed raw in
              if t = [] \<or> list_ex (\<lambda>e. to_lower e = to_lower t) clean then clean else clean @ [t])
       [] tags"

fun join_tags :: "string list \<Rightarrow> string" where
  "join_tags [] = []"
| "join_tags [t] = t"
| "join_tags (t # u # ts) = t @ '','' @ join_tags (u # ts)"

definition setTorrentTags :: "int \<Rightarrow> string list \<Rightarrow> SessionT \<Rightarrow> SessionT" where
  "setTorrentTags i tags s =
     (let (hash, s1) = torrentHash i s in
      if hash = [] then s1
      else
        let clean = clean_tags tags in
        t_emit TorrentsUpdated
          (if clean = []
           then t_drop (''torrentTags/'' @ hash) (s1\<lparr>t_tags := (t_tags s1)(hash := None)\<rparr>)
           else t_put (''torrentTags/'' @ hash) (TvStr (join_tags clean))
                  (s1\<lparr>t_tags := (t_tags s1)(hash \<mapsto> clean)\<rparr>)))"

end
