(* ===== verification/TorrentPolicies.thy ===== *)
theory TorrentPolicies
  imports QtText
begin

text \<open>
  Three pure decisions of the session: which paths show whether a torrent's data is on disk
  (\<open>torrent/contentprobe.cpp\<close>), when the memory guard acts (\<open>torrent/memguard.h\<close>), and which open
  trackers a magnet gets and a private torrent loses again (\<open>torrent/magnettrackers.h\<close>).
\<close>

section \<open>Is the data there?\<close>

text \<open>Native separators are slashes; \<open>indexOf\<close> is positive when a slash comes after a character.\<close>

definition contentRootCandidates :: "string \<Rightarrow> string \<Rightarrow> string \<Rightarrow> bool \<Rightarrow> string list" where
  "contentRootCandidates savePath firstRel displayName multiFile =
     (if savePath = [] then []
      else
        let base = (if last savePath = CHR ''/'' then butlast savePath else savePath);
            rel = (if multiFile
                   then (if CHR ''/'' \<in> set firstRel then before_first CHR ''/'' firstRel else [])
                   else firstRel);
            out = (if rel \<noteq> [] then [base @ ''/'' @ rel] else []);
            byName = base @ ''/'' @ displayName
        in if displayName \<noteq> [] \<and> byName \<notin> set out then out @ [byName] else out)"

definition pathVariants :: "string \<Rightarrow> string list" where
  "pathVariants path = (if path = [] then [] else [path, path @ ''.!bt''])"

definition contentPresent :: "string list \<Rightarrow> (string \<Rightarrow> bool) \<Rightarrow> bool" where
  "contentPresent candidates exist \<longleftrightarrow>
     candidates = [] \<or> list_ex (\<lambda>c. list_ex exist (pathVariants c)) candidates"

section \<open>The memory guard\<close>

datatype MemGuardAction = MgNone | MgPause | MgPanic

definition memGuardEvaluate :: "int \<Rightarrow> int \<Rightarrow> MemGuardAction" where
  "memGuardEvaluate rssMB capMB =
     (if capMB \<le> 0 \<or> rssMB < 0 then MgNone
      else if capMB * 2 \<le> rssMB then MgPanic
      else if capMB \<le> rssMB then MgPause
      else MgNone)"

section \<open>Trackers of a magnet\<close>

definition publicTrackers :: "string list" where
  "publicTrackers =
     [''udp://tracker.opentrackr.org:1337/announce'', ''udp://open.demonii.com:1337/announce'',
      ''udp://open.stealth.si:80/announce'', ''udp://tracker.torrent.eu.org:451/announce'',
      ''udp://exodus.desync.com:6969/announce'']"

text \<open>The tiers are first made as many as the trackers: cut, or filled up with 0.\<close>

definition fit_tiers :: "nat \<Rightarrow> int list \<Rightarrow> int list" where
  "fit_tiers n tiers = take n tiers @ replicate (n - length tiers) 0"

fun append_missing :: "string list \<Rightarrow> string list \<times> int list \<Rightarrow> int \<Rightarrow> string list \<times> int list" where
  "append_missing [] tt tier = tt"
| "append_missing (t # ts) tt tier =
     (if t \<in> set (fst tt) then append_missing ts tt tier
      else append_missing ts (fst tt @ [t], snd tt @ [tier]) (tier + 1))"

definition appendPublicTrackers :: "string list \<Rightarrow> int list \<Rightarrow> string list \<times> int list" where
  "appendPublicTrackers trackers tiers =
     append_missing publicTrackers (trackers, fit_tiers (length trackers) tiers)
       (int (length trackers))"

text \<open>What \<open>handleMetadata\<close> takes back from a private torrent.\<close>

definition stripPublicTrackers :: "string list \<Rightarrow> string list" where
  "stripPublicTrackers trackers = filter (\<lambda>t. t \<notin> set publicTrackers) trackers"

section \<open>Lemmas\<close>

lemma length_fit_tiers [simp]: "length (fit_tiers n tiers) = n"
  by (simp add: fit_tiers_def)


lemma append_missing_shape:
  "\<exists>xs us. append_missing ts tt tier = (fst tt @ xs, snd tt @ us) \<and> set xs \<subseteq> set ts
     \<and> length us = length xs \<and> set ts \<subseteq> set (fst tt @ xs)
     \<and> (set ts \<subseteq> set (fst tt) \<longrightarrow> xs = [])"
proof (induction ts tt tier rule: append_missing.induct)
  case (1 tt tier)
  show ?case by (intro exI [of _ "[]"]) simp
next
  case (2 t ts tt tier)
  show ?case
  proof (cases "t \<in> set (fst tt)")
    case True
    from "2.IH"(1) [OF this] obtain xs us where
      "append_missing ts tt tier = (fst tt @ xs, snd tt @ us)" "set xs \<subseteq> set ts"
      "length us = length xs" "set ts \<subseteq> set (fst tt @ xs)" "set ts \<subseteq> set (fst tt) \<longrightarrow> xs = []"
      by blast
    with True show ?thesis by (intro exI [of _ xs] exI [of _ us]) auto
  next
    case False
    from "2.IH"(2) [OF this] obtain xs us where
      "append_missing ts (fst tt @ [t], snd tt @ [tier]) (tier + 1) =
         ((fst tt @ [t]) @ xs, (snd tt @ [tier]) @ us)" "set xs \<subseteq> set ts"
      "length us = length xs" "set ts \<subseteq> set ((fst tt @ [t]) @ xs)"
      by auto
    with False show ?thesis
      by (intro exI [of _ "t # xs"] exI [of _ "tier # us"]) auto
  qed
qed

lemma appendPublicTrackers_shape:
  "\<exists>xs us. appendPublicTrackers trackers tiers = (trackers @ xs, fit_tiers (length trackers) tiers @ us)
     \<and> set xs \<subseteq> set publicTrackers \<and> length us = length xs
     \<and> set publicTrackers \<subseteq> set (trackers @ xs)
     \<and> (set publicTrackers \<subseteq> set trackers \<longrightarrow> xs = [])"
  using append_missing_shape [of publicTrackers "(trackers, fit_tiers (length trackers) tiers)"
      "int (length trackers)"]
  by (simp only: appendPublicTrackers_def fst_conv snd_conv)

lemma append_public_then_strip:
  "stripPublicTrackers (fst (appendPublicTrackers trackers tiers)) = stripPublicTrackers trackers"
proof -
  obtain xs us where e: "appendPublicTrackers trackers tiers =
      (trackers @ xs, fit_tiers (length trackers) tiers @ us)" "set xs \<subseteq> set publicTrackers"
    using appendPublicTrackers_shape by blast
  have "filter (\<lambda>t. t \<notin> set publicTrackers) xs = []"
    using e(2) by (auto simp: filter_empty_conv)
  with e(1) show ?thesis by (simp add: stripPublicTrackers_def)
qed

lemma append_public_idempotent:
  assumes "appendPublicTrackers trackers tiers = (trs, tis)"
  shows "appendPublicTrackers trs tis = (trs, tis)"
proof -
  obtain xs us where e: "trs = trackers @ xs" "tis = fit_tiers (length trackers) tiers @ us"
    "length us = length xs" "set publicTrackers \<subseteq> set trs"
    using appendPublicTrackers_shape [of trackers tiers] assms by auto
  have len: "length tis = length trs" using e by simp
  then have "fit_tiers (length trs) tis = tis" by (simp add: fit_tiers_def)
  with appendPublicTrackers_shape [of trs tis] e(4) show ?thesis by auto
qed

lemma memGuard_thresholds:
  assumes "0 < capMB" "0 \<le> rss"
  shows "memGuardEvaluate rss capMB =
    (if rss < capMB then MgNone else if rss < 2 * capMB then MgPause else MgPanic)"
  using assms by (auto simp: memGuardEvaluate_def)

end
