(* ===== verification/SessionPersist.thy ===== *)
theory SessionPersist
  imports SessionSecurity SessionConfig TorrentPolicies
begin

text \<open>
  Adding torrents and keeping them over a restart: \<open>addTorrent\<close>, \<open>addTorrentInfo\<close> and \<open>addMagnet\<close> of
  \<open>sessionmanager_lifecycle.cpp\<close> with the \<open>apply...\<close> functions of \<open>sessionmanager_config.cpp\<close>, and
  the resume data of \<open>sessionmanager_persistence.cpp\<close>. libtorrent's side is given by parameters:
  reading a .torrent file (\<open>ld\<close>), a magnet URI (\<open>pm\<close>) or resume data (\<open>rr\<close>), writing them (\<open>wr\<close>),
  and what \<open>add_torrent\<close> does with its parameters (\<open>mk\<close>): it throws, or gives a handle with the
  torrent behind it. \<open>dirOk\<close> says which directories exist and \<open>disk\<close> the size of a regular file.
  \<open>maybeAutoExcludeDefender\<close> does nothing outside Windows and is left out.
\<close>

section \<open>Parameters of a torrent\<close>

record TorInfo =
  ti_name :: string
  ti_hash :: "string \<times> string"
  ti_files :: "(string \<times> int) list"
  ti_private :: bool

record AddParams =
  ap_hash :: "string \<times> string"
  ap_ti :: "TorInfo option"
  ap_savePath :: string
  ap_name :: string
  ap_paused :: bool
  ap_autoManaged :: bool
  ap_uploadMode :: bool
  ap_noDiscovery :: bool
  ap_renamed :: "nat \<Rightarrow> string option"
  ap_prios :: "int list"
  ap_trackers :: "string list"
  ap_tiers :: "int list"
  ap_allocate :: bool
  ap_have :: "bool list"
  ap_verified :: "bool list"

text \<open>A default \<open>add_torrent_params\<close>: its flags have \<open>paused\<close> and \<open>auto_managed\<close>.\<close>

definition new_params :: AddParams where
  "new_params = \<lparr>ap_hash = ([], []), ap_ti = None, ap_savePath = [], ap_name = [], ap_paused = True,
     ap_autoManaged = True, ap_uploadMode = False, ap_noDiscovery = False, ap_renamed = (\<lambda>_. None),
     ap_prios = [], ap_trackers = [], ap_tiers = [], ap_allocate = False, ap_have = [],
     ap_verified = []\<rparr>"

datatype LtAdd = LtThrows string | LtAdded nat LtTorrent TorrentRt

definition lt_take :: "nat \<Rightarrow> LtTorrent \<Rightarrow> TorrentRt \<Rightarrow> SessionT \<Rightarrow> SessionT" where
  "lt_take h t rt s =
     on_net (\<lambda>e. e\<lparr>sn_rt := (sn_rt e)(h := rt)\<rparr>) (s\<lparr>t_lt := (t_lt s)(h := t)\<rparr>)"

definition push_torrent :: "nat \<Rightarrow> SessionT \<Rightarrow> SessionT" where
  "push_torrent h s = on_net (\<lambda>e. e\<lparr>sn_torrents := sn_torrents e @ [h]\<rparr>) s"

definition isDuplicate :: "string \<times> string \<Rightarrow> SessionT \<Rightarrow> bool" where
  "isDuplicate ih s \<longleftrightarrow> list_ex (\<lambda>h. t_valid s h \<and> lh_infoHash (t_lt s h) = ih) (t_torrents s)"

definition private_flags :: "AddParams \<Rightarrow> AddParams" where
  "private_flags atp = (case ap_ti atp of
     None \<Rightarrow> atp | Some ti \<Rightarrow> if ti_private ti then atp\<lparr>ap_noDiscovery := True\<rparr> else atp)"

definition applyContentLayout :: "SessionT \<Rightarrow> AddParams \<Rightarrow> AddParams" where
  "applyContentLayout s atp =
     (case ap_ti atp of
        None \<Rightarrow> atp
      | Some ti \<Rightarrow>
          if t_contentLayout s = 0 then atp
          else atp\<lparr>ap_renamed := foldl (\<lambda>m (i, p). m(i \<mapsto> p)) (ap_renamed atp)
                 (planContentLayout (t_contentLayout s) (ti_name ti) (map fst (ti_files ti)))\<rparr>)"

definition applyExcludedPatterns ::
  "(string \<Rightarrow> (string \<Rightarrow> bool) option) \<Rightarrow> SessionT \<Rightarrow> AddParams \<Rightarrow> AddParams" where
  "applyExcludedPatterns regex s atp =
     (case ap_ti atp of
        None \<Rightarrow> atp
      | Some ti \<Rightarrow>
          if t_excluded s = [] then atp
          else
            let hit = excludedFileIndexes regex (t_excluded s) (map fst (ti_files ti)) in
            if hit = [] then atp
            else
              let prios = (if ap_prios atp = [] then replicate (length (ti_files ti)) 4 else ap_prios atp)
              in atp\<lparr>ap_prios := foldl (\<lambda>ps i. ps[i := 0]) prios hit\<rparr>)"

definition applyIncompleteSuffix :: "AddParams \<Rightarrow> AddParams" where
  "applyIncompleteSuffix atp =
     (case ap_ti atp of
        None \<Rightarrow> atp
      | Some ti \<Rightarrow>
          atp\<lparr>ap_renamed := foldl (\<lambda>m i. let original = fst (ti_files ti ! i);
                                       suffixed = withIncompleteSuffix original
                                   in if suffixed = original then m else m(i \<mapsto> suffixed))
                 (ap_renamed atp) [0..<length (ti_files ti)]\<rparr>)"

definition applyStorageMode :: "SessionT \<Rightarrow> AddParams \<Rightarrow> AddParams" where
  "applyStorageMode s atp = atp\<lparr>ap_allocate := t_preallocate s\<rparr>"

section \<open>Saving\<close>

definition stageResumeSave :: "int \<Rightarrow> nat \<Rightarrow> SessionT \<Rightarrow> SessionT" where
  "stageResumeSave now h s =
     (if \<not> t_valid s h then s
      else (h_save h s)\<lparr>t_lastResumeSave := (t_lastResumeSave s)(h \<mapsto> now),
                        t_resumeOutstanding := t_resumeOutstanding s + 1\<rparr>)"

text \<open>A group of the settings is cleared and written anew.\<close>

definition put_group :: "string \<Rightarrow> (string \<Rightarrow> TVal option) \<Rightarrow> SessionT \<Rightarrow> SessionT" where
  "put_group g m s =
     s\<lparr>t_settings := (\<lambda>k. if starts_with (g @ ''/'') k then m (drop (length g + 1) k)
                          else t_settings s k)\<rparr>"

definition save_one :: "int \<Rightarrow> nat \<Rightarrow> SessionT \<Rightarrow> SessionT" where
  "save_one now h s =
     (if \<not> t_valid s h then s
      else
        let (st, s1) = cachedStatus h s in
        if \<not> st_hasMetadata st then s1
        else (h_save h s1)\<lparr>t_lastResumeSave := (t_lastResumeSave s1)(h \<mapsto> now),
                           t_resumeOutstanding := t_resumeOutstanding s1 + 1\<rparr>)"

definition saveResumeData :: "int \<Rightarrow> SessionT \<Rightarrow> SessionT" where
  "saveResumeData now s =
     (let (d, s1) = globalDownloaded s;
          s2 = t_put ''globalDownloaded'' (TvInt d) s1;
          (u, s3) = globalUploaded s2;
          s4 = t_put ''globalUploaded'' (TvInt u) s3;
          s5 = put_group ''categories'' (map_option TvStr \<circ> t_categories s4) s4;
          s6 = t_put ''stopAfterDownload'' (TvBool (t_stopAfterDownload s5)) s5;
          s7 = t_put ''pauseOnMissingData'' (TvBool (t_pauseOnMissing s6)) s6;
          s8 = t_put ''maxSeedSeconds'' (TvInt (t_maxSeedSeconds s7)) s7;
          s9 = put_group ''torrentStopAfter'' (map_option TvInt \<circ> t_stopAfter s8) s8;
          s10 = put_group ''torrentMaxSeed'' (map_option TvInt \<circ> t_maxSeed s9) s9
      in fold (save_one now) (t_torrents s10) s10)"

text \<open>\<open>persistResumeAlert\<close>: \<open>ok\<close> is whether the file could be written and renamed.\<close>

definition persistResumeAlert :: "string \<Rightarrow> string \<Rightarrow> bool \<Rightarrow> SessionT \<Rightarrow> SessionT" where
  "persistResumeAlert hash buf ok s =
     (if hash \<in> t_removedHashes s then s
      else if \<not> ok then s
      else s\<lparr>t_resumeFiles := (t_resumeFiles s)(hash \<mapsto> buf)\<rparr>)"

definition persistMagnetParams :: "(AddParams \<Rightarrow> string) \<Rightarrow> AddParams \<Rightarrow> string \<Rightarrow> string \<Rightarrow> SessionT \<Rightarrow> SessionT" where
  "persistMagnetParams wr atp hash finalSavePath s =
     s\<lparr>t_resumeFiles := (t_resumeFiles s)(hash \<mapsto> wr (atp\<lparr>ap_savePath := finalSavePath\<rparr>))\<rparr>"

definition captureResumeData :: "int \<Rightarrow> SessionT \<Rightarrow> string" where
  "captureResumeData i s =
     (let (hash, s1) = torrentHash i s in
      if hash = [] then [] else case t_resumeFiles s1 hash of None \<Rightarrow> [] | Some d \<Rightarrow> d)"

definition restoreFromResumeData ::
  "(string \<Rightarrow> bool \<times> AddParams) \<Rightarrow> (AddParams \<Rightarrow> LtAdd) \<Rightarrow> string \<Rightarrow> SessionT \<Rightarrow> bool \<times> SessionT" where
  "restoreFromResumeData rr mk data s =
     (if data = [] then (False, s)
      else if fst (rr data) then (False, s)
      else
        (case mk (private_flags ((snd (rr data))\<lparr>ap_autoManaged := False\<rparr>)) of
           LtThrows e \<Rightarrow> (False, s)
         | LtAdded h t rt \<Rightarrow>
             let s1 = lt_take h t rt s in
             if \<not> t_valid s1 h then (False, s1)
             else
               let s2 = h_save h (push_torrent h s1);
                   s3 = s2\<lparr>t_resumeOutstanding := t_resumeOutstanding s2 + 1\<rparr>;
                   st = live s3 h;
                   s4 = (if st_hasMetadata st
                         then s3\<lparr>t_removedHashes := t_removedHashes s3 - {st_hash st}\<rparr> else s3)
               in (True, t_emit TorrentsUpdated
                           (t_emit (TorrentAdded (int (length (t_torrents s4)) - 1)) s4))))"

section \<open>Adding\<close>

text \<open>The save path, or the temporary one with the wanted path remembered.\<close>

definition temp_path ::
  "(string \<Rightarrow> bool) \<Rightarrow> string \<Rightarrow> string \<Rightarrow> AddParams \<times> SessionT \<Rightarrow> AddParams \<times> SessionT" where
  "temp_path dirOk hash savePath as =
     (let (atp, s) = as in
      if t_tempPath s \<noteq> [] \<and> dirOk (t_tempPath s)
      then (atp\<lparr>ap_savePath := t_tempPath s\<rparr>,
            s\<lparr>t_intendedPath := (t_intendedPath s)(hash \<mapsto> savePath)\<rparr>)
      else (atp, s))"

text \<open>From the parameters to the row: the common end of \<open>addTorrent\<close> and \<open>addTorrentInfo\<close>.\<close>

definition add_prepared ::
  "(string \<Rightarrow> bool) \<Rightarrow> (string \<Rightarrow> (string \<Rightarrow> bool) option) \<Rightarrow> (AddParams \<Rightarrow> LtAdd) \<Rightarrow> int
     \<Rightarrow> TorInfo \<Rightarrow> string \<Rightarrow> AddParams \<Rightarrow> SessionT \<Rightarrow> SessionT" where
  "add_prepared dirOk regex mk now ti savePath atp0 s =
     (let atp1 = applyStorageMode s (applyIncompleteSuffix
                   (applyExcludedPatterns regex s (applyContentLayout s (private_flags atp0))));
          (atp, s1) = temp_path dirOk (best_hash (ti_hash ti)) savePath (atp1, s)
      in (case mk atp of
            LtThrows e \<Rightarrow> t_emit (TorrentError (LibMessage e)) s1
          | LtAdded h t rt \<Rightarrow>
              let s2 = incrementTorrentCount (push_torrent h (lt_take h t rt s1));
                  s3 = (if t_autoRecheck s2 \<and> t_valid s2 h
                        then on_lt h (\<lambda>t. t\<lparr>lh_rechecks := Suc (lh_rechecks t)\<rparr>) s2 else s2);
                  s4 = stageResumeSave now h s3;
                  s5 = t_emit (TorrentAdded (int (length (t_torrents s4)) - 1)) s4
              in scanTorrentForThreats h (st_name (live s5 h)) s5))"

definition addTorrentInfo ::
  "(string \<Rightarrow> bool) \<Rightarrow> (string \<Rightarrow> (string \<Rightarrow> bool) option) \<Rightarrow> (AddParams \<Rightarrow> LtAdd) \<Rightarrow> int
     \<Rightarrow> TorInfo \<Rightarrow> string \<Rightarrow> int list \<Rightarrow> bool \<Rightarrow> SessionT \<Rightarrow> SessionT" where
  "addTorrentInfo dirOk regex mk now ti savePath prios paused s =
     (if isDuplicate (ti_hash ti) s then s
      else add_prepared dirOk regex mk now ti savePath
             (new_params\<lparr>ap_hash := ti_hash ti, ap_ti := Some ti, ap_savePath := savePath,
                ap_autoManaged := False, ap_paused := paused, ap_prios := map (\<lambda>p. p mod 256) prios\<rparr>) s)"

definition addTorrent ::
  "(string \<Rightarrow> bool) \<Rightarrow> (string \<Rightarrow> (string \<Rightarrow> bool) option) \<Rightarrow> (string \<Rightarrow> string + TorInfo)
     \<Rightarrow> (AddParams \<Rightarrow> LtAdd) \<Rightarrow> int \<Rightarrow> string \<Rightarrow> string \<Rightarrow> SessionT \<Rightarrow> SessionT" where
  "addTorrent dirOk regex ld mk now filePath savePath s =
     (let s1 = (if t_exportDir s \<noteq> [] \<and> dirOk (t_exportDir s)
                then s\<lparr>t_exported := t_exported s
                         @ [(filePath, dir_filePath (t_exportDir s) (fi_fileName filePath))]\<rparr>
                else s)
      in (case ld filePath of
            Inl e \<Rightarrow> t_emit (TorrentError (LibMessage e)) s1
          | Inr ti \<Rightarrow>
              if isDuplicate (ti_hash ti) s1 then s1
              else add_prepared dirOk regex mk now ti savePath
                     (new_params\<lparr>ap_hash := ti_hash ti, ap_ti := Some ti, ap_savePath := savePath,
                        ap_autoManaged := False, ap_paused := False\<rparr>) s1))"

definition addTorrentFileWith ::
  "(string \<Rightarrow> bool) \<Rightarrow> (string \<Rightarrow> (string \<Rightarrow> bool) option) \<Rightarrow> (string \<Rightarrow> string + TorInfo)
     \<Rightarrow> (AddParams \<Rightarrow> LtAdd) \<Rightarrow> int \<Rightarrow> string \<Rightarrow> string \<Rightarrow> int list \<Rightarrow> bool \<Rightarrow> SessionT \<Rightarrow> SessionT" where
  "addTorrentFileWith dirOk regex ld mk now filePath savePath prios paused s =
     (case ld filePath of
        Inl e \<Rightarrow> t_emit (TorrentError (LibMessage e)) s
      | Inr ti \<Rightarrow> addTorrentInfo dirOk regex mk now ti savePath prios paused s)"

definition addPublic :: "SessionT \<Rightarrow> bool" where
  "addPublic s = (case t_settings s ''addPublicTrackers'' of Some (TvBool b) \<Rightarrow> b | _ \<Rightarrow> True)"

definition with_public :: "SessionT \<Rightarrow> AddParams \<Rightarrow> AddParams" where
  "with_public s atp =
     (if addPublic s
      then let (ts, tiers) = appendPublicTrackers (ap_trackers atp) (ap_tiers atp)
           in atp\<lparr>ap_trackers := ts, ap_tiers := tiers\<rparr>
      else atp)"

definition addMagnet ::
  "(string \<Rightarrow> bool) \<Rightarrow> (string \<Rightarrow> string + AddParams) \<Rightarrow> (AddParams \<Rightarrow> string) \<Rightarrow> (AddParams \<Rightarrow> LtAdd)
     \<Rightarrow> int \<Rightarrow> string \<Rightarrow> string \<Rightarrow> string \<Rightarrow> int \<Rightarrow> SessionT \<Rightarrow> SessionT" where
  "addMagnet dirOk pm wr mk now uri savePath coverHint coverType s =
     (case pm uri of
        Inl e \<Rightarrow> t_emit (TorrentError (LibMessage e)) s
      | Inr atp0 \<Rightarrow>
          if isDuplicate (ap_hash atp0) s then s
          else
            let atp1 = with_public s (atp0\<lparr>ap_savePath := savePath, ap_autoManaged := False,
                                           ap_paused := False\<rparr>);
                hash = best_hash (ap_hash atp0);
                (atp2, s1) = (if coverHint = [] then (atp1, s)
                              else (atp1\<lparr>ap_name := coverHint\<rparr>,
                                    s\<lparr>t_coverHints := (t_coverHints s)(hash \<mapsto> (coverHint, coverType))\<rparr>));
                (atp3, s2) = temp_path dirOk hash savePath (atp2, s1);
                atp = applyStorageMode s2 atp3
            in (case mk atp of
                  LtThrows e \<Rightarrow> t_emit (TorrentError (LibMessage e)) s2
                | LtAdded h t rt \<Rightarrow>
                    let s3 = push_torrent h (lt_take h t rt s2);
                        s4 = s3\<lparr>t_magnetAddedAt := (t_magnetAddedAt s3)(h \<mapsto> now),
                                t_magnetHashes := (t_magnetHashes s3)(h \<mapsto> hash)\<rparr>;
                        s5 = incrementTorrentCount (persistMagnetParams wr atp hash savePath s4)
                    in t_emit (TorrentAdded (int (length (t_torrents s5)) - 1)) s5))"

section \<open>Loading at the start\<close>

text \<open>
  One file of a loaded torrent: the running renames, whether every wanted file so far has its full
  size, and whether a wanted file that had data is gone. \<open>mid i n\<close> is the piece that holds byte \<open>n\<close>
  of file \<open>i\<close> (\<open>map_file\<close>).
\<close>

definition reconcile_file ::
  "(string \<Rightarrow> int option) \<Rightarrow> (nat \<Rightarrow> int \<Rightarrow> nat) \<Rightarrow> AddParams \<Rightarrow> (string \<times> int) list \<Rightarrow> nat
     \<Rightarrow> (nat \<Rightarrow> string option) \<times> bool \<times> bool \<Rightarrow> (nat \<Rightarrow> string option) \<times> bool \<times> bool" where
  "reconcile_file disk mid atp files i acc =
     (let (renamed, full, absent) = acc;
          eff = (case renamed i of Some p \<Rightarrow> p | None \<Rightarrow> fst (files ! i));
          base = fst (stripIncompleteSuffix eff);
          want = snd (files ! i);
          basePath = dir_filePath (ap_savePath atp) base;
          plain = disk basePath;
          bt = disk (basePath @ kIncompleteSuffix);
          wanted = (length (ap_prios atp) \<le> i \<or> ap_prios atp ! i \<noteq> 0);
          (chosen, wantedFull) = reconcileIncompleteSuffix eff want wanted
            \<lparr>plainIsFile = plain \<noteq> None, plainSize = (case plain of None \<Rightarrow> 0 | Some n \<Rightarrow> n),
             btIsFile = bt \<noteq> None, btSize = (case bt of None \<Rightarrow> 0 | Some n \<Rightarrow> n)\<rparr>;
          m = mid i (want div 2)
      in (if chosen \<noteq> eff then renamed(i \<mapsto> chosen) else renamed,
          full \<and> wantedFull,
          absent \<or> (wanted \<and> 0 < want \<and> plain = None \<and> bt = None
                      \<and> m < length (ap_have atp) \<and> ap_have atp ! m)))"

definition reconcile_files ::
  "(string \<Rightarrow> int option) \<Rightarrow> (nat \<Rightarrow> int \<Rightarrow> nat) \<Rightarrow> AddParams \<Rightarrow> (string \<times> int) list
     \<Rightarrow> (nat \<Rightarrow> string option) \<times> bool \<times> bool" where
  "reconcile_files disk mid atp files =
     fold (reconcile_file disk mid atp files) [0..<length files] (ap_renamed atp, files \<noteq> [], False)"

text \<open>What loading decides before the torrent is added.\<close>

definition load_params ::
  "(string \<Rightarrow> int option) \<Rightarrow> (TorInfo \<Rightarrow> nat \<Rightarrow> int \<Rightarrow> nat) \<Rightarrow> bool \<Rightarrow> AddParams \<times> SessionT
     \<Rightarrow> AddParams \<times> SessionT" where
  "load_params disk mid recovered as =
     (let (atp0, s) = as;
          atp = private_flags (atp0\<lparr>ap_autoManaged := False\<rparr>)
      in (case ap_ti atp of
            None \<Rightarrow> (atp, s)
          | Some ti \<Rightarrow>
              let (renamed, full, absent) = reconcile_files disk (mid ti) atp (ti_files ti);
                  hash = best_hash (ti_hash ti);
                  s1 = (if full then s\<lparr>t_completedAtStartup := insert hash (t_completedAtStartup s)\<rparr>
                        else s);
                  atp1 = atp\<lparr>ap_renamed := renamed\<rparr>
              in if t_pauseOnMissing s1 \<and> absent \<and> filter id (ap_have atp) \<noteq> [] \<and> \<not> recovered
                 then (atp1\<lparr>ap_paused := True\<rparr>,
                       s1\<lparr>t_missingHashes := insert hash (t_missingHashes s1),
                          t_missingSeen := insert hash (t_missingSeen s1),
                          t_missingPaused := insert hash (t_missingPaused s1)\<rparr>)
                 else (atp1, s1)))"

definition load_add :: "(AddParams \<Rightarrow> LtAdd) \<Rightarrow> int \<Rightarrow> bool \<Rightarrow> AddParams \<times> SessionT \<Rightarrow> SessionT" where
  "load_add mk now recovered as =
     (let (atp, s) = as in
      case mk atp of
        LtThrows e \<Rightarrow> s
      | LtAdded h t rt \<Rightarrow>
          let s1 = lt_take h t rt s in
          if \<not> t_valid s1 h then s1
          else
            let s2 = push_torrent h s1;
                s3 = (if ap_ti atp = None
                      then s2\<lparr>t_magnetHashes := (t_magnetHashes s2)(h \<mapsto> best_hash (ap_hash atp)),
                              t_magnetAddedAt := (t_magnetAddedAt s2)(h \<mapsto> now)\<rparr>
                      else s2);
                s4 = (if recovered then on_lt h (\<lambda>t. t\<lparr>lh_rechecks := Suc (lh_rechecks t)\<rparr>) s3 else s3)
            in s4\<lparr>t_pendingStrip := insert h (t_pendingStrip s4)\<rparr>)"

text \<open>
  A file that cannot be parsed and has no torrent in it is moved aside: it is no resume file any
  more.
\<close>

definition load_file ::
  "(string \<Rightarrow> int option) \<Rightarrow> (TorInfo \<Rightarrow> nat \<Rightarrow> int \<Rightarrow> nat) \<Rightarrow> (string \<Rightarrow> bool \<times> AddParams)
     \<Rightarrow> (AddParams \<Rightarrow> LtAdd) \<Rightarrow> int \<Rightarrow> string \<Rightarrow> SessionT \<Rightarrow> SessionT" where
  "load_file disk mid rr mk now hash s =
     (case t_resumeFiles s hash of
        None \<Rightarrow> s
      | Some data \<Rightarrow>
          let (ec, atp) = rr data in
          if ec \<and> corruptResumeAction (ap_ti atp \<noteq> None) = Quarantine
          then s\<lparr>t_resumeFiles := (t_resumeFiles s)(hash := None)\<rparr>
          else
            let atp1 = (if ec then atp\<lparr>ap_paused := False, ap_have := [], ap_verified := []\<rparr> else atp)
            in load_add mk now ec (load_params disk mid ec (atp1, s)))"

definition reapply_caps :: "nat \<Rightarrow> SessionT \<Rightarrow> SessionT" where
  "reapply_caps h s =
     (if \<not> t_valid s h \<or> \<not> st_hasMetadata (live s h) then s
      else
        let hash = st_hash (live s h);
            d = (case t_downLimit s hash of None \<Rightarrow> 0 | Some v \<Rightarrow> v);
            u = (case t_upLimit s hash of None \<Rightarrow> 0 | Some v \<Rightarrow> v);
            s1 = (if d \<noteq> 0 then on_lt h (\<lambda>t. t\<lparr>lh_downLimit := to_int32 (d * 1024)\<rparr>) s else s)
        in if u \<noteq> 0 then on_lt h (\<lambda>t. t\<lparr>lh_upLimit := to_int32 (u * 1024)\<rparr>) s1 else s1)"

text \<open>\<open>names\<close> are the hashes the directory listing gives, in its order.\<close>

definition loadResumeData ::
  "(string \<Rightarrow> int option) \<Rightarrow> (TorInfo \<Rightarrow> nat \<Rightarrow> int \<Rightarrow> nat) \<Rightarrow> (string \<Rightarrow> bool \<times> AddParams)
     \<Rightarrow> (AddParams \<Rightarrow> LtAdd) \<Rightarrow> int \<Rightarrow> string list \<Rightarrow> SessionT \<Rightarrow> SessionT" where
  "loadResumeData disk mid rr mk now names s =
     (let s1 = fold (load_file disk mid rr mk now) names (pruneRemovedHistory now s);
          s2 = fold reapply_caps (t_torrents s1) s1
      in if t_torrents s2 \<noteq> [] then t_emit TorrentsUpdated s2 else s2)"

end
