(* ===== verification/SessionAlerts.thy ===== *)
theory SessionAlerts
  imports SessionPersist
begin

text \<open>
  What the session does with libtorrent's alerts: \<open>sessionmanager_alerts.cpp\<close>,
  \<open>sessionmanager_alerts_finish.cpp\<close>, and the magnets that wait in the Add window
  (\<open>sessionmanager_staging.cpp\<close>). An alert is a value of \<open>TAlert\<close> with the handle and the data it
  carries. \<open>lh_files\<close> has the current path of each file, renames included, as \<open>torrent_file()\<close> has;
  a rename is applied there.
\<close>

section \<open>Renaming\<close>

definition rename_in :: "nat \<Rightarrow> string \<Rightarrow> LtTorrent \<Rightarrow> LtTorrent" where
  "rename_in i path t =
     t\<lparr>lh_files := map_option (\<lambda>fs. if i < length fs then fs[i := (fs ! i)\<lparr>lf_path := path\<rparr>] else fs)
         (lh_files t)\<rparr>"

text \<open>\<open>strip_file\<close> renames a file whose path ends in the suffix.\<close>

definition strip_file :: "nat \<Rightarrow> LtTorrent \<Rightarrow> LtTorrent" where
  "strip_file i t =
     (case lh_files t of
        None \<Rightarrow> t
      | Some fs \<Rightarrow>
          if length fs \<le> i then t
          else let (p, hit) = stripIncompleteSuffix (lf_path (fs ! i))
               in if hit then rename_in i p t else t)"

definition file_count :: "LtTorrent \<Rightarrow> nat" where
  "file_count t = (case lh_files t of None \<Rightarrow> 0 | Some fs \<Rightarrow> length fs)"

definition strip_all :: "LtTorrent \<Rightarrow> LtTorrent" where
  "strip_all t = fold strip_file [0..<file_count t] t"

definition strip_done :: "LtTorrent \<Rightarrow> LtTorrent" where
  "strip_done t =
     fold (\<lambda>i t. case lh_files t of
             None \<Rightarrow> t
           | Some fs \<Rightarrow> if lf_done (fs ! i) \<noteq> lf_size (fs ! i) then t else strip_file i t)
       [0..<file_count t] t"

definition suffix_all :: "LtTorrent \<Rightarrow> LtTorrent" where
  "suffix_all t =
     fold (\<lambda>i t. case lh_files t of
             None \<Rightarrow> t
           | Some fs \<Rightarrow> if ends_with ''.!bt'' (lf_path (fs ! i)) then t
                        else rename_in i (lf_path (fs ! i) @ ''.!bt'') t)
       [0..<file_count t] t"

section \<open>Status\<close>

text \<open>
  One status of a batch. \<open>progressOk\<close> is whether \<open>file_progress\<close> works yet for the handle; when it
  does not, the strip is tried again with the next batch.
\<close>

definition state_one :: "(nat \<Rightarrow> bool) \<Rightarrow> nat \<times> TorStatus \<Rightarrow> SessionT \<Rightarrow> SessionT" where
  "state_one progressOk hs s0 =
     (let (h, st) = hs; s = s0\<lparr>t_cache := (t_cache s0)(h \<mapsto> st)\<rparr> in
      if h \<notin> t_pendingStrip s \<or> \<not> st_hasMetadata st then s
      else if lh_files (t_lt s h) \<noteq> None \<and> \<not> progressOk h then s
      else (on_lt h strip_done s)\<lparr>t_pendingStrip := t_pendingStrip s - {h}\<rparr>)"

definition onStateUpdate :: "(nat \<Rightarrow> bool) \<Rightarrow> (nat \<times> TorStatus) list \<Rightarrow> SessionT \<Rightarrow> SessionT" where
  "onStateUpdate progressOk batch s = fold (state_one progressOk) batch s"

definition lt_recheck :: "nat \<Rightarrow> SessionT \<Rightarrow> SessionT" where
  "lt_recheck h s =
     (if t_valid s h then on_lt h (\<lambda>t. t\<lparr>lh_rechecks := Suc (lh_rechecks t)\<rparr>) s else s)"

definition onStorageMovedFailed :: "nat \<Rightarrow> string \<Rightarrow> SessionT \<Rightarrow> SessionT" where
  "onStorageMovedFailed h msg s = lt_recheck h (t_emit (TorrentError (LibMessage msg)) s)"

definition updatePortStatus :: "SessionT \<Rightarrow> SessionT" where
  "updatePortStatus s =
     (let n = portStatusCode (t_listenOk s) (t_portmapOk s)
      in if n = t_portStatus s then s else t_emit (PortStatusChanged n) (s\<lparr>t_portStatus := n\<rparr>))"

definition onListenFailed :: "string \<Rightarrow> SessionT \<Rightarrow> SessionT" where
  "onListenFailed msg s =
     updatePortStatus ((t_emit (TorrentError (LibMessage msg)) s)\<lparr>t_listenOk := False\<rparr>)"

definition onListenSucceeded :: "SessionT \<Rightarrow> SessionT" where
  "onListenSucceeded s = updatePortStatus (s\<lparr>t_listenOk := True\<rparr>)"

definition onPortmapSucceeded :: "SessionT \<Rightarrow> SessionT" where
  "onPortmapSucceeded s = updatePortStatus (s\<lparr>t_portmapOk := True\<rparr>)"

definition onPortmapFailed :: "SessionT \<Rightarrow> SessionT" where
  "onPortmapFailed s = updatePortStatus (s\<lparr>t_portmapOk := False\<rparr>)"

definition onMetadataFailed :: "string \<Rightarrow> SessionT \<Rightarrow> SessionT" where
  "onMetadataFailed msg s = t_emit (TorrentError (LibMessage msg)) s"

definition resume_answered :: "SessionT \<Rightarrow> SessionT" where
  "resume_answered s =
     (if 0 < t_resumeOutstanding s then s\<lparr>t_resumeOutstanding := t_resumeOutstanding s - 1\<rparr> else s)"

definition onResumeDataReady :: "string \<Rightarrow> string \<Rightarrow> bool \<Rightarrow> SessionT \<Rightarrow> SessionT" where
  "onResumeDataReady hash buf ok s = resume_answered (persistResumeAlert hash buf ok s)"

definition onResumeDataFailed :: "SessionT \<Rightarrow> SessionT" where
  "onResumeDataFailed s = resume_answered s"

definition onPieceFinished :: "int \<Rightarrow> nat \<Rightarrow> int \<Rightarrow> SessionT \<Rightarrow> SessionT" where
  "onPieceFinished now h piece s =
     (if \<not> t_valid s h then s
      else
        let s1 = (case t_streamed s h of None \<Rightarrow> s | Some hash \<Rightarrow> t_emit (PieceFinished hash piece) s);
            due = (case t_lastResumeSave s1 h of None \<Rightarrow> True | Some t \<Rightarrow> 60 \<le> now - t)
        in if \<not> due then s1
           else (h_save h s1)\<lparr>t_lastResumeSave := (t_lastResumeSave s1)(h \<mapsto> now),
                             t_resumeOutstanding := t_resumeOutstanding s1 + 1\<rparr>)"

definition onFastresumeRejected :: "nat \<Rightarrow> SessionT \<Rightarrow> SessionT" where
  "onFastresumeRejected h s = lt_recheck h s"

definition onTorrentChecked :: "nat \<Rightarrow> SessionT \<Rightarrow> SessionT" where
  "onTorrentChecked h s =
     (if t_valid s h then s\<lparr>t_cache := (t_cache s)(h \<mapsto> live s h)\<rparr> else s)"

section \<open>Metadata of a magnet\<close>

definition isStaged :: "nat \<Rightarrow> SessionT \<Rightarrow> bool" where
  "isStaged h s \<longleftrightarrow> list_ex (\<lambda>(_, g, _). g = h) (t_staged s)"

definition onStagedMetadata :: "nat \<Rightarrow> SessionT \<Rightarrow> SessionT" where
  "onStagedMetadata h s =
     (case find (\<lambda>(_, g, _). g = h) (t_staged s) of
        None \<Rightarrow> s
      | Some (hash, _, _) \<Rightarrow>
          (case lh_files (t_lt s h) of
             None \<Rightarrow> s
           | Some fs \<Rightarrow> t_emit (StagedMetadata hash (lh_tiName (t_lt s h)) (sum_list (map lf_size fs))
                         (map lf_path fs) (map lf_size fs)) s))"

definition rekey :: "string \<Rightarrow> string \<Rightarrow> (string \<Rightarrow> 'v option) \<Rightarrow> string \<Rightarrow> 'v option" where
  "rekey old new m = (case m old of None \<Rightarrow> m | Some v \<Rightarrow> (m(new \<mapsto> v))(old := None))"

definition private_magnet :: "LtTorrent \<Rightarrow> LtTorrent" where
  "private_magnet t =
     (if lh_private t
      then t\<lparr>lh_noDiscovery := True, lh_trackers := stripPublicTrackers (lh_trackers t)\<rparr> else t)"

definition rekey_magnet :: "nat \<Rightarrow> SessionT \<Rightarrow> SessionT" where
  "rekey_magnet h s =
     (case t_magnetHashes s h of
        None \<Rightarrow> s
      | Some old \<Rightarrow>
          let best = st_hash (live s h) in
          if best = old then s
          else s\<lparr>t_resumeFiles := (t_resumeFiles s)(old := None),
                 t_intendedPath := rekey old best (t_intendedPath s),
                 t_coverHints := rekey old best (t_coverHints s),
                 t_stopAfter := rekey old best (t_stopAfter s),
                 t_magnetHashes := (t_magnetHashes s)(h \<mapsto> best)\<rparr>)"

definition handleMetadata :: "int \<Rightarrow> nat \<Rightarrow> SessionT \<Rightarrow> SessionT" where
  "handleMetadata now h s =
     (let s1 = (if lh_files (t_lt s h) \<noteq> None then on_lt h (\<lambda>t. private_magnet (suffix_all t)) s else s);
          s2 = stageResumeSave now h (rekey_magnet h s1)
      in scanTorrentForThreats h (st_name (live s2 h)) s2)"

definition onMetadataReceived :: "int \<Rightarrow> nat \<Rightarrow> SessionT \<Rightarrow> SessionT" where
  "onMetadataReceived now h s =
     (if \<not> t_valid s h then s
      else if isStaged h s then onStagedMetadata h s
      else handleMetadata now h s)"

definition onFileCompleted :: "nat \<Rightarrow> nat \<Rightarrow> SessionT \<Rightarrow> SessionT" where
  "onFileCompleted h i s = (if t_valid s h then on_lt h (strip_file i) s else s)"

section \<open>Finished, failed\<close>

definition executeOnComplete :: "string \<Rightarrow> string \<Rightarrow> string \<Rightarrow> int \<Rightarrow> SessionT \<Rightarrow> SessionT" where
  "executeOnComplete name savePath hash totalSize s =
     (if t_runOnComplete s = [] then s
      else t_emit (CommandStarted
             (expandOnCompleteCommand (t_runOnComplete s) name savePath hash totalSize)) s)"

definition onTorrentFinished :: "nat \<Rightarrow> string \<Rightarrow> SessionT \<Rightarrow> SessionT" where
  "onTorrentFinished h name s =
     (if \<not> t_valid s h then s
      else
        let st = live s h;
            s1 = on_lt h strip_all s;
            downloaded = downloadedPayloadThisSession (st_payloadDown st);
            hash = st_hash st;
            s2 = (if \<not> downloaded then s1
                  else
                    let intended = (case t_intendedPath s1 hash of None \<Rightarrow> [] | Some p \<Rightarrow> p);
                        s2 = s1\<lparr>t_intendedPath := (t_intendedPath s1)(hash := None)\<rparr>;
                        dest = finishMoveDestination intended (t_autoMove s2) (t_autoMovePath s2);
                        s3 = (if dest \<noteq> [] then move_storage h dest s2 else s2);
                        s4 = (if effectiveStopAfterDownload hash s3 then h_pause h s3 else s3);
                        s5 = (if t_autoExtract s4
                              then t_emit (ExtractArchives (st_savePath st) name hash) s4 else s4);
                        again = hash \<in> t_completedAtStartup s5
                    in if \<not> shouldEmitTorrentFinished downloaded again then s5
                       else
                         let s6 = s5\<lparr>t_stats := t_stats s5 @ [RecordCompleted
                                    (case t_categories s5 hash of None \<Rightarrow> [] | Some c \<Rightarrow> c)]\<rparr>;
                             s7 = executeOnComplete name (st_savePath st) hash (st_totalWanted st) s6
                         in scanTorrentForThreats h name (t_emit (TorrentFinished name hash) s7))
        in s2\<lparr>t_queuePaused := t_queuePaused s2 - {h}\<rparr>)"

definition onTorrentError :: "int \<Rightarrow> nat \<Rightarrow> string \<Rightarrow> SessionT \<Rightarrow> SessionT" where
  "onTorrentError now h msg s =
     (let last = at_or 0 (t_lastTorrentError s) h;
          s1 = s\<lparr>t_lastTorrentError := AList.update h last (t_lastTorrentError s)\<rparr>;
          s2 = (if 3 \<le> now - last
                then (t_emit (TorrentError (LibMessage msg)) s1)
                       \<lparr>t_lastTorrentError := AList.update h now (t_lastTorrentError s1)\<rparr>
                else s1);
          s3 = (if 500 < length (t_lastTorrentError s2) then s2\<lparr>t_lastTorrentError := []\<rparr> else s2)
      in noteTorrentFault now h [] s3)"

definition contains_ci :: "string \<Rightarrow> string \<Rightarrow> bool" where
  "contains_ci needle s = has_sub (to_lower needle) (to_lower s)"

definition is_disk_full :: "string \<Rightarrow> bool" where
  "is_disk_full msg \<longleftrightarrow> contains_ci ''No space'' msg \<or> contains_ci ''not enough'' msg
     \<or> contains_ci ''disk full'' msg"

definition pause_if_downloading :: "nat \<Rightarrow> SessionT \<Rightarrow> SessionT" where
  "pause_if_downloading h s =
     (if \<not> t_valid s h then s
      else let (st, s1) = cachedStatus h s
           in if st_state st = DownloadingData \<and> \<not> st_paused st then h_pause h s1 else s1)"

definition onFileError :: "int \<Rightarrow> nat \<Rightarrow> string \<Rightarrow> SessionT \<Rightarrow> SessionT" where
  "onFileError now h msg s =
     (let shouldEmit = 30 \<le> now - t_lastFileError s;
          note = (\<lambda>m s. if shouldEmit then (t_emit (TorrentError m) s)\<lparr>t_lastFileError := now\<rparr> else s)
      in if is_disk_full msg
         then note DiskFullError (fold pause_if_downloading (t_torrents s) s)
         else
           let s1 = note (LibMessage msg) s;
               st = live s1 h;
               wasFinished = (st_isFinished st \<or> st_state st = FinishedData \<or> st_state st = Seeding);
               s2 = (if t_valid s1 h \<and> wasFinished \<and> \<not> st_paused st then h_pause h s1 else s1)
           in noteTorrentFault now h [] s2)"

section \<open>Staged magnets\<close>

definition put_staged :: "string \<Rightarrow> nat \<Rightarrow> string \<Rightarrow> SessionT \<Rightarrow> SessionT" where
  "put_staged hash h uri s = s\<lparr>t_staged := AList.update hash (h, uri) (t_staged s)\<rparr>"

definition drop_staged :: "string \<Rightarrow> SessionT \<Rightarrow> SessionT" where
  "drop_staged hash s = s\<lparr>t_staged := AList.delete hash (t_staged s)\<rparr>"

text \<open>\<open>scratch\<close> is the scratch folder. A staged torrent is no row.\<close>

definition stageMagnet ::
  "string \<Rightarrow> (string \<Rightarrow> string + AddParams) \<Rightarrow> (AddParams \<Rightarrow> LtAdd) \<Rightarrow> string \<Rightarrow> SessionT \<Rightarrow> SessionT" where
  "stageMagnet scratch pm mk uri s =
     (case pm uri of
        Inl e \<Rightarrow> s
      | Inr atp \<Rightarrow>
          let hash = best_hash (ap_hash atp) in
          if isDuplicate (ap_hash atp) s then s
          else
            (case map_of (t_staged s) hash of
               Some (h, _) \<Rightarrow>
                 if t_valid s h \<and> st_hasMetadata (live s h) then onStagedMetadata h s else s
             | None \<Rightarrow>
                 (case mk (with_public s (atp\<lparr>ap_savePath := scratch, ap_autoManaged := False,
                                             ap_paused := False, ap_uploadMode := True\<rparr>)) of
                    LtThrows e \<Rightarrow> s
                  | LtAdded h t rt \<Rightarrow> put_staged hash h uri (lt_take h t rt s))))"

definition lt_remove :: "nat \<Rightarrow> SessionT \<Rightarrow> SessionT" where
  "lt_remove h s = on_net (\<lambda>e. e\<lparr>sn_rt := (sn_rt e)(h := (sn_rt e h)\<lparr>rt_valid := False\<rparr>)\<rparr>) s"

definition discardStaged :: "string \<Rightarrow> SessionT \<Rightarrow> SessionT" where
  "discardStaged hash s =
     (case map_of (t_staged s) hash of
        None \<Rightarrow> s
      | Some (h, _) \<Rightarrow> drop_staged hash (if t_valid s h then lt_remove h s else s))"

text \<open>\<open>torrentIndexByInfoHash\<close>; looking the hashes up fills the status cache.\<close>

fun t_findHash :: "string \<Rightarrow> int list \<Rightarrow> SessionT \<Rightarrow> int \<times> SessionT" where
  "t_findHash hash [] s = (-1, s)"
| "t_findHash hash (i # is) s =
     (let (x, s1) = torrentHash i s
      in if to_lower x = to_lower hash then (i, s1) else t_findHash hash is s1)"

definition t_indexByInfoHash :: "string \<Rightarrow> SessionT \<Rightarrow> int \<times> SessionT" where
  "t_indexByInfoHash hash s =
     (if hash = [] then (-1, s)
      else t_findHash hash (map int [0..<length (t_torrents s)]) s)"

definition addMagnetWith ::
  "(string \<Rightarrow> bool) \<Rightarrow> (string \<Rightarrow> string + AddParams) \<Rightarrow> (AddParams \<Rightarrow> string) \<Rightarrow> (AddParams \<Rightarrow> LtAdd)
     \<Rightarrow> int \<Rightarrow> string \<Rightarrow> string \<Rightarrow> bool \<Rightarrow> SessionT \<Rightarrow> SessionT" where
  "addMagnetWith dirOk pm wr mk now uri savePath paused s =
     (let s1 = addMagnet dirOk pm wr mk now uri savePath [] 0 s in
      if \<not> paused then s1
      else (case pm uri of
          Inl e \<Rightarrow> s1
        | Inr atp \<Rightarrow>
            let (i, s2) = t_indexByInfoHash (best_hash (ap_hash atp)) s1
            in if 0 \<le> i then pauseTorrent i s2 else s2))"

definition prioritize_files :: "int list \<Rightarrow> LtTorrent \<Rightarrow> LtTorrent" where
  "prioritize_files ps t =
     t\<lparr>lh_files := map_option (\<lambda>fs. map (\<lambda>(f, p). f\<lparr>lf_prio := p\<rparr>) (zip fs ps) @ drop (length ps) fs)
         (lh_files t)\<rparr>"

definition commitStaged ::
  "(string \<Rightarrow> bool) \<Rightarrow> (string \<Rightarrow> string + AddParams) \<Rightarrow> (AddParams \<Rightarrow> string) \<Rightarrow> (AddParams \<Rightarrow> LtAdd)
     \<Rightarrow> int \<Rightarrow> string \<Rightarrow> string \<Rightarrow> int list \<Rightarrow> bool \<Rightarrow> SessionT \<Rightarrow> SessionT" where
  "commitStaged dirOk pm wr mk now hash savePath prios paused s =
     (case map_of (t_staged s) hash of
        None \<Rightarrow> s
      | Some (h, uri) \<Rightarrow>
          let s1 = drop_staged hash s in
          if \<not> t_valid s1 h then addMagnetWith dirOk pm wr mk now uri savePath paused s1
          else
            let hasMeta = st_hasMetadata (live s1 h);
                temp = (t_tempPath s1 \<noteq> [] \<and> dirOk (t_tempPath s1));
                s2 = (if temp then s1\<lparr>t_intendedPath := (t_intendedPath s1)(hash \<mapsto> savePath)\<rparr> else s1);
                s3 = move_storage h (if temp then t_tempPath s1 else savePath) s2;
                s4 = (if hasMeta \<and> prios \<noteq> []
                      then on_lt h (prioritize_files (map (\<lambda>p. p mod 256) prios)) s3 else s3);
                s5 = on_lt h (\<lambda>t. t\<lparr>lh_uploadMode := False\<rparr>) s4;
                s6 = (if paused then h_pause h s5 else h_resume h s5);
                s7 = push_torrent h s6;
                s8 = incrementTorrentCount (s7\<lparr>t_magnetHashes := (t_magnetHashes s7)(h \<mapsto> hash)\<rparr>)
            in if hasMeta
               then let s9 = handleMetadata now h s8
                    in t_emit (TorrentAdded (int (length (t_torrents s9)) - 1)) s9
               else
                 let s9 = s8\<lparr>t_magnetAddedAt := (t_magnetAddedAt s8)(h \<mapsto> now)\<rparr> in
                 (case pm uri of
                    Inl e \<Rightarrow> t_emit (TorrentError (LibMessage e)) s9
                  | Inr atp \<Rightarrow>
                      let s10 = persistMagnetParams wr atp hash savePath s9
                      in t_emit (TorrentAdded (int (length (t_torrents s10)) - 1)) s10))"

section \<open>Dispatch\<close>

datatype TAlert =
    StateUpdateA "(nat \<times> TorStatus) list"
  | FinishedA nat string
  | ErrorA nat string
  | FileErrorA nat string
  | MovedFailedA nat string
  | ListenFailedA string
  | ListenOkA
  | PortmapOkA
  | PortmapErrorA
  | MetadataFailedA nat string
  | ResumeReadyA nat string string bool
  | ResumeFailedA nat
  | PieceFinishedA nat int
  | DroppedA
  | FastresumeRejectedA nat
  | CheckedA nat
  | MetadataA nat
  | FileCompletedA nat nat
  | RenamedA nat

text \<open>The handle of a torrent alert.\<close>

fun alert_handle :: "TAlert \<Rightarrow> nat option" where
  "alert_handle (FinishedA h _) = Some h"
| "alert_handle (ErrorA h _) = Some h"
| "alert_handle (FileErrorA h _) = Some h"
| "alert_handle (MovedFailedA h _) = Some h"
| "alert_handle (MetadataFailedA h _) = Some h"
| "alert_handle (ResumeReadyA h _ _ _) = Some h"
| "alert_handle (ResumeFailedA h) = Some h"
| "alert_handle (PieceFinishedA h _) = Some h"
| "alert_handle (FastresumeRejectedA h) = Some h"
| "alert_handle (CheckedA h) = Some h"
| "alert_handle (MetadataA h) = Some h"
| "alert_handle (FileCompletedA h _) = Some h"
| "alert_handle (RenamedA h) = Some h"
| "alert_handle _ = None"

fun on_alert :: "(nat \<Rightarrow> bool) \<Rightarrow> int \<Rightarrow> TAlert \<Rightarrow> SessionT \<Rightarrow> SessionT" where
  "on_alert pok now (StateUpdateA batch) s = onStateUpdate pok batch s"
| "on_alert pok now (FinishedA h name) s = onTorrentFinished h name s"
| "on_alert pok now (ErrorA h msg) s = onTorrentError now h msg s"
| "on_alert pok now (FileErrorA h msg) s = onFileError now h msg s"
| "on_alert pok now (MovedFailedA h msg) s = onStorageMovedFailed h msg s"
| "on_alert pok now (ListenFailedA msg) s = onListenFailed msg s"
| "on_alert pok now ListenOkA s = onListenSucceeded s"
| "on_alert pok now PortmapOkA s = onPortmapSucceeded s"
| "on_alert pok now PortmapErrorA s = onPortmapFailed s"
| "on_alert pok now (MetadataFailedA h msg) s = onMetadataFailed msg s"
| "on_alert pok now (ResumeReadyA h hash buf ok) s = onResumeDataReady hash buf ok s"
| "on_alert pok now (ResumeFailedA h) s = onResumeDataFailed s"
| "on_alert pok now (PieceFinishedA h p) s = onPieceFinished now h p s"
| "on_alert pok now DroppedA s = s"
| "on_alert pok now (FastresumeRejectedA h) s = onFastresumeRejected h s"
| "on_alert pok now (CheckedA h) s = onTorrentChecked h s"
| "on_alert pok now (MetadataA h) s = onMetadataReceived now h s"
| "on_alert pok now (FileCompletedA h i) s = onFileCompleted h i s"
| "on_alert pok now (RenamedA h) s = s"

text \<open>
  An alert of a staged torrent only matters when it brings the metadata. The handles of renamed
  torrents are collected, and saved when the batch is through.
\<close>

definition take_alert ::
  "(nat \<Rightarrow> bool) \<Rightarrow> int \<Rightarrow> TAlert \<Rightarrow> nat list \<times> SessionT \<Rightarrow> nat list \<times> SessionT" where
  "take_alert pok now a rs =
     (let (renamed, s) = rs;
          staged = (case alert_handle a of None \<Rightarrow> False | Some h \<Rightarrow> isStaged h s)
      in if staged
         then (renamed, case a of MetadataA h \<Rightarrow> onStagedMetadata h s | _ \<Rightarrow> s)
         else (case a of RenamedA h \<Rightarrow> if h \<in> set renamed then renamed else insort h renamed
                       | _ \<Rightarrow> renamed, on_alert pok now a s))"

record AlertQueue =
  aq_drain :: "TAlert list"
  aq_scheduled :: bool

definition kMaxPerTick :: nat where "kMaxPerTick = 1000"

text \<open>\<open>popped\<close> is what \<open>pop_alerts\<close> would give now.\<close>

definition processAlerts ::
  "(nat \<Rightarrow> bool) \<Rightarrow> int \<Rightarrow> bool \<Rightarrow> TAlert list \<Rightarrow> AlertQueue \<times> SessionT \<Rightarrow> AlertQueue \<times> SessionT" where
  "processAlerts pok now closing popped qs =
     (let (q, s) = qs;
          drain = (if aq_drain q = [] then popped else aq_drain q);
          n = min (length drain) kMaxPerTick;
          (renamed, s1) = fold (take_alert pok now) (take n drain) ([], s);
          rest = drop n drain
      in (q\<lparr>aq_drain := rest, aq_scheduled := aq_scheduled q \<or> (rest \<noteq> [] \<and> \<not> closing)\<rparr>,
          fold (stageResumeSave now) renamed s1))"

text \<open>The zero-delay timer that goes on with a batch.\<close>

definition drainTimer ::
  "(nat \<Rightarrow> bool) \<Rightarrow> int \<Rightarrow> bool \<Rightarrow> TAlert list \<Rightarrow> AlertQueue \<times> SessionT \<Rightarrow> AlertQueue \<times> SessionT" where
  "drainTimer pok now closing popped qs =
     (if \<not> aq_scheduled (fst qs) then qs
      else processAlerts pok now closing popped ((fst qs)\<lparr>aq_scheduled := False\<rparr>, snd qs))"

end
