(* ===== verification/SessionTick.thy ===== *)
theory SessionTick
  imports SessionAlerts
begin

text \<open>
  What the session does once a second: \<open>sessionmanager_tick.cpp\<close>, with \<open>checkAutoComplete\<close>,
  \<open>checkMagnetTimeouts\<close> and \<open>checkMemoryGuard\<close> of its neighbours. The clocks, the network
  interfaces, the peers and the memory in use are inputs; \<open>ratio\<close> is the quotient of two byte counts
  in single precision. The two worker threads are split in what starts them and what their result
  does: \<open>t_diskProbes\<close> and \<open>t_probes\<close> are the ones under way.
\<close>

section \<open>Disk space\<close>

definition refreshDiskFreeAsync :: "int \<Rightarrow> string \<Rightarrow> SessionT \<Rightarrow> SessionT" where
  "refreshDiskFreeAsync now path s =
     (if path = [] then s
      else if path = t_diskPath s \<and> now - t_lastKick s < 5 then s
      else s\<lparr>t_lastKick := now, t_diskProbes := t_diskProbes s @ [path]\<rparr>)"

definition onDiskFree :: "string \<Rightarrow> int \<Rightarrow> SessionT \<Rightarrow> SessionT" where
  "onDiskFree path freeB s =
     s\<lparr>t_diskProbes := remove1 path (t_diskProbes s), t_diskPath := path, t_diskFree := freeB\<rparr>"

definition is_active :: "TorStatus \<Rightarrow> bool" where
  "is_active st \<longleftrightarrow> st_state st = DownloadingData \<or> st_state st = DownloadingMetadata"

definition disk_pause_one :: "nat \<Rightarrow> int \<times> SessionT \<Rightarrow> int \<times> SessionT" where
  "disk_pause_one h ns =
     (let (n, s) = ns in
      if \<not> t_valid s h then (n, s)
      else let (st, s1) = cachedStatus h s
           in if is_active st \<and> \<not> st_paused st then (n + 1, h_pause h s1) else (n, s1))"

definition kMB :: int where "kMB = 1024 * 1024"

definition checkDiskPressure :: "int \<Rightarrow> string \<Rightarrow> SessionT \<Rightarrow> SessionT" where
  "checkDiskPressure now savePath s0 =
     (let s = refreshDiskFreeAsync now savePath s0; freeB = t_diskFree s in
      if 0 \<le> freeB \<and> freeB < 512 * kMB \<and> \<not> t_diskAutoPaused s
      then (let (paused, s1) = fold disk_pause_one (t_torrents s) (0, s);
                s2 = s1\<lparr>t_diskAutoPaused := True\<rparr>;
                s3 = (if 0 < paused
                      then t_emit (TorrentError (DiskAutoPause paused (freeB div kMB))) s2 else s2)
            in s3\<lparr>t_lastDiskWarn := now\<rparr>)
      else if 2048 * kMB \<le> freeB then s\<lparr>t_diskAutoPaused := False\<rparr>
      else if 0 \<le> freeB \<and> freeB < 1024 * kMB \<and> 300 \<le> now - t_lastDiskWarn s
      then (t_emit (TorrentError (LowDisk (freeB div kMB))) s)\<lparr>t_lastDiskWarn := now\<rparr>
      else s)"

section \<open>Data that is gone\<close>

definition probe_of :: "nat \<Rightarrow> (string \<times> string list) list \<times> SessionT \<Rightarrow> (string \<times> string list) list \<times> SessionT" where
  "probe_of h ps =
     (let (probes, s) = ps in
      if \<not> t_valid s h then (probes, s)
      else
        let (st, s1) = cachedStatus h s in
        if \<not> st_hasMetadata st \<or> st_wantedDone st \<le> 0 then (probes, s1)
        else
          let fs = (case lh_files (t_lt s1 h) of None \<Rightarrow> [] | Some fs \<Rightarrow> fs);
              rel = (if fs = [] then [] else lf_path (hd fs));
              candidates = contentRootCandidates (st_savePath st) rel (st_name st) (1 < length fs)
          in if candidates = [] then (probes, s1) else (probes @ [(st_hash st, candidates)], s1))"

definition checkMissingFiles :: "int \<Rightarrow> SessionT \<Rightarrow> SessionT" where
  "checkMissingFiles nowMs s =
     (if t_missingRunning s \<or> nowMs - t_lastMissingProbe s < t_missingProbeMs s then s
      else
        let (probes, s1) = fold probe_of (t_torrents s) ([], s\<lparr>t_lastMissingProbe := nowMs\<rparr>)
        in if probes = [] then s1\<lparr>t_missingHashes := {}, t_missingSeen := {}\<rparr>
           else s1\<lparr>t_missingRunning := True, t_probes := probes\<rparr>)"

definition pause_missing_one :: "string set \<Rightarrow> nat \<Rightarrow> nat \<times> string \<times> SessionT \<Rightarrow> nat \<times> string \<times> SessionT" where
  "pause_missing_one confirmed h acc =
     (let (n, name, s) = acc in
      if \<not> t_valid s h then (n, name, s)
      else
        let (st, s1) = cachedStatus h s in
        if \<not> st_hasMetadata st \<or> st_paused st \<or> st_hash st \<notin> confirmed
           \<or> st_hash st \<in> t_missingPaused s1
        then (n, name, s1)
        else
          let s2 = h_pause h s1
          in (n + 1, st_name st, s2\<lparr>t_missingPaused := insert (st_hash st) (t_missingPaused s2)\<rparr>))"

definition pauseMissing :: "string set \<Rightarrow> SessionT \<Rightarrow> SessionT" where
  "pauseMissing confirmed s =
     (if \<not> t_pauseOnMissing s \<or> confirmed = {} then s
      else
        let (n, name, s1) = fold (pause_missing_one confirmed) (t_torrents s) (0, [], s)
        in if 0 < n
           then t_emit (TorrentError (if n = 1 then MissingPausedOne name else MissingPausedMany (int n))) s1
           else s1)"

text \<open>The result of the probe; \<open>exist\<close> is what the thread found on the disk.\<close>

definition onMissingProbe :: "(string \<Rightarrow> bool) \<Rightarrow> SessionT \<Rightarrow> SessionT" where
  "onMissingProbe exist s =
     (let missing = fst ` set (filter (\<lambda>(h, cs). \<not> contentPresent cs exist) (t_probes s));
          confirmed = missing \<inter> t_missingSeen s;
          s1 = s\<lparr>t_missingSeen := missing, t_missingHashes := confirmed,
                 t_missingPaused := t_missingPaused s \<inter> confirmed\<rparr>
      in (pauseMissing confirmed s1)\<lparr>t_missingRunning := False, t_probes := []\<rparr>)"

section \<open>Seeding limits\<close>

definition rows :: "SessionT \<Rightarrow> int list" where
  "rows s = map int [0..<length (t_torrents s)]"

definition ratio_one :: "(int \<Rightarrow> int \<Rightarrow> rat) \<Rightarrow> int \<Rightarrow> SessionT \<Rightarrow> SessionT" where
  "ratio_one ratio i s =
     (case handleAt i s of
        None \<Rightarrow> s
      | Some h \<Rightarrow>
          let (st, s1) = cachedStatus h s in
          if st_state st \<noteq> Seeding \<or> st_paused st then s1
          else
            let r = (if 0 < st_payloadDown st then ratio (st_payloadUp st) (st_payloadDown st) else 0)
            in if t_seedRatioLimit s1 \<le> r then markCompleted i s1 else s1)"

definition checkSeedRatios :: "(int \<Rightarrow> int \<Rightarrow> rat) \<Rightarrow> SessionT \<Rightarrow> SessionT" where
  "checkSeedRatios ratio s =
     (if t_seedRatioLimit s \<le> 0 then s else fold (ratio_one ratio) (rows s) s)"

definition seed_time_one :: "int \<Rightarrow> SessionT \<Rightarrow> SessionT" where
  "seed_time_one i s =
     (case validAt i s of
        None \<Rightarrow> s
      | Some h \<Rightarrow>
          let (st, s1) = cachedStatus h s in
          if st_state st \<noteq> Seeding \<or> st_paused st then s1
          else
            let maxSec = effectiveMaxSeedSeconds (st_hash st) s1
            in if maxSec \<le> 0 then s1
               else if maxSec \<le> st_seedSecs st then markCompleted i s1 else s1)"

definition checkSeedingLimits :: "SessionT \<Rightarrow> SessionT" where
  "checkSeedingLimits s = fold seed_time_one (rows s) s"

definition auto_complete_one :: "int \<Rightarrow> SessionT \<Rightarrow> SessionT" where
  "auto_complete_one i s =
     (case validAt i s of
        None \<Rightarrow> s
      | Some h \<Rightarrow>
          let (st, s1) = cachedStatus h s in
          if st_state st \<noteq> Seeding \<or> st_paused st \<or> \<not> st_hasMetadata st
             \<or> st_hash st \<in> t_completed s1
          then s1
          else if t_autoCompleteSeconds s1 \<le> st_seedSecs st then markCompleted i s1 else s1)"

definition checkAutoComplete :: "SessionT \<Rightarrow> SessionT" where
  "checkAutoComplete s =
     (if t_autoCompleteSeconds s \<le> 0 then s else fold auto_complete_one (rows s) s)"

section \<open>Magnets and memory\<close>

text \<open>The loop over the map, handle by handle.\<close>

definition checkMagnetTimeouts :: "SessionT \<Rightarrow> SessionT" where
  "checkMagnetTimeouts s =
     s\<lparr>t_magnetAddedAt := (\<lambda>h. if t_valid s h \<and> \<not> st_hasMetadata (seen s h)
                              then t_magnetAddedAt s h else None),
       t_cache := (\<lambda>h. if t_magnetAddedAt s h \<noteq> None \<and> t_valid s h then Some (seen s h)
                       else t_cache s h)\<rparr>"

definition checkMemoryGuard :: "int \<Rightarrow> int \<Rightarrow> int \<Rightarrow> SessionT \<Rightarrow> SessionT" where
  "checkMemoryGuard now rss capMB s =
     (if capMB \<le> 0 \<or> rss < 0 then s
      else let rssMB = rss div kMB in
        (case memGuardEvaluate rssMB capMB of
           MgPanic \<Rightarrow> (saveResumeData now s)\<lparr>t_quit := True\<rparr>
         | MgPause \<Rightarrow>
             if 300 \<le> now - t_lastMemWarn s
             then t_emit (TorrentError (MemGuardWarn rssMB capMB))
                    (pauseAll (s\<lparr>t_lastMemWarn := now\<rparr>))
             else s
         | MgNone \<Rightarrow> s))"

section \<open>The download queue\<close>

definition setMaxActiveDownloads :: "int \<Rightarrow> SessionT \<Rightarrow> SessionT" where
  "setMaxActiveDownloads n s = t_put ''maxActiveDownloads'' (TvInt n) (s\<lparr>t_maxActive := n\<rparr>)"

definition kSlowThreshold :: int where "kSlowThreshold = 10 * 1024"
definition kSlowTimeout :: int where "kSlowTimeout = 60"

text \<open>One torrent of the count: the running ones that are not stalled, and the ones that wait.\<close>

definition stamp_fast :: "int \<Rightarrow> nat \<Rightarrow> TorStatus \<Rightarrow> SessionT \<Rightarrow> SessionT" where
  "stamp_fast now h st s =
     (if t_lastFast s h = None \<or> kSlowThreshold \<le> st_downloadRate st
      then s\<lparr>t_lastFast := (t_lastFast s)(h \<mapsto> now)\<rparr> else s)"

definition queue_visit :: "int \<Rightarrow> nat \<Rightarrow> nat list \<times> nat list \<times> SessionT \<Rightarrow> nat list \<times> nat list \<times> SessionT" where
  "queue_visit now h acc =
     (let (active, queued, s) = acc in
      if \<not> t_valid s h then acc
      else
        let (st, s1) = cachedStatus h s in
        if st_hasMetadata st \<and> st_hash st \<in> t_forceStart s1
        then (active, queued, if st_paused st then h_resume h s1 else s1)
        else if is_active st \<and> \<not> st_paused st
        then (let s2 = stamp_fast now h st s1
              in if kSlowTimeout < now - the (t_lastFast s2 h) then (active, queued, s2)
                 else (active @ [h], queued, s2))
        else if is_active st \<and> st_paused st \<and> h \<in> t_queuePaused s1
        then (active, queued @ [h], s1)
        else (active, queued, s1))"

definition queue_pause :: "nat \<Rightarrow> SessionT \<Rightarrow> SessionT" where
  "queue_pause h s = (h_pause h s)\<lparr>t_queuePaused := insert h (t_queuePaused s)\<rparr>"

definition queue_resume :: "nat \<Rightarrow> SessionT \<Rightarrow> SessionT" where
  "queue_resume h s = (h_resume h s)\<lparr>t_queuePaused := t_queuePaused s - {h}\<rparr>"

definition enforceDownloadQueue :: "int \<Rightarrow> SessionT \<Rightarrow> SessionT" where
  "enforceDownloadQueue now s =
     (if t_maxActive s \<le> 0 then s
      else
        let (active, queued, s1) = fold (queue_visit now) (t_torrents s) ([], [], s);
            cap = nat (t_maxActive s) in
        if cap < length active then fold queue_pause (rev (drop cap active)) s1
        else if length active < cap then fold queue_resume (take (cap - length active) queued) s1
        else s1)"

section \<open>The tick\<close>

record TickEnv =
  te_now :: int
  te_nowMs :: int
  te_popped :: "TAlert list"
  te_progressOk :: "nat \<Rightarrow> bool"
  te_closing :: bool
  te_nets :: "NetIf list"
  te_peers :: "nat \<Rightarrow> (string \<times> string) list option"
  te_day :: int
  te_hour :: int
  te_savePath :: string
  te_rss :: int
  te_memCap :: int
  te_ratio :: "int \<Rightarrow> int \<Rightarrow> rat"

definition record_usage :: "SessionT \<Rightarrow> SessionT" where
  "record_usage s =
     (if t_statsTick s < 4 then s\<lparr>t_statsTick := Suc (t_statsTick s)\<rparr>
      else
        let (d, s1) = globalDownloaded (s\<lparr>t_statsTick := 0\<rparr>); (u, s2) = globalUploaded s1
        in s2\<lparr>t_stats := t_stats s2 @ [RecordTransfer d u]\<rparr>)"

definition announce_tick :: "SessionT \<Rightarrow> SessionT" where
  "announce_tick s =
     (if t_torrents s \<noteq> [] then t_emit TorrentsUpdated (s\<lparr>t_emptyAnnounced := False\<rparr>)
      else if \<not> t_emptyAnnounced s then t_emit TorrentsUpdated (s\<lparr>t_emptyAnnounced := True\<rparr>)
      else s)"

definition updateStats :: "TickEnv \<Rightarrow> AlertQueue \<times> SessionT \<Rightarrow> AlertQueue \<times> SessionT" where
  "updateStats e qs =
     (let (q, s1) = processAlerts (te_progressOk e) (te_now e) (te_closing e) (te_popped e) qs;
          s2 = record_usage s1;
          s3 = checkAutoComplete (checkSeedingLimits (checkSeedRatios (te_ratio e) s2));
          s4 = on_net (checkAndBlockLeechers (te_peers e)) s3;
          s5 = checkDiskPressure (te_now e) (te_savePath e) s4;
          s6 = on_net (checkInterfaceStatus (te_nets e)) s5;
          s7 = on_net (checkBandwidthSchedule (te_day e) (te_hour e)) s6;
          s8 = checkMissingFiles (te_nowMs e) (checkMagnetTimeouts s7);
          s9 = checkMemoryGuard (te_now e) (te_rss e) (te_memCap e) s8
      in (q, announce_tick (enforceDownloadQueue (te_now e) s9)))"

end
