(* ===== verification/RowPass.thy ===== *)
theory RowPass
  imports SessionTick
begin

text \<open>
  The session's loops over its rows. Most of them look at one torrent after the other and touch only
  the torrent they are at; \<open>row_pass\<close> is that contract, with a view of one torrent (\<open>view\<close>), what the
  loop reads of the rest of the session (\<open>ctx\<close>) and what it makes of the view (\<open>f\<close>). The lemma says
  what the whole loop does to every torrent. The access lemmas of the session's records are here too.
\<close>

section \<open>Access lemmas\<close>

named_theorems row_simps

lemma row_access [row_simps]:
  "t_torrents (h_pause h s) = t_torrents s" "t_torrents (h_resume h s) = t_torrents s"
  "t_torrents (h_save h s) = t_torrents s" "t_torrents (t_emit g s) = t_torrents s"
  "t_valid (h_pause h s) k = t_valid s k" "t_valid (h_resume h s) k = t_valid s k"
  "t_valid (h_save h s) k = t_valid s k" "t_valid (t_emit g s) k = t_valid s k"
  "t_paused (h_pause h s) k = (k = h \<or> t_paused s k)"
  "t_paused (h_resume h s) k = (k \<noteq> h \<and> t_paused s k)"
  "t_paused (h_save h s) k = t_paused s k" "t_paused (t_emit g s) k = t_paused s k"
  by (auto simp: h_pause_def h_resume_def h_save_def on_net_def on_lt_def pause_torrent_def
      resume_torrent_def t_torrents_def t_valid_def t_paused_def t_emit_def)

lemma row_fields [row_simps]:
  "t_cache (h_pause h s) = t_cache s" "t_cache (h_resume h s) = t_cache s"
  "t_cache (h_save h s) = t_cache s" "t_cache (t_emit g s) = t_cache s"
  "t_lt (h_pause h s) = t_lt s" "t_lt (h_resume h s) = t_lt s" "t_lt (t_emit g s) = t_lt s"
  "t_forceStart (h_pause h s) = t_forceStart s" "t_forceStart (h_resume h s) = t_forceStart s"
  "t_queuePaused (h_pause h s) = t_queuePaused s" "t_queuePaused (h_resume h s) = t_queuePaused s"
  "t_lastFast (h_pause h s) = t_lastFast s" "t_lastFast (h_resume h s) = t_lastFast s"
  "t_maxActive (h_pause h s) = t_maxActive s" "t_maxActive (h_resume h s) = t_maxActive s"
  "t_missingPaused (h_pause h s) = t_missingPaused s"
  "t_signals (h_pause h s) = t_signals s" "t_signals (h_resume h s) = t_signals s"
  by (simp_all add: h_pause_def h_resume_def h_save_def on_net_def on_lt_def t_emit_def)

lemma fst_cachedStatus [row_simps]: "fst (cachedStatus h s) = seen s h"
  by (simp add: cachedStatus_def seen_def split: option.split)

lemma cachedStatus_seen [row_simps]:
  "seen (snd (cachedStatus h s)) k = seen s k"
  "t_torrents (snd (cachedStatus h s)) = t_torrents s"
  "t_valid (snd (cachedStatus h s)) k = t_valid s k"
  "t_paused (snd (cachedStatus h s)) k = t_paused s k"
  by (auto simp: cachedStatus_def seen_def live_def t_torrents_def t_valid_def t_paused_def
      split: option.split)

lemma cachedStatus_fields [row_simps]:
  "t_net (snd (cachedStatus h s)) = t_net s" "t_lt (snd (cachedStatus h s)) = t_lt s"
  "t_forceStart (snd (cachedStatus h s)) = t_forceStart s"
  "t_queuePaused (snd (cachedStatus h s)) = t_queuePaused s"
  "t_lastFast (snd (cachedStatus h s)) = t_lastFast s"
  "t_maxActive (snd (cachedStatus h s)) = t_maxActive s"
  "t_missingPaused (snd (cachedStatus h s)) = t_missingPaused s"
  "t_completed (snd (cachedStatus h s)) = t_completed s"
  "t_signals (snd (cachedStatus h s)) = t_signals s"
  "t_valid s h \<Longrightarrow> t_cache (snd (cachedStatus h s)) = (t_cache s)(h \<mapsto> seen s h)"
  by (auto simp: cachedStatus_def seen_def split: option.split)

lemma cachedStatus_pair: "cachedStatus h s = (seen s h, snd (cachedStatus h s))"
  by (metis fst_cachedStatus prod.collapse)

text \<open>What the session sees of a torrent whose status is cached does not change when it is paused.\<close>

lemma seen_cached [row_simps]:
  "t_valid s h \<Longrightarrow> seen (h_pause h (snd (cachedStatus h s))) k = seen s k"
  "t_valid s h \<Longrightarrow> seen (h_resume h (snd (cachedStatus h s))) k = seen s k"
  by (auto simp: seen_def row_simps live_def split: option.split)

section \<open>A pass over the rows\<close>

locale row_pass =
  fixes step :: "nat \<Rightarrow> 's \<Rightarrow> 's"
    and view :: "'s \<Rightarrow> nat \<Rightarrow> 'v"
    and ctx :: "'s \<Rightarrow> 'c"
    and f :: "'c \<Rightarrow> nat \<Rightarrow> 'v \<Rightarrow> 'v"
  assumes own: "view (step h s) h = f (ctx s) h (view s h)"
    and others: "g \<noteq> h \<Longrightarrow> view (step h s) g = view s g"
    and frame: "ctx (step h s) = ctx s"
begin

lemma pass_context: "ctx (fold step hs s) = ctx s"
  by (induction hs arbitrary: s) (simp_all add: frame)

lemma pass_outside: "g \<notin> set hs \<Longrightarrow> view (fold step hs s) g = view s g"
  by (induction hs arbitrary: s) (simp_all add: others)

lemma pass_view:
  "distinct hs \<Longrightarrow> view (fold step hs s) g = (if g \<in> set hs then f (ctx s) g (view s g) else view s g)"
proof (induction hs arbitrary: s)
  case (Cons h hs)
  then show ?case
    by (cases "g = h") (simp_all add: own others frame pass_outside)
qed simp

end

section \<open>The loops that pause and resume\<close>

text \<open>The view of a torrent: whether its handle is valid, whether it is paused, and its status.\<close>

definition row_view :: "SessionT \<Rightarrow> nat \<Rightarrow> bool \<times> bool \<times> TorStatus" where
  "row_view s h = (t_valid s h, t_paused s h, seen s h)"

definition paused_view :: "SessionT \<Rightarrow> nat \<Rightarrow> bool \<times> bool" where
  "paused_view s h = (t_valid s h, t_paused s h)"

interpretation pause_all: row_pass pause_and_save paused_view "\<lambda>_. ()"
    "\<lambda>_ _ (v, p). (v, p \<or> v)"
  by unfold_locales (auto simp: pause_and_save_def paused_view_def row_simps)

interpretation resume_all: row_pass resume_and_save paused_view "\<lambda>_. ()"
    "\<lambda>_ _ (v, p). (v, p \<and> \<not> v)"
  by unfold_locales (auto simp: resume_and_save_def paused_view_def row_simps)

lemma row_view_pause [row_simps]:
  "t_valid s h \<Longrightarrow> row_view (h_pause h (snd (cachedStatus h s))) g =
     (if g = h then (True, True, seen s h) else row_view s g)"
  "row_view (snd (cachedStatus h s)) g = row_view s g"
  by (simp_all add: row_view_def row_simps)

lemma pause_if_downloading_view:
  "row_view (pause_if_downloading h s) g =
     (if g = h \<and> t_valid s h \<and> st_state (seen s h) = DownloadingData \<and> \<not> st_paused (seen s h)
      then (True, True, seen s h) else row_view s g)"
  by (simp add: pause_if_downloading_def Let_def split_beta row_simps)

interpretation disk_full: row_pass pause_if_downloading row_view "\<lambda>_. ()"
    "\<lambda>_ _ (v, p, st). (v, p \<or> (v \<and> st_state st = DownloadingData \<and> \<not> st_paused st), st)"
  by unfold_locales (simp_all add: pause_if_downloading_view, auto simp: row_view_def)

lemma disk_pause_one_view:
  "row_view (snd (disk_pause_one h ns)) g =
     (if g = h \<and> t_valid (snd ns) h \<and> is_active (seen (snd ns) h) \<and> \<not> st_paused (seen (snd ns) h)
      then (True, True, seen (snd ns) h) else row_view (snd ns) g)"
  by (cases ns) (simp add: disk_pause_one_def Let_def split_beta row_simps)

interpretation disk_low: row_pass disk_pause_one "\<lambda>x. row_view (snd x)" "\<lambda>_. ()"
    "\<lambda>_ _ (v, p, st). (v, p \<or> (v \<and> is_active st \<and> \<not> st_paused st), st)"
  by unfold_locales (simp_all add: disk_pause_one_view, auto simp: row_view_def)

end
