(* ===== verification/SessionSamples.thy ===== *)
theory SessionSamples
  imports RowPass
begin

text \<open>
  A concrete session of two downloads, the first running and the second paused by the queue, at which
  the properties of the session are applied.
\<close>

definition sample_status :: "nat \<Rightarrow> TorStatus" where
  "sample_status h = \<lparr>st_hash = (if h = 1 then ''a1'' else ''b2''), st_name = ''film'', st_savePath = ''/dl'',
     st_state = DownloadingData, st_paused = h = 2, st_hasMetadata = True, st_isFinished = False,
     st_downloadRate = 100000, st_payloadDown = 10, st_payloadUp = 5, st_seedSecs = 0, st_wantedDone = 10,
     st_totalWanted = 100\<rparr>"

definition sample_lt :: "nat \<Rightarrow> LtTorrent" where
  "sample_lt h = \<lparr>lh_status = sample_status h, lh_infoHash = (st_hash (sample_status h), []),
     lh_tiName = ''film'', lh_uploadMode = False,
     lh_files = Some [\<lparr>lf_path = ''film/a.mkv'', lf_size = 100, lf_prio = 4, lf_done = 10\<rparr>],
     lh_private = False, lh_noDiscovery = False, lh_trackers = [], lh_downLimit = 0, lh_upLimit = 0,
     lh_superSeeding = False, lh_saves = 0, lh_rechecks = 0, lh_announces = 0, lh_movedTo = None\<rparr>"

definition sample_session :: SessionT where
  "sample_session = \<lparr>t_net = sample_net, t_lt = sample_lt, t_cache = (\<lambda>_. None), t_magnetHashes = (\<lambda>_. None),
     t_magnetAddedAt = (\<lambda>_. None), t_maxActive = 2, t_queuePaused = {2}, t_lastFast = (\<lambda>_. None),
     t_forceStart = {}, t_completed = {}, t_completedAtStartup = {}, t_stopAfter = (\<lambda>_. None),
     t_maxSeed = (\<lambda>_. None), t_downLimit = (\<lambda>_. None), t_upLimit = (\<lambda>_. None), t_tags = (\<lambda>_. None),
     t_stopAfterDownload = False, t_maxSeedSeconds = 60, t_autoCompleteSeconds = 0, t_seedRatioLimit = 0,
     t_pauseOnMissing = True, t_missingHashes = {}, t_missingSeen = {''a1''}, t_missingPaused = {},
     t_missingRunning = True, t_lastMissingProbe = 0, t_missingProbeMs = 0,
     t_probes = [(''a1'', [''/dl/film''])], t_staged = [], t_stats = [], t_statsTick = 0,
     t_categories = (\<lambda>_. None), t_categoryPaths = (\<lambda>_. None), t_coverHints = (\<lambda>_. None), t_tempPath = [],
     t_exportDir = [], t_exported = [], t_contentLayout = 0, t_excluded = [], t_preallocate = False,
     t_autoRecheck = False, t_diskProbes = [], t_warnSuspicious = True, t_securityWarned = {},
     t_autoExtract = False, t_runOnComplete = [], t_diskPath = ''/dl'', t_diskFree = 1000000, t_lastKick = 0,
     t_lastDiskWarn = 0, t_diskAutoPaused = False, t_emptyAnnounced = False, t_faultCount = [],
     t_faultLastAt = [], t_lastMemWarn = 0, t_quit = False, t_lastFileError = 0, t_lastTorrentError = [],
     t_lastResumeSave = (\<lambda>_. None), t_resumeOutstanding = 0, t_pendingStrip = {}, t_streamed = (\<lambda>_. None),
     t_intendedPath = (\<lambda>_. None), t_autoMove = False, t_autoMovePath = [], t_removedHashes = {},
     t_globalDownBase = 7, t_globalUpBase = 3, t_settings = (\<lambda>_. None),
     t_resumeFiles = (\<lambda>h. if h = ''a1'' then Some ''d1:ae'' else None), t_removedFiles = (\<lambda>_. None),
     t_history = [], t_removals = [], t_listenOk = True, t_portmapOk = True, t_portStatus = 0,
     t_signals = []\<rparr>"

named_theorems sample_simps

lemma sample_access [sample_simps]:
  "t_torrents sample_session = [1, 2]" "t_valid sample_session h"
  "t_paused sample_session h \<longleftrightarrow> h = 2" "t_cache sample_session h = None"
  "live sample_session h = sample_status h" "seen sample_session h = sample_status h"
  "t_lt sample_session h = sample_lt h" "t_net sample_session = sample_net"
  by (auto simp: sample_session_def t_torrents_def t_valid_def t_paused_def live_def seen_def sample_net_def
      sample_lt_def sample_status_def)

lemma sample_fields [sample_simps]:
  "t_maxActive sample_session = 2" "t_queuePaused sample_session = {2}" "t_forceStart sample_session = {}"
  "t_lastFast sample_session h = None" "t_diskFree sample_session = 1000000"
  "\<not> t_diskAutoPaused sample_session" "t_removedHashes sample_session = {}" "t_history sample_session = []"
  "t_removals sample_session = []" "t_signals sample_session = []" "t_staged sample_session = []"
  "t_probes sample_session = [(''a1'', [''/dl/film''])]" "t_missingSeen sample_session = {''a1''}"
  "t_missingPaused sample_session = {}" "t_pauseOnMissing sample_session" "t_completed sample_session = {}"
  "t_magnetHashes sample_session h = None" "t_globalDownBase sample_session = 7" "t_globalUpBase sample_session = 3"
  "t_maxSeedSeconds sample_session = 60" "t_maxSeed sample_session hash = None"
  "t_faultCount sample_session = []" "t_faultLastAt sample_session = []"
  "t_completedAtStartup sample_session = {}"
  by (simp_all add: sample_session_def)

lemma sample_torrent [sample_simps]:
  "st_state (sample_status h) = DownloadingData" "st_paused (sample_status h) \<longleftrightarrow> h = 2"
  "st_hash (sample_status h) = (if h = 1 then ''a1'' else ''b2'')" "st_hasMetadata (sample_status h)"
  "st_savePath (sample_status h) = ''/dl''" "st_name (sample_status h) = ''film''"
  "st_payloadDown (sample_status h) = 10" "st_payloadUp (sample_status h) = 5"
  "st_downloadRate (sample_status h) = 100000" "st_seedSecs (sample_status h) = 0"
  "st_totalWanted (sample_status h) = 100"
  "lh_status (sample_lt h) = sample_status h"
  "lh_files (sample_lt h) = Some [\<lparr>lf_path = ''film/a.mkv'', lf_size = 100, lf_prio = 4, lf_done = 10\<rparr>]"
  by (simp_all add: sample_status_def sample_lt_def)

end
