(* ===== verification/SessionQueue.thy ===== *)
theory SessionQueue
  imports SessionSamples
begin

text \<open>
  The properties of the session's tick: what the download queue does to every torrent and how it
  works against the parts of the session that pause torrents for a reason, disk pressure, missing
  data, and the seeding limits.
\<close>

section \<open>The download queue\<close>

text \<open>Exempt from the queue; running and not stalled; waiting for the queue.\<close>

definition exempt :: "SessionT \<Rightarrow> nat \<Rightarrow> bool" where
  "exempt s h \<longleftrightarrow> st_hasMetadata (seen s h) \<and> st_hash (seen s h) \<in> t_forceStart s"

definition fast_at :: "int \<Rightarrow> SessionT \<Rightarrow> nat \<Rightarrow> int" where
  "fast_at now s h =
     (case t_lastFast s h of
        None \<Rightarrow> now
      | Some t \<Rightarrow> if kSlowThreshold \<le> st_downloadRate (seen s h) then now else t)"

definition running :: "SessionT \<Rightarrow> nat \<Rightarrow> bool" where
  "running s h \<longleftrightarrow> t_valid s h \<and> \<not> exempt s h \<and> is_active (seen s h) \<and> \<not> st_paused (seen s h)"

definition counted :: "int \<Rightarrow> SessionT \<Rightarrow> nat \<Rightarrow> bool" where
  "counted now s h \<longleftrightarrow> running s h \<and> now - fast_at now s h \<le> kSlowTimeout"

definition waiting :: "SessionT \<Rightarrow> nat \<Rightarrow> bool" where
  "waiting s h \<longleftrightarrow> t_valid s h \<and> \<not> exempt s h \<and> is_active (seen s h) \<and> st_paused (seen s h)
     \<and> h \<in> t_queuePaused s"

definition forced :: "SessionT \<Rightarrow> nat \<Rightarrow> bool" where
  "forced s h \<longleftrightarrow> t_valid s h \<and> exempt s h \<and> st_paused (seen s h)"

definition q_state :: "int \<Rightarrow> nat \<Rightarrow> SessionT \<Rightarrow> SessionT" where
  "q_state now h s = snd (snd (queue_visit now h ([], [], s)))"

lemma stamp_lastFast:
  "t_lastFast (stamp_fast now h (seen s h) (snd (cachedStatus h s))) =
     (t_lastFast s)(h \<mapsto> fast_at now s h)"
  by (auto simp: stamp_fast_def fast_at_def row_simps split: option.split)

lemma queue_visit_eq:
  "queue_visit now h (a, q, s) =
     (let c = snd (cachedStatus h s) in
      if \<not> t_valid s h then (a, q, s)
      else if exempt s h then (a, q, if st_paused (seen s h) then h_resume h c else c)
      else if running s h
      then (if kSlowTimeout < now - fast_at now s h then (a, q, stamp_fast now h (seen s h) c)
            else (a @ [h], q, stamp_fast now h (seen s h) c))
      else if is_active (seen s h) \<and> st_paused (seen s h) \<and> h \<in> t_queuePaused s then (a, q @ [h], c)
      else (a, q, c))"
  by (simp add: queue_visit_def Let_def split_beta row_simps exempt_def running_def stamp_lastFast
      cong: if_cong)

lemma queue_visit_lists:
  "queue_visit now h (a, q, s) =
     (a @ (if counted now s h then [h] else []), q @ (if waiting s h then [h] else []), q_state now h s)"
  by (cases "t_valid s h"; cases "exempt s h"; cases "running s h"; cases "is_active (seen s h)")
     (simp_all add: queue_visit_eq q_state_def Let_def counted_def waiting_def, simp_all add: running_def)

definition q_view :: "SessionT \<Rightarrow> nat \<Rightarrow> bool \<times> bool \<times> TorStatus \<times> int option" where
  "q_view s h = (t_valid s h, t_paused s h, seen s h, t_lastFast s h)"

definition q_ctx :: "SessionT \<Rightarrow> string set \<times> nat set \<times> int \<times> nat list" where
  "q_ctx s = (t_forceStart s, t_queuePaused s, t_maxActive s, t_torrents s)"

lemma q_state_eq:
  "q_state now h s =
     (let c = snd (cachedStatus h s) in
      if \<not> t_valid s h then s
      else if exempt s h then (if st_paused (seen s h) then h_resume h c else c)
      else if running s h then stamp_fast now h (seen s h) c else c)"
  by (simp add: q_state_def queue_visit_eq Let_def)

lemma stamp_access [row_simps]:
  "t_valid (stamp_fast now h st s) g = t_valid s g" "t_paused (stamp_fast now h st s) g = t_paused s g"
  "seen (stamp_fast now h st s) g = seen s g" "t_torrents (stamp_fast now h st s) = t_torrents s"
  "t_forceStart (stamp_fast now h st s) = t_forceStart s"
  "t_queuePaused (stamp_fast now h st s) = t_queuePaused s"
  "t_maxActive (stamp_fast now h st s) = t_maxActive s"
  by (auto simp: stamp_fast_def t_valid_def t_paused_def seen_def live_def t_torrents_def
      split: option.split)

lemma q_state_ctx: "q_ctx (q_state now h s) = q_ctx s"
  by (simp add: q_state_eq Let_def q_ctx_def row_simps)

lemma q_state_other: "g \<noteq> h \<Longrightarrow> q_view (q_state now h s) g = q_view s g"
  by (simp add: q_state_eq Let_def q_view_def row_simps stamp_lastFast)

lemma q_state_own:
  "q_view (q_state now h s) h = (t_valid s h, t_paused s h \<and> \<not> forced s h, seen s h,
     if running s h then Some (fast_at now s h) else t_lastFast s h)"
  by (cases "t_valid s h"; cases "exempt s h"; cases "running s h")
     (simp_all add: q_state_eq Let_def q_view_def row_simps stamp_lastFast forced_def, simp_all add: running_def)

text \<open>The pass of the queue, with its two lists.\<close>

interpretation queue_rows: row_pass "q_state now" q_view q_ctx
    "\<lambda>(force, _) h (v, p, st, t).
       let ex = st_hasMetadata st \<and> st_hash st \<in> force; run = v \<and> \<not> ex \<and> is_active st \<and> \<not> st_paused st
       in (v, p \<and> \<not> (v \<and> ex \<and> st_paused st), st,
           if run then Some (case t of None \<Rightarrow> now
                             | Some t \<Rightarrow> if kSlowThreshold \<le> st_downloadRate st then now else t) else t)"
  for now
proof (unfold_locales, goal_cases)
  case (1 h s)
  show ?case
    by (simp add: q_state_own, auto simp: q_view_def q_ctx_def Let_def forced_def exempt_def running_def
        fast_at_def)
next
  case (2 g h s)
  then show ?case by (rule q_state_other)
next
  case (3 h s)
  show ?case by (rule q_state_ctx)
qed

lemma counted_cong:
  assumes "q_view s' h = q_view s h" "q_ctx s' = q_ctx s"
  shows "counted now s' h = counted now s h" "waiting s' h = waiting s h"
  using assms
  by (simp_all add: q_view_def q_ctx_def counted_def running_def waiting_def exempt_def fast_at_def
      cong: option.case_cong)

lemma counted_other:
  "g \<noteq> h \<Longrightarrow> counted now (q_state now' h s) g = counted now s g"
  "g \<noteq> h \<Longrightarrow> waiting (q_state now' h s) g = waiting s g"
  by (rule counted_cong [OF q_state_other q_state_ctx], assumption)+

lemma queue_fold:
  "distinct hs \<Longrightarrow> fold (queue_visit now) hs (a, q, s) =
     (a @ filter (counted now s) hs, q @ filter (waiting s) hs, fold (q_state now) hs s)"
proof (induction hs arbitrary: a q s)
  case (Cons h hs)
  have "g \<noteq> h" if "g \<in> set hs" for g using that Cons.prems by auto
  then have "filter (counted now (q_state now h s)) hs = filter (counted now s) hs"
    "filter (waiting (q_state now h s)) hs = filter (waiting s) hs"
    by (simp_all add: counted_other cong: filter_cong)
  then show ?case using Cons by (simp add: queue_visit_lists)
qed simp

lemma queue_pause_fold:
  "t_paused (fold queue_pause hs s) g = (g \<in> set hs \<or> t_paused s g)"
  "t_queuePaused (fold queue_pause hs s) = t_queuePaused s \<union> set hs"
  by (induction hs arbitrary: s)
     (auto simp: queue_pause_def h_pause_def on_net_def pause_torrent_def t_paused_def)

lemma queue_resume_fold:
  "t_paused (fold queue_resume hs s) g = (g \<notin> set hs \<and> t_paused s g)"
  "t_queuePaused (fold queue_resume hs s) = t_queuePaused s - set hs"
  by (induction hs arbitrary: s)
     (auto simp: queue_resume_def h_resume_def on_net_def resume_torrent_def t_paused_def)

lemma queue_pass:
  assumes "distinct (t_torrents s)" and s1_def: "s1 = fold (q_state now) (t_torrents s) s"
  shows "t_queuePaused s1 = t_queuePaused s"
    "h \<in> set (t_torrents s) \<Longrightarrow> t_paused s1 h = (t_paused s h \<and> \<not> forced s h)"
proof -
  have "q_ctx s1 = q_ctx s" unfolding s1_def by (rule queue_rows.pass_context)
  then show "t_queuePaused s1 = t_queuePaused s" by (simp add: q_ctx_def)
  assume "h \<in> set (t_torrents s)"
  with queue_rows.pass_view [OF assms(1), of now s h]
  show "t_paused s1 h = (t_paused s h \<and> \<not> forced s h)"
    by (auto simp: s1_def q_view_def q_ctx_def Let_def forced_def exempt_def)
qed

text \<open>
  C13: One tick of the download queue. With \<open>A\<close> the downloads that run and are not stalled and \<open>Q\<close> the
  ones the queue has paused, both in row order: of \<open>A\<close> exactly the first \<open>cap\<close> stay running, the
  rest is paused and remembered; when fewer run, exactly as many of \<open>Q\<close> as there is room for are
  resumed and forgotten; a paused force-started torrent is resumed; and every other torrent keeps
  its state.
\<close>

theorem queue_settles:
  assumes "distinct (t_torrents s)" "0 < t_maxActive s"
  shows "let A = filter (counted now s) (t_torrents s); Q = filter (waiting s) (t_torrents s);
             cap = nat (t_maxActive s); s' = enforceDownloadQueue now s in
     (\<forall>h \<in> set (t_torrents s). t_paused s' h =
        (if h \<in> set (drop cap A) then True
         else if length A < cap \<and> h \<in> set (take (cap - length A) Q) then False
         else t_paused s h \<and> \<not> forced s h))
     \<and> t_queuePaused s' = t_queuePaused s \<union> set (drop cap A)
         - (if length A < cap then set (take (cap - length A) Q) else {})"
proof -
  let ?A = "filter (counted now s) (t_torrents s)" and ?Q = "filter (waiting s) (t_torrents s)"
  let ?cap = "nat (t_maxActive s)" and ?s1 = "fold (q_state now) (t_torrents s) s"
  have e: "enforceDownloadQueue now s =
      (if ?cap < length ?A then fold queue_pause (rev (drop ?cap ?A)) ?s1
       else if length ?A < ?cap then fold queue_resume (take (?cap - length ?A) ?Q) ?s1 else ?s1)"
    using assms by (simp add: enforceDownloadQueue_def queue_fold Let_def)
  note p = queue_pass [OF assms(1), of ?s1 now, OF refl]
  show ?thesis
  proof (cases "?cap < length ?A")
    case True
    with e p show ?thesis by (simp add: Let_def queue_pause_fold)
  next
    case False
    with e p show ?thesis by (auto simp: Let_def queue_resume_fold)
  qed
qed

section \<open>The queue against the pauses\<close>

text \<open>A status update for every row.\<close>

definition refresh :: "(nat \<Rightarrow> bool) \<Rightarrow> SessionT \<Rightarrow> SessionT" where
  "refresh pok s = onStateUpdate pok (map (\<lambda>h. (h, live s h)) (t_torrents s)) s"

definition refresh_frame :: "SessionT \<Rightarrow> SessionNet \<times> string set \<times> nat set \<times> int \<times> (nat \<Rightarrow> int option)" where
  "refresh_frame s = (t_net s, t_forceStart s, t_queuePaused s, t_maxActive s, t_lastFast s)"

lemma state_one_frame: "refresh_frame (state_one pok hs s) = refresh_frame s"
  "t_cache (state_one pok hs s) = (t_cache s)(fst hs \<mapsto> snd hs)"
  by (simp_all add: state_one_def refresh_frame_def on_lt_def Let_def split: prod.split)

lemma state_fold:
  "refresh_frame (fold (state_one pok) (map (\<lambda>h. (h, g h)) hs) s) = refresh_frame s"
  "t_cache (fold (state_one pok) (map (\<lambda>h. (h, g h)) hs) s) h =
     (if h \<in> set hs then Some (g h) else t_cache s h)"
  by (induction hs arbitrary: s) (simp_all add: state_one_frame)

lemma refresh_access:
  "t_torrents (refresh pok s) = t_torrents s" "t_valid (refresh pok s) k = t_valid s k"
  "t_paused (refresh pok s) k = t_paused s k" "t_forceStart (refresh pok s) = t_forceStart s"
  "t_queuePaused (refresh pok s) = t_queuePaused s" "t_maxActive (refresh pok s) = t_maxActive s"
  "t_net (refresh pok s) = t_net s"
  using state_fold(1) [of pok "live s" "t_torrents s" s]
  by (simp_all add: refresh_def onStateUpdate_def refresh_frame_def t_torrents_def t_valid_def t_paused_def)

lemma refresh_seen: "h \<in> set (t_torrents s) \<Longrightarrow> seen (refresh pok s) h = live s h"
  by (simp add: refresh_def onStateUpdate_def seen_def state_fold)

lemma waiting_resumed:
  assumes "distinct (t_torrents s)" "0 < t_maxActive s"
    "\<forall>g \<in> set (t_torrents s). t_valid s g \<longrightarrow> st_paused (seen s g)"
    "h \<in> set (take (nat (t_maxActive s)) (filter (waiting s) (t_torrents s)))"
  shows "\<not> t_paused (enforceDownloadQueue now s) h"
proof -
  have none: "filter (counted now s) (t_torrents s) = []"
    using assms(3) by (auto simp: filter_empty_conv counted_def running_def)
  have "h \<in> set (t_torrents s)" using assms(4) by (auto dest: in_set_takeD)
  with queue_settles [OF assms(1,2), of now] none assms(2,4) show ?thesis by (simp add: Let_def)
qed

text \<open>Whatever pauses every torrent, if nothing but the paused flags changed.\<close>

lemma pause_undone:
  assumes fresh: "\<forall>g \<in> set (t_torrents s). seen s g = live s g"
    and rows: "distinct (t_torrents s)" "0 < t_maxActive s"
    and held: "\<forall>g \<in> set (t_torrents s). g \<in> t_queuePaused s \<longrightarrow> t_paused s g"
    and same: "t_torrents s' = t_torrents s" "t_forceStart s' = t_forceStart s"
      "t_queuePaused s' = t_queuePaused s" "t_maxActive s' = t_maxActive s"
      "\<And>g. t_valid s' g = t_valid s g" "\<And>g. lh_status (t_lt s' g) = lh_status (t_lt s g)"
    and paused: "\<And>g. g \<in> set (t_torrents s) \<Longrightarrow> t_valid s g \<Longrightarrow> t_paused s' g"
    and h: "h \<in> set (take (nat (t_maxActive s)) (filter (waiting s) (t_torrents s)))"
  shows "\<not> t_paused (enforceDownloadQueue now (refresh pok s')) h"
proof (rule waiting_resumed)
  let ?r = "refresh pok s'"
  have seen: "seen ?r g = (live s g)\<lparr>st_paused := t_paused s' g\<rparr>" if "g \<in> set (t_torrents s)" for g
    using refresh_seen [of g s' pok] that same by (simp add: live_def)
  have w: "waiting ?r g = waiting s g" if "g \<in> set (t_torrents s)" for g
  proof (cases "t_valid s g")
    case True
    moreover have "t_paused s' g" using paused [OF that True] .
    moreover have "st_paused (seen s g) \<longleftrightarrow> t_paused s g" using fresh that by (simp add: live_def)
    ultimately show ?thesis using seen [OF that] fresh that same held
      by (auto simp: waiting_def exempt_def refresh_access is_active_def)
  qed (simp add: waiting_def refresh_access same)
  show "distinct (t_torrents ?r)" "0 < t_maxActive ?r" using rows same by (simp_all add: refresh_access)
  show "\<forall>g \<in> set (t_torrents ?r). t_valid ?r g \<longrightarrow> st_paused (seen ?r g)"
    using seen paused same by (simp add: refresh_access)
  have "filter (waiting ?r) (t_torrents s) = filter (waiting s) (t_torrents s)"
    using w by (auto intro!: filter_cong)
  with h same show "h \<in> set (take (nat (t_maxActive ?r)) (filter (waiting ?r) (t_torrents ?r)))"
    by (simp add: refresh_access)
qed

interpretation kill_rows: row_pass kill_one "\<lambda>e h. (rt_valid (sn_rt e h), rt_paused (sn_rt e h))"
    "\<lambda>e. sn_torrents e" "\<lambda>_ _ (v, p). (v, p \<or> v)"
  by unfold_locales (auto simp: kill_one_def pause_torrent_def)

lemma kill_triggered:
  assumes "sn_outgoingInterface e \<noteq> []" "sn_killSwitchEnabled e" "sn_vpnProxyPort e \<le> 0"
    "\<not> sn_killSwitchActive e" "\<not> interfaceOk nets (sn_outgoingInterface e)"
    "distinct (sn_torrents e)"
  defines "e' \<equiv> checkInterfaceStatus nets e"
  shows "sn_torrents e' = sn_torrents e" "rt_valid (sn_rt e' h) = rt_valid (sn_rt e h)"
    "h \<in> set (sn_torrents e) \<Longrightarrow> rt_valid (sn_rt e h) \<Longrightarrow> rt_paused (sn_rt e' h)"
proof -
  let ?e0 = "e\<lparr>sn_killSwitchActive := True, sn_killSwitchPaused := []\<rparr>"
  have e': "e' = (fold kill_one (sn_torrents e) ?e0)
      \<lparr>sn_signals := sn_signals (fold kill_one (sn_torrents e) ?e0) @ [KillSwitchTriggered]\<rparr>"
    using assms by (simp add: checkInterfaceStatus_def Let_def)
  show "sn_torrents e' = sn_torrents e"
    using kill_rows.pass_context [of "sn_torrents e" ?e0] by (simp add: e')
  show "rt_valid (sn_rt e' h) = rt_valid (sn_rt e h)"
    "h \<in> set (sn_torrents e) \<Longrightarrow> rt_valid (sn_rt e h) \<Longrightarrow> rt_paused (sn_rt e' h)"
    using kill_rows.pass_view [OF assms(6), of ?e0 h] by (auto simp: e' split: if_split_asm)
qed

text \<open>
  The download queue overrules the kill switch. When the protected interface goes down the tick
  pauses every torrent; with a limit on active downloads the next tick, one status update later,
  counts no running download and resumes the torrents that wait in the queue, although the kill
  switch is still on.
\<close>

theorem kill_switch_undone_by_queue:
  assumes "distinct (t_torrents s)" "0 < t_maxActive s"
    "\<forall>g \<in> set (t_torrents s). seen s g = live s g"
    "\<forall>g \<in> set (t_torrents s). g \<in> t_queuePaused s \<longrightarrow> t_paused s g"
    "sn_outgoingInterface (t_net s) \<noteq> []" "sn_killSwitchEnabled (t_net s)"
    "sn_vpnProxyPort (t_net s) \<le> 0" "\<not> sn_killSwitchActive (t_net s)"
    "\<not> interfaceOk nets (sn_outgoingInterface (t_net s))"
    "h \<in> set (take (nat (t_maxActive s)) (filter (waiting s) (t_torrents s)))"
  shows "(\<forall>g \<in> set (t_torrents s). t_valid s g \<longrightarrow> t_paused (on_net (checkInterfaceStatus nets) s) g)
     \<and> \<not> t_paused (enforceDownloadQueue now (refresh pok (on_net (checkInterfaceStatus nets) s))) h"
proof -
  let ?s' = "on_net (checkInterfaceStatus nets) s"
  have d: "distinct (sn_torrents (t_net s))" using assms(1) by (simp add: t_torrents_def)
  note k = kill_triggered [OF assms(5,6,7,8,9) d]
  have p: "t_paused ?s' g" if "g \<in> set (t_torrents s)" "t_valid s g" for g
    using k(3) [of g] that by (simp add: on_net_def t_paused_def t_torrents_def t_valid_def)
  moreover have "\<not> t_paused (enforceDownloadQueue now (refresh pok ?s')) h"
    by (rule pause_undone [OF assms(3,1,2,4)])
       (use k(1,2) p assms(10) in \<open>simp_all add: on_net_def t_torrents_def t_valid_def\<close>)
  ultimately show ?thesis by blast
qed

lemma pause_and_save_fields:
  "t_forceStart (pause_and_save h s) = t_forceStart s" "t_queuePaused (pause_and_save h s) = t_queuePaused s"
  "t_maxActive (pause_and_save h s) = t_maxActive s" "t_torrents (pause_and_save h s) = t_torrents s"
  "lh_status (t_lt (pause_and_save h s) g) = lh_status (t_lt s g)"
  by (auto simp: pause_and_save_def h_save_def h_pause_def on_lt_def on_net_def pause_torrent_def t_torrents_def)

lemma pauseAll_fields:
  "t_forceStart (fold pause_and_save hs s) = t_forceStart s"
  "t_queuePaused (fold pause_and_save hs s) = t_queuePaused s"
  "t_maxActive (fold pause_and_save hs s) = t_maxActive s"
  "t_torrents (fold pause_and_save hs s) = t_torrents s"
  "lh_status (t_lt (fold pause_and_save hs s) g) = lh_status (t_lt s g)"
  by (induction hs arbitrary: s) (simp_all add: pause_and_save_fields)

text \<open>\<open>pauseAll\<close>, the user's command, is undone in the same way.\<close>

lemma pause_all_undone_by_queue:
  assumes "distinct (t_torrents s)" "0 < t_maxActive s"
    "\<forall>g \<in> set (t_torrents s). seen s g = live s g"
    "\<forall>g \<in> set (t_torrents s). g \<in> t_queuePaused s \<longrightarrow> t_paused s g"
    "h \<in> set (take (nat (t_maxActive s)) (filter (waiting s) (t_torrents s)))"
  shows "\<not> t_paused (enforceDownloadQueue now (refresh pok (pauseAll s))) h"
proof (rule pause_undone [OF assms(3,1,2,4)])
  have v: "paused_view (pauseAll s) g = (if g \<in> set (t_torrents s) then (t_valid s g, t_paused s g \<or> t_valid s g)
      else paused_view s g)" for g
    using pause_all.pass_view [OF assms(1), of s g] by (simp add: pauseAll_def paused_view_def)
  show "t_valid (pauseAll s) g = t_valid s g" for g
    using v [of g] by (simp add: paused_view_def split: if_split_asm)
  show "t_paused (pauseAll s) g" if "g \<in> set (t_torrents s)" "t_valid s g" for g
    using v [of g] that by (simp add: paused_view_def)
qed (use assms(5) in \<open>simp_all add: pauseAll_def pauseAll_fields\<close>)

lemma disjoint_filters:
  "(\<And>x. P x \<Longrightarrow> \<not> Q x) \<Longrightarrow> length (filter P xs) + length (filter Q xs) \<le> length xs"
  by (induction xs) (auto intro: le_SucI)

text \<open>
  The queue remembers a torrent it paused even after the user has resumed it. When the user pauses
  it later, the queue takes the pause for its own and resumes the torrent at its next tick, even when
  the limit leaves room for every torrent there is.
\<close>

theorem user_pause_overruled:
  assumes "distinct (t_torrents s)" "length (t_torrents s) \<le> nat (t_maxActive s)"
    "0 \<le> i" "i < int (length (t_torrents s))" "h = t_torrents s ! nat i"
    "t_valid s h" "h \<in> t_queuePaused s" "\<not> t_paused s h" "is_active (live s h)"
    "\<not> (st_hasMetadata (live s h) \<and> st_hash (live s h) \<in> t_forceStart s)"
  shows "t_paused (pauseTorrent i s) h
     \<and> \<not> t_paused (enforceDownloadQueue now (refresh pok (pauseTorrent i s))) h"
proof -
  let ?p = "pauseTorrent i s" and ?A = "filter (counted now (refresh pok (pauseTorrent i s))) (t_torrents s)"
    and ?Q = "filter (waiting (refresh pok (pauseTorrent i s))) (t_torrents s)"
  have row: "handleAt i s = Some h" "h \<in> set (t_torrents s)"
    using assms(3,4,5) by (simp_all add: handleAt_def)
  have e: "?p = h_save h (h_pause h s)" using row assms(6) by (simp add: pauseTorrent_def validAt_def)
  have p: "t_torrents ?p = t_torrents s" "t_valid ?p g = t_valid s g" "t_paused ?p g = (g = h \<or> t_paused s g)"
    "t_forceStart ?p = t_forceStart s" "t_queuePaused ?p = t_queuePaused s" "t_maxActive ?p = t_maxActive s"
    "live ?p h = (live s h)\<lparr>st_paused := True\<rparr>" for g
    by (simp_all add: e row_simps live_def)
       (simp_all add: h_save_def h_pause_def on_net_def on_lt_def t_paused_def pause_torrent_def)
  have q: "h \<in> set ?Q"
    using row(2) assms(6,7,9,10) p refresh_seen [of h ?p pok]
    by (simp add: waiting_def exempt_def refresh_access is_active_def)
  have "length ?A + length ?Q \<le> length (t_torrents s)"
  proof -
    have "counted now (refresh pok ?p) g \<Longrightarrow> \<not> waiting (refresh pok ?p) g" for g
      by (auto simp: counted_def running_def waiting_def)
    then show ?thesis by (rule disjoint_filters)
  qed
  then have fits: "length ?A < nat (t_maxActive s)" "length ?Q \<le> nat (t_maxActive s) - length ?A"
    using assms(2) length_pos_if_in_set [OF q] by linarith+
  then have room: "length ?A < nat (t_maxActive s)" "take (nat (t_maxActive s) - length ?A) ?Q = ?Q"
    by simp_all
  have "0 < t_maxActive s" using room(1) by simp
  with queue_settles [of "refresh pok ?p" now] assms(1) p row(2) q room
  have "\<not> t_paused (enforceDownloadQueue now (refresh pok ?p)) h"
    by (auto simp: Let_def refresh_access dest!: bspec [of _ _ h] dest: in_set_dropD)
  then show ?thesis using p by simp
qed

section \<open>At the sample session\<close>

lemma sample_queue [sample_simps]:
  "exempt sample_session h = False" "counted now sample_session h \<longleftrightarrow> h \<noteq> 2"
  "waiting sample_session h \<longleftrightarrow> h = 2" "forced sample_session h = False"
  by (auto simp: exempt_def counted_def running_def waiting_def forced_def fast_at_def is_active_def
      kSlowTimeout_def sample_simps)

theorem queue_settles_witness:
  "\<not> t_paused (enforceDownloadQueue 5 sample_session) 1
   \<and> \<not> t_paused (enforceDownloadQueue 5 sample_session) 2
   \<and> t_queuePaused (enforceDownloadQueue 5 sample_session) = {}"
  using queue_settles [of sample_session 5] by (simp add: sample_simps Let_def)

theorem kill_switch_undone_by_queue_witness:
  "t_paused (on_net (checkInterfaceStatus []) sample_session) 2
   \<and> \<not> t_paused (enforceDownloadQueue 5
       (refresh (\<lambda>_. True) (on_net (checkInterfaceStatus []) sample_session))) 2"
proof -
  have "sn_outgoingInterface sample_net \<noteq> []" "sn_killSwitchEnabled sample_net"
    "sn_vpnProxyPort sample_net \<le> 0" "\<not> sn_killSwitchActive sample_net"
    "\<not> interfaceOk [] (sn_outgoingInterface sample_net)"
    by (simp_all add: sample_net_def interfaceOk_def)
  then show ?thesis
    using kill_switch_undone_by_queue [of sample_session "[]" 2 5 "\<lambda>_. True"]
    by (simp add: sample_simps)
qed

text \<open>The second torrent, resumed by the user while the queue still has it as paused by itself.\<close>

definition sample_resumed :: SessionT where
  "sample_resumed = h_resume 2 sample_session"

lemma sample_resumed_access [sample_simps]:
  "t_torrents sample_resumed = [1, 2]" "t_valid sample_resumed h" "\<not> t_paused sample_resumed h"
  "t_maxActive sample_resumed = 2" "t_queuePaused sample_resumed = {2}" "t_forceStart sample_resumed = {}"
  "live sample_resumed h = (sample_status h)\<lparr>st_paused := False\<rparr>"
  by (auto simp: sample_resumed_def row_simps sample_simps live_def)

theorem user_pause_overruled_witness:
  "t_paused (pauseTorrent 1 sample_resumed) 2
   \<and> \<not> t_paused (enforceDownloadQueue 5 (refresh (\<lambda>_. True) (pauseTorrent 1 sample_resumed))) 2"
  by (rule user_pause_overruled) (simp_all add: sample_simps is_active_def)

end
