(* ===== verification/SessionWatch.thy ===== *)
theory SessionWatch
  imports SessionSamples
begin

text \<open>
  What the tick watches: disk space, data that is gone, and the limits on seeding. The passes that
  act on a torrent once per hash share the contract \<open>keyed_pass\<close>.
\<close>

section \<open>Passes that act once per key\<close>

locale keyed_pass =
  fixes step :: "nat \<Rightarrow> 's \<Rightarrow> 's"
    and view :: "'s \<Rightarrow> nat \<Rightarrow> 'v"
    and ctx :: "'s \<Rightarrow> 'c"
    and done_keys :: "'s \<Rightarrow> 'k set"
    and key :: "'v \<Rightarrow> 'k"
    and due :: "'c \<Rightarrow> 'v \<Rightarrow> bool"
    and act :: "'v \<Rightarrow> 'v"
  assumes own: "view (step h s) h =
      (if due (ctx s) (view s h) \<and> key (view s h) \<notin> done_keys s then act (view s h) else view s h)"
    and others: "g \<noteq> h \<Longrightarrow> view (step h s) g = view s g"
    and keys: "done_keys (step h s) =
      (if due (ctx s) (view s h) \<and> key (view s h) \<notin> done_keys s
       then insert (key (view s h)) (done_keys s) else done_keys s)"
    and frame: "ctx (step h s) = ctx s"
begin

lemma keyed_outside: "g \<notin> set hs \<Longrightarrow> view (fold step hs s) g = view s g"
  by (induction hs arbitrary: s) (simp_all add: others)

lemma keyed_frame: "ctx (fold step hs s) = ctx s"
  by (induction hs arbitrary: s) (simp_all add: frame)

text \<open>The keys acted on, and what every torrent has become, when the keys are distinct.\<close>

lemma keyed_all:
  "distinct hs \<Longrightarrow> inj_on (\<lambda>h. key (view s h)) (set hs)
    \<Longrightarrow> view (fold step hs s) g =
      (if g \<in> set hs \<and> due (ctx s) (view s g) \<and> key (view s g) \<notin> done_keys s
       then act (view s g) else view s g)
    \<and> done_keys (fold step hs s) = done_keys s \<union> {key (view s h) |h. h \<in> set hs \<and> due (ctx s) (view s h)}"
proof (induction hs arbitrary: s)
  case (Cons h hs)
  have rest: "view (step h s) k = view s k" if "k \<in> set hs" for k
    using that Cons.prems(1) by (auto intro: others)
  have inj: "inj_on (\<lambda>h. key (view s h)) (set hs)" using Cons.prems(2) by (simp add: inj_on_def)
  then have "inj_on (\<lambda>k. key (view (step h s) k)) (set hs)"
    using rest by (simp add: inj_on_def)
  note IH = Cons.IH [OF _ this]
  have fresh: "key (view s k) \<noteq> key (view s h)" if "k \<in> set hs" for k
    using Cons.prems that by (auto simp: inj_on_def)
  have "view (fold step (h # hs) s) g =
      (if g \<in> set (h # hs) \<and> due (ctx s) (view s g) \<and> key (view s g) \<notin> done_keys s
       then act (view s g) else view s g)"
  proof (cases "g = h")
    case True
    then show ?thesis using Cons.prems(1) by (simp add: keyed_outside own)
  next
    case False
    show ?thesis
    proof (cases "g \<in> set hs")
      case True
      with IH Cons.prems(1) rest [OF True] fresh [OF True] False show ?thesis
        by (simp add: frame keys) blast
    qed (use False in \<open>simp add: keyed_outside others\<close>)
  qed
  moreover have "{key (view (step h s) k) |k. k \<in> set hs \<and> due (ctx s) (view (step h s) k)} =
      {key (view s k) |k. k \<in> set hs \<and> due (ctx s) (view s k)}"
    using rest by metis
  then have "done_keys (fold step (h # hs) s) =
      done_keys s \<union> {key (view s k) |k. k \<in> set (h # hs) \<and> due (ctx s) (view s k)}"
    using IH Cons.prems(1) by (auto simp: frame keys)
  ultimately show ?case by blast
qed simp

end

section \<open>Disk space\<close>

lemma disk_fields:
  "t_torrents (refreshDiskFreeAsync now path s) = t_torrents s"
  "t_valid (refreshDiskFreeAsync now path s) g = t_valid s g"
  "t_paused (refreshDiskFreeAsync now path s) g = t_paused s g"
  "seen (refreshDiskFreeAsync now path s) g = seen s g"
  "t_net (refreshDiskFreeAsync now path s) = t_net s"
  "t_diskFree (refreshDiskFreeAsync now path s) = t_diskFree s"
  "t_diskAutoPaused (refreshDiskFreeAsync now path s) = t_diskAutoPaused s"
  "t_signals (refreshDiskFreeAsync now path s) = t_signals s"
  by (simp_all add: refreshDiskFreeAsync_def t_torrents_def t_valid_def t_paused_def seen_def live_def
      split: option.split)

text \<open>One check, and then perhaps the answer of a probe.\<close>

definition disk_tick :: "int \<times> string \<times> (string \<times> int) option \<Rightarrow> SessionT \<Rightarrow> SessionT" where
  "disk_tick e s =
     (let (now, path, answer) = e; s1 = checkDiskPressure now path s
      in case answer of None \<Rightarrow> s1 | Some (p, n) \<Rightarrow> onDiskFree p n s1)"

definition disk_pauses :: "SessionT \<Rightarrow> nat" where
  "disk_pauses s = length (filter (\<lambda>g. case g of TorrentError (DiskAutoPause _ _) \<Rightarrow> True | _ \<Rightarrow> False)
     (t_signals s))"

lemma disk_tick_armed:
  assumes "t_diskAutoPaused s" "t_diskFree s < 2048 * kMB"
    "case snd (snd e) of None \<Rightarrow> True | Some (p, n) \<Rightarrow> n < 2048 * kMB"
  shows "t_diskAutoPaused (disk_tick e s) \<and> t_diskFree (disk_tick e s) < 2048 * kMB
     \<and> t_net (disk_tick e s) = t_net s \<and> disk_pauses (disk_tick e s) = disk_pauses s"
proof -
  obtain now path answer where e: "e = (now, path, answer)" by (cases e) auto
  have c: "t_diskAutoPaused (checkDiskPressure now path s) \<and> t_diskFree (checkDiskPressure now path s) = t_diskFree s
     \<and> t_net (checkDiskPressure now path s) = t_net s
     \<and> disk_pauses (checkDiskPressure now path s) = disk_pauses s"
    using assms(1,2)
    by (simp add: checkDiskPressure_def disk_fields Let_def t_emit_def disk_pauses_def)
  with assms(2,3) e show ?thesis
    by (simp add: disk_tick_def onDiskFree_def disk_pauses_def Let_def split: option.splits prod.splits)
qed

lemma disk_run_armed:
  assumes "t_diskAutoPaused s" "t_diskFree s < 2048 * kMB"
    "list_all (\<lambda>e. case snd (snd e) of None \<Rightarrow> True | Some (p, n) \<Rightarrow> n < 2048 * kMB) es"
  shows "t_net (fold disk_tick es s) = t_net s \<and> disk_pauses (fold disk_tick es s) = disk_pauses s"
  using assms
proof (induction es arbitrary: s)
  case (Cons e es)
  with disk_tick_armed [of s e] show ?case by simp
qed simp

lemma disk_pause_signals: "t_signals (snd (fold disk_pause_one hs ns)) = t_signals (snd ns)"
proof (induction hs arbitrary: ns)
  case (Cons h hs)
  have "t_signals (snd (disk_pause_one h ns)) = t_signals (snd ns)"
    by (cases ns) (simp add: disk_pause_one_def Let_def split_beta row_simps)
  with Cons show ?case by simp
qed simp

text \<open>
  Disk pressure acts once, and acts on every download. When less than 512 MB are free, the check
  pauses exactly the torrents that download (or fetch metadata) and are not paused yet; and then,
  whatever is measured later, it pauses nothing and warns of no pause again until 2 GB are free: a
  download the user resumes is left alone.
\<close>

theorem disk_pressure_acts_once:
  assumes "distinct (t_torrents s)" "0 \<le> t_diskFree s" "t_diskFree s < 512 * kMB"
    "\<not> t_diskAutoPaused s"
  shows "let s' = checkDiskPressure now path s in
     (\<forall>h \<in> set (t_torrents s). t_paused s' h =
        (t_paused s h \<or> (t_valid s h \<and> is_active (seen s h) \<and> \<not> st_paused (seen s h))))
     \<and> (\<forall>es. list_all (\<lambda>e. case snd (snd e) of None \<Rightarrow> True | Some (p, n) \<Rightarrow> n < 2048 * kMB) es
          \<longrightarrow> t_net (fold disk_tick es s') = t_net s' \<and> disk_pauses (fold disk_tick es s') = disk_pauses s')"
proof -
  let ?s' = "checkDiskPressure now path s" and ?r = "refreshDiskFreeAsync now path s"
  let ?f = "fold disk_pause_one (t_torrents s) (0, ?r)"
  have net: "t_net ?s' = t_net (snd ?f)" "t_diskAutoPaused ?s'" "t_diskFree ?s' = t_diskFree (snd ?f)"
    using assms(2-4)
    by (simp_all add: checkDiskPressure_def disk_fields Let_def split_beta t_emit_def)
  have free: "t_diskFree (snd (fold disk_pause_one hs ns)) = t_diskFree (snd ns)" for hs ns
  proof (induction hs arbitrary: ns)
    case (Cons h hs)
    have "t_diskFree (snd (disk_pause_one h ns)) = t_diskFree (snd ns)"
      by (cases ns) (simp add: disk_pause_one_def Let_def split_beta h_pause_def on_net_def
          cachedStatus_def split: option.split)
    with Cons show ?case by simp
  qed simp
  have "t_paused ?s' h = (t_paused s h \<or> (t_valid s h \<and> is_active (seen s h) \<and> \<not> st_paused (seen s h)))"
    if "h \<in> set (t_torrents s)" for h
    using disk_low.pass_view [OF assms(1), of "(0, ?r)" h] that net(1)
    by (simp add: row_view_def disk_fields t_paused_def [of ?s'] t_paused_def [of "snd ?f"])
  moreover have "t_diskFree ?s' < 2048 * kMB"
    using free [of "t_torrents s" "(0, ?r)"] net(3) assms(2,3) by (simp add: disk_fields kMB_def)
  ultimately show ?thesis
    using disk_run_armed [OF net(2)] by (simp add: Let_def)
qed

section \<open>Data that is gone\<close>

lemma pause_missing_one_eq:
  "pause_missing_one confirmed h (n, name, s) =
     (let c = snd (cachedStatus h s); st = seen s h in
      if t_valid s h \<and> st_hasMetadata st \<and> \<not> st_paused st \<and> st_hash st \<in> confirmed
         \<and> st_hash st \<notin> t_missingPaused s
      then (n + 1, st_name st, (h_pause h c)\<lparr>t_missingPaused := insert (st_hash st) (t_missingPaused s)\<rparr>)
      else (n, name, if t_valid s h then c else s))"
  by (simp add: pause_missing_one_def Let_def split_beta row_simps)

lemma missing_update [row_simps]:
  "row_view (s\<lparr>t_missingPaused := m\<rparr>) g = row_view s g" "t_missingPaused (s\<lparr>t_missingPaused := m\<rparr>) = m"
  by (simp_all add: row_view_def t_valid_def t_paused_def seen_def live_def split: option.split)

interpretation missing_rows: keyed_pass "pause_missing_one confirmed" "\<lambda>x. row_view (snd (snd x))"
    "\<lambda>_. ()" "\<lambda>x. t_missingPaused (snd (snd x))" "\<lambda>(v, p, st). st_hash st"
    "\<lambda>_ (v, p, st). v \<and> st_hasMetadata st \<and> \<not> st_paused st \<and> st_hash st \<in> confirmed"
    "\<lambda>(v, p, st). (v, True, st)"
  for confirmed
proof (unfold_locales, goal_cases)
  case (1 h x)
  show ?case
    by (cases x) (simp add: pause_missing_one_eq Let_def row_simps, auto simp: row_view_def)
next
  case (2 g h x)
  then show ?case by (cases x) (simp add: pause_missing_one_eq Let_def row_simps)
next
  case (3 h x)
  show ?case by (cases x) (simp add: pause_missing_one_eq Let_def row_simps, auto simp: row_view_def)
qed simp

lemma net_access:
  "t_valid (t_emit g s) h = t_valid s h" "t_paused (t_emit g s) h = t_paused s h"
  by (simp_all add: row_simps)


section \<open>Limits on seeding\<close>

lemma snd_cached_invalid: "\<not> t_valid s h \<Longrightarrow> snd (cachedStatus h s) = s"
  by (simp add: cachedStatus_def split: option.split)

lemma cached_again: "t_valid s h \<Longrightarrow> cachedStatus h (snd (cachedStatus h s)) = (seen s h, snd (cachedStatus h s))"
  by (simp add: cachedStatus_def seen_def split: option.split)

text \<open>\<open>markCompleted\<close> for a handle whose status is cached.\<close>

definition complete_at :: "nat \<Rightarrow> SessionT \<Rightarrow> SessionT" where
  "complete_at h s =
     (let hash = st_hash (seen s h) in
      if \<not> st_hasMetadata (seen s h) \<or> hash \<in> t_completed s then s
      else t_emit TorrentsUpdated (h_pause h (on_lt h (set_prios 0)
             (saveCompletedSet (s\<lparr>t_completed := insert hash (t_completed s)\<rparr>)))))"

text \<open>A pass that completes the torrents whose status meets \<open>D\<close>, given the settings of the session.\<close>

type_synonym SeedCfg = "(string \<Rightarrow> int) \<times> int \<times> rat"

definition seed_cfg :: "SessionT \<Rightarrow> SeedCfg" where
  "seed_cfg s = (\<lambda>hash. effectiveMaxSeedSeconds hash s, t_autoCompleteSeconds s, t_seedRatioLimit s)"

lemma seed_cfg_cong:
  "t_maxSeed s = t_maxSeed s' \<Longrightarrow> t_maxSeedSeconds s = t_maxSeedSeconds s'
    \<Longrightarrow> t_autoCompleteSeconds s = t_autoCompleteSeconds s' \<Longrightarrow> t_seedRatioLimit s = t_seedRatioLimit s'
    \<Longrightarrow> seed_cfg s = seed_cfg s'"
  by (simp add: seed_cfg_def effectiveMaxSeedSeconds_def Let_def cong: if_cong)

definition limit_at :: "(SeedCfg \<Rightarrow> TorStatus \<Rightarrow> bool) \<Rightarrow> nat \<Rightarrow> SessionT \<Rightarrow> SessionT" where
  "limit_at D h s =
     (let c = snd (cachedStatus h s) in
      if t_valid s h \<and> D (seed_cfg s) (seen s h) then complete_at h c else c)"

definition file_view :: "SessionT \<Rightarrow> nat \<Rightarrow> bool \<times> bool \<times> TorStatus \<times> LtFile list option" where
  "file_view s h = (t_valid s h, t_paused s h, seen s h, lh_files (t_lt s h))"

lemma on_lt_access [row_simps]:
  "t_valid (on_lt h f s) g = t_valid s g" "t_paused (on_lt h f s) g = t_paused s g"
  "t_torrents (on_lt h f s) = t_torrents s" "t_cache (on_lt h f s) = t_cache s"
  by (simp_all add: on_lt_def t_valid_def t_paused_def t_torrents_def)

lemma saved_access [row_simps]:
  "t_valid (saveCompletedSet s) g = t_valid s g" "t_paused (saveCompletedSet s) g = t_paused s g"
  "t_torrents (saveCompletedSet s) = t_torrents s" "t_cache (saveCompletedSet s) = t_cache s"
  "t_lt (saveCompletedSet s) = t_lt s" "t_completed (saveCompletedSet s) = t_completed s"
  "seen (s\<lparr>t_completed := c\<rparr>) g = seen s g" "t_valid (s\<lparr>t_completed := c\<rparr>) g = t_valid s g"
  "t_paused (s\<lparr>t_completed := c\<rparr>) g = t_paused s g" "t_torrents (s\<lparr>t_completed := c\<rparr>) = t_torrents s"
  by (simp_all add: saveCompletedSet_def t_put_def t_valid_def t_paused_def t_torrents_def seen_def live_def
      split: option.split)

lemma complete_at_effect:
  assumes "t_cache s h = Some st"
  defines "new \<equiv> st_hasMetadata st \<and> st_hash st \<notin> t_completed s"
  shows "file_view (complete_at h s) g =
      (if g = h \<and> new then (t_valid s h, True, st, lh_files (set_prios 0 (t_lt s h))) else file_view s g)"
    "t_completed (complete_at h s) = (if new then insert (st_hash st) (t_completed s) else t_completed s)"
    "t_torrents (complete_at h s) = t_torrents s" "seed_cfg (complete_at h s) = seed_cfg s"
proof -
  have sn: "seen s h = st" using assms(1) by (simp add: seen_def)
  have other: "seen (complete_at h s) g = seen s g" for g
    by (simp add: complete_at_def Let_def seen_def row_simps live_def assms(1) split: option.split)
       (auto simp: on_lt_def row_simps assms(1))
  show "file_view (complete_at h s) g =
      (if g = h \<and> new then (t_valid s h, True, st, lh_files (set_prios 0 (t_lt s h))) else file_view s g)"
    using other sn by (auto simp: file_view_def new_def complete_at_def Let_def row_simps) (simp_all add: on_lt_def row_simps)
  show "t_completed (complete_at h s) = (if new then insert (st_hash st) (t_completed s) else t_completed s)"
    by (simp add: complete_at_def sn new_def Let_def) (simp add: t_emit_def h_pause_def on_net_def on_lt_def row_simps)
  show "t_torrents (complete_at h s) = t_torrents s" by (simp add: complete_at_def Let_def row_simps)
  show "seed_cfg (complete_at h s) = seed_cfg s"
    by (rule seed_cfg_cong) (simp_all add: complete_at_def Let_def t_emit_def h_pause_def
        on_net_def on_lt_def saveCompletedSet_def t_put_def)
qed

lemma cached_after: "t_valid s h \<Longrightarrow> t_cache (snd (cachedStatus h s)) h = Some (seen s h)"
  by (simp add: row_simps)

lemma file_view_cached [row_simps]: "file_view (snd (cachedStatus h s)) g = file_view s g"
  by (simp add: file_view_def row_simps)

lemma seed_cfg_cached [row_simps]: "seed_cfg (snd (cachedStatus h s)) = seed_cfg s"
  by (rule seed_cfg_cong) (simp_all add: cachedStatus_def split: option.split)

lemma limit_at_effect:
  "file_view (limit_at D h s) g =
     (if g = h \<and> t_valid s h \<and> D (seed_cfg s) (seen s h) \<and> st_hasMetadata (seen s h)
         \<and> st_hash (seen s h) \<notin> t_completed s
      then (True, True, seen s h, lh_files (set_prios 0 (t_lt s h))) else file_view s g)"
  "t_completed (limit_at D h s) =
     (if t_valid s h \<and> D (seed_cfg s) (seen s h) \<and> st_hasMetadata (seen s h)
         \<and> st_hash (seen s h) \<notin> t_completed s
      then insert (st_hash (seen s h)) (t_completed s) else t_completed s)"
  "seed_cfg (limit_at D h s) = seed_cfg s" "t_torrents (limit_at D h s) = t_torrents s"
  by (cases "t_valid s h"; simp add: limit_at_def Let_def complete_at_effect [OF cached_after] row_simps)+

interpretation limit_rows: keyed_pass "limit_at D" file_view seed_cfg t_completed
    "\<lambda>(v, p, st, fs). st_hash st" "\<lambda>cfg (v, p, st, fs). v \<and> st_hasMetadata st \<and> D cfg st"
    "\<lambda>(v, p, st, fs). (v, True, st, map_option (map (\<lambda>f. f\<lparr>lf_prio := 0\<rparr>)) fs)"
  for D
  by unfold_locales (auto simp: limit_at_effect, auto simp: file_view_def set_prios_def)

text \<open>A loop over the row numbers is the pass over the handles.\<close>

lemma rows_fold:
  assumes "\<And>i s. i < length (t_torrents s) \<Longrightarrow> f (int i) s = limit_at D (t_torrents s ! i) s"
  shows "fold f (rows s) s = fold (limit_at D) (t_torrents s) s"
proof -
  have "fold f (map int is) r = fold (limit_at D) (map ((!) ts) is) r"
    if "t_torrents r = ts" "\<forall>i \<in> set is. i < length ts" for "is" r ts
    using that
  proof (induction "is" arbitrary: r)
    case (Cons i "is")
    then show ?case using assms [of i r] by (simp add: limit_at_effect)
  qed simp
  from this [of s "t_torrents s" "[0..<length (t_torrents s)]"] show ?thesis
    by (simp add: rows_def map_nth)
qed

lemma handleAt_row: "i < length (t_torrents s) \<Longrightarrow> handleAt (int i) s = Some (t_torrents s ! i)"
  by (simp add: handleAt_def)

lemma markCompleted_row:
  "i < length (t_torrents s) \<Longrightarrow> t_valid s (t_torrents s ! i)
    \<Longrightarrow> markCompleted (int i) (snd (cachedStatus (t_torrents s ! i) s)) =
      complete_at (t_torrents s ! i) (snd (cachedStatus (t_torrents s ! i) s))"
  by (simp add: markCompleted_def validAt_def handleAt_def complete_at_def cached_again row_simps Let_def)

lemma cfg_cached [row_simps]:
  "effectiveMaxSeedSeconds hash (snd (cachedStatus h s)) = effectiveMaxSeedSeconds hash s"
  "t_autoCompleteSeconds (snd (cachedStatus h s)) = t_autoCompleteSeconds s"
  "t_seedRatioLimit (snd (cachedStatus h s)) = t_seedRatioLimit s"
  using seed_cfg_cached [of h s] unfolding seed_cfg_def prod.inject fun_eq_iff by blast+

lemma seed_time_row:
  "i < length (t_torrents s) \<Longrightarrow> seed_time_one (int i) s =
     limit_at (\<lambda>(m, _, _) st. st_state st = Seeding \<and> \<not> st_paused st \<and> 0 < m (st_hash st)
       \<and> m (st_hash st) \<le> st_seedSecs st) (t_torrents s ! i) s"
  by (cases "t_valid s (t_torrents s ! i)")
     (auto simp: seed_time_one_def validAt_def handleAt_row limit_at_def Let_def split_beta row_simps
       snd_cached_invalid markCompleted_row seed_cfg_def)

lemma auto_complete_row:
  "i < length (t_torrents s) \<Longrightarrow> auto_complete_one (int i) s =
     limit_at (\<lambda>(_, a, _) st. st_state st = Seeding \<and> \<not> st_paused st \<and> st_hasMetadata st
       \<and> a \<le> st_seedSecs st) (t_torrents s ! i) s"
  by (cases "t_valid s (t_torrents s ! i)")
     (auto simp: auto_complete_one_def validAt_def handleAt_row limit_at_def Let_def split_beta row_simps
       snd_cached_invalid markCompleted_row seed_cfg_def complete_at_def)

text \<open>
  The limits on seeding are exact. A check of the seeding times marks as completed the torrents that
  seed, are not paused, and have seeded for at least the limit in force for them (their own, else the
  global one, 0 being none), and no others: those are paused, all their files are deselected, and
  their hashes join the completed set; every other torrent keeps its state.
\<close>

theorem seeding_limit_exact:
  assumes "distinct (t_torrents s)" "inj_on (\<lambda>h. st_hash (seen s h)) (set (t_torrents s))"
  shows "let s' = checkSeedingLimits s;
             due = (\<lambda>h. t_valid s h \<and> st_hasMetadata (seen s h) \<and> st_state (seen s h) = Seeding
               \<and> \<not> st_paused (seen s h) \<and> 0 < effectiveMaxSeedSeconds (st_hash (seen s h)) s
               \<and> effectiveMaxSeedSeconds (st_hash (seen s h)) s \<le> st_seedSecs (seen s h)) in
     t_completed s' = t_completed s \<union> {st_hash (seen s h) |h. h \<in> set (t_torrents s) \<and> due h}
     \<and> (\<forall>h \<in> set (t_torrents s).
          (if due h \<and> st_hash (seen s h) \<notin> t_completed s
           then t_paused s' h \<and> lh_files (t_lt s' h) = map_option (map (\<lambda>f. f\<lparr>lf_prio := 0\<rparr>)) (lh_files (t_lt s h))
           else t_paused s' h = t_paused s h \<and> lh_files (t_lt s' h) = lh_files (t_lt s h)))"
proof -
  define D where "D = (\<lambda>(m, _::int, _::rat) (st::TorStatus). st_state st = Seeding \<and> \<not> st_paused st \<and> 0 < m (st_hash st)
       \<and> m (st_hash st) \<le> st_seedSecs st)"
  define s' where "s' = fold (limit_at D) (t_torrents s) s"
  define due where "due = (\<lambda>h. t_valid s h \<and> st_hasMetadata (seen s h) \<and> st_state (seen s h) = Seeding
    \<and> \<not> st_paused (seen s h) \<and> 0 < effectiveMaxSeedSeconds (st_hash (seen s h)) s
    \<and> effectiveMaxSeedSeconds (st_hash (seen s h)) s \<le> st_seedSecs (seen s h))"
  have e: "checkSeedingLimits s = s'"
    unfolding checkSeedingLimits_def s'_def D_def by (rule rows_fold) (rule seed_time_row)
  have inj: "inj_on (\<lambda>h. case file_view s h of (v, p, st, fs) \<Rightarrow> st_hash st) (set (t_torrents s))"
    using assms(2) by (simp add: file_view_def)
  note k = limit_rows.keyed_all [OF assms(1) inj, of D, folded s'_def]
  have dd: "(case file_view s h of (v, p, st, fs) \<Rightarrow> v \<and> st_hasMetadata st \<and> D (seed_cfg s) st) = due h" for h
    by (simp add: file_view_def D_def seed_cfg_def due_def)
  have keys: "t_completed s' = t_completed s \<union> {st_hash (seen s h) |h. h \<in> set (t_torrents s) \<and> due h}"
    using k [of undefined, THEN conjunct2] unfolding dd by (simp add: file_view_def)
  have fv: "file_view s' h = (if due h \<and> st_hash (seen s h) \<notin> t_completed s
      then (t_valid s h, True, seen s h, map_option (map (\<lambda>f. f\<lparr>lf_prio := 0\<rparr>)) (lh_files (t_lt s h)))
      else file_view s h)" if "h \<in> set (t_torrents s)" for h
    using k [of h, THEN conjunct1] that unfolding dd by (simp add: file_view_def [of s])
  have "if due h \<and> st_hash (seen s h) \<notin> t_completed s
      then t_paused s' h \<and> lh_files (t_lt s' h) = map_option (map (\<lambda>f. f\<lparr>lf_prio := 0\<rparr>)) (lh_files (t_lt s h))
      else t_paused s' h = t_paused s h \<and> lh_files (t_lt s' h) = lh_files (t_lt s h)"
    if "h \<in> set (t_torrents s)" for h
    using fv [OF that] by (cases "due h \<and> st_hash (seen s h) \<notin> t_completed s") (auto simp: file_view_def)
  with keys show ?thesis unfolding Let_def e due_def by blast
qed

section \<open>At the sample session\<close>

theorem disk_pressure_acts_once_witness:
  "t_paused (checkDiskPressure 5 ''/dl'' sample_session) 1
   \<and> t_net (fold disk_tick [(9, ''/dl'', Some (''/dl'', 600 * kMB))] (checkDiskPressure 5 ''/dl'' sample_session)) =
       t_net (checkDiskPressure 5 ''/dl'' sample_session)"
proof -
  note d = disk_pressure_acts_once [of sample_session 5 "''/dl''", simplified Let_def]
  have "distinct (t_torrents sample_session)" "0 \<le> t_diskFree sample_session"
    "t_diskFree sample_session < 512 * kMB" "\<not> t_diskAutoPaused sample_session"
    by (simp_all add: sample_simps kMB_def)
  note d = d [OF this]
  have "t_paused (checkDiskPressure 5 ''/dl'' sample_session) 1"
    using conjunct1 [OF d] by (simp add: sample_simps is_active_def)
  moreover have "list_all (\<lambda>e. case snd (snd e) of None \<Rightarrow> True | Some (p, n) \<Rightarrow> n < 2048 * kMB)
      [(9 :: int, ''/dl'', Some (''/dl'', 600 * kMB))]" by (simp add: kMB_def)
  ultimately show ?thesis using conjunct2 [OF d] by blast
qed

lemma sample_hashes: "inj_on (\<lambda>h. st_hash (seen sample_session h)) (set (t_torrents sample_session))"
  by (simp add: sample_simps)


text \<open>The first torrent has seeded for the sixty seconds of the limit.\<close>

definition sample_seeding :: SessionT where
  "sample_seeding = sample_session\<lparr>t_cache :=
     [1 \<mapsto> (sample_status 1)\<lparr>st_state := Seeding, st_seedSecs := 60\<rparr>]\<rparr>"

lemma sample_seeding_access [sample_simps]:
  "t_torrents sample_seeding = [1, 2]" "t_valid sample_seeding h"
  "seen sample_seeding h = (if h = 1 then (sample_status 1)\<lparr>st_state := Seeding, st_seedSecs := 60\<rparr>
     else sample_status h)"
  "effectiveMaxSeedSeconds hash sample_seeding = 60" "t_completed sample_seeding = {}"
  by (simp_all add: sample_seeding_def seen_def effectiveMaxSeedSeconds_def t_torrents_def t_valid_def live_def
      t_paused_def) (simp_all add: sample_session_def sample_net_def sample_lt_def sample_status_def)

theorem seeding_limit_exact_witness:
  "''a1'' \<in> t_completed (checkSeedingLimits sample_seeding) \<and> t_paused (checkSeedingLimits sample_seeding) 1"
  using seeding_limit_exact [of sample_seeding] by (simp add: sample_simps Let_def)

end
