(* ===== verification/SessionViews.thy ===== *)
theory SessionViews
  imports SessionSamples
begin

text \<open>
  The session seen from outside: the table of rows the rest of the app addresses torrents by, the
  totals it shows, the alerts it handles in order, and what is left of a torrent after it is removed.
\<close>

section \<open>The table of rows\<close>

text \<open>The abstraction of the session to the table of \<open>TorrentTable\<close>.\<close>

definition row_table :: "SessionT \<Rightarrow> Session" where
  "row_table s = map (\<lambda>h. \<lparr>th_valid = t_valid s h, th_has_metadata = st_hasMetadata (seen s h),
      th_hash = st_hash (seen s h), th_magnet_hash = t_magnetHashes s h\<rparr>) (t_torrents s)"

lemma row_table_cached [simp]: "row_table (snd (cachedStatus h s)) = row_table s"
proof -
  have "t_magnetHashes (snd (cachedStatus h s)) = t_magnetHashes s"
    by (simp add: cachedStatus_def split: option.split)
  then show ?thesis by (simp add: row_table_def row_simps)
qed

lemma torrentHash_table:
  "fst (torrentHash i s) = session_torrentHash (row_table s) i"
  "row_table (snd (torrentHash i s)) = row_table s"
proof -
  show "fst (torrentHash i s) = session_torrentHash (row_table s) i"
  proof (cases "i < 0 \<or> int (length (t_torrents s)) \<le> i")
    case True
    then show ?thesis
      by (simp add: torrentHash_def validAt_def handleAt_def session_torrentHash_def row_table_def)
  next
    case False
    then have "nat i < length (t_torrents s)" by linarith
    moreover have "t_magnetHashes (snd (cachedStatus h s)) = t_magnetHashes s" for h
      by (simp add: cachedStatus_def split: option.split)
    ultimately show ?thesis
      using False
      by (simp add: torrentHash_def validAt_def handleAt_def session_torrentHash_def row_table_def Let_def
          split_beta row_simps)
  qed
  show "row_table (snd (torrentHash i s)) = row_table s"
    by (simp add: torrentHash_def Let_def split_beta split: option.split)
qed

lemma findHash_table:
  "fst (t_findHash hash is s) = session_find (row_table s) hash is
    \<and> row_table (snd (t_findHash hash is s)) = row_table s"
proof (induction "is" arbitrary: s)
  case (Cons i "is")
  from Cons.IH [of "snd (torrentHash i s)"] show ?case
    by (simp add: split_beta Let_def torrentHash_table)
qed simp


section \<open>Alerts in order\<close>

text \<open>One round after another of \<open>processAlerts\<close>; each may find new alerts popped.\<close>

definition rounds :: "(nat \<Rightarrow> bool) \<Rightarrow> int \<Rightarrow> (bool \<times> TAlert list) list \<Rightarrow> AlertQueue \<times> SessionT \<Rightarrow> AlertQueue \<times> SessionT" where
  "rounds pok now rs qs = fold (\<lambda>(closing, popped). processAlerts pok now closing popped) rs qs"

lemma no_renamed:
  "\<forall>a \<in> set as. \<forall>h. a \<noteq> RenamedA h \<Longrightarrow>
     fold (take_alert pok now) as ([], s) = ([], snd (fold (take_alert pok now) as ([], s)))"
proof (induction as arbitrary: s)
  case (Cons a as)
  have "fst (take_alert pok now a ([], s)) = []"
    using Cons.prems by (simp add: take_alert_def Let_def split: TAlert.split)
  then have "take_alert pok now a ([], s) = ([], snd (take_alert pok now a ([], s)))"
    by (metis prod.collapse)
  with Cons show ?case by (metis fold_simps(2) list.set_intros(2))
qed simp

lemma one_round:
  assumes "aq_drain q \<noteq> []" "\<forall>a \<in> set (aq_drain q). \<forall>h. a \<noteq> RenamedA h"
  shows "aq_drain (fst (processAlerts pok now closing popped (q, s))) = drop kMaxPerTick (aq_drain q)
     \<and> snd (processAlerts pok now closing popped (q, s)) =
         snd (fold (take_alert pok now) (take kMaxPerTick (aq_drain q)) ([], s))"
proof -
  have n: "take (min (length (aq_drain q)) kMaxPerTick) (aq_drain q) = take kMaxPerTick (aq_drain q)"
    "drop (min (length (aq_drain q)) kMaxPerTick) (aq_drain q) = drop kMaxPerTick (aq_drain q)"
    by (simp_all add: min_def)
  have "\<forall>a \<in> set (take kMaxPerTick (aq_drain q)). \<forall>h. a \<noteq> RenamedA h"
    using assms(2) by (auto dest: in_set_takeD)
  from no_renamed [OF this, of pok now s]
  obtain s' where f: "fold (take_alert pok now) (take kMaxPerTick (aq_drain q)) ([], s) = ([], s')" by blast
  have "(case (q, s) of (q, s) \<Rightarrow> (if aq_drain q = [] then popped else aq_drain q)) = aq_drain q"
    using assms(1) by simp
  then show ?thesis
    using assms(1) n f by (simp add: processAlerts_def Let_def)
qed


section \<open>Totals\<close>

lemma sum_payload_fold:
  fixes get :: "TorStatus \<Rightarrow> int"
  shows "fst (fold (\<lambda>h (acc, s). if t_valid s h then let (st, s1) = cachedStatus h s in (acc + get st, s1)
          else (acc, s)) hs (n, s)) =
     n + (\<Sum>h\<leftarrow>hs. if t_valid s h then get (seen s h) else 0)"
proof (induction hs arbitrary: n s)
  case (Cons h hs)
  have "(\<Sum>g\<leftarrow>hs. if t_valid (snd (cachedStatus h s)) g then get (seen (snd (cachedStatus h s)) g) else 0) =
      (\<Sum>g\<leftarrow>hs. if t_valid s g then get (seen s g) else 0)"
    by (simp add: row_simps cong: if_cong)
  with Cons show ?case by (simp add: split_beta Let_def row_simps)
qed simp

lemma sum_payload_eq:
  "fst (sum_payload get s) = (\<Sum>h\<leftarrow>t_torrents s. if t_valid s h then get (seen s h) else 0)"
  by (simp add: sum_payload_def sum_payload_fold)

lemma global_base:
  "t_globalDownBase (snd (sum_payload get s)) = t_globalDownBase s"
  "t_globalUpBase (snd (sum_payload get s)) = t_globalUpBase s"
proof -
  define step where "step = (\<lambda>h (acc, s). if t_valid s h then let (st, s1) = cachedStatus h s in (acc + get st, s1)
        else (acc, s))"
  have one: "t_globalDownBase (snd (step h x)) = t_globalDownBase (snd x)
     \<and> t_globalUpBase (snd (step h x)) = t_globalUpBase (snd x)" for h x
    by (simp add: step_def split_beta Let_def cachedStatus_def split: option.split)
  have "t_globalDownBase (snd (fold step hs x)) = t_globalDownBase (snd x)
     \<and> t_globalUpBase (snd (fold step hs x)) = t_globalUpBase (snd x)" for hs x
    by (induction hs arbitrary: x) (simp_all add: one)
  then show "t_globalDownBase (snd (sum_payload get s)) = t_globalDownBase s"
    "t_globalUpBase (snd (sum_payload get s)) = t_globalUpBase s"
    by (simp_all add: sum_payload_def step_def)
qed

lemma global_totals:
  "fst (globalDownloaded s) = t_globalDownBase s
     + (\<Sum>h\<leftarrow>t_torrents s. if t_valid s h then st_payloadDown (seen s h) else 0)"
  "fst (globalUploaded s) = t_globalUpBase s
     + (\<Sum>h\<leftarrow>t_torrents s. if t_valid s h then st_payloadUp (seen s h) else 0)"
  by (simp_all add: globalDownloaded_def globalUploaded_def split_beta Let_def global_base sum_payload_eq)

text \<open>What a removal leaves alone.\<close>

definition core :: "SessionT \<Rightarrow> SessionNet \<times> (nat \<Rightarrow> LtTorrent) \<times> (nat \<Rightarrow> TorStatus option) \<times> int \<times> int" where
  "core s = (t_net s, t_lt s, t_cache s, t_globalDownBase s, t_globalUpBase s)"

lemma core_history: "core (to_history now hash st s) = core s"
  by (simp add: core_def to_history_def pruneRemovedHistory_def forget_history_def Let_def)

lemma core_parts:
  "core (remember_removed hash s) = core s" "core (forget_tags hash s) = core s"
  "core (forget_forced hash s) = core s" "core (forget_completed hash s) = core s"
  "core (forget_limits hash s) = core s" "core (s\<lparr>t_stopAfter := a, t_maxSeed := b\<rparr>) = core s"
  by (simp_all add: core_def remember_removed_def forget_tags_def forget_forced_def
      forget_completed_def forget_limits_def Let_def t_drop_def t_put_def saveCompletedSet_def)

lemma core_forget: "core (forget_hash hash s) = core s"
  by (simp add: forget_hash_def core_parts)

lemma core_schedule: "core (scheduleRemoval perm targets n s) = core s"
  by (simp add: core_def scheduleRemoval_def addPendingTargets_def Let_def t_put_def)

lemma removeTorrent_core:
  assumes "handleAt i s = Some h" "t_valid s h"
  shows "t_torrents (removeTorrent now i del perm s) = take (nat i) (t_torrents s) @ drop (Suc (nat i)) (t_torrents s)"
    "g \<noteq> h \<Longrightarrow> t_valid (removeTorrent now i del perm s) g = t_valid s g"
    "g \<noteq> h \<Longrightarrow> seen (removeTorrent now i del perm s) g = seen s g"
    "t_globalDownBase (removeTorrent now i del perm s) = t_globalDownBase s + st_payloadDown (live s h)"
    "t_globalUpBase (removeTorrent now i del perm s) = t_globalUpBase s + st_payloadUp (live s h)"
proof -
  define hash where "hash = (if st_hasMetadata (live s h) then st_hash (live s h)
      else case t_magnetHashes s h of Some x \<Rightarrow> x | None \<Rightarrow> st_hash (live s h))"
  define s1 where "s1 = forget_hash hash (to_history now hash (live s h) s)"
  define s2 where "s2 = forget_handle h (s1\<lparr>t_globalDownBase := t_globalDownBase s1 + st_payloadDown (live s h),
      t_globalUpBase := t_globalUpBase s1 + st_payloadUp (live s h)\<rparr>)"
  define s3 where "s3 = (if del then h_pause h s2 else s2)"
  define s4 where "s4 = on_net (\<lambda>e. e\<lparr>sn_rt := (sn_rt e)(h := (sn_rt e h)\<lparr>rt_valid := False\<rparr>)\<rparr>) s3"
  define targets where "targets = (if del then removal_targets hash (live s h) (t_lt s2 h) else [])"
  define s5 where "s5 = (case removalDisposition del perm targets of
      TrashData \<Rightarrow> scheduleRemoval False targets 0 s4 | PermanentDelete \<Rightarrow> scheduleRemoval True targets 0 s4
    | KeepData \<Rightarrow> s4)"
  have e: "removeTorrent now i del perm s = drop_row i s5"
    using assms
    unfolding removeTorrent_def s5_def targets_def s4_def s3_def s2_def s1_def hash_def Let_def by simp
  have c1: "core s1 = core s" by (simp add: s1_def core_forget core_history)
  have c5: "core s5 = core s4" by (simp add: s5_def core_schedule split: RemovalDisposition.split)
  have net4: "sn_torrents (t_net s4) = sn_torrents (t_net s)"
    and valid4: "\<And>g. g \<noteq> h \<Longrightarrow> rt_valid (sn_rt (t_net s4) g) = rt_valid (sn_rt (t_net s) g)"
    and paused4: "\<And>g. g \<noteq> h \<Longrightarrow> rt_paused (sn_rt (t_net s4) g) = rt_paused (sn_rt (t_net s) g)"
    and rest4: "t_lt s4 = t_lt s" "t_cache s4 = (t_cache s)(h := None)"
      "t_globalDownBase s4 = t_globalDownBase s + st_payloadDown (live s h)"
      "t_globalUpBase s4 = t_globalUpBase s + st_payloadUp (live s h)"
    using c1 by (auto simp: s4_def s3_def s2_def core_def forget_handle_def on_net_def h_pause_def pause_torrent_def)
  have r: "t_net (drop_row i s5) = (t_net s5)\<lparr>sn_torrents := take (nat i) (sn_torrents (t_net s5))
      @ drop (Suc (nat i)) (sn_torrents (t_net s5))\<rparr>" "core (drop_row i s5) = (t_net (drop_row i s5), snd (core s5))"
    by (simp_all add: drop_row_def t_emit_def on_net_def core_def)
  show "t_torrents (removeTorrent now i del perm s) = take (nat i) (t_torrents s) @ drop (Suc (nat i)) (t_torrents s)"
    "t_globalDownBase (removeTorrent now i del perm s) = t_globalDownBase s + st_payloadDown (live s h)"
    "t_globalUpBase (removeTorrent now i del perm s) = t_globalUpBase s + st_payloadUp (live s h)"
    using r c5 net4 rest4 by (simp_all add: e t_torrents_def core_def)
  assume "g \<noteq> h"
  then show "t_valid (removeTorrent now i del perm s) g = t_valid s g"
    using r c5 valid4 by (simp add: e t_valid_def core_def)
  moreover have "t_paused (removeTorrent now i del perm s) g = t_paused s g"
    using r c5 paused4 \<open>g \<noteq> h\<close> by (simp add: e t_paused_def core_def)
  ultimately show "seen (removeTorrent now i del perm s) g = seen s g"
    using r c5 rest4 \<open>g \<noteq> h\<close> by (simp add: e seen_def live_def core_def split: option.split)
qed

text \<open>
  Removing a torrent keeps the totals. What it downloaded and uploaded is moved to the base the
  totals start from, so that the totals shown, and saved, are the same before and after, provided
  the session has seen its latest counts.
\<close>

theorem removal_keeps_totals:
  assumes "distinct (t_torrents s)" "handleAt i s = Some h" "t_valid s h"
    "st_payloadDown (seen s h) = st_payloadDown (live s h)" "st_payloadUp (seen s h) = st_payloadUp (live s h)"
  shows "fst (globalDownloaded (removeTorrent now i del perm s)) = fst (globalDownloaded s)
     \<and> fst (globalUploaded (removeTorrent now i del perm s)) = fst (globalUploaded s)"
proof -
  let ?r = "removeTorrent now i del perm s" and ?xs = "take (nat i) (t_torrents s)"
    and ?ys = "drop (Suc (nat i)) (t_torrents s)"
  note c = removeTorrent_core [OF assms(2,3), where now = now and del = del and perm = perm]
  have split: "t_torrents s = ?xs @ h # ?ys"
    using assms(2) by (auto simp: handleAt_def id_take_nth_drop split: if_split_asm)
  then have out: "h \<notin> set ?xs \<union> set ?ys" using assms(1) by (metis Un_iff distinct_append distinct.simps(2) disjoint_iff list.set_intros(1))
  have same: "(\<Sum>g\<leftarrow>zs. if t_valid ?r g then get (seen ?r g) else 0) = (\<Sum>g\<leftarrow>zs. if t_valid s g then get (seen s g) else (0::int))"
    if "set zs \<subseteq> set ?xs \<union> set ?ys" for zs and get :: "TorStatus \<Rightarrow> int"
  proof -
    have "x \<noteq> h" if "x \<in> set zs" for x using that \<open>set zs \<subseteq> _\<close> out by auto
    then show ?thesis by (intro arg_cong [where f = sum_list] map_cong) (simp_all add: c(2,3))
  qed
  have sums: "(\<Sum>g\<leftarrow>t_torrents ?r. if t_valid ?r g then get (seen ?r g) else 0) + get (seen s h) =
      (\<Sum>g\<leftarrow>t_torrents s. if t_valid s g then get (seen s g) else 0)" for get :: "TorStatus \<Rightarrow> int"
  proof -
    have "(\<Sum>g\<leftarrow>t_torrents ?r. if t_valid ?r g then get (seen ?r g) else 0) =
        (\<Sum>g\<leftarrow>?xs. if t_valid s g then get (seen s g) else 0) + (\<Sum>g\<leftarrow>?ys. if t_valid s g then get (seen s g) else 0)"
      unfolding c(1) map_append sum_list_append by (simp only: same Un_upper1 Un_upper2)
    moreover have "(\<Sum>g\<leftarrow>t_torrents s. if t_valid s g then get (seen s g) else 0) =
        (\<Sum>g\<leftarrow>?xs. if t_valid s g then get (seen s g) else 0) + get (seen s h)
        + (\<Sum>g\<leftarrow>?ys. if t_valid s g then get (seen s g) else 0)"
      by (subst split) (simp add: assms(3))
    ultimately show ?thesis by simp
  qed
  show ?thesis
    using sums [of st_payloadDown] sums [of st_payloadUp] c(4,5) assms(4,5)
    by (simp add: global_totals)
qed

section \<open>At concrete sessions\<close>


theorem removal_keeps_totals_witness:
  "fst (globalDownloaded (removeTorrent 5 0 False False sample_session)) = fst (globalDownloaded sample_session)"
proof -
  have "handleAt 0 sample_session = Some 1" by (simp add: handleAt_def sample_simps)
  then show ?thesis using removal_keeps_totals [of sample_session 0 1] by (simp add: sample_simps)
qed

end
