(* ===== verification/SessionKeep.thy ===== *)
theory SessionKeep
  imports SessionSamples
begin

text \<open>
  The properties of keeping torrents: what is saved for the next start and what is not, names of
  files, magnets that turn out private, the isolation of failing torrents, and the order in which
  alerts are handled.
\<close>

section \<open>Saving the torrents of the session\<close>

text \<open>The fields that decide whether a torrent is there after a restart.\<close>

definition kept :: "SessionT \<Rightarrow> string set \<times> (string \<Rightarrow> string option)" where
  "kept s = (t_removedHashes s, t_resumeFiles s)"

named_theorems kept_simps

lemma kept_basic [kept_simps]:
  "kept (t_emit g s) = kept s" "kept (h_pause h s) = kept s" "kept (h_resume h s) = kept s"
  "kept (h_save h s) = kept s" "kept (on_lt h f s) = kept s" "kept (on_net k s) = kept s"
  "kept (t_put key v s) = kept s" "kept (t_drop key s) = kept s" "kept (snd (cachedStatus h s)) = kept s"
  "kept (move_storage h p s) = kept s" "kept (put_group grp m s) = kept s"
  "kept (s\<lparr>t_lastResumeSave := a\<rparr>) = kept s" "kept (s\<lparr>t_resumeOutstanding := b\<rparr>) = kept s"
  "kept (s\<lparr>t_cache := c\<rparr>) = kept s" "kept (s\<lparr>t_pendingStrip := d\<rparr>) = kept s"
  "kept (s\<lparr>t_portStatus := e\<rparr>) = kept s" "kept (s\<lparr>t_listenOk := l\<rparr>) = kept s"
  "kept (s\<lparr>t_portmapOk := l\<rparr>) = kept s" "kept (s\<lparr>t_queuePaused := q\<rparr>) = kept s"
  "kept (s\<lparr>t_intendedPath := i\<rparr>) = kept s" "kept (s\<lparr>t_stats := t\<rparr>) = kept s"
  "kept (s\<lparr>t_faultCount := fc\<rparr>) = kept s" "kept (s\<lparr>t_faultLastAt := fc\<rparr>) = kept s"
  "kept (s\<lparr>t_lastTorrentError := fc\<rparr>) = kept s" "kept (s\<lparr>t_lastFileError := b\<rparr>) = kept s"
  "kept (s\<lparr>t_securityWarned := w\<rparr>) = kept s" "kept (s\<lparr>t_lt := lt\<rparr>) = kept s"
  by (simp_all add: kept_def t_emit_def h_pause_def h_resume_def h_save_def on_lt_def on_net_def t_put_def
      t_drop_def cachedStatus_def move_storage_def put_group_def split: option.split)

lemma kept_parts [kept_simps]:
  "kept (scanTorrentForThreats h name s) = kept s" "kept (noteTorrentFault now h name s) = kept s"
  "kept (stageResumeSave now h s) = kept s" "kept (updatePortStatus s) = kept s"
  "kept (lt_recheck h s) = kept s" "kept (resume_answered s) = kept s"
  "kept (onStagedMetadata h s) = kept s" "kept (executeOnComplete name p x n s) = kept s"
  "kept (pause_if_downloading h s) = kept s"
  by (simp_all add: scanTorrentForThreats_def saveSecurityWarned_def noteTorrentFault_def stageResumeSave_def
      updatePortStatus_def lt_recheck_def resume_answered_def onStagedMetadata_def executeOnComplete_def
      pause_if_downloading_def Let_def split_beta kept_simps split: option.split)

lemma kept_fold: "(\<And>x s. kept (f x s) = kept s) \<Longrightarrow> kept (fold f xs s) = kept s"
  by (induction xs arbitrary: s) simp_all

lemma kept_state_one [kept_simps]: "kept (state_one pok hs s) = kept s"
  by (simp add: state_one_def Let_def split_beta kept_simps)

lemma kept_finished [kept_simps]: "kept (onTorrentFinished h name s) = kept s"
  by (simp add: onTorrentFinished_def Let_def kept_simps)

lemma kept_errors [kept_simps]:
  "kept (onTorrentError now h msg s) = kept s" "kept (onFileError now h msg s) = kept s"
  by (simp_all add: onTorrentError_def onFileError_def Let_def kept_simps kept_fold)

text \<open>A hash that was removed in this session and has no resume file.\<close>

definition lost :: "string \<Rightarrow> SessionT \<Rightarrow> bool" where
  "lost hash s \<longleftrightarrow> hash \<in> t_removedHashes s \<and> t_resumeFiles s hash = None"

lemma lost_kept: "kept s' = kept s \<Longrightarrow> lost hash s' = lost hash s"
  by (simp add: kept_def lost_def)

lemma lost_metadata: "lost hash s \<Longrightarrow> lost hash (handleMetadata now h s)"
proof -
  assume "lost hash s"
  then have "lost hash (if lh_files (t_lt s h) \<noteq> None then on_lt h (\<lambda>t. private_magnet (suffix_all t)) s else s)"
    by (simp add: lost_kept [OF kept_basic(5)])
  then have "lost hash (rekey_magnet h (if lh_files (t_lt s h) \<noteq> None
      then on_lt h (\<lambda>t. private_magnet (suffix_all t)) s else s))"
    by (auto simp: rekey_magnet_def Let_def lost_def split: option.split)
  then show ?thesis
    by (simp add: handleMetadata_def Let_def lost_kept [OF kept_parts(1)] lost_kept [OF kept_parts(3)])
qed

lemma lost_resume_ready: "lost hash s \<Longrightarrow> lost hash (onResumeDataReady hash' buf ok s)"
  unfolding onResumeDataReady_def
  by (subst lost_kept [OF kept_parts(6)]) (auto simp: persistResumeAlert_def lost_def)

lemma kept_handlers [kept_simps]:
  "kept (onStorageMovedFailed h msg s) = kept s" "kept (onListenFailed msg s) = kept s"
  "kept (onListenSucceeded s) = kept s" "kept (onPortmapSucceeded s) = kept s"
  "kept (onPortmapFailed s) = kept s" "kept (onMetadataFailed msg s) = kept s"
  "kept (onResumeDataFailed s) = kept s" "kept (onPieceFinished now h p s) = kept s"
  "kept (onFastresumeRejected h s) = kept s" "kept (onTorrentChecked h s) = kept s"
  "kept (onFileCompleted h k s) = kept s"
  by (simp_all add: onStorageMovedFailed_def onListenFailed_def onListenSucceeded_def onPortmapSucceeded_def
    onPortmapFailed_def onMetadataFailed_def onResumeDataFailed_def onPieceFinished_def
    onFastresumeRejected_def onTorrentChecked_def onFileCompleted_def Let_def kept_simps split: option.split)

lemma lost_from: "lost hash s \<Longrightarrow> kept s' = kept s \<Longrightarrow> lost hash s'"
  using lost_kept by blast

lemma lost_alert: "lost hash s \<Longrightarrow> lost hash (on_alert pok now a s)"
proof (cases a)
  case (StateUpdateA b)
  assume "lost hash s"
  then show ?thesis
    using StateUpdateA lost_kept [OF kept_fold [of "state_one pok", OF kept_state_one]]
    by (simp add: onStateUpdate_def)
next
  case (ResumeReadyA h hash' buf ok)
  assume "lost hash s"
  then show ?thesis using ResumeReadyA by (simp add: lost_resume_ready)
next
  case (MetadataA h)
  assume "lost hash s"
  then show ?thesis
    using MetadataA by (auto simp: onMetadataReceived_def lost_metadata lost_kept [OF kept_parts(7)])
qed (erule lost_from, simp add: kept_simps)+

lemma kept_adding [kept_simps]:
  "kept (lt_take h t rt s) = kept s" "kept (push_torrent h s) = kept s"
  "kept (incrementTorrentCount s) = kept s" "kept (snd (temp_path dirOk hash p (atp, s))) = kept s"
  "kept (save_one now h s) = kept s" "kept (snd (sum_payload get s)) = kept s"
proof -
  show "kept (incrementTorrentCount s) = kept s"
    by (simp add: incrementTorrentCount_def Let_def kept_simps)
  show "kept (snd (sum_payload get s)) = kept s"
  proof -
    define step where "step = (\<lambda>h (acc, s). if t_valid s h then let (st, s1) = cachedStatus h s in (acc + get st, s1)
        else (acc, s))"
    have one: "kept (snd (step h x)) = kept (snd x)" for h x
      by (simp add: step_def split_beta Let_def kept_simps)
    have "kept (snd (fold step hs x)) = kept (snd x)" for hs x
      by (induction hs arbitrary: x) (simp_all add: one)
    then show ?thesis by (simp add: sum_payload_def step_def)
  qed
qed (simp_all add: lt_take_def push_torrent_def temp_path_def save_one_def Let_def split_beta kept_simps)

lemma kept_save [kept_simps]: "kept (saveResumeData now s) = kept s"
  by (simp add: saveResumeData_def Let_def split_beta kept_fold kept_simps globalDownloaded_def globalUploaded_def)

lemma kept_add [kept_simps]: "kept (addTorrentInfo dirOk regex mk now ti p prios paused s) = kept s"
  by (simp add: addTorrentInfo_def add_prepared_def Let_def split_beta kept_simps split: LtAdd.split)

text \<open>What goes on in a session after a torrent was removed, the same torrent being added again included.\<close>

datatype KeepOp =
    KAlert "nat \<Rightarrow> bool" int TAlert
  | KSave int
  | KPause int
  | KResume int
  | KAdd TorInfo string "int list" bool int

fun keep_op ::
  "(string \<Rightarrow> bool) \<Rightarrow> (string \<Rightarrow> (string \<Rightarrow> bool) option) \<Rightarrow> (AddParams \<Rightarrow> LtAdd) \<Rightarrow> KeepOp
     \<Rightarrow> SessionT \<Rightarrow> SessionT" where
  "keep_op dirOk regex mk (KAlert pok now a) s = on_alert pok now a s"
| "keep_op dirOk regex mk (KSave now) s = saveResumeData now s"
| "keep_op dirOk regex mk (KPause i) s = pauseTorrent i s"
| "keep_op dirOk regex mk (KResume i) s = resumeTorrent i s"
| "keep_op dirOk regex mk (KAdd ti p prios paused now) s = addTorrentInfo dirOk regex mk now ti p prios paused s"

lemma kept_rows [kept_simps]:
  "kept (pauseTorrent i s) = kept s" "kept (resumeTorrent i s) = kept s"
  by (simp_all add: pauseTorrent_def resumeTorrent_def unmarkCompleted_def saveCompletedSet_def Let_def split_beta
      kept_simps split: option.split) (auto simp: kept_def t_emit_def t_put_def h_resume_def on_net_def on_lt_def
      cachedStatus_def split: option.split)

lemma lost_run: "lost hash s \<Longrightarrow> lost hash (fold (keep_op dirOk regex mk) ops s)"
proof (induction ops arbitrary: s)
  case (Cons op ops)
  have "lost hash (keep_op dirOk regex mk op s)"
    by (cases op) (use Cons.prems in \<open>auto simp: lost_alert intro: lost_from simp: kept_simps\<close>)
  then show ?case using Cons.IH by simp
qed simp

text \<open>The hash under which a torrent is removed.\<close>

definition removal_hash :: "nat \<Rightarrow> SessionT \<Rightarrow> string" where
  "removal_hash h s =
     (if st_hasMetadata (live s h) then st_hash (live s h)
      else case t_magnetHashes s h of Some x \<Rightarrow> x | None \<Rightarrow> st_hash (live s h))"

lemma to_history_keeps:
  "t_removedHashes (to_history now hash st s) = t_removedHashes s"
  "t_resumeFiles (to_history now hash st s) = (t_resumeFiles s)(hash := None)"
  by (simp_all add: to_history_def pruneRemovedHistory_def forget_history_def Let_def)

lemma forget_hash_keeps:
  "t_resumeFiles (forget_hash hash s) = t_resumeFiles s"
  "t_removedHashes (forget_hash hash s) =
     (if 500 < card (insert hash (t_removedHashes s)) then {} else insert hash (t_removedHashes s))"
  by (simp_all add: forget_hash_def remember_removed_def forget_tags_def forget_forced_def forget_completed_def
      forget_limits_def Let_def t_drop_def t_put_def saveCompletedSet_def)

lemma kept_removing [kept_simps]:
  "kept (forget_handle h s) = kept s" "kept (drop_row i s) = kept s"
  "kept (s\<lparr>t_globalDownBase := d, t_globalUpBase := u\<rparr>) = kept s"
  by (simp_all add: forget_handle_def drop_row_def kept_def on_net_def t_emit_def)

lemma kept_schedule [kept_simps]: "kept (scheduleRemoval perm targets n s) = kept s"
  by (simp add: scheduleRemoval_def addPendingTargets_def Let_def kept_def t_put_def)

lemma removal_lost:
  assumes "handleAt i s = Some h" "t_valid s h" "finite (t_removedHashes s)" "card (t_removedHashes s) < 500"
  shows "lost (removal_hash h s) (removeTorrent now i del perm s)"
proof -
  let ?hash = "removal_hash h s" and ?s1 = "forget_hash (removal_hash h s)
    (to_history now (removal_hash h s) (live s h) s)"
  have "card (insert ?hash (t_removedHashes s)) \<le> 500"
    using card_insert_le_m1 [of 500 "t_removedHashes s" ?hash] assms(3,4) by simp
  then have "lost ?hash ?s1"
    by (simp add: lost_def forget_hash_keeps to_history_keeps)
  moreover have "kept (removeTorrent now i del perm s) = kept ?s1"
    using assms(1,2)
    by (cases "st_hasMetadata (live s h)")
       (simp_all add: removeTorrent_def removal_hash_def Let_def kept_simps split: RemovalDisposition.split)
  ultimately show ?thesis by (rule lost_from)
qed

text \<open>
  A torrent that is removed and added again in the same session is not saved. Its hash stays in the
  set of removed hashes, which only the undo of a removal leaves, so that every resume data alert for
  it is dropped: whatever is added, saved, paused or reported until the app ends, there is no resume
  file for the hash, and the next start does not load the torrent.
\<close>

theorem readded_torrent_not_saved:
  assumes "handleAt i s = Some h" "t_valid s h" "finite (t_removedHashes s)" "card (t_removedHashes s) < 500"
  shows "let s' = fold (keep_op dirOk regex mk) ops (removeTorrent now i del perm s) in
     t_resumeFiles s' (removal_hash h s) = None
     \<and> load_file disk mid rr mk' now' (removal_hash h s) s' = s'"
  using lost_run [OF removal_lost [OF assms], of dirOk regex mk ops now del perm]
  by (simp add: Let_def lost_def load_file_def)

section \<open>Completed at the start\<close>

text \<open>
  A file stored under its incomplete name with its full size: the reconciliation keeps that name and
  calls the file whole.
\<close>

lemma strip_suffixed [simp]: "stripIncompleteSuffix (p @ kIncompleteSuffix) = (p, True)"
  by (simp add: stripIncompleteSuffix_def kIncompleteSuffix_def)

lemma reconcile_full:
  assumes "renamed i = Some (p @ kIncompleteSuffix)"
    "disk (dir_filePath (ap_savePath atp) p @ kIncompleteSuffix) = Some (snd (files ! i))"
  shows "fst (snd (reconcile_file disk mid atp files i (renamed, full, absent))) = full"
  using assms by (simp add: reconcile_file_def Let_def reconcileIncompleteSuffix_def)

lemma reconcile_renames:
  "j \<noteq> i \<Longrightarrow> fst (reconcile_file disk mid atp files i acc) j = fst acc j"
  by (simp add: reconcile_file_def Let_def split_beta)

lemma reconcile_all_full:
  assumes "\<forall>i < length files. \<exists>p. ap_renamed atp i = Some (p @ kIncompleteSuffix)
     \<and> disk (dir_filePath (ap_savePath atp) p @ kIncompleteSuffix) = Some (snd (files ! i))"
    "files \<noteq> []"
  shows "fst (snd (reconcile_files disk mid atp files))"
proof -
  have "fst (snd (fold (reconcile_file disk mid atp files) is (renamed, full, absent))) = full"
    if "distinct is" "\<forall>i \<in> set is. i < length files \<and> renamed i = ap_renamed atp i" for "is" renamed full absent
    using that
  proof (induction "is" arbitrary: renamed full absent)
    case (Cons i "is")
    obtain p where p: "renamed i = Some (p @ kIncompleteSuffix)"
      "disk (dir_filePath (ap_savePath atp) p @ kIncompleteSuffix) = Some (snd (files ! i))"
      using Cons.prems(2) assms(1) by (auto dest!: spec [of _ i])
    obtain r f a where x: "reconcile_file disk mid atp files i (renamed, full, absent) = (r, f, a)"
      by (metis prod_cases3)
    have "f = full" using reconcile_full [of renamed i p disk atp files mid full absent] p x by simp
    moreover have "r j = renamed j" if "j \<in> set is" for j
      using reconcile_renames [of j i disk mid atp files "(renamed, full, absent)"] x that Cons.prems(1) by auto
    ultimately show ?case using Cons.IH [of r f a] Cons.prems x by simp
  qed simp
  from this [of "[0..<length files]" "ap_renamed atp" "files \<noteq> []" False] assms(2) show ?thesis
    by (simp add: reconcile_files_def)
qed

lemma load_params_full:
  assumes "ap_ti atp = Some ti" "ti_files ti \<noteq> []"
    "\<forall>i < length (ti_files ti). \<exists>p. ap_renamed atp i = Some (p @ kIncompleteSuffix)
     \<and> disk (dir_filePath (ap_savePath atp) p @ kIncompleteSuffix) = Some (snd (ti_files ti ! i))"
  shows "best_hash (ti_hash ti) \<in> t_completedAtStartup (snd (load_params disk mid recovered (atp, s)))"
proof -
  define a where "a = private_flags (atp\<lparr>ap_autoManaged := False\<rparr>)"
  have a: "ap_ti a = Some ti" "ap_renamed a = ap_renamed atp" "ap_savePath a = ap_savePath atp"
    using assms(1) by (simp_all add: a_def private_flags_def)
  have "fst (snd (reconcile_files disk (mid ti) a (ti_files ti)))"
    by (rule reconcile_all_full) (use assms a in auto)
  then show ?thesis
    by (simp add: load_params_def a_def [symmetric] a Let_def split_beta)
qed

text \<open>
  A download that is restarted does not report its completion. When the files of an unfinished
  torrent already have their full size on disk under their incomplete names, as preallocated files
  have from the start and sparse files from the moment their last piece arrives, loading takes the
  torrent for one that was complete at the start, whatever pieces it has; when it then finishes, no
  completion is announced and the user's command is not run.
\<close>

theorem restart_mutes_completion:
  assumes "ap_ti atp = Some ti" "ti_files ti \<noteq> []"
    "\<forall>i < length (ti_files ti). \<exists>p. ap_renamed atp i = Some (p @ kIncompleteSuffix)
     \<and> disk (dir_filePath (ap_savePath atp) p @ kIncompleteSuffix) = Some (snd (ti_files ti ! i))"
    "t_completedAtStartup s' = t_completedAtStartup (snd (load_params disk mid False (atp, s)))"
    "st_hash (live s' h) = best_hash (ti_hash ti)"
  shows "set (drop (length (t_signals s')) (t_signals (onTorrentFinished h name s')))
     \<subseteq> {ExtractArchives (st_savePath (live s' h)) name (st_hash (live s' h))}"
proof (cases "t_valid s' h")
  case True
  have "best_hash (ti_hash ti) \<in> t_completedAtStartup s'"
    using load_params_full [OF assms(1-3)] assms(4) by simp
  then show ?thesis
    using True assms(5)
    by (auto simp: onTorrentFinished_def shouldEmitTorrentFinished_def Let_def move_storage_def on_lt_def
        h_pause_def on_net_def t_emit_def)
qed (simp add: onTorrentFinished_def)

section \<open>File names\<close>

lemma with_suffix_same: "withIncompleteSuffix p = p \<or> withIncompleteSuffix p = p @ kIncompleteSuffix"
  by (simp add: withIncompleteSuffix_def)

lemma foldl_suffix:
  "foldl (\<lambda>m i. let original = g i; suffixed = withIncompleteSuffix original
          in if suffixed = original then m else m(i \<mapsto> suffixed)) m0 is j =
     (if j \<in> set is \<and> withIncompleteSuffix (g j) \<noteq> g j then Some (withIncompleteSuffix (g j)) else m0 j)"
  by (induction "is" arbitrary: m0) (auto simp: Let_def)

lemma applyIncompleteSuffix_names:
  "ap_ti atp = Some ti \<Longrightarrow> i < length (ti_files ti)
    \<Longrightarrow> withIncompleteSuffix (fst (ti_files ti ! i)) \<noteq> fst (ti_files ti ! i)
    \<Longrightarrow> ap_renamed (applyIncompleteSuffix atp) i = Some (withIncompleteSuffix (fst (ti_files ti ! i)))"
  by (simp add: applyIncompleteSuffix_def foldl_suffix)

lemma layout_ti: "ap_ti (applyContentLayout s atp) = ap_ti atp" "ap_ti (applyExcludedPatterns regex s atp) = ap_ti atp"
  by (simp_all add: applyContentLayout_def applyExcludedPatterns_def Let_def split: option.split)

text \<open>
  The content layout setting has no effect on an added torrent. The names it plans are overwritten a
  moment later by the ones with the suffix of incomplete files, which are made from the original
  paths: whatever the layout, every file is added under its original path and the suffix.
\<close>

theorem suffix_overrides_layout:
  assumes "ap_ti atp = Some ti" "i < length (ti_files ti)"
    "fst (stripIncompleteSuffix (fst (ti_files ti ! i))) = fst (ti_files ti ! i)"
  shows "ap_renamed (applyIncompleteSuffix (applyExcludedPatterns regex s (applyContentLayout s atp))) i =
     Some (fst (ti_files ti ! i) @ kIncompleteSuffix)"
proof -
  have "withIncompleteSuffix (fst (ti_files ti ! i)) = fst (ti_files ti ! i) @ kIncompleteSuffix"
    using assms(3)
    by (auto simp: withIncompleteSuffix_def stripIncompleteSuffix_def kIncompleteSuffix_def split: if_split_asm)
  then show ?thesis
    using applyIncompleteSuffix_names [of "applyExcludedPatterns regex s (applyContentLayout s atp)" ti i] assms(1,2)
    by (simp add: layout_ti kIncompleteSuffix_def)
qed

section \<open>A magnet that turns out private\<close>

lemma ends_with_suffix: "ends_with ''.!bt'' p \<longleftrightarrow> withIncompleteSuffix p = p"
proof -
  have four: "length ''.!bt'' = 4" by simp
  show ?thesis
    unfolding ends_with_def four withIncompleteSuffix_def kIncompleteSuffix_def by simp
qed

definition suffixed :: "LtFile \<Rightarrow> LtFile" where
  "suffixed f = f\<lparr>lf_path := withIncompleteSuffix (lf_path f)\<rparr>"

lemma suffix_step:
  assumes "lh_files t = Some fs" "i < length fs"
  shows "(case lh_files t of None \<Rightarrow> t
     | Some fs \<Rightarrow> if ends_with ''.!bt'' (lf_path (fs ! i)) then t
                  else rename_in i (lf_path (fs ! i) @ ''.!bt'') t) =
     t\<lparr>lh_files := Some (fs[i := suffixed (fs ! i)])\<rparr>"
proof (cases "withIncompleteSuffix (lf_path (fs ! i)) = lf_path (fs ! i)")
  case True
  then show ?thesis using assms by (simp add: ends_with_suffix suffixed_def)
next
  case False
  then have "withIncompleteSuffix (lf_path (fs ! i)) = lf_path (fs ! i) @ ''.!bt''"
    by (auto simp: withIncompleteSuffix_def kIncompleteSuffix_def split: if_split_asm)
  with False show ?thesis using assms by (simp add: ends_with_suffix suffixed_def rename_in_def)
qed

lemma suffix_all_eq: "lh_files t = Some fs \<Longrightarrow> suffix_all t = t\<lparr>lh_files := Some (map suffixed fs)\<rparr>"
proof -
  assume fs: "lh_files t = Some fs"
  define step where "step = (\<lambda>i t. case lh_files t of None \<Rightarrow> t
     | Some fs \<Rightarrow> if ends_with ''.!bt'' (lf_path (fs ! i)) then t
                  else rename_in i (lf_path (fs ! i) @ ''.!bt'') t)"
  have "k \<le> length fs \<Longrightarrow> fold step [0..<k] t =
      t\<lparr>lh_files := Some (map suffixed (take k fs) @ drop k fs)\<rparr>" for k
  proof (induction k)
    case (Suc k)
    let ?gs = "map suffixed (take k fs) @ drop k fs"
    have k: "k < length ?gs" "?gs ! k = fs ! k" using Suc.prems by (simp_all add: nth_append)
    have "step k (t\<lparr>lh_files := Some ?gs\<rparr>) = t\<lparr>lh_files := Some (?gs[k := suffixed (fs ! k)])\<rparr>"
      using suffix_step [of "t\<lparr>lh_files := Some ?gs\<rparr>" ?gs k] k by (simp add: step_def)
    moreover have "?gs[k := suffixed (fs ! k)] = map suffixed (take (Suc k) fs) @ drop (Suc k) fs"
      using Suc.prems by (simp add: list_update_append take_Suc_conv_app_nth Cons_nth_drop_Suc [symmetric])
    ultimately show ?case using Suc by simp
  qed (simp add: fs)
  from this [of "length fs"] fs show ?thesis
    by (simp add: suffix_all_def file_count_def step_def)
qed


section \<open>Failing torrents\<close>

text \<open>The faults of one torrent at the given times.\<close>

definition faults :: "nat \<Rightarrow> string \<Rightarrow> int list \<Rightarrow> SessionT \<Rightarrow> SessionT" where
  "faults h name ts s = fold (\<lambda>t s. noteTorrentFault t h name s) ts s"

definition fault_net :: "SessionT \<Rightarrow> SessionNet \<times> TSignal list \<times> (nat \<Rightarrow> LtTorrent)" where
  "fault_net s = (t_net s, t_signals s, t_lt s)"

lemma at_or_update: "at_or d (AList.update k v m) k' = (if k = k' then v else at_or d m k')"
  by (simp add: at_or_def update_conv)

text \<open>The count and the time of the last fault of a torrent.\<close>

definition fault_count :: "nat \<Rightarrow> SessionT \<Rightarrow> int" where
  "fault_count h s = at_or 0 (t_faultCount s) h"

definition fault_last :: "nat \<Rightarrow> SessionT \<Rightarrow> int" where
  "fault_last h s = at_or 0 (t_faultLastAt s) h"

lemma fault_below:
  assumes "t_valid s h" "(if 120 < now - fault_last h s then 0 else fault_count h s) < 7"
  shows "fault_net (noteTorrentFault now h name s) = fault_net s"
    "fault_count h (noteTorrentFault now h name s) = (if 120 < now - fault_last h s then 0 else fault_count h s) + 1"
    "fault_last h (noteTorrentFault now h name s) = now"
  using assms
  by (simp_all add: noteTorrentFault_def Let_def fault_net_def fault_count_def fault_last_def at_or_update
      split: if_split_asm)

lemma fault_net_valid: "fault_net s' = fault_net s \<Longrightarrow> t_valid s' h = t_valid s h"
  by (simp add: fault_net_def t_valid_def)

text \<open>The gaps between the times, \<open>prev\<close> being the time before the first.\<close>

fun gaps :: "int \<Rightarrow> int list \<Rightarrow> int list" where
  "gaps prev [] = []"
| "gaps prev (t # ts) = (t - prev) # gaps t ts"

lemma clustered_below:
  "t_valid s h \<Longrightarrow> 0 \<le> fault_count h s \<Longrightarrow> fault_count h s + int (length ts) < 8
    \<Longrightarrow> fault_net (faults h name ts s) = fault_net s"
proof (induction ts arbitrary: s)
  case (Cons t ts)
  let ?s1 = "noteTorrentFault t h name s"
  have b: "(if 120 < t - fault_last h s then 0 else fault_count h s) < 7" using Cons.prems by simp
  note f = fault_below [OF Cons.prems(1) b, of name]
  have "fault_net (faults h name ts ?s1) = fault_net ?s1"
    by (rule Cons.IH) (use f Cons.prems fault_net_valid [OF f(1)] in simp_all)
  then show ?case using f(1) by (simp add: faults_def)
qed (simp add: faults_def)

lemma scattered_never:
  "t_valid s h \<Longrightarrow> list_all (\<lambda>g. 120 < g) (gaps (fault_last h s) ts)
    \<Longrightarrow> fault_net (faults h name ts s) = fault_net s"
proof (induction ts arbitrary: s)
  case (Cons t ts)
  let ?s1 = "noteTorrentFault t h name s"
  have b: "(if 120 < t - fault_last h s then 0 else fault_count h s) < 7" using Cons.prems(2) by simp
  note f = fault_below [OF Cons.prems(1) b, of name]
  have "fault_net (faults h name ts ?s1) = fault_net ?s1"
    by (rule Cons.IH) (use f Cons.prems fault_net_valid [OF f(1)] in simp_all)
  then show ?case using f(1) by (simp add: faults_def)
qed (simp add: faults_def)

lemma clustered_count:
  "t_valid s h \<Longrightarrow> 0 \<le> fault_count h s \<Longrightarrow> fault_count h s + int (length ts) < 8
    \<Longrightarrow> list_all (\<lambda>g. g \<le> 120) (gaps (fault_last h s) ts)
    \<Longrightarrow> fault_count h (faults h name ts s) = fault_count h s + int (length ts)
      \<and> fault_last h (faults h name ts s) = last (fault_last h s # ts)"
proof (induction ts arbitrary: s)
  case (Cons t ts)
  let ?s1 = "noteTorrentFault t h name s"
  have b: "(if 120 < t - fault_last h s then 0 else fault_count h s) < 7" using Cons.prems by simp
  note f = fault_below [OF Cons.prems(1) b, of name]
  have "fault_count h (faults h name ts ?s1) = fault_count h ?s1 + int (length ts)
      \<and> fault_last h (faults h name ts ?s1) = last (fault_last h ?s1 # ts)"
    by (rule Cons.IH) (use f Cons.prems fault_net_valid [OF f(1)] in simp_all)
  then show ?case using f(2,3) Cons.prems(4) by (simp add: faults_def)
qed (simp add: faults_def)

definition fault_name :: "nat \<Rightarrow> string \<Rightarrow> SessionT \<Rightarrow> string" where
  "fault_name h name s = (if name = [] then st_name (live s h) else name)"

lemma fault_eighth:
  assumes "t_valid s h" "fault_count h s = 7" "now - fault_last h s \<le> 120" "\<not> t_paused s h"
  shows "t_paused (noteTorrentFault now h name s) h
     \<and> t_signals (noteTorrentFault now h name s) = t_signals s @ [TorrentError (TorrentFaulted (fault_name h name s))]"
proof -
  have "at_or 0 (t_faultCount s) h = 7" "\<not> 120 < now - at_or 0 (t_faultLastAt s) h"
    using assms(2,3) by (simp_all add: fault_count_def fault_last_def)
  then show ?thesis
    using assms(1,4)
    by (simp add: noteTorrentFault_def Let_def live_def fault_name_def t_emit_def h_pause_def on_net_def
        pause_torrent_def t_paused_def)
qed

text \<open>
  Fault isolation needs eight errors in a cluster. A torrent without earlier faults is paused, and the
  user told, at the eighth error when no two in a row are more than two minutes apart; fewer errors
  change nothing, and errors more than two minutes apart never pause it, however many there are.
\<close>

theorem faults_isolate_at_eight:
  assumes "t_valid s h" "\<not> t_paused s h" "fault_count h s = 0"
  shows "(length ts < 8 \<longrightarrow> fault_net (faults h name ts s) = fault_net s)
     \<and> (length ts = 8 \<and> list_all (\<lambda>g. g \<le> 120) (gaps (hd ts) ts) \<longrightarrow>
          t_paused (faults h name ts s) h
          \<and> t_signals (faults h name ts s) =
              t_signals s @ [TorrentError (TorrentFaulted (fault_name h name s))])
     \<and> (list_all (\<lambda>g. 120 < g) (gaps (fault_last h s) ts) \<longrightarrow> fault_net (faults h name ts s) = fault_net s)"
proof (rule conjI, rule impI, goal_cases)
  case 1
  then show "fault_net (faults h name ts s) = fault_net s"
    using clustered_below [OF assms(1), of ts name] assms(3) by simp
next
  case 2
  have "list_all (\<lambda>g. 120 < g) (gaps (fault_last h s) ts) \<longrightarrow> fault_net (faults h name ts s) = fault_net s"
    using scattered_never [OF assms(1)] by blast
  moreover {
  assume "length ts = 8 \<and> list_all (\<lambda>g. g \<le> 120) (gaps (hd ts) ts)"
  then obtain t us v where ts: "ts = t # us @ [v]" "length us = 6" "list_all (\<lambda>g. g \<le> 120) (gaps t (us @ [v]))"
    by (cases ts; cases "tl ts" rule: rev_cases) auto
  define s1 where "s1 = noteTorrentFault t h name s"
  have b: "(if 120 < t - fault_last h s then 0 else fault_count h s) < 7" using assms(3) by simp
  note f = fault_below [OF assms(1) b, of name, folded s1_def]
  have v1: "t_valid s1 h" "fault_count h s1 = 1" "fault_last h s1 = t"
    using f assms(1,3) fault_net_valid [OF f(1)] by simp_all
  have "gaps p (us @ [v]) = gaps p us @ [v - last (p # us)]" for p by (induction us arbitrary: p) auto
  then have g: "list_all (\<lambda>g. g \<le> 120) (gaps t us)" "v - last (t # us) \<le> 120" using ts(3) by simp_all
  define s2 where "s2 = faults h name us s1"
  have n2: "fault_net s2 = fault_net s" using clustered_below [OF v1(1), of us name] v1 ts(2) f(1) s2_def by simp
  have c2: "fault_count h s2 = 7" "fault_last h s2 = last (t # us)"
    using clustered_count [OF v1(1), of us name] v1 ts(2) g(1) s2_def by simp_all
  have e: "faults h name ts s = noteTorrentFault v h name s2"
    by (simp add: ts(1) faults_def s2_def s1_def)
  have "t_paused s2 h = t_paused s h" "t_signals s2 = t_signals s" "t_valid s2 h"
    "fault_name h name s2 = fault_name h name s"
    using n2 assms(1) by (simp_all add: fault_net_def t_paused_def t_valid_def fault_name_def live_def)
  then have "t_paused (faults h name ts s) h
      \<and> t_signals (faults h name ts s) = t_signals s @ [TorrentError (TorrentFaulted (fault_name h name s))]"
    using fault_eighth [of s2 h v name] c2 g(2) assms(2) e by simp }
  ultimately show ?case by blast
qed

section \<open>At the sample session\<close>

definition sample_info :: TorInfo where
  "sample_info = \<lparr>ti_name = ''film'', ti_hash = (''a1'', []), ti_files = [(''film/a.mkv'', 100)], ti_private = False\<rparr>"

theorem readded_torrent_not_saved_witness:
  "t_resumeFiles (fold (keep_op (\<lambda>_. True) (\<lambda>_. None) (\<lambda>_. LtThrows []))
      [KAdd sample_info ''/dl'' [] False 6, KSave 7, KPause 0] (removeTorrent 5 0 False False sample_session)) ''a1'' = None"
proof -
  have "handleAt 0 sample_session = Some 1" by (simp add: handleAt_def sample_simps)
  note r = readded_torrent_not_saved [OF this, unfolded Let_def]
  have h: "removal_hash 1 sample_session = ''a1''" by (simp add: removal_hash_def sample_simps)
  show ?thesis
    by (rule r [unfolded h, THEN conjunct1]) (simp_all add: sample_simps)
qed

definition sample_params :: AddParams where
  "sample_params = new_params\<lparr>ap_ti := Some sample_info, ap_savePath := ''/dl'',
     ap_renamed := [0 \<mapsto> ''film/a.mkv.!bt'']\<rparr>"

definition sample_disk :: "string \<Rightarrow> int option" where
  "sample_disk p = (if p = ''/dl/film/a.mkv.!bt'' then Some 100 else None)"

definition sample_restarted :: SessionT where
  "sample_restarted = snd (load_params sample_disk (\<lambda>_ _ _. 0) False (sample_params, sample_session))"

theorem restart_mutes_completion_witness:
  "set (drop (length (t_signals sample_restarted)) (t_signals (onTorrentFinished 1 ''film'' sample_restarted)))
     \<subseteq> {ExtractArchives ''/dl'' ''film'' ''a1''}"
proof -
  have l: "live sample_restarted 1 = sample_status 1"
    by (auto simp: sample_restarted_def load_params_def sample_params_def new_params_def private_flags_def
        sample_info_def Let_def live_def t_paused_def sample_session_def sample_net_def sample_lt_def
        sample_status_def split_beta)
  have "\<forall>i < length (ti_files sample_info). \<exists>p. ap_renamed sample_params i = Some (p @ kIncompleteSuffix)
     \<and> sample_disk (dir_filePath (ap_savePath sample_params) p @ kIncompleteSuffix) = Some (snd (ti_files sample_info ! i))"
    by (auto simp: sample_info_def sample_params_def new_params_def kIncompleteSuffix_def sample_disk_def dir_filePath_def
        dir_path_def treatAsAbsolute_def intro!: exI [of _ "''film/a.mkv''"])
  from restart_mutes_completion [OF _ _ this, of sample_restarted "\<lambda>_ _ _. 0" sample_session 1 "''film''"]
  show ?thesis
    using l by (simp add: sample_restarted_def sample_params_def sample_info_def best_hash_def sample_simps
      del: One_nat_def)
qed

theorem suffix_overrides_layout_witness:
  "ap_renamed (applyIncompleteSuffix (applyExcludedPatterns (\<lambda>_. None) sample_session
     (applyContentLayout sample_session sample_params))) 0 = Some ''film/a.mkv.!bt''"
  using suffix_overrides_layout [of sample_params sample_info 0 "\<lambda>_. None" sample_session]
  by (simp add: sample_params_def sample_info_def stripIncompleteSuffix_def kIncompleteSuffix_def)

text \<open>A private torrent, added by a magnet link with one tracker of its own.\<close>

definition sample_private :: SessionT where
  "sample_private = sample_session\<lparr>t_lt := (\<lambda>h. (sample_lt h)\<lparr>lh_private := True,
     lh_trackers := fst (appendPublicTrackers [''https://tracker/announce''] [0])\<rparr>)\<rparr>"


theorem faults_isolate_at_eight_witness:
  "t_paused (faults 1 ''film'' [10, 20, 30, 40, 50, 60, 70, 80] sample_session) 1
   \<and> \<not> t_paused (faults 1 ''film'' [10, 20] sample_session) 1"
proof -
  have "fault_count 1 sample_session = 0" by (simp add: fault_count_def at_or_def sample_simps)
  from faults_isolate_at_eight [OF _ _ this]
  have 1: "t_paused (faults 1 ''film'' [10, 20, 30, 40, 50, 60, 70, 80] sample_session) 1"
    and 2: "fault_net (faults 1 ''film'' [10, 20] sample_session) = fault_net sample_session"
    by (simp_all add: sample_simps)
  then show ?thesis by (simp add: fault_net_def t_paused_def sample_net_def sample_session_def)
qed

end
