(* ===== verification/SessionRemoved.thy ===== *)
theory SessionRemoved
  imports SessionKeep
begin

text \<open>
  What a removal leaves behind: the history of removed torrents, the paths that go to the trash or
  are deleted (\<open>SessionManager::removeTorrent\<close>, \<open>torrent/sessionresume.cpp\<close>) and the timers that try
  them again.
\<close>

section \<open>The history of removed torrents\<close>

text \<open>The entries from the oldest to the newest, as \<open>pruneRemovedHistory\<close> sorts them.\<close>

definition oldest_first :: "HistEntry list \<Rightarrow> (int \<times> string) list" where
  "oldest_first es = sort (map (\<lambda>e. (he_removedAt e, he_hash e)) es)"

lemma oldest_first_basic:
  "length (oldest_first es) = length es"
  "set (oldest_first es) = (\<lambda>e. (he_removedAt e, he_hash e)) ` set es"
  by (simp_all add: oldest_first_def)

lemma distinct_oldest:
  assumes "distinct (map he_hash es)" shows "distinct (map snd (oldest_first es))"
proof -
  have "set (map snd (oldest_first es)) = set (map he_hash es)"
    by (simp add: oldest_first_basic image_image)
  then have "card (set (map snd (oldest_first es))) = length (map snd (oldest_first es))"
    using distinct_card [OF assms] by (simp add: oldest_first_basic)
  then show ?thesis by (rule card_distinct)
qed

definition pruned :: "int \<Rightarrow> HistEntry list \<Rightarrow> string set" where
  "pruned now es = set (removedHistoryHashesToPrune (oldest_first es) kRemovedHistoryKeep now kRemovedHistoryMaxAgeSecs)"

lemma prune_history:
  "t_history (pruneRemovedHistory now s) = filter (\<lambda>e. he_hash e \<notin> pruned now (t_history s)) (t_history s)"
  by (simp add: pruneRemovedHistory_def forget_history_def pruned_def oldest_first_def Let_def)

lemma pruned_eq:
  "pruned now es = snd ` set (take (length es - 50) (oldest_first es))
     \<union> snd ` {e \<in> set (oldest_first es). 30 * 24 * 3600 < now - fst e}"
proof -
  have "nat (int (length es) - 50) = length es - 50" by simp
  then show ?thesis
    by (simp add: pruned_def set_removedHistoryHashesToPrune oldest_first_basic kRemovedHistoryKeep_def
        kRemovedHistoryMaxAgeSecs_def)
qed

lemma prune_bounds:
  assumes "distinct (map he_hash es)" and rest_def: "rest = filter (\<lambda>e. he_hash e \<notin> pruned now es) es"
  shows "length rest \<le> 50" "\<forall>e \<in> set rest. now - he_removedAt e \<le> 30 * 24 * 3600"
proof -
  let ?L = "oldest_first es" and ?k = "length es - 50"
  have d: "distinct (map he_hash rest)" using assms(1) by (simp add: rest_def distinct_map_filter)
  have "set (map he_hash rest) \<subseteq> snd ` set (drop ?k ?L)"
  proof
    fix x assume "x \<in> set (map he_hash rest)"
    then obtain e where e: "e \<in> set es" "he_hash e \<notin> pruned now es" "x = he_hash e" by (auto simp: rest_def)
    then have "x \<in> snd ` set ?L" by (force simp: oldest_first_basic)
    moreover have "x \<notin> snd ` set (take ?k ?L)" using e by (simp add: pruned_eq)
    moreover have "set ?L = set (take ?k ?L) \<union> set (drop ?k ?L)" by (metis append_take_drop_id set_append)
    ultimately show "x \<in> snd ` set (drop ?k ?L)" by auto
  qed
  then have "card (set (map he_hash rest)) \<le> card (snd ` set (drop ?k ?L))" by (simp add: card_mono)
  also have "\<dots> \<le> length (drop ?k ?L)" by (metis card_image_le card_length finite_set le_trans)
  also have "\<dots> \<le> 50" by (simp add: oldest_first_basic)
  finally show "length rest \<le> 50" using distinct_card [OF d] by simp
  show "\<forall>e \<in> set rest. now - he_removedAt e \<le> 30 * 24 * 3600"
    by (force simp: rest_def pruned_eq oldest_first_basic not_less)
qed

text \<open>The newest entry stays.\<close>

lemma prune_newest:
  assumes "distinct (map he_hash (es @ [e]))" "\<forall>x \<in> set es. he_removedAt x < he_removedAt e"
    "now - he_removedAt e \<le> 30 * 24 * 3600"
  shows "he_hash e \<notin> pruned now (es @ [e])"
proof
  let ?L = "oldest_first (es @ [e])"
  assume "he_hash e \<in> pruned now (es @ [e])"
  moreover have inj: "x = (he_removedAt e, he_hash e)" if "x \<in> set ?L" "snd x = he_hash e" for x
    using that assms(1) by (force simp: oldest_first_basic image_iff)
  ultimately have "(he_removedAt e, he_hash e) \<in> set (take (length (es @ [e]) - 50) ?L)"
    using assms(3) by (auto simp: pruned_eq dest!: inj dest: in_set_takeD)
       (metis in_set_takeD inj prod.collapse snd_conv)
  then obtain j where j: "j < length (es @ [e]) - 50" "j < length ?L" "?L ! j = (he_removedAt e, he_hash e)"
    by (auto simp: in_set_conv_nth)
  then have "Suc j < length ?L" by (simp add: oldest_first_basic)
  have s: "sorted ?L" by (simp add: oldest_first_def)
  have m: "?L ! Suc j \<in> set ?L" using \<open>Suc j < length ?L\<close> by simp
  then obtain x where x: "x \<in> set (es @ [e])" "?L ! Suc j = (he_removedAt x, he_hash x)"
    by (auto simp: oldest_first_basic)
  have "?L ! j \<le> ?L ! Suc j" using s \<open>Suc j < length ?L\<close> by (simp add: sorted_nth_mono)
  then have "he_removedAt e \<le> he_removedAt x" using j x by (auto simp: less_eq_prod_def)
  with x assms(2) have "x = e" by (force simp: not_less)
  then have "?L ! Suc j = ?L ! j" using j x by simp
  moreover have "distinct ?L" using distinct_oldest [OF assms(1)] by (simp add: distinct_map)
  ultimately show False using \<open>Suc j < length ?L\<close> by (simp add: nth_eq_iff_index_eq)
qed

text \<open>What the history of a removal is, with the hashes of the history distinct.\<close>

definition hist :: "SessionT \<Rightarrow> HistEntry list \<times> (string \<Rightarrow> string option)" where
  "hist s = (t_history s, t_removedFiles s)"

lemma hist_simps:
  "hist (on_net f s) = hist s" "hist (t_emit g s) = hist s" "hist (h_pause h s) = hist s"
  "hist (drop_row i s) = hist s" "hist (scheduleRemoval perm ts n s) = hist s"
  "hist (forget_handle h s) = hist s" "hist (s\<lparr>t_globalDownBase := a, t_globalUpBase := b\<rparr>) = hist s"
  by (simp_all add: hist_def on_net_def t_emit_def h_pause_def drop_row_def scheduleRemoval_def
      addPendingTargets_def t_put_def forget_handle_def Let_def)

lemma hist_forget: "hist (forget_hash hash s) = hist s"
  by (simp add: forget_hash_def hist_def remember_removed_def forget_tags_def forget_forced_def
      forget_completed_def forget_limits_def Let_def t_drop_def t_put_def saveCompletedSet_def)

lemma hist_removeTorrent:
  assumes "handleAt i s = Some h" "t_valid s h"
  shows "hist (removeTorrent now i del perm s) = hist (to_history now (removal_hash h s) (live s h) s)"
  using assms
  by (cases "st_hasMetadata (live s h)")
     (simp_all add: removeTorrent_def removal_hash_def Let_def hist_simps hist_forget split: RemovalDisposition.split)

definition hist_entry :: "int \<Rightarrow> nat \<Rightarrow> SessionT \<Rightarrow> HistEntry" where
  "hist_entry now h s = \<lparr>he_hash = removal_hash h s, he_name = st_name (live s h),
     he_size = st_totalWanted (live s h), he_removedAt = now\<rparr>"

lemma to_history_eq:
  "to_history now hash st s =
     (let es = filter (\<lambda>e. he_hash e \<noteq> hash) (t_history s)
            @ [\<lparr>he_hash = hash, he_name = st_name st, he_size = st_totalWanted st, he_removedAt = now\<rparr>]
      in s\<lparr>t_resumeFiles := (t_resumeFiles s)(hash := None),
           t_history := filter (\<lambda>e. he_hash e \<notin> pruned now es) es,
           t_removedFiles := (\<lambda>g. if g \<in> pruned now es then None
             else if g = hash then t_resumeFiles s hash else t_removedFiles s g)\<rparr>)"
  by (simp add: to_history_def pruneRemovedHistory_def forget_history_def pruned_def oldest_first_def
      Let_def fun_eq_iff)

text \<open>
  The history of removed torrents is bounded, and a removal is never pruned by itself: whatever was in
  the history (with one entry a hash, none newer than now), after the removal of a torrent it has at
  most fifty entries, one a hash, all at most thirty days old, the torrent's own entry is there with
  its name and its size, and the resume file it had is kept beside it, from where the removal can be
  undone.
\<close>

theorem removed_history_bounded:
  assumes "handleAt i s = Some h" "t_valid s h" "distinct (map he_hash (t_history s))"
    "\<forall>e \<in> set (t_history s). he_removedAt e < now"
  shows "let s' = removeTorrent now i del perm s in
     length (t_history s') \<le> 50 \<and> distinct (map he_hash (t_history s'))
     \<and> (\<forall>e \<in> set (t_history s'). now - he_removedAt e \<le> 30 * 24 * 3600)
     \<and> hist_entry now h s \<in> set (t_history s')
     \<and> t_removedFiles s' (removal_hash h s) = t_resumeFiles s (removal_hash h s)"
proof -
  define old where "old = filter (\<lambda>e. he_hash e \<noteq> removal_hash h s) (t_history s)"
  define es where "es = old @ [hist_entry now h s]"
  have d: "distinct (map he_hash es)"
    using assms(3) by (auto simp: es_def old_def hist_entry_def distinct_map_filter)
  have e: "hist (removeTorrent now i del perm s) =
      (filter (\<lambda>e. he_hash e \<notin> pruned now es) es,
       \<lambda>g. if g \<in> pruned now es then None
         else if g = removal_hash h s then t_resumeFiles s (removal_hash h s) else t_removedFiles s g)"
    unfolding hist_removeTorrent [OF assms(1,2)]
    by (simp add: hist_def to_history_eq Let_def es_def old_def hist_entry_def)
  have new: "he_hash (hist_entry now h s) \<notin> pruned now es"
    unfolding es_def
  proof (rule prune_newest)
    show "distinct (map he_hash (old @ [hist_entry now h s]))" using d by (simp only: es_def)
    show "\<forall>x \<in> set old. he_removedAt x < he_removedAt (hist_entry now h s)"
      using assms(4) by (simp add: old_def hist_entry_def)
    show "now - he_removedAt (hist_entry now h s) \<le> 30 * 24 * 3600" by (simp add: hist_entry_def)
  qed
  note b = prune_bounds [OF d refl, of now]
  have m: "hist_entry now h s \<in> set es" by (simp add: es_def)
  have n: "removal_hash h s \<notin> pruned now es" using new by (simp add: hist_entry_def)
  from e have "t_history (removeTorrent now i del perm s) = filter (\<lambda>e. he_hash e \<notin> pruned now es) es"
    "t_removedFiles (removeTorrent now i del perm s) (removal_hash h s) = t_resumeFiles s (removal_hash h s)"
    using n by (simp_all add: hist_def)
  then show ?thesis
    using b new m by (simp add: Let_def distinct_map_filter [OF d])
qed

section \<open>What goes to the trash\<close>

text \<open>A name of one component that stays where it is put.\<close>

definition plain_name :: "string \<Rightarrow> bool" where
  "plain_name n \<longleftrightarrow> n \<noteq> [] \<and> n \<noteq> ''.'' \<and> n \<noteq> ''..'' \<and> CHR ''/'' \<notin> set n \<and> hd n \<noteq> CHR '':''"

definition inside :: "string \<Rightarrow> string \<Rightarrow> bool" where
  "inside d p \<longleftrightarrow> (\<exists>n. plain_name n \<and> p = dir_filePath d n)"

definition top_paths :: "TorStatus \<Rightarrow> LtTorrent \<Rightarrow> string list" where
  "top_paths st t = topLevelTrashNames (case lh_files t of Some fs \<Rightarrow> map lf_path fs | None \<Rightarrow> [st_name st])"

lemma removal_targets_eq:
  "removal_targets hash st t = trashTargetsForRemoval (st_savePath st) (top_paths st t) hash"
  by (simp add: removal_targets_def top_paths_def)

lemma plain_suffixed:
  assumes "plain_name n" "n \<noteq> kIncompleteSuffix" "n \<noteq> ''..!bt''" "n \<noteq> ''...!bt''"
  shows "plain_name (fst (stripIncompleteSuffix n))"
    "plain_name (fst (stripIncompleteSuffix n) @ kIncompleteSuffix)"
proof -
  let ?b = "fst (stripIncompleteSuffix n)"
  have c: "?b = n \<or> n = ?b @ kIncompleteSuffix"
    by (auto simp: stripIncompleteSuffix_def) (metis append_take_drop_id)
  with assms have b: "?b \<noteq> []" "?b \<noteq> ''.''" "?b \<noteq> ''..''"
    by (auto simp: plain_name_def kIncompleteSuffix_def)
  moreover have "CHR ''/'' \<notin> set ?b" "hd ?b \<noteq> CHR '':''"
    using c assms(1) b(1) by (auto simp: plain_name_def) (metis Un_iff set_append, metis hd_append2)
  ultimately show "plain_name ?b" "plain_name (?b @ kIncompleteSuffix)"
    by (auto simp: plain_name_def kIncompleteSuffix_def)
qed

definition safe_top :: "string \<Rightarrow> bool" where
  "safe_top n \<longleftrightarrow> plain_name n \<and> n \<notin> {''.!bt'', ''..!bt'', ''...!bt''}"

lemma top_level_no_slash: "hd (top_level p) \<noteq> CHR ''/'' \<Longrightarrow> CHR ''/'' \<notin> set (top_level p)"
  by (cases "map (\<lambda>c. if c = CHR 0x5C then CHR ''/'' else c) p")
     (auto simp: top_level_def Let_def before_first_def dest: set_takeWhileD split: if_splits)


lemma inside_not_parent:
  assumes "d \<noteq> []" "last d \<noteq> CHR ''/''"
  shows "\<not> inside d (d @ ''/..'')" "\<not> inside d (dir_filePath d '''')"
proof -
  have p: "dir_filePath d n = d @ ''/'' @ n" if "plain_name n" for n
    using that assms by (cases n) (auto simp: dir_filePath_def dir_path_def treatAsAbsolute_def plain_name_def)
  show "\<not> inside d (d @ ''/..'')" using p by (auto simp: inside_def) (auto simp: plain_name_def)
  have e: "dir_filePath d '''' = d" using assms by (simp add: dir_filePath_def dir_path_def treatAsAbsolute_def)
  show "\<not> inside d (dir_filePath d '''')" unfolding e using p by (auto simp: inside_def)
qed

lemma removals_untouched:
  "t_removals (forget_hash hash s) = t_removals s" "t_lt (forget_hash hash s) = t_lt s"
  "t_removals (to_history now hash st s) = t_removals s" "t_lt (to_history now hash st s) = t_lt s"
  "t_removals (forget_handle h s) = t_removals s" "t_lt (forget_handle h s) = t_lt s"
  "t_removals (on_net f s) = t_removals s" "t_removals (h_pause h s) = t_removals s"
  "t_removals (drop_row i s) = t_removals s"
  by (simp_all add: forget_hash_def remember_removed_def forget_tags_def forget_forced_def
      forget_completed_def forget_limits_def Let_def t_drop_def t_put_def saveCompletedSet_def
      to_history_eq forget_handle_def on_net_def h_pause_def drop_row_def t_emit_def)

lemma removals_scheduled:
  "t_removals (scheduleRemoval perm ts n s) =
     t_removals s @ [\<lparr>rm_permanent = perm, rm_targets = ts, rm_attempt = n\<rparr>]"
  by (simp add: scheduleRemoval_def addPendingTargets_def t_put_def Let_def)

lemma removal_scheduled:
  assumes "handleAt i s = Some h" "t_valid s h" "removal_targets (removal_hash h s) (live s h) (t_lt s h) \<noteq> []"
  shows "t_removals (removeTorrent now i True perm s) = t_removals s @
     [\<lparr>rm_permanent = perm, rm_targets = removal_targets (removal_hash h s) (live s h) (t_lt s h), rm_attempt = 0\<rparr>]"
  using assms
  by (cases "st_hasMetadata (live s h)"; cases perm)
     (simp_all add: removeTorrent_def removal_hash_def Let_def removalDisposition_def
        shouldScheduleFileRemoval_def removals_untouched removals_scheduled)

text \<open>
  Of a magnet without metadata the name is what the link says (\<open>dn=\<close>), and it is not a file name that
  libtorrent has cleaned: removing such a torrent with its data when it is called ".." schedules the
  parent of the download directory for the trash or for deletion, and when it is called ".!bt" the
  whole download directory itself.
\<close>

theorem magnet_removal_escapes:
  assumes "handleAt i s = Some h" "t_valid s h" "lh_files (t_lt s h) = None"
    "st_savePath (live s h) = d" "d \<noteq> []" "last d \<noteq> CHR ''/''"
    "(st_name (live s h), p) \<in> {(''..'', d @ ''/..''), (''.!bt'', d)}"
  shows "p \<in> set (rm_targets (last (t_removals (removeTorrent now i True perm s)))) \<and> \<not> inside d p"
proof -
  let ?T = "removal_targets (removal_hash h s) (live s h) (t_lt s h)"
  have "dir_filePath d (fst (stripIncompleteSuffix (st_name (live s h)))) = p"
    using assms(5-7) by (auto simp: dir_filePath_def dir_path_def treatAsAbsolute_def
        stripIncompleteSuffix_def kIncompleteSuffix_def)
  moreover have "top_paths (live s h) (t_lt s h) = [st_name (live s h)]"
    using assms(3,7) by (auto simp: top_paths_def topLevelTrashNames_def add_top_def top_level_def Let_def)
  ultimately have t: "p \<in> set ?T"
    using assms(4,7) by (auto simp: removal_targets_eq trashTargetsForRemoval_def Let_def)
  then have "?T \<noteq> []" by auto
  from removal_scheduled [OF assms(1,2) this, of now perm] t
  have "p \<in> set (rm_targets (last (t_removals (removeTorrent now i True perm s))))" by simp
  moreover have "\<not> inside d p"
    using inside_not_parent [OF assms(5,6)] assms(5-7)
    by (auto simp: dir_filePath_def dir_path_def treatAsAbsolute_def)
  ultimately show ?thesis by simp
qed

section \<open>The timers\<close>

definition pending :: "bool \<Rightarrow> SessionT \<Rightarrow> string set" where
  "pending perm s = (case t_settings s (pending_key perm) of Some (TvList xs) \<Rightarrow> set xs | _ \<Rightarrow> {})"

text \<open>One timer after the other, each with the state of the disk at its time.\<close>

fun removal_run :: "((string \<Rightarrow> bool) \<times> (string \<Rightarrow> bool)) list \<Rightarrow> SessionT \<Rightarrow> SessionT" where
  "removal_run [] s = s"
| "removal_run ((exist, ok) # envs) s =
     (case t_removals s of [] \<Rightarrow> s | r # rs \<Rightarrow> removal_run envs (onRemovalTimer exist ok r s))"

lemma foldl_add: "set (foldl (\<lambda>acc t. if t \<in> set acc then acc else acc @ [t]) xs ts) = set xs \<union> set ts"
  by (induction ts arbitrary: xs) auto

lemma pending_scheduled:
  "pending perm (scheduleRemoval perm ts 0 s) = pending perm s \<union> set ts"
  "pending perm (scheduleRemoval perm ts (Suc n) s) = pending perm s"
  by (auto simp: pending_def scheduleRemoval_def addPendingTargets_def t_put_def foldl_add Let_def
      split: option.splits TVal.splits)

lemma pending_cleared:
  "pending perm (clearDoneTargets (pending_key perm) ts left s) = pending perm s - (set ts - set left)"
  by (auto simp: pending_def clearDoneTargets_def t_put_def t_drop_def Let_def
      split: option.splits TVal.splits) (auto simp: filter_empty_conv)

lemma removals_cleared: "t_removals (clearDoneTargets key ts left s) = t_removals s"
  by (simp add: clearDoneTargets_def t_put_def t_drop_def Let_def)

lemma pending_removals: "pending perm (s\<lparr>t_removals := r\<rparr>) = pending perm s"
  by (simp add: pending_def)

definition locked :: "((string \<Rightarrow> bool) \<times> (string \<Rightarrow> bool)) \<Rightarrow> string \<Rightarrow> bool" where
  "locked env p \<longleftrightarrow> fst env p \<and> \<not> snd env p"

lemma timer_step:
  assumes "t_removals s = [r]" and left_def: "left = filter (locked env) (rm_targets r)"
  shows "t_removals (onRemovalTimer (fst env) (snd env) r s) =
      (if left \<noteq> [] \<and> rm_attempt r < 10
       then [\<lparr>rm_permanent = rm_permanent r, rm_targets = left, rm_attempt = Suc (rm_attempt r)\<rparr>] else [])"
    "pending (rm_permanent r) (onRemovalTimer (fst env) (snd env) r s) =
      pending (rm_permanent r) s - (set (rm_targets r) - set left)"
proof -
  have l: "filter (\<lambda>p. \<not> snd env p) (existingRemovalTargets (fst env) (rm_targets r)) = left"
    by (simp add: left_def existingRemovalTargets_def locked_def [abs_def] conj_commute)
  show "t_removals (onRemovalTimer (fst env) (snd env) r s) =
      (if left \<noteq> [] \<and> rm_attempt r < 10
       then [\<lparr>rm_permanent = rm_permanent r, rm_targets = left, rm_attempt = Suc (rm_attempt r)\<rparr>] else [])"
    "pending (rm_permanent r) (onRemovalTimer (fst env) (snd env) r s) =
      pending (rm_permanent r) s - (set (rm_targets r) - set left)"
    using assms(1) unfolding onRemovalTimer_def l
    by (simp_all add: Let_def removals_scheduled removals_cleared pending_scheduled pending_cleared
        pending_removals)
qed

lemma run_from:
  assumes "t_removals s = [\<lparr>rm_permanent = perm, rm_targets = ts, rm_attempt = n\<rparr>]" "n \<le> 10"
    "11 - n \<le> length envs" "set ts \<subseteq> pending perm s"
  shows "t_removals (removal_run envs s) = []
     \<and> pending perm (removal_run envs s) =
         pending perm s - {p \<in> set ts. \<exists>env \<in> set (take (11 - n) envs). \<not> locked env p}"
  using assms
proof (induction envs arbitrary: s ts n)
  case (Cons env envs)
  let ?r = "\<lparr>rm_permanent = perm, rm_targets = ts, rm_attempt = n\<rparr>"
  let ?s = "onRemovalTimer (fst env) (snd env) ?r s" and ?left = "filter (locked env) ts"
  note step = timer_step [OF Cons.prems(1) refl, of env, simplified]
  have run: "removal_run (env # envs) s = removal_run envs ?s"
    using Cons.prems(1) by (cases env) simp
  have t: "take (11 - n) (env # envs) = env # take (10 - n) envs"
  proof -
    have "11 - n = Suc (10 - n)" using Cons.prems(2) by simp
    then show ?thesis by simp
  qed
  show ?case
  proof (cases "?left \<noteq> [] \<and> n < 10")
    case True
    then have "t_removals ?s = [\<lparr>rm_permanent = perm, rm_targets = ?left, rm_attempt = Suc n\<rparr>]"
      using step(1) by simp
    moreover have "set ?left \<subseteq> pending perm ?s" using step(2) Cons.prems(4) by auto
    ultimately have "t_removals (removal_run envs ?s) = []
        \<and> pending perm (removal_run envs ?s) =
            pending perm ?s - {p \<in> set ?left. \<exists>env \<in> set (take (11 - Suc n) envs). \<not> locked env p}"
      using Cons.IH [of ?s ?left "Suc n"] True Cons.prems(3) by simp
    then show ?thesis using step(2) Cons.prems(4) by (auto simp: run t)
  next
    case False
    then have e: "t_removals ?s = []" using step(1) by auto
    then have "removal_run envs ?s = ?s" by (cases envs) auto
    moreover have "take (10 - n) envs = [] \<or> ?left = []" using False Cons.prems(2) by auto
    ultimately show ?thesis
      using step(2) e Cons.prems(4) by (auto simp: run t filter_empty_conv)
  qed
qed simp


section \<open>At the sample session\<close>

lemma sample_row: "handleAt 0 sample_session = Some 1" "removal_hash 1 sample_session = ''a1''"
  by (simp_all add: handleAt_def removal_hash_def sample_simps)

theorem removed_history_bounded_witness:
  "hist_entry 5 1 sample_session \<in> set (t_history (removeTorrent 5 0 False False sample_session))"
  using removed_history_bounded [OF sample_row(1), of 5] by (simp add: sample_simps Let_def)


text \<open>A magnet called "..", whose metadata never came.\<close>

definition sample_magnet :: SessionT where
  "sample_magnet = sample_session\<lparr>t_lt := (\<lambda>h. (sample_lt h)\<lparr>lh_files := None,
     lh_status := (sample_status h)\<lparr>st_name := ''..'', st_hasMetadata := False\<rparr>\<rparr>)\<rparr>"

theorem magnet_removal_escapes_witness:
  "''/dl/..'' \<in> set (rm_targets (last (t_removals (removeTorrent 5 0 True True sample_magnet))))"
proof -
  have "handleAt 0 sample_magnet = Some 1" "t_valid sample_magnet 1" "lh_files (t_lt sample_magnet 1) = None"
    "st_savePath (live sample_magnet 1) = ''/dl''" "st_name (live sample_magnet 1) = ''..''"
    by (simp_all add: sample_magnet_def handleAt_def t_torrents_def t_valid_def live_def)
       (simp_all add: sample_session_def sample_net_def sample_status_def)
  then show ?thesis using magnet_removal_escapes [of 0 sample_magnet 1 "''/dl''" "''/dl/..''" 5 True] by simp
qed


end
