(* ===== verification/IpcFrames.thy ===== *)
theory IpcFrames
  imports Prelude
begin

text \<open>
  \<open>ipc/ipcprotocol.h\<close>: the frames that the user interface, the engine process and the media child
  exchange over a local socket. A frame is a length in four bytes, big endian, then a byte that names
  its kind, then the payload. What arrives is appended to a buffer, and \<open>drainFrames\<close> takes the
  complete frames out of it.
\<close>

section \<open>Numbers\<close>

definition be32 :: "nat \<Rightarrow> bytes" where
  "be32 n = [of_nat (n div 16777216), of_nat (n div 65536), of_nat (n div 256), of_nat n]"

definition get32 :: "bytes \<Rightarrow> nat" where
  "get32 b = unat (b ! 0) * 16777216 + unat (b ! 1) * 65536 + unat (b ! 2) * 256 + unat (b ! 3)"

lemma length_be32 [simp]: "length (be32 n) = 4"
  by (simp add: be32_def)

lemma get32_be32: "n < 4294967296 \<Longrightarrow> get32 (be32 n @ xs) = n"
proof -
  assume n: "n < 4294967296"
  have d: "n div 65536 = n div 256 div 256" "n div 16777216 = n div 256 div 256 div 256"
    by (simp_all add: div_mult2_eq [symmetric])
  have t: "n div 256 div 256 div 256 < 256" using n by (simp add: div_mult2_eq [symmetric])
  have "get32 (be32 n @ xs) = n div 256 div 256 div 256 mod 256 * 16777216 + n div 256 div 256 mod 256 * 65536
      + n div 256 mod 256 * 256 + n mod 256"
    by (simp add: get32_def be32_def unat_of_nat d)
  also have "n div 256 div 256 div 256 mod 256 = n div 256 div 256 div 256" using t by simp
  finally show ?thesis
    using div_mult_mod_eq [of n 256] div_mult_mod_eq [of "n div 256" 256]
      div_mult_mod_eq [of "n div 256 div 256" 256] by linarith
qed

section \<open>Frames\<close>

text \<open>\<open>Kind(quint8(b))\<close> of a byte that is no enumerator is kept as it is.\<close>

datatype FrameKind = Hello | Ping | Pong | Request | Reply | Event | UnnamedKind byte

definition kind_of :: "byte \<Rightarrow> FrameKind" where
  "kind_of b =
     (if b = 1 then Hello else if b = 2 then Ping else if b = 3 then Pong else if b = 4 then Request
      else if b = 5 then Reply else if b = 6 then Event else UnnamedKind b)"

fun kind_byte :: "FrameKind \<Rightarrow> byte" where
  "kind_byte Hello = 1"
| "kind_byte Ping = 2"
| "kind_byte Pong = 3"
| "kind_byte Request = 4"
| "kind_byte Reply = 5"
| "kind_byte Event = 6"
| "kind_byte (UnnamedKind b) = b"

definition kMaxFrameBytes :: nat where
  "kMaxFrameBytes = 64 * 1024 * 1024"

definition writeFrame :: "FrameKind \<Rightarrow> bytes \<Rightarrow> bytes" where
  "writeFrame k payload = (let body = kind_byte k # payload in be32 (length body) @ body)"

text \<open>The calls of \<open>sink\<close>, in order, and what is left in the buffer.\<close>

function drainFrames :: "bytes \<Rightarrow> (FrameKind \<times> bytes) list \<times> bytes" where
  "drainFrames buf =
     (if length buf < 4 then ([], buf)
      else
        let len = get32 buf in
        if kMaxFrameBytes < len then ([], [])
        else if length buf - 4 < len then ([], buf)
        else
          let body = take len (drop 4 buf);
              (out, left) = drainFrames (drop (4 + len) buf)
          in (if body = [] then out else (kind_of (hd body), tl body) # out, left))"
  by pat_completeness auto
termination by (relation "measure length") auto

declare drainFrames.simps [simp del]

text \<open>\<open>onReadyRead\<close>: what the socket has is appended, then the frames are taken out.\<close>

definition receive :: "bytes \<Rightarrow> bytes \<times> (FrameKind \<times> bytes) list \<Rightarrow> bytes \<times> (FrameKind \<times> bytes) list" where
  "receive chunk s =
     (let (buf, got) = s; (out, left) = drainFrames (buf @ chunk) in (left, got @ out))"

section \<open>Properties\<close>

definition sendable :: "FrameKind \<times> bytes \<Rightarrow> bool" where
  "sendable f \<longleftrightarrow> (\<forall>b. fst f = UnnamedKind b \<longrightarrow> b \<notin> {1, 2, 3, 4, 5, 6}) \<and> length (snd f) < kMaxFrameBytes"

definition wire :: "(FrameKind \<times> bytes) list \<Rightarrow> bytes" where
  "wire fs = concat (map (\<lambda>(k, p). writeFrame k p) fs)"

lemma wire_simps: "wire [] = []" "wire ((k, p) # fs) = writeFrame k p @ wire fs"
  by (simp_all add: wire_def)

lemma kind_of_byte: "sendable (k, p) \<Longrightarrow> kind_of (kind_byte k) = k"
  by (cases k) (auto simp: kind_of_def sendable_def)

lemma length_writeFrame [simp]: "length (writeFrame k p) = length p + 5"
  by (simp add: writeFrame_def)

lemma get32_writeFrame:
  assumes "sendable (k, p)" shows "get32 (writeFrame k p @ rest) = Suc (length p)"
  using assms by (simp add: writeFrame_def get32_be32 sendable_def kMaxFrameBytes_def)

lemma get32_take: "4 \<le> n \<Longrightarrow> n \<le> length b \<Longrightarrow> get32 (take n b) = get32 b"
  by (simp add: get32_def)

lemma drain_frame:
  assumes "sendable (k, p)"
  shows "drainFrames (writeFrame k p @ rest) =
     ((k, p) # fst (drainFrames rest), snd (drainFrames rest))"
proof -
  have "drop 4 (writeFrame k p @ rest) = (kind_byte k # p) @ rest"
    "drop (5 + length p) (writeFrame k p @ rest) = rest"
    by (simp_all add: writeFrame_def)
  then show ?thesis
    using assms kind_of_byte [OF assms]
    by (subst drainFrames.simps)
       (simp add: get32_writeFrame Let_def split_beta sendable_def)
qed

lemma drain_partial:
  assumes "sendable (k, p)" "length b < length p + 5" "b = take (length b) (writeFrame k p @ rest)"
  shows "drainFrames b = ([], b)"
proof (cases "length b < 4")
  case False
  then have "get32 b = Suc (length p)"
    using get32_take [of "length b" "writeFrame k p @ rest"] get32_writeFrame [OF assms(1)] assms(2,3)
    by simp
  then show ?thesis
    using assms(1,2) False by (subst drainFrames.simps) (auto simp: sendable_def)
qed (subst drainFrames.simps, simp)

lemma drain_prefix:
  assumes "\<forall>f \<in> set fs. sendable f" "buf @ rest = wire fs"
  shows "\<exists>n left. drainFrames buf = (take n fs, left) \<and> left @ rest = wire (drop n fs)
     \<and> (n < length fs \<longrightarrow> length left < length (snd (fs ! n)) + 5) \<and> n \<le> length fs"
  using assms
proof (induction fs arbitrary: buf)
  case Nil
  then show ?case by (subst drainFrames.simps) (simp add: wire_simps)
next
  case (Cons f fs)
  obtain k p where f: "f = (k, p)" by (cases f)
  have ok: "sendable (k, p)" using Cons.prems(1) f by simp
  show ?case
  proof (cases "length buf < length p + 5")
    case True
    then have "buf = take (length buf) (writeFrame k p @ wire fs)"
      using Cons.prems(2) f by (metis append_eq_conv_conj wire_simps(2))
    from drain_partial [OF ok True this] show ?thesis
      using Cons.prems(2) True f by (intro exI [of _ 0] exI [of _ buf]) simp
  next
    case False
    have "take (length p + 5) buf = take (length p + 5) (writeFrame k p @ wire fs)"
      using False arg_cong [OF Cons.prems(2), of "take (length p + 5)"] f wire_simps(2) [of k p fs] by simp
    also have "\<dots> = writeFrame k p" using length_writeFrame [of k p] by simp
    finally have b: "buf = writeFrame k p @ drop (length p + 5) buf"
      using append_take_drop_id [of "length p + 5" buf] by simp
    then have "drop (length p + 5) buf @ rest = wire fs"
      using Cons.prems(2) f wire_simps(2) [of k p fs] by (metis append.assoc same_append_eq)
    then obtain n left where IH: "drainFrames (drop (length p + 5) buf) = (take n fs, left)"
        "left @ rest = wire (drop n fs)" "n < length fs \<longrightarrow> length left < length (snd (fs ! n)) + 5"
        "n \<le> length fs"
      using Cons.IH Cons.prems(1) by (metis list.set_intros(2))
    have "drainFrames buf = ((k, p) # take n fs, left)"
      using drain_frame [OF ok, of "drop (length p + 5) buf"] IH(1) b by simp
    then show ?thesis
      using IH f by (intro exI [of _ "Suc n"] exI [of _ left]) simp
  qed
qed

lemma receive_all:
  assumes "\<forall>f \<in> set fs. sendable f" "buf @ concat chunks = wire fs"
    "fs \<noteq> [] \<longrightarrow> length buf < length (snd (hd fs)) + 5"
  shows "fold receive chunks (buf, got) = ([], got @ fs)"
  using assms
proof (induction chunks arbitrary: buf got fs)
  case Nil
  show ?case
  proof (cases fs)
    case Nil
    then show ?thesis using Nil.prems(2) by (simp add: wire_simps)
  next
    case (Cons f gs)
    then have "length buf = length (snd f) + 5 + length (wire gs)"
      using Nil.prems(2) by (cases f) (simp add: wire_simps)
    then show ?thesis using Nil.prems(3) Cons by simp
  qed
next
  case (Cons c chunks)
  have "(buf @ c) @ concat chunks = wire fs" using Cons.prems(2) by simp
  from drain_prefix [OF Cons.prems(1) this] obtain n left where
    d: "drainFrames (buf @ c) = (take n fs, left)" "left @ concat chunks = wire (drop n fs)"
      "n < length fs \<longrightarrow> length left < length (snd (fs ! n)) + 5" "n \<le> length fs" by blast
  have ok: "\<forall>f \<in> set (drop n fs). sendable f" using Cons.prems(1) by (auto dest: in_set_dropD)
  have "drop n fs \<noteq> [] \<longrightarrow> length left < length (snd (hd (drop n fs))) + 5"
    using d(3) by (simp add: hd_drop_conv_nth)
  from Cons.IH [OF ok d(2) this, of "got @ take n fs"]
  show ?case by (simp add: receive_def d(1))
qed

text \<open>
  C30: Framing does not depend on how the socket cuts the stream. Whatever frames a peer writes (of at most
  64 MiB each), and into whatever chunks their bytes are cut on the way, the receiver gets exactly these
  frames, in order, and its buffer is empty at the end.
\<close>

theorem frames_survive_chunking:
  assumes "\<forall>f \<in> set fs. sendable f" "concat chunks = wire fs"
  shows "fold receive chunks ([], []) = ([], fs)"
  using receive_all [OF assms(1), of "[]" chunks "[]"] assms(2) by simp

lemma drain_bounded: "length (snd (drainFrames b)) < kMaxFrameBytes + 4"
proof (induction b rule: drainFrames.induct)
  case (1 b)
  show ?case
  proof (cases "length b < 4 \<or> kMaxFrameBytes < get32 b \<or> length b - 4 < get32 b")
    case True
    then show ?thesis by (subst drainFrames.simps) (auto simp: Let_def kMaxFrameBytes_def)
  next
    case False
    then have "length (snd (drainFrames (drop (4 + get32 b) b))) < kMaxFrameBytes + 4"
      using "1" by simp
    then show ?thesis using False by (subst drainFrames.simps) (simp add: Let_def split_beta)
  qed
qed

text \<open>
  A peer cannot make the receiver hold more than one frame: whatever it sends, after each read fewer
  than 64 MiB and four bytes are left in the buffer, and a length beyond 64 MiB empties it.
\<close>

theorem frame_buffer_bounded:
  "length (fst (receive chunk s)) < kMaxFrameBytes + 4
   \<and> (4 \<le> length (fst s @ chunk) \<and> kMaxFrameBytes < get32 (fst s @ chunk) \<longrightarrow> fst (receive chunk s) = [])"
proof -
  have e: "fst (receive chunk s) = snd (drainFrames (fst s @ chunk))"
    by (cases s) (simp add: receive_def split_beta)
  have "4 \<le> length b \<Longrightarrow> kMaxFrameBytes < get32 b \<Longrightarrow> snd (drainFrames b) = []" for b
    by (subst drainFrames.simps) simp
  then show ?thesis unfolding e using drain_bounded by blast
qed

theorem frames_survive_chunking_witness:
  "fold receive [[0, 0, 0], [2, 4], [7, 0, 0, 0, 1], [2]] ([], []) = ([], [(Request, [7]), (Ping, [])])"
  by (rule frames_survive_chunking)
     (simp_all add: sendable_def kMaxFrameBytes_def wire_def writeFrame_def be32_def)

theorem frame_buffer_bounded_witness:
  "fst (receive [255, 255, 255, 255, 1] ([], [])) = []"
  using frame_buffer_bounded [of "[255, 255, 255, 255, 1]" "([], [])"]
  by (simp add: get32_def kMaxFrameBytes_def)

end
