(* ===== verification/RemoteSource.thy ===== *)
theory RemoteSource
  imports Prelude
begin

text \<open>
  \<open>ipc/remotesource.cpp\<close>: the device through which the media child reads a video. Its bytes come from
  the user interface over the socket. A read looks in the cache, asks for what is missing (once per
  place) and waits. The mutex makes each pass of the loop of \<open>readData\<close> one step (\<open>read_step\<close>); between
  two passes anything else may run, other readers included. \<open>qint32\<close> lengths are converted as the
  code does.
\<close>

record SrcPending =
  sp_id :: nat
  sp_offset :: int
  sp_length :: int

record RemoteSource =
  rs_size :: int
  rs_cache :: "(int \<times> bytes) list"
  rs_cacheBytes :: int
  rs_pending :: "SrcPending list"
  rs_nextId :: nat
  rs_aborted :: bool
  rs_failed :: bool

definition kReadAhead :: int where "kReadAhead = 1024 * 1024"
definition kCacheBytes :: int where "kCacheBytes = 32 * 1024 * 1024"

definition mkRemoteSource :: "int \<Rightarrow> RemoteSource" where
  "mkRemoteSource n = \<lparr>rs_size = max 0 n, rs_cache = [], rs_cacheBytes = 0, rs_pending = [],
     rs_nextId = 1, rs_aborted = False, rs_failed = False\<rparr>"

text \<open>The bytes of a chunk at a place, at most \<open>maxSize\<close> of them.\<close>

fun copyCached :: "(int \<times> bytes) list \<Rightarrow> int \<Rightarrow> int \<Rightarrow> bytes option" where
  "copyCached [] at maxSize = None"
| "copyCached ((o', b) # cs) at maxSize =
     (if at < o' \<or> o' + int (length b) \<le> at then copyCached cs at maxSize
      else Some (take (nat (min maxSize (o' + int (length b) - at))) (drop (nat (at - o')) b)))"

definition pendingCovers :: "RemoteSource \<Rightarrow> int \<Rightarrow> bool" where
  "pendingCovers s at \<longleftrightarrow>
     list_ex (\<lambda>p. sp_offset p \<le> at \<and> at < sp_offset p + sp_length p) (rs_pending s)"

text \<open>One pass: what \<open>readData\<close> returns, a question it asks, or that it waits.\<close>

datatype ReadStep = ReadBytes bytes | ReadEnd | ReadError | ReadAsk nat int int | ReadWait

definition read_step :: "int \<Rightarrow> int \<Rightarrow> RemoteSource \<Rightarrow> ReadStep \<times> RemoteSource" where
  "read_step at maxSize s =
     (if maxSize \<le> 0 \<or> rs_size s \<le> at then (ReadEnd, s)
      else if rs_aborted s \<or> rs_failed s then (ReadError, s)
      else case copyCached (rs_cache s) at (min maxSize (rs_size s - at)) of
             Some b \<Rightarrow> (ReadBytes b, s)
           | None \<Rightarrow>
               if pendingCovers s at then (ReadWait, s)
               else
                 let len = to_int32 (min (max maxSize kReadAhead) (rs_size s - at));
                     p = \<lparr>sp_id = rs_nextId s, sp_offset = at, sp_length = len\<rparr>
                 in (ReadAsk (sp_id p) at len,
                     s\<lparr>rs_nextId := (rs_nextId s + 1) mod 4294967296, rs_pending := rs_pending s @ [p]\<rparr>))"

text \<open>The first pending question with an id goes: \<open>find_if\<close> and \<open>erase\<close>.\<close>

fun erase_id :: "nat \<Rightarrow> SrcPending list \<Rightarrow> SrcPending list" where
  "erase_id i [] = []"
| "erase_id i (p # ps) = (if sp_id p = i then ps else p # erase_id i ps)"

definition find_id :: "nat \<Rightarrow> SrcPending list \<Rightarrow> SrcPending option" where
  "find_id i ps = List.find (\<lambda>p. sp_id p = i) ps"

text \<open>The oldest chunks go while the cache is too big and has more than one.\<close>

fun shrink :: "(int \<times> bytes) list \<Rightarrow> int \<Rightarrow> (int \<times> bytes) list \<times> int" where
  "shrink (c # d # cs) n =
     (if kCacheBytes < n then shrink (d # cs) (n - int (length (snd c))) else (c # d # cs, n))"
| "shrink cs n = (cs, n)"

definition deliver :: "nat \<Rightarrow> int \<Rightarrow> bytes \<Rightarrow> RemoteSource \<Rightarrow> RemoteSource" where
  "deliver i offset b s =
     (case find_id i (rs_pending s) of
        None \<Rightarrow> s
      | Some p \<Rightarrow>
          if sp_offset p \<noteq> offset \<or> b = [] \<or> sp_length p < int (length b)
             \<or> rs_size s < offset + int (length b) then s
          else
            let (cache, n) = shrink (rs_cache s @ [(offset, b)]) (rs_cacheBytes s + int (length b))
            in s\<lparr>rs_pending := erase_id i (rs_pending s), rs_cache := cache, rs_cacheBytes := n\<rparr>)"

definition src_fail :: "nat \<Rightarrow> RemoteSource \<Rightarrow> RemoteSource" where
  "src_fail i s =
     (if find_id i (rs_pending s) = None then s
      else s\<lparr>rs_pending := erase_id i (rs_pending s), rs_failed := True\<rparr>)"

definition src_abort :: "RemoteSource \<Rightarrow> RemoteSource" where
  "src_abort s = s\<lparr>rs_aborted := True\<rparr>"

section \<open>Slices of a file\<close>

definition slice :: "bytes \<Rightarrow> int \<Rightarrow> int \<Rightarrow> bytes" where
  "slice f off n = take (nat n) (drop (nat off) f)"

text \<open>These bytes are the file's at that offset.\<close>

definition is_at :: "bytes \<Rightarrow> int \<Rightarrow> bytes \<Rightarrow> bool" where
  "is_at f off b \<longleftrightarrow> 0 \<le> off \<and> off + int (length b) \<le> int (length f) \<and> b = slice f off (int (length b))"

lemma is_at_nth:
  "is_at f off b \<longleftrightarrow> 0 \<le> off \<and> off + int (length b) \<le> int (length f)
     \<and> (\<forall>k < length b. b ! k = f ! (nat off + k))"
proof -
  have "b = take (length b) (drop (nat off) f) \<longleftrightarrow> (\<forall>k < length b. b ! k = f ! (nat off + k))"
    if "0 \<le> off" "off + int (length b) \<le> int (length f)"
    using that by (auto simp: list_eq_iff_nth_eq)
  then show ?thesis by (auto simp: is_at_def slice_def)
qed

lemma is_at_drop: "is_at f off b \<Longrightarrow> k \<le> length b \<Longrightarrow> is_at f (off + int k) (drop k b)"
  by (auto simp: is_at_nth nat_add_distrib add.assoc)

lemma is_at_take: "is_at f off b \<Longrightarrow> is_at f off (take k b)"
  by (auto simp: is_at_nth)

lemma is_at_append: "is_at f off b \<Longrightarrow> is_at f (off + int (length b)) c \<Longrightarrow> is_at f off (b @ c)"
  by (auto simp: is_at_nth nth_append nat_add_distrib)

section \<open>The invariant\<close>

text \<open>
  With the bytes of a file behind it: every chunk of the cache is the file's, the count is the size
  of the chunks and bounded, and the questions lie in the file.
\<close>

definition src_inv :: "bytes \<Rightarrow> RemoteSource \<Rightarrow> bool" where
  "src_inv f s \<longleftrightarrow>
     rs_size s = int (length f)
     \<and> (\<forall>(off, b) \<in> set (rs_cache s). is_at f off b \<and> b \<noteq> [])
     \<and> rs_cacheBytes s = (\<Sum>c\<leftarrow>rs_cache s. int (length (snd c)))
     \<and> (rs_cacheBytes s \<le> kCacheBytes \<or> length (rs_cache s) \<le> 1)
     \<and> (\<forall>p \<in> set (rs_pending s). 0 \<le> sp_offset p \<and> sp_offset p < rs_size s)"

lemma src_inv_new: "src_inv f (mkRemoteSource (int (length f)))"
  by (simp add: src_inv_def mkRemoteSource_def)

lemma copyCached_at:
  "copyCached cs at n = Some b \<Longrightarrow> 0 < n \<Longrightarrow> \<forall>(off, c) \<in> set cs. is_at f off c \<Longrightarrow>
     is_at f at b \<and> b \<noteq> [] \<and> int (length b) \<le> n"
proof (induction cs at n rule: copyCached.induct)
  case (2 off c cs at n)
  show ?case
  proof (cases "at < off \<or> off + int (length c) \<le> at")
    case False
    then have b: "b = take (nat (min n (off + int (length c) - at))) (drop (nat (at - off)) c)"
      using 2(2) by simp
    have "is_at f (off + int (nat (at - off))) (drop (nat (at - off)) c)"
      using 2(4) False by (intro is_at_drop) auto
    then have "is_at f at b" using False b by (simp add: is_at_take)
    then show ?thesis using False 2(3) by (auto simp: b)
  qed (use 2 in auto)
qed simp

lemma shrink_inv:
  "shrink cs n = (ds, m) \<Longrightarrow> n = (\<Sum>c\<leftarrow>cs. int (length (snd c))) \<Longrightarrow>
     set ds \<subseteq> set cs \<and> m = (\<Sum>c\<leftarrow>ds. int (length (snd c))) \<and> (m \<le> kCacheBytes \<or> length ds \<le> 1)"
proof (induction cs n arbitrary: ds m rule: shrink.induct)
  case (1 c d cs n)
  then show ?case by (cases "kCacheBytes < n") (auto split: if_splits)
qed auto

lemma erase_subset: "set (erase_id i ps) \<subseteq> set ps"
  by (induction ps) auto

lemma src_inv_deliver:
  assumes "src_inv f s" "b \<noteq> [] \<Longrightarrow> is_at f off b"
  shows "src_inv f (deliver i off b s)"
proof -
  obtain ds m where d: "shrink (rs_cache s @ [(off, b)]) (rs_cacheBytes s + int (length b)) = (ds, m)"
    by force
  have "set ds \<subseteq> set (rs_cache s @ [(off, b)]) \<and> m = (\<Sum>c\<leftarrow>ds. int (length (snd c)))
      \<and> (m \<le> kCacheBytes \<or> length ds \<le> 1)"
    using assms(1) by (intro shrink_inv [OF d]) (simp add: src_inv_def)
  note sh = this
  have e: "deliver i off b s = s \<or> (b \<noteq> [] \<and> deliver i off b s =
      s\<lparr>rs_pending := erase_id i (rs_pending s), rs_cache := ds, rs_cacheBytes := m\<rparr>)"
    by (simp add: deliver_def d split: option.split)
  have "src_inv f (s\<lparr>rs_pending := erase_id i (rs_pending s), rs_cache := ds, rs_cacheBytes := m\<rparr>)"
    if "b \<noteq> []"
  proof -
    have "\<forall>(o', c) \<in> set ds. is_at f o' c \<and> c \<noteq> []"
      using sh assms that by (auto simp: src_inv_def)
    moreover have "\<forall>p \<in> set (erase_id i (rs_pending s)). 0 \<le> sp_offset p \<and> sp_offset p < rs_size s"
      using assms(1) erase_subset [of i "rs_pending s"] by (auto simp: src_inv_def)
    ultimately show ?thesis using sh assms(1) by (auto simp: src_inv_def)
  qed
  with e assms(1) show ?thesis by auto
qed

lemma src_inv_fail: "src_inv f s \<Longrightarrow> src_inv f (src_fail i s)"
  using erase_subset [of i "rs_pending s"] by (auto simp: src_fail_def src_inv_def)

lemma src_inv_abort: "src_inv f s \<Longrightarrow> src_inv f (src_abort s)"
  by (auto simp: src_abort_def src_inv_def)

lemma src_inv_read: "src_inv f s \<Longrightarrow> 0 \<le> at \<Longrightarrow> src_inv f (snd (read_step at n s))"
  by (auto simp: read_step_def src_inv_def Let_def split: option.split)

lemma read_step_bytes:
  assumes "src_inv f s" "fst (read_step at n s) = ReadBytes b"
  shows "is_at f at b \<and> b \<noteq> [] \<and> int (length b) \<le> n"
proof -
  have c: "copyCached (rs_cache s) at (min n (rs_size s - at)) = Some b" "0 < min n (rs_size s - at)"
    using assms(2) by (auto simp: read_step_def Let_def split: if_splits option.splits)
  have "\<forall>(off, c) \<in> set (rs_cache s). is_at f off c" using assms(1) by (auto simp: src_inv_def)
  from copyCached_at [OF c this] show ?thesis by simp
qed

end
