(* ===== verification/MediaFeed.thy ===== *)
theory MediaFeed
  imports RemoteSource QtText
begin

text \<open>
  \<open>ipc/mediafeed.cpp\<close>: the side of the user interface that answers the media child's questions for
  bytes, from a local file or from the local stream server. A reply of Qt's network stack is a record:
  the offset that was asked for, the status and the Content-Range header once they are there, the bytes
  that can be read, how many came in all, and whether it is finished. A reply that was given up is
  forgotten at once. Reading the local file is the function \<open>rd\<close>.
\<close>

section \<open>State\<close>

datatype FeedSource = LocalFile "int option" | LocalStream | OtherUrl

record FeedReply =
  fr_offset :: int
  fr_status :: int
  fr_range :: string
  fr_avail :: bytes
  fr_received :: int
  fr_finished :: bool

record FeedPending =
  fp_id :: nat
  fp_offset :: int
  fp_length :: int

datatype FeedSignal = FeedReady int | FeedFailed string | FeedData nat int bytes | FeedRefused nat

record MediaFeed =
  mf_source :: FeedSource
  mf_size :: int
  mf_fileOpen :: bool
  mf_reply :: "FeedReply option"
  mf_checked :: bool
  mf_retriedAt :: int
  mf_pull :: bool
  mf_buf :: bytes
  mf_bufStart :: int
  mf_readerAt :: int
  mf_pending :: "FeedPending list"
  mf_posted :: bool
  mf_signals :: "FeedSignal list"

definition kMaxRequest :: int where "kMaxRequest = 4 * 1024 * 1024"
definition kMaxPending :: nat where "kMaxPending = 16"
definition kWindow :: int where "kWindow = 16 * 1024 * 1024"
definition kKeepBehind :: int where "kKeepBehind = 2 * 1024 * 1024"
definition kNearAhead :: int where "kNearAhead = 4 * 1024 * 1024"
definition kMinAnswer :: int where "kMinAnswer = 64 * 1024"

definition mkMediaFeed :: "FeedSource \<Rightarrow> MediaFeed" where
  "mkMediaFeed src = \<lparr>mf_source = src, mf_size = -1, mf_fileOpen = False, mf_reply = None,
     mf_checked = False, mf_retriedAt = -1, mf_pull = False, mf_buf = [], mf_bufStart = 0,
     mf_readerAt = 0, mf_pending = [], mf_posted = False, mf_signals = []\<rparr>"

definition fd_emit :: "FeedSignal \<Rightarrow> MediaFeed \<Rightarrow> MediaFeed" where
  "fd_emit g s = s\<lparr>mf_signals := mf_signals s @ [g]\<rparr>"

definition bufEnd :: "MediaFeed \<Rightarrow> int" where
  "bufEnd s = mf_bufStart s + int (length (mf_buf s))"

section \<open>Operations\<close>

definition feed_start :: "MediaFeed \<Rightarrow> MediaFeed" where
  "feed_start s =
     (case mf_source s of
        LocalFile None \<Rightarrow> fd_emit (FeedFailed ''cannot open file'') s
      | LocalFile (Some n) \<Rightarrow> fd_emit (FeedReady n) (s\<lparr>mf_fileOpen := True, mf_size := n\<rparr>)
      | OtherUrl \<Rightarrow> fd_emit (FeedFailed ''source not allowed'') s
      | LocalStream \<Rightarrow> s)"

text \<open>The answer to the HEAD request of \<open>startHttp\<close>.\<close>

definition onHead :: "bool \<Rightarrow> int \<Rightarrow> MediaFeed \<Rightarrow> MediaFeed" where
  "onHead ok len s =
     (if \<not> ok \<or> len \<le> 0 then fd_emit (FeedFailed ''stream unavailable'') s
      else fd_emit (FeedReady len) (s\<lparr>mf_size := len\<rparr>))"

definition streamFrom :: "int \<Rightarrow> MediaFeed \<Rightarrow> MediaFeed" where
  "streamFrom offset s =
     s\<lparr>mf_buf := [], mf_bufStart := offset, mf_readerAt := offset, mf_checked := False,
       mf_reply := Some \<lparr>fr_offset = offset, fr_status = 0, fr_range = [], fr_avail = [],
                         fr_received = 0, fr_finished = False\<rparr>\<rparr>"

definition drained :: "MediaFeed \<Rightarrow> bool" where
  "drained s = (case mf_reply s of None \<Rightarrow> True | Some r \<Rightarrow> fr_finished r \<and> fr_avail r = [])"

text \<open>What the loop does with one question.\<close>

datatype ServeStep = StillWaits | Answered MediaFeed | AskAgain MediaFeed

definition serve_one :: "bool \<Rightarrow> int \<Rightarrow> FeedPending \<Rightarrow> MediaFeed \<Rightarrow> ServeStep" where
  "serve_one dr bend p s =
     (if mf_bufStart s \<le> fp_offset p \<and> fp_offset p < bend then
        let n = min (fp_length p) (bend - fp_offset p) in
        if min (fp_length p) kMinAnswer \<le> n \<or> dr \<or> mf_size s \<le> fp_offset p + n then
          Answered (fd_emit (FeedData (fp_id p) (fp_offset p) (slice (mf_buf s) (fp_offset p - mf_bufStart s) n))
            (s\<lparr>mf_retriedAt := -1, mf_readerAt := fp_offset p + n\<rparr>))
        else StillWaits
      else if dr then
        if mf_retriedAt s \<noteq> fp_offset p then AskAgain (s\<lparr>mf_retriedAt := fp_offset p\<rparr>)
        else Answered (fd_emit (FeedRefused (fp_id p)) s)
      else StillWaits)"

text \<open>
  The loop over the pending questions: the ones kept, and whether it ended by asking the server again
  (the offset to stream from).
\<close>

fun serve_loop ::
  "bool \<Rightarrow> int \<Rightarrow> FeedPending list \<Rightarrow> MediaFeed \<Rightarrow> FeedPending list \<times> MediaFeed \<times> int option" where
  "serve_loop dr bend [] s = ([], s, None)"
| "serve_loop dr bend (p # ps) s =
     (case serve_one dr bend p s of
        StillWaits \<Rightarrow> (let (ks, s2, again) = serve_loop dr bend ps s in (p # ks, s2, again))
      | Answered s1 \<Rightarrow> serve_loop dr bend ps s1
      | AskAgain s1 \<Rightarrow> (p # ps, s1, Some (fp_offset p)))"

definition trimBuffer :: "MediaFeed \<Rightarrow> MediaFeed" where
  "trimBuffer s =
     (let keepFrom = foldl (\<lambda>k p. min k (fp_offset p)) (mf_readerAt s - kKeepBehind) (mf_pending s);
          dropN = clamp_int (keepFrom - mf_bufStart s) 0 (int (length (mf_buf s)))
      in if dropN < kWindow div 4 then s
         else s\<lparr>mf_buf := drop (nat dropN) (mf_buf s), mf_bufStart := mf_bufStart s + dropN\<rparr>)"

definition servePending :: "MediaFeed \<Rightarrow> MediaFeed" where
  "servePending s =
     (let (kept, s1, again) = serve_loop (drained s) (bufEnd s) (mf_pending s) s;
          s2 = s1\<lparr>mf_pending := kept\<rparr>
      in case again of
           Some off \<Rightarrow> streamFrom off s2
         | None \<Rightarrow>
             let s3 = trimBuffer (s2\<lparr>mf_pull := mf_reply s2 \<noteq> None \<and> kept \<noteq> []\<rparr>)
             in case mf_reply s3 of
                  Some r \<Rightarrow> if fr_avail r \<noteq> [] \<and> int (length (mf_buf s3)) < kWindow
                             then s3\<lparr>mf_posted := True\<rparr> else s3
                | None \<Rightarrow> s3)"

definition feed_request :: "(int \<Rightarrow> int \<Rightarrow> bytes) \<Rightarrow> nat \<Rightarrow> int \<Rightarrow> int \<Rightarrow> MediaFeed \<Rightarrow> MediaFeed" where
  "feed_request rd i offset len0 s =
     (if mf_size s < 0 \<or> offset < 0 \<or> mf_size s \<le> offset \<or> len0 \<le> 0 \<or> kMaxRequest < len0
         \<or> kMaxPending \<le> length (mf_pending s)
      then fd_emit (FeedRefused i) s
      else
        let len = min len0 (mf_size s - offset) in
        if mf_fileOpen s then
          let b = rd offset len in
          if b = [] then fd_emit (FeedRefused i) s else fd_emit (FeedData i offset b) s
        else
          let s1 = s\<lparr>mf_pending := mf_pending s @ [\<lparr>fp_id = i, fp_offset = offset, fp_length = len\<rparr>]\<rparr>;
              inWindow = (mf_bufStart s1 \<le> offset \<and> offset < bufEnd s1);
              comingSoon = (mf_reply s1 \<noteq> None \<and> bufEnd s1 \<le> offset \<and> offset \<le> bufEnd s1 + kNearAhead)
          in if inWindow \<or> comingSoon then servePending s1 else streamFrom offset s1)"

text \<open>\<open>bytes START-END/TOTAL\<close>: where a partial answer says it starts.\<close>

definition range_start :: "string \<Rightarrow> int option" where
  "range_start hdr =
     (let dash = length (before_first CHR ''-'' hdr) in
      if starts_with ''bytes '' hdr \<and> CHR ''-'' \<in> set hdr \<and> 6 < dash
      then Some (case to_long_long (ba_trimmed (drop 6 (take dash hdr))) of None \<Rightarrow> 0 | Some v \<Rightarrow> v)
      else None)"

definition replyStartsAtBuffer :: "FeedReply \<Rightarrow> MediaFeed \<Rightarrow> bool \<times> MediaFeed" where
  "replyStartsAtBuffer r s =
     (if mf_checked s then (True, s)
      else
        let ok = (if fr_status r = 206 then range_start (fr_range r) = Some (mf_bufStart s)
                  else fr_status r = 200 \<and> mf_bufStart s = 0)
        in if ok then (True, s\<lparr>mf_checked := True\<rparr>)
           else (False, s\<lparr>mf_reply := None, mf_pending := [],
                          mf_signals := mf_signals s @ map (\<lambda>p. FeedRefused (fp_id p)) (mf_pending s)\<rparr>))"

definition onHttpData :: "MediaFeed \<Rightarrow> MediaFeed" where
  "onHttpData s =
     (case mf_reply s of
        None \<Rightarrow> s
      | Some r \<Rightarrow>
          let (ok, s1) = replyStartsAtBuffer r s in
          if \<not> ok then s1
          else
            let n = nat (kWindow - int (length (mf_buf s1)))
            in servePending (s1\<lparr>mf_buf := mf_buf s1 @ take n (fr_avail r),
                                mf_reply := Some (r\<lparr>fr_avail := drop n (fr_avail r)\<rparr>)\<rparr>))"

section \<open>Events\<close>

text \<open>
  What happens to a feed: the answer to the HEAD request, a question of the child, the headers, the
  bytes and the end of the current reply, a tick of the pull timer, and the posted call.
\<close>

datatype FeedEvent =
    EvHead bool int
  | EvRequest nat int int
  | EvHeaders int string
  | EvData bytes
  | EvFinished
  | EvPull
  | EvPosted

definition on_reply :: "(FeedReply \<Rightarrow> FeedReply) \<Rightarrow> MediaFeed \<Rightarrow> MediaFeed" where
  "on_reply f s = s\<lparr>mf_reply := map_option f (mf_reply s)\<rparr>"

fun feed_event :: "(int \<Rightarrow> int \<Rightarrow> bytes) \<Rightarrow> FeedEvent \<Rightarrow> MediaFeed \<Rightarrow> MediaFeed" where
  "feed_event rd (EvHead ok len) s = onHead ok len s"
| "feed_event rd (EvRequest i off len) s = feed_request rd i off len s"
| "feed_event rd (EvHeaders st rng) s = on_reply (\<lambda>r. r\<lparr>fr_status := st, fr_range := rng\<rparr>) s"
| "feed_event rd (EvData b) s =
     onHttpData (on_reply (\<lambda>r. r\<lparr>fr_avail := fr_avail r @ b,
       fr_received := fr_received r + int (length b)\<rparr>) s)"
| "feed_event rd EvFinished s = onHttpData (on_reply (\<lambda>r. r\<lparr>fr_finished := True\<rparr>) s)"
| "feed_event rd EvPull s = (if mf_pull s then onHttpData s else s)"
| "feed_event rd EvPosted s = (if mf_posted s then onHttpData (s\<lparr>mf_posted := False\<rparr>) else s)"

section \<open>The invariant\<close>

text \<open>
  With a file behind the stream. \<open>reply_start\<close> is where the headers of a reply say that its bytes
  start; what came in is the file's from there. Once a reply is checked the buffer goes on where the
  unread bytes begin.
\<close>

definition reply_start :: "FeedReply \<Rightarrow> int option" where
  "reply_start r =
     (if fr_status r = 206 then range_start (fr_range r)
      else if fr_status r = 200 then Some 0 else None)"

definition reply_ok :: "bytes \<Rightarrow> FeedReply \<Rightarrow> bool" where
  "reply_ok f r \<longleftrightarrow>
     int (length (fr_avail r)) \<le> fr_received r \<and> (fr_status r = 0 \<longrightarrow> fr_received r = 0)
     \<and> (\<forall>st. reply_start r = Some st \<and> fr_avail r \<noteq> [] \<longrightarrow>
          is_at f (st + fr_received r - int (length (fr_avail r))) (fr_avail r))"

definition pending_ok :: "MediaFeed \<Rightarrow> bool" where
  "pending_ok s \<longleftrightarrow>
     (\<forall>p \<in> set (mf_pending s). 0 \<le> fp_offset p \<and> 0 < fp_length p \<and> fp_length p \<le> kMaxRequest
        \<and> fp_offset p + fp_length p \<le> mf_size s)"

definition answers_ok :: "bytes \<Rightarrow> FeedSignal list \<Rightarrow> bool" where
  "answers_ok f gs \<longleftrightarrow>
     (\<forall>i off b. FeedData i off b \<in> set gs \<longrightarrow> is_at f off b \<and> b \<noteq> [] \<and> int (length b) \<le> kMaxRequest)"

definition buffer_ok :: "bytes \<Rightarrow> MediaFeed \<Rightarrow> bool" where
  "buffer_ok f s \<longleftrightarrow>
     (mf_buf s \<noteq> [] \<longrightarrow> is_at f (mf_bufStart s) (mf_buf s))
     \<and> (\<forall>r. mf_reply s = Some r \<longrightarrow> reply_ok f r
          \<and> (if mf_checked s
             then \<exists>st. reply_start r = Some st \<and> bufEnd s = st + fr_received r - int (length (fr_avail r))
             else mf_buf s = [] \<and> fr_received r = int (length (fr_avail r))))"

definition feed_inv :: "bytes \<Rightarrow> MediaFeed \<Rightarrow> bool" where
  "feed_inv f s \<longleftrightarrow>
     (mf_size s = -1 \<or> mf_size s = int (length f)) \<and> pending_ok s
     \<and> (mf_pending s \<noteq> [] \<longrightarrow> mf_size s \<noteq> -1)
     \<and> answers_ok f (mf_signals s) \<and> buffer_ok f s"

text \<open>The server and the file say the truth about the bytes they hand out.\<close>

fun honest_event :: "bytes \<Rightarrow> MediaFeed \<Rightarrow> FeedEvent \<Rightarrow> bool" where
  "honest_event f s (EvHead ok len) \<longleftrightarrow> (ok \<and> 0 < len \<longrightarrow> len = int (length f))"
| "honest_event f s (EvHeaders st rng) \<longleftrightarrow> st \<noteq> 0 \<and> (\<forall>r. mf_reply s = Some r \<longrightarrow> fr_status r = 0)"
| "honest_event f s (EvData b) \<longleftrightarrow>
     (\<forall>r. mf_reply s = Some r \<longrightarrow> fr_status r \<noteq> 0
        \<and> (\<forall>st. reply_start r = Some st \<and> b \<noteq> [] \<longrightarrow> is_at f (st + fr_received r) b))"
| "honest_event f s _ \<longleftrightarrow> True"

definition honest_read :: "bytes \<Rightarrow> (int \<Rightarrow> int \<Rightarrow> bytes) \<Rightarrow> bool" where
  "honest_read f rd \<longleftrightarrow> (\<forall>off n. int (length (rd off n)) \<le> max 0 n \<and> (rd off n \<noteq> [] \<longrightarrow> is_at f off (rd off n)))"

section \<open>The invariant is kept\<close>

lemma answers_append:
  "answers_ok f (gs @ [g]) \<longleftrightarrow> answers_ok f gs
     \<and> (case g of FeedData i off b \<Rightarrow> is_at f off b \<and> b \<noteq> [] \<and> int (length b) \<le> kMaxRequest | _ \<Rightarrow> True)"
proof -
  have "(\<forall>i off b. FeedData i off b \<in> set (gs @ [g]) \<longrightarrow> Q off b) \<longleftrightarrow>
      (\<forall>i off b. FeedData i off b \<in> set gs \<longrightarrow> Q off b) \<and> (case g of FeedData i off b \<Rightarrow> Q off b | _ \<Rightarrow> True)"
    for Q by (cases g) (simp_all, blast)
  then show ?thesis unfolding answers_ok_def .
qed

lemma answers_emit:
  "answers_ok f (mf_signals (fd_emit g s)) \<longleftrightarrow> answers_ok f (mf_signals s)
     \<and> (case g of FeedData i off b \<Rightarrow> is_at f off b \<and> b \<noteq> [] \<and> int (length b) \<le> kMaxRequest | _ \<Rightarrow> True)"
  by (simp add: fd_emit_def answers_append)

lemma answers_refused: "answers_ok f gs \<Longrightarrow> answers_ok f (gs @ map (\<lambda>p. FeedRefused (fp_id p)) ps)"
  by (induction ps rule: rev_induct)
     (simp_all add: answers_append append.assoc [symmetric] del: append_assoc)

lemma slice_buffer:
  assumes "is_at f start buf" "start \<le> off" "0 < n" "off + n \<le> start + int (length buf)"
  shows "is_at f off (slice buf (off - start) n)" "int (length (slice buf (off - start) n)) = n"
    "slice buf (off - start) n \<noteq> []"
proof -
  have "is_at f (start + int (nat (off - start))) (drop (nat (off - start)) buf)"
    using assms by (intro is_at_drop) auto
  then show "is_at f off (slice buf (off - start) n)"
    using assms by (simp add: slice_def is_at_take)
  show l: "int (length (slice buf (off - start) n)) = n" using assms by (simp add: slice_def)
  then show "slice buf (off - start) n \<noteq> []" using assms(3) by auto
qed

text \<open>What the loop changes, and what it keeps.\<close>

definition feed_frame where
  "feed_frame s = (mf_buf s, mf_bufStart s, mf_reply s, mf_checked s, mf_size s, mf_pull s, mf_posted s, mf_pending s)"

lemma serve_one_frame:
  "serve_one dr bend p s = Answered s1 \<Longrightarrow> feed_frame s1 = feed_frame s"
  "serve_one dr bend p s = AskAgain s1 \<Longrightarrow> feed_frame s1 = feed_frame s \<and> dr
     \<and> mf_signals s1 = mf_signals s \<and> mf_retriedAt s \<noteq> fp_offset p \<and> mf_retriedAt s1 = fp_offset p"
  by (auto simp: serve_one_def Let_def fd_emit_def feed_frame_def split: if_splits)

lemma serve_loop_frame:
  "serve_loop dr bend ps s = (ks, s', again) \<Longrightarrow> feed_frame s' = feed_frame s \<and> set ks \<subseteq> set ps
     \<and> (\<forall>off. again = Some off \<longrightarrow> off \<in> fp_offset ` set ks)"
proof (induction ps arbitrary: s ks s' again)
  case (Cons p ps)
  show ?case
  proof (cases "serve_one dr bend p s")
    case StillWaits
    then show ?thesis using Cons.prems Cons.IH [of s] by (force split: prod.splits)
  next
    case (Answered s1)
    then show ?thesis using Cons.prems Cons.IH [of s1] serve_one_frame(1) [OF Answered] by force
  next
    case (AskAgain s1)
    then show ?thesis using Cons.prems serve_one_frame(2) [OF AskAgain] by force
  qed
qed simp

lemma serve_one_answers:
  assumes "serve_one dr (bufEnd s) p s = Answered s1" "answers_ok f (mf_signals s)"
    "mf_buf s \<noteq> [] \<Longrightarrow> is_at f (mf_bufStart s) (mf_buf s)" "0 < fp_length p" "fp_length p \<le> kMaxRequest"
  shows "answers_ok f (mf_signals s1)"
proof (cases "mf_bufStart s \<le> fp_offset p \<and> fp_offset p < bufEnd s")
  case True
  let ?n = "min (fp_length p) (bufEnd s - fp_offset p)"
  have "mf_buf s \<noteq> []" using True by (auto simp: bufEnd_def)
  with True assms slice_buffer [of f "mf_bufStart s" "mf_buf s" "fp_offset p" ?n]
  have "is_at f (fp_offset p) (slice (mf_buf s) (fp_offset p - mf_bufStart s) ?n)
      \<and> slice (mf_buf s) (fp_offset p - mf_bufStart s) ?n \<noteq> []
      \<and> int (length (slice (mf_buf s) (fp_offset p - mf_bufStart s) ?n)) \<le> kMaxRequest"
    by (auto simp: bufEnd_def)
  moreover have "mf_signals s1 = mf_signals s @ [FeedData (fp_id p) (fp_offset p)
      (slice (mf_buf s) (fp_offset p - mf_bufStart s) ?n)]"
    using True assms(1) by (auto simp: serve_one_def Let_def fd_emit_def split: if_splits)
  ultimately show ?thesis using assms(2) by (simp add: answers_append)
next
  case False
  then have "mf_signals s1 = mf_signals s @ [FeedRefused (fp_id p)]"
    using assms(1) by (auto simp: serve_one_def Let_def fd_emit_def split: if_splits)
  then show ?thesis using assms(2) by (simp add: answers_append)
qed

lemma serve_loop_answers:
  "serve_loop dr (bufEnd s) ps s = (ks, s', again) \<Longrightarrow> answers_ok f (mf_signals s) \<Longrightarrow>
   (mf_buf s \<noteq> [] \<Longrightarrow> is_at f (mf_bufStart s) (mf_buf s)) \<Longrightarrow>
   \<forall>p \<in> set ps. 0 < fp_length p \<and> fp_length p \<le> kMaxRequest \<Longrightarrow> answers_ok f (mf_signals s')"
proof (induction ps arbitrary: s ks s' again)
  case (Cons p ps)
  show ?case
  proof (cases "serve_one dr (bufEnd s) p s")
    case StillWaits
    then show ?thesis using Cons.prems Cons.IH [of s] by (auto split: prod.splits)
  next
    case (Answered s1)
    have "mf_buf s1 = mf_buf s" "mf_bufStart s1 = mf_bufStart s" "bufEnd s1 = bufEnd s"
      using serve_one_frame(1) [OF Answered] by (simp_all add: feed_frame_def bufEnd_def)
    then show ?thesis
      using Cons.prems Answered serve_one_answers [OF Answered] by (intro Cons.IH [of s1 ks s' again]) simp_all
  next
    case (AskAgain s1)
    then show ?thesis using Cons.prems serve_one_frame(2) [OF AskAgain] by simp
  qed
qed simp

lemma buffer_ok_stream: "buffer_ok f (streamFrom off s)"
  by (simp add: buffer_ok_def streamFrom_def reply_ok_def)

lemma buffer_ok_frame:
  "feed_frame s1 = feed_frame s \<Longrightarrow> buffer_ok f s1 = buffer_ok f s"
  by (simp add: feed_frame_def buffer_ok_def bufEnd_def)

lemma buffer_ok_pending [simp]: "buffer_ok f (s\<lparr>mf_pending := ps\<rparr>) = buffer_ok f s"
  "buffer_ok f (s\<lparr>mf_pull := b\<rparr>) = buffer_ok f s" "buffer_ok f (s\<lparr>mf_posted := b\<rparr>) = buffer_ok f s"
  by (simp_all add: buffer_ok_def bufEnd_def)

lemma trim_frame:
  "mf_size (trimBuffer s) = mf_size s" "mf_pending (trimBuffer s) = mf_pending s"
  "mf_signals (trimBuffer s) = mf_signals s" "mf_reply (trimBuffer s) = mf_reply s"
  "mf_pull (trimBuffer s) = mf_pull s"
  by (simp_all add: trimBuffer_def Let_def)

lemma buffer_ok_trim:
  assumes "buffer_ok f s" "mf_reply s = None \<or> mf_checked s \<or> mf_buf s = []"
  shows "buffer_ok f (trimBuffer s)"
proof -
  define d where "d = clamp_int (foldl (\<lambda>k p. min k (fp_offset p)) (mf_readerAt s - kKeepBehind) (mf_pending s)
      - mf_bufStart s) 0 (int (length (mf_buf s)))"
  have d: "0 \<le> d" "d \<le> int (length (mf_buf s))" by (simp_all add: d_def clamp_int_def)
  have e: "trimBuffer s = (if d < kWindow div 4 then s
      else s\<lparr>mf_buf := drop (nat d) (mf_buf s), mf_bufStart := mf_bufStart s + d\<rparr>)"
    by (simp add: trimBuffer_def d_def Let_def)
  have at: "is_at f (mf_bufStart s + d) (drop (nat d) (mf_buf s))" if "drop (nat d) (mf_buf s) \<noteq> []"
  proof -
    have "mf_buf s \<noteq> []" using that by auto
    then have "is_at f (mf_bufStart s) (mf_buf s)" using assms(1) by (simp add: buffer_ok_def)
    from is_at_drop [OF this, of "nat d"] d show ?thesis by simp
  qed
  then show ?thesis
    using assms d unfolding e by (cases "mf_reply s") (auto simp: buffer_ok_def bufEnd_def)
qed

lemma serve_inv:
  assumes "feed_inv f s" "mf_reply s = None \<or> mf_checked s \<or> mf_buf s = []"
  shows "feed_inv f (servePending s)"
proof -
  obtain ks s1 again where l: "serve_loop (drained s) (bufEnd s) (mf_pending s) s = (ks, s1, again)"
    by (metis prod_cases3)
  have ok: "answers_ok f (mf_signals s1)"
    using assms(1) by (intro serve_loop_answers [OF l]) (auto simp: feed_inv_def buffer_ok_def pending_ok_def)
  note fr = serve_loop_frame [OF l]
  have b1: "buffer_ok f s1" using buffer_ok_frame [of s1 s f] fr assms(1) by (simp add: feed_inv_def)
  have sz: "mf_size s1 = mf_size s" "mf_reply s1 = mf_reply s" "mf_checked s1 = mf_checked s"
    "mf_buf s1 = mf_buf s" using fr by (simp_all add: feed_frame_def)
  define s3 where "s3 = trimBuffer (s1\<lparr>mf_pending := ks, mf_pull := mf_reply s1 \<noteq> None \<and> ks \<noteq> []\<rparr>)"
  have b3: "buffer_ok f s3" unfolding s3_def
    by (rule buffer_ok_trim) (use b1 sz assms(2) in simp_all)
  have p: "servePending s = (case again of Some off \<Rightarrow> streamFrom off (s1\<lparr>mf_pending := ks\<rparr>)
      | None \<Rightarrow> (case mf_reply s3 of
            Some r \<Rightarrow> if fr_avail r \<noteq> [] \<and> int (length (mf_buf s3)) < kWindow then s3\<lparr>mf_posted := True\<rparr> else s3
          | None \<Rightarrow> s3))"
    by (simp add: servePending_def l s3_def Let_def split: option.split)
  have "pending_ok (s1\<lparr>mf_pending := ks\<rparr>)" "ks \<noteq> [] \<longrightarrow> mf_size s \<noteq> -1"
    using assms(1) fr sz(1) by (auto simp: feed_inv_def pending_ok_def)
  then have "feed_inv f s3" "feed_inv f (streamFrom off (s1\<lparr>mf_pending := ks\<rparr>))" for off
    using assms(1) ok b3 sz buffer_ok_stream [of f off "s1\<lparr>mf_pending := ks\<rparr>"]
    by (simp_all add: feed_inv_def s3_def trim_frame pending_ok_def streamFrom_def)
  then show ?thesis
    unfolding p by (auto split: option.split simp: feed_inv_def pending_ok_def)
qed

lemma range_reply:
  "reply_start (r\<lparr>fr_avail := a\<rparr>) = reply_start r" "reply_start (r\<lparr>fr_received := n\<rparr>) = reply_start r"
  "reply_start (r\<lparr>fr_finished := b\<rparr>) = reply_start r"
  by (simp_all add: reply_start_def)

lemma http_inv:
  assumes "feed_inv f s" shows "feed_inv f (onHttpData s)"
proof (cases "mf_reply s")
  case (Some r)
  obtain ok s1 where c: "replyStartsAtBuffer r s = (ok, s1)" by force
  show ?thesis
  proof (cases ok)
    case False
    with c have "s1 = s\<lparr>mf_reply := None, mf_pending := [],
        mf_signals := mf_signals s @ map (\<lambda>p. FeedRefused (fp_id p)) (mf_pending s)\<rparr>"
      by (auto simp: replyStartsAtBuffer_def Let_def split: if_splits)
    then have "feed_inv f s1"
      using assms by (simp add: feed_inv_def pending_ok_def answers_refused buffer_ok_def)
    then show ?thesis using Some c False by (simp add: onHttpData_def)
  next
    case True
    have s1: "s1 = s\<lparr>mf_checked := True\<rparr>"
      using c True by (auto simp: replyStartsAtBuffer_def Let_def split: if_splits)
    have b: "buffer_ok f s" using assms by (simp add: feed_inv_def)
    have r: "reply_ok f r" using b Some by (simp add: buffer_ok_def)
    have st: "\<exists>st. reply_start r = Some st \<and> bufEnd s = st + fr_received r - int (length (fr_avail r))"
    proof (cases "mf_checked s")
      case True
      then show ?thesis using b Some by (simp add: buffer_ok_def)
    next
      case False
      then have "reply_start r = Some (mf_bufStart s)"
        using c True
        by (cases "fr_status r = 206"; cases "fr_status r = 200 \<and> mf_bufStart s = 0";
            cases "range_start (fr_range r) = Some (mf_bufStart s)")
           (simp_all add: replyStartsAtBuffer_def reply_start_def Let_def)
      then show ?thesis using b Some False by (simp add: buffer_ok_def bufEnd_def)
    qed
    then obtain st where st: "reply_start r = Some st" "bufEnd s = st + fr_received r - int (length (fr_avail r))"
      by blast
    define n where "n = nat (kWindow - int (length (mf_buf s1)))"
    define s2 where "s2 = s1\<lparr>mf_buf := mf_buf s1 @ take n (fr_avail r), mf_reply := Some (r\<lparr>fr_avail := drop n (fr_avail r)\<rparr>)\<rparr>"
    have av: "is_at f (bufEnd s) (fr_avail r)" if "fr_avail r \<noteq> []"
      using r st that by (simp add: reply_ok_def)
    have buf: "is_at f (mf_bufStart s) (mf_buf s @ take n (fr_avail r))" if "mf_buf s @ take n (fr_avail r) \<noteq> []"
    proof (cases "mf_buf s = []")
      case True
      then show ?thesis using that av is_at_take [of f "bufEnd s" "fr_avail r" n] by (auto simp: bufEnd_def)
    next
      case False
      then have l: "is_at f (mf_bufStart s) (mf_buf s)" using b by (simp add: buffer_ok_def)
      show ?thesis
      proof (cases "fr_avail r = []")
        case False
        then show ?thesis using l av is_at_take [of f "bufEnd s" "fr_avail r" n]
          by (intro is_at_append) (simp_all add: bufEnd_def)
      qed (use l in simp)
    qed
    have reply: "reply_ok f (r\<lparr>fr_avail := drop n (fr_avail r)\<rparr>)"
      unfolding reply_ok_def
    proof (intro conjI allI impI)
      fix st' assume "reply_start (r\<lparr>fr_avail := drop n (fr_avail r)\<rparr>) = Some st'
          \<and> fr_avail (r\<lparr>fr_avail := drop n (fr_avail r)\<rparr>) \<noteq> []"
      then have e: "st' = st" "n < length (fr_avail r)" using st(1) by (auto simp: range_reply)
      then have "fr_avail r \<noteq> []" by auto
      then have "is_at f (bufEnd s) (fr_avail r)" by (rule av)
      from is_at_drop [OF this, of n] e st(2)
      show "is_at f (st' + fr_received (r\<lparr>fr_avail := drop n (fr_avail r)\<rparr>)
          - int (length (fr_avail (r\<lparr>fr_avail := drop n (fr_avail r)\<rparr>)))) (fr_avail (r\<lparr>fr_avail := drop n (fr_avail r)\<rparr>))"
        by (simp add: of_nat_diff algebra_simps)
    qed (use r in \<open>auto simp: reply_ok_def\<close>)
    have "bufEnd s2 = st + fr_received r - int (length (drop n (fr_avail r)))"
      using st(2) by (simp add: s2_def s1 bufEnd_def)
    then have "buffer_ok f s2"
      using buf reply st(1) by (simp add: buffer_ok_def s2_def s1 range_reply bufEnd_def)
    then have "feed_inv f s2" "mf_checked s2"
      using assms by (simp_all add: feed_inv_def pending_ok_def s2_def s1)
    then have "feed_inv f (servePending s2)" by (intro serve_inv) simp_all
    then show ?thesis using Some c True by (simp add: onHttpData_def s2_def n_def Let_def)
  qed
qed (use assms in \<open>simp add: onHttpData_def\<close>)

lemma feed_inv_emit:
  "feed_inv f (fd_emit g s) \<longleftrightarrow> feed_inv f s
     \<and> (case g of FeedData i off b \<Rightarrow> is_at f off b \<and> b \<noteq> [] \<and> int (length b) \<le> kMaxRequest | _ \<Rightarrow> True)"
proof -
  have "buffer_ok f (fd_emit g s) = buffer_ok f s"
    by (simp add: buffer_ok_def fd_emit_def bufEnd_def cong: if_cong)
  moreover have "pending_ok (fd_emit g s) = pending_ok s" by (simp add: pending_ok_def fd_emit_def)
  moreover have "mf_size (fd_emit g s) = mf_size s" "mf_pending (fd_emit g s) = mf_pending s"
    by (simp_all add: fd_emit_def)
  ultimately show ?thesis by (auto simp: feed_inv_def answers_emit)
qed

lemma stream_inv:
  "(mf_size s = -1 \<or> mf_size s = int (length f)) \<Longrightarrow> pending_ok s \<Longrightarrow>
     (mf_pending s \<noteq> [] \<Longrightarrow> mf_size s \<noteq> -1) \<Longrightarrow> answers_ok f (mf_signals s) \<Longrightarrow> feed_inv f (streamFrom off s)"
  using buffer_ok_stream [of f off s] by (auto simp: feed_inv_def streamFrom_def pending_ok_def)

lemma request_inv:
  assumes "feed_inv f s" "honest_read f rd" "mf_reply s = None \<or> mf_checked s \<or> mf_buf s = []"
  shows "feed_inv f (feed_request rd i off len0 s)"
proof -
  let ?refuse = "mf_size s < 0 \<or> off < 0 \<or> mf_size s \<le> off \<or> len0 \<le> 0 \<or> kMaxRequest < len0
         \<or> kMaxPending \<le> length (mf_pending s)"
  have emit: "feed_inv f (fd_emit g s)"
    if "case g of FeedData i off b \<Rightarrow> is_at f off b \<and> b \<noteq> [] \<and> int (length b) \<le> kMaxRequest | _ \<Rightarrow> True" for g
    using assms(1) that by (simp add: feed_inv_emit)
  show ?thesis
  proof (cases ?refuse)
    case True
    then show ?thesis using emit [of "FeedRefused i"] by (simp add: feed_request_def)
  next
    case False
    define len where "len = min len0 (mf_size s - off)"
    have len: "0 < len" "len \<le> kMaxRequest" "off + len \<le> mf_size s" using False by (auto simp: len_def)
    show ?thesis
    proof (cases "mf_fileOpen s")
      case True
      have "int (length (rd off len)) \<le> max 0 len \<and> (rd off len \<noteq> [] \<longrightarrow> is_at f off (rd off len))"
        using assms(2) unfolding honest_read_def by blast
      then have b: "int (length (rd off len)) \<le> len" "rd off len \<noteq> [] \<Longrightarrow> is_at f off (rd off len)"
        using len(1) by (auto simp: max_def)
      show ?thesis
        using False True emit [of "FeedRefused i"] emit [of "FeedData i off (rd off len)"] b len(2)
        by (cases "rd off len = []") (simp_all add: feed_request_def len_def [symmetric] Let_def)
    next
      case notFile: False
      define s1 where "s1 = s\<lparr>mf_pending := mf_pending s @ [\<lparr>fp_id = i, fp_offset = off, fp_length = len\<rparr>]\<rparr>"
      have i1: "feed_inv f s1"
        using assms(1) False len by (auto simp: feed_inv_def s1_def pending_ok_def)
      have "feed_inv f (servePending s1)"
        using i1 assms(3) by (intro serve_inv) (simp_all add: s1_def)
      moreover have "feed_inv f (streamFrom off s1)"
        using i1 by (intro stream_inv) (simp_all add: feed_inv_def)
      ultimately show ?thesis
        using False notFile by (simp add: feed_request_def len_def [symmetric] s1_def [symmetric] Let_def)
    qed
  qed
qed

lemma buffer_between: "feed_inv f s \<Longrightarrow> mf_reply s = None \<or> mf_checked s \<or> mf_buf s = []"
  by (cases "mf_reply s") (auto simp: feed_inv_def buffer_ok_def split: if_splits)

lemma on_reply_inv:
  assumes "feed_inv f s" "\<And>r. mf_reply s = Some r \<Longrightarrow> reply_ok f r \<Longrightarrow> reply_ok f (g r)"
    "\<And>r st. mf_reply s = Some r \<Longrightarrow> mf_checked s \<Longrightarrow> reply_start r = Some st \<Longrightarrow> reply_start (g r) = Some st"
    "\<And>r. mf_reply s = Some r \<Longrightarrow> fr_received (g r) - int (length (fr_avail (g r))) = fr_received r - int (length (fr_avail r))"
  shows "feed_inv f (on_reply g s)"
proof (cases "mf_reply s")
  case (Some r)
  have b: "buffer_ok f s" using assms(1) by (simp add: feed_inv_def)
  then have r: "reply_ok f (g r)" using Some assms(2) by (simp add: buffer_ok_def)
  have "buffer_ok f (on_reply g s)"
  proof (cases "mf_checked s")
    case True
    then obtain st where "reply_start r = Some st" "bufEnd s = st + fr_received r - int (length (fr_avail r))"
      using b Some by (auto simp: buffer_ok_def)
    then have "reply_start (g r) = Some st" "bufEnd s = st + fr_received (g r) - int (length (fr_avail (g r)))"
      using assms(3,4) Some True by (simp, metis add_diff_eq)
    then show ?thesis using b Some r True by (simp add: buffer_ok_def on_reply_def bufEnd_def)
  next
    case False
    then show ?thesis using b Some r assms(4) [OF Some] by (simp add: buffer_ok_def on_reply_def bufEnd_def)
  qed
  then show ?thesis using assms(1) by (simp add: feed_inv_def on_reply_def pending_ok_def)
next
  case None
  then have "on_reply g s = s" by (simp add: on_reply_def)
  with assms(1) show ?thesis by simp
qed

lemma event_inv:
  assumes "feed_inv f s" "honest_event f s e" "honest_read f rd"
  shows "feed_inv f (feed_event rd e s)"
proof (cases e)
  case (EvHead ok len)
  have "feed_inv f (s\<lparr>mf_size := len\<rparr>)" if "len = int (length f)" "0 < len"
  proof -
    have "buffer_ok f (s\<lparr>mf_size := len\<rparr>) = buffer_ok f s"
      by (simp add: buffer_ok_def bufEnd_def cong: if_cong)
    moreover have "mf_pending s = [] \<or> mf_size s = len" using assms(1) that by (auto simp: feed_inv_def)
    ultimately show ?thesis using assms(1) that by (auto simp: feed_inv_def pending_ok_def)
  qed
  moreover have "feed_inv f (fd_emit g s')" if "feed_inv f s'" "g = FeedFailed why \<or> g = FeedReady k" for g s' why k
    using that by (auto simp: feed_inv_emit)
  ultimately show ?thesis
    using assms(1,2) EvHead by (auto simp: onHead_def)
next
  case (EvRequest i off len)
  then show ?thesis using request_inv [OF assms(1,3) buffer_between [OF assms(1)]] by simp
next
  case (EvHeaders st rng)
  have "reply_ok f (r\<lparr>fr_status := st, fr_range := rng\<rparr>)" if "mf_reply s = Some r" "reply_ok f r" for r
    using that assms(2) EvHeaders by (auto simp: reply_ok_def)
  moreover have False if "mf_reply s = Some r" "reply_start r = Some st" for r st
    using that assms(2) EvHeaders by (auto simp: reply_start_def split: if_splits)
  ultimately show ?thesis unfolding EvHeaders feed_event.simps
    by (intro on_reply_inv [OF assms(1)]) auto
next
  case (EvData b)
  have "reply_ok f (r\<lparr>fr_avail := fr_avail r @ b, fr_received := fr_received r + int (length b)\<rparr>)"
    if s: "mf_reply s = Some r" and r: "reply_ok f r" for r
    unfolding reply_ok_def
  proof (intro conjI allI impI)
    let ?r = "r\<lparr>fr_avail := fr_avail r @ b, fr_received := fr_received r + int (length b)\<rparr>"
    fix st assume "reply_start ?r = Some st \<and> fr_avail ?r \<noteq> []"
    then have st: "reply_start r = Some st" "fr_avail r @ b \<noteq> []" by (simp_all add: range_reply)
    have old: "is_at f (st + fr_received r - int (length (fr_avail r))) (fr_avail r)" if "fr_avail r \<noteq> []"
      using r st(1) that by (simp add: reply_ok_def)
    have new: "is_at f (st + fr_received r) b" if "b \<noteq> []"
      using assms(2) EvData s st(1) that by simp
    have "is_at f (st + fr_received r - int (length (fr_avail r))) (fr_avail r @ b)"
      using old new st(2) is_at_append [OF old]
      by (cases "fr_avail r = []"; cases "b = []") simp_all
    then show "is_at f (st + fr_received ?r - int (length (fr_avail ?r))) (fr_avail ?r)"
      by (simp add: add_diff_eq)
  qed (use r assms(2) EvData s in \<open>auto simp: reply_ok_def\<close>)
  then have "feed_inv f (on_reply (\<lambda>r. r\<lparr>fr_avail := fr_avail r @ b, fr_received := fr_received r + int (length b)\<rparr>) s)"
    by (intro on_reply_inv [OF assms(1)]) (simp_all add: range_reply)
  then show ?thesis unfolding EvData feed_event.simps by (rule http_inv)
next
  case EvFinished
  have "feed_inv f (on_reply (\<lambda>r. r\<lparr>fr_finished := True\<rparr>) s)"
    by (intro on_reply_inv [OF assms(1)]) (simp_all add: range_reply reply_ok_def)
  then show ?thesis unfolding EvFinished feed_event.simps by (rule http_inv)
next
  case EvPull
  then show ?thesis using assms(1) http_inv [OF assms(1)] by simp
next
  case EvPosted
  have "feed_inv f (s\<lparr>mf_posted := False\<rparr>)" using assms(1) by (simp add: feed_inv_def pending_ok_def)
  then show ?thesis using EvPosted assms(1) http_inv by simp
qed

section \<open>Properties\<close>

text \<open>A run, and what it means that server and file were honest in it.\<close>

definition feed_run :: "(int \<Rightarrow> int \<Rightarrow> bytes) \<Rightarrow> FeedEvent list \<Rightarrow> MediaFeed \<Rightarrow> MediaFeed" where
  "feed_run rd es s = fold (feed_event rd) es s"

fun honest_feed_run :: "bytes \<Rightarrow> (int \<Rightarrow> int \<Rightarrow> bytes) \<Rightarrow> FeedEvent list \<Rightarrow> MediaFeed \<Rightarrow> bool" where
  "honest_feed_run f rd [] s \<longleftrightarrow> True"
| "honest_feed_run f rd (e # es) s \<longleftrightarrow> honest_event f s e \<and> honest_feed_run f rd es (feed_event rd e s)"

lemma run_inv:
  "feed_inv f s \<Longrightarrow> honest_read f rd \<Longrightarrow> honest_feed_run f rd es s \<Longrightarrow> feed_inv f (feed_run rd es s)"
proof (induction es arbitrary: s)
  case (Cons e es)
  then have "feed_inv f (feed_event rd e s)" using event_inv [of f s e rd] by simp
  with Cons show ?case by (simp add: feed_run_def)
qed (simp add: feed_run_def)

lemma feed_inv_start:
  assumes "\<forall>n. src = LocalFile (Some n) \<longrightarrow> n = int (length f)"
  shows "feed_inv f (feed_start (mkMediaFeed src))"
proof -
  have "feed_inv f (mkMediaFeed src)"
    by (simp add: feed_inv_def mkMediaFeed_def pending_ok_def answers_ok_def buffer_ok_def)
  moreover have "feed_inv f ((mkMediaFeed src)\<lparr>mf_fileOpen := True, mf_size := int (length f)\<rparr>)"
    by (simp add: feed_inv_def mkMediaFeed_def pending_ok_def answers_ok_def buffer_ok_def)
  ultimately show ?thesis
    using assms by (auto simp: feed_start_def mkMediaFeed_def feed_inv_emit split: FeedSource.split option.split)
qed

text \<open>
  Every answer of the feed is the file's bytes at the place asked for. Through any sequence of
  questions (sane or not, in any order), network events, timer ticks and posted calls, with a server
  that says the truth about where its bytes start (it may ignore ranges, close early or fail), every
  byte string the feed hands to the decoder is non-empty, of at most 4 MiB, and equal to the file at
  its offset.
\<close>

theorem feed_answers_true:
  assumes "honest_read f rd" "honest_feed_run f rd es (feed_start (mkMediaFeed src))"
    "\<forall>n. src = LocalFile (Some n) \<longrightarrow> n = int (length f)"
  shows "list_all (\<lambda>g. case g of FeedData i off b \<Rightarrow> is_at f off b \<and> b \<noteq> [] \<and> int (length b) \<le> kMaxRequest
      | _ \<Rightarrow> True) (mf_signals (feed_run rd es (feed_start (mkMediaFeed src))))"
proof -
  have "feed_inv f (feed_run rd es (feed_start (mkMediaFeed src)))"
    using assms by (intro run_inv feed_inv_start) simp_all
  then have a: "answers_ok f (mf_signals (feed_run rd es (feed_start (mkMediaFeed src))))"
    by (simp add: feed_inv_def)
  show ?thesis unfolding list_all_iff
  proof
    fix g assume "g \<in> set (mf_signals (feed_run rd es (feed_start (mkMediaFeed src))))"
    note g = this
    show "case g of FeedData i off b \<Rightarrow> is_at f off b \<and> b \<noteq> [] \<and> int (length b) \<le> kMaxRequest | _ \<Rightarrow> True"
    proof (cases g)
      case (FeedData i off b)
      then show ?thesis using a g unfolding answers_ok_def by auto
    qed simp_all
  qed
qed

text \<open>A server that ignores the range, asked for byte 1 of three after byte 0: one answer, one refusal.\<close>

theorem feed_answers_true_witness:
  "mf_signals (feed_run (\<lambda>_ _. []) [EvHead True 3, EvRequest 1 0 9, EvHeaders 200 [], EvData [7, 8, 9], EvFinished]
     (feed_start (mkMediaFeed LocalStream))) = [FeedReady 3, FeedData 1 0 [7, 8, 9]]
   \<and> is_at [7, 8, 9] 0 [7, 8, 9]"
proof -
  let ?es = "[EvHead True 3, EvRequest 1 0 9, EvHeaders 200 [], EvData [7, 8, 9], EvFinished]"
  have m: "mf_signals (feed_run (\<lambda>_ _. []) ?es (feed_start (mkMediaFeed LocalStream))) = [FeedReady 3, FeedData 1 0 [7, 8, 9]]"
    by (simp add: feed_run_def feed_start_def mkMediaFeed_def onHead_def fd_emit_def feed_request_def kMaxRequest_def
        kMaxPending_def bufEnd_def streamFrom_def on_reply_def onHttpData_def replyStartsAtBuffer_def
        servePending_def drained_def serve_one_def slice_def kWindow_def kMinAnswer_def trimBuffer_def
        clamp_int_def kKeepBehind_def Let_def)
  have h: "honest_feed_run [7, 8, 9] (\<lambda>_ _. []) ?es (feed_start (mkMediaFeed LocalStream))"
    by (simp add: feed_start_def mkMediaFeed_def onHead_def fd_emit_def feed_request_def kMaxRequest_def
        kMaxPending_def bufEnd_def streamFrom_def on_reply_def reply_start_def is_at_def slice_def Let_def)
  have "honest_read [7, 8, 9] (\<lambda>_ _. [])" by (simp add: honest_read_def)
  from feed_answers_true [OF this h] show ?thesis unfolding m by simp
qed

text \<open>
  C40: The pull timer runs on when a reply is replaced: it is stopped only where the loop over the questions
  ends normally. A tick before the headers of the new reply are there takes its status for a wrong one,
  so every waiting question is refused and the reply is given up, although nothing has gone wrong.
\<close>

theorem early_poll_refuses_all:
  assumes "mf_pending s \<noteq> []" "mf_pull s" "mf_checked s" "mf_reply s = Some r" "fr_finished r" "fr_avail r = []"
    "hd (mf_pending s) = p" "bufEnd s \<le> fp_offset p" "mf_retriedAt s \<noteq> fp_offset p"
    "int (length (mf_buf s)) < kWindow"
  shows "let s1 = onHttpData s in
     mf_pending s1 = mf_pending s \<and> mf_signals s1 = mf_signals s
     \<and> mf_pull s1 \<and> map_option fr_offset (mf_reply s1) = Some (fp_offset p)
     \<and> mf_reply (feed_event rd EvPull s1) = None \<and> mf_pending (feed_event rd EvPull s1) = []
     \<and> mf_signals (feed_event rd EvPull s1) = mf_signals s @ map (\<lambda>p. FeedRefused (fp_id p)) (mf_pending s)"
proof -
  obtain ps where ps: "mf_pending s = p # ps" using assms(1,7) by (cases "mf_pending s") auto
  have dr: "drained s" using assms(4,5,6) by (simp add: drained_def)
  have one: "serve_one True (bufEnd s) p s = AskAgain (s\<lparr>mf_retriedAt := fp_offset p\<rparr>)"
    using assms(8,9) by (simp add: serve_one_def)
  have serve: "servePending s = streamFrom (fp_offset p) (s\<lparr>mf_retriedAt := fp_offset p, mf_pending := p # ps\<rparr>)"
    using dr one by (simp add: servePending_def ps Let_def)
  have "r\<lparr>fr_avail := []\<rparr> = r" using assms(6) by (cases r) simp
  moreover have "s\<lparr>mf_reply := Some r\<rparr> = s" using assms(4) by (cases s) simp
  ultimately have same: "s\<lparr>mf_reply := Some (r\<lparr>fr_avail := []\<rparr>)\<rparr> = s" by metis
  then have "onHttpData s = servePending s"
    using assms(3,4,6) by (simp add: onHttpData_def replyStartsAtBuffer_def Let_def same)
  then have s1: "onHttpData s = streamFrom (fp_offset p) (s\<lparr>mf_retriedAt := fp_offset p, mf_pending := p # ps\<rparr>)"
    using serve by simp
  have n: "fr_status r' = 0 \<Longrightarrow> \<not> mf_checked s' \<Longrightarrow> fst (replyStartsAtBuffer r' s') = False" for r' s'
    by (simp add: replyStartsAtBuffer_def Let_def)
  show ?thesis
    using assms(2) unfolding s1
    by (simp add: Let_def streamFrom_def onHttpData_def replyStartsAtBuffer_def ps)
qed

text \<open>The reply ended short after one byte of ten; a question for the rest waits.\<close>

definition sample_feed :: MediaFeed where
  "sample_feed = (mkMediaFeed LocalStream)\<lparr>mf_size := 10, mf_checked := True, mf_pull := True, mf_buf := [7],
     mf_reply := Some \<lparr>fr_offset = 0, fr_status = 206, fr_range = ''bytes 0-9/10'', fr_avail = [],
       fr_received = 1, fr_finished = True\<rparr>,
     mf_pending := [\<lparr>fp_id = 4, fp_offset = 1, fp_length = 9\<rparr>]\<rparr>"

theorem early_poll_refuses_all_witness:
  "mf_signals (onHttpData sample_feed) = []
   \<and> mf_signals (feed_event (\<lambda>_ _. []) EvPull (onHttpData sample_feed)) = [FeedRefused 4]"
proof -
  let ?r = "\<lparr>fr_offset = 0, fr_status = 206, fr_range = ''bytes 0-9/10'', fr_avail = [], fr_received = 1,
      fr_finished = True\<rparr>"
  let ?p = "\<lparr>fp_id = 4, fp_offset = 1, fp_length = 9\<rparr>"
  have s: "mf_pending sample_feed = [?p]" "mf_signals sample_feed = []" "mf_pull sample_feed"
    "mf_checked sample_feed" "mf_reply sample_feed = Some ?r" "mf_retriedAt sample_feed \<noteq> 1"
    "bufEnd sample_feed \<le> 1" "int (length (mf_buf sample_feed)) < kWindow"
    by (simp_all add: sample_feed_def mkMediaFeed_def bufEnd_def kWindow_def)
  show ?thesis
    using early_poll_refuses_all [of sample_feed ?r ?p "\<lambda>_ _. []"] s
    by (simp add: Let_def del: feed_event.simps)
qed

lemma behind_window_stuck:
  assumes "mf_pending s = [p]" "fp_offset p < mf_bufStart s" "mf_reply s = Some r" "mf_checked s"
    "fr_avail r \<noteq> []" "int (length (mf_buf s)) = kWindow" "mf_pull s"
  shows "onHttpData s = s"
proof -
  have w: "nat (kWindow - int (length (mf_buf s))) = 0" using assms(6) by simp
  have same: "s\<lparr>mf_reply := Some r\<rparr> = s" "s\<lparr>mf_pending := [p], mf_pull := True\<rparr> = s"
    using assms(1,3,7) by (cases s, simp)+
  have "serve_one False (bufEnd s) p s = StillWaits" using assms(2) by (simp add: serve_one_def)
  then have l: "serve_loop (drained s) (bufEnd s) (mf_pending s) s = ([p], s, None)"
    using assms(1,3,5) by (simp add: drained_def)
  have t: "trimBuffer s = s"
    using assms(1,2) by (simp add: trimBuffer_def Let_def clamp_int_def kWindow_def)
  have "servePending s = s"
    using assms(3,6) by (simp add: servePending_def l Let_def same t)
  then show ?thesis
    using assms(3,4) w by (simp add: onHttpData_def replyStartsAtBuffer_def Let_def same)
qed

text \<open>
  A question behind the window starves. When the buffer is full and the oldest waiting question lies
  before it, nothing can be trimmed, so nothing more is read and the reply never drains: no tick, and
  no byte that comes, changes the buffer or the questions, or answers anything.
\<close>

theorem question_behind_window_starves:
  assumes "mf_pending s = [p]" "fp_offset p < mf_bufStart s" "mf_reply s = Some r" "mf_checked s"
    "fr_avail r \<noteq> []" "int (length (mf_buf s)) = kWindow" "mf_pull s"
    "list_all (\<lambda>e. e = EvPull \<or> e = EvPosted \<or> e = EvFinished \<or> (\<exists>b. e = EvData b)) es"
  shows "let s' = feed_run rd es s in
     mf_pending s' = [p] \<and> mf_signals s' = mf_signals s \<and> mf_buf s' = mf_buf s"
proof -
  have "mf_pending (feed_run rd es s) = [p] \<and> mf_signals (feed_run rd es s) = mf_signals s
      \<and> mf_buf (feed_run rd es s) = mf_buf s"
    using assms
  proof (induction es arbitrary: s r)
    case (Cons e es)
    let ?stuck = "\<lambda>s r. mf_pending s = [p] \<and> fp_offset p < mf_bufStart s \<and> mf_reply s = Some r \<and> mf_checked s
        \<and> fr_avail r \<noteq> [] \<and> int (length (mf_buf s)) = kWindow \<and> mf_pull s"
    have stuck: "onHttpData s' = s'" if "?stuck s' r'" for s' r'
      using that behind_window_stuck [of s' p r'] by simp
    have "\<exists>r'. ?stuck (feed_event rd e s) r' \<and> mf_signals (feed_event rd e s) = mf_signals s
        \<and> mf_buf (feed_event rd e s) = mf_buf s"
    proof -
      have step: "?stuck (onHttpData s') r'" if "?stuck s' r'" for s' r' using that stuck [OF that] by simp
      consider "e = EvPull" | "e = EvPosted" | "e = EvFinished" | b where "e = EvData b"
        using Cons.prems(8) by auto
      then show ?thesis
      proof cases
        case 1
        then show ?thesis using Cons.prems stuck [of s r] by auto
      next
        case 2
        have "?stuck (s\<lparr>mf_posted := False\<rparr>) r" using Cons.prems by simp
        from stuck [OF this] 2 show ?thesis using Cons.prems by auto
      next
        case 3
        have "?stuck (on_reply (\<lambda>r. r\<lparr>fr_finished := True\<rparr>) s) (r\<lparr>fr_finished := True\<rparr>)"
          using Cons.prems by (simp add: on_reply_def)
        from stuck [OF this] this 3 show ?thesis by (auto simp: on_reply_def)
      next
        case 4
        let ?g = "\<lambda>r. r\<lparr>fr_avail := fr_avail r @ b, fr_received := fr_received r + int (length b)\<rparr>"
        have "?stuck (on_reply ?g s) (?g r)" using Cons.prems by (simp add: on_reply_def)
        from stuck [OF this] this 4 show ?thesis by (auto simp: on_reply_def)
      qed
    qed
    then obtain r' where n: "?stuck (feed_event rd e s) r'" "mf_signals (feed_event rd e s) = mf_signals s"
      "mf_buf (feed_event rd e s) = mf_buf s" by blast
    from Cons.IH [of "feed_event rd e s" r'] n Cons.prems(8) show ?case by (simp add: feed_run_def)
  qed (simp add: feed_run_def)
  then show ?thesis by (simp add: Let_def)
qed

definition sample_stuck :: MediaFeed where
  "sample_stuck = (mkMediaFeed LocalStream)\<lparr>mf_size := 2 * kWindow, mf_checked := True, mf_pull := True,
     mf_bufStart := 10, mf_buf := replicate (nat kWindow) 0,
     mf_reply := Some \<lparr>fr_offset = 10, fr_status = 206, fr_range = ''bytes 10-'', fr_avail = [1],
       fr_received = kWindow + 1, fr_finished = False\<rparr>,
     mf_pending := [\<lparr>fp_id = 4, fp_offset = 0, fp_length = 5\<rparr>]\<rparr>"

theorem question_behind_window_starves_witness:
  "mf_pending (feed_run (\<lambda>_ _. []) [EvData [2, 3], EvPull, EvFinished, EvPull] sample_stuck) =
     [\<lparr>fp_id = 4, fp_offset = 0, fp_length = 5\<rparr>]"
proof -
  have "0 \<le> kWindow" by (simp add: kWindow_def)
  then show ?thesis
    using question_behind_window_starves [of sample_stuck "\<lparr>fp_id = 4, fp_offset = 0, fp_length = 5\<rparr>"
      "\<lparr>fr_offset = 10, fr_status = 206, fr_range = ''bytes 10-'', fr_avail = [1],
         fr_received = kWindow + 1, fr_finished = False\<rparr>" "[EvData [2, 3], EvPull, EvFinished, EvPull]" "\<lambda>_ _. []"]
    by (simp add: sample_stuck_def mkMediaFeed_def Let_def)
qed

end
