(* ===== verification/MediaFrames.thy ===== *)
theory MediaFrames
  imports Prelude
begin

text \<open>
  \<open>ipc/mediaframe.cpp\<close> and the header of \<open>ipc/mediaprotocol.h\<close>: a decoded video frame on its way
  through a slot of shared memory. The media child packs it, the user interface unpacks it and trusts
  nothing in the header. \<open>QVideoFrame\<close> is Qt's; a mapped one is the record \<open>VFrame\<close> with the line
  stride and the bytes of each plane, and \<open>alloc\<close> is the fresh frame of a size and a format, mapped for
  writing (\<open>None\<close> when it cannot be mapped). \<open>memcpy\<close> is defined only inside both buffers: a copy that
  leaves one of them is \<open>None\<close>.
\<close>

section \<open>Data\<close>

definition kSlots :: int where "kSlots = 3"
definition kMaxPlanes :: int where "kMaxPlanes = 4"
definition kMaxDimension :: int where "kMaxDimension = 8192"

record Plane =
  pl_stride :: int
  pl_offset :: int
  pl_bytes :: int

record FrameHeader =
  fh_slot :: int
  fh_pixelFormat :: int
  fh_width :: int
  fh_height :: int
  fh_startUs :: int
  fh_endUs :: int
  fh_planeCount :: int
  fh_planes :: "Plane list"

record VPlane =
  vp_stride :: int
  vp_bits :: bytes

record VFrame =
  vf_format :: int
  vf_width :: int
  vf_height :: int
  vf_start :: int
  vf_end :: int
  vf_planes :: "VPlane list"

definition no_plane :: Plane where
  "no_plane = \<lparr>pl_stride = 0, pl_offset = 0, pl_bytes = 0\<rparr>"

text \<open>A fresh header: \<open>FrameHeader hdr;\<close>.\<close>

definition new_header :: FrameHeader where
  "new_header = \<lparr>fh_slot = -1, fh_pixelFormat = 0, fh_width = 0, fh_height = 0, fh_startUs = -1,
     fh_endUs = -1, fh_planeCount = 0, fh_planes = replicate 4 no_plane\<rparr>"

definition memcpy :: "int \<Rightarrow> bytes \<Rightarrow> int \<Rightarrow> nat \<Rightarrow> bytes \<Rightarrow> bytes option" where
  "memcpy dstAt src srcAt n dst =
     (if 0 \<le> dstAt \<and> 0 \<le> srcAt \<and> nat dstAt + n \<le> length dst \<and> nat srcAt + n \<le> length src
      then Some (take (nat dstAt) dst @ take n (drop (nat srcAt) src) @ drop (nat dstAt + n) dst)
      else None)"

section \<open>Packing\<close>

definition kAlign :: int where "kAlign = 64"

definition aligned :: "int \<Rightarrow> int" where
  "aligned n = (n + kAlign - 1) div kAlign * kAlign"

definition mappedBytes :: "VPlane \<Rightarrow> int" where
  "mappedBytes p = int (length (vp_bits p))"

definition packedSize :: "VFrame \<Rightarrow> int" where
  "packedSize f =
     aligned (foldl (\<lambda>total p. aligned total + mappedBytes p) 0 (take (nat kMaxPlanes) (vf_planes f)))"

text \<open>The loop over the planes: the slot and the planes of the header, from the offset on.\<close>

fun pack_planes :: "VPlane list \<Rightarrow> int \<Rightarrow> bytes \<Rightarrow> (bytes \<times> Plane list) option" where
  "pack_planes [] offset slot = Some (slot, [])"
| "pack_planes (v # vs) offset slot =
     (let at = aligned offset in
      case memcpy at (vp_bits v) 0 (length (vp_bits v)) slot of
        None \<Rightarrow> None
      | Some slot1 \<Rightarrow>
          map_option (\<lambda>(s, ps). (s, \<lparr>pl_stride = vp_stride v, pl_offset = at, pl_bytes = mappedBytes v\<rparr> # ps))
            (pack_planes vs (at + mappedBytes v) slot1))"

text \<open>\<open>None\<close> is a copy out of bounds; \<open>Some None\<close> is the result \<open>false\<close>.\<close>

definition pack :: "VFrame \<Rightarrow> bytes \<Rightarrow> FrameHeader \<Rightarrow> (bytes \<times> FrameHeader) option option" where
  "pack f slot hdr =
     (let planes = int (length (vf_planes f)) in
      if planes \<le> 0 \<or> kMaxPlanes < planes \<or> int (length slot) < packedSize f then Some None
      else
        case pack_planes (vf_planes f) 0 slot of
          None \<Rightarrow> None
        | Some (slot1, ps) \<Rightarrow>
            Some (Some (slot1, hdr\<lparr>fh_pixelFormat := vf_format f, fh_width := vf_width f,
              fh_height := vf_height f, fh_startUs := vf_start f, fh_endUs := vf_end f,
              fh_planeCount := planes, fh_planes := ps @ drop (length ps) (fh_planes hdr)\<rparr>)))"

section \<open>Unpacking\<close>

text \<open>
  The formats the switch lists. Which number stands for which format is Qt's and a parameter
  (\<open>cast\<close>, the conversion to the enumeration).
\<close>

datatype PixelFormat =
    Format_ARGB8888 | Format_ARGB8888_Premultiplied | Format_XRGB8888 | Format_BGRA8888
  | Format_BGRA8888_Premultiplied | Format_BGRX8888 | Format_ABGR8888 | Format_XBGR8888
  | Format_RGBA8888 | Format_RGBX8888 | Format_YUV420P | Format_YUV422P | Format_YV12 | Format_UYVY
  | Format_YUYV | Format_NV12 | Format_NV21 | Format_P010 | Format_P016 | Format_YUV420P10 | Format_Y8
  | Format_Y16 | Format_Other int

definition isAllowedFormat :: "(int \<Rightarrow> PixelFormat) \<Rightarrow> int \<Rightarrow> bool" where
  "isAllowedFormat cast f = (case cast f of Format_Other _ \<Rightarrow> False | _ \<Rightarrow> True)"

definition plane_fits :: "int \<Rightarrow> Plane \<Rightarrow> bool" where
  "plane_fits slotBytes p \<longleftrightarrow>
     \<not> (pl_stride p \<le> 0 \<or> pl_offset p < 0 \<or> pl_bytes p \<le> 0)
     \<and> \<not> (slotBytes < pl_offset p \<or> slotBytes - pl_offset p < pl_bytes p)"

definition headerFits :: "(int \<Rightarrow> PixelFormat) \<Rightarrow> FrameHeader \<Rightarrow> int \<Rightarrow> bool" where
  "headerFits cast hdr slotBytes \<longleftrightarrow>
     isAllowedFormat cast (fh_pixelFormat hdr)
     \<and> \<not> (fh_width hdr \<le> 0 \<or> fh_height hdr \<le> 0 \<or> kMaxDimension < fh_width hdr \<or> kMaxDimension < fh_height hdr)
     \<and> \<not> (fh_planeCount hdr \<le> 0 \<or> kMaxPlanes < fh_planeCount hdr \<or> slotBytes \<le> 0)
     \<and> list_all (plane_fits slotBytes) (take (nat (fh_planeCount hdr)) (fh_planes hdr))"

text \<open>The rows of a plane, from row \<open>r\<close> on.\<close>

fun copy_rows :: "nat \<Rightarrow> int \<Rightarrow> int \<Rightarrow> int \<Rightarrow> int \<Rightarrow> int \<Rightarrow> bytes \<Rightarrow> bytes \<Rightarrow> bytes option" where
  "copy_rows 0 r base srcStride dstStride rowBytes slot dst = Some dst"
| "copy_rows (Suc n) r base srcStride dstStride rowBytes slot dst =
     (case memcpy (r * dstStride) slot (base + r * srcStride) (nat rowBytes) dst of
        None \<Rightarrow> None
      | Some d \<Rightarrow> copy_rows n (r + 1) base srcStride dstStride rowBytes slot d)"

datatype 'a Unpacked = Violation | Dropped | Shown 'a

definition unpack_plane :: "bytes \<Rightarrow> Plane \<Rightarrow> VPlane \<Rightarrow> VPlane Unpacked" where
  "unpack_plane slot src v =
     (let dstStride = vp_stride v in
      if dstStride \<le> 0 then Dropped
      else
        let rows = mappedBytes v div dstStride; rowBytes = min dstStride (pl_stride src) in
        if rows \<le> 0 \<or> pl_bytes src < (rows - 1) * pl_stride src + rowBytes then Dropped
        else case copy_rows (nat rows) 0 (pl_offset src) (pl_stride src) dstStride rowBytes slot (vp_bits v) of
               None \<Rightarrow> Violation
             | Some bits \<Rightarrow> Shown (v\<lparr>vp_bits := bits\<rparr>))"

fun unpack_planes :: "bytes \<Rightarrow> Plane list \<Rightarrow> VPlane list \<Rightarrow> VPlane list Unpacked" where
  "unpack_planes slot (p # ps) (v # vs) =
     (case unpack_plane slot p v of
        Violation \<Rightarrow> Violation
      | Dropped \<Rightarrow> Dropped
      | Shown v1 \<Rightarrow>
          (case unpack_planes slot ps vs of
             Violation \<Rightarrow> Violation | Dropped \<Rightarrow> Dropped | Shown us \<Rightarrow> Shown (v1 # us)))"
| "unpack_planes slot ps vs = Shown vs"

definition unpack ::
  "(int \<Rightarrow> PixelFormat) \<Rightarrow> (int \<Rightarrow> int \<Rightarrow> int \<Rightarrow> VPlane list option) \<Rightarrow> FrameHeader \<Rightarrow> bytes \<Rightarrow> int \<Rightarrow> VFrame Unpacked" where
  "unpack cast alloc hdr slot slotBytes =
     (if \<not> headerFits cast hdr slotBytes then Dropped
      else case alloc (fh_width hdr) (fh_height hdr) (fh_pixelFormat hdr) of
             None \<Rightarrow> Dropped
           | Some vs \<Rightarrow>
               if int (length vs) \<noteq> fh_planeCount hdr then Dropped
               else case unpack_planes slot (take (nat (fh_planeCount hdr)) (fh_planes hdr)) vs of
                      Violation \<Rightarrow> Violation
                    | Dropped \<Rightarrow> Dropped
                    | Shown us \<Rightarrow> Shown \<lparr>vf_format = fh_pixelFormat hdr, vf_width = fh_width hdr,
                        vf_height = fh_height hdr, vf_start = fh_startUs hdr, vf_end = fh_endUs hdr,
                        vf_planes = us\<rparr>)"

section \<open>Copies\<close>

lemma memcpy_Some:
  "0 \<le> a \<Longrightarrow> 0 \<le> b \<Longrightarrow> a + int n \<le> int (length dst) \<Longrightarrow> b + int n \<le> int (length src) \<Longrightarrow>
     \<exists>d. memcpy a src b n dst = Some d"
  by (simp add: memcpy_def) linarith

lemma memcpy_length: "memcpy a src b n dst = Some d \<Longrightarrow> length d = length dst"
  by (auto simp: memcpy_def split: if_splits)

lemma memcpy_nth:
  assumes "memcpy a src b n dst = Some d" "k < length dst"
  shows "d ! k = (if nat a \<le> k \<and> k < nat a + n then src ! (nat b + (k - nat a)) else dst ! k)"
  using assms by (auto simp: memcpy_def nth_append split: if_splits)

text \<open>The rows of a plane fit in the plane they are copied to, and in the slot they come from.\<close>

lemma copy_rows_ok:
  assumes "0 \<le> r" "0 \<le> base" "0 < ss" "0 < ds" "0 < rb" "rb \<le> ds"
    "0 < n \<Longrightarrow> (r + int n - 1) * ds + rb \<le> int (length dst)"
    "0 < n \<Longrightarrow> base + (r + int n - 1) * ss + rb \<le> int (length slot)"
  shows "\<exists>d. copy_rows n r base ss ds rb slot dst = Some d \<and> length d = length dst
     \<and> (\<forall>q k. r \<le> q \<and> q < r + int n \<and> 0 \<le> k \<and> k < rb \<longrightarrow>
          d ! nat (q * ds + k) = slot ! nat (base + q * ss + k))
     \<and> (\<forall>k. k < nat (r * ds) \<longrightarrow> d ! k = dst ! k)"
  using assms
proof (induction n arbitrary: r dst)
  case 0
  then show ?case by auto
next
  case (Suc n)
  have le: "r * ds \<le> (r + int n) * ds" "r * ss \<le> (r + int n) * ss"
    using Suc.prems by (intro mult_right_mono; simp)+
  have end1: "(r + int n) * ds + rb \<le> int (length dst)" "base + (r + int n) * ss + rb \<le> int (length slot)"
    using Suc.prems(7,8) by (simp_all add: algebra_simps)
  have pos: "0 \<le> r * ds" "0 \<le> r * ss" using Suc.prems by simp_all
  obtain d1 where d1: "memcpy (r * ds) slot (base + r * ss) (nat rb) dst = Some d1"
    using memcpy_Some [of "r * ds" "base + r * ss" "nat rb" dst slot] Suc.prems le end1 pos by auto
  note len1 = memcpy_length [OF d1]
  have "\<exists>d. copy_rows n (r + 1) base ss ds rb slot d1 = Some d \<and> length d = length d1
     \<and> (\<forall>q k. r + 1 \<le> q \<and> q < r + 1 + int n \<and> 0 \<le> k \<and> k < rb \<longrightarrow>
          d ! nat (q * ds + k) = slot ! nat (base + q * ss + k))
     \<and> (\<forall>k. k < nat ((r + 1) * ds) \<longrightarrow> d ! k = d1 ! k)"
    using Suc.prems end1 len1 by (intro Suc.IH) (simp_all add: algebra_simps)
  then obtain d where d: "copy_rows n (r + 1) base ss ds rb slot d1 = Some d" "length d = length dst"
    "\<And>q k. r + 1 \<le> q \<Longrightarrow> q < r + 1 + int n \<Longrightarrow> 0 \<le> k \<Longrightarrow> k < rb \<Longrightarrow>
       d ! nat (q * ds + k) = slot ! nat (base + q * ss + k)"
    "\<And>k. k < nat ((r + 1) * ds) \<Longrightarrow> d ! k = d1 ! k"
    using len1 by (metis (no_types, lifting))
  have step: "(r + 1) * ds = r * ds + ds" by (simp add: distrib_right)
  have row: "d ! nat (r * ds + k) = slot ! nat (base + r * ss + k)" if "0 \<le> k" "k < rb" for k
  proof -
    have "nat (r * ds + k) < nat ((r + 1) * ds)" using that pos Suc.prems(6) by (simp add: step)
    then have "d ! nat (r * ds + k) = d1 ! nat (r * ds + k)" by (rule d(4))
    moreover have "nat (r * ds + k) < length dst" using that le end1 pos by linarith
    from memcpy_nth [OF d1 this] have "d1 ! nat (r * ds + k) = slot ! (nat (base + r * ss) + (nat (r * ds + k) - nat (r * ds)))"
      using that pos by auto
    moreover have "nat (base + r * ss) + (nat (r * ds + k) - nat (r * ds)) = nat (base + r * ss + k)"
      using that pos Suc.prems(2) by linarith
    ultimately show ?thesis by simp
  qed
  have rows: "d ! nat (q * ds + k) = slot ! nat (base + q * ss + k)"
    if "r \<le> q" "q < r + int (Suc n)" "0 \<le> k" "k < rb" for q k
    using that row [of k] d(3) [of q k] by (cases "q = r") auto
  have before: "d ! k = dst ! k" if "k < nat (r * ds)" for k
  proof -
    have "k < nat ((r + 1) * ds)" using that Suc.prems(4) by (simp add: step)
    then have "d ! k = d1 ! k" by (rule d(4))
    moreover have "k < length dst" using that le end1 Suc.prems(5) pos by linarith
    ultimately show ?thesis using memcpy_nth [OF d1, of k] that by simp
  qed
  show ?case
    using d(1,2) rows before by (auto simp: d1)
qed

section \<open>Unpacking is safe\<close>

text \<open>What unpacking a plane makes: the rows of the slot, at the strides of the two sides.\<close>

definition same_rows :: "(int \<Rightarrow> byte) \<Rightarrow> int \<Rightarrow> VPlane \<Rightarrow> VPlane \<Rightarrow> bool" where
  "same_rows src ss v u \<longleftrightarrow>
     vp_stride u = vp_stride v \<and> length (vp_bits u) = length (vp_bits v)
     \<and> (\<forall>q k. 0 \<le> q \<and> q < mappedBytes v div vp_stride v \<and> 0 \<le> k \<and> k < min (vp_stride v) ss \<longrightarrow>
          vp_bits u ! nat (q * vp_stride v + k) = src (q * ss + k))"

definition room_for :: "Plane \<Rightarrow> VPlane \<Rightarrow> bool" where
  "room_for p v \<longleftrightarrow> 0 < vp_stride v \<and> 0 < mappedBytes v div vp_stride v
     \<and> (mappedBytes v div vp_stride v - 1) * pl_stride p + min (vp_stride v) (pl_stride p) \<le> pl_bytes p"

lemma unpack_plane_cases:
  assumes "plane_fits (int (length slot)) p"
  shows "unpack_plane slot p v =
      (if room_for p v then Shown (v\<lparr>vp_bits := vp_bits (case unpack_plane slot p v of Shown u \<Rightarrow> u | _ \<Rightarrow> v)\<rparr>)
       else Dropped)"
    "room_for p v \<Longrightarrow> \<exists>u. unpack_plane slot p v = Shown u
       \<and> same_rows (\<lambda>i. slot ! nat (pl_offset p + i)) (pl_stride p) v u"
proof -
  let ?n = "mappedBytes v div vp_stride v" and ?rb = "min (vp_stride v) (pl_stride p)"
  have dropped: "unpack_plane slot p v = Dropped" if "\<not> room_for p v"
    using that by (auto simp: unpack_plane_def room_for_def Let_def)
  have shown: "\<exists>u bits. unpack_plane slot p v = Shown u \<and> u = v\<lparr>vp_bits := bits\<rparr>
       \<and> same_rows (\<lambda>i. slot ! nat (pl_offset p + i)) (pl_stride p) v u" if r: "room_for p v"
  proof -
    have n: "0 < ?n" "0 < vp_stride v" "(?n - 1) * pl_stride p + ?rb \<le> pl_bytes p"
      using r by (simp_all add: room_for_def)
    have p: "0 < pl_stride p" "0 \<le> pl_offset p" "pl_offset p + pl_bytes p \<le> int (length slot)"
      using assms by (auto simp: plane_fits_def)
    have "?n * vp_stride v \<le> mappedBytes v"       using n(2) pos_mod_sign [of "vp_stride v" "mappedBytes v"]
        div_mult_mod_eq [of "mappedBytes v" "vp_stride v"] by linarith
    then have fit: "(?n - 1) * vp_stride v + ?rb \<le> int (length (vp_bits v))"
      by (simp add: algebra_simps mappedBytes_def)
    have "\<exists>d. copy_rows (nat ?n) 0 (pl_offset p) (pl_stride p) (vp_stride v) ?rb slot (vp_bits v) = Some d
        \<and> length d = length (vp_bits v)
        \<and> (\<forall>q k. 0 \<le> q \<and> q < 0 + int (nat ?n) \<and> 0 \<le> k \<and> k < ?rb \<longrightarrow>
             d ! nat (q * vp_stride v + k) = slot ! nat (pl_offset p + q * pl_stride p + k))
        \<and> (\<forall>k. k < nat (0 * vp_stride v) \<longrightarrow> d ! k = vp_bits v ! k)"
      using n p fit by (intro copy_rows_ok; simp; linarith?)
    then obtain d where d: "copy_rows (nat ?n) 0 (pl_offset p) (pl_stride p) (vp_stride v) ?rb slot (vp_bits v) = Some d"
      "length d = length (vp_bits v)"
      "\<forall>q k. 0 \<le> q \<and> q < ?n \<and> 0 \<le> k \<and> k < ?rb \<longrightarrow>
         d ! nat (q * vp_stride v + k) = slot ! nat (pl_offset p + q * pl_stride p + k)"
      using n by auto
    have "unpack_plane slot p v = Shown (v\<lparr>vp_bits := d\<rparr>)"
      using n d(1) by (simp add: unpack_plane_def Let_def)
    moreover have "same_rows (\<lambda>i. slot ! nat (pl_offset p + i)) (pl_stride p) v (v\<lparr>vp_bits := d\<rparr>)"
      using d(2,3) by (simp add: same_rows_def add.assoc)
    ultimately show ?thesis by blast
  qed
  show "unpack_plane slot p v =
      (if room_for p v then Shown (v\<lparr>vp_bits := vp_bits (case unpack_plane slot p v of Shown u \<Rightarrow> u | _ \<Rightarrow> v)\<rparr>)
       else Dropped)"
    using dropped shown by (cases "room_for p v") auto
  show "room_for p v \<Longrightarrow> \<exists>u. unpack_plane slot p v = Shown u
       \<and> same_rows (\<lambda>i. slot ! nat (pl_offset p + i)) (pl_stride p) v u"
    using shown by blast
qed

lemma unpack_planes_safe:
  "list_all (plane_fits (int (length slot))) ps \<Longrightarrow> unpack_planes slot ps vs \<noteq> Violation"
proof (induction slot ps vs rule: unpack_planes.induct)
  case (1 slot p ps v vs)
  have "unpack_plane slot p v \<noteq> Violation"
    using unpack_plane_cases(1) [of slot p v] 1(2) by (auto split: if_splits)
  then show ?case using 1 by (auto split: Unpacked.split)
qed simp_all

text \<open>
  C27: No header can make the user interface read outside the slot or write outside its own frame: for
  every header a media child can send, and whatever frame Qt allocates for it, all copies of
  \<open>unpack\<close> stay inside the slot and inside the allocated planes; the frame is shown or dropped.
\<close>

theorem unpack_stays_in_slot:
  "unpack cast alloc hdr slot (int (length slot)) \<noteq> Violation"
proof (cases "headerFits cast hdr (int (length slot))")
  case True
  then have "unpack_planes slot (take (nat (fh_planeCount hdr)) (fh_planes hdr)) vs \<noteq> Violation" for vs
    by (intro unpack_planes_safe) (simp add: headerFits_def)
  then show ?thesis by (auto simp: unpack_def split: option.split Unpacked.split)
qed (simp add: unpack_def)

section \<open>Packing\<close>

lemma aligned_ge: "n \<le> aligned n"
proof -
  have "(n + 63) mod 64 \<le> 63" using pos_mod_bound [of 64 "n + 63"] by linarith
  then show ?thesis
    using div_mult_mod_eq [of "n + 63" 64] unfolding aligned_def kAlign_def by linarith
qed

definition size_from :: "int \<Rightarrow> VPlane list \<Rightarrow> int" where
  "size_from off vs = foldl (\<lambda>total p. aligned total + mappedBytes p) off vs"

lemma size_from_ge: "off \<le> size_from off vs"
proof (induction vs arbitrary: off)
  case (Cons v vs)
  have "off \<le> aligned off + mappedBytes v" using aligned_ge [of off] by (simp add: mappedBytes_def)
  also have "\<dots> \<le> size_from (aligned off + mappedBytes v) vs" by (rule Cons.IH)
  finally show ?case by (simp add: size_from_def)
qed (simp add: size_from_def)

definition holds_plane :: "bytes \<Rightarrow> VPlane \<Rightarrow> Plane \<Rightarrow> bool" where
  "holds_plane slot v p \<longleftrightarrow> pl_stride p = vp_stride v \<and> pl_bytes p = mappedBytes v \<and> 0 \<le> pl_offset p
     \<and> pl_offset p + pl_bytes p \<le> int (length slot)
     \<and> (\<forall>k < length (vp_bits v). slot ! (nat (pl_offset p) + k) = vp_bits v ! k)"

lemma pack_planes_ok:
  "0 \<le> off \<Longrightarrow> size_from off vs \<le> int (length slot) \<Longrightarrow>
     \<exists>s ps. pack_planes vs off slot = Some (s, ps) \<and> length s = length slot \<and> list_all2 (holds_plane s) vs ps
       \<and> (\<forall>k < nat off. s ! k = slot ! k)"
proof (induction vs arbitrary: off slot)
  case (Cons v vs)
  let ?at = "aligned off" and ?len = "length (vp_bits v)"
  let ?next = "?at + mappedBytes v"
  have at: "off \<le> ?at" by (rule aligned_ge)
  have sz: "size_from ?next vs \<le> int (length slot)" using Cons.prems(2) by (simp add: size_from_def)
  then have fits: "?next \<le> int (length slot)" using size_from_ge [of ?next vs] by linarith
  obtain s1 where s1: "memcpy ?at (vp_bits v) 0 ?len slot = Some s1"
    using memcpy_Some [of ?at 0 ?len slot "vp_bits v"] at Cons.prems(1) fits by (auto simp: mappedBytes_def)
  note len1 = memcpy_length [OF s1]
  have "0 \<le> ?next" using at Cons.prems(1) by (simp add: mappedBytes_def)
  with Cons.IH [of ?next s1] sz len1 obtain s ps where IH: "pack_planes vs ?next s1 = Some (s, ps)"
    "length s = length slot" "list_all2 (holds_plane s) vs ps" "\<forall>k < nat ?next. s ! k = s1 ! k" by auto
  let ?p = "\<lparr>pl_stride = vp_stride v, pl_offset = ?at, pl_bytes = mappedBytes v\<rparr>"
  have "holds_plane s v ?p"
  proof -
    have "s ! (nat ?at + k) = vp_bits v ! k" if k: "k < ?len" for k
    proof -
      have "nat ?at + k < nat ?next" "nat ?at + k < length slot"
        using k at Cons.prems(1) fits by (simp_all add: mappedBytes_def)
      then show ?thesis using IH(4) memcpy_nth [OF s1, of "nat ?at + k"] k by simp
    qed
    then show ?thesis using at Cons.prems(1) fits IH(2) by (simp add: holds_plane_def)
  qed
  moreover have "s ! k = slot ! k" if "k < nat off" for k
  proof -
    have "k < nat ?next" "k < length slot" "k < nat ?at"
      using that at fits Cons.prems(1) by (simp_all add: mappedBytes_def)
    then show ?thesis using IH(4) memcpy_nth [OF s1, of k] by simp
  qed
  ultimately show ?case using IH by (simp add: s1 Let_def)
qed (simp add: size_from_def)

section \<open>A frame arrives\<close>

definition frame_ok :: "(int \<Rightarrow> PixelFormat) \<Rightarrow> VFrame \<Rightarrow> bool" where
  "frame_ok cast f \<longleftrightarrow>
     isAllowedFormat cast (vf_format f) \<and> 0 < vf_width f \<and> vf_width f \<le> kMaxDimension
     \<and> 0 < vf_height f \<and> vf_height f \<le> kMaxDimension
     \<and> 0 < length (vf_planes f) \<and> length (vf_planes f) \<le> 4
     \<and> list_all (\<lambda>v. 0 < vp_stride v \<and> vp_bits v \<noteq> []) (vf_planes f)"

text \<open>The allocated plane \<open>v\<close> has lines, and not more than the source \<open>w\<close>.\<close>

definition takes_plane :: "VPlane \<Rightarrow> VPlane \<Rightarrow> bool" where
  "takes_plane w v \<longleftrightarrow> 0 < vp_stride v \<and> 0 < mappedBytes v div vp_stride v
     \<and> (mappedBytes v div vp_stride v - 1) * vp_stride w + min (vp_stride v) (vp_stride w) \<le> mappedBytes w"

definition same_picture :: "VPlane \<Rightarrow> VPlane \<Rightarrow> bool" where
  "same_picture w u \<longleftrightarrow>
     (\<forall>q k. 0 \<le> q \<and> q < mappedBytes u div vp_stride u \<and> 0 \<le> k \<and> k < min (vp_stride u) (vp_stride w) \<longrightarrow>
        vp_bits u ! nat (q * vp_stride u + k) = vp_bits w ! nat (q * vp_stride w + k))"

lemma holds_fits:
  "holds_plane slot v p \<Longrightarrow> 0 < vp_stride v \<Longrightarrow> vp_bits v \<noteq> [] \<Longrightarrow> plane_fits (int (length slot)) p"
  by (auto simp: holds_plane_def plane_fits_def mappedBytes_def)

lemma unpack_held_plane:
  assumes h: "holds_plane slot w p" "0 < vp_stride w" "vp_bits w \<noteq> []" and t: "takes_plane w v"
  shows "\<exists>u. unpack_plane slot p v = Shown u \<and> same_picture w u"
proof -
  have r: "room_for p v" using h(1) t by (simp add: room_for_def takes_plane_def holds_plane_def)
  from unpack_plane_cases(2) [OF holds_fits [OF h] r] obtain u where u: "unpack_plane slot p v = Shown u"
    "same_rows (\<lambda>i. slot ! nat (pl_offset p + i)) (pl_stride p) v u" by blast
  have "same_picture w u"
    unfolding same_picture_def
  proof (intro allI impI, elim conjE)
    fix q k
    assume q: "0 \<le> q" "q < mappedBytes u div vp_stride u" and k: "0 \<le> k" "k < min (vp_stride u) (vp_stride w)"
    have uv: "vp_stride u = vp_stride v" "mappedBytes u = mappedBytes v" and st: "pl_stride p = vp_stride w"
      using u(2) h(1) by (simp_all add: same_rows_def mappedBytes_def holds_plane_def)
    have "vp_bits u ! nat (q * vp_stride u + k) = slot ! nat (pl_offset p + (q * vp_stride w + k))"
      using u(2) q k by (simp add: same_rows_def uv st)
    moreover have "q * vp_stride w \<le> (mappedBytes v div vp_stride v - 1) * vp_stride w"
      using q h(2) by (intro mult_right_mono) (simp_all add: uv)
    then have "q * vp_stride w + k < mappedBytes w"
      using t k unfolding takes_plane_def uv by linarith
    moreover have "0 \<le> q * vp_stride w + k" using q(1) k(1) h(2) by simp
    ultimately show "vp_bits u ! nat (q * vp_stride u + k) = vp_bits w ! nat (q * vp_stride w + k)"
      using h(1) by (simp add: holds_plane_def mappedBytes_def nat_add_distrib)
  qed
  with u(1) show ?thesis by blast
qed

lemma unpack_held_planes:
  "list_all2 (holds_plane slot) ws ps \<Longrightarrow> list_all (\<lambda>w. 0 < vp_stride w \<and> vp_bits w \<noteq> []) ws \<Longrightarrow>
   list_all2 takes_plane ws vs \<Longrightarrow>
     \<exists>us. unpack_planes slot ps vs = Shown us \<and> list_all2 same_picture ws us"
proof (induction ws arbitrary: ps vs)
  case (Cons w ws)
  then obtain p ps' v vs' where l: "ps = p # ps'" "vs = v # vs'" "holds_plane slot w p" "takes_plane w v"
    "list_all2 (holds_plane slot) ws ps'" "list_all2 takes_plane ws vs'"
    by (auto simp: list_all2_Cons1)
  moreover from this Cons.prems(2) obtain u where "unpack_plane slot p v = Shown u" "same_picture w u"
    using unpack_held_plane [of slot w p v] by auto
  moreover from l Cons.prems(2) Cons.IH [of ps' vs'] obtain us where
    "unpack_planes slot ps' vs' = Shown us" "list_all2 same_picture ws us" by auto
  ultimately show ?case by auto
qed auto

text \<open>
  A frame the child packs is the frame the user interface shows. Whenever a decoded frame with a format
  the interface allows and a size within its limits fits in the slot, packing succeeds without leaving
  the slot, and unpacking that slot by that header shows a frame of the same format, size and times,
  every line of every plane of which has the bytes the decoder had, whatever the strides of the frame
  that Qt allocates for it.
\<close>

theorem frame_crosses_intact:
  assumes "frame_ok cast f" "packedSize f \<le> int (length slot)" "length (fh_planes hdr0) = 4"
    "alloc (vf_width f) (vf_height f) (vf_format f) = Some vs" "list_all2 takes_plane (vf_planes f) vs"
  shows "\<exists>slot1 hdr g. pack f slot hdr0 = Some (Some (slot1, hdr)) \<and> length slot1 = length slot
     \<and> fh_slot hdr = fh_slot hdr0
     \<and> unpack cast alloc hdr slot1 (int (length slot1)) = Shown g
     \<and> vf_format g = vf_format f \<and> vf_width g = vf_width f \<and> vf_height g = vf_height f
     \<and> vf_start g = vf_start f \<and> vf_end g = vf_end f
     \<and> list_all2 same_picture (vf_planes f) (vf_planes g)"
proof -
  let ?ws = "vf_planes f"
  have n: "0 < length ?ws" "length ?ws \<le> 4"
    and good: "list_all (\<lambda>w. 0 < vp_stride w \<and> vp_bits w \<noteq> []) ?ws"
    using assms(1) by (simp_all add: frame_ok_def)
  have "packedSize f = aligned (size_from 0 ?ws)"
    using n by (simp add: packedSize_def size_from_def kMaxPlanes_def)
  then have sz: "size_from 0 ?ws \<le> int (length slot)"
    using aligned_ge [of "size_from 0 ?ws"] assms(2) by linarith
  from pack_planes_ok [OF _ this] obtain s ps where p: "pack_planes ?ws 0 slot = Some (s, ps)"
    "length s = length slot" "list_all2 (holds_plane s) ?ws ps" by auto
  define hdr where "hdr = hdr0\<lparr>fh_pixelFormat := vf_format f, fh_width := vf_width f,
      fh_height := vf_height f, fh_startUs := vf_start f, fh_endUs := vf_end f,
      fh_planeCount := int (length ?ws), fh_planes := ps @ drop (length ps) (fh_planes hdr0)\<rparr>"
  have pk: "pack f slot hdr0 = Some (Some (s, hdr))"
    using n assms(2) p(1) by (simp add: pack_def Let_def kMaxPlanes_def hdr_def)
  have lp: "length ps = length ?ws" using p(3) by (simp add: list_all2_lengthD)
  have "list_all (plane_fits (int (length s))) ps"
    using p(3) good holds_fits
    by (auto simp: list_all2_conv_all_nth list_all_length)
  moreover from this lp n(1) have "0 < int (length s)" by (cases ps) (auto simp: plane_fits_def)
  ultimately have fits: "headerFits cast hdr (int (length s))"
    using assms(1) n lp by (simp add: headerFits_def hdr_def frame_ok_def kMaxPlanes_def)
  obtain us where us: "unpack_planes s ps vs = Shown us" "list_all2 same_picture ?ws us"
    using unpack_held_planes [OF p(3) good assms(5)] by blast
  have "unpack cast alloc hdr s (int (length s)) = Shown \<lparr>vf_format = vf_format f, vf_width = vf_width f,
      vf_height = vf_height f, vf_start = vf_start f, vf_end = vf_end f, vf_planes = us\<rparr>"
    using fits assms(4) us(1) lp list_all2_lengthD [OF assms(5)] by (simp add: unpack_def hdr_def)
  with pk p(2) us(2) show ?thesis
    by (intro exI [of _ s] exI [of _ hdr] exI [of _ "\<lparr>vf_format = vf_format f, vf_width = vf_width f,
      vf_height = vf_height f, vf_start = vf_start f, vf_end = vf_end f, vf_planes = us\<rparr>"])
       (simp add: hdr_def)
qed

text \<open>A grey picture of two lines of three bytes, padded to four, into an unpadded frame.\<close>

definition sample_frame :: VFrame where
  "sample_frame = \<lparr>vf_format = 24, vf_width = 3, vf_height = 2, vf_start = 0, vf_end = 40,
     vf_planes = [\<lparr>vp_stride = 4, vp_bits = [1, 2, 3, 0, 4, 5, 6, 0]\<rparr>]\<rparr>"

theorem frame_crosses_intact_witness:
  "\<exists>slot1 hdr g. pack sample_frame (replicate 64 0) new_header = Some (Some (slot1, hdr))
     \<and> unpack (\<lambda>_. Format_Y8) (\<lambda>_ _ _. Some [\<lparr>vp_stride = 3, vp_bits = replicate 6 0\<rparr>]) hdr slot1
         (int (length slot1)) = Shown g"
proof -
  have "frame_ok (\<lambda>_. Format_Y8) sample_frame"
    by (simp add: frame_ok_def sample_frame_def isAllowedFormat_def kMaxDimension_def)
  moreover have "packedSize sample_frame \<le> int (length (replicate 64 (0 :: byte)))"
    by (simp add: packedSize_def sample_frame_def kMaxPlanes_def aligned_def kAlign_def mappedBytes_def)
  moreover have "list_all2 takes_plane (vf_planes sample_frame) [\<lparr>vp_stride = 3, vp_bits = replicate 6 0\<rparr>]"
    by (simp add: sample_frame_def takes_plane_def mappedBytes_def)
  ultimately show ?thesis
    using frame_crosses_intact [of "\<lambda>_. Format_Y8" sample_frame "replicate 64 0" new_header
        "\<lambda>_ _ _. Some [\<lparr>vp_stride = 3, vp_bits = replicate 6 0\<rparr>]"]
    by (simp add: new_header_def) blast
qed

end
