(* ===== verification/MediaPlayer.thy ===== *)
theory MediaPlayer
  imports Complex_Main MediaFeed MediaFrames
begin

text \<open>
  \<open>bridges/isolatedmediaplayer.cpp\<close>: the side of the user interface of the isolated decoder. It starts
  the child, feeds it, tells it what the user wants, believes nothing it says without a check, and shows
  the frames it finds in the shared ring. What is Qt's or the system's is in \<open>QtEnv\<close> (which kind of
  source a URL is, its file name, the last language of \<open>QLocale\<close>, \<open>AssText::toHtml\<close>, the conversion to
  a pixel format, the allocation of a frame, reading a file), or an argument (whether the channel and the
  process could be started, whether a segment could be made). Floating-point values are reals. The ring
  is shared memory: a function from the number of a segment to its bytes.
\<close>

section \<open>Data\<close>

record MediaState =
  ms_playbackState :: int
  ms_mediaStatus :: int
  ms_error :: int
  ms_errorString :: string
  ms_duration :: int
  ms_position :: int
  ms_seekable :: bool
  ms_hasVideo :: bool
  ms_playbackRate :: real

definition new_state :: MediaState where
  "new_state = \<lparr>ms_playbackState = 0, ms_mediaStatus = 0, ms_error = 0, ms_errorString = [],
     ms_duration = 0, ms_position = 0, ms_seekable = False, ms_hasVideo = False, ms_playbackRate = 1\<rparr>"

record Track =
  tk_language :: int
  tk_title :: string

record Tracks =
  tr_audio :: "Track list"
  tr_subtitles :: "Track list"
  tr_activeAudio :: int
  tr_activeSubtitle :: int

definition new_tracks :: Tracks where
  "new_tracks = \<lparr>tr_audio = [], tr_subtitles = [], tr_activeAudio = -1, tr_activeSubtitle = -1\<rparr>"

text \<open>The enumerations of \<open>QMediaPlayer\<close>.\<close>

definition StoppedState :: int where "StoppedState = 0"
definition PlayingState :: int where "PlayingState = 1"
definition PausedState :: int where "PausedState = 2"
definition StalledMedia :: int where "StalledMedia = 3"
definition BufferingMedia :: int where "BufferingMedia = 4"
definition InvalidMedia :: int where "InvalidMedia = 7"
definition NoError :: int where "NoError = 0"
definition ResourceError :: int where "ResourceError = 1"
definition AccessDeniedError :: int where "AccessDeniedError = 4"

text \<open>What the user interface tells the child, and what the child tells it.\<close>

datatype ChildCmd =
    CmdOpen int int string
  | CmdClose
  | CmdData int nat int bytes
  | CmdDataError int nat
  | CmdRing int int int
  | CmdPlay
  | CmdPause
  | CmdStop
  | CmdSeek int
  | CmdRate real
  | CmdVolume real
  | CmdMuted bool
  | CmdAudioTrack int
  | CmdSubTrack int
  | CmdRelease int int

datatype ChildMsg =
    MsgHello
  | MsgState MediaState
  | MsgTracks Tracks
  | MsgRead int nat int int
  | MsgNeedRing int
  | MsgRingReady int
  | MsgFrame int FrameHeader
  | MsgSub string

datatype PlayerSignal =
    SourceChanged | VolumeChanged | MutedChanged | PlaybackStateChanged | MediaStatusChanged
  | ErrorChanged | ErrorOccurred int string | DurationChanged | PositionChanged int | SeekableChanged
  | HasVideoChanged | PlaybackRateChanged | TracksChanged | ActiveTracksChanged | SubtitleChanged
  | DecoderCrashed | NoPictureChanged | SoftwareDecodingStarted

type_synonym MetaData = "int option \<times> string option"

record QtEnv =
  qe_feedSource :: "string \<Rightarrow> FeedSource"
  qe_fileName :: "string \<Rightarrow> string"
  qe_lastLanguage :: int
  qe_toHtml :: "string \<Rightarrow> string \<times> int"
  qe_format :: "int \<Rightarrow> PixelFormat"
  qe_alloc :: "int \<Rightarrow> int \<Rightarrow> int \<Rightarrow> VPlane list option"
  qe_read :: "string \<Rightarrow> int \<Rightarrow> int \<Rightarrow> bytes"

text \<open>Whether the channel listens and the process starts.\<close>

record Launch =
  la_listens :: bool
  la_starts :: bool

record Player =
  mp_source :: string
  mp_output :: bool
  mp_volume :: real
  mp_muted :: bool
  mp_state :: MediaState
  mp_audioTracks :: "MetaData list"
  mp_subtitleTracks :: "MetaData list"
  mp_activeAudio :: int
  mp_activeSubtitle :: int
  mp_channel :: bool
  mp_proc :: "bool option"
  mp_sock :: bool
  mp_ready :: bool
  mp_pending :: "ChildCmd list"
  mp_feed :: "MediaFeed option"
  mp_sourceGen :: int
  mp_opened :: bool
  mp_wantState :: int
  mp_pendingSeek :: int
  mp_ring :: "int option"
  mp_published :: bool
  mp_generation :: int
  mp_slotBytes :: int
  mp_subHtml :: string
  mp_subAlign :: int
  mp_softwareDecode :: bool
  mp_noPicture :: bool
  mp_noPictureAfterMs :: int
  mp_soundFrom :: int
  mp_soundClock :: "int option"
  mp_loggedBadFrame :: bool
  mp_openClock :: "int option"
  mp_sawFrame :: bool
  mp_stallClock :: "int option"
  mp_stalls :: int
  mp_stallMs :: int
  mp_now :: int
  mp_out :: "ChildCmd list"
  mp_signals :: "PlayerSignal list"
  mp_sinkFrames :: "VFrame option list"
  mp_restarts :: "int list"

definition kMaxTracks :: nat where "kMaxTracks = 64"
definition kMaxText :: nat where "kMaxText = 4096"
definition kMaxSlotBytes :: int where "kMaxSlotBytes = 64 * 1024 * 1024"

definition mkPlayer :: Player where
  "mkPlayer = \<lparr>mp_source = [], mp_output = False, mp_volume = 1, mp_muted = False, mp_state = new_state,
     mp_audioTracks = [], mp_subtitleTracks = [], mp_activeAudio = -1, mp_activeSubtitle = -1,
     mp_channel = False, mp_proc = None, mp_sock = False, mp_ready = False, mp_pending = [],
     mp_feed = None, mp_sourceGen = 0, mp_opened = False, mp_wantState = 0, mp_pendingSeek = -1,
     mp_ring = None, mp_published = False, mp_generation = 0, mp_slotBytes = 0, mp_subHtml = [],
     mp_subAlign = 2, mp_softwareDecode = False, mp_noPicture = False, mp_noPictureAfterMs = 5000,
     mp_soundFrom = -1, mp_soundClock = None, mp_loggedBadFrame = False, mp_openClock = None,
     mp_sawFrame = False, mp_stallClock = None, mp_stalls = 0, mp_stallMs = 0, mp_now = 0, mp_out = [],
     mp_signals = [], mp_sinkFrames = [], mp_restarts = []\<rparr>"

section \<open>Small operations\<close>

definition p_emit :: "bool \<Rightarrow> PlayerSignal \<Rightarrow> Player \<Rightarrow> Player" where
  "p_emit c g p = (if c then p\<lparr>mp_signals := mp_signals p @ [g]\<rparr> else p)"

definition set_frame :: "VFrame option \<Rightarrow> Player \<Rightarrow> Player" where
  "set_frame f p = (if mp_output p then p\<lparr>mp_sinkFrames := mp_sinkFrames p @ [f]\<rparr> else p)"

definition send :: "ChildCmd \<Rightarrow> Player \<Rightarrow> Player" where
  "send c p =
     (if mp_ready p \<and> mp_sock p then p\<lparr>mp_out := mp_out p @ [c]\<rparr>
      else if mp_channel p then p\<lparr>mp_pending := mp_pending p @ [c]\<rparr>
      else p)"

definition fuzzyCompare :: "real \<Rightarrow> real \<Rightarrow> real \<Rightarrow> bool" where
  "fuzzyCompare scale a b \<longleftrightarrow> \<bar>a - b\<bar> * scale \<le> min \<bar>a\<bar> \<bar>b\<bar>"

definition toMetaData :: "QtEnv \<Rightarrow> Track list \<Rightarrow> MetaData list" where
  "toMetaData E ts =
     map (\<lambda>t. (if 0 < tk_language t \<and> tk_language t \<le> qe_lastLanguage E then Some (tk_language t) else None,
               if tk_title t \<noteq> [] then Some (take kMaxText (tk_title t)) else None))
       (take kMaxTracks ts)"

definition logPlaybackSummary :: "Player \<Rightarrow> Player" where
  "logPlaybackSummary p = p\<lparr>mp_sawFrame := False, mp_stalls := 0, mp_stallMs := 0, mp_stallClock := None\<rparr>"

text \<open>
  Sound that moves on with no picture: first the file is started again, decoded in software, by a
  posted call (\<open>mp_restarts\<close> holds where each is to go on); then the player gives up.
\<close>

definition checkPicture :: "Player \<Rightarrow> Player" where
  "checkPicture p =
     (if mp_sawFrame p \<or> mp_noPicture p \<or> \<not> ms_hasVideo (mp_state p)
         \<or> ms_playbackState (mp_state p) \<noteq> PlayingState
      then p\<lparr>mp_soundFrom := -1, mp_soundClock := None\<rparr>
      else if mp_soundFrom p < 0
      then p\<lparr>mp_soundFrom := ms_position (mp_state p), mp_soundClock := Some (mp_now p)\<rparr>
      else if mp_now p - (case mp_soundClock p of Some t \<Rightarrow> t | None \<Rightarrow> 0) < mp_noPictureAfterMs p
              \<or> ms_position (mp_state p) - mp_soundFrom p < mp_noPictureAfterMs p div 2
      then p
      else if \<not> mp_softwareDecode p
      then (p_emit True SoftwareDecodingStarted (p\<lparr>mp_softwareDecode := True\<rparr>))
             \<lparr>mp_soundFrom := -1, mp_soundClock := None,
              mp_restarts := mp_restarts p @ [ms_position (mp_state p)]\<rparr>
      else p_emit True NoPictureChanged (p\<lparr>mp_noPicture := True\<rparr>))"

section \<open>The state the child reports\<close>

definition sane_state :: "MediaState \<Rightarrow> MediaState" where
  "sane_state s =
     s\<lparr>ms_playbackState := clamp_int (ms_playbackState s) 0 PausedState,
       ms_mediaStatus := clamp_int (ms_mediaStatus s) 0 InvalidMedia,
       ms_error := clamp_int (ms_error s) 0 AccessDeniedError,
       ms_errorString := take kMaxText (ms_errorString s),
       ms_duration := max 0 (ms_duration s),
       ms_position := max 0 (ms_position s),
       ms_playbackRate := (if 0 < ms_playbackRate s \<and> ms_playbackRate s \<le> 16 then ms_playbackRate s else 1)\<rparr>"

definition note_stall :: "MediaState \<Rightarrow> Player \<Rightarrow> Player" where
  "note_stall old p =
     (let s = mp_state p; starved = (ms_mediaStatus s = StalledMedia \<or> ms_mediaStatus s = BufferingMedia) in
      if mp_sawFrame p \<and> ms_mediaStatus old \<noteq> ms_mediaStatus s then
        (case mp_stallClock p of
           None \<Rightarrow> if starved then p\<lparr>mp_stallClock := Some (mp_now p)\<rparr> else p
         | Some t \<Rightarrow> if starved then p
                     else p\<lparr>mp_stalls := mp_stalls p + 1, mp_stallMs := mp_stallMs p + (mp_now p - t),
                            mp_stallClock := None\<rparr>)
      else p)"

definition applyState :: "MediaState \<Rightarrow> Player \<Rightarrow> Player" where
  "applyState inp p =
     (let s = sane_state inp; old = mp_state p;
          err = (ms_error old \<noteq> ms_error s \<or> ms_errorString old \<noteq> ms_errorString s);
          p1 = p\<lparr>mp_state := s\<rparr>;
          p2 = p_emit (ms_playbackState old \<noteq> ms_playbackState s) PlaybackStateChanged p1;
          p3 = p_emit (ms_mediaStatus old \<noteq> ms_mediaStatus s) MediaStatusChanged p2;
          p4 = p_emit err ErrorChanged p3;
          p5 = p_emit (err \<and> ms_error s \<noteq> NoError) (ErrorOccurred (ms_error s) (ms_errorString s)) p4;
          p6 = p_emit (ms_duration old \<noteq> ms_duration s) DurationChanged p5;
          p7 = p_emit (ms_position old \<noteq> ms_position s) (PositionChanged (ms_position s)) p6;
          p8 = p_emit (ms_seekable old \<noteq> ms_seekable s) SeekableChanged p7;
          p9 = p_emit (ms_hasVideo old \<noteq> ms_hasVideo s) HasVideoChanged p8;
          p10 = p_emit (\<not> fuzzyCompare 1000000000000 (ms_playbackRate old) (ms_playbackRate s)) PlaybackRateChanged p9;
          p11 = (if ms_position old \<noteq> ms_position s then checkPicture p10 else p10)
      in note_stall old p11)"

definition active_track :: "int \<Rightarrow> MetaData list \<Rightarrow> int" where
  "active_track a ts = (if a < int (length ts) then max (-1) a else -1)"

definition applyTracks :: "QtEnv \<Rightarrow> Tracks \<Rightarrow> Player \<Rightarrow> Player" where
  "applyTracks E t p =
     (let p1 = p_emit True TracksChanged (p\<lparr>mp_audioTracks := toMetaData E (tr_audio t),
                 mp_subtitleTracks := toMetaData E (tr_subtitles t)\<rparr>);
          audio = active_track (tr_activeAudio t) (mp_audioTracks p1);
          subs = active_track (tr_activeSubtitle t) (mp_subtitleTracks p1)
      in if audio \<noteq> mp_activeAudio p1 \<or> subs \<noteq> mp_activeSubtitle p1
         then p_emit True ActiveTracksChanged (p1\<lparr>mp_activeAudio := audio, mp_activeSubtitle := subs\<rparr>)
         else p1)"

definition failWith :: "int \<Rightarrow> string \<Rightarrow> Player \<Rightarrow> Player" where
  "failWith e why p =
     applyState ((mp_state p)\<lparr>ms_playbackState := StoppedState, ms_mediaStatus := InvalidMedia,
       ms_error := e, ms_errorString := why\<rparr>) p"

section \<open>The child process\<close>

definition teardown :: "Player \<Rightarrow> Player" where
  "teardown p =
     (logPlaybackSummary p)\<lparr>mp_feed := None, mp_sock := False, mp_proc := None, mp_channel := False,
       mp_ring := None, mp_published := False, mp_slotBytes := 0, mp_opened := False, mp_ready := False,
       mp_pending := [], mp_out := []\<rparr>"

definition ensureChild :: "Launch \<Rightarrow> Player \<Rightarrow> bool \<times> Player" where
  "ensureChild L p =
     (if mp_channel p then (True, p)
      else if \<not> la_listens L then (False, failWith ResourceError ''decoder unavailable'' p)
      else
        let p1 = p\<lparr>mp_channel := True, mp_proc := Some (mp_softwareDecode p)\<rparr> in
        if \<not> la_starts L then (False, failWith ResourceError ''decoder unavailable'' (teardown p1))
        else (True, send (CmdMuted (mp_muted p1)) (send (CmdVolume (mp_volume p1)) p1)))"

definition adopt :: "Player \<Rightarrow> Player" where
  "adopt p = (if mp_sock p then p else p\<lparr>mp_sock := True\<rparr>)"

definition onChildLost :: "Player \<Rightarrow> Player" where
  "onChildLost p =
     p_emit True DecoderCrashed (failWith ResourceError ''decoder stopped'' (teardown p))"

section \<open>The feed\<close>

text \<open>The slots on the signals of the current feed.\<close>

definition on_feed_ready :: "QtEnv \<Rightarrow> int \<Rightarrow> Player \<Rightarrow> Player" where
  "on_feed_ready E n p =
     (let p1 = (send (CmdOpen (mp_sourceGen p) n (qe_fileName E (mp_source p))) p)\<lparr>mp_opened := True\<rparr>;
          p2 = (if 0 \<le> mp_pendingSeek p1
                then send (CmdSeek (mp_pendingSeek p1)) (p1\<lparr>mp_pendingSeek := -1\<rparr>) else p1)
      in if mp_wantState p2 = PlayingState then send CmdPlay p2
         else if mp_wantState p2 = PausedState then send CmdPause p2 else p2)"

fun feed_slot :: "QtEnv \<Rightarrow> FeedSignal \<Rightarrow> Player \<Rightarrow> Player" where
  "feed_slot E (FeedReady n) p = on_feed_ready E n p"
| "feed_slot E (FeedFailed why) p = failWith ResourceError why p"
| "feed_slot E (FeedData i off b) p = send (CmdData (mp_sourceGen p) i off b) p"
| "feed_slot E (FeedRefused i) p = send (CmdDataError (mp_sourceGen p) i) p"

text \<open>Something happens to the feed, and its signals are handled in their order.\<close>

definition with_feed :: "QtEnv \<Rightarrow> (MediaFeed \<Rightarrow> MediaFeed) \<Rightarrow> Player \<Rightarrow> Player" where
  "with_feed E g p =
     (case mp_feed p of
        None \<Rightarrow> p
      | Some fd \<Rightarrow> fold (feed_slot E) (mf_signals (g fd)) (p\<lparr>mp_feed := Some ((g fd)\<lparr>mf_signals := []\<rparr>)\<rparr>))"

definition startFeed :: "QtEnv \<Rightarrow> Player \<Rightarrow> Player" where
  "startFeed E p =
     (let p1 = p\<lparr>mp_sourceGen := mp_sourceGen p + 1, mp_opened := False\<rparr>;
          p2 = (if mp_subHtml p1 \<noteq> [] then p_emit True SubtitleChanged (p1\<lparr>mp_subHtml := []\<rparr>) else p1);
          p3 = (logPlaybackSummary p2)\<lparr>mp_soundFrom := -1, mp_soundClock := None, mp_loggedBadFrame := False,
                 mp_openClock := Some (mp_now p), mp_feed := Some (mkMediaFeed (qe_feedSource E (mp_source p)))\<rparr>
      in with_feed E feed_start p3)"

section \<open>What the user asks\<close>

definition setSource :: "QtEnv \<Rightarrow> Launch \<Rightarrow> string \<Rightarrow> Player \<Rightarrow> Player" where
  "setSource E L source p =
     (if source = mp_source p then p
      else
        let p1 = (p_emit True SourceChanged (p\<lparr>mp_source := source\<rparr>))\<lparr>mp_softwareDecode := False\<rparr>;
            p2 = (if mp_noPicture p1 then p_emit True NoPictureChanged (p1\<lparr>mp_noPicture := False\<rparr>) else p1)
        in if source = []
           then set_frame None (applyTracks E new_tracks (applyState new_state (teardown p2)))
           else
             let (ok, p3) = ensureChild L p2 in if ok then startFeed E p3 else p3)"

definition setVolume :: "real \<Rightarrow> Player \<Rightarrow> Player" where
  "setVolume v0 p =
     (let v = max 0 (min 1 v0) in
      if fuzzyCompare 100000 v (mp_volume p) then p
      else send (CmdVolume v) (p_emit True VolumeChanged (p\<lparr>mp_volume := v\<rparr>)))"

definition setMuted :: "bool \<Rightarrow> Player \<Rightarrow> Player" where
  "setMuted m p =
     (if m = mp_muted p then p else send (CmdMuted m) (p_emit True MutedChanged (p\<lparr>mp_muted := m\<rparr>)))"

definition setPosition :: "int \<Rightarrow> Player \<Rightarrow> Player" where
  "setPosition ms0 p =
     (let ms = max 0 ms0;
          p1 = (if mp_opened p then send (CmdSeek ms) p else p\<lparr>mp_pendingSeek := ms\<rparr>)
      in if ms_position (mp_state p1) \<noteq> ms
         then p_emit True (PositionChanged ms) (p1\<lparr>mp_state := (mp_state p1)\<lparr>ms_position := ms\<rparr>\<rparr>)
         else p1)"

definition setPlaybackRate :: "real \<Rightarrow> Player \<Rightarrow> Player" where
  "setPlaybackRate r p = send (CmdRate r) p"

definition setActiveAudioTrack :: "int \<Rightarrow> Player \<Rightarrow> Player" where
  "setActiveAudioTrack i p = send (CmdAudioTrack i) p"

definition setActiveSubtitleTrack :: "int \<Rightarrow> Player \<Rightarrow> Player" where
  "setActiveSubtitleTrack i p = send (CmdSubTrack i) p"

definition player_play :: "QtEnv \<Rightarrow> Launch \<Rightarrow> Player \<Rightarrow> Player" where
  "player_play E L p =
     (if mp_source p = [] then p
      else
        let p1 = p\<lparr>mp_wantState := PlayingState\<rparr>;
            (ok, p2) = (if mp_channel p1 then (True, p1)
                        else let (ok, q) = ensureChild L p1 in (ok, if ok then startFeed E q else q))
        in if ok \<and> mp_opened p2 then send CmdPlay p2 else p2)"

definition player_pause :: "Player \<Rightarrow> Player" where
  "player_pause p = (let p1 = p\<lparr>mp_wantState := PausedState\<rparr> in if mp_opened p1 then send CmdPause p1 else p1)"

definition player_stop :: "Player \<Rightarrow> Player" where
  "player_stop p = (let p1 = p\<lparr>mp_wantState := StoppedState\<rparr> in if mp_opened p1 then send CmdStop p1 else p1)"

text \<open>The posted restart of \<open>checkPicture\<close>.\<close>

definition restart_in_software :: "QtEnv \<Rightarrow> Launch \<Rightarrow> int \<Rightarrow> Player \<Rightarrow> Player" where
  "restart_in_software E L pos p =
     (let want = mp_wantState p; (ok, p1) = ensureChild L (teardown p) in
      if ok then startFeed E (p1\<lparr>mp_pendingSeek := pos, mp_wantState := want\<rparr>) else p1)"

section \<open>What the child says\<close>

type_synonym Shm = "int \<Rightarrow> bytes"

text \<open>The bytes of slot \<open>k\<close> of a ring with slots of \<open>n\<close> bytes.\<close>

definition slot_of :: "int \<Rightarrow> int \<Rightarrow> bytes \<Rightarrow> bytes" where
  "slot_of n k mem = take (nat n) (drop (nat (k * n)) mem)"

text \<open>
  \<open>created\<close>: the segment could be made; \<open>shared\<close>: the child may map it. A new segment gets the number of
  its generation, and is zeroed.
\<close>

definition shareRing :: "bool \<Rightarrow> bool \<Rightarrow> int \<Rightarrow> Player \<times> Shm \<Rightarrow> Player \<times> Shm" where
  "shareRing created shared slotBytes w =
     (let (p, mem) = w in
      if slotBytes \<le> mp_slotBytes p \<or> slotBytes \<le> 0 \<or> kMaxSlotBytes < slotBytes then (p, mem)
      else
        let n = slotBytes + slotBytes div 4; gen = mp_generation p + 1 in
        if \<not> created then (p, mem)
        else
          let mem1 = mem(gen := replicate (nat (n * kSlots)) 0) in
          if \<not> shared then (p, mem1)
          else (send (CmdRing gen n gen) (p\<lparr>mp_ring := Some gen, mp_published := True, mp_slotBytes := n,
                  mp_generation := gen\<rparr>), mem1))"

definition showFrame :: "QtEnv \<Rightarrow> Shm \<Rightarrow> int \<Rightarrow> FrameHeader \<Rightarrow> Player \<Rightarrow> Player" where
  "showFrame E mem generation hdr p =
     (let frame = (case mp_ring p of
                     Some r \<Rightarrow> if generation = mp_generation p \<and> 0 \<le> fh_slot hdr \<and> fh_slot hdr < kSlots
                       then Some (unpack (qe_format E) (qe_alloc E) hdr
                              (slot_of (mp_slotBytes p) (fh_slot hdr) (mem r)) (mp_slotBytes p))
                       else None
                   | None \<Rightarrow> None);
          p1 = send (CmdRelease generation (fh_slot hdr)) p
      in case frame of
           None \<Rightarrow> p1
         | Some (Shown f) \<Rightarrow> set_frame (Some f) (p1\<lparr>mp_sawFrame := True\<rparr>)
         | Some _ \<Rightarrow> p1\<lparr>mp_loggedBadFrame := True\<rparr>)"

definition onHello :: "Player \<Rightarrow> Player" where
  "onHello p = p\<lparr>mp_ready := True, mp_out := mp_out p @ mp_pending p, mp_pending := []\<rparr>"

fun onEvent :: "QtEnv \<Rightarrow> bool \<Rightarrow> bool \<Rightarrow> ChildMsg \<Rightarrow> Player \<times> Shm \<Rightarrow> Player \<times> Shm" where
  "onEvent E created shared MsgHello (p, mem) = (onHello p, mem)"
| "onEvent E created shared (MsgState s) (p, mem) = (applyState s p, mem)"
| "onEvent E created shared (MsgTracks t) (p, mem) = (applyTracks E t p, mem)"
| "onEvent E created shared (MsgRead gen i off len) (p, mem) =
     (if gen = mp_sourceGen p then with_feed E (feed_request (qe_read E (mp_source p)) i off len) p else p, mem)"
| "onEvent E created shared (MsgNeedRing n) (p, mem) = shareRing created shared n (p, mem)"
| "onEvent E created shared (MsgRingReady gen) (p, mem) =
     (if gen = mp_generation p \<and> mp_ring p \<noteq> None then p\<lparr>mp_published := False\<rparr> else p, mem)"
| "onEvent E created shared (MsgFrame gen hdr) (p, mem) = (showFrame E mem gen hdr p, mem)"
| "onEvent E created shared (MsgSub text) (p, mem) =
     (let (html, align) = qe_toHtml E (take kMaxText text) in
      if html \<noteq> mp_subHtml p \<or> align \<noteq> mp_subAlign p
      then p_emit True SubtitleChanged (p\<lparr>mp_subHtml := html, mp_subAlign := align\<rparr>) else p, mem)"

end
