(* ===== verification/MediaHost.thy ===== *)
theory MediaHost
  imports MediaPlayer
begin

text \<open>
  \<open>ipc/mediahost.cpp\<close>: the child that decodes. It carries out what the user interface tells it, reads
  through its \<open>RemoteSource\<close>, and packs each decoded frame into a free slot of the ring. The decoder is
  Qt's \<open>QMediaPlayer\<close>: the calls it gets are recorded (\<open>mh_player\<close>), its state and the frames it decodes
  are inputs (\<open>None\<close> is a frame that cannot be mapped). A read request is emitted from the reader's
  thread over a queued connection: it waits in \<open>mh_asked\<close> until the main thread sends it.
\<close>

section \<open>State\<close>

datatype PlayerCall =
    PcSetSourceDevice string
  | PcClearSource
  | PcPlay
  | PcPause
  | PcStop
  | PcSetPosition int
  | PcSetPlaybackRate real
  | PcSetVolume real
  | PcSetMuted bool
  | PcSetActiveAudioTrack int
  | PcSetActiveSubtitleTrack int

record MediaHost =
  mh_source :: "RemoteSource option"
  mh_sourceGen :: int
  mh_ring :: "int option"
  mh_slotBytes :: int
  mh_generation :: int
  mh_ringAsked :: int
  mh_busy :: "bool list"
  mh_framesSent :: int
  mh_framesDropped :: int
  mh_loggedUnmappable :: bool
  mh_loggedFirstFrame :: bool
  mh_frameWindow :: "int option"
  mh_stateQueued :: bool
  mh_asked :: "(int \<times> nat \<times> int \<times> int) list"
  mh_player :: "PlayerCall list"
  mh_out :: "ChildMsg list"

text \<open>After \<open>start\<close>: connected, and the greeting sent.\<close>

definition mkMediaHost :: MediaHost where
  "mkMediaHost = \<lparr>mh_source = None, mh_sourceGen = 0, mh_ring = None, mh_slotBytes = 0, mh_generation = 0,
     mh_ringAsked = 0, mh_busy = replicate (nat kSlots) False, mh_framesSent = 0, mh_framesDropped = 0,
     mh_loggedUnmappable = False, mh_loggedFirstFrame = False, mh_frameWindow = None,
     mh_stateQueued = False, mh_asked = [], mh_player = [], mh_out = [MsgHello]\<rparr>"

definition sendEvent :: "ChildMsg \<Rightarrow> MediaHost \<Rightarrow> MediaHost" where
  "sendEvent m h = h\<lparr>mh_out := mh_out h @ [m]\<rparr>"

definition call_player :: "PlayerCall \<Rightarrow> MediaHost \<Rightarrow> MediaHost" where
  "call_player c h = h\<lparr>mh_player := mh_player h @ [c]\<rparr>"

section \<open>The source\<close>

definition refuse :: "string \<Rightarrow> MediaHost \<Rightarrow> MediaHost" where
  "refuse why h =
     sendEvent (MsgState (new_state\<lparr>ms_mediaStatus := InvalidMedia, ms_error := AccessDeniedError,
       ms_errorString := why\<rparr>)) h"

text \<open>The old source is aborted and thrown away.\<close>

definition closeSource :: "MediaHost \<Rightarrow> MediaHost" where
  "closeSource h =
     (if mh_source h = None then h else (call_player PcClearSource h)\<lparr>mh_source := None\<rparr>)"

definition openSource :: "int \<Rightarrow> int \<Rightarrow> string \<Rightarrow> MediaHost \<Rightarrow> MediaHost" where
  "openSource generation n hint h =
     (let h1 = closeSource h in
      if n \<le> 0 then refuse ''empty source'' h1
      else call_player (PcSetSourceDevice hint)
        (h1\<lparr>mh_sourceGen := generation, mh_loggedUnmappable := False, mh_loggedFirstFrame := False,
            mh_source := Some (mkRemoteSource n)\<rparr>))"

definition on_source :: "(RemoteSource \<Rightarrow> RemoteSource) \<Rightarrow> MediaHost \<Rightarrow> MediaHost" where
  "on_source g h = h\<lparr>mh_source := map_option g (mh_source h)\<rparr>"

text \<open>One pass of a reader of the current source, and the main thread sending a question on.\<close>

definition host_read :: "int \<Rightarrow> int \<Rightarrow> MediaHost \<Rightarrow> ReadStep option \<times> MediaHost" where
  "host_read pos maxSize h =
     (case mh_source h of
        None \<Rightarrow> (None, h)
      | Some s \<Rightarrow>
          let (r, s1) = read_step pos maxSize s; h1 = h\<lparr>mh_source := Some s1\<rparr> in
          (Some r, case r of ReadAsk i off len \<Rightarrow> h1\<lparr>mh_asked := mh_asked h1 @ [(mh_sourceGen h1, i, off, len)]\<rparr>
                   | _ \<Rightarrow> h1))"

definition send_asked :: "MediaHost \<Rightarrow> MediaHost" where
  "send_asked h =
     (case mh_asked h of
        [] \<Rightarrow> h
      | (g, i, off, len) # qs \<Rightarrow> sendEvent (MsgRead g i off len) (h\<lparr>mh_asked := qs\<rparr>))"

section \<open>The ring\<close>

text \<open>\<open>mapped\<close>: the segment of the token can be opened for writing.\<close>

definition attachRing :: "bool \<Rightarrow> Shm \<Rightarrow> int \<Rightarrow> int \<Rightarrow> int \<Rightarrow> MediaHost \<Rightarrow> MediaHost" where
  "attachRing mapped mem generation slotBytes token h =
     (if \<not> mapped \<or> slotBytes \<le> 0 \<or> int (length (mem token)) < slotBytes * kSlots then h
      else sendEvent (MsgRingReady generation)
        (h\<lparr>mh_ring := Some token, mh_slotBytes := slotBytes, mh_generation := generation,
           mh_busy := map (\<lambda>_. False) (mh_busy h)\<rparr>))"

definition free_slot :: "MediaHost \<Rightarrow> int" where
  "free_slot h =
     (case List.find (\<lambda>i. \<not> mh_busy h ! i) [0 ..< nat kSlots] of Some i \<Rightarrow> int i | None \<Rightarrow> -1)"

text \<open>The bytes of slot \<open>k\<close> are replaced.\<close>

definition put_slot :: "int \<Rightarrow> int \<Rightarrow> bytes \<Rightarrow> bytes \<Rightarrow> bytes" where
  "put_slot n k b mem = take (nat (k * n)) mem @ b @ drop (nat (k * n) + length b) mem"

definition frame_window :: "int \<Rightarrow> MediaHost \<Rightarrow> MediaHost" where
  "frame_window now h =
     (let start = (case mh_frameWindow h of Some t \<Rightarrow> t | None \<Rightarrow> now) in
      if 5000 < now - start
      then h\<lparr>mh_framesSent := 0, mh_framesDropped := 0, mh_frameWindow := Some now\<rparr>
      else h\<lparr>mh_frameWindow := Some start\<rparr>)"

definition onFrame :: "int \<Rightarrow> VFrame option \<Rightarrow> MediaHost \<times> Shm \<Rightarrow> MediaHost \<times> Shm" where
  "onFrame now frame w =
     (let (h, mem) = w in
      case frame of
        None \<Rightarrow> (h\<lparr>mh_loggedUnmappable := True\<rparr>, mem)
      | Some f \<Rightarrow>
          let h1 = h\<lparr>mh_loggedFirstFrame := True\<rparr>; need = packedSize f in
          case mh_ring h1 of
            None \<Rightarrow> (if mh_ringAsked h1 < need then sendEvent (MsgNeedRing need) (h1\<lparr>mh_ringAsked := need\<rparr>) else h1, mem)
          | Some ring \<Rightarrow>
              if mh_slotBytes h1 < need
              then (if mh_ringAsked h1 < need then sendEvent (MsgNeedRing need) (h1\<lparr>mh_ringAsked := need\<rparr>) else h1, mem)
              else
                let slot = free_slot h1; h2 = frame_window now h1 in
                if slot < 0 then (h2\<lparr>mh_framesDropped := mh_framesDropped h2 + 1\<rparr>, mem)
                else case pack f (slot_of (mh_slotBytes h2) slot (mem ring)) new_header of
                       Some (Some (bytes, hdr)) \<Rightarrow>
                         (sendEvent (MsgFrame (mh_generation h2) (hdr\<lparr>fh_slot := slot\<rparr>))
                            (h2\<lparr>mh_busy := (mh_busy h2)[nat slot := True], mh_framesSent := mh_framesSent h2 + 1\<rparr>),
                          mem(ring := put_slot (mh_slotBytes h2) slot bytes (mem ring)))
                     | _ \<Rightarrow> (h2, mem))"

section \<open>Commands and state\<close>

fun dispatch :: "bool \<Rightarrow> Shm \<Rightarrow> ChildCmd \<Rightarrow> MediaHost \<Rightarrow> MediaHost" where
  "dispatch mapped mem (CmdOpen gen n hint) h = openSource gen n hint h"
| "dispatch mapped mem CmdClose h = closeSource h"
| "dispatch mapped mem (CmdData gen i off b) h = (if gen = mh_sourceGen h then on_source (deliver i off b) h else h)"
| "dispatch mapped mem (CmdDataError gen i) h = (if gen = mh_sourceGen h then on_source (src_fail i) h else h)"
| "dispatch mapped mem (CmdRing gen n token) h = attachRing mapped mem gen n token h"
| "dispatch mapped mem CmdPlay h = call_player PcPlay h"
| "dispatch mapped mem CmdPause h = call_player PcPause h"
| "dispatch mapped mem CmdStop h = call_player PcStop h"
| "dispatch mapped mem (CmdSeek ms) h = call_player (PcSetPosition ms) h"
| "dispatch mapped mem (CmdRate r) h = call_player (PcSetPlaybackRate r) h"
| "dispatch mapped mem (CmdVolume v) h = call_player (PcSetVolume v) h"
| "dispatch mapped mem (CmdMuted m) h = call_player (PcSetMuted m) h"
| "dispatch mapped mem (CmdAudioTrack t) h = call_player (PcSetActiveAudioTrack t) h"
| "dispatch mapped mem (CmdSubTrack t) h = call_player (PcSetActiveSubtitleTrack t) h"
| "dispatch mapped mem (CmdRelease gen slot) h =
     (if gen = mh_generation h \<and> 0 \<le> slot \<and> slot < kSlots
      then h\<lparr>mh_busy := (mh_busy h)[nat slot := False]\<rparr> else h)"

definition scheduleState :: "MediaHost \<Rightarrow> MediaHost" where
  "scheduleState h = h\<lparr>mh_stateQueued := True\<rparr>"

definition sendState :: "MediaState \<Rightarrow> MediaHost \<Rightarrow> MediaHost" where
  "sendState s h = sendEvent (MsgState s) (h\<lparr>mh_stateQueued := False\<rparr>)"

definition sendTracks :: "Tracks \<Rightarrow> MediaHost \<Rightarrow> MediaHost" where
  "sendTracks t h = sendEvent (MsgTracks t) h"

section \<open>Slots\<close>

lemma kSlots_nat [simp]: "nat kSlots = 3" by (simp add: kSlots_def)

lemma slot_put_same:
  assumes "0 \<le> k" "0 \<le> n" "length b = nat n" "nat (k * n) + nat n \<le> length mem"
  shows "slot_of n k (put_slot n k b mem) = b"
  using assms by (simp add: slot_of_def put_slot_def)

lemma put_slot_length:
  "0 \<le> k \<Longrightarrow> nat (k * n) + length b \<le> length mem \<Longrightarrow> length (put_slot n k b mem) = length mem"
  by (simp add: put_slot_def)

lemma slot_put_other:
  assumes "0 \<le> k" "0 \<le> j" "j \<noteq> k" "0 \<le> n" "length b = nat n" "nat (k * n) + nat n \<le> length mem"
  shows "slot_of n j (put_slot n k b mem) = slot_of n j mem"
proof -
  have l: "length (put_slot n k b mem) = length mem" using assms by (intro put_slot_length) simp_all
  have pos: "0 \<le> k * n" "0 \<le> j * n" using assms by simp_all
  have nth: "put_slot n k b mem ! i = mem ! i" if "i < length mem" "i < nat (k * n) \<or> nat (k * n) + nat n \<le> i" for i
    using that assms by (auto simp: put_slot_def nth_append)
  have apart: "nat (j * n) + i < nat (k * n) \<or> nat (k * n) + nat n \<le> nat (j * n) + i" if "i < nat n" for i
  proof (cases "j < k")
    case True
    have "(j + 1) * n \<le> k * n" using True assms by (intro mult_right_mono) simp_all
    then have "j * n + n \<le> k * n" by (simp add: distrib_right)
    then show ?thesis using that pos by linarith
  next
    case False
    have "(k + 1) * n \<le> j * n" using False assms by (intro mult_right_mono) simp_all
    then have "k * n + n \<le> j * n" by (simp add: distrib_right)
    then show ?thesis using that pos by linarith
  qed
  show ?thesis unfolding slot_of_def
  proof (rule nth_equalityI)
    fix i assume "i < length (take (nat n) (drop (nat (j * n)) (put_slot n k b mem)))"
    then have i: "i < nat n" "nat (j * n) + i < length mem" by (auto simp: l)
    then show "take (nat n) (drop (nat (j * n)) (put_slot n k b mem)) ! i = take (nat n) (drop (nat (j * n)) mem) ! i"
      using nth [OF i(2) apart [OF i(1)]] l by simp
  qed (simp add: l)
qed

lemma slot_length:
  "0 \<le> k \<Longrightarrow> k < kSlots \<Longrightarrow> 0 \<le> n \<Longrightarrow> int (length mem) = kSlots * n \<Longrightarrow>
     nat (k * n) + nat n \<le> length mem \<and> length (slot_of n k mem) = nat n"
proof -
  assume a: "0 \<le> k" "k < kSlots" "0 \<le> n" "int (length mem) = kSlots * n"
  have "(k + 1) * n \<le> kSlots * n" using a by (intro mult_right_mono) simp_all
  then have "k * n + n \<le> int (length mem)" "0 \<le> k * n" using a by (simp_all add: distrib_right)
  then show ?thesis using a(3) by (simp add: slot_of_def)
qed

lemma free_slot_spec:
  assumes "0 \<le> free_slot h"
  shows "free_slot h < kSlots \<and> \<not> mh_busy h ! nat (free_slot h)"
proof (cases "List.find (\<lambda>i. \<not> mh_busy h ! i) [0 ..< nat kSlots]")
  case (Some i)
  then have "\<not> mh_busy h ! i \<and> i < 3" by (auto simp: find_Some_iff simp del: upt_rec_numeral)
  then show ?thesis using Some by (simp add: free_slot_def kSlots_def)
qed (use assms in \<open>simp add: free_slot_def\<close>)

end
