(* ===== verification/MediaSystem.thy ===== *)
theory MediaSystem
  imports MediaHost
begin

text \<open>
  The player and its child together. The socket keeps the order in both directions, so what is written
  and not yet read is the list \<open>mp_out\<close> of the player and \<open>mh_out\<close> of the child. A child exists for the
  player while its socket is open: when the player drops the socket the child quits. Every event is one
  turn of an event loop (or one pass of a reader's thread), and they come in any order.
\<close>

section \<open>The system\<close>

record MediaSystem =
  sy_player :: Player
  sy_host :: "MediaHost option"
  sy_shm :: Shm

datatype SysEvent =
    UiSetSource Launch string
  | UiPlay Launch
  | UiPause
  | UiStop
  | UiSetPosition int
  | UiSetVolume real
  | UiSetMuted bool
  | UiSetRate real
  | UiSetAudioTrack int
  | UiSetSubtitleTrack int
  | UiSetOutput bool
  | UiTick int
  | UiRestarts Launch
  | UiFeed FeedEvent
  | UiReceives bool bool
  | ChildConnects
  | ChildLost
  | ChildReceives bool
  | ChildReads nat int
  | ChildSendsRead
  | ChildDecodes "VFrame option"
  | ChildReports ChildMsg

definition fresh_media :: MediaSystem where
  "fresh_media = \<lparr>sy_player = mkPlayer, sy_host = None, sy_shm = (\<lambda>_. [])\<rparr>"

text \<open>A turn of the player; without a socket there is no child.\<close>

definition turn :: "Player \<Rightarrow> MediaSystem \<Rightarrow> MediaSystem" where
  "turn p s = s\<lparr>sy_player := p, sy_host := (if mp_sock p then sy_host s else None)\<rparr>"

definition feed_turn :: "QtEnv \<Rightarrow> FeedEvent \<Rightarrow> Player \<Rightarrow> Player" where
  "feed_turn E e p =
     (case e of EvRequest _ _ _ \<Rightarrow> p | _ \<Rightarrow> with_feed E (feed_event (qe_read E (mp_source p)) e) p)"

text \<open>Reports of the decoder: its state, its tracks, a subtitle.\<close>

definition report :: "ChildMsg \<Rightarrow> MediaHost \<Rightarrow> MediaHost" where
  "report m h = (case m of MsgState s \<Rightarrow> sendState s h | MsgTracks t \<Rightarrow> sendTracks t h
     | MsgSub _ \<Rightarrow> sendEvent m h | _ \<Rightarrow> h)"

fun media_step :: "QtEnv \<Rightarrow> SysEvent \<Rightarrow> MediaSystem \<Rightarrow> MediaSystem" where
  "media_step E (UiSetSource L u) s = turn (setSource E L u (sy_player s)) s"
| "media_step E (UiPlay L) s = turn (player_play E L (sy_player s)) s"
| "media_step E UiPause s = turn (player_pause (sy_player s)) s"
| "media_step E UiStop s = turn (player_stop (sy_player s)) s"
| "media_step E (UiSetPosition ms) s = turn (setPosition ms (sy_player s)) s"
| "media_step E (UiSetVolume v) s = turn (setVolume v (sy_player s)) s"
| "media_step E (UiSetMuted m) s = turn (setMuted m (sy_player s)) s"
| "media_step E (UiSetRate r) s = turn (setPlaybackRate r (sy_player s)) s"
| "media_step E (UiSetAudioTrack i) s = turn (setActiveAudioTrack i (sy_player s)) s"
| "media_step E (UiSetSubtitleTrack i) s = turn (setActiveSubtitleTrack i (sy_player s)) s"
| "media_step E (UiSetOutput b) s = turn ((sy_player s)\<lparr>mp_output := b\<rparr>) s"
| "media_step E (UiTick now) s = turn ((sy_player s)\<lparr>mp_now := max now (mp_now (sy_player s))\<rparr>) s"
| "media_step E (UiRestarts L) s =
     (case mp_restarts (sy_player s) of
        [] \<Rightarrow> s
      | pos # ps \<Rightarrow> turn (restart_in_software E L pos ((sy_player s)\<lparr>mp_restarts := ps\<rparr>)) s)"
| "media_step E (UiFeed e) s = turn (feed_turn E e (sy_player s)) s"
| "media_step E (UiReceives created shared) s =
     (case sy_host s of
        None \<Rightarrow> s
      | Some h \<Rightarrow>
          (case mh_out h of
             [] \<Rightarrow> s
           | m # ms \<Rightarrow>
               let (p, mem) = onEvent E created shared m (sy_player s, sy_shm s)
               in turn p (s\<lparr>sy_host := Some (h\<lparr>mh_out := ms\<rparr>), sy_shm := mem\<rparr>)))"
| "media_step E ChildConnects s =
     (if mp_channel (sy_player s) \<and> \<not> mp_sock (sy_player s)
      then s\<lparr>sy_player := adopt (sy_player s), sy_host := Some mkMediaHost\<rparr> else s)"
| "media_step E ChildLost s =
     (if mp_channel (sy_player s) then turn (onChildLost (sy_player s)) s else s)"
| "media_step E (ChildReceives mapped) s =
     (case (sy_host s, mp_out (sy_player s)) of
        (Some h, c # cs) \<Rightarrow>
          s\<lparr>sy_player := (sy_player s)\<lparr>mp_out := cs\<rparr>, sy_host := Some (dispatch mapped (sy_shm s) c h)\<rparr>
      | _ \<Rightarrow> s)"
| "media_step E (ChildReads pos n) s =
     (case sy_host s of None \<Rightarrow> s | Some h \<Rightarrow> s\<lparr>sy_host := Some (snd (host_read (int pos) n h))\<rparr>)"
| "media_step E ChildSendsRead s =
     (case sy_host s of None \<Rightarrow> s | Some h \<Rightarrow> s\<lparr>sy_host := Some (send_asked h)\<rparr>)"
| "media_step E (ChildDecodes f) s =
     (case sy_host s of
        None \<Rightarrow> s
      | Some h \<Rightarrow> let (h1, mem) = onFrame (mp_now (sy_player s)) f (h, sy_shm s)
                  in s\<lparr>sy_host := Some h1, sy_shm := mem\<rparr>)"
| "media_step E (ChildReports m) s =
     (case sy_host s of None \<Rightarrow> s | Some h \<Rightarrow> s\<lparr>sy_host := Some (report m h)\<rparr>)"

definition media_run :: "QtEnv \<Rightarrow> SysEvent list \<Rightarrow> MediaSystem \<Rightarrow> MediaSystem" where
  "media_run E es s = fold (media_step E) es s"

section \<open>What the player's operations leave alone\<close>

text \<open>Everything but what is only for the user to see.\<close>

definition player_core where
  "player_core p = (mp_source p, mp_channel p, mp_sock p, mp_ready p, mp_pending p, mp_out p, mp_feed p,
     mp_sourceGen p, mp_opened p, mp_wantState p, mp_pendingSeek p, mp_ring p, mp_generation p,
     mp_slotBytes p, mp_sinkFrames p)"

lemma core_emit [simp]: "player_core (p_emit c g p) = player_core p"
  by (simp add: p_emit_def player_core_def)

lemma core_applyState [simp]: "player_core (applyState s p) = player_core p"
proof -
  have a: "player_core (note_stall old q) = player_core q" for old q
    by (simp add: note_stall_def Let_def player_core_def split: option.split)
  have b: "player_core (checkPicture q) = player_core q" for q
    by (simp add: checkPicture_def player_core_def p_emit_def)
  have c: "player_core (q\<lparr>mp_state := st\<rparr>) = player_core q" for q st by (simp add: player_core_def)
  show ?thesis unfolding applyState_def Let_def a
    by (simp only: core_emit b c if_distrib if_cancel)
qed

lemma core_failWith [simp]: "player_core (failWith e why p) = player_core p"
  by (simp add: failWith_def)

lemma core_applyTracks [simp]: "player_core (applyTracks E t p) = player_core p"
  by (simp add: applyTracks_def Let_def) (simp add: player_core_def p_emit_def)

text \<open>All commands that wait on their way to the child.\<close>

definition cmds :: "Player \<Rightarrow> ChildCmd list" where
  "cmds p = mp_out p @ mp_pending p"

text \<open>The connection: what is written when, and nothing without a channel.\<close>

definition conn_ok :: "Player \<Rightarrow> bool" where
  "conn_ok p \<longleftrightarrow>
     (mp_ready p \<longrightarrow> mp_sock p) \<and> (mp_sock p \<longrightarrow> mp_channel p)
     \<and> (if mp_ready p then mp_pending p = [] else mp_out p = [])
     \<and> (\<not> mp_channel p \<longrightarrow> mp_pending p = [] \<and> mp_feed p = None \<and> mp_ring p = None \<and> \<not> mp_opened p)"

lemma conn_ok_core: "player_core p = player_core q \<Longrightarrow> conn_ok p = conn_ok q"
  by (simp add: player_core_def conn_ok_def)

lemma cmds_core: "player_core p = player_core q \<Longrightarrow> cmds p = cmds q"
  by (simp add: player_core_def cmds_def)

lemma cmds_send: "conn_ok p \<Longrightarrow> cmds (send c p) = (if mp_channel p then cmds p @ [c] else cmds p)"
  by (auto simp: conn_ok_def cmds_def send_def)

lemma conn_ok_send: "conn_ok p \<Longrightarrow> conn_ok (send c p)"
  by (auto simp: conn_ok_def send_def)

text \<open>What a command leaves alone.\<close>

definition aside where
  "aside p = (mp_source p, mp_channel p, mp_sock p, mp_ready p, mp_feed p,
     mp_sourceGen p, mp_opened p, mp_wantState p, mp_pendingSeek p, mp_ring p, mp_generation p,
     mp_slotBytes p, mp_sinkFrames p)"

lemma aside_send [simp]: "aside (send c p) = aside p"
  by (simp add: send_def aside_def)

lemma aside_core: "player_core p = player_core q \<Longrightarrow> aside p = aside q"
  by (simp add: player_core_def aside_def)

lemma aside_fields:
  assumes "aside p = aside q"
  shows "mp_source p = mp_source q" "mp_channel p = mp_channel q" "mp_sock p = mp_sock q"
    "mp_ready p = mp_ready q" "mp_feed p = mp_feed q" "mp_sourceGen p = mp_sourceGen q"
    "mp_opened p = mp_opened q" "mp_wantState p = mp_wantState q" "mp_pendingSeek p = mp_pendingSeek q"
    "mp_ring p = mp_ring q" "mp_generation p = mp_generation q" "mp_slotBytes p = mp_slotBytes q"
    "mp_sinkFrames p = mp_sinkFrames q"
  using assms by (simp_all add: aside_def)

lemmas send_fields [simp] = aside_fields [OF aside_send]

end
