(* ===== verification/MediaPictures.thy ===== *)
theory MediaPictures
  imports MediaSystem "HOL-Library.Sublist" "HOL-Library.Multiset"
begin

text \<open>
  The ring of frames. The child writes a slot only while nobody reads it: a slot is busy from the moment
  its header is sent until the release for it has come back. So what the user interface finds in a slot
  is what the child packed, and every frame shown is a decoded one, in the order they were decoded.
\<close>

section \<open>What is under way\<close>

fun ring_cmd :: "ChildCmd \<Rightarrow> (int \<times> int \<times> int) list" where
  "ring_cmd (CmdRing g n t) = [(g, n, t)]"
| "ring_cmd _ = []"

fun release_cmd :: "ChildCmd \<Rightarrow> (int \<times> int) list" where
  "release_cmd (CmdRelease g k) = [(g, k)]"
| "release_cmd _ = []"

fun frame_msg :: "ChildMsg \<Rightarrow> (int \<times> FrameHeader) list" where
  "frame_msg (MsgFrame g hdr) = [(g, hdr)]"
| "frame_msg _ = []"

definition rings :: "ChildCmd list \<Rightarrow> (int \<times> int \<times> int) list" where
  "rings cs = concat (map ring_cmd cs)"

definition releases :: "ChildCmd list \<Rightarrow> (int \<times> int) list" where
  "releases cs = concat (map release_cmd cs)"

definition frames :: "ChildMsg list \<Rightarrow> (int \<times> FrameHeader) list" where
  "frames ms = concat (map frame_msg ms)"

definition plain :: "ChildCmd \<Rightarrow> bool" where
  "plain c \<longleftrightarrow> ring_cmd c = [] \<and> release_cmd c = []"

definition shown_frames :: "VFrame option list \<Rightarrow> VFrame list" where
  "shown_frames fs = concat (map (\<lambda>f. case f of None \<Rightarrow> [] | Some g \<Rightarrow> [g]) fs)"

lemma under_way_simps [simp]:
  "rings [] = []" "rings (c # cs) = ring_cmd c @ rings cs" "rings (cs @ ds) = rings cs @ rings ds"
  "releases [] = []" "releases (c # cs) = release_cmd c @ releases cs"
  "releases (cs @ ds) = releases cs @ releases ds"
  "frames [] = []" "frames (m # ms) = frame_msg m @ frames ms" "frames (ms @ ns) = frames ms @ frames ns"
  "shown_frames [] = []" "shown_frames (fs @ [None]) = shown_frames fs"
  "shown_frames (fs @ [Some g]) = shown_frames fs @ [g]"
  by (simp_all add: rings_def releases_def frames_def shown_frames_def)

text \<open>The slots in use of each generation: frames not shown yet, and releases not read yet.\<close>

definition owed :: "ChildMsg list \<Rightarrow> ChildCmd list \<Rightarrow> (int \<times> int) multiset" where
  "owed ms cs = mset (map (\<lambda>(g, hdr). (g, fh_slot hdr)) (frames ms)) + mset (releases cs)"

text \<open>A slot of the generation in use is owed once if it is busy, and not at all if it is free.\<close>

definition owed_ok :: "int \<Rightarrow> bool list \<Rightarrow> (int \<times> int) multiset \<Rightarrow> bool" where
  "owed_ok g busy l \<longleftrightarrow>
     length busy = nat kSlots \<and> (\<forall>k < nat kSlots. count l (g, int k) \<le> (if busy ! k then 1 else 0))
     \<and> (\<forall>x \<in># l. fst x \<le> g)"

lemma owed_ok_count: "owed_ok g busy l \<Longrightarrow> k < nat kSlots \<Longrightarrow> count l (g, int k) \<le> (if busy ! k then 1 else 0)"
  unfolding owed_ok_def by blast

lemma owed_ok_take:
  assumes "owed_ok g busy l" "0 \<le> k" "k < kSlots" "\<not> busy ! nat k"
  shows "owed_ok g (busy[nat k := True]) (add_mset (g, k) l)" "(g, k) \<notin># l"
proof -
  have "nat k < nat kSlots" using assms by (simp add: kSlots_def)
  then have "count l (g, int (nat k)) \<le> (if busy ! nat k then 1 else 0)"
    using assms(1) unfolding owed_ok_def by blast
  then have z: "count l (g, k) = 0" using assms by simp
  then show "(g, k) \<notin># l" by (simp add: not_in_iff)
  have "count (add_mset (g, k) l) (g, int j) \<le> (if busy[nat k := True] ! j then 1 else 0)" if "j < nat kSlots" for j
  proof (cases "int j = k")
    case False
    have "count l (g, int j) \<le> (if busy ! j then 1 else 0)" using owed_ok_count [OF assms(1) that] .
    moreover have "busy[nat k := True] ! j = busy ! j" using False assms(2) by auto
    ultimately show ?thesis using False by simp
  qed (use that z assms(1) in \<open>auto simp: owed_ok_def\<close>)
  then show "owed_ok g (busy[nat k := True]) (add_mset (g, k) l)"
    using assms(1) by (simp add: owed_ok_def)
qed

lemma owed_ok_release:
  assumes "owed_ok g busy (add_mset (g, k) l)"
  shows "owed_ok g (if 0 \<le> k \<and> k < kSlots then busy[nat k := False] else busy) l"
proof -
  have c: "count l (g, int j) + (if int j = k then 1 else 0) \<le> (if busy ! j then 1 else 0)" if "j < nat kSlots" for j
    using owed_ok_count [OF assms that] by (cases "int j = k") simp_all
  have "count l (g, int j) \<le> (if (if 0 \<le> k \<and> k < kSlots then busy[nat k := False] else busy) ! j then 1 else 0)"
    if "j < nat kSlots" for j
    using c [OF that] assms that by (auto simp: owed_ok_def nth_list_update kSlots_def split: if_splits)
  then show ?thesis using assms by (simp add: owed_ok_def)
qed

lemma owed_ok_less: "owed_ok g busy (add_mset x l) \<Longrightarrow> owed_ok g busy l"
proof -
  assume a: "owed_ok g busy (add_mset x l)"
  have "count l (g, int k) \<le> (if busy ! k then 1 else 0)" if "k < nat kSlots" for k
    using owed_ok_count [OF a that] by (cases "x = (g, int k)") simp_all
  then show ?thesis using a by (simp add: owed_ok_def)
qed

lemma owed_ok_new:
  assumes "owed_ok g busy l" "g < g'"
  shows "owed_ok g' (map (\<lambda>_. False) busy) l"
proof -
  have "(g', k) \<notin># l" for k using assms by (force simp: owed_ok_def)
  then have "count l (g', k) = 0" for k by (simp add: count_eq_zero_iff)
  then show ?thesis using assms by (auto simp: owed_ok_def)
qed

section \<open>The player's side\<close>

definition pixview where
  "pixview p = (rings (cmds p), releases (cmds p), mp_ring p, mp_generation p, mp_slotBytes p,
     shown_frames (mp_sinkFrames p), mp_sock p)"

definition quiet :: "Player \<Rightarrow> Player \<Rightarrow> bool" where
  "quiet p q \<longleftrightarrow> (conn_ok p \<longrightarrow> conn_ok q \<and> pixview q = pixview p)"

lemma quiet_refl [simp]: "quiet p p" by (simp add: quiet_def)

lemma quiet_trans: "quiet p q \<Longrightarrow> quiet q r \<Longrightarrow> quiet p r" by (auto simp: quiet_def)

lemma quiet_core: "player_core q = player_core p \<Longrightarrow> quiet p q"
  using conn_ok_core [of q p] cmds_core [of q p] by (simp add: quiet_def pixview_def player_core_def)

lemma quiet_send: "plain c \<Longrightarrow> quiet p (send c p)"
  using cmds_send [of p c] conn_ok_send [of p c]
  by (simp add: quiet_def pixview_def plain_def)

lemma quiet_frame_None: "quiet p (set_frame None p)"
  by (simp add: quiet_def set_frame_def pixview_def cmds_def conn_ok_def)

lemma plain_simps [simp]:
  "plain (CmdOpen a b c)" "plain CmdClose" "plain (CmdData a i b d)" "plain (CmdDataError a i)" "plain CmdPlay"
  "plain CmdPause" "plain CmdStop" "plain (CmdSeek a)" "plain (CmdRate r)" "plain (CmdVolume r)"
  "plain (CmdMuted m)" "plain (CmdAudioTrack a)" "plain (CmdSubTrack a)"
  by (simp_all add: plain_def)

lemma quiet_fields:
  "quiet p (p\<lparr>mp_wantState := w\<rparr>)" "quiet p (p\<lparr>mp_pendingSeek := a\<rparr>)" "quiet p (p\<lparr>mp_source := u\<rparr>)"
  "quiet p (p\<lparr>mp_sourceGen := g\<rparr>)" "mp_channel p \<Longrightarrow> quiet p (p\<lparr>mp_opened := b\<rparr>)"
  "mp_channel p \<Longrightarrow> quiet p (p\<lparr>mp_feed := fd\<rparr>)"
  by (simp_all add: quiet_def pixview_def cmds_def conn_ok_def)

lemma quiet_ready: "mp_channel p \<Longrightarrow> quiet p (on_feed_ready E n p)"
proof -
  assume ch: "mp_channel p"
  let ?p0 = "send (CmdOpen (mp_sourceGen p) n (qe_fileName E (mp_source p))) p"
  let ?p1 = "?p0\<lparr>mp_opened := True\<rparr>"
  let ?p2 = "if 0 \<le> mp_pendingSeek ?p1 then send (CmdSeek (mp_pendingSeek ?p1)) (?p1\<lparr>mp_pendingSeek := -1\<rparr>) else ?p1"
  have a: "quiet p ?p1"
    by (rule quiet_trans [OF quiet_send quiet_fields(5)]) (simp_all add: ch)
  have "quiet ?p1 (send c (?p1\<lparr>mp_pendingSeek := -1\<rparr>))" if "plain c" for c
    by (rule quiet_trans [OF quiet_fields(2) quiet_send [OF that]])
  then have b: "quiet ?p1 ?p2" by simp
  have "quiet ?p2 (on_feed_ready E n p)"
    unfolding on_feed_ready_def Let_def using quiet_send by simp
  with a b show ?thesis using quiet_trans by blast
qed

lemma ready_channel [simp]: "mp_channel (on_feed_ready E n p) = mp_channel p"
  by (simp add: on_feed_ready_def Let_def)

lemma failWith_fields [simp]:
  "mp_channel (failWith e why p) = mp_channel p" "mp_sock (failWith e why p) = mp_sock p"
  "mp_source (failWith e why p) = mp_source p" "mp_opened (failWith e why p) = mp_opened p"
  "mp_feed (failWith e why p) = mp_feed p" "mp_sourceGen (failWith e why p) = mp_sourceGen p"
  using core_failWith [of e why p] unfolding player_core_def by blast+

lemma quiet_slot: "mp_channel p \<Longrightarrow> quiet p (feed_slot E g p) \<and> mp_channel (feed_slot E g p)"
  by (cases g) (simp_all add: quiet_ready quiet_send quiet_core)

lemma quiet_slots: "mp_channel p \<Longrightarrow> quiet p (fold (feed_slot E) gs p) \<and> mp_channel (fold (feed_slot E) gs p)"
proof (induction gs arbitrary: p)
  case (Cons g gs)
  then show ?case using quiet_slot [of p E g] quiet_trans by fastforce
qed simp

lemma quiet_with_feed: "conn_ok p \<Longrightarrow> quiet p (with_feed E g p) \<and> mp_channel (with_feed E g p) = mp_channel p"
proof (cases "mp_feed p")
  case (Some fd)
  assume "conn_ok p"
  then have ch: "mp_channel p" using Some by (auto simp: conn_ok_def)
  let ?q = "p\<lparr>mp_feed := Some ((g fd)\<lparr>mf_signals := []\<rparr>)\<rparr>"
  have "mp_channel ?q" using ch by simp
  with quiet_slots [of ?q E "mf_signals (g fd)"] quiet_fields(6) [OF ch]
  show ?thesis using quiet_trans ch by (simp add: with_feed_def Some) blast
qed (simp add: with_feed_def)

lemma quiet_startFeed: "mp_channel p \<Longrightarrow> conn_ok p \<Longrightarrow> quiet p (startFeed E p)"
proof -
  assume a: "mp_channel p" "conn_ok p"
  let ?q = "p\<lparr>mp_sourceGen := mp_sourceGen p + 1, mp_opened := False,
      mp_feed := Some (mkMediaFeed (qe_feedSource E (mp_source p)))\<rparr>"
  define r where "r = (logPlaybackSummary
     (let p1 = p\<lparr>mp_sourceGen := mp_sourceGen p + 1, mp_opened := False\<rparr> in
      if mp_subHtml p1 \<noteq> [] then p_emit True SubtitleChanged (p1\<lparr>mp_subHtml := []\<rparr>) else p1))
      \<lparr>mp_soundFrom := -1, mp_soundClock := None, mp_loggedBadFrame := False,
       mp_openClock := Some (mp_now p), mp_feed := Some (mkMediaFeed (qe_feedSource E (mp_source p)))\<rparr>"
  have "player_core r = player_core ?q" by (simp add: r_def player_core_def p_emit_def logPlaybackSummary_def Let_def)
  then have qr: "quiet ?q r" by (rule quiet_core)
  have pq: "quiet p ?q" using a by (simp add: quiet_def pixview_def cmds_def conn_ok_def)
  then have "conn_ok r" using a qr by (simp add: quiet_def)
  with quiet_with_feed [of r E feed_start] have "quiet r (startFeed E p)"
    by (simp add: startFeed_def r_def Let_def)
  with pq qr show ?thesis using quiet_trans by blast
qed

lemma conn_ok_teardown [simp]: "conn_ok (teardown p)"
  by (simp add: teardown_def conn_ok_def)

text \<open>An operation is quiet, or it is after dropping the child.\<close>

definition after_op :: "Player \<Rightarrow> Player \<Rightarrow> bool" where
  "after_op p q \<longleftrightarrow> quiet p q \<or> quiet (teardown p) q"

lemma after_trans: "after_op p q \<Longrightarrow> quiet q r \<Longrightarrow> after_op p r"
  using quiet_trans by (auto simp: after_op_def)

lemma after_teardown: "quiet p q \<Longrightarrow> conn_ok p \<Longrightarrow> pixview (teardown q) = pixview (teardown p)"
  by (simp add: quiet_def pixview_def teardown_def logPlaybackSummary_def cmds_def)

lemma after_trans2: "conn_ok p \<Longrightarrow> quiet p q \<Longrightarrow> after_op q r \<Longrightarrow> after_op p r"
  using quiet_trans [of p q r] after_teardown [of p q] by (auto simp: after_op_def quiet_def)

lemma ensureChild_after:
  assumes "conn_ok p" "ensureChild L p = (ok, q)"
  shows "after_op p q \<and> conn_ok q \<and> (ok \<longrightarrow> mp_channel q)"
proof -
  let ?p1 = "p\<lparr>mp_channel := True, mp_proc := Some (mp_softwareDecode p)\<rparr>"
  have fresh: "quiet p ?p1" if "\<not> mp_channel p"
    using that by (auto simp: quiet_def pixview_def cmds_def conn_ok_def)
  have td: "player_core (failWith e why (teardown ?p1)) = player_core (teardown p)" for e why
    by (simp add: player_core_def [of "teardown _"] teardown_def logPlaybackSummary_def)
  have sends: "quiet ?p1 (send (CmdMuted m) (send (CmdVolume v) ?p1))" for m v
    by (rule quiet_trans [OF quiet_send quiet_send]) simp_all
  have c: "conn_ok r" if "quiet p r" for r using that assms(1) by (simp add: quiet_def)
  consider "mp_channel p" "q = p" "ok"
    | "q = failWith ResourceError ''decoder unavailable'' p" "\<not> ok"
    | "q = failWith ResourceError ''decoder unavailable'' (teardown ?p1)" "\<not> ok"
    | "\<not> mp_channel p" "q = send (CmdMuted (mp_muted ?p1)) (send (CmdVolume (mp_volume ?p1)) ?p1)" "ok"
    using assms(2) unfolding ensureChild_def Let_def by (auto split: if_splits)
  then show ?thesis
  proof cases
    case 1
    then show ?thesis using assms(1) by (simp add: after_op_def)
  next
    case 2
    then have "quiet p q" by (simp add: quiet_core)
    then show ?thesis using 2 c by (simp add: after_op_def)
  next
    case 3
    have "quiet (teardown p) q" unfolding 3 by (rule quiet_core [OF td])
    then show ?thesis using 3 by (simp add: after_op_def quiet_def)
  next
    case 4
    have "quiet p q" using quiet_trans [OF fresh sends] 4 by simp
    then show ?thesis using 4 c by (simp add: after_op_def)
  qed
qed


lemma after_quiet: "quiet p q \<Longrightarrow> after_op p q" by (simp add: after_op_def)

lemma ensure_then:
  assumes "conn_ok p" "ensureChild L p = (ok, q)" "ok \<Longrightarrow> mp_channel q \<Longrightarrow> conn_ok q \<Longrightarrow> quiet q r" "\<not> ok \<Longrightarrow> r = q"
  shows "after_op p r"
  using ensureChild_after [OF assms(1,2)] assms(3,4) after_trans [of p q r] by (cases ok) auto

lemma setSource_after: "conn_ok p \<Longrightarrow> after_op p (setSource E L u p)"
proof -
  assume c: "conn_ok p"
  let ?p1 = "(p_emit True SourceChanged (p\<lparr>mp_source := u\<rparr>))\<lparr>mp_softwareDecode := False\<rparr>"
  define p2 where "p2 = (if mp_noPicture ?p1 then p_emit True NoPictureChanged (?p1\<lparr>mp_noPicture := False\<rparr>) else ?p1)"
  have "player_core p2 = player_core (p\<lparr>mp_source := u\<rparr>)" by (simp add: p2_def player_core_def p_emit_def)
  then have q2: "quiet p p2" using quiet_core quiet_fields(3) quiet_trans by blast
  with c have c2: "conn_ok p2" by (simp add: quiet_def)
  have "quiet (teardown p2) (set_frame None (applyTracks E new_tracks (applyState new_state (teardown p2))))"
    by (rule quiet_trans [OF quiet_core quiet_frame_None]) simp
  then have empty: "after_op p2 (set_frame None (applyTracks E new_tracks (applyState new_state (teardown p2))))"
    by (simp add: after_op_def)
  obtain ok p3 where e: "ensureChild L p2 = (ok, p3)" by force
  have "after_op p2 (if ok then startFeed E p3 else p3)"
    by (rule ensure_then [OF c2 e]) (simp_all add: quiet_startFeed)
  moreover have "setSource E L u p = (if u = mp_source p then p
      else if u = [] then set_frame None (applyTracks E new_tracks (applyState new_state (teardown p2)))
      else (let (ok, p3) = ensureChild L p2 in if ok then startFeed E p3 else p3))"
    unfolding setSource_def p2_def Let_def by (rule refl)
  ultimately show ?thesis
    using after_trans2 [OF c q2] empty by (simp add: e after_quiet)
qed

lemma play_after: "conn_ok p \<Longrightarrow> after_op p (player_play E L p)"
proof -
  assume c: "conn_ok p"
  let ?p1 = "p\<lparr>mp_wantState := PlayingState\<rparr>"
  have q1: "quiet p ?p1" by (rule quiet_fields)
  then have c1: "conn_ok ?p1" using c by (simp add: quiet_def)
  obtain ok q where e: "ensureChild L ?p1 = (ok, q)" by force
  have "after_op ?p1 (if ok then startFeed E q else q)"
    by (rule ensure_then [OF c1 e]) (simp_all add: quiet_startFeed)
  then have "after_op ?p1 (send CmdPlay (if ok then startFeed E q else q))" "after_op ?p1 (if ok then startFeed E q else q)"
    using after_trans quiet_send by auto
  moreover have "after_op ?p1 (send CmdPlay ?p1)" "after_op ?p1 ?p1" by (simp_all add: after_quiet quiet_send)
  ultimately have "after_op ?p1 (player_play E L p) \<or> player_play E L p = p"
    by (auto simp: player_play_def Let_def e split: if_splits prod.splits)
  then show ?thesis using after_trans2 [OF c q1] after_quiet by auto
qed

lemma restart_after: "conn_ok p \<Longrightarrow> after_op p (restart_in_software E L pos p)"
proof -
  assume c: "conn_ok p"
  obtain ok q where e: "ensureChild L (teardown p) = (ok, q)" by force
  have "after_op (teardown p) (if ok then startFeed E (q\<lparr>mp_pendingSeek := pos, mp_wantState := mp_wantState p\<rparr>) else q)"
  proof (rule ensure_then [OF conn_ok_teardown e])
    assume q: "ok" "mp_channel q" "conn_ok q"
    let ?r = "q\<lparr>mp_pendingSeek := pos, mp_wantState := mp_wantState p\<rparr>"
    have "quiet q ?r" using quiet_trans [OF quiet_fields(2) quiet_fields(1)] by blast
    moreover from this have "conn_ok ?r" using q(3) by (simp add: quiet_def)
    then have "quiet ?r (startFeed E ?r)" using q(2) by (intro quiet_startFeed) simp_all
    ultimately show "quiet q (if ok then startFeed E ?r else q)" using q(1) quiet_trans by auto
  qed simp
  moreover have "teardown (teardown p) = teardown p" by (simp add: teardown_def logPlaybackSummary_def)
  ultimately show ?thesis by (simp add: restart_in_software_def e after_op_def)
qed

lemma lost_after: "after_op p (onChildLost p)"
proof -
  have "player_core (onChildLost p) = player_core (teardown p)" by (simp add: onChildLost_def)
  then show ?thesis by (simp add: after_op_def quiet_core)
qed

lemma ask_after:
  "conn_ok p \<Longrightarrow> after_op p (player_pause p)" "conn_ok p \<Longrightarrow> after_op p (player_stop p)"
  "after_op p (setPosition ms p)" "after_op p (setVolume v p)" "after_op p (setMuted m p)"
proof -
  have ask: "after_op p (if mp_opened (p\<lparr>mp_wantState := w\<rparr>) then send c (p\<lparr>mp_wantState := w\<rparr>) else p\<lparr>mp_wantState := w\<rparr>)"
    if "plain c" for c w
    using quiet_trans [OF quiet_fields(1) quiet_send [OF that]] quiet_fields(1) by (simp add: after_quiet)
  show "after_op p (player_pause p)" "after_op p (player_stop p)"
    using ask [of CmdPause PausedState] ask [of CmdStop StoppedState] by (simp_all add: player_pause_def player_stop_def Let_def)
  define p1 where "p1 = (if mp_opened p then send (CmdSeek (max 0 ms)) p else p\<lparr>mp_pendingSeek := max 0 ms\<rparr>)"
  have q1: "quiet p p1" by (simp add: p1_def quiet_send quiet_fields)
  have "quiet p1 (p_emit c g (p1\<lparr>mp_state := st\<rparr>))" for c g st
    by (rule quiet_core) (simp add: player_core_def p_emit_def)
  then have "quiet p (p_emit c g (p1\<lparr>mp_state := st\<rparr>))" for c g st
    using quiet_trans [OF q1] by blast
  then show "after_op p (setPosition ms p)"
    using q1 unfolding setPosition_def Let_def p1_def [symmetric] by (simp add: after_quiet)
  have "quiet p (send c (p_emit b g (p\<lparr>mp_volume := v\<rparr>)))" "quiet p (send c (p_emit b g (p\<lparr>mp_muted := m\<rparr>)))"
    if "plain c" for c b g v m
    by (rule quiet_trans [OF quiet_core quiet_send [OF that]]; simp add: player_core_def p_emit_def)+
  then show "after_op p (setVolume v p)" "after_op p (setMuted m p)"
    by (simp_all add: setVolume_def setMuted_def Let_def after_quiet)
qed

lemma feed_turn_quiet: "conn_ok p \<Longrightarrow> quiet p (feed_turn E e p)"
  using quiet_with_feed by (cases e) (simp_all add: feed_turn_def)


section \<open>The frames in the ring\<close>

text \<open>
  A frame under way: its slot of its generation's segment holds what packing the frame wrote, and the
  header is the one packing made.
\<close>

definition carries :: "Shm \<Rightarrow> int \<times> FrameHeader \<Rightarrow> VFrame \<Rightarrow> bool" where
  "carries mem m f \<longleftrightarrow>
     (case m of (g, hdr) \<Rightarrow> \<exists>n slot0. 0 \<le> n \<and> int (length (mem g)) = kSlots * n
        \<and> 0 \<le> fh_slot hdr \<and> fh_slot hdr < kSlots \<and> length slot0 = nat n
        \<and> pack f slot0 new_header = Some (Some (slot_of n (fh_slot hdr) (mem g), hdr\<lparr>fh_slot := -1\<rparr>)))"

text \<open>What the user sees of a frame is what was decoded.\<close>

definition same_frame :: "VFrame \<Rightarrow> VFrame \<Rightarrow> bool" where
  "same_frame f g \<longleftrightarrow>
     vf_format g = vf_format f \<and> vf_width g = vf_width f \<and> vf_height g = vf_height f
     \<and> vf_start g = vf_start f \<and> vf_end g = vf_end f \<and> list_all2 same_picture (vf_planes f) (vf_planes g)"

lemma unpack_shown_plane:
  assumes h: "holds_plane slot w p" "plane_fits (int (length slot)) p" and u: "unpack_plane slot p v = Shown u"
  shows "same_picture w u"
proof -
  have r: "room_for p v" using unpack_plane_cases(1) [OF h(2), of v] u by (cases "room_for p v") simp_all
  have st: "0 < vp_stride w" "vp_bits w \<noteq> []"
    using h by (auto simp: holds_plane_def plane_fits_def mappedBytes_def)
  have "takes_plane w v" using r h(1) by (simp add: takes_plane_def room_for_def holds_plane_def)
  from unpack_held_plane [OF h(1) st this] u show ?thesis by auto
qed

lemma unpack_shown_planes:
  "list_all2 (holds_plane slot) ws ps \<Longrightarrow> list_all (plane_fits (int (length slot))) ps \<Longrightarrow>
     length vs = length ps \<Longrightarrow> unpack_planes slot ps vs = Shown us \<Longrightarrow> list_all2 same_picture ws us"
proof (induction slot ps vs arbitrary: ws us rule: unpack_planes.induct)
  case (1 slot p ps v vs)
  from 1(5) obtain v1 us1 where s: "unpack_plane slot p v = Shown v1" "unpack_planes slot ps vs = Shown us1" "us = v1 # us1"
    by (auto split: Unpacked.splits)
  from 1(2) obtain w ws1 where w: "ws = w # ws1" "holds_plane slot w p" "list_all2 (holds_plane slot) ws1 ps"
    by (auto simp: list_all2_Cons2)
  have "same_picture w v1" using unpack_shown_plane [OF w(2) _ s(1)] 1(3) by simp
  moreover have "list_all2 same_picture ws1 us1" using 1(1) [OF s(1) w(3)] 1(3,4) s(2) by simp
  ultimately show ?case using s(3) w(1) by simp
qed simp_all

text \<open>Whatever comes out of a packed slot is the frame that went in.\<close>

lemma packed_unpacks_same:
  assumes p: "pack f slot0 hdr0 = Some (Some (slot, hdr))" and u: "unpack cast alloc hdr slot (int (length slot)) = Shown g"
    and four: "length (fh_planes hdr0) = 4"
  shows "same_frame f g"
proof -
  let ?ws = "vf_planes f"
  from p obtain ps where q: "pack_planes ?ws 0 slot0 = Some (slot, ps)" "0 < length ?ws" "length ?ws \<le> 4"
    "packedSize f \<le> int (length slot0)"
    and hdr: "hdr = hdr0\<lparr>fh_pixelFormat := vf_format f, fh_width := vf_width f, fh_height := vf_height f,
      fh_startUs := vf_start f, fh_endUs := vf_end f, fh_planeCount := int (length ?ws),
      fh_planes := ps @ drop (length ps) (fh_planes hdr0)\<rparr>"
    by (auto simp: pack_def Let_def kMaxPlanes_def split: if_splits option.splits)
  have "packedSize f = aligned (size_from 0 ?ws)"
    using q(2,3) by (simp add: packedSize_def size_from_def kMaxPlanes_def)
  then have "size_from 0 ?ws \<le> int (length slot0)" using aligned_ge [of "size_from 0 ?ws"] q(4) by linarith
  from pack_planes_ok [OF _ this] q(1) have h: "list_all2 (holds_plane slot) ?ws ps" by auto
  then have lp: "length ps = length ?ws" by (simp add: list_all2_lengthD)
  from u obtain vs us where v: "headerFits cast hdr (int (length slot))"
    "int (length vs) = fh_planeCount hdr"
    "unpack_planes slot (take (nat (fh_planeCount hdr)) (fh_planes hdr)) vs = Shown us"
    "g = \<lparr>vf_format = fh_pixelFormat hdr, vf_width = fh_width hdr, vf_height = fh_height hdr,
          vf_start = fh_startUs hdr, vf_end = fh_endUs hdr, vf_planes = us\<rparr>"
    by (auto simp: unpack_def split: if_splits option.splits Unpacked.splits)
  have t: "take (nat (fh_planeCount hdr)) (fh_planes hdr) = ps" using lp by (simp add: hdr)
  have "list_all (plane_fits (int (length slot))) ps" using v(1) t by (simp add: headerFits_def)
  from unpack_shown_planes [OF h this _ v(3) [unfolded t]] v(2) lp have "list_all2 same_picture ?ws us"
    by (simp add: hdr)
  then show ?thesis using v(4) by (simp add: same_frame_def hdr)
qed

lemma unpack_ignores_slot: "unpack cast alloc (hdr\<lparr>fh_slot := k\<rparr>) slot n = unpack cast alloc hdr slot n"
  by (simp add: unpack_def headerFits_def cong: if_cong option.case_cong Unpacked.case_cong)

lemma carried_unpacks_same:
  assumes "carries mem (g, hdr) f" "int (length (mem g)) = kSlots * n"
    "unpack cast alloc hdr (slot_of n (fh_slot hdr) (mem g)) n = Shown v"
  shows "same_frame f v"
proof -
  obtain m slot0 where c: "0 \<le> m" "int (length (mem g)) = kSlots * m" "0 \<le> fh_slot hdr" "fh_slot hdr < kSlots"
    "pack f slot0 new_header = Some (Some (slot_of m (fh_slot hdr) (mem g), hdr\<lparr>fh_slot := -1\<rparr>))"
    using assms(1) by (auto simp: carries_def)
  have m: "m = n" using c(2) assms(2) by (simp add: kSlots_def)
  have "int (length (slot_of n (fh_slot hdr) (mem g))) = n"
    using slot_length [of "fh_slot hdr" n "mem g"] c m by simp
  then have "unpack cast alloc (hdr\<lparr>fh_slot := -1\<rparr>) (slot_of n (fh_slot hdr) (mem g))
      (int (length (slot_of n (fh_slot hdr) (mem g)))) = Shown v"
    using assms(3) by (simp add: unpack_ignores_slot)
  from packed_unpacks_same [OF c(5) [unfolded m] this] show ?thesis by (simp add: new_header_def)
qed

section \<open>The invariant of the ring\<close>

definition ring_ok :: "Player \<Rightarrow> MediaHost \<Rightarrow> Shm \<Rightarrow> bool" where
  "ring_ok p h mem \<longleftrightarrow>
     0 \<le> mh_generation h \<and> mh_generation h \<le> mp_generation p
     \<and> sorted_wrt (<) (mh_generation h # map fst (rings (cmds p)))
     \<and> (\<forall>(g, n, t) \<in> set (rings (cmds p)). g \<le> mp_generation p \<and> t = g \<and> int (length (mem g)) = kSlots * n)
     \<and> (\<forall>r. mh_ring h = Some r \<longrightarrow> r = mh_generation h \<and> 0 < mh_slotBytes h
           \<and> int (length (mem r)) = kSlots * mh_slotBytes h)
     \<and> (\<forall>r. mp_ring p = Some r \<longrightarrow> r = mp_generation p \<and> int (length (mem r)) = kSlots * mp_slotBytes p)
     \<and> owed_ok (mh_generation h) (mh_busy h) (owed (mh_out h) (cmds p))"

definition hostd :: "MediaSystem \<Rightarrow> MediaHost" where
  "hostd s = (case sy_host s of Some h \<Rightarrow> h | None \<Rightarrow> mkMediaHost)"

definition pix_inv :: "VFrame list \<Rightarrow> MediaSystem \<Rightarrow> bool" where
  "pix_inv ds s \<longleftrightarrow>
     conn_ok (sy_player s) \<and> (sy_host s \<noteq> None \<longleftrightarrow> mp_sock (sy_player s))
     \<and> ring_ok (sy_player s) (hostd s) (sy_shm s)
     \<and> (\<exists>dn fl. subseq (dn @ fl) ds \<and> list_all2 same_frame dn (shown_frames (mp_sinkFrames (sy_player s)))
          \<and> list_all2 (carries (sy_shm s)) (frames (mh_out (hostd s))) fl)"


lemma subseq_left: "subseq (a @ b) c \<Longrightarrow> subseq a c"
  by (rule subseq_order.trans [OF subseq_rev_drop_many [OF subseq_order.refl]])

lemma subseq_skip: "subseq (a @ x # b) c \<Longrightarrow> subseq (a @ b) c"
  by (rule subseq_order.trans [of _ "a @ x # b"]) (simp_all add: subseq_append' list_emb_Cons)

lemma ring_ok_view: "pixview q = pixview p \<Longrightarrow> ring_ok q h mem = ring_ok p h mem"
  by (simp add: ring_ok_def pixview_def owed_def)

definition hostview where
  "hostview h = (mh_ring h, mh_slotBytes h, mh_generation h, mh_busy h, frames (mh_out h))"

lemma ring_ok_hostview: "hostview k = hostview h \<Longrightarrow> ring_ok p k mem = ring_ok p h mem"
  by (simp add: ring_ok_def hostview_def owed_def)

lemma teardown_view: "cmds (teardown p) = []" "mp_ring (teardown p) = None" "mp_sock (teardown p) = False"
  "mp_generation (teardown p) = mp_generation p" "mp_sinkFrames (teardown p) = mp_sinkFrames p"
  by (simp_all add: teardown_def cmds_def logPlaybackSummary_def)

lemma ring_ok_teardown: "ring_ok p h mem \<Longrightarrow> ring_ok (teardown p) mkMediaHost mem"
  by (simp add: ring_ok_def teardown_view mkMediaHost_def owed_def owed_ok_def)

lemma hostd_fresh: "frames (mh_out mkMediaHost) = []" by (simp add: mkMediaHost_def)

lemma pix_turn:
  assumes "pix_inv ds s" "after_op (sy_player s) q"
  shows "pix_inv ds (turn q s)"
proof -
  let ?p = "sy_player s"
  obtain dn fl where i: "conn_ok ?p" "sy_host s \<noteq> None \<longleftrightarrow> mp_sock ?p" "ring_ok ?p (hostd s) (sy_shm s)"
    "subseq (dn @ fl) ds" "list_all2 same_frame dn (shown_frames (mp_sinkFrames ?p))"
    "list_all2 (carries (sy_shm s)) (frames (mh_out (hostd s))) fl"
    using assms(1) by (auto simp: pix_inv_def)
  show ?thesis
  proof (cases "quiet ?p q")
    case True
    then have q: "conn_ok q" "pixview q = pixview ?p" using i(1) by (simp_all add: quiet_def)
    have sk: "mp_sock q = mp_sock ?p" "shown_frames (mp_sinkFrames q) = shown_frames (mp_sinkFrames ?p)"
      using q(2) by (simp_all add: pixview_def)
    then have h: "sy_host (turn q s) = sy_host s" "sy_shm (turn q s) = sy_shm s" "sy_player (turn q s) = q"
      using i(2) by (auto simp: turn_def)
    then have "hostd (turn q s) = hostd s" by (simp add: hostd_def)
    then show ?thesis unfolding pix_inv_def using i q(1) sk ring_ok_view [OF q(2)] h by auto
  next
    case False
    then have q: "conn_ok q" "pixview q = pixview (teardown ?p)"
      using assms(2) by (auto simp: after_op_def quiet_def)
    have sk: "\<not> mp_sock q" "shown_frames (mp_sinkFrames q) = shown_frames (mp_sinkFrames ?p)"
      using q(2) by (simp_all add: pixview_def teardown_view)
    then have "hostd (turn q s) = mkMediaHost" by (simp add: turn_def hostd_def)
    moreover have "ring_ok q mkMediaHost (sy_shm s)"
      using ring_ok_teardown [OF i(3)] ring_ok_view [OF q(2)] by simp
    moreover have "subseq dn ds" using i(4) by (rule subseq_left)
    ultimately show ?thesis
      unfolding pix_inv_def using i(5) sk q(1)
      by (intro conjI exI [of _ dn] exI [of _ "[]"]) (simp_all add: turn_def hostd_fresh)
  qed
qed

lemma pix_host:
  assumes "pix_inv ds s" "sy_host s = Some h" "hostview k = hostview h"
  shows "pix_inv ds (s\<lparr>sy_host := Some k\<rparr>)"
  using assms ring_ok_hostview [OF assms(3), of "sy_player s" "sy_shm s"]
  by (auto simp: pix_inv_def hostd_def hostview_def)

section \<open>The child's steps keep it\<close>

lemma carries_cong: "mem' g = mem g \<Longrightarrow> carries mem' (g, hdr) f = carries mem (g, hdr) f"
  by (simp add: carries_def)

lemma carries_all_cong:
  assumes "list_all2 (carries mem) ms fl" "\<And>g hdr. (g, hdr) \<in> set ms \<Longrightarrow> mem' g = mem g"
  shows "list_all2 (carries mem') ms fl"
proof (rule list.rel_mono_strong [OF assms(1)])
  fix m f assume m: "m \<in> set ms" "carries mem m f"
  then have "mem' (fst m) = mem (fst m)" using assms(2) [of "fst m" "snd m"] by simp
  then show "carries mem' m f" using m(2) by (cases m) (simp add: carries_def)
qed


lemma pack_length: "pack f slot0 hdr0 = Some (Some (b, hdr)) \<Longrightarrow> length b = length slot0"
proof -
  assume p: "pack f slot0 hdr0 = Some (Some (b, hdr))"
  have "length s = length sl" if "pack_planes vs off sl = Some (s, ps)" for vs off sl s ps
    using that memcpy_length
    by (induction vs off sl arbitrary: s ps rule: pack_planes.induct)
       (fastforce simp: Let_def split: option.splits)+
  then show ?thesis using p by (auto simp: pack_def Let_def split: if_splits option.splits)
qed

lemma onFrame_cases:
  assumes "onFrame now fo (h, mem) = (h1, mem1)"
  obtains "hostview h1 = hostview h" "mem1 = mem"
  | f ring b hdr where "fo = Some f" "mh_ring h = Some ring" "0 \<le> free_slot h"
      "pack f (slot_of (mh_slotBytes h) (free_slot h) (mem ring)) new_header = Some (Some (b, hdr))"
      "mem1 = mem(ring := put_slot (mh_slotBytes h) (free_slot h) b (mem ring))"
      "hostview h1 = (mh_ring h, mh_slotBytes h, mh_generation h, (mh_busy h)[nat (free_slot h) := True],
         frames (mh_out h) @ [(mh_generation h, hdr\<lparr>fh_slot := free_slot h\<rparr>)])"
proof -
  have fw: "hostview (frame_window now k) = hostview k" "mh_busy (frame_window now k) = mh_busy k"
    "mh_generation (frame_window now k) = mh_generation k" "mh_slotBytes (frame_window now k) = mh_slotBytes k"
    "mh_ring (frame_window now k) = mh_ring k" "mh_out (frame_window now k) = mh_out k" for k
    by (simp_all add: frame_window_def hostview_def Let_def)
  have fs: "free_slot (h\<lparr>mh_loggedFirstFrame := True\<rparr>) = free_slot h" by (simp add: free_slot_def)
  show thesis
  proof (cases "\<exists>f ring. fo = Some f \<and> mh_ring h = Some ring \<and> packedSize f \<le> mh_slotBytes h \<and> 0 \<le> free_slot h
      \<and> (\<exists>b hdr. pack f (slot_of (mh_slotBytes h) (free_slot h) (mem ring)) new_header = Some (Some (b, hdr)))")
    case True
    then obtain f ring b hdr where t: "fo = Some f" "mh_ring h = Some ring" "packedSize f \<le> mh_slotBytes h"
      "0 \<le> free_slot h" "pack f (slot_of (mh_slotBytes h) (free_slot h) (mem ring)) new_header = Some (Some (b, hdr))"
      by blast
    then show thesis
      using assms fw(1) [of "h\<lparr>mh_loggedFirstFrame := True\<rparr>"]
      by (intro that(2) [of f ring b hdr]) (auto simp: onFrame_def Let_def fw fs hostview_def sendEvent_def)
  next
    case False
    have "fst (onFrame now fo (h, mem)) = h1" "snd (onFrame now fo (h, mem)) = mem1" using assms by simp_all
    then have "hostview h1 = hostview h \<and> mem1 = mem"
    proof (cases fo)
      case (Some f)
      let ?q = "h\<lparr>mh_loggedFirstFrame := True\<rparr>"
      have q: "hostview ?q = hostview h" by (simp add: hostview_def)
      have s: "hostview (sendEvent (MsgNeedRing a) (?q\<lparr>mh_ringAsked := c\<rparr>)) = hostview h" for a c
        by (simp add: hostview_def sendEvent_def)
      have d: "hostview (k\<lparr>mh_framesDropped := a\<rparr>) = hostview k" for k :: MediaHost and a by (simp add: hostview_def)
      show ?thesis
      proof (cases "\<exists>ring. mh_ring h = Some ring \<and> packedSize f \<le> mh_slotBytes h \<and> 0 \<le> free_slot h")
        case True
        then obtain ring where t: "mh_ring h = Some ring" "packedSize f \<le> mh_slotBytes h" "0 \<le> free_slot h" by blast
        define pk where "pk = pack f (slot_of (mh_slotBytes h) (free_slot h) (mem ring)) new_header"
        have "\<nexists>b hdr. pk = Some (Some (b, hdr))" using False Some t unfolding pk_def by blast
        then have "pk = None \<or> pk = Some None" by (metis not_None_eq surj_pair)
        then show ?thesis
          using assms Some t fw(1) [of ?q] q by (auto simp: onFrame_def Let_def fw fs pk_def)
      next
        case False
        then show ?thesis
          using assms Some fw(1) [of ?q] q s d
          by (cases "mh_ring h") (auto simp: onFrame_def Let_def fs split: if_splits)
      qed
    qed (use assms in \<open>auto simp: onFrame_def hostview_def\<close>)
    then show thesis using that(1) by blast
  qed
qed

lemma pix_decodes:
  assumes i: "pix_inv ds s" and h: "sy_host s = Some h" and f: "onFrame now fo (h, sy_shm s) = (h1, mem1)"
  shows "pix_inv (ds @ (case fo of Some f \<Rightarrow> [f] | None \<Rightarrow> [])) (s\<lparr>sy_host := Some h1, sy_shm := mem1\<rparr>)"
proof -
  let ?p = "sy_player s" and ?mem = "sy_shm s" and ?ds = "ds @ (case fo of Some f \<Rightarrow> [f] | None \<Rightarrow> [])"
  have hd: "hostd s = h" by (simp add: hostd_def h)
  obtain dn fl where c: "conn_ok ?p" "mp_sock ?p" and r: "ring_ok ?p h ?mem"
    and l: "subseq (dn @ fl) ds" "list_all2 same_frame dn (shown_frames (mp_sinkFrames ?p))"
    "list_all2 (carries ?mem) (frames (mh_out h)) fl"
    using i h by (auto simp: pix_inv_def hd)
  have more: "subseq xs ds \<Longrightarrow> subseq xs ?ds" for xs by (rule subseq_rev_drop_many)
  show ?thesis
  proof (cases rule: onFrame_cases [OF f])
    case 1
    then have "ring_ok ?p h1 mem1" using r ring_ok_hostview by metis
    moreover have "frames (mh_out h1) = frames (mh_out h)" using 1 by (simp add: hostview_def)
    ultimately show ?thesis
      unfolding pix_inv_def using c l more [OF l(1)] 1(2) by (auto simp: hostd_def)
  next
    case (2 f ring b hdr)
    let ?k = "free_slot h" and ?n = "mh_slotBytes h" and ?g = "mh_generation h"
    note hv = 2(6)
    have v: "mh_ring h1 = mh_ring h" "mh_slotBytes h1 = ?n" "mh_generation h1 = ?g"
      "mh_busy h1 = (mh_busy h)[nat ?k := True]"
      "frames (mh_out h1) = frames (mh_out h) @ [(?g, hdr\<lparr>fh_slot := ?k\<rparr>)]"
      using hv by (simp_all add: hostview_def)
    have rg: "ring = ?g" "0 < ?n" "int (length (?mem ring)) = kSlots * ?n"
      using r 2(2) by (auto simp: ring_ok_def)
    have k: "0 \<le> ?k" "?k < kSlots" "\<not> mh_busy h ! nat ?k" using free_slot_spec [OF 2(3)] 2(3) by auto
    have sl: "nat (?k * ?n) + nat ?n \<le> length (?mem ring)" "length (slot_of ?n ?k (?mem ring)) = nat ?n"
      using slot_length [OF k(1,2) _ rg(3)] rg(2) by simp_all
    have lb: "length b = nat ?n" using pack_length [OF 2(4)] sl(2) by simp
    have len: "length (mem1 g) = length (?mem g)" for g
      using put_slot_length [OF k(1), of ?n b "?mem ring"] sl(1) lb by (simp add: 2(5))
    have other: "slot_of ?n j (mem1 ring) = slot_of ?n j (?mem ring)" if "0 \<le> j" "j \<noteq> ?k" for j
      using slot_put_other [OF k(1) that] rg(2) lb sl(1) by (simp add: 2(5))
    have mine: "slot_of ?n ?k (mem1 ring) = b"
      using slot_put_same [OF k(1)] rg(2) lb sl(1) by (simp add: 2(5))
    have ow: "owed (mh_out h1) (cmds ?p) = add_mset (?g, ?k) (owed (mh_out h) (cmds ?p))"
      by (simp add: owed_def v(5))
    have "owed_ok ?g (mh_busy h) (owed (mh_out h) (cmds ?p))" using r by (simp add: ring_ok_def)
    note taken = owed_ok_take [OF this k]
    have "ring_ok ?p h1 mem1"
      using r taken(1) by (simp add: ring_ok_def v len ow)
    moreover have "carries mem1 (g', hdr') f'" if m: "(g', hdr') \<in> set (frames (mh_out h))" and c: "carries ?mem (g', hdr') f'" for g' hdr' f'
    proof (cases "g' = ring")
      case True
      have ne: "fh_slot hdr' \<noteq> ?k" using taken(2) m True rg(1) by (force simp: owed_def)
      obtain n s0 where "0 \<le> n" "int (length (?mem ring)) = kSlots * n" "0 \<le> fh_slot hdr'" "fh_slot hdr' < kSlots"
        "length s0 = nat n" "pack f' s0 new_header = Some (Some (slot_of n (fh_slot hdr') (?mem ring), hdr'\<lparr>fh_slot := -1\<rparr>))"
        using c True by (auto simp: carries_def)
      moreover from this(2) rg(3) have "n = ?n" by (simp add: kSlots_def)
      ultimately show ?thesis using other [OF _ ne] True len [of ring] by (auto simp: carries_def)
    next
      case False
      then show ?thesis using c by (simp add: carries_def 2(5))
    qed
    then have "list_all2 (carries mem1) (frames (mh_out h)) fl"
      by (intro list.rel_mono_strong [OF l(3)]) force
    moreover have "carries mem1 (?g, hdr\<lparr>fh_slot := ?k\<rparr>) f"
    proof -
      have "fh_slot hdr = -1" using 2(4) by (auto simp: pack_def Let_def new_header_def split: if_splits option.splits)
      then have "hdr\<lparr>fh_slot := -1\<rparr> = hdr" by (cases hdr) simp
      then show ?thesis using 2(4) rg k sl(2) mine len [of ring] by (auto simp: carries_def intro!: exI [of _ ?n])
    qed
    ultimately have "list_all2 (carries mem1) (frames (mh_out h1)) (fl @ [f])" by (simp add: v(5) list_all2_appendI)
    moreover have "subseq (dn @ fl @ [f]) ?ds" using list_emb_append_mono [OF l(1), of "[f]" "[f]"] 2(1) by simp
    ultimately show ?thesis
      unfolding pix_inv_def using c l(2) \<open>ring_ok ?p h1 mem1\<close>
      by (intro conjI exI [of _ dn] exI [of _ "fl @ [f]"]) (simp_all add: hostd_def)
  qed
qed


lemma dispatch_plain:
  assumes "plain c" shows "hostview (dispatch mapped mem c h) = hostview h"
proof -
  have v [simp]: "hostview (call_player pc k) = hostview k" "hostview (k\<lparr>mh_source := so\<rparr>) = hostview k"
    "hostview (k\<lparr>mh_sourceGen := g, mh_loggedUnmappable := a, mh_loggedFirstFrame := b, mh_source := so\<rparr>) = hostview k"
    "hostview (k\<lparr>mh_sourceGen := g, mh_loggedUnmappable := a, mh_loggedFirstFrame := b\<rparr>) = hostview k"
    "hostview (sendEvent (MsgState ms) k) = hostview k" for pc k so g a b ms
    by (simp_all add: hostview_def call_player_def sendEvent_def)
  have c [simp]: "hostview (closeSource k) = hostview k" for k by (simp add: closeSource_def)
  have "hostview (openSource g n hint h) = hostview h" for g n hint
    by (simp add: openSource_def refuse_def Let_def)
  then show ?thesis using assms by (cases c) (simp_all add: plain_def on_source_def)
qed

lemma pix_receives:
  assumes i: "pix_inv ds s" and h: "sy_host s = Some h" and o': "mp_out (sy_player s) = c # cs"
  shows "pix_inv ds (s\<lparr>sy_player := (sy_player s)\<lparr>mp_out := cs\<rparr>, sy_host := Some (dispatch mapped (sy_shm s) c h)\<rparr>)"
proof -
  let ?p = "sy_player s" and ?mem = "sy_shm s" and ?h1 = "dispatch mapped (sy_shm s) c h"
  define p1 where "p1 = ?p\<lparr>mp_out := cs\<rparr>"
  have hd: "hostd s = h" by (simp add: hostd_def h)
  obtain dn fl where c: "conn_ok ?p" "mp_sock ?p" and r: "ring_ok ?p h ?mem"
    and l: "subseq (dn @ fl) ds" "list_all2 same_frame dn (shown_frames (mp_sinkFrames ?p))"
    "list_all2 (carries ?mem) (frames (mh_out h)) fl"
    using i h by (auto simp: pix_inv_def hd)
  have p1: "cmds ?p = c # cmds p1" "mp_ring p1 = mp_ring ?p" "mp_generation p1 = mp_generation ?p"
    "mp_slotBytes p1 = mp_slotBytes ?p" "mp_sinkFrames p1 = mp_sinkFrames ?p" "mp_sock p1"
    using c o' by (simp_all add: p1_def cmds_def)
  have "mp_ready ?p" using c(1) o' by (auto simp: conn_ok_def split: if_splits)
  then have c1: "conn_ok p1" using c(1) by (simp add: conn_ok_def p1_def)
  have "ring_ok p1 ?h1 ?mem \<and> frames (mh_out ?h1) = frames (mh_out h)"
  proof (cases c)
    case (CmdRing g n t)
    have rg: "rings (cmds ?p) = (g, n, t) # rings (cmds p1)" "releases (cmds ?p) = releases (cmds p1)"
      using p1(1) CmdRing by simp_all
    have seg: "g \<le> mp_generation ?p" "t = g" "int (length (?mem g)) = kSlots * n" "mh_generation h < g"
      and rest: "sorted_wrt (<) (g # map fst (rings (cmds p1)))"
      using r by (simp_all add: ring_ok_def rg(1))
    have ow: "owed ms (cmds p1) = owed ms (cmds ?p)" for ms by (simp add: owed_def rg(2))
    have ow_ok: "owed_ok (mh_generation h) (mh_busy h) (owed (mh_out h) (cmds ?p))" using r by (simp add: ring_ok_def)
    show ?thesis
    proof (cases "hostview ?h1 = hostview h")
      case True
      have "ring_ok p1 h ?mem" using r rest seg(4) by (auto simp: ring_ok_def p1 rg ow)
      then show ?thesis using ring_ok_hostview [OF True] True by (simp add: hostview_def)
    next
      case False
      then have at: "?h1 = sendEvent (MsgRingReady g) (h\<lparr>mh_ring := Some t, mh_slotBytes := n, mh_generation := g,
           mh_busy := map (\<lambda>_. False) (mh_busy h)\<rparr>)" "0 < n"
        using CmdRing by (auto simp: attachRing_def split: if_splits)
      have f: "mh_generation ?h1 = g" "mh_ring ?h1 = Some t" "mh_slotBytes ?h1 = n"
        "mh_busy ?h1 = map (\<lambda>_. False) (mh_busy h)" "frames (mh_out ?h1) = frames (mh_out h)"
        unfolding at(1) by (simp_all add: sendEvent_def)
      have ow1: "owed (mh_out ?h1) (cmds p1) = owed (mh_out h) (cmds ?p)" by (simp add: f owed_def rg(2))
      show ?thesis
        using r seg rest at(2) owed_ok_new [OF ow_ok seg(4)]
        unfolding ring_ok_def f ow1 by (auto simp: p1(2-) rg(1))
    qed
  next
    case (CmdRelease g k)
    have rg: "rings (cmds ?p) = rings (cmds p1)" "releases (cmds ?p) = (g, k) # releases (cmds p1)"
      using p1(1) CmdRelease by simp_all
    have "owed_ok (mh_generation h) (mh_busy h) (owed (mh_out h) (cmds ?p))" using r by (simp add: ring_ok_def)
    then have o1: "owed_ok (mh_generation h) (mh_busy h) (add_mset (g, k) (owed (mh_out h) (cmds p1)))"
      by (simp add: owed_def rg(2))
    have "owed_ok (mh_generation h) (mh_busy ?h1) (owed (mh_out h) (cmds p1))"
    proof (cases "g = mh_generation h \<and> 0 \<le> k \<and> k < kSlots")
      case True
      then show ?thesis using owed_ok_release [of "mh_generation h" "mh_busy h" k] o1 CmdRelease by simp
    next
      case False
      then have "?h1 = h" using CmdRelease by (auto simp del: kSlots_nat)
      then show ?thesis using owed_ok_less [OF o1] by simp
    qed
    moreover have f: "mh_generation ?h1 = mh_generation h" "mh_ring ?h1 = mh_ring h" "mh_slotBytes ?h1 = mh_slotBytes h"
      "mh_out ?h1 = mh_out h" by (simp_all add: CmdRelease)
    ultimately show ?thesis using r unfolding ring_ok_def f by (simp add: p1(2-) rg(1))
  qed (use r p1 dispatch_plain [of c mapped ?mem h] ring_ok_hostview [of ?h1 h p1 ?mem] in
        \<open>simp_all add: plain_def ring_ok_def hostview_def owed_def\<close>)
  then show ?thesis
    unfolding pix_inv_def p1_def [symmetric] using c1 p1 l by (auto simp: hostd_def)
qed

section \<open>The player's steps keep it\<close>

lemma pix_frame:
  assumes i: "pix_inv ds s" and h: "sy_host s = Some h" and m: "mh_out h = MsgFrame g hdr # ms"
  shows "pix_inv ds (turn (showFrame E (sy_shm s) g hdr (sy_player s)) (s\<lparr>sy_host := Some (h\<lparr>mh_out := ms\<rparr>)\<rparr>))"
proof -
  let ?p = "sy_player s" and ?mem = "sy_shm s" and ?h1 = "h\<lparr>mh_out := ms\<rparr>"
  define q where "q = showFrame E ?mem g hdr ?p"
  have hd: "hostd s = h" by (simp add: hostd_def h)
  obtain dn fl0 where c: "conn_ok ?p" "mp_sock ?p" and r: "ring_ok ?p h ?mem"
    and l: "subseq (dn @ fl0) ds" "list_all2 same_frame dn (shown_frames (mp_sinkFrames ?p))"
    "list_all2 (carries ?mem) (frames (mh_out h)) fl0"
    using i h by (auto simp: pix_inv_def hd)
  obtain f fl where fl: "fl0 = f # fl" "carries ?mem (g, hdr) f" "list_all2 (carries ?mem) (frames ms) fl"
    using l(3) m by (auto simp: list_all2_Cons1)
  define p1 where "p1 = send (CmdRelease g (fh_slot hdr)) ?p"
  have ch: "mp_channel ?p" using c by (simp add: conn_ok_def)
  have p1: "conn_ok p1" "cmds p1 = cmds ?p @ [CmdRelease g (fh_slot hdr)]" "mp_ring p1 = mp_ring ?p"
    "mp_generation p1 = mp_generation ?p" "mp_slotBytes p1 = mp_slotBytes ?p" "mp_sinkFrames p1 = mp_sinkFrames ?p"
    "mp_sock p1"
    using conn_ok_send [OF c(1)] cmds_send [OF c(1)] ch c(2) by (simp_all add: p1_def)
  have "owed (mh_out ?h1) (cmds p1) = owed (mh_out h) (cmds ?p)" by (simp add: owed_def p1(2) m)
  then have r1: "ring_ok p1 ?h1 ?mem" using r by (simp add: ring_ok_def p1)
  have "player_core q = player_core p1 \<or> player_core q = player_core (set_frame None p1)
      \<or> (\<exists>v. same_frame f v \<and> player_core q = player_core (set_frame (Some v) p1))"
  proof -
    have "same_frame f v" if "mp_ring ?p = Some rr" "g = mp_generation ?p"
      "unpack (qe_format E) (qe_alloc E) hdr (slot_of (mp_slotBytes ?p) (fh_slot hdr) (?mem rr)) (mp_slotBytes ?p) = Shown v"
      for rr v
      using carried_unpacks_same [OF fl(2) _] r that by (auto simp: ring_ok_def)
    moreover have "player_core (set_frame x (p1\<lparr>mp_sawFrame := True\<rparr>)) = player_core (set_frame x p1)"
      "player_core (p1\<lparr>mp_loggedBadFrame := True\<rparr>) = player_core p1" for x
      by (simp_all add: player_core_def set_frame_def)
    ultimately show ?thesis
      by (auto simp: q_def showFrame_def Let_def p1_def [symmetric] split: option.split Unpacked.split)
  qed
  moreover have sf: "set_frame y p1 = p1\<lparr>mp_sinkFrames := mp_sinkFrames p1 @ (if mp_output p1 then [y] else [])\<rparr>" for y
    by (simp add: set_frame_def)
  moreover have "p1 = p1\<lparr>mp_sinkFrames := mp_sinkFrames p1 @ []\<rparr>" by simp
  ultimately have "\<exists>x. player_core q = player_core (p1\<lparr>mp_sinkFrames := mp_sinkFrames p1 @ x\<rparr>)
      \<and> (x = [] \<or> x = [None] \<or> (\<exists>v. same_frame f v \<and> x = [Some v]))"
    by (metis (full_types))
  then obtain x where x: "player_core q = player_core (p1\<lparr>mp_sinkFrames := mp_sinkFrames p1 @ x\<rparr>)"
    "x = [] \<or> x = [None] \<or> (\<exists>v. same_frame f v \<and> x = [Some v])" by blast
  let ?r = "p1\<lparr>mp_sinkFrames := mp_sinkFrames p1 @ x\<rparr>"
  have q: "conn_ok q" "ring_ok q ?h1 ?mem" "mp_sock q" "mp_sinkFrames q = mp_sinkFrames ?p @ x"
  proof -
    show "conn_ok q" using conn_ok_core [OF x(1)] p1(1) by (simp add: conn_ok_def)
    have "cmds q = cmds p1" using cmds_core [OF x(1)] by (simp add: cmds_def)
    moreover have "mp_ring q = mp_ring p1" "mp_generation q = mp_generation p1" "mp_slotBytes q = mp_slotBytes p1"
      using x(1) by (simp_all add: player_core_def)
    ultimately show "ring_ok q ?h1 ?mem" using r1 by (simp add: ring_ok_def)
    show "mp_sock q" "mp_sinkFrames q = mp_sinkFrames ?p @ x" using x(1) p1 by (simp_all add: player_core_def)
  qed
  have "\<exists>dn'. subseq (dn' @ fl) ds \<and> list_all2 same_frame dn' (shown_frames (mp_sinkFrames q))"
  proof (cases "\<exists>v. x = [Some v]")
    case True
    then obtain v where v: "x = [Some v]" "same_frame f v" using x(2) by auto
    then show ?thesis
      using l(1,2) by (intro exI [of _ "dn @ [f]"]) (simp add: q(4) fl(1) list_all2_appendI)
  next
    case False
    then have "shown_frames (mp_sinkFrames q) = shown_frames (mp_sinkFrames ?p)" using x(2) q(4) by auto
    then show ?thesis using l(1,2) subseq_skip [of dn f fl ds] fl(1) by (intro exI [of _ dn]) simp
  qed
  then obtain dn' where "subseq (dn' @ fl) ds" "list_all2 same_frame dn' (shown_frames (mp_sinkFrames q))" by blast
  then show ?thesis
    unfolding pix_inv_def q_def [symmetric] turn_def using q fl(3)
    by (intro conjI exI [of _ dn'] exI [of _ fl]) (simp_all add: hostd_def)
qed


lemma pix_pop:
  assumes "pix_inv ds s" "sy_host s = Some h" "mh_out h = m # ms" "frame_msg m = []"
  shows "pix_inv ds (s\<lparr>sy_host := Some (h\<lparr>mh_out := ms\<rparr>)\<rparr>)"
proof (rule pix_host [OF assms(1,2)])
  show "hostview (h\<lparr>mh_out := ms\<rparr>) = hostview h" using assms(3,4) by (simp add: hostview_def)
qed

lemma pix_mem:
  assumes i: "pix_inv ds s" and m: "\<And>g. g \<le> mp_generation (sy_player s) \<Longrightarrow> mem g = sy_shm s g"
  shows "pix_inv ds (s\<lparr>sy_shm := mem\<rparr>)"
proof -
  let ?p = "sy_player s"
  obtain dn fl where c: "conn_ok ?p" "sy_host s \<noteq> None \<longleftrightarrow> mp_sock ?p" and r: "ring_ok ?p (hostd s) (sy_shm s)"
    and l: "subseq (dn @ fl) ds" "list_all2 same_frame dn (shown_frames (mp_sinkFrames ?p))"
    "list_all2 (carries (sy_shm s)) (frames (mh_out (hostd s))) fl"
    using i by (auto simp: pix_inv_def)
  have old: "\<forall>x \<in># owed (mh_out (hostd s)) (cmds ?p). fst x \<le> mh_generation (hostd s)"
    and le: "mh_generation (hostd s) \<le> mp_generation ?p"
    using r by (simp_all add: ring_ok_def owed_ok_def)
  have le2: "\<forall>(g, n, t) \<in> set (rings (cmds ?p)). g \<le> mp_generation ?p" using r by (auto simp: ring_ok_def)
  have "ring_ok ?p (hostd s) mem"
    using r le le2 m unfolding ring_ok_def by (auto simp: split_beta)
  moreover have "list_all2 (carries mem) (frames (mh_out (hostd s))) fl"
  proof (rule carries_all_cong [OF l(3)])
    fix g hdr assume "(g, hdr) \<in> set (frames (mh_out (hostd s)))"
    then have "(g, fh_slot hdr) \<in># owed (mh_out (hostd s)) (cmds ?p)" by (force simp: owed_def)
    then have "g \<le> mh_generation (hostd s)" using old by fastforce
    then show "mem g = sy_shm s g" using le m by simp
  qed
  ultimately show ?thesis unfolding pix_inv_def using c l by (auto simp: hostd_def)
qed

lemma pix_new_ring:
  assumes i: "pix_inv ds s" and g: "g = mp_generation (sy_player s) + 1" "int (length (sy_shm s g)) = kSlots * n"
    and k: "mp_sock (sy_player s)"
  shows "pix_inv ds (s\<lparr>sy_player := send (CmdRing g n g) ((sy_player s)\<lparr>mp_ring := Some g, mp_published := True,
    mp_slotBytes := n, mp_generation := g\<rparr>)\<rparr>)"
proof -
  let ?p = "sy_player s"
  define p1 where "p1 = ?p\<lparr>mp_ring := Some g, mp_published := True, mp_slotBytes := n, mp_generation := g\<rparr>"
  have c: "conn_ok ?p" "mp_channel ?p" and r: "ring_ok ?p (hostd s) (sy_shm s)"
    using i k by (auto simp: pix_inv_def conn_ok_def)
  have p1: "conn_ok p1" "cmds p1 = cmds ?p" "mp_channel p1" "mp_ring p1 = Some g" "mp_generation p1 = g"
    "mp_slotBytes p1 = n" "mp_sinkFrames p1 = mp_sinkFrames ?p" "mp_sock p1 = mp_sock ?p"
    using c by (simp_all add: p1_def conn_ok_def cmds_def)
  let ?q = "send (CmdRing g n g) p1"
  have q: "cmds ?q = cmds ?p @ [CmdRing g n g]" using cmds_send [OF p1(1)] p1(2,3) by simp
  have "ring_ok ?q (hostd s) (sy_shm s)"
    using r g unfolding ring_ok_def q
    by (auto simp: p1 owed_def sorted_wrt_append)
  then show ?thesis
    using i conn_ok_send [OF p1(1)] p1(7,8) unfolding pix_inv_def p1_def [symmetric]
    by (auto simp: hostd_def)
qed

lemma turn_sock: "mp_sock q \<Longrightarrow> turn q s = s\<lparr>sy_player := q\<rparr>"
  by (simp add: turn_def)

lemma pix_share:
  assumes i: "pix_inv ds s" and k: "mp_sock (sy_player s)"
    and o': "shareRing created shared n (sy_player s, sy_shm s) = (q, mem)"
  shows "pix_inv ds (turn q (s\<lparr>sy_shm := mem\<rparr>))"
proof -
  let ?p = "sy_player s" and ?g = "mp_generation (sy_player s) + 1" and ?n = "n + n div 4"
  let ?mem = "(sy_shm s)(?g := replicate (nat (?n * kSlots)) 0)"
  have m: "pix_inv ds (s\<lparr>sy_shm := ?mem\<rparr>)" by (rule pix_mem [OF i]) simp
  have same: "pix_inv ds (turn ?p s')" if "pix_inv ds s'" "sy_player s' = ?p" for s'
    using pix_turn [OF that(1), of ?p] that(2) by (simp add: after_quiet)
  consider "q = ?p" "mem = sy_shm s" | "q = ?p" "mem = ?mem"
    | "0 < n" "mem = ?mem" "q = send (CmdRing ?g ?n ?g) (?p\<lparr>mp_ring := Some ?g, mp_published := True,
         mp_slotBytes := ?n, mp_generation := ?g\<rparr>)"
  proof (cases "n \<le> mp_slotBytes ?p \<or> n \<le> 0 \<or> kMaxSlotBytes < n \<or> \<not> created")
    case True
    then show thesis using o' by (intro that(1)) (auto simp: shareRing_def Let_def split: if_splits)
  next
    case False
    then have sh: "(q, mem) = (if \<not> shared then (?p, ?mem) else (send (CmdRing ?g ?n ?g) (?p\<lparr>mp_ring := Some ?g,
        mp_published := True, mp_slotBytes := ?n, mp_generation := ?g\<rparr>), ?mem))"
      using o' by (simp add: shareRing_def Let_def)
    show thesis
    proof (cases shared)
      case True
      show thesis by (rule that(3)) (use sh True False in simp_all)
    next
      case False
      show thesis by (rule that(2)) (use sh False in simp_all)
    qed
  qed
  then show ?thesis
  proof cases
    case 1
    have "s\<lparr>sy_shm := sy_shm s\<rparr> = s" by simp
    then show ?thesis using same [OF i] 1 by simp
  next
    case 2
    then show ?thesis using same [OF m] by simp
  next
    case 3
    have len: "int (length (?mem ?g)) = kSlots * ?n" using 3(1) by (simp add: kSlots_def)
    have "pix_inv ds ((s\<lparr>sy_shm := ?mem\<rparr>)\<lparr>sy_player := q\<rparr>)"
      using pix_new_ring [OF m, of ?g ?n] len k 3(3) by simp
    moreover have "mp_sock q" using k 3(3) by simp
    ultimately show ?thesis using 3(2) by (simp add: turn_sock)
  qed
qed

text \<open>Every other message is quiet.\<close>

lemma event_quiet:
  assumes "conn_ok p" "mp_sock p" "frame_msg m = []" "\<And>n. m \<noteq> MsgNeedRing n"
  shows "quiet p (fst (onEvent E created shared m (p, mem)))" "snd (onEvent E created shared m (p, mem)) = mem"
proof -
  have fields: "quiet p (p\<lparr>mp_published := b\<rparr>)" "quiet p (p_emit True SubtitleChanged (p\<lparr>mp_subHtml := t, mp_subAlign := a\<rparr>))" for b t a
    by (simp_all add: quiet_core player_core_def p_emit_def)
  have hello: "quiet p (onHello p)"
    using assms(1,2) by (auto simp: onHello_def quiet_def pixview_def cmds_def conn_ok_def)
  show "quiet p (fst (onEvent E created shared m (p, mem)))" "snd (onEvent E created shared m (p, mem)) = mem"
    using assms(3,4) quiet_with_feed [OF assms(1)] fields hello
    by (cases m; simp add: quiet_core split: prod.split)+
qed

lemma pix_event:
  assumes i: "pix_inv ds s" and h: "sy_host s = Some h" "mh_out h = m # ms"
    and e: "onEvent E created shared m (sy_player s, sy_shm s) = (q, mem)"
  shows "pix_inv ds (turn q (s\<lparr>sy_host := Some (h\<lparr>mh_out := ms\<rparr>), sy_shm := mem\<rparr>))"
proof -
  have k: "mp_sock (sy_player s)" "conn_ok (sy_player s)" using i h(1) by (auto simp: pix_inv_def)
  let ?s = "s\<lparr>sy_host := Some (h\<lparr>mh_out := ms\<rparr>)\<rparr>"
  consider (frame) g hdr where "m = MsgFrame g hdr" | (need) n where "m = MsgNeedRing n"
    | (other) "frame_msg m = []" "\<And>n. m \<noteq> MsgNeedRing n"
    by (cases m) auto
  then show ?thesis
  proof cases
    case frame
    then have q: "q = showFrame E (sy_shm s) g hdr (sy_player s)" "mem = sy_shm s" using e by auto
    have "?s\<lparr>sy_shm := sy_shm s\<rparr> = ?s" by simp
    then show ?thesis using pix_frame [OF i h(1)] h(2) frame q by simp
  next
    case need
    have "pix_inv ds ?s" using pix_pop [OF i h] need by simp
    moreover have "sy_player ?s = sy_player s" "sy_shm ?s = sy_shm s" by simp_all
    ultimately show ?thesis using pix_share [of ds ?s created shared n q mem] k e need by simp
  next
    case other
    have "pix_inv ds ?s" using pix_pop [OF i h] other by simp
    moreover have "mem = sy_shm s" "quiet (sy_player s) q"
      using event_quiet [OF k(2,1) other, of E created shared "sy_shm s"] e by simp_all
    moreover have "?s\<lparr>sy_shm := sy_shm s\<rparr> = ?s" by simp
    ultimately show ?thesis using pix_turn [of ds ?s q] after_quiet by simp
  qed
qed


section \<open>Every step keeps it\<close>

fun decoded :: "SysEvent list \<Rightarrow> VFrame list" where
  "decoded [] = []"
| "decoded (ChildDecodes (Some f) # es) = f # decoded es"
| "decoded (e # es) = decoded es"

lemma pix_more: "pix_inv ds s \<Longrightarrow> pix_inv (ds @ es) s"
  using subseq_rev_drop_many [of _ ds es] by (auto simp: pix_inv_def)

lemma pix_connects:
  assumes i: "pix_inv ds s" and c: "mp_channel (sy_player s)" "\<not> mp_sock (sy_player s)"
  shows "pix_inv ds (s\<lparr>sy_player := adopt (sy_player s), sy_host := Some mkMediaHost\<rparr>)"
proof -
  let ?p = "sy_player s"
  have a: "adopt ?p = ?p\<lparr>mp_sock := True\<rparr>" using c by (simp add: adopt_def)
  have "sy_host s = None" using i c by (auto simp: pix_inv_def)
  then have "hostd s = mkMediaHost" by (simp add: hostd_def)
  then show ?thesis
    using i c unfolding pix_inv_def a
    by (auto simp: hostd_def conn_ok_def ring_ok_def cmds_def)
qed

lemma child_quiet:
  "hostview (snd (host_read pos n h)) = hostview h" "hostview (send_asked h) = hostview h" "hostview (report m h) = hostview h"
proof -
  have s: "hostview (sendEvent m k) = hostview k" if "frame_msg m = []" for m k
    using that by (simp add: sendEvent_def hostview_def)
  have a: "hostview (k\<lparr>mh_source := x\<rparr>) = hostview k" "hostview (k\<lparr>mh_asked := y\<rparr>) = hostview k"
    "hostview (k\<lparr>mh_stateQueued := b\<rparr>) = hostview k" for k :: MediaHost and x y b
    by (simp_all add: hostview_def)
  have aa: "hostview (k\<lparr>mh_source := x, mh_asked := y\<rparr>) = hostview k" for k :: MediaHost and x y
    by (simp add: hostview_def)
  show "hostview (snd (host_read pos n h)) = hostview h"
    by (auto simp: host_read_def Let_def a aa split: option.split prod.split ReadStep.split)
  show "hostview (send_asked h) = hostview h"
    by (auto simp: send_asked_def a s split: list.split)
  show "hostview (report m h) = hostview h"
    by (auto simp: report_def sendState_def sendTracks_def a s split: ChildMsg.split)
qed

lemma pix_step:
  assumes i: "pix_inv ds s"
  shows "pix_inv (ds @ decoded [e]) (media_step E e s)"
proof -
  have c: "conn_ok (sy_player s)" using i by (simp add: pix_inv_def)
  note turned = pix_turn [OF i]
  note hosted = pix_host [OF i]
  have small: "after_op p (send k p)" if "plain k" for k p using that by (simp add: after_quiet quiet_send)
  have q: "player_core r = player_core p \<Longrightarrow> after_op p r" for p r by (simp add: after_quiet quiet_core)
  show ?thesis
  proof (cases e)
    case (UiSetSource L u)
    then show ?thesis using turned setSource_after [OF c] by simp
  next
    case (UiPlay L)
    then show ?thesis using turned play_after [OF c] by simp
  next
    case (UiSetOutput b)
    have "quiet (sy_player s) ((sy_player s)\<lparr>mp_output := b\<rparr>)" by (rule quiet_core) (simp add: player_core_def)
    then show ?thesis using UiSetOutput turned after_quiet by simp
  next
    case (UiTick now)
    have "quiet (sy_player s) ((sy_player s)\<lparr>mp_now := max now (mp_now (sy_player s))\<rparr>)"
      by (rule quiet_core) (simp add: player_core_def)
    then show ?thesis using UiTick turned after_quiet by simp
  next
    case (UiRestarts L)
    show ?thesis
    proof (cases "mp_restarts (sy_player s)")
      case (Cons pos ps)
      let ?p = "(sy_player s)\<lparr>mp_restarts := ps\<rparr>"
      have "quiet (sy_player s) ?p" by (rule quiet_core) (simp add: player_core_def)
      moreover from this c have "conn_ok ?p" by (simp add: quiet_def)
      ultimately have "after_op (sy_player s) (restart_in_software E L pos ?p)"
        using after_trans2 [OF c] restart_after by blast
      then show ?thesis using UiRestarts Cons turned by simp
    qed (use UiRestarts i in simp)
  next
    case (UiReceives created shared)
    show ?thesis
    proof (cases "\<exists>h m ms. sy_host s = Some h \<and> mh_out h = m # ms")
      case True
      then obtain h m ms where h: "sy_host s = Some h" "mh_out h = m # ms" by blast
      obtain p mem where e: "onEvent E created shared m (sy_player s, sy_shm s) = (p, mem)" by force
      show ?thesis using pix_event [OF i h e] UiReceives h e by (simp add: Let_def)
    next
      case False
      then show ?thesis using UiReceives i by (auto split: option.split list.split)
    qed
  next
    case (ChildReceives mapped)
    show ?thesis
    proof (cases "\<exists>h k cs. sy_host s = Some h \<and> mp_out (sy_player s) = k # cs")
      case True
      then show ?thesis using pix_receives [OF i] ChildReceives by auto
    next
      case False
      then show ?thesis using ChildReceives i by (auto split: option.split list.split)
    qed
  next
    case (ChildDecodes f)
    show ?thesis
    proof (cases "sy_host s")
      case (Some h)
      obtain h1 mem where o': "onFrame (mp_now (sy_player s)) f (h, sy_shm s) = (h1, mem)" by force
      have "decoded [ChildDecodes f] = (case f of Some x \<Rightarrow> [x] | None \<Rightarrow> [])" by (cases f) simp_all
      then show ?thesis using pix_decodes [OF i Some o'] ChildDecodes Some o' by simp
    qed (use ChildDecodes i pix_more in simp)
  next
    case (ChildReads pos n)
    then show ?thesis using i hosted child_quiet(1) by (cases "sy_host s") simp_all
  next
    case ChildSendsRead
    then show ?thesis using i hosted child_quiet(2) by (cases "sy_host s") simp_all
  next
    case (ChildReports m)
    then show ?thesis using i hosted child_quiet(3) by (cases "sy_host s") simp_all
  qed (use i turned ask_after c small feed_turn_quiet after_quiet lost_after pix_connects in
      \<open>simp_all add: setPlaybackRate_def setActiveAudioTrack_def setActiveSubtitleTrack_def\<close>)
qed

lemma decoded_append: "decoded (es @ fs) = decoded es @ decoded fs"
  by (induction es rule: decoded.induct) simp_all

lemma pix_run: "pix_inv ds s \<Longrightarrow> pix_inv (ds @ decoded es) (media_run E es s)"
proof (induction es arbitrary: ds s)
  case (Cons e es)
  have "decoded (e # es) = decoded [e] @ decoded es" using decoded_append [of "[e]" es] by simp
  then show ?case using Cons.IH [OF pix_step [OF Cons.prems]] by (simp add: media_run_def)
qed (simp add: media_run_def)

lemma pix_fresh: "pix_inv [] fresh_media"
  by (simp add: pix_inv_def fresh_media_def mkPlayer_def conn_ok_def ring_ok_def hostd_def mkMediaHost_def
      cmds_def owed_def owed_ok_def)

text \<open>
  C4: Every picture shown is a decoded one. Through any interleaving of the player, the child, the socket
  and the decoder (sources changed and stopped, decoders that die and are started again, rings replaced
  while frames are under way, frames that find every slot busy, messages read late), the frames put on
  the screen are decoded frames, in the order they were decoded and each at most once, with the format,
  the size, the times and the bytes of every line that the decoder gave them: no slot is ever written
  while a frame in it is still to be shown.
\<close>

theorem pictures_are_decoded:
  "\<exists>fs. subseq fs (decoded es)
     \<and> list_all2 same_frame fs (shown_frames (mp_sinkFrames (sy_player (media_run E es fresh_media))))"
proof -
  have "pix_inv (decoded es) (media_run E es fresh_media)" using pix_run [OF pix_fresh, of es E] by simp
  then show ?thesis unfolding pix_inv_def using subseq_left by blast
qed

end
