(* ===== verification/MediaReads.thy ===== *)
theory MediaReads
  imports MediaPictures
begin

text \<open>
  The bytes. Each start of a feed has a generation; what is asked, answered and delivered carries it. So
  whatever is still under way when the source changes, what the decoder reads from its device are bytes
  of the file that the player has open, at the place it asked for.
\<close>

section \<open>What the feed announces\<close>

text \<open>The sizes that a feed announces satisfy a predicate.\<close>

definition ready_all :: "(int \<Rightarrow> bool) \<Rightarrow> FeedSignal list \<Rightarrow> bool" where
  "ready_all Q gs \<longleftrightarrow> (\<forall>n. FeedReady n \<in> set gs \<longrightarrow> Q n)"

lemma ready_all_simps [simp]:
  "ready_all Q []" "ready_all Q (gs @ hs) \<longleftrightarrow> ready_all Q gs \<and> ready_all Q hs"
  "ready_all Q (map (\<lambda>p. FeedRefused (fp_id p)) ps)"
  "ready_all Q [g] \<longleftrightarrow> (case g of FeedReady n \<Rightarrow> Q n | _ \<Rightarrow> True)"
  by (auto simp: ready_all_def split: FeedSignal.split)

lemma ready_emit [simp]:
  "ready_all Q (mf_signals (fd_emit g s)) \<longleftrightarrow>
     ready_all Q (mf_signals s) \<and> (case g of FeedReady n \<Rightarrow> Q n | _ \<Rightarrow> True)"
  by (simp add: fd_emit_def)

lemma ready_serve_loop:
  "serve_loop dr bend ps s = (ks, s', again) \<Longrightarrow> ready_all Q (mf_signals s) \<Longrightarrow> ready_all Q (mf_signals s')"
proof (induction ps arbitrary: s ks s' again)
  case (Cons p ps)
  show ?case
  proof (cases "serve_one dr bend p s")
    case StillWaits
    then show ?thesis using Cons.prems Cons.IH [of s] by (auto split: prod.splits)
  next
    case (Answered s1)
    then have "ready_all Q (mf_signals s1)"
      using Cons.prems(2) by (auto simp: serve_one_def Let_def split: if_splits)
    then show ?thesis using Answered Cons.prems Cons.IH [of s1] by simp
  next
    case (AskAgain s1)
    then show ?thesis using Cons.prems serve_one_frame(2) [OF AskAgain] by simp
  qed
qed simp

lemma stream_signals [simp]: "mf_signals (streamFrom off s) = mf_signals s"
  by (simp add: streamFrom_def)

lemma ready_serve: "ready_all Q (mf_signals s) \<Longrightarrow> ready_all Q (mf_signals (servePending s))"
proof -
  assume r: "ready_all Q (mf_signals s)"
  obtain ks s1 again where l: "serve_loop (drained s) (bufEnd s) (mf_pending s) s = (ks, s1, again)"
    by (metis prod_cases3)
  then have "ready_all Q (mf_signals s1)" using r by (rule ready_serve_loop)
  then show ?thesis
    by (auto simp: servePending_def l Let_def trim_frame split: option.split)
qed

lemma ready_http: "ready_all Q (mf_signals s) \<Longrightarrow> ready_all Q (mf_signals (onHttpData s))"
proof (cases "mf_reply s")
  case (Some r)
  assume a: "ready_all Q (mf_signals s)"
  obtain ok s1 where c: "replyStartsAtBuffer r s = (ok, s1)" by force
  then have "ready_all Q (mf_signals s1)"
    using a by (auto simp: replyStartsAtBuffer_def Let_def split: if_splits)
  then show ?thesis using Some c by (simp add: onHttpData_def Let_def ready_serve)
qed (simp add: onHttpData_def)

lemma ready_event:
  assumes "\<And>n. e = EvHead True n \<Longrightarrow> 0 < n \<Longrightarrow> Q n" "ready_all Q (mf_signals s)"
  shows "ready_all Q (mf_signals (feed_event rd e s))"
proof (cases e)
  case (EvHead ok len)
  then show ?thesis using assms by (simp add: onHead_def)
next
  case (EvRequest i off len)
  then show ?thesis using assms(2) by (simp add: feed_request_def Let_def ready_serve)
qed (use assms(2) in \<open>simp_all add: on_reply_def ready_http\<close>)

text \<open>Whenever the feed says it is ready, it gives the size of the file.\<close>

definition ready_ok :: "bytes \<Rightarrow> FeedSignal list \<Rightarrow> bool" where
  "ready_ok f = ready_all (\<lambda>n. n = int (length f))"

lemma ready_ok_event:
  "honest_event f s e \<Longrightarrow> ready_ok f (mf_signals s) \<Longrightarrow> ready_ok f (mf_signals (feed_event rd e s))"
  unfolding ready_ok_def by (rule ready_event) simp_all

section \<open>The invariant\<close>

text \<open>
  \<open>content\<close> is the file behind each URL, \<open>urls\<close> the URL of each generation, \<open>gen\<close> the newest one.
\<close>

definition cmd_true :: "(string \<Rightarrow> bytes) \<Rightarrow> (int \<Rightarrow> string) \<Rightarrow> int \<Rightarrow> ChildCmd \<Rightarrow> bool" where
  "cmd_true content urls gen c \<longleftrightarrow>
     (case c of
        CmdOpen g n hint \<Rightarrow> g \<le> gen \<and> n = int (length (content (urls g)))
      | CmdData g i off b \<Rightarrow> g \<le> gen \<and> (b \<noteq> [] \<longrightarrow> is_at (content (urls g)) off b)
      | _ \<Rightarrow> True)"

definition reads_ok :: "(string \<Rightarrow> bytes) \<Rightarrow> (int \<Rightarrow> string) \<Rightarrow> Player \<Rightarrow> bool" where
  "reads_ok content urls p \<longleftrightarrow>
     conn_ok p
     \<and> (\<forall>fd. mp_feed p = Some fd \<longrightarrow> feed_inv (content (urls (mp_sourceGen p))) fd \<and> mf_signals fd = [])
     \<and> list_all (cmd_true content urls (mp_sourceGen p)) (cmds p)"

definition source_ok :: "(string \<Rightarrow> bytes) \<Rightarrow> (int \<Rightarrow> string) \<Rightarrow> int \<Rightarrow> MediaHost \<Rightarrow> bool" where
  "source_ok content urls gen h \<longleftrightarrow>
     (\<forall>src. mh_source h = Some src \<longrightarrow> mh_sourceGen h \<le> gen \<and> src_inv (content (urls (mh_sourceGen h))) src)"

definition read_inv :: "(string \<Rightarrow> bytes) \<Rightarrow> MediaSystem \<Rightarrow> bool" where
  "read_inv content s \<longleftrightarrow>
     (\<exists>urls. reads_ok content urls (sy_player s)
        \<and> (mp_channel (sy_player s) \<longrightarrow> urls (mp_sourceGen (sy_player s)) = mp_source (sy_player s))
        \<and> source_ok content urls (mp_sourceGen (sy_player s)) (hostd s))
     \<and> (sy_host s \<noteq> None \<longleftrightarrow> mp_sock (sy_player s))"

definition honest_env :: "(string \<Rightarrow> bytes) \<Rightarrow> QtEnv \<Rightarrow> bool" where
  "honest_env content E \<longleftrightarrow>
     (\<forall>u. honest_read (content u) (qe_read E u))
     \<and> (\<forall>u n. qe_feedSource E u = LocalFile (Some n) \<longrightarrow> n = int (length (content u)))"

definition honest_turn :: "(string \<Rightarrow> bytes) \<Rightarrow> MediaSystem \<Rightarrow> SysEvent \<Rightarrow> bool" where
  "honest_turn content s e \<longleftrightarrow>
     (case (e, mp_feed (sy_player s)) of
        (UiFeed fe, Some fd) \<Rightarrow> honest_event (content (mp_source (sy_player s))) fd fe
      | _ \<Rightarrow> True)"

fun honest_media :: "(string \<Rightarrow> bytes) \<Rightarrow> QtEnv \<Rightarrow> SysEvent list \<Rightarrow> MediaSystem \<Rightarrow> bool" where
  "honest_media content E [] s \<longleftrightarrow> True"
| "honest_media content E (e # es) s \<longleftrightarrow> honest_turn content s e \<and> honest_media content E es (media_step E e s)"

section \<open>The player\<close>

lemma reads_core: "player_core q = player_core p \<Longrightarrow> reads_ok content urls q = reads_ok content urls p"
  using conn_ok_core [of q p] cmds_core [of q p] by (simp add: reads_ok_def player_core_def)

lemma reads_send:
  assumes "reads_ok content urls p" "cmd_true content urls (mp_sourceGen p) c"
  shows "reads_ok content urls (send c p)"
proof -
  have c: "conn_ok p" using assms(1) by (simp add: reads_ok_def)
  then show ?thesis
    using assms conn_ok_send [OF c] cmds_send [OF c, of c] by (simp add: reads_ok_def)
qed

lemma reads_other [simp]:
  "reads_ok content urls (p\<lparr>mp_wantState := w\<rparr>) = reads_ok content urls p"
  "reads_ok content urls (p\<lparr>mp_pendingSeek := a\<rparr>) = reads_ok content urls p"
  "reads_ok content urls (p\<lparr>mp_source := u\<rparr>) = reads_ok content urls p"
  "reads_ok content urls (set_frame x p) = reads_ok content urls p"
  by (simp_all add: reads_ok_def conn_ok_def cmds_def set_frame_def)

lemma cmd_true_simps [simp]:
  "cmd_true content urls gen CmdPlay" "cmd_true content urls gen CmdPause" "cmd_true content urls gen CmdStop"
  "cmd_true content urls gen (CmdSeek a)" "cmd_true content urls gen (CmdRate r)"
  "cmd_true content urls gen (CmdVolume r)" "cmd_true content urls gen (CmdMuted m)"
  "cmd_true content urls gen (CmdAudioTrack a)" "cmd_true content urls gen (CmdSubTrack a)"
  "cmd_true content urls gen (CmdRelease g k)" "cmd_true content urls gen (CmdRing g n t)"
  "cmd_true content urls gen (CmdDataError g i)" "cmd_true content urls gen CmdClose"
  by (simp_all add: cmd_true_def)

lemma reads_ready:
  assumes r: "reads_ok content urls p" and n: "n = int (length (content (urls (mp_sourceGen p))))" and ch: "mp_channel p"
  shows "reads_ok content urls (on_feed_ready E n p) \<and> mp_sourceGen (on_feed_ready E n p) = mp_sourceGen p"
proof -
  let ?p0 = "send (CmdOpen (mp_sourceGen p) n (qe_fileName E (mp_source p))) p"
  have "reads_ok content urls ?p0" using r n by (intro reads_send) (simp_all add: cmd_true_def)
  then have p1: "reads_ok content urls (?p0\<lparr>mp_opened := True\<rparr>)"
    using ch by (simp add: reads_ok_def conn_ok_def cmds_def)
  show ?thesis using p1 unfolding on_feed_ready_def Let_def by (simp add: reads_send)
qed

text \<open>A signal of the feed that says the truth.\<close>

definition signal_true :: "bytes \<Rightarrow> FeedSignal \<Rightarrow> bool" where
  "signal_true f g \<longleftrightarrow> (case g of FeedReady n \<Rightarrow> n = int (length f) | FeedData i off b \<Rightarrow> is_at f off b | _ \<Rightarrow> True)"

lemma failWith_gen [simp]: "mp_sourceGen (failWith e why p) = mp_sourceGen p"
  using core_failWith [of e why p] by (simp add: player_core_def)

lemma reads_slot:
  assumes "reads_ok content urls p" "mp_channel p" "signal_true (content (urls (mp_sourceGen p))) g"
  shows "reads_ok content urls (feed_slot E g p) \<and> mp_channel (feed_slot E g p)
     \<and> mp_sourceGen (feed_slot E g p) = mp_sourceGen p"
  using assms reads_ready [of content urls p] reads_core [OF core_failWith, of content urls _ _ p]
  by (cases g) (simp_all add: signal_true_def reads_send cmd_true_def)

lemma reads_slots:
  "reads_ok content urls p \<Longrightarrow> mp_channel p \<Longrightarrow> list_all (signal_true (content (urls (mp_sourceGen p)))) gs \<Longrightarrow>
     reads_ok content urls (fold (feed_slot E) gs p) \<and> mp_sourceGen (fold (feed_slot E) gs p) = mp_sourceGen p"
proof (induction gs arbitrary: p)
  case (Cons g gs)
  then show ?case using reads_slot [of content urls p g E] by simp
qed simp

lemma reads_with_feed:
  assumes r: "reads_ok content urls p"
    and g: "\<And>fd. mp_feed p = Some fd \<Longrightarrow> feed_inv (content (urls (mp_sourceGen p))) (g fd)
              \<and> ready_ok (content (urls (mp_sourceGen p))) (mf_signals (g fd))"
  shows "reads_ok content urls (with_feed E g p) \<and> mp_sourceGen (with_feed E g p) = mp_sourceGen p"
proof (cases "mp_feed p")
  case (Some fd)
  let ?f = "content (urls (mp_sourceGen p))"
  let ?q = "p\<lparr>mp_feed := Some ((g fd)\<lparr>mf_signals := []\<rparr>)\<rparr>"
  have ch: "mp_channel p" using r Some by (auto simp: reads_ok_def conn_ok_def)
  have i: "feed_inv ?f (g fd)" "ready_ok ?f (mf_signals (g fd))" using g [OF Some] by simp_all
  then have "feed_inv ?f ((g fd)\<lparr>mf_signals := []\<rparr>)"
    by (simp add: feed_inv_def answers_ok_def pending_ok_def buffer_ok_def bufEnd_def cong: if_cong)
  then have "reads_ok content urls ?q"
    using r ch by (simp add: reads_ok_def conn_ok_def cmds_def)
  moreover have "list_all (signal_true ?f) (mf_signals (g fd))"
    using i unfolding feed_inv_def answers_ok_def ready_ok_def ready_all_def list_all_iff signal_true_def
    by (auto split: FeedSignal.split)
  ultimately show ?thesis
    using reads_slots [of content urls ?q "mf_signals (g fd)" E] ch by (simp add: with_feed_def Some)
qed (use r in \<open>simp add: with_feed_def\<close>)

lemma cmd_true_urls: "cmd_true content urls gen c \<Longrightarrow> cmd_true content (urls(gen + 1 := u)) (gen + 1) c"
  by (auto simp: cmd_true_def split: ChildCmd.splits)

lemma reads_start:
  assumes r: "reads_ok content urls p" and ch: "mp_channel p" and h: "honest_env content E"
  shows "reads_ok content (urls(mp_sourceGen p + 1 := mp_source p)) (startFeed E p)
     \<and> mp_sourceGen (startFeed E p) = mp_sourceGen p + 1"
proof -
  let ?urls = "urls(mp_sourceGen p + 1 := mp_source p)"
  let ?fd = "mkMediaFeed (qe_feedSource E (mp_source p))"
  let ?q = "p\<lparr>mp_sourceGen := mp_sourceGen p + 1, mp_opened := False, mp_feed := Some ?fd\<rparr>"
  define r where "r = (logPlaybackSummary
     (let p1 = p\<lparr>mp_sourceGen := mp_sourceGen p + 1, mp_opened := False\<rparr> in
      if mp_subHtml p1 \<noteq> [] then p_emit True SubtitleChanged (p1\<lparr>mp_subHtml := []\<rparr>) else p1))
      \<lparr>mp_soundFrom := -1, mp_soundClock := None, mp_loggedBadFrame := False,
       mp_openClock := Some (mp_now p), mp_feed := Some ?fd\<rparr>"
  have player_core: "player_core r = player_core ?q" by (simp add: r_def player_core_def p_emit_def logPlaybackSummary_def Let_def)
  have src: "\<forall>n. qe_feedSource E (mp_source p) = LocalFile (Some n) \<longrightarrow> n = int (length (content (mp_source p)))"
    using h by (simp add: honest_env_def)
  have fd: "feed_inv (content (mp_source p)) ?fd" "mf_signals ?fd = []"
    by (simp_all add: feed_inv_def mkMediaFeed_def pending_ok_def answers_ok_def buffer_ok_def)
  have "list_all (cmd_true content ?urls (mp_sourceGen p + 1)) (cmds p)"
    using assms(1) cmd_true_urls unfolding reads_ok_def list_all_iff by blast
  then have "reads_ok content ?urls ?q"
    using assms(1) ch fd by (simp add: reads_ok_def conn_ok_def cmds_def)
  then have "reads_ok content ?urls r" using reads_core [OF player_core] by simp
  moreover have f: "mp_feed r = Some ?fd" "mp_sourceGen r = mp_sourceGen p + 1" using player_core by (simp_all add: player_core_def)
  moreover have "feed_inv (content (mp_source p)) (feed_start ?fd)" by (rule feed_inv_start [OF src])
  moreover have "ready_ok (content (mp_source p)) (mf_signals (feed_start ?fd))"
    using src by (auto simp: feed_start_def mkMediaFeed_def fd_emit_def ready_ok_def split: FeedSource.split option.split)
  ultimately have "reads_ok content ?urls (with_feed E feed_start r) \<and> mp_sourceGen (with_feed E feed_start r) = mp_sourceGen r"
    by (intro reads_with_feed) simp_all
  moreover have "startFeed E p = with_feed E feed_start r" by (simp add: startFeed_def r_def Let_def)
  ultimately show ?thesis using f(2) by simp
qed

lemma reads_teardown: "reads_ok content urls (teardown p)"
  by (simp add: reads_ok_def conn_ok_def teardown_def cmds_def)


section \<open>The operations\<close>

text \<open>
  After an operation the player still says the truth; a channel belongs to the source the user chose,
  and the child is there only if the operation kept it.
\<close>

definition reads_after :: "(string \<Rightarrow> bytes) \<Rightarrow> (int \<Rightarrow> string) \<Rightarrow> Player \<Rightarrow> Player \<Rightarrow> bool" where
  "reads_after content urls p q \<longleftrightarrow>
     (\<exists>urls'. reads_ok content urls' q \<and> mp_sourceGen p \<le> mp_sourceGen q
        \<and> (\<forall>g \<le> mp_sourceGen p. urls' g = urls g)
        \<and> (mp_channel q \<longrightarrow> urls' (mp_sourceGen q) = mp_source q))
     \<and> (mp_sock q \<longrightarrow> mp_sock p)"

lemma reads_after_same:
  assumes "reads_ok content urls q" "mp_sourceGen q = mp_sourceGen p" "mp_sock q \<longrightarrow> mp_sock p"
    "mp_channel q \<longrightarrow> urls (mp_sourceGen q) = mp_source q"
  shows "reads_after content urls p q"
  using assms by (auto simp: reads_after_def)

lemma slots_keep: "aside (feed_slot E g p) = aside (feed_slot E g p) \<and> mp_sock (feed_slot E g p) = mp_sock p
    \<and> mp_source (feed_slot E g p) = mp_source p \<and> mp_channel (feed_slot E g p) = mp_channel p"
  by (cases g) (simp_all add: on_feed_ready_def Let_def)

lemma with_feed_keeps [simp]:
  "mp_sock (with_feed E g p) = mp_sock p" "mp_source (with_feed E g p) = mp_source p"
  "mp_channel (with_feed E g p) = mp_channel p"
proof -
  have "mp_sock (fold (feed_slot E) gs q) = mp_sock q \<and> mp_source (fold (feed_slot E) gs q) = mp_source q
      \<and> mp_channel (fold (feed_slot E) gs q) = mp_channel q" for gs q
    by (induction gs arbitrary: q) (simp_all add: slots_keep)
  then show "mp_sock (with_feed E g p) = mp_sock p" "mp_source (with_feed E g p) = mp_source p"
    "mp_channel (with_feed E g p) = mp_channel p"
    by (simp_all add: with_feed_def split: option.split)
qed

lemma startFeed_keeps [simp]:
  "mp_sock (startFeed E p) = mp_sock p" "mp_source (startFeed E p) = mp_source p" "mp_channel (startFeed E p) = mp_channel p"
  by (simp_all add: startFeed_def Let_def p_emit_def logPlaybackSummary_def)

lemma start_after:
  assumes "reads_ok content urls q" "mp_channel q" "honest_env content E" "mp_sourceGen q = mp_sourceGen p"
    "mp_sock q \<longrightarrow> mp_sock p"
  shows "reads_after content urls p (startFeed E q)"
  using reads_start [OF assms(1-3)] assms(2,4,5) unfolding reads_after_def
  by (intro conjI exI [of _ "urls(mp_sourceGen q + 1 := mp_source q)"]) auto

lemma reads_ensure:
  assumes "reads_ok content urls p" "ensureChild L p = (ok, q)"
  shows "reads_ok content urls q \<and> mp_sourceGen q = mp_sourceGen p \<and> (mp_sock q \<longrightarrow> mp_sock p)
     \<and> mp_source q = mp_source p \<and> mp_wantState q = mp_wantState p
     \<and> (ok \<longrightarrow> mp_channel q) \<and> (\<not> ok \<longrightarrow> \<not> mp_channel q)"
proof -
  let ?p1 = "p\<lparr>mp_channel := True, mp_proc := Some (mp_softwareDecode p)\<rparr>"
  have fresh: "reads_ok content urls ?p1" if "\<not> mp_channel p"
    using assms(1) that by (auto simp: reads_ok_def conn_ok_def cmds_def)
  have fw: "reads_ok content urls (failWith e why r) = reads_ok content urls r"
    "mp_wantState (failWith e why r) = mp_wantState r" for e why r
    using reads_core [OF core_failWith] core_failWith [of e why r] by (simp_all add: player_core_def)
  have td: "mp_sourceGen (teardown r) = mp_sourceGen r" "\<not> mp_sock (teardown r)" "mp_source (teardown r) = mp_source r"
    "mp_wantState (teardown r) = mp_wantState r" "\<not> mp_channel (teardown r)" for r
    by (simp_all add: teardown_def logPlaybackSummary_def)
  show ?thesis
    using assms unfolding ensureChild_def Let_def
    by (auto simp: fw td reads_teardown reads_send fresh split: if_splits)
qed

lemma teardown_gen [simp]:
  "mp_sourceGen (teardown p) = mp_sourceGen p" "\<not> mp_sock (teardown p)" "\<not> mp_channel (teardown p)"
  "mp_source (teardown p) = mp_source p"
  by (simp_all add: teardown_def logPlaybackSummary_def)

lemma applied [simp]:
  "mp_sourceGen (applyState st p) = mp_sourceGen p" "mp_sourceGen (applyTracks E t p) = mp_sourceGen p"
  "mp_sock (applyState st p) = mp_sock p" "mp_sock (applyTracks E t p) = mp_sock p"
  "mp_channel (applyState st p) = mp_channel p" "mp_channel (applyTracks E t p) = mp_channel p"
  "mp_source (applyState st p) = mp_source p" "mp_source (applyTracks E t p) = mp_source p"
  "mp_sourceGen (p_emit c g p) = mp_sourceGen p" "mp_sock (p_emit c g p) = mp_sock p"
  "mp_channel (p_emit c g p) = mp_channel p" "mp_source (p_emit c g p) = mp_source p"
  "mp_opened (p_emit c g p) = mp_opened p"
  using core_applyState [of st p] core_applyTracks [of E t p] core_emit [of c g p]
  by (simp_all add: player_core_def)

lemmas reads_applied [simp] = reads_core [OF core_applyState] reads_core [OF core_applyTracks] reads_core [OF core_emit]

lemma set_frame_keeps [simp]:
  "mp_sourceGen (set_frame x p) = mp_sourceGen p" "mp_sock (set_frame x p) = mp_sock p"
  "mp_channel (set_frame x p) = mp_channel p" "mp_source (set_frame x p) = mp_source p"
  by (simp_all add: set_frame_def)

lemma reads_setSource:
  assumes r: "reads_ok content urls p" and h: "honest_env content E"
    and c: "mp_channel p \<longrightarrow> urls (mp_sourceGen p) = mp_source p"
  shows "reads_after content urls p (setSource E L u p)"
proof -
  let ?p1 = "(p_emit True SourceChanged (p\<lparr>mp_source := u\<rparr>))\<lparr>mp_softwareDecode := False\<rparr>"
  define p2 where "p2 = (if mp_noPicture ?p1 then p_emit True NoPictureChanged (?p1\<lparr>mp_noPicture := False\<rparr>) else ?p1)"
  have player_core: "player_core p2 = player_core (p\<lparr>mp_source := u\<rparr>)" by (simp add: p2_def player_core_def p_emit_def)
  have p2: "reads_ok content urls p2" "mp_sourceGen p2 = mp_sourceGen p" "mp_sock p2 = mp_sock p" "mp_source p2 = u"
    using reads_core [OF player_core] r player_core by (simp_all add: player_core_def)
  obtain ok p3 where e: "ensureChild L p2 = (ok, p3)" by force
  note p3 = reads_ensure [OF p2(1) e]
  have eq: "setSource E L u p = (if u = mp_source p then p
      else if u = [] then set_frame None (applyTracks E new_tracks (applyState new_state (teardown p2)))
      else (let (ok, p3) = ensureChild L p2 in if ok then startFeed E p3 else p3))"
    unfolding setSource_def p2_def Let_def by (rule refl)
  have "reads_after content urls p p" using r c by (intro reads_after_same) simp_all
  moreover have "reads_after content urls p (set_frame None (applyTracks E new_tracks (applyState new_state (teardown p2))))"
    by (intro reads_after_same) (simp_all add: reads_teardown p2)
  moreover have "reads_after content urls p (startFeed E p3)" if ok
    using p3 p2 that by (intro start_after [OF _ _ h]) simp_all
  moreover have "reads_after content urls p p3" if "\<not> ok"
    using p3 p2 that by (intro reads_after_same) simp_all
  ultimately show ?thesis unfolding eq by (simp add: e)
qed

lemma after_send:
  assumes "reads_after content urls p q" "\<And>urls gen. cmd_true content urls gen c"
  shows "reads_after content urls p (send c q)"
proof -
  obtain urls' where u: "reads_ok content urls' q" "mp_sourceGen p \<le> mp_sourceGen q"
    "\<forall>g \<le> mp_sourceGen p. urls' g = urls g" "mp_channel q \<longrightarrow> urls' (mp_sourceGen q) = mp_source q"
    "mp_sock q \<longrightarrow> mp_sock p"
    using assms(1) unfolding reads_after_def by blast
  have "reads_ok content urls' (send c q)" by (rule reads_send [OF u(1) assms(2)])
  then show ?thesis unfolding reads_after_def using u(2-) by (intro conjI exI [of _ urls']) simp_all
qed

lemma reads_play:
  assumes r: "reads_ok content urls p" and h: "honest_env content E"
    and c: "mp_channel p \<longrightarrow> urls (mp_sourceGen p) = mp_source p"
  shows "reads_after content urls p (player_play E L p)"
proof -
  let ?p1 = "p\<lparr>mp_wantState := PlayingState\<rparr>"
  obtain ok q where e: "ensureChild L ?p1 = (ok, q)" by force
  note q = reads_ensure [OF _ e]
  have "reads_after content urls p (startFeed E q)" if ok
    using q r that by (intro start_after [OF _ _ h]) simp_all
  moreover have "reads_after content urls p q" if "\<not> ok"
    using q r that by (intro reads_after_same) simp_all
  moreover have "reads_after content urls p p" "reads_after content urls p ?p1"
    using r c by (intro reads_after_same; simp)+
  ultimately show ?thesis
    using after_send [of content urls p _ CmdPlay] unfolding player_play_def Let_def by (auto simp: e)
qed

lemma reads_restart:
  assumes h: "honest_env content E"
  shows "reads_after content urls p (restart_in_software E L pos p)"
proof -
  obtain ok q where e: "ensureChild L (teardown p) = (ok, q)" by force
  note q = reads_ensure [OF reads_teardown e]
  let ?r = "q\<lparr>mp_pendingSeek := pos, mp_wantState := mp_wantState p\<rparr>"
  have "reads_after content urls p (startFeed E ?r)" if ok
    using q [of content urls] that by (intro start_after [OF _ _ h]) simp_all
  moreover have "reads_after content urls p q" if "\<not> ok"
    using q [of content urls] that by (intro reads_after_same) simp_all
  ultimately show ?thesis by (simp add: restart_in_software_def e)
qed

lemma reads_asks:
  assumes r: "reads_ok content urls p" and c: "mp_channel p \<longrightarrow> urls (mp_sourceGen p) = mp_source p"
  shows "reads_after content urls p (player_pause p)" "reads_after content urls p (player_stop p)"
    "reads_after content urls p (setPosition ms p)" "reads_after content urls p (setVolume v p)"
    "reads_after content urls p (setMuted m p)" "reads_after content urls p (onChildLost p)"
proof -
  have same: "reads_after content urls p q" if "player_core q = player_core p" for q
    using r c that reads_core [OF that] by (intro reads_after_same) (simp_all add: player_core_def)
  have w: "reads_after content urls p (p\<lparr>mp_wantState := w\<rparr>)" "reads_after content urls p (p\<lparr>mp_pendingSeek := a\<rparr>)" for w a
    using r c by (intro reads_after_same; simp)+
  show "reads_after content urls p (player_pause p)" "reads_after content urls p (player_stop p)"
    using w after_send [OF w(1)] by (simp_all add: player_pause_def player_stop_def Let_def)
  have st: "reads_after content urls p (p_emit True g (q\<lparr>mp_state := x\<rparr>))" if "reads_after content urls p q" for q g x
  proof -
    have "player_core (p_emit True g (q\<lparr>mp_state := x\<rparr>)) = player_core q" by (simp add: player_core_def p_emit_def)
    from reads_core [OF this] this that show ?thesis unfolding reads_after_def player_core_def by auto
  qed
  define p1 where "p1 = (if mp_opened p then send (CmdSeek (max 0 ms)) p else p\<lparr>mp_pendingSeek := max 0 ms\<rparr>)"
  have "reads_after content urls p p1" using w(2) after_send [OF same] by (simp add: p1_def)
  then show "reads_after content urls p (setPosition ms p)"
    using st unfolding setPosition_def Let_def p1_def [symmetric] by simp
  have "player_core (p_emit True g (p\<lparr>mp_volume := v\<rparr>)) = player_core p" "player_core (p_emit True g (p\<lparr>mp_muted := m\<rparr>)) = player_core p" for g v m
    by (simp_all add: player_core_def p_emit_def)
  note vm = this [THEN same]
  show "reads_after content urls p (setVolume v p)" "reads_after content urls p (setMuted m p)"
    using same [OF refl] after_send [OF vm(1)] after_send [OF vm(2)] by (simp_all add: setVolume_def setMuted_def Let_def)
  show "reads_after content urls p (onChildLost p)"
    by (intro reads_after_same) (simp_all add: onChildLost_def failWith_def reads_teardown)
qed


section \<open>The system\<close>

lemma source_ok_urls:
  "source_ok content urls gen h \<Longrightarrow> \<forall>g \<le> gen. urls' g = urls g \<Longrightarrow> gen \<le> gen' \<Longrightarrow> source_ok content urls' gen' h"
  by (auto simp: source_ok_def)

lemma source_ok_fresh [simp]: "source_ok content urls gen mkMediaHost"
  by (simp add: source_ok_def mkMediaHost_def)

lemma read_turn:
  assumes i: "reads_ok content urls (sy_player s)" "source_ok content urls (mp_sourceGen (sy_player s)) (hostd s)"
    and h: "sy_host s \<noteq> None \<longleftrightarrow> mp_sock (sy_player s)"
    and a: "reads_after content urls (sy_player s) q"
  shows "read_inv content (turn q s)"
proof -
  obtain urls' where u: "reads_ok content urls' q" "mp_sourceGen (sy_player s) \<le> mp_sourceGen q"
    "\<forall>g \<le> mp_sourceGen (sy_player s). urls' g = urls g" "mp_channel q \<longrightarrow> urls' (mp_sourceGen q) = mp_source q"
    "mp_sock q \<longrightarrow> mp_sock (sy_player s)"
    using a unfolding reads_after_def by blast
  have so: "source_ok content urls' (mp_sourceGen q) (hostd (turn q s))"
    using source_ok_urls [OF i(2) u(3,2)] by (simp add: hostd_def turn_def)
  have t: "sy_player (turn q s) = q" "sy_host (turn q s) \<noteq> None \<longleftrightarrow> mp_sock q"
    using u(5) h by (auto simp: turn_def)
  show ?thesis
    unfolding read_inv_def t(1) using u so t(2) by blast
qed

lemma source_ok_same:
  "mh_source k = mh_source h \<Longrightarrow> mh_sourceGen k = mh_sourceGen h \<Longrightarrow> source_ok content urls gen k = source_ok content urls gen h"
  by (simp add: source_ok_def)

lemma closeSource_None [simp]: "mh_source (closeSource h) = None" "mh_sourceGen (closeSource h) = mh_sourceGen h"
  by (simp_all add: closeSource_def call_player_def)

lemma source_dispatch:
  assumes s: "source_ok content urls gen h" and c: "cmd_true content urls gen c"
  shows "source_ok content urls gen (dispatch mapped mem c h)"
proof (cases c)
  case (CmdOpen g n hint)
  then have g: "g \<le> gen" "n = int (length (content (urls g)))" using c by (simp_all add: cmd_true_def)
  have "source_ok content urls gen (openSource g n hint h)"
    using g src_inv_new [of "content (urls g)"]
    by (simp add: openSource_def Let_def refuse_def sendEvent_def call_player_def source_ok_def)
  then show ?thesis using CmdOpen by simp
next
  case (CmdData g i off b)
  then have "b \<noteq> [] \<longrightarrow> is_at (content (urls g)) off b" using c by (simp add: cmd_true_def)
  then show ?thesis
    using s CmdData src_inv_deliver [of "content (urls g)" _ b off i]
    by (auto simp: source_ok_def on_source_def)
next
  case (CmdDataError g i)
  then show ?thesis using s src_inv_fail by (auto simp: source_ok_def on_source_def)
next
  case (CmdRing g n t)
  then show ?thesis using s by (simp add: source_ok_def attachRing_def sendEvent_def)
qed (use s in \<open>auto simp: source_ok_def call_player_def closeSource_def\<close>)

lemma source_read: "source_ok content urls gen h \<Longrightarrow> source_ok content urls gen (snd (host_read (int pos) n h))"
proof (cases "mh_source h")
  case (Some src)
  assume a: "source_ok content urls gen h"
  obtain r s1 where rs: "read_step (int pos) n src = (r, s1)" by force
  then have "src_inv (content (urls (mh_sourceGen h))) s1"
    using a Some src_inv_read [of "content (urls (mh_sourceGen h))" src "int pos" n] by (auto simp: source_ok_def)
  then show ?thesis using a Some
    by (cases r) (auto simp: host_read_def rs source_ok_def Let_def)
qed (simp add: host_read_def)

lemma onFrame_source: "onFrame now f (h, mem) = (h1, mem1) \<Longrightarrow> mh_source h1 = mh_source h \<and> mh_sourceGen h1 = mh_sourceGen h"
proof -
  assume o': "onFrame now f (h, mem) = (h1, mem1)"
  have fw: "mh_source (frame_window now k) = mh_source k" "mh_sourceGen (frame_window now k) = mh_sourceGen k" for k
    by (simp_all add: frame_window_def Let_def)
  have s: "mh_source (sendEvent m k) = mh_source k" "mh_sourceGen (sendEvent m k) = mh_sourceGen k" for m k
    by (simp_all add: sendEvent_def)
  have "mh_source (fst (onFrame now f (h, mem))) = mh_source h \<and> mh_sourceGen (fst (onFrame now f (h, mem))) = mh_sourceGen h"
    unfolding onFrame_def Let_def prod.case
    by (cases f; cases "mh_ring h") (simp_all add: fw s split: option.split)
  then show ?thesis by (simp add: o')
qed

lemma event_reads:
  assumes r: "reads_ok content urls p" and E: "honest_env content E"
    and c: "mp_channel p \<longrightarrow> urls (mp_sourceGen p) = mp_source p"
    and e: "onEvent E created shared m (p, mem) = (q, mem1)" and k: "mp_sock p"
  shows "reads_after content urls p q"
proof -
  have same: "reads_after content urls p q" if "player_core q = player_core p" for q
    using r c that reads_core [OF that] by (intro reads_after_same) (simp_all add: player_core_def)
  have conn: "conn_ok p" "mp_channel p" using r k by (auto simp: reads_ok_def conn_ok_def)
  show ?thesis
  proof (cases m)
    case MsgHello
    have "reads_ok content urls (onHello p)"
      using r k by (auto simp: reads_ok_def onHello_def cmds_def conn_ok_def)
    then show ?thesis using MsgHello e c by (intro reads_after_same) (auto simp: onHello_def)
  next
    case (MsgRead gen i off len)
    have "reads_ok content urls (with_feed E (feed_request (qe_read E (mp_source p)) i off len) p)
      \<and> mp_sourceGen (with_feed E (feed_request (qe_read E (mp_source p)) i off len) p) = mp_sourceGen p"
    proof (rule reads_with_feed [OF r])
      fix fd assume fd: "mp_feed p = Some fd"
      let ?f = "content (urls (mp_sourceGen p))"
      have inv: "feed_inv ?f fd" "mf_signals fd = []" using r fd by (simp_all add: reads_ok_def)
      have "honest_read ?f (qe_read E (mp_source p))" using E c conn(2) by (simp add: honest_env_def)
      then have "feed_inv ?f (feed_event (qe_read E (mp_source p)) (EvRequest i off len) fd)"
        "ready_ok ?f (mf_signals (feed_event (qe_read E (mp_source p)) (EvRequest i off len) fd))"
        using event_inv [OF inv(1)] ready_ok_event inv(2) by (simp_all del: feed_event.simps add: ready_ok_def)
      then show "feed_inv ?f (feed_request (qe_read E (mp_source p)) i off len fd)
        \<and> ready_ok ?f (mf_signals (feed_request (qe_read E (mp_source p)) i off len fd))" by simp
    qed
    moreover have "q = (if gen = mp_sourceGen p then with_feed E (feed_request (qe_read E (mp_source p)) i off len) p else p)"
      using MsgRead e by simp
    ultimately show ?thesis using c r
      by (cases "gen = mp_sourceGen p") (simp_all add: reads_after_same)
  next
    case (MsgNeedRing n)
    have "reads_ok content urls (send (CmdRing g a g) (p\<lparr>mp_ring := Some g, mp_published := True, mp_slotBytes := a,
        mp_generation := g\<rparr>))" for g a
      using r conn by (intro reads_send) (simp_all add: reads_ok_def conn_ok_def cmds_def)
    then show ?thesis using MsgNeedRing e r c
      by (intro reads_after_same) (auto simp: shareRing_def Let_def split: if_splits)
  next
    case (MsgFrame g hdr)
    let ?p1 = "send (CmdRelease g (fh_slot hdr)) p"
    have r1: "reads_ok content urls ?p1" using r by (simp add: reads_send)
    have f: "reads_ok content urls (?p1\<lparr>mp_sawFrame := True\<rparr>)" "reads_ok content urls (?p1\<lparr>mp_loggedBadFrame := True\<rparr>)"
      using r1 by (simp_all add: reads_ok_def conn_ok_def cmds_def)
    have "q = showFrame E mem g hdr p" using MsgFrame e by auto
    then show ?thesis using r1 f c
      by (intro reads_after_same) (auto simp: showFrame_def Let_def split: option.split Unpacked.split)
  next
    case (MsgSub t)
    then have "player_core q = player_core p" using e by (auto simp: player_core_def p_emit_def split: prod.splits if_splits)
    then show ?thesis by (rule same)
  next
    case (MsgRingReady g)
    then have "player_core q = player_core p" using e by (auto simp: player_core_def split: if_splits)
    then show ?thesis by (rule same)
  qed (use e same in auto)
qed


section \<open>Every step keeps it\<close>

lemma read_host:
  assumes "read_inv content s" "sy_host s = Some h"
    "\<And>urls gen. source_ok content urls gen h \<Longrightarrow> source_ok content urls gen k"
  shows "read_inv content (s\<lparr>sy_host := Some k, sy_shm := mem\<rparr>)"
  using assms by (auto simp: read_inv_def hostd_def)

lemma source_child:
  "source_ok content urls gen (send_asked h) = source_ok content urls gen h"
  "source_ok content urls gen (report m h) = source_ok content urls gen h"
  "source_ok content urls gen (h\<lparr>mh_out := ms\<rparr>) = source_ok content urls gen h"
  by (auto simp: source_ok_def send_asked_def report_def sendEvent_def sendState_def sendTracks_def
      split: list.split ChildMsg.split)

lemma read_step_keeps:
  assumes i: "read_inv content s" and E: "honest_env content E" and hon: "honest_turn content s e"
  shows "read_inv content (media_step E e s)"
proof -
  let ?p = "sy_player s"
  obtain urls where u: "reads_ok content urls ?p" "mp_channel ?p \<longrightarrow> urls (mp_sourceGen ?p) = mp_source ?p"
    "source_ok content urls (mp_sourceGen ?p) (hostd s)" and h: "sy_host s \<noteq> None \<longleftrightarrow> mp_sock ?p"
    using i unfolding read_inv_def by blast
  note turned = read_turn [OF u(1,3) h]
  have same: "reads_after content urls ?p q" if "player_core q = player_core ?p" for q
    using u that reads_core [OF that] by (intro reads_after_same) (simp_all add: player_core_def)
  have small: "reads_after content urls ?p (send c ?p)" if "\<And>urls gen. cmd_true content urls gen c" for c
    using after_send [OF same] that by blast
  note hosted = read_host [OF i]
  have child: "read_inv content (s\<lparr>sy_host := Some k\<rparr>)" if "sy_host s = Some hh"
    "\<And>urls gen. source_ok content urls gen hh \<Longrightarrow> source_ok content urls gen k" for hh k
    using hosted [OF that(1), of k "sy_shm s"] that(2) by simp
  show ?thesis
  proof (cases e)
    case (UiSetSource L x)
    then show ?thesis using turned reads_setSource [OF u(1) E u(2)] by simp
  next
    case (UiPlay L)
    then show ?thesis using turned reads_play [OF u(1) E u(2)] by simp
  next
    case (UiSetOutput b)
    then show ?thesis using turned same by (simp add: player_core_def)
  next
    case (UiTick now)
    then show ?thesis using turned same by (simp add: player_core_def)
  next
    case (UiRestarts L)
    show ?thesis
    proof (cases "mp_restarts ?p")
      case (Cons pos ps)
      have "reads_after content urls (?p\<lparr>mp_restarts := ps\<rparr>) q \<Longrightarrow> reads_after content urls ?p q" for q
        by (simp add: reads_after_def)
      then show ?thesis using UiRestarts Cons turned reads_restart [OF E] by simp
    qed (use UiRestarts i in simp)
  next
    case (UiFeed fe)
    show ?thesis
    proof (cases "\<exists>a b c. fe = EvRequest a b c")
      case True
      then show ?thesis using UiFeed turned same [of ?p] by (auto simp: feed_turn_def)
    next
      case False
      let ?g = "feed_event (qe_read E (mp_source ?p)) fe"
      have "reads_ok content urls (with_feed E ?g ?p) \<and> mp_sourceGen (with_feed E ?g ?p) = mp_sourceGen ?p"
      proof (rule reads_with_feed [OF u(1)])
        fix fd assume fd: "mp_feed ?p = Some fd"
        then have "mp_channel ?p" using u(1) by (auto simp: reads_ok_def conn_ok_def)
        then have src: "urls (mp_sourceGen ?p) = mp_source ?p" using u(2) by simp
        have "feed_inv (content (mp_source ?p)) fd" "mf_signals fd = []"
          using u(1) fd src by (simp_all add: reads_ok_def)
        moreover have "honest_event (content (mp_source ?p)) fd fe" using hon fd UiFeed by (simp add: honest_turn_def)
        moreover have "honest_read (content (mp_source ?p)) (qe_read E (mp_source ?p))" using E by (simp add: honest_env_def)
        ultimately show "feed_inv (content (urls (mp_sourceGen ?p))) (?g fd)
          \<and> ready_ok (content (urls (mp_sourceGen ?p))) (mf_signals (?g fd))"
          unfolding src using event_inv ready_ok_event by (simp add: ready_ok_def)
      qed
      then have "reads_after content urls ?p (with_feed E ?g ?p)" using u(2) by (intro reads_after_same) simp_all
      moreover have "feed_turn E fe ?p = with_feed E ?g ?p" using False by (cases fe) (simp_all add: feed_turn_def)
      ultimately show ?thesis using turned UiFeed by simp
    qed
  next
    case (UiReceives created shared)
    show ?thesis
    proof (cases "\<exists>h m ms. sy_host s = Some h \<and> mh_out h = m # ms")
      case True
      then obtain hh m ms where hh: "sy_host s = Some hh" "mh_out hh = m # ms" by blast
      obtain q mem where e: "onEvent E created shared m (?p, sy_shm s) = (q, mem)" by force
      let ?s = "s\<lparr>sy_host := Some (hh\<lparr>mh_out := ms\<rparr>), sy_shm := mem\<rparr>"
      have "reads_after content urls ?p q" using event_reads [OF u(1) E u(2) e] h hh by simp
      moreover have "source_ok content urls (mp_sourceGen ?p) (hostd ?s)"
        using u(3) hh by (simp add: hostd_def source_child)
      ultimately have "read_inv content (turn q ?s)"
        using u(1) h hh by (intro read_turn) simp_all
      then show ?thesis using UiReceives hh e by (simp add: Let_def)
    next
      case False
      then show ?thesis using UiReceives i by (auto split: option.split list.split)
    qed
  next
    case (ChildReceives mapped)
    show ?thesis
    proof (cases "\<exists>h c cs. sy_host s = Some h \<and> mp_out ?p = c # cs")
      case True
      then obtain hh c cs where hh: "sy_host s = Some hh" "mp_out ?p = c # cs" by blast
      have cm: "cmds ?p = c # cmds (?p\<lparr>mp_out := cs\<rparr>)" using hh by (simp add: cmds_def)
      have "mp_ready ?p" using u(1) hh(2) by (auto simp: reads_ok_def conn_ok_def split: if_splits)
      then have r: "reads_ok content urls (?p\<lparr>mp_out := cs\<rparr>)" "cmd_true content urls (mp_sourceGen ?p) c"
        using u(1) cm by (simp_all add: reads_ok_def conn_ok_def)
      have "source_ok content urls (mp_sourceGen ?p) (dispatch mapped (sy_shm s) c hh)"
        using source_dispatch [OF _ r(2)] u(3) hh by (simp add: hostd_def)
      then have "read_inv content (s\<lparr>sy_player := ?p\<lparr>mp_out := cs\<rparr>, sy_host := Some (dispatch mapped (sy_shm s) c hh)\<rparr>)"
        unfolding read_inv_def using r(1) u(2) h hh(1) by (intro conjI exI [of _ urls]) (simp_all add: hostd_def)
      then show ?thesis using ChildReceives hh by simp
    next
      case False
      then show ?thesis using ChildReceives i by (auto split: option.split list.split)
    qed
  next
    case ChildConnects
    have r: "reads_ok content urls (adopt ?p)" if "mp_channel ?p"
      using u(1) that by (auto simp: adopt_def reads_ok_def conn_ok_def cmds_def)
    have "read_inv content (s\<lparr>sy_player := adopt ?p, sy_host := Some mkMediaHost\<rparr>)" if "mp_channel ?p"
      unfolding read_inv_def using r [OF that] u(2)
      by (intro conjI exI [of _ urls]) (simp_all add: hostd_def adopt_def)
    then show ?thesis using ChildConnects i by simp
  next
    case ChildLost
    then show ?thesis using turned reads_asks(6) [OF u(1,2)] i by simp
  next
    case (ChildDecodes f)
    show ?thesis
    proof (cases "sy_host s")
      case (Some hh)
      obtain h1 mem where o': "onFrame (mp_now ?p) f (hh, sy_shm s) = (h1, mem)" by force
      have "source_ok content urls gen h1" if "source_ok content urls gen hh" for urls gen
        using onFrame_source [OF o'] that source_ok_same [of h1 hh] by simp
      then show ?thesis using hosted [OF Some] ChildDecodes Some o' by simp
    qed (use ChildDecodes i in simp)
  next
    case (ChildReads pos n)
    then show ?thesis
      using i child [OF _ source_read] by (cases "sy_host s") simp_all
  next
    case ChildSendsRead
    then show ?thesis using i child source_child(1) by (cases "sy_host s") simp_all
  next
    case (ChildReports m)
    then show ?thesis using i child source_child(2) by (cases "sy_host s") simp_all
  qed (use turned reads_asks [OF u(1,2)] small in
      \<open>simp_all add: setPlaybackRate_def setActiveAudioTrack_def setActiveSubtitleTrack_def\<close>)
qed

lemma read_run:
  "read_inv content s \<Longrightarrow> honest_env content E \<Longrightarrow> honest_media content E es s \<Longrightarrow> read_inv content (media_run E es s)"
proof (induction es arbitrary: s)
  case (Cons e es)
  then show ?case using read_step_keeps [of content s E e] by (simp add: media_run_def)
qed (simp add: media_run_def)

lemma read_fresh: "read_inv content fresh_media"
  by (simp add: read_inv_def fresh_media_def mkPlayer_def reads_ok_def conn_ok_def cmds_def hostd_def)

text \<open>
  C5: What the decoder reads is the film. Through any interleaving of the user, the network, both
  processes and the socket, with local files and a stream server that give out the bytes of the file
  behind each URL: every read of the child that returns bytes returns bytes of one of those files at
  the very offset that was read, at most as many as were asked for and at least one; and when the
  child's source is the one the player has open now, it is that file.
\<close>

theorem reads_are_the_film:
  assumes "honest_env content E" "honest_media content E es fresh_media"
    "sy_host (media_run E es fresh_media) = Some h" "fst (host_read (int pos) n h) = Some (ReadBytes b)"
  shows "\<exists>u. is_at (content u) (int pos) b \<and> b \<noteq> [] \<and> int (length b) \<le> n
     \<and> (mh_sourceGen h = mp_sourceGen (sy_player (media_run E es fresh_media))
          \<longrightarrow> u = mp_source (sy_player (media_run E es fresh_media)))"
proof -
  let ?s = "media_run E es fresh_media"
  have i: "read_inv content ?s" using read_run [OF read_fresh assms(1,2)] .
  then obtain urls where u: "reads_ok content urls (sy_player ?s)"
    "mp_channel (sy_player ?s) \<longrightarrow> urls (mp_sourceGen (sy_player ?s)) = mp_source (sy_player ?s)"
    "source_ok content urls (mp_sourceGen (sy_player ?s)) h" and k: "mp_sock (sy_player ?s)"
    using assms(3) by (auto simp: read_inv_def hostd_def)
  then have ch: "mp_channel (sy_player ?s)" by (auto simp: reads_ok_def conn_ok_def)
  obtain src where src: "mh_source h = Some src" "fst (read_step (int pos) n src) = ReadBytes b"
    using assms(4) by (auto simp: host_read_def Let_def split: option.splits prod.splits)
  then have "src_inv (content (urls (mh_sourceGen h))) src" using u(3) by (simp add: source_ok_def)
  from read_step_bytes [OF this src(2)] show ?thesis
    using u(2) ch by (intro exI [of _ "urls (mh_sourceGen h)"]) auto
qed


section \<open>A run\<close>

definition sample_env :: QtEnv where
  "sample_env = \<lparr>qe_feedSource = (\<lambda>_. LocalFile (Some 3)), qe_fileName = (\<lambda>u. u), qe_lastLanguage = 300,
     qe_toHtml = (\<lambda>t. (t, 2)), qe_format = (\<lambda>_. Format_Y8),
     qe_alloc = (\<lambda>_ _ _. Some [\<lparr>vp_stride = 3, vp_bits = replicate 6 0\<rparr>]), qe_read = (\<lambda>_ off n. if 0 \<le> off then slice [7, 8, 9] off n else [])\<rparr>"

definition sample_child :: Launch where
  "sample_child = \<lparr>la_listens = True, la_starts = True\<rparr>"

text \<open>A file is opened, the child connects and is told, reads, asks, and gets the answer.\<close>

definition sample_play :: "SysEvent list" where
  "sample_play = [UiSetSource sample_child ''v'', ChildConnects, UiReceives True True,
     ChildReceives True, ChildReceives True, ChildReceives True, ChildReads 1 2, ChildSendsRead,
     UiReceives True True, ChildReceives True]"


lemma mkPlayer_sel:
  "mp_source mkPlayer = []" "mp_noPicture mkPlayer = False" "mp_channel mkPlayer = False"
  "mp_sock mkPlayer = False" "mp_ready mkPlayer = False" "mp_pending mkPlayer = []" "mp_out mkPlayer = []"
  "mp_feed mkPlayer = None" "mp_sourceGen mkPlayer = 0" "mp_opened mkPlayer = False"
  "mp_wantState mkPlayer = 0" "mp_pendingSeek mkPlayer = -1" "mp_signals mkPlayer = []"
  "mp_subHtml mkPlayer = []" "mp_now mkPlayer = 0" "mp_volume mkPlayer = 1" "mp_muted mkPlayer = False"
  "mp_softwareDecode mkPlayer = False" "mp_generation mkPlayer = 0" "mp_ring mkPlayer = None"
  "mp_sinkFrames mkPlayer = []" "mp_slotBytes mkPlayer = 0" "mp_output mkPlayer = False"
  "mp_state mkPlayer = new_state"
  by (simp_all add: mkPlayer_def)

lemmas play_evals = mkPlayer_sel setSource_def sample_env_def sample_child_def ensureChild_def send_def
  startFeed_def with_feed_def p_emit_def logPlaybackSummary_def feed_start_def mkMediaFeed_def
  on_feed_ready_def Let_def fd_emit_def PlayingState_def PausedState_def turn_def adopt_def onHello_def
  mkMediaHost_def kSlots_def call_player_def openSource_def closeSource_def mkRemoteSource_def
  host_read_def read_step_def kReadAhead_def to_int32_def pendingCovers_def send_asked_def sendEvent_def
  feed_request_def kMaxRequest_def kMaxPending_def slice_def deliver_def find_id_def on_source_def
  kCacheBytes_def

theorem reads_are_the_film_witness:
  "\<exists>h u. sy_host (media_run sample_env sample_play fresh_media) = Some h
     \<and> fst (host_read 1 5 h) = Some (ReadBytes [8, 9]) \<and> is_at ((\<lambda>_. [7, 8, 9]) u) 1 [8, 9]"
proof -
  let ?s = "media_run sample_env sample_play fresh_media"
  have "map_option (\<lambda>h. fst (host_read 1 5 h)) (sy_host ?s) = Some (Some (ReadBytes [8, 9]))"
    unfolding media_run_def sample_play_def fresh_media_def by (simp add: play_evals)
  then obtain h where h: "sy_host ?s = Some h" "fst (host_read (int 1) 5 h) = Some (ReadBytes [8, 9])" by auto
  have E: "honest_env (\<lambda>_. [7, 8, 9]) sample_env"
    by (auto simp: honest_env_def sample_env_def honest_read_def is_at_def slice_def min_def)
  have "honest_media (\<lambda>_. [7, 8, 9]) sample_env sample_play fresh_media"
    unfolding sample_play_def by (simp add: honest_turn_def del: media_step.simps)
  from reads_are_the_film [OF E this h] h show ?thesis by auto
qed

end
