(* ===== verification/MediaIntent.thy ===== *)
theory MediaIntent
  imports MediaReads
begin

text \<open>
  What the user asked last is what the child is told last. The size of a stream is known only after a
  while, and a decoder that died is started again: \<open>play\<close>, \<open>pause\<close> and \<open>stop\<close> may come at any time, and the
  player repeats the last of them when the source is opened.
\<close>

section \<open>Play, pause and stop on their way\<close>

fun cmd_state :: "ChildCmd \<Rightarrow> int \<Rightarrow> int" where
  "cmd_state (CmdOpen g n hint) t = StoppedState"
| "cmd_state CmdPlay t = PlayingState"
| "cmd_state CmdPause t = PausedState"
| "cmd_state CmdStop t = StoppedState"
| "cmd_state _ t = t"

text \<open>Setting a source stops a \<open>QMediaPlayer\<close>.\<close>

fun call_state :: "PlayerCall \<Rightarrow> int \<Rightarrow> int" where
  "call_state (PcSetSourceDevice hint) t = StoppedState"
| "call_state PcClearSource t = StoppedState"
| "call_state PcPlay t = PlayingState"
| "call_state PcPause t = PausedState"
| "call_state PcStop t = StoppedState"
| "call_state _ t = t"

definition asked_of :: "MediaHost \<Rightarrow> int" where
  "asked_of h = fold call_state (mh_player h) StoppedState"

text \<open>\<open>t\<close> is what the child was asked so far.\<close>

definition intent_ok :: "int \<Rightarrow> Player \<Rightarrow> bool" where
  "intent_ok t p \<longleftrightarrow>
     conn_ok p \<and> mp_wantState p \<in> {StoppedState, PlayingState, PausedState}
     \<and> (mp_opened p \<longrightarrow> fold cmd_state (cmds p) t = mp_wantState p)
     \<and> list_all (\<lambda>c. case c of CmdOpen g n hint \<Rightarrow> 0 < n | _ \<Rightarrow> c \<noteq> CmdClose) (cmds p)
     \<and> (\<forall>fd. mp_feed p = Some fd \<longrightarrow> mf_signals fd = [])"

definition keeps_asking :: "ChildCmd \<Rightarrow> bool" where
  "keeps_asking c \<longleftrightarrow> cmd_state c = id \<and> (case c of CmdOpen g n hint \<Rightarrow> False | _ \<Rightarrow> c \<noteq> CmdClose)"

lemma keeps_asking_simps [simp]:
  "keeps_asking (CmdData g i off b)" "keeps_asking (CmdDataError g i)" "keeps_asking (CmdRing g n t)"
  "keeps_asking (CmdSeek a)" "keeps_asking (CmdRate r)" "keeps_asking (CmdVolume r)" "keeps_asking (CmdMuted m)"
  "keeps_asking (CmdAudioTrack a)" "keeps_asking (CmdSubTrack a)" "keeps_asking (CmdRelease g k)"
  by (simp_all add: keeps_asking_def fun_eq_iff)

lemma intent_core: "player_core q = player_core p \<Longrightarrow> intent_ok t q = intent_ok t p"
  using conn_ok_core [of q p] cmds_core [of q p] by (simp add: intent_ok_def player_core_def)

lemmas intent_applied [simp] = intent_core [OF core_applyState] intent_core [OF core_applyTracks]
  intent_core [OF core_emit] intent_core [OF core_failWith]

lemma intent_send: "intent_ok t p \<Longrightarrow> keeps_asking c \<Longrightarrow> intent_ok t (send c p)"
proof -
  assume a: "intent_ok t p" "keeps_asking c"
  then have c: "conn_ok p" by (simp add: intent_ok_def)
  then show ?thesis
    using a conn_ok_send [OF c] cmds_send [OF c, of c]
    by (auto simp: intent_ok_def keeps_asking_def split: ChildCmd.splits)
qed

lemma intent_other [simp]:
  "intent_ok t (p\<lparr>mp_pendingSeek := a\<rparr>) = intent_ok t p" "intent_ok t (p\<lparr>mp_source := u\<rparr>) = intent_ok t p"
  "intent_ok t (set_frame x p) = intent_ok t p" "intent_ok t (p\<lparr>mp_sawFrame := b\<rparr>) = intent_ok t p"
  "intent_ok t (p\<lparr>mp_loggedBadFrame := b\<rparr>) = intent_ok t p"
  by (simp_all add: intent_ok_def conn_ok_def cmds_def set_frame_def)

text \<open>The user asks.\<close>

lemma intent_ask:
  assumes "intent_ok t p" "w \<in> {StoppedState, PlayingState, PausedState}" "\<And>x. cmd_state c x = w"
    "case c of CmdOpen g n hint \<Rightarrow> False | _ \<Rightarrow> c \<noteq> CmdClose"
  shows "intent_ok t (if mp_opened p then send c (p\<lparr>mp_wantState := w\<rparr>) else p\<lparr>mp_wantState := w\<rparr>)"
proof -
  let ?p = "p\<lparr>mp_wantState := w\<rparr>"
  have c: "conn_ok ?p" "cmds ?p = cmds p" using assms(1) by (simp_all add: intent_ok_def conn_ok_def cmds_def)
  have ch: "mp_opened p \<longrightarrow> mp_channel p" using assms(1) by (auto simp: intent_ok_def conn_ok_def)
  show ?thesis
    using assms c ch conn_ok_send [OF c(1), of c] cmds_send [OF c(1), of c]
    by (auto simp: intent_ok_def split: ChildCmd.splits)
qed

lemma intent_ready:
  assumes i: "intent_ok t p" and n: "0 < n" and ch: "mp_channel p"
  shows "intent_ok t (on_feed_ready E n p) \<and> mp_channel (on_feed_ready E n p)"
proof -
  let ?p0 = "send (CmdOpen (mp_sourceGen p) n (qe_fileName E (mp_source p))) p"
  let ?p1 = "?p0\<lparr>mp_opened := True\<rparr>"
  define p2 where "p2 = (if 0 \<le> mp_pendingSeek ?p1
      then send (CmdSeek (mp_pendingSeek ?p1)) (?p1\<lparr>mp_pendingSeek := -1\<rparr>) else ?p1)"
  have c: "conn_ok p" using i by (simp add: intent_ok_def)
  have "conn_ok (q\<lparr>mp_opened := b\<rparr>) = conn_ok q" if "mp_channel q" for q b
    using that by (cases "mp_ready q") (simp_all add: conn_ok_def)
  then have c1: "conn_ok ?p1" using conn_ok_send [OF c] ch by simp
  have k1: "cmds ?p1 = cmds p @ [CmdOpen (mp_sourceGen p) n (qe_fileName E (mp_source p))]"
    using cmds_send [OF c] ch by (simp add: cmds_def)
  let ?q = "?p1\<lparr>mp_pendingSeek := -1\<rparr>"
  have "conn_ok (q\<lparr>mp_pendingSeek := a\<rparr>) = conn_ok q" "cmds (q\<lparr>mp_pendingSeek := a\<rparr>) = cmds q" for q a
    by (simp_all add: conn_ok_def cmds_def)
  then have cq: "conn_ok ?q" "cmds ?q = cmds ?p1" using c1 by simp_all
  have p2: "conn_ok p2" "mp_channel p2" "mp_opened p2" "mp_wantState p2 = mp_wantState p" "mp_feed p2 = mp_feed p"
    "fold cmd_state (cmds p2) t = StoppedState"
    "list_all (\<lambda>c. case c of CmdOpen g n hint \<Rightarrow> 0 < n | _ \<Rightarrow> c \<noteq> CmdClose) (cmds p2)"
    using i n ch c1 k1 cq conn_ok_send [OF cq(1)] cmds_send [OF cq(1)]
    by (simp_all add: p2_def intent_ok_def)
  have e: "on_feed_ready E n p = (if mp_wantState p2 = PlayingState then send CmdPlay p2
      else if mp_wantState p2 = PausedState then send CmdPause p2 else p2)"
    by (simp add: on_feed_ready_def p2_def Let_def)
  show ?thesis
    using i p2 conn_ok_send [OF p2(1)] cmds_send [OF p2(1)]
    unfolding e by (auto simp: intent_ok_def)
qed

lemma intent_slot:
  assumes "intent_ok t p" "mp_channel p" "\<And>n. g = FeedReady n \<Longrightarrow> 0 < n"
  shows "intent_ok t (feed_slot E g p) \<and> mp_channel (feed_slot E g p)"
  using assms intent_ready [of t p] by (cases g) (simp_all add: intent_send)

lemma intent_slots:
  "intent_ok t p \<Longrightarrow> mp_channel p \<Longrightarrow> ready_all (\<lambda>n. 0 < n) gs \<Longrightarrow> intent_ok t (fold (feed_slot E) gs p)"
proof (induction gs arbitrary: p)
  case (Cons g gs)
  have "ready_all (\<lambda>n. 0 < n) gs" "\<And>n. g = FeedReady n \<Longrightarrow> 0 < n" using Cons.prems(3) by (auto simp: ready_all_def)
  then show ?case using Cons intent_slot [of t p g E] by simp
qed simp

lemma intent_with_feed:
  assumes i: "intent_ok t p"
    and g: "\<And>fd. mp_feed p = Some fd \<Longrightarrow> mf_signals fd = [] \<Longrightarrow> ready_all (\<lambda>n. 0 < n) (mf_signals (g fd))"
  shows "intent_ok t (with_feed E g p)"
proof (cases "mp_feed p")
  case (Some fd)
  let ?q = "p\<lparr>mp_feed := Some ((g fd)\<lparr>mf_signals := []\<rparr>)\<rparr>"
  have ch: "mp_channel p" "mf_signals fd = []" using i Some by (auto simp: intent_ok_def conn_ok_def)
  have "intent_ok t ?q" using i ch by (simp add: intent_ok_def conn_ok_def cmds_def)
  then show ?thesis
    using intent_slots [of t ?q "mf_signals (g fd)" E] ch g [OF Some] by (simp add: with_feed_def Some)
qed (use i in \<open>simp add: with_feed_def\<close>)

definition no_empty_files :: "QtEnv \<Rightarrow> bool" where
  "no_empty_files E \<longleftrightarrow> (\<forall>u n. qe_feedSource E u = LocalFile (Some n) \<longrightarrow> 0 < n)"

lemma intent_start:
  assumes i: "intent_ok t p" and ch: "mp_channel p" and E: "no_empty_files E"
  shows "intent_ok t (startFeed E p)"
proof -
  let ?fd = "mkMediaFeed (qe_feedSource E (mp_source p))"
  let ?q = "p\<lparr>mp_sourceGen := mp_sourceGen p + 1, mp_opened := False, mp_feed := Some ?fd\<rparr>"
  define r where "r = (logPlaybackSummary
     (let p1 = p\<lparr>mp_sourceGen := mp_sourceGen p + 1, mp_opened := False\<rparr> in
      if mp_subHtml p1 \<noteq> [] then p_emit True SubtitleChanged (p1\<lparr>mp_subHtml := []\<rparr>) else p1))
      \<lparr>mp_soundFrom := -1, mp_soundClock := None, mp_loggedBadFrame := False,
       mp_openClock := Some (mp_now p), mp_feed := Some ?fd\<rparr>"
  have player_core: "player_core r = player_core ?q" by (simp add: r_def player_core_def p_emit_def logPlaybackSummary_def Let_def)
  have "intent_ok t ?q" using i ch by (simp add: intent_ok_def conn_ok_def cmds_def mkMediaFeed_def)
  then have "intent_ok t r" using intent_core [OF player_core] by simp
  moreover have "mp_feed r = Some ?fd" using player_core by (simp add: player_core_def)
  moreover have "ready_all (\<lambda>n. 0 < n) (mf_signals (feed_start ?fd))"
    using E by (auto simp: feed_start_def mkMediaFeed_def fd_emit_def no_empty_files_def split: FeedSource.split option.split)
  ultimately have "intent_ok t (with_feed E feed_start r)" by (intro intent_with_feed) simp_all
  moreover have "startFeed E p = with_feed E feed_start r" by (simp add: startFeed_def r_def Let_def)
  ultimately show ?thesis by simp
qed

section \<open>The operations\<close>

text \<open>After an operation the intent holds: with the same child, or, when it was dropped, with a fresh one.\<close>

definition intent_after :: "int \<Rightarrow> Player \<Rightarrow> Player \<Rightarrow> bool" where
  "intent_after t p q \<longleftrightarrow> (if mp_sock q then mp_sock p \<and> intent_ok t q else intent_ok StoppedState q)"

lemma intent_teardown: "intent_ok t p \<Longrightarrow> intent_ok u (teardown p)"
  by (simp add: intent_ok_def teardown_def conn_ok_def cmds_def logPlaybackSummary_def)

lemma intent_ensure:
  assumes i: "intent_ok t p" and t: "\<not> mp_sock p \<longrightarrow> t = StoppedState" and e: "ensureChild L p = (ok, q)"
  shows "(mp_sock q \<longrightarrow> mp_sock p) \<and> intent_ok (if mp_sock q then t else StoppedState) q \<and> (ok \<longrightarrow> mp_channel q)
     \<and> mp_wantState q = mp_wantState p"
proof -
  let ?p1 = "p\<lparr>mp_channel := True, mp_proc := Some (mp_softwareDecode p)\<rparr>"
  have fresh: "intent_ok t ?p1" "\<not> mp_sock p" if "\<not> mp_channel p"
    using i that by (auto simp: intent_ok_def conn_ok_def cmds_def)
  then have fresh0: "intent_ok StoppedState ?p1" if "\<not> mp_channel p" using t that by simp
  have i0: "intent_ok (if mp_sock p then t else StoppedState) p" using i t by (cases "mp_sock p") simp_all
  have fw: "mp_wantState (failWith e why r) = mp_wantState r" for e why r
    using core_failWith [of e why r] by (simp add: player_core_def)
  have td: "mp_wantState (teardown r) = mp_wantState r" "mp_sock (teardown r) = False" for r
    by (simp_all add: teardown_def logPlaybackSummary_def)
  have tear: "intent_ok u (teardown ?p1)" if "\<not> mp_channel p" for u using fresh [OF that] intent_teardown by blast
  show ?thesis
    using e i0 t unfolding ensureChild_def Let_def
    by (auto simp: fw td tear intent_send fresh fresh0 split: if_splits)
qed

lemma startFeed_want [simp]: "mp_wantState (startFeed E p) = mp_wantState p"
proof -
  have "mp_wantState (fold (feed_slot E) gs q) = mp_wantState q" for gs q
  proof (induction gs arbitrary: q)
    case (Cons g gs)
    have "mp_wantState (feed_slot E g q) = mp_wantState q"
      using core_failWith by (cases g) (simp_all add: on_feed_ready_def Let_def player_core_def)
    then show ?case using Cons by simp
  qed simp
  then show ?thesis
    by (simp add: startFeed_def with_feed_def Let_def p_emit_def logPlaybackSummary_def split: option.split)
qed

lemma intent_setSource:
  assumes i: "intent_ok t p" and t: "\<not> mp_sock p \<longrightarrow> t = StoppedState" and E: "no_empty_files E"
  shows "intent_after t p (setSource E L u p)"
proof -
  let ?p1 = "(p_emit True SourceChanged (p\<lparr>mp_source := u\<rparr>))\<lparr>mp_softwareDecode := False\<rparr>"
  define p2 where "p2 = (if mp_noPicture ?p1 then p_emit True NoPictureChanged (?p1\<lparr>mp_noPicture := False\<rparr>) else ?p1)"
  have player_core: "player_core p2 = player_core (p\<lparr>mp_source := u\<rparr>)" by (simp add: p2_def player_core_def p_emit_def)
  have p2: "intent_ok t p2" "mp_sock p2 = mp_sock p" using intent_core [OF player_core] i player_core by (simp_all add: player_core_def)
  obtain ok p3 where e: "ensureChild L p2 = (ok, p3)" by force
  note p3 = intent_ensure [OF p2(1) _ e]
  have eq: "setSource E L u p = (if u = mp_source p then p
      else if u = [] then set_frame None (applyTracks E new_tracks (applyState new_state (teardown p2)))
      else (let (ok, p3) = ensureChild L p2 in if ok then startFeed E p3 else p3))"
    unfolding setSource_def p2_def Let_def by (rule refl)
  show ?thesis
    unfolding eq using i t p2 p3 intent_teardown [OF p2(1)] intent_start [OF _ _ E]
    by (auto simp: intent_after_def e)
qed

lemma intent_play:
  assumes i: "intent_ok t p" and t: "\<not> mp_sock p \<longrightarrow> t = StoppedState" and E: "no_empty_files E"
  shows "intent_after t p (player_play E L p)"
proof (cases "mp_source p = [] \<or> mp_channel p")
  case True
  have "intent_ok t (if mp_opened p then send CmdPlay (p\<lparr>mp_wantState := PlayingState\<rparr>) else p\<lparr>mp_wantState := PlayingState\<rparr>)"
    by (rule intent_ask [OF i]) simp_all
  then show ?thesis using True i t by (auto simp: player_play_def intent_after_def split: if_splits)
next
  case False
  let ?p1 = "p\<lparr>mp_wantState := PlayingState\<rparr>"
  have "\<not> mp_opened p" using i False by (auto simp: intent_ok_def conn_ok_def)
  then have p1: "intent_ok t ?p1" using intent_ask [OF i, of PlayingState CmdPlay] by simp
  obtain ok q where e: "ensureChild L ?p1 = (ok, q)" by force
  define r where "r = (if ok then startFeed E q else q)"
  define t' where "t' = (if mp_sock q then t else StoppedState)"
  have q: "mp_sock q \<longrightarrow> mp_sock p" "intent_ok t' q" "ok \<longrightarrow> mp_channel q" "mp_wantState q = PlayingState"
    using intent_ensure [OF p1 _ e] t by (simp_all add: t'_def)
  have r: "intent_ok t' r" "mp_sock r = mp_sock q" "mp_wantState r = PlayingState"
    using q intent_start [OF q(2) _ E] by (cases ok; simp add: r_def)+
  have eq: "r\<lparr>mp_wantState := PlayingState\<rparr> = r" using r(3) by (cases r) simp
  have "intent_ok t' (if mp_opened r then send CmdPlay (r\<lparr>mp_wantState := PlayingState\<rparr>) else r\<lparr>mp_wantState := PlayingState\<rparr>)"
    by (rule intent_ask [OF r(1)]) simp_all
  then have "intent_ok t' (if mp_opened r then send CmdPlay r else r)" unfolding eq .
  moreover have "player_play E L p = (if ok \<and> mp_opened r then send CmdPlay r else r)"
    using False by (simp add: player_play_def Let_def e r_def)
  ultimately have "intent_ok t' (player_play E L p)" "mp_sock (player_play E L p) = mp_sock q" using r by (auto split: if_splits)
  then show ?thesis using q(1) by (simp add: intent_after_def t'_def split: if_splits)
qed

lemma intent_restart:
  assumes i: "intent_ok t p" and E: "no_empty_files E"
  shows "intent_after t p (restart_in_software E L pos p)"
proof -
  obtain ok q where e: "ensureChild L (teardown p) = (ok, q)" by force
  have q: "\<not> mp_sock q" "intent_ok StoppedState q" "ok \<longrightarrow> mp_channel q" "mp_wantState q = mp_wantState p"
    using intent_ensure [OF intent_teardown [OF i] _ e, of StoppedState] by (auto simp: teardown_def logPlaybackSummary_def)
  let ?r = "q\<lparr>mp_pendingSeek := pos, mp_wantState := mp_wantState p\<rparr>"
  have "?r = q\<lparr>mp_pendingSeek := pos\<rparr>" using q(4) by (cases q) simp
  then have "intent_ok StoppedState ?r" using q(2) by simp
  then have "intent_ok StoppedState (startFeed E ?r)" if ok using q(3) that by (intro intent_start [OF _ _ E]) simp_all
  then show ?thesis using q by (simp add: restart_in_software_def e intent_after_def)
qed

lemma intent_asks:
  assumes i: "intent_ok t p" and t: "\<not> mp_sock p \<longrightarrow> t = StoppedState"
  shows "intent_after t p (player_pause p)" "intent_after t p (player_stop p)" "intent_after t p (setPosition ms p)"
    "intent_after t p (setVolume v p)" "intent_after t p (setMuted m p)" "intent_after t p (onChildLost p)"
proof -
  have same: "intent_after t p q" if "intent_ok t q" "mp_sock q = mp_sock p" for q
    using that t by (auto simp: intent_after_def)
  show "intent_after t p (player_pause p)" "intent_after t p (player_stop p)"
    using intent_ask [OF i, of PausedState CmdPause] intent_ask [OF i, of StoppedState CmdStop]
    by (auto intro!: same simp: player_pause_def player_stop_def Let_def)
  define p1 where "p1 = (if mp_opened p then send (CmdSeek (max 0 ms)) p else p\<lparr>mp_pendingSeek := max 0 ms\<rparr>)"
  have p1: "intent_ok t p1" "mp_sock p1 = mp_sock p" using i by (simp_all add: p1_def intent_send)
  have "player_core (p1\<lparr>mp_state := x\<rparr>) = player_core p1" for x by (simp add: player_core_def)
  then have "intent_ok t (p1\<lparr>mp_state := x\<rparr>)" for x using intent_core p1(1) by blast
  then show "intent_after t p (setPosition ms p)"
    using p1 unfolding setPosition_def Let_def p1_def [symmetric] by (auto intro!: same)
  have "intent_ok t (p\<lparr>mp_volume := v\<rparr>)" "intent_ok t (p\<lparr>mp_muted := m\<rparr>)" for v m
    using i by (simp_all add: intent_ok_def conn_ok_def cmds_def)
  then show "intent_after t p (setVolume v p)" "intent_after t p (setMuted m p)"
    using i by (auto intro!: same simp: setVolume_def setMuted_def Let_def intent_send)
  show "intent_after t p (onChildLost p)"
    using intent_teardown [OF i] by (simp add: intent_after_def onChildLost_def failWith_def)
qed


section \<open>The system\<close>

definition intent_inv :: "MediaSystem \<Rightarrow> bool" where
  "intent_inv s \<longleftrightarrow>
     intent_ok (asked_of (hostd s)) (sy_player s) \<and> (sy_host s \<noteq> None \<longleftrightarrow> mp_sock (sy_player s))"

lemma asked_fresh [simp]: "asked_of mkMediaHost = StoppedState"
  by (simp add: asked_of_def mkMediaHost_def)

lemma intent_turn:
  assumes "sy_host s \<noteq> None \<longrightarrow> mp_sock (sy_player s)" "mp_sock (sy_player s) \<longrightarrow> sy_host s \<noteq> None"
    "intent_after (asked_of (hostd s)) (sy_player s) q"
  shows "intent_inv (turn q s)"
  using assms by (auto simp: intent_inv_def intent_after_def turn_def hostd_def split: if_splits)

lemma asked_same: "mh_player k = mh_player h \<Longrightarrow> asked_of k = asked_of h"
  by (simp add: asked_of_def)

lemma player_calls_kept:
  "mh_player (snd (host_read pos n h)) = mh_player h" "mh_player (send_asked h) = mh_player h"
  "mh_player (report m h) = mh_player h" "mh_player (sendEvent m h) = mh_player h"
  by (auto simp: host_read_def send_asked_def report_def sendState_def sendTracks_def sendEvent_def Let_def
      split: option.split prod.split ReadStep.split list.split ChildMsg.split)

lemma onFrame_player: "onFrame now f (h, mem) = (h1, mem1) \<Longrightarrow> mh_player h1 = mh_player h"
proof -
  assume o': "onFrame now f (h, mem) = (h1, mem1)"
  have fw: "mh_player (frame_window now k) = mh_player k" for k by (simp add: frame_window_def Let_def)
  have "mh_player (fst (onFrame now f (h, mem))) = mh_player h"
    unfolding onFrame_def Let_def prod.case
    by (cases f; cases "mh_ring h") (simp_all add: fw player_calls_kept split: option.split)
  then show ?thesis by (simp add: o')
qed

lemma dispatch_asked:
  assumes "case c of CmdOpen g n hint \<Rightarrow> 0 < n | _ \<Rightarrow> c \<noteq> CmdClose"
  shows "asked_of (dispatch mapped mem c h) = cmd_state c (asked_of h)"
  using assms
  by (cases c) (simp_all add: asked_of_def openSource_def call_player_def closeSource_def Let_def
      on_source_def attachRing_def sendEvent_def)

lemma intent_event:
  assumes i: "intent_ok t p" and k: "mp_sock p"
    and e: "onEvent E created shared m (p, mem) = (q, mem1)"
  shows "intent_ok t q \<and> mp_sock q"
proof (cases m)
  case MsgHello
  then have "q = onHello p" using e by simp
  then show ?thesis using i k by (auto simp: onHello_def intent_ok_def conn_ok_def cmds_def)
next
  case (MsgRead gen i' off len)
  have "intent_ok t (with_feed E (feed_request (qe_read E (mp_source p)) i' off len) p)"
  proof (rule intent_with_feed [OF i])
    fix fd :: MediaFeed
    assume "mf_signals fd = []"
    then show "ready_all (\<lambda>n. 0 < n) (mf_signals (feed_request (qe_read E (mp_source p)) i' off len fd))"
      using ready_event [of "EvRequest i' off len" "\<lambda>n. 0 < n" fd "qe_read E (mp_source p)"] by simp
  qed
  then show ?thesis using MsgRead e i k by (auto split: if_splits)
next
  case (MsgNeedRing n)
  have "intent_ok t (send (CmdRing g a g) (p\<lparr>mp_ring := Some g, mp_published := True, mp_slotBytes := a,
      mp_generation := g\<rparr>))" for g a
    using i k by (intro intent_send) (simp_all add: intent_ok_def conn_ok_def cmds_def)
  then show ?thesis using MsgNeedRing e i k by (auto simp: shareRing_def Let_def split: if_splits)
next
  case (MsgFrame g hdr)
  have "intent_ok t (send (CmdRelease g (fh_slot hdr)) p)" using i by (simp add: intent_send)
  moreover have "q = showFrame E mem g hdr p" using MsgFrame e by auto
  ultimately show ?thesis using k by (auto simp: showFrame_def Let_def split: option.split Unpacked.split)
next
  case (MsgSub x)
  then have "player_core q = player_core p" using e by (auto simp: player_core_def p_emit_def split: prod.splits if_splits)
  from intent_core [OF this] show ?thesis using i k \<open>player_core q = player_core p\<close> by (simp add: player_core_def)
next
  case (MsgRingReady g)
  then have "player_core q = player_core p" using e by (auto simp: player_core_def split: if_splits)
  from intent_core [OF this] show ?thesis using i k \<open>player_core q = player_core p\<close> by (simp add: player_core_def)
qed (use e i k in auto)

lemma intent_step:
  assumes i: "intent_inv s" and E: "no_empty_files E"
  shows "intent_inv (media_step E e s)"
proof -
  let ?p = "sy_player s" and ?t = "asked_of (hostd s)"
  have ok: "intent_ok ?t ?p" and h: "sy_host s \<noteq> None \<longrightarrow> mp_sock ?p" "mp_sock ?p \<longrightarrow> sy_host s \<noteq> None"
    using i by (auto simp: intent_inv_def)
  have t: "\<not> mp_sock ?p \<longrightarrow> ?t = StoppedState" using h by (auto simp: hostd_def)
  note turned = intent_turn [OF h]
  have same: "intent_after ?t ?p q" if "intent_ok ?t q" "mp_sock q = mp_sock ?p" for q
    using that t by (auto simp: intent_after_def)
  have co: "intent_after ?t ?p q" if "player_core q = player_core ?p" for q
    using same [of q] ok intent_core [OF that] that by (simp add: player_core_def)
  have child: "intent_inv (s\<lparr>sy_host := Some k, sy_shm := mem\<rparr>)" if "sy_host s = Some hh" "mh_player k = mh_player hh" for hh k mem
    using i that by (auto simp: intent_inv_def hostd_def asked_of_def)
  have child': "intent_inv (s\<lparr>sy_host := Some k\<rparr>)" if "sy_host s = Some hh" "mh_player k = mh_player hh" for hh k
    using child [OF that, of "sy_shm s"] by simp
  show ?thesis
  proof (cases e)
    case (UiSetSource L x)
    then show ?thesis using turned intent_setSource [OF ok t E] by simp
  next
    case (UiPlay L)
    then show ?thesis using turned intent_play [OF ok t E] by simp
  next
    case (UiSetOutput b)
    then show ?thesis using turned co by (simp add: player_core_def)
  next
    case (UiTick now)
    then show ?thesis using turned co by (simp add: player_core_def)
  next
    case (UiRestarts L)
    show ?thesis
    proof (cases "mp_restarts ?p")
      case (Cons pos ps)
      have "intent_ok ?t (?p\<lparr>mp_restarts := ps\<rparr>)" using ok by (simp add: intent_ok_def conn_ok_def cmds_def)
      from intent_restart [OF this E, of L pos] have "intent_after ?t ?p (restart_in_software E L pos (?p\<lparr>mp_restarts := ps\<rparr>))"
        by (auto simp: intent_after_def split: if_splits)
      then show ?thesis using UiRestarts Cons turned by simp
    qed (use UiRestarts i in simp)
  next
    case (UiFeed fe)
    have "intent_ok ?t (with_feed E (feed_event (qe_read E (mp_source ?p)) fe) ?p)"
      by (rule intent_with_feed [OF ok]) (rule ready_event, simp_all)
    then have "intent_ok ?t (feed_turn E fe ?p)" "mp_sock (feed_turn E fe ?p) = mp_sock ?p"
      using ok by (cases fe; simp add: feed_turn_def)+
    then show ?thesis using UiFeed turned same by simp
  next
    case (UiReceives created shared)
    show ?thesis
    proof (cases "\<exists>h m ms. sy_host s = Some h \<and> mh_out h = m # ms")
      case True
      then obtain hh m ms where hh: "sy_host s = Some hh" "mh_out hh = m # ms" by blast
      obtain q mem where ev: "onEvent E created shared m (?p, sy_shm s) = (q, mem)" by force
      have "intent_ok ?t q" "mp_sock q" using intent_event [OF ok _ ev] h hh by simp_all
      then have "intent_inv (turn q (s\<lparr>sy_host := Some (hh\<lparr>mh_out := ms\<rparr>), sy_shm := mem\<rparr>))"
        using hh by (simp add: intent_inv_def turn_def hostd_def asked_of_def)
      then show ?thesis using UiReceives hh ev by (simp add: Let_def)
    next
      case False
      then show ?thesis using UiReceives i by (auto split: option.split list.split)
    qed
  next
    case (ChildReceives mapped)
    show ?thesis
    proof (cases "\<exists>h c cs. sy_host s = Some h \<and> mp_out ?p = c # cs")
      case True
      then obtain hh c cs where hh: "sy_host s = Some hh" "mp_out ?p = c # cs" by blast
      have cm: "cmds ?p = c # cmds (?p\<lparr>mp_out := cs\<rparr>)" using hh by (simp add: cmds_def)
      have "mp_ready ?p" using ok hh(2) by (auto simp: intent_ok_def conn_ok_def split: if_splits)
      then have "intent_ok (cmd_state c ?t) (?p\<lparr>mp_out := cs\<rparr>)"
        "case c of CmdOpen g n hint \<Rightarrow> 0 < n | _ \<Rightarrow> c \<noteq> CmdClose"
        using ok cm by (auto simp: intent_ok_def conn_ok_def)
      then have "intent_inv (s\<lparr>sy_player := ?p\<lparr>mp_out := cs\<rparr>, sy_host := Some (dispatch mapped (sy_shm s) c hh)\<rparr>)"
        using dispatch_asked [of c mapped "sy_shm s" hh] hh h by (simp add: intent_inv_def hostd_def)
      then show ?thesis using ChildReceives hh by simp
    next
      case False
      then show ?thesis using ChildReceives i by (auto split: option.split list.split)
    qed
  next
    case ChildConnects
    have "intent_ok StoppedState (adopt ?p)" if "mp_channel ?p" "\<not> mp_sock ?p"
      using ok that t by (auto simp: adopt_def intent_ok_def conn_ok_def cmds_def)
    then show ?thesis using ChildConnects i by (auto simp: intent_inv_def hostd_def adopt_def)
  next
    case ChildLost
    then show ?thesis using turned intent_asks(6) [OF ok t] i by simp
  next
    case (ChildDecodes f)
    show ?thesis
    proof (cases "sy_host s")
      case (Some hh)
      obtain h1 mem where o': "onFrame (mp_now ?p) f (hh, sy_shm s) = (h1, mem)" by force
      show ?thesis using child [OF Some onFrame_player [OF o']] ChildDecodes Some o' by simp
    qed (use ChildDecodes i in simp)
  next
    case (ChildReads pos n)
    then show ?thesis using i child' player_calls_kept by (cases "sy_host s") simp_all
  next
    case ChildSendsRead
    then show ?thesis using i child' player_calls_kept by (cases "sy_host s") simp_all
  next
    case (ChildReports m)
    then show ?thesis using i child' player_calls_kept by (cases "sy_host s") simp_all
  qed (use turned intent_asks [OF ok t] same ok in
      \<open>simp_all add: setPlaybackRate_def setActiveAudioTrack_def setActiveSubtitleTrack_def intent_send\<close>)
qed

text \<open>
  C6: The child does what the user asked last. Whatever the order in which the user plays, pauses, stops,
  seeks and changes the source, the stream's size arrives, the child connects, dies and is started again:
  once a source is opened, carrying out the commands that are still on their way brings the child to
  the state the user asked for last (\<open>mp_wantState\<close>).
\<close>

theorem child_follows_user:
  assumes "no_empty_files E" "s = media_run E es fresh_media" "mp_opened (sy_player s)"
  shows "fold cmd_state (cmds (sy_player s)) (case sy_host s of Some h \<Rightarrow> asked_of h | None \<Rightarrow> StoppedState)
     = mp_wantState (sy_player s)"
proof -
  have "intent_inv fresh_media"
    by (simp add: intent_inv_def fresh_media_def mkPlayer_def intent_ok_def conn_ok_def cmds_def hostd_def StoppedState_def)
  moreover have "intent_inv s \<Longrightarrow> intent_inv (media_run E es s)" for es s
    by (induction es arbitrary: s) (simp_all add: media_run_def intent_step [OF _ assms(1)])
  ultimately have i: "intent_inv s" by (simp add: assms(2))
  have "asked_of (hostd s) = (case sy_host s of Some h \<Rightarrow> asked_of h | None \<Rightarrow> StoppedState)"
    by (simp add: hostd_def split: option.split)
  then show ?thesis using i assms(3) by (auto simp: intent_inv_def intent_ok_def)
qed

text \<open>Play, then a source, then pause before the child is there: it is told to pause.\<close>

theorem child_follows_user_witness:
  "fold cmd_state (cmds (sy_player (media_run sample_env [UiSetSource sample_child ''v'', UiPlay sample_child, UiPause]
     fresh_media))) StoppedState = PausedState"
proof -
  let ?s = "media_run sample_env [UiSetSource sample_child ''v'', UiPlay sample_child, UiPause] fresh_media"
  have E: "no_empty_files sample_env" by (simp add: no_empty_files_def sample_env_def)
  have o': "mp_opened (sy_player ?s)" "mp_wantState (sy_player ?s) = PausedState" "sy_host ?s = None"
    unfolding media_run_def fresh_media_def by (simp_all add: play_evals player_play_def player_pause_def)
  from child_follows_user [OF E refl o'(1)] o'(2,3) show ?thesis by simp
qed


section \<open>What the child reports\<close>

text \<open>
  C39: Nothing the child reports is believed as it is. Whatever state and tracks it sends, what the player
  keeps (and its QML reads) is a state of the enumerations, with an error text of at most 4096
  characters, a duration and a position that are not negative and a rate between 0 and 16; at most 64
  tracks of each kind, with titles of at most 4096 characters; and active tracks that exist, or -1.
\<close>

theorem reports_are_checked:
  "let p1 = applyTracks E t (applyState inp p); s = mp_state p1 in
     ms_playbackState s \<in> {0..2} \<and> ms_mediaStatus s \<in> {0..7} \<and> ms_error s \<in> {0..4}
     \<and> length (ms_errorString s) \<le> 4096 \<and> 0 \<le> ms_duration s \<and> 0 \<le> ms_position s
     \<and> 0 < ms_playbackRate s \<and> ms_playbackRate s \<le> 16
     \<and> length (mp_audioTracks p1) \<le> 64 \<and> length (mp_subtitleTracks p1) \<le> 64
     \<and> list_all (\<lambda>(_, title). case title of None \<Rightarrow> True | Some x \<Rightarrow> length x \<le> 4096)
          (mp_audioTracks p1 @ mp_subtitleTracks p1)
     \<and> -1 \<le> mp_activeAudio p1 \<and> mp_activeAudio p1 < int (length (mp_audioTracks p1))
     \<and> -1 \<le> mp_activeSubtitle p1 \<and> mp_activeSubtitle p1 < int (length (mp_subtitleTracks p1))"
proof -
  let ?p1 = "applyTracks E t (applyState inp p)"
  have emit: "mp_state (p_emit c g q) = mp_state q" "mp_audioTracks (p_emit c g q) = mp_audioTracks q"
    "mp_subtitleTracks (p_emit c g q) = mp_subtitleTracks q" "mp_activeAudio (p_emit c g q) = mp_activeAudio q"
    "mp_activeSubtitle (p_emit c g q) = mp_activeSubtitle q" for c g q
    by (simp_all add: p_emit_def)
  have "mp_state (note_stall old q) = mp_state q" "mp_state (checkPicture q) = mp_state q" for old q
    by (simp_all add: note_stall_def checkPicture_def p_emit_def Let_def split: option.split)
  then have "mp_state (applyState inp p) = sane_state inp"
    unfolding applyState_def Let_def by (simp add: emit)
  moreover have "mp_state (applyTracks E t q) = mp_state q" for q
    unfolding applyTracks_def Let_def by (simp add: emit)
  ultimately have st: "mp_state ?p1 = sane_state inp" by simp
  let ?a = "toMetaData E (tr_audio t)" and ?s = "toMetaData E (tr_subtitles t)"
  have tr: "mp_audioTracks ?p1 = ?a" "mp_subtitleTracks ?p1 = ?s"
    "mp_activeAudio ?p1 = active_track (tr_activeAudio t) ?a"
    "mp_activeSubtitle ?p1 = active_track (tr_activeSubtitle t) ?s"
    unfolding applyTracks_def Let_def by (simp_all add: emit)
  have m: "length (toMetaData E ts) \<le> 64" "list_all (\<lambda>(_, title). case title of None \<Rightarrow> True | Some x \<Rightarrow> length x \<le> 4096) (toMetaData E ts)" for ts
    by (auto simp: toMetaData_def kMaxTracks_def kMaxText_def list_all_iff)
  have a: "-1 \<le> active_track i ts \<and> active_track i ts < int (length ts)" for i ts
    by (auto simp: active_track_def)
  show ?thesis
    unfolding Let_def st tr using m a
    by (auto simp: sane_state_def clamp_int_def PausedState_def InvalidMedia_def AccessDeniedError_def kMaxText_def)
qed

section \<open>Two slips\<close>

text \<open>
  A seek that is waiting for its source to be opened is not dropped with it: the next source gets it.
\<close>

lemma seek_moves_to_next_source:
  assumes "conn_ok p" "mp_channel p" "\<not> mp_opened p" "0 \<le> ms" "u \<noteq> mp_source p" "u \<noteq> []"
    "qe_feedSource E u = LocalFile (Some n)" "mp_wantState p = StoppedState"
  shows "cmds (setSource E L u (setPosition ms p)) =
     cmds p @ [CmdOpen (mp_sourceGen p + 1) n (qe_fileName E u), CmdSeek ms]"
proof -
  define q where "q = setPosition ms p"
  have "player_core q = player_core (p\<lparr>mp_pendingSeek := ms\<rparr>)"
    using assms(3,4) by (simp add: q_def setPosition_def Let_def player_core_def p_emit_def)
  then have q: "mp_source q = mp_source p" "mp_channel q" "mp_sock q = mp_sock p" "mp_ready q = mp_ready p"
    "mp_pending q = mp_pending p" "mp_out q = mp_out p" "mp_sourceGen q = mp_sourceGen p" "mp_pendingSeek q = ms"
    "mp_wantState q = StoppedState"
    using assms(2,8) by (simp_all add: player_core_def)
  have "conn_ok p" by fact
  then have c: "mp_ready p \<longrightarrow> mp_sock p \<and> mp_pending p = []" "\<not> mp_ready p \<longrightarrow> mp_out p = []"
    by (auto simp: conn_ok_def split: if_splits)
  show ?thesis
    unfolding q_def [symmetric] using assms(4-7) q c
    by (cases "mp_ready p"; cases "mp_subHtml q = []"; cases "mp_noPicture q")
       (simp_all add: setSource_def ensureChild_def startFeed_def with_feed_def p_emit_def logPlaybackSummary_def
         feed_start_def mkMediaFeed_def fd_emit_def on_feed_ready_def Let_def send_def cmds_def
         PlayingState_def PausedState_def StoppedState_def)
qed

text \<open>
  The posted restart in software does not look whether the source is still there: after the player was
  closed it starts a decoder for nothing, and the closed player shows an error.
\<close>

lemma restart_after_close:
  assumes "mp_source p = []" "qe_feedSource E [] = OtherUrl" "la_listens L" "la_starts L"
  shows "mp_channel (restart_in_software E L pos p)
     \<and> ms_mediaStatus (mp_state (restart_in_software E L pos p)) = InvalidMedia
     \<and> ms_error (mp_state (restart_in_software E L pos p)) = ResourceError"
proof -
  have st: "mp_state (failWith e why q) = sane_state ((mp_state q)\<lparr>ms_playbackState := StoppedState,
      ms_mediaStatus := InvalidMedia, ms_error := e, ms_errorString := why\<rparr>)" for e why q
  proof -
    have "mp_state (note_stall old r) = mp_state r" "mp_state (checkPicture r) = mp_state r"
      "mp_state (p_emit c g r) = mp_state r" for old r c g
      by (simp_all add: note_stall_def checkPicture_def p_emit_def Let_def split: option.split)
    then show ?thesis unfolding failWith_def applyState_def Let_def by simp
  qed
  show ?thesis
    using assms
    by (simp add: restart_in_software_def ensureChild_def teardown_def logPlaybackSummary_def send_def
        startFeed_def with_feed_def feed_start_def mkMediaFeed_def fd_emit_def p_emit_def Let_def st
        sane_state_def clamp_int_def InvalidMedia_def ResourceError_def AccessDeniedError_def)
qed


section \<open>A picture\<close>

text \<open>A run in which a frame is decoded before there is a ring, one is made, and the next frame is shown.\<close>

lemma a_picture_is_shown:
  "map vf_planes (shown_frames (mp_sinkFrames (sy_player (media_run sample_env
     [UiSetOutput True, UiSetSource sample_child ''v'', ChildConnects, UiReceives True True,
      ChildDecodes (Some sample_frame), UiReceives True True, ChildReceives True, ChildReceives True,
      ChildReceives True, ChildReceives True, ChildDecodes (Some sample_frame), UiReceives True True,
      UiReceives True True] fresh_media)))) = [[\<lparr>vp_stride = 3, vp_bits = [1, 2, 3, 4, 5, 6]\<rparr>]]"
  unfolding media_run_def fresh_media_def
  by (simp add: play_evals onFrame_def sample_frame_def packedSize_def kMaxPlanes_def aligned_def kAlign_def
      mappedBytes_def shareRing_def kMaxSlotBytes_def attachRing_def frame_window_def free_slot_def slot_of_def
      pack_def memcpy_def new_header_def no_plane_def put_slot_def showFrame_def unpack_def headerFits_def
      isAllowedFormat_def kMaxDimension_def plane_fits_def unpack_plane_def set_frame_def numeral_eq_Suc
      shown_frames_def)

end
