(* ===== verification/PasswordHash.thy ===== *)
theory PasswordHash
  imports QtText
begin

text \<open>
  \<open>services/security/passwordhash.cpp\<close>: the credential of the web interface. The stored form is
  \<open>pbkdf2$<iterations>$<salt>$<key>\<close> in hexadecimal, or, for old installs, a bare SHA-256 digest. The two
  digests are Qt's and a parameter (\<open>Digests\<close>); the salt is an argument of \<open>hash\<close>. The hexadecimal
  codec is what \<open>QByteArray\<close> does.
\<close>

section \<open>Bytes and hexadecimal\<close>

text \<open>\<open>QString::toUtf8\<close> and \<open>toLatin1\<close>, on Latin-1 texts.\<close>

definition utf8_char :: "char \<Rightarrow> bytes" where
  "utf8_char c =
     (let n = code c in if n < 128 then [word_of_nat n]
      else [word_of_nat (192 + n div 64), word_of_nat (128 + n mod 64)])"

definition utf8 :: "string \<Rightarrow> bytes" where
  "utf8 s = concat (map utf8_char s)"

definition latin1 :: "string \<Rightarrow> bytes" where
  "latin1 s = map (\<lambda>c. word_of_nat (code c)) s"

definition hex_digit :: "nat \<Rightarrow> char" where
  "hex_digit n = char_of (if n < 10 then 48 + n else 87 + n)"

definition to_hex :: "bytes \<Rightarrow> string" where
  "to_hex b = concat (map (\<lambda>w. [hex_digit (unat w div 16), hex_digit (unat w mod 16)]) b)"

definition hex_val :: "char \<Rightarrow> nat option" where
  "hex_val c =
     (let n = code c in
      if 48 \<le> n \<and> n \<le> 57 then Some (n - 48)
      else if 97 \<le> n \<and> n \<le> 102 then Some (n - 87)
      else if 65 \<le> n \<and> n \<le> 70 then Some (n - 55) else None)"

text \<open>\<open>fromHex\<close> skips what is no digit and pairs the digits from the end.\<close>

fun hex_pairs :: "nat list \<Rightarrow> bytes" where
  "hex_pairs [] = []"
| "hex_pairs [lo] = [word_of_nat lo]"
| "hex_pairs (lo # hi # ds) = word_of_nat (16 * hi + lo) # hex_pairs ds"

definition from_hex :: "string \<Rightarrow> bytes" where
  "from_hex s = rev (hex_pairs (rev (List.map_filter hex_val s)))"

section \<open>The functions of the file\<close>

record Digests =
  dg_pbkdf2 :: "bytes \<Rightarrow> bytes \<Rightarrow> int \<Rightarrow> int \<Rightarrow> bytes"
  dg_sha256 :: "bytes \<Rightarrow> bytes"

definition kIterations :: int where "kIterations = 100000"
definition kSaltLen :: nat where "kSaltLen = 16"
definition kKeyLen :: int where "kKeyLen = 32"

definition derive :: "Digests \<Rightarrow> bytes \<Rightarrow> bytes \<Rightarrow> int \<Rightarrow> bytes" where
  "derive D password salt iterations = dg_pbkdf2 D password salt iterations kKeyLen"

definition isLegacy :: "string \<Rightarrow> bool" where
  "isLegacy stored \<longleftrightarrow> stored \<noteq> [] \<and> \<not> starts_with ''pbkdf2$'' stored"

definition constantTimeEquals :: "bytes \<Rightarrow> bytes \<Rightarrow> bool" where
  "constantTimeEquals a b \<longleftrightarrow>
     (if length a \<noteq> length b then False
      else foldl (\<lambda>diff (x, y). or diff (xor x y)) 0 (zip a b) = 0)"

definition hash_password :: "Digests \<Rightarrow> bytes \<Rightarrow> string \<Rightarrow> string" where
  "hash_password D salt password =
     ''pbkdf2$'' @ show_int kIterations @ ''$'' @ to_hex salt @ ''$''
       @ to_hex (derive D (utf8 password) salt kIterations)"

text \<open>\<open>toInt(&ok)\<close>.\<close>

definition to_int_ok :: "string \<Rightarrow> int option" where
  "to_int_ok s =
     (case parse_integer (trimmed s) of None \<Rightarrow> None
      | Some v \<Rightarrow> if - 2147483648 \<le> v \<and> v \<le> 2147483647 then Some v else None)"

definition verify :: "Digests \<Rightarrow> string \<Rightarrow> string \<Rightarrow> bool" where
  "verify D password stored \<longleftrightarrow>
     (if stored = [] then False
      else if isLegacy stored
      then constantTimeEquals (latin1 (to_hex (dg_sha256 D (utf8 password)))) (latin1 stored)
      else
        let parts = split_on CHR ''$'' stored in
        if length parts \<noteq> 4 \<or> parts ! 0 \<noteq> ''pbkdf2'' then False
        else case to_int_ok (parts ! 1) of
               None \<Rightarrow> False
             | Some iterations \<Rightarrow>
                 if iterations \<le> 0 then False
                 else
                   let salt = from_hex (parts ! 2); want = from_hex (parts ! 3) in
                   if salt = [] \<or> want = [] then False
                   else constantTimeEquals (derive D (utf8 password) salt iterations) want)"

section \<open>The comparison\<close>

lemma or_zero_iff: "or (a :: 'a :: len word) b = 0 \<longleftrightarrow> a = 0 \<and> b = 0"
  by (auto simp: bit_eq_iff bit_simps)

lemma xor_zero_iff: "xor (a :: 'a :: len word) b = 0 \<longleftrightarrow> a = b"
  by (auto simp: bit_eq_iff bit_simps)

lemma diff_zero:
  "length a = length b \<Longrightarrow>
     foldl (\<lambda>diff (x, y). or diff (xor x y)) d (zip a b) = (0 :: byte) \<longleftrightarrow> d = 0 \<and> a = b"
  by (induction a b arbitrary: d rule: list_induct2) (auto simp: or_zero_iff xor_zero_iff)

text \<open>The comparison that always looks at every byte is equality.\<close>

lemma cte_eq: "constantTimeEquals a b \<longleftrightarrow> a = b"
  using diff_zero [of a b 0] by (auto simp: constantTimeEquals_def)

section \<open>Hexadecimal comes back\<close>

lemma hex_val_digit: "n < 16 \<Longrightarrow> hex_val (hex_digit n) = Some n"
proof -
  assume n: "n < 16"
  have "code (hex_digit n) = (if n < 10 then 48 + n else 87 + n)" using n by (simp add: code_def hex_digit_def)
  then show ?thesis using n by (auto simp: hex_val_def Let_def)
qed

lemma hex_no_dollar: "n < 16 \<Longrightarrow> hex_digit n \<noteq> CHR ''$''"
proof
  assume "n < 16" "hex_digit n = CHR ''$''"
  then have "hex_val (CHR ''$'') = Some n" using hex_val_digit by metis
  then show False by (simp add: hex_val_def code_def Let_def)
qed

lemma byte_nibbles: "unat (w :: byte) div 16 < 16" "unat (w :: byte) mod 16 < 16"
  using unsigned_less [of w, where ?'a = nat] by simp_all

lemma to_hex_no_dollar: "CHR ''$'' \<notin> set (to_hex b)"
  using hex_no_dollar [OF byte_nibbles(1)] hex_no_dollar [OF byte_nibbles(2)]
  by (induction b) (auto simp: to_hex_def simp del: unat_of_nat, metis+)

lemma map_filter_hex: "List.map_filter hex_val (to_hex b) = concat (map (\<lambda>w. [unat w div 16, unat w mod 16]) b)"
  by (induction b) (simp_all add: to_hex_def map_filter_simps hex_val_digit byte_nibbles)

lemma hex_pairs_rev: "hex_pairs (rev (concat (map (\<lambda>w. [unat w div 16, unat w mod 16]) b)) @ ds) = rev b @ hex_pairs ds"
proof (induction b arbitrary: ds)
  case (Cons w b)
  have "word_of_nat (16 * (unat w div 16) + unat w mod 16) = w" by simp
  then show ?case using Cons.IH [of "unat w mod 16 # unat w div 16 # ds"] by simp
qed simp

lemma from_hex_to_hex: "from_hex (to_hex b) = b"
  using hex_pairs_rev [of b "[]"] by (simp add: from_hex_def map_filter_hex)

section \<open>Hash and verify\<close>

lemma hash_parts:
  "split_on CHR ''$'' (hash_password D salt p) =
     [''pbkdf2'', show_int kIterations, to_hex salt, to_hex (derive D (utf8 p) salt kIterations)]"
proof -
  have d: "CHR ''$'' \<notin> set (show_int kIterations)"
    using show_nat_digits [of "nat kIterations"]
    by (auto simp: show_int_def kIterations_def list_all_iff is_digit_def code_def Let_def)
  have h: "hash_password D salt p = ''pbkdf2'' @ CHR ''$'' # (show_int kIterations @ CHR ''$'' # (to_hex salt @ CHR ''$''
      # to_hex (derive D (utf8 p) salt kIterations)))"
    by (simp add: hash_password_def)
  show ?thesis
    unfolding h by (subst split_on_append; simp add: split_on_append d to_hex_no_dollar split_on_single)
qed

text \<open>
  C26: A password is accepted against a stored hash exactly when it derives the same key with the stored
  salt and number of iterations: parsing the stored form gives back what hashing wrote. So the right
  password always gets in, and a stored hash made here is never taken for a legacy one.
\<close>

theorem verify_hash:
  assumes "salt \<noteq> []" "derive D (utf8 p) salt kIterations \<noteq> []"
  shows "(verify D q (hash_password D salt p)
        \<longleftrightarrow> derive D (utf8 q) salt kIterations = derive D (utf8 p) salt kIterations)
      \<and> \<not> isLegacy (hash_password D salt p)"
proof -
  have ne: "hash_password D salt p \<noteq> []" by (simp add: hash_password_def)
  have leg: "\<not> isLegacy (hash_password D salt p)"
    by (simp add: isLegacy_def hash_password_def starts_with_def)
  have "to_int_ok (show_int kIterations) = Some kIterations"
    by (simp add: to_int_ok_def show_int_def kIterations_def trimmed_show_nat parse_integer_show_nat)
  then have "verify D q (hash_password D salt p)
      \<longleftrightarrow> derive D (utf8 q) salt kIterations = derive D (utf8 p) salt kIterations"
    using assms ne leg
    by (simp add: verify_def hash_parts from_hex_to_hex cte_eq Let_def) (simp add: kIterations_def)
  then show ?thesis using leg by simp
qed

theorem verify_hash_witness:
  "(verify \<lparr>dg_pbkdf2 = (\<lambda>p s i n. p @ s), dg_sha256 = (\<lambda>p. p)\<rparr> ''wrong''
        (hash_password \<lparr>dg_pbkdf2 = (\<lambda>p s i n. p @ s), dg_sha256 = (\<lambda>p. p)\<rparr> [7, 255] ''secret'')
      \<longleftrightarrow> utf8 ''wrong'' @ [7, 255] = utf8 ''secret'' @ [7, 255])
    \<and> \<not> isLegacy (hash_password \<lparr>dg_pbkdf2 = (\<lambda>p s i n. p @ s), dg_sha256 = (\<lambda>p. p)\<rparr> [7, 255] ''secret'')"
  using verify_hash [of "[7, 255]" "\<lparr>dg_pbkdf2 = (\<lambda>p s i n. p @ s), dg_sha256 = (\<lambda>p. p)\<rparr>" "''secret''" "''wrong''"]
  by (simp add: derive_def)

end
