(* ===== verification/WebServer.thy ===== *)
theory WebServer
  imports Complex_Main PasswordHash StreamServer "HOL-Library.AList"
begin

text \<open>
  The web interface, \<open>webui/webserver.cpp\<close>: request assembly per socket, credentials, sessions, the
  lockout of an address, and the routes. A \<open>QByteArray\<close> is a list of bytes written as characters.
  What lies outside is a \<open>WebEnv\<close>: Qt's codecs (Base64, percent-encoding, UTF-8, JSON) and digests,
  the page compiled into the program, and, per request, the time in ms, the random bytes drawn, the
  temporary file, the peer's address and what the engine answers. Clocks read during one request
  agree. The calls made on the engine are listed in \<open>ws_calls\<close>, the replies in \<open>ws_out\<close>.
\<close>

section \<open>Byte arrays\<close>

fun find_sub :: "string \<Rightarrow> string \<Rightarrow> nat option" where
  "find_sub p [] = (if p = [] then Some 0 else None)"
| "find_sub p (c # cs) =
     (if starts_with p (c # cs) then Some 0 else map_option Suc (find_sub p cs))"

text \<open>\<open>indexOf(p, n)\<close>.\<close>

definition index_from :: "string \<Rightarrow> string \<Rightarrow> nat \<Rightarrow> nat option" where
  "index_from p s n =
     (if n \<le> length s then map_option (\<lambda>i. n + i) (find_sub p (drop n s)) else None)"

definition contains_text :: "string \<Rightarrow> string \<Rightarrow> bool" where
  "contains_text p s \<longleftrightarrow> find_sub p s \<noteq> None"

text \<open>\<open>mid(pos, len)\<close>: a negative length reaches to the end.\<close>

definition ba_mid :: "string \<Rightarrow> nat \<Rightarrow> int \<Rightarrow> string" where
  "ba_mid s n len = (if len < 0 then drop n s else take (nat len) (drop n s))"

definition ba_to_int :: "string \<Rightarrow> int" where
  "ba_to_int s =
     (case parse_integer (ba_trimmed s) of None \<Rightarrow> 0
      | Some v \<Rightarrow> if - 2147483648 \<le> v \<and> v \<le> 2147483647 then v else 0)"

section \<open>State and environment\<close>

datatype Json =
    JStr string | JInt int | JNum rat | JBool bool | JArr "Json list" | JObj "(string \<times> Json) list"

record WebTorrent =
  wt_name :: string
  wt_savePath :: string
  wt_totalSize :: int
  wt_totalDone :: int
  wt_progress :: rat
  wt_downloadRate :: int
  wt_uploadRate :: int
  wt_numPeers :: int
  wt_numSeeds :: int
  wt_stateString :: string
  wt_paused :: bool
  wt_ratio :: rat

record PeerInfo =
  pi_ip :: string
  pi_port :: int
  pi_downloadRate :: int
  pi_uploadRate :: int
  pi_progress :: rat
  pi_client :: string

record FileInfo =
  fi_path :: string
  fi_size :: int
  fi_progress :: rat
  fi_priority :: int

text \<open>What \<open>IEngine\<close> answers.\<close>

record WebEngine =
  eg_count :: nat
  eg_at :: "nat \<Rightarrow> WebTorrent"
  eg_hashAt :: "nat \<Rightarrow> string"
  eg_index :: "string \<Rightarrow> int"
  eg_peers :: "int \<Rightarrow> PeerInfo list"
  eg_files :: "int \<Rightarrow> FileInfo list"
  eg_downloadLimit :: int
  eg_uploadLimit :: int

datatype WebCall =
    AddMagnet string string | AddTorrentFile string string string
  | RemoveTorrent int bool | PauseTorrent int | ResumeTorrent int

record WebEnv =
  we_digests :: Digests
  we_fromBase64 :: "string \<Rightarrow> string"
  we_fromPercent :: "string \<Rightarrow> string"
  we_fromUtf8 :: "string \<Rightarrow> string"
  we_fromJson :: "string \<Rightarrow> (string \<Rightarrow> string) option"
  we_toJson :: "Json \<Rightarrow> string"
  we_page :: "string option"
  we_home :: string
  we_now :: int
  we_salt :: bytes
  we_random :: bytes
  we_tmp :: "string option"
  we_peer :: "nat \<Rightarrow> string"
  we_engine :: WebEngine

record PendingRequest =
  pr_buffer :: string
  pr_contentLength :: int
  pr_headerEnd :: int
  pr_headersParsed :: bool
  pr_dispatched :: bool

definition new_request :: PendingRequest where
  "new_request = \<lparr>pr_buffer = [], pr_contentLength = -1, pr_headerEnd = -1,
     pr_headersParsed = False, pr_dispatched = False\<rparr>"

record FailedAuthState =
  fa_attempts :: int
  fa_lockedUntil :: "int option"

record WebServer =
  ws_listening :: bool
  ws_user :: string
  ws_passwordHash :: string
  ws_pending :: "nat \<Rightarrow> PendingRequest option"
  ws_tokens :: "string \<Rightarrow> int option"
  ws_failed :: "(string \<times> FailedAuthState) list"
  ws_upgraded :: "string list"
  ws_calls :: "WebCall list"
  ws_out :: "(nat \<times> string) list"
  ws_closing :: "nat list"

definition mkWebServer :: WebServer where
  "mkWebServer = \<lparr>ws_listening = False, ws_user = [], ws_passwordHash = [], ws_pending = (\<lambda>_. None),
     ws_tokens = (\<lambda>_. None), ws_failed = [], ws_upgraded = [], ws_calls = [], ws_out = [],
     ws_closing = []\<rparr>"

definition kSessionMaxAgeSec :: int where "kSessionMaxAgeSec = 24 * 60 * 60"
definition kFailedAuthMax :: nat where "kFailedAuthMax = 4096"

definition now_secs :: "WebEnv \<Rightarrow> int" where
  "now_secs E = we_now E div 1000"

section \<open>Replies\<close>

definition ba_of :: "bytes \<Rightarrow> string" where
  "ba_of b = map (\<lambda>w. char_of (unat w)) b"

definition disconnect_socket :: "nat \<Rightarrow> WebServer \<Rightarrow> WebServer" where
  "disconnect_socket k s = s\<lparr>ws_closing := ws_closing s @ [k]\<rparr>"

definition reply_text :: "int \<Rightarrow> string \<Rightarrow> string \<Rightarrow> string \<Rightarrow> string \<Rightarrow> string" where
  "reply_text status statusText body ctype extra =
     ''HTTP/1.1 '' @ show_int status @ '' '' @ ba_of (utf8 statusText) @ crlf
     @ ''Content-Type: '' @ ctype @ crlf
     @ ''Content-Length: '' @ show_int (int (length body)) @ crlf
     @ ''X-Content-Type-Options: nosniff'' @ crlf
     @ ''X-Frame-Options: DENY'' @ crlf
     @ ''Referrer-Policy: same-origin'' @ crlf
     @ ''Connection: close'' @ crlf
     @ extra @ crlf @ body"

definition sendResponse ::
  "nat \<Rightarrow> int \<Rightarrow> string \<Rightarrow> string \<Rightarrow> string \<Rightarrow> string \<Rightarrow> WebServer \<Rightarrow> WebServer" where
  "sendResponse k status statusText body ctype extra s =
     disconnect_socket k (s\<lparr>ws_out := ws_out s @ [(k, reply_text status statusText body ctype extra)]\<rparr>)"

definition sendJson :: "nat \<Rightarrow> int \<Rightarrow> string \<Rightarrow> string \<Rightarrow> WebServer \<Rightarrow> WebServer" where
  "sendJson k status json extra =
     sendResponse k status (if status = 200 then ''OK'' else ''Error'') json ''application/json'' extra"

definition sendError :: "WebEnv \<Rightarrow> nat \<Rightarrow> int \<Rightarrow> string \<Rightarrow> WebServer \<Rightarrow> WebServer" where
  "sendError E k status message =
     sendJson k status (we_toJson E (JObj [(''error'', JStr message)])) []"

text \<open>The body \<open>{"status":"ok"}\<close>.\<close>

definition status_ok :: string where
  "status_ok = ''{'' @ [CHR 0x22] @ ''status'' @ [CHR 0x22] @ '':'' @ [CHR 0x22] @ ''ok'' @ [CHR 0x22] @ ''}''"

section \<open>Headers\<close>

definition headerValue :: "string \<Rightarrow> string \<Rightarrow> string" where
  "headerValue headersOnly name =
     (let search = crlf @ name @ '':'';
          start =
            (case find_sub search headersOnly of
               Some i \<Rightarrow> Some (if i = 0 then length name + 1 else i + length search)
             | None \<Rightarrow> if starts_with (name @ '':'') headersOnly then Some (length name + 1) else None)
      in case start of None \<Rightarrow> []
         | Some n \<Rightarrow>
             (case (case index_from [CHR 0x0D] headersOnly n of
                      Some e \<Rightarrow> Some e | None \<Rightarrow> index_from [CHR 0x0A] headersOnly n) of
                None \<Rightarrow> []
              | Some e \<Rightarrow> ba_trimmed (ba_mid headersOnly n (int e - int n))))"

section \<open>Credentials, sessions, lockout\<close>

definition setCredentials :: "string \<Rightarrow> string \<Rightarrow> WebServer \<Rightarrow> WebServer" where
  "setCredentials user h s = s\<lparr>ws_user := user, ws_passwordHash := h, ws_tokens := (\<lambda>_. None)\<rparr>"

definition upgradeLegacyHash :: "WebEnv \<Rightarrow> string \<Rightarrow> WebServer \<Rightarrow> WebServer" where
  "upgradeLegacyHash E password s =
     (if \<not> isLegacy (ws_passwordHash s) then s
      else let h = hash_password (we_digests E) (we_salt E) password
           in s\<lparr>ws_passwordHash := h, ws_upgraded := ws_upgraded s @ [h]\<rparr>)"

definition past_lockout :: "int \<Rightarrow> FailedAuthState \<Rightarrow> bool" where
  "past_lockout now f \<longleftrightarrow> (case fa_lockedUntil f of None \<Rightarrow> False | Some t \<Rightarrow> t < now)"

definition evictExpiredFailedAuth :: "WebEnv \<Rightarrow> WebServer \<Rightarrow> WebServer" where
  "evictExpiredFailedAuth E s =
     (let m = filter (\<lambda>(ip, f). \<not> past_lockout (we_now E) f) (ws_failed s)
      in s\<lparr>ws_failed := (if kFailedAuthMax < length m then [] else m)\<rparr>)"

definition failed_at :: "string \<Rightarrow> WebServer \<Rightarrow> FailedAuthState" where
  "failed_at ip s =
     (case map_of (ws_failed s) ip of Some f \<Rightarrow> f | None \<Rightarrow> \<lparr>fa_attempts = 0, fa_lockedUntil = None\<rparr>)"

definition put_failed :: "string \<Rightarrow> FailedAuthState \<Rightarrow> WebServer \<Rightarrow> WebServer" where
  "put_failed ip f s = s\<lparr>ws_failed := AList.update ip f (ws_failed s)\<rparr>"

text \<open>User and password of the \<open>Authorization\<close> header; none is not counted as an attempt.\<close>

definition basic_creds :: "WebEnv \<Rightarrow> string \<Rightarrow> (string \<times> string) option" where
  "basic_creds E headersOnly =
     (let authValue = headerValue headersOnly ''Authorization'' in
      if \<not> starts_with ''Basic '' authValue then None
      else
        let decoded = we_fromBase64 E (ba_trimmed (drop 6 authValue)) in
        if CHR '':'' \<notin> set decoded then None
        else Some (we_fromUtf8 E (before_first CHR '':'' decoded),
                   we_fromUtf8 E (after_first CHR '':'' decoded)))"

definition penalty_secs :: "int \<Rightarrow> int" where
  "penalty_secs attempts = min (5 * 2 ^ nat (attempts - 5)) 300"

definition checkAuth :: "WebEnv \<Rightarrow> string \<Rightarrow> string \<Rightarrow> WebServer \<Rightarrow> bool \<times> WebServer" where
  "checkAuth E headersOnly ip s =
     (let s1 = evictExpiredFailedAuth E s;
          st = failed_at ip s1;
          s2 = put_failed ip st s1 in
      if (case fa_lockedUntil st of None \<Rightarrow> False | Some t \<Rightarrow> we_now E < t) then (False, s2)
      else
        case basic_creds E headersOnly of
          None \<Rightarrow> (False, s2)
        | Some (user, pass) \<Rightarrow>
            let userOk = constantTimeEquals (utf8 user) (utf8 (ws_user s2));
                passOk = verify (we_digests E) pass (ws_passwordHash s2) in
            if userOk \<and> passOk
            then (True, upgradeLegacyHash E pass
                          (put_failed ip \<lparr>fa_attempts = 0, fa_lockedUntil = None\<rparr> s2))
            else
              let n = fa_attempts st + 1;
                  until = (if 5 \<le> n then Some (we_now E + 1000 * penalty_secs n) else fa_lockedUntil st)
              in (False, put_failed ip \<lparr>fa_attempts = n, fa_lockedUntil = until\<rparr> s2))"

text \<open>The first \<open>BATSID\<close> of the cookies.\<close>

definition session_token :: "string \<Rightarrow> string option" where
  "session_token headersOnly =
     (let cookieLine = headerValue headersOnly ''Cookie'' in
      if cookieLine = [] then None
      else map_option (drop 7)
             (find (starts_with ''BATSID='') (map ba_trimmed (split_on CHR '';'' cookieLine))))"

definition checkSession :: "WebEnv \<Rightarrow> string \<Rightarrow> WebServer \<Rightarrow> bool \<times> WebServer" where
  "checkSession E headersOnly s =
     (case session_token headersOnly of
        None \<Rightarrow> (False, s)
      | Some token \<Rightarrow>
          (case ws_tokens s token of
             None \<Rightarrow> (False, s)
           | Some issued \<Rightarrow>
               if kSessionMaxAgeSec < now_secs E - issued
               then (False, s\<lparr>ws_tokens := (ws_tokens s)(token := None)\<rparr>)
               else (True, s)))"

definition issueSessionCookie :: "WebEnv \<Rightarrow> WebServer \<Rightarrow> string \<times> WebServer" where
  "issueSessionCookie E s =
     (let token = to_hex (we_random E)
      in (token, s\<lparr>ws_tokens := (ws_tokens s)(token \<mapsto> now_secs E)\<rparr>))"

section \<open>The gates\<close>

definition cookie_header :: "string \<Rightarrow> string" where
  "cookie_header token = ''Set-Cookie: BATSID='' @ token @ ''; HttpOnly; SameSite=Strict; Path=/'' @ crlf"

text \<open>User and password of a pairing link.\<close>

definition pair_creds :: "WebEnv \<Rightarrow> string \<Rightarrow> (string \<times> string) option" where
  "pair_creds E query =
     (let pairVal = (case find (starts_with ''pair='') (split_on CHR ''&'' query) of
                       None \<Rightarrow> [] | Some kv \<Rightarrow> drop 5 kv);
          decoded = we_fromBase64 E (we_fromPercent E pairVal) in
      if CHR '':'' \<in> set decoded \<and> before_first CHR '':'' decoded \<noteq> []
      then Some (before_first CHR '':'' decoded, we_fromUtf8 E (after_first CHR '':'' decoded))
      else None)"

definition pair_ok :: "WebEnv \<Rightarrow> string \<Rightarrow> string \<Rightarrow> WebServer \<Rightarrow> string option" where
  "pair_ok E meth query s =
     (if meth = ''GET'' \<and> contains_text ''pair='' query
      then (case pair_creds E query of
              None \<Rightarrow> None
            | Some (u, pass) \<Rightarrow>
                if constantTimeEquals (latin1 u) (utf8 (ws_user s))
                   \<and> verify (we_digests E) pass (ws_passwordHash s) then Some pass else None)
      else None)"

definition handleAuthGates ::
  "WebEnv \<Rightarrow> nat \<Rightarrow> string \<Rightarrow> string \<Rightarrow> string \<Rightarrow> string \<Rightarrow> WebServer \<Rightarrow> bool \<times> WebServer" where
  "handleAuthGates E k meth path query headers s =
     (if ws_user s = [] then (False, s)
      else
        case pair_ok E meth query s of
          Some pass \<Rightarrow>
            (let (token, s1) = issueSessionCookie E (upgradeLegacyHash E pass s)
             in (True, sendResponse k 302 ''Found'' [] ''text/plain''
                         (''Location: /'' @ crlf @ cookie_header token) s1))
        | None \<Rightarrow>
            if meth = ''POST'' \<and> path = ''/api/login''
            then
              (let (ok, s1) = checkAuth E headers (we_peer E k) s in
               if \<not> ok then (True, sendError E k 401 ''Invalid credentials'' s1)
               else let (token, s2) = issueSessionCookie E s1
                    in (True, sendJson k 200 status_ok (cookie_header token) s2))
            else
              (let (live, s1) = checkSession E headers s in
               if live then (False, s1)
               else
                 let (ok, s2) = checkAuth E headers (we_peer E k) s1 in
                 if ok then (False, s2)
                 else (True, sendResponse k 401 ''Unauthorized'' ''Unauthorized'' ''text/plain''
                        (''WWW-Authenticate: Basic realm='' @ [CHR 0x22] @ ''BATorrent WebUI''
                           @ [CHR 0x22] @ crlf) s2)))"

section \<open>Views of the engine\<close>

definition ws_torrentHash :: "WebEngine \<Rightarrow> nat \<Rightarrow> string" where
  "ws_torrentHash G i = (if eg_count G \<le> i then [] else eg_hashAt G i)"

definition findTorrentByHash :: "WebEngine \<Rightarrow> string \<Rightarrow> int" where
  "findTorrentByHash G h = (if h = [] then -1 else eg_index G h)"

definition torrent_json :: "WebEngine \<Rightarrow> nat \<Rightarrow> Json" where
  "torrent_json G i =
     (let t = eg_at G i in
      JObj [(''hash'', JStr (ws_torrentHash G i)), (''name'', JStr (wt_name t)),
        (''size'', JInt (wt_totalSize t)), (''done'', JInt (wt_totalDone t)),
        (''progress'', JNum (wt_progress t)), (''downloadRate'', JInt (wt_downloadRate t)),
        (''uploadRate'', JInt (wt_uploadRate t)), (''peers'', JInt (wt_numPeers t)),
        (''seeds'', JInt (wt_numSeeds t)), (''state'', JStr (wt_stateString t)),
        (''paused'', JBool (wt_paused t)), (''ratio'', JNum (wt_ratio t)),
        (''savePath'', JStr (wt_savePath t))])"

definition handleGetTorrents :: "WebEnv \<Rightarrow> string" where
  "handleGetTorrents E =
     (let G = we_engine E in we_toJson E (JArr (map (torrent_json G) [0..<eg_count G])))"

definition peer_json :: "PeerInfo \<Rightarrow> Json" where
  "peer_json p =
     JObj [(''ip'', JStr (pi_ip p)), (''port'', JInt (pi_port p)),
       (''downloadRate'', JInt (pi_downloadRate p)), (''uploadRate'', JInt (pi_uploadRate p)),
       (''progress'', JNum (pi_progress p)), (''client'', JStr (pi_client p))]"

definition handleGetTorrentPeers :: "WebEnv \<Rightarrow> string \<Rightarrow> string" where
  "handleGetTorrentPeers E h =
     (let idx = findTorrentByHash (we_engine E) h in
      if idx < 0 then ''[]''
      else we_toJson E (JArr (map peer_json (eg_peers (we_engine E) idx))))"

definition file_json :: "FileInfo \<Rightarrow> Json" where
  "file_json f =
     JObj [(''path'', JStr (fi_path f)), (''size'', JInt (fi_size f)),
       (''progress'', JNum (fi_progress f)), (''priority'', JInt (fi_priority f))]"

definition handleGetTorrentFiles :: "WebEnv \<Rightarrow> string \<Rightarrow> string" where
  "handleGetTorrentFiles E h =
     (let idx = findTorrentByHash (we_engine E) h in
      if idx < 0 then ''[]''
      else we_toJson E (JArr (map file_json (eg_files (we_engine E) idx))))"

definition handleGetStatus :: "WebEnv \<Rightarrow> string" where
  "handleGetStatus E =
     (let G = we_engine E; ts = map (eg_at G) [0..<eg_count G] in
      we_toJson E (JObj [(''torrentCount'', JInt (int (eg_count G))),
        (''downloadRate'', JInt (sum_list (map wt_downloadRate ts))),
        (''uploadRate'', JInt (sum_list (map wt_uploadRate ts))),
        (''downloadLimit'', JInt (eg_downloadLimit G)),
        (''uploadLimit'', JInt (eg_uploadLimit G))]))"

section \<open>Commands to the engine\<close>

definition engine_call :: "WebCall \<Rightarrow> WebServer \<Rightarrow> WebServer" where
  "engine_call c s = s\<lparr>ws_calls := ws_calls s @ [c]\<rparr>"

definition default_path :: "WebEnv \<Rightarrow> string" where
  "default_path E =
     (if 0 < eg_count (we_engine E) then wt_savePath (eg_at (we_engine E) 0)
      else we_home E @ ''/Downloads'')"

definition handleAddTorrent :: "WebEnv \<Rightarrow> string \<Rightarrow> WebServer \<Rightarrow> bool \<times> WebServer" where
  "handleAddTorrent E body s =
     (case we_fromJson E body of
        None \<Rightarrow> (False, s)
      | Some obj \<Rightarrow>
          let magnet = obj ''magnet''; savePath = obj ''savePath'' in
          if magnet = [] \<or> \<not> starts_with ''magnet:'' magnet then (False, s)
          else (True, engine_call
                  (AddMagnet magnet (if savePath = [] then default_path E else savePath)) s))"

text \<open>The part of the body after the blank line that follows \<open>i\<close>, up to the boundary.\<close>

definition part_data :: "string \<Rightarrow> string \<Rightarrow> nat \<Rightarrow> string option" where
  "part_data body boundary i =
     (case index_from (crlf @ crlf) body i of
        None \<Rightarrow> None
      | Some p \<Rightarrow>
          let dataStart = p + 4 in
          (case index_from boundary body dataStart of
             None \<Rightarrow> None
           | Some dataEnd \<Rightarrow> Some (ba_mid body dataStart (int dataEnd - 2 - int dataStart))))"

definition file_field :: string where
  "file_field = ''filename='' @ [CHR 0x22]"

definition path_field :: string where
  "path_field = ''name='' @ [CHR 0x22] @ ''savePath'' @ [CHR 0x22]"

definition handleUploadTorrent :: "WebEnv \<Rightarrow> string \<Rightarrow> string \<Rightarrow> WebServer \<Rightarrow> bool \<times> WebServer" where
  "handleUploadTorrent E body boundary s =
     (case find_sub file_field body of
        None \<Rightarrow> (False, s)
      | Some i \<Rightarrow>
          (case part_data body boundary i of
             None \<Rightarrow> (False, s)
           | Some fileData \<Rightarrow>
               let given =
                     (case find_sub path_field body of
                        None \<Rightarrow> []
                      | Some j \<Rightarrow>
                          (case part_data body boundary j of
                             None \<Rightarrow> [] | Some d \<Rightarrow> trimmed (we_fromUtf8 E d)));
                   savePath = (if given = [] then default_path E else given) in
               (case we_tmp E of
                  None \<Rightarrow> (False, s)
                | Some name \<Rightarrow> (True, engine_call (AddTorrentFile name fileData savePath) s))))"

definition handleRemoveTorrent :: "WebEnv \<Rightarrow> string \<Rightarrow> WebServer \<Rightarrow> bool \<times> WebServer" where
  "handleRemoveTorrent E h s =
     (let idx = findTorrentByHash (we_engine E) h in
      if idx < 0 then (False, s) else (True, engine_call (RemoveTorrent idx False) s))"

definition handlePauseTorrent :: "WebEnv \<Rightarrow> string \<Rightarrow> WebServer \<Rightarrow> bool \<times> WebServer" where
  "handlePauseTorrent E h s =
     (let idx = findTorrentByHash (we_engine E) h in
      if idx < 0 then (False, s) else (True, engine_call (PauseTorrent idx) s))"

definition handleResumeTorrent :: "WebEnv \<Rightarrow> string \<Rightarrow> WebServer \<Rightarrow> bool \<times> WebServer" where
  "handleResumeTorrent E h s =
     (let idx = findTorrentByHash (we_engine E) h in
      if idx < 0 then (False, s) else (True, engine_call (ResumeTorrent idx) s))"

section \<open>Routing\<close>

definition torrentPathSegment :: "WebEnv \<Rightarrow> string \<Rightarrow> string \<Rightarrow> string" where
  "torrentPathSegment E path tail =
     (if \<not> starts_with ''/api/torrents/'' path \<or> \<not> ends_with tail path then []
      else we_fromUtf8 E (chop (length tail) (drop 14 path)))"

text \<open>The answer to a command: done, or refused.\<close>

definition answer :: "WebEnv \<Rightarrow> nat \<Rightarrow> int \<Rightarrow> string \<Rightarrow> bool \<times> WebServer \<Rightarrow> WebServer" where
  "answer E k status message r =
     (if fst r then sendJson k 200 status_ok [] (snd r) else sendError E k status message (snd r))"

definition multipart_boundary :: "string \<Rightarrow> string" where
  "multipart_boundary ct =
     (case find_sub ''boundary='' ct of
        None \<Rightarrow> []
      | Some i \<Rightarrow>
          let b = ba_trimmed (drop (i + 9) ct) in
          ''--'' @ (if 2 \<le> length b \<and> starts_with [CHR 0x22] b \<and> ends_with [CHR 0x22] b
                   then ba_mid b 1 (int (length b) - 2) else b))"

definition post_torrents :: "WebEnv \<Rightarrow> nat \<Rightarrow> string \<Rightarrow> string \<Rightarrow> WebServer \<Rightarrow> WebServer" where
  "post_torrents E k headers body s =
     (let ct = headerValue headers ''Content-Type'' in
      if contains_text ''multipart/form-data'' ct
      then
        let boundary = multipart_boundary ct in
        if boundary = [] then sendError E k 400 ''Missing multipart boundary'' s
        else answer E k 400 ''Failed to upload torrent'' (handleUploadTorrent E body boundary s)
      else answer E k 400 ''Failed to add torrent'' (handleAddTorrent E body s))"

definition route ::
  "WebEnv \<Rightarrow> nat \<Rightarrow> string \<Rightarrow> string \<Rightarrow> string \<Rightarrow> string \<Rightarrow> WebServer \<Rightarrow> WebServer" where
  "route E k meth path headers body s =
     (if meth = ''GET'' \<and> path = ''/'' then
        (case we_page E of
           Some page \<Rightarrow> sendResponse k 200 ''OK'' page ''text/html; charset=utf-8'' [] s
         | None \<Rightarrow> sendError E k 500 ''Could not load WebUI'' s)
      else if meth = ''GET'' \<and> path = ''/api/torrents'' then sendJson k 200 (handleGetTorrents E) [] s
      else if meth = ''POST'' \<and> path = ''/api/torrents'' then post_torrents E k headers body s
      else if meth = ''GET'' \<and> path = ''/api/status'' then sendJson k 200 (handleGetStatus E) [] s
      else if meth = ''DELETE'' \<and> starts_with ''/api/torrents/'' path then
        answer E k 404 ''Torrent not found'' (handleRemoveTorrent E (we_fromUtf8 E (drop 14 path)) s)
      else if meth = ''POST'' \<and> ends_with ''/pause'' path then
        answer E k 404 ''Torrent not found''
          (handlePauseTorrent E (torrentPathSegment E path ''/pause'') s)
      else if meth = ''POST'' \<and> ends_with ''/resume'' path then
        answer E k 404 ''Torrent not found''
          (handleResumeTorrent E (torrentPathSegment E path ''/resume'') s)
      else if meth = ''GET'' \<and> ends_with ''/peers'' path then
        sendJson k 200 (handleGetTorrentPeers E (torrentPathSegment E path ''/peers'')) [] s
      else if meth = ''GET'' \<and> ends_with ''/files'' path then
        sendJson k 200 (handleGetTorrentFiles E (torrentPathSegment E path ''/files'')) [] s
      else sendError E k 404 ''Not Found'' s)"

text \<open>
  The parts of a request, as \<open>dispatch\<close> takes them apart: method, path, query, headers and body.
\<close>

record WebRequest =
  rq_method :: string
  rq_path :: string
  rq_query :: string
  rq_headers :: string
  rq_body :: string

definition parse_request :: "string \<Rightarrow> WebRequest option" where
  "parse_request requestData =
     (case find_sub [CHR 0x0A] requestData of
        None \<Rightarrow> None
      | Some firstNewline \<Rightarrow>
          let requestLine = ba_trimmed (take firstNewline requestData) in
          (case index_from '' '' requestLine 0 of
             None \<Rightarrow> None
           | Some sp1 \<Rightarrow>
               (case index_from '' '' requestLine (sp1 + 1) of
                  None \<Rightarrow> None
                | Some sp2 \<Rightarrow>
                    let target = ba_mid requestLine (sp1 + 1) (int sp2 - int sp1 - 1);
                        headerEnd = find_sub (crlf @ crlf) requestData in
                    Some \<lparr>rq_method = take sp1 requestLine,
                      rq_path = before_first CHR ''?'' target,
                      rq_query = after_first CHR ''?'' target,
                      rq_headers = (case headerEnd of Some e \<Rightarrow> take (e + 4) requestData | None \<Rightarrow> requestData),
                      rq_body = (case headerEnd of Some e \<Rightarrow> drop (e + 4) requestData | None \<Rightarrow> [])\<rparr>)))"

definition ws_dispatch :: "WebEnv \<Rightarrow> nat \<Rightarrow> string \<Rightarrow> WebServer \<Rightarrow> WebServer" where
  "ws_dispatch E k requestData s =
     (case parse_request requestData of
        None \<Rightarrow> sendError E k 400 ''Bad Request'' s
      | Some r \<Rightarrow>
          let (answered, s1) = handleAuthGates E k (rq_method r) (rq_path r) (rq_query r) (rq_headers r) s
          in if answered then s1
             else route E k (rq_method r) (rq_path r) (rq_headers r) (rq_body r) s1)"

section \<open>Assembling a request\<close>

definition set_pending :: "nat \<Rightarrow> PendingRequest \<Rightarrow> WebServer \<Rightarrow> WebServer" where
  "set_pending k r s = s\<lparr>ws_pending := (ws_pending s)(k \<mapsto> r)\<rparr>"

text \<open>The part of \<open>readMore\<close> after the headers are known.\<close>

definition await_body :: "WebEnv \<Rightarrow> nat \<Rightarrow> PendingRequest \<Rightarrow> WebServer \<Rightarrow> WebServer" where
  "await_body E k r s =
     (let needed = pr_headerEnd r + pr_contentLength r in
      if int (length (pr_buffer r)) < needed then set_pending k r s
      else ws_dispatch E k (take (nat needed) (pr_buffer r))
             (set_pending k (r\<lparr>pr_dispatched := True\<rparr>) s))"

definition readMore :: "WebEnv \<Rightarrow> nat \<Rightarrow> string \<Rightarrow> WebServer \<Rightarrow> WebServer" where
  "readMore E k chunk s =
     (case ws_pending s k of
        None \<Rightarrow> s
      | Some it \<Rightarrow>
          if pr_dispatched it then s
          else
            let r = it\<lparr>pr_buffer := pr_buffer it @ chunk\<rparr> in
            if pr_headersParsed r then await_body E k r s
            else
              (case find_sub (crlf @ crlf) (pr_buffer r) of
                 None \<Rightarrow>
                   if 32 * 1024 < length (pr_buffer r)
                   then disconnect_socket k (sendError E k 400 ''Headers too large'' (set_pending k r s))
                   else set_pending k r s
               | Some e \<Rightarrow>
                   let cl = headerValue (take (e + 4) (pr_buffer r)) ''Content-Length'';
                       n = (if cl = [] then 0 else ba_to_int cl);
                       r1 = r\<lparr>pr_headerEnd := int e + 4, pr_headersParsed := True,
                              pr_contentLength := n\<rparr> in
                   if n < 0 \<or> 200 * 1024 * 1024 < n
                   then disconnect_socket k (sendError E k 413 ''Payload too large'' (set_pending k r1 s))
                   else await_body E k r1 s))"

section \<open>The server\<close>

definition ws_stop :: "WebServer \<Rightarrow> WebServer" where
  "ws_stop s = s\<lparr>ws_listening := False, ws_pending := (\<lambda>_. None)\<rparr>"

text \<open>\<open>ok\<close> is what \<open>listen\<close> returns.\<close>

definition ws_start :: "bool \<Rightarrow> WebServer \<Rightarrow> bool \<times> WebServer" where
  "ws_start ok s = (ok, (ws_stop s)\<lparr>ws_listening := ok\<rparr>)"

definition onNewConnection :: "nat \<Rightarrow> WebServer \<Rightarrow> WebServer" where
  "onNewConnection k s = set_pending k new_request s"

definition ws_onDisconnected :: "nat \<Rightarrow> WebServer \<Rightarrow> WebServer" where
  "ws_onDisconnected k s = s\<lparr>ws_pending := (ws_pending s)(k := None)\<rparr>"

datatype WebEvent =
    WAccept nat | WBytes nat string | WGone nat | WCredentials string string
  | WStart bool | WStop

fun web_step :: "WebEnv \<times> WebEvent \<Rightarrow> WebServer \<Rightarrow> WebServer" where
  "web_step (E, WAccept k) s = (if ws_listening s then onNewConnection k s else s)"
| "web_step (E, WBytes k chunk) s = readMore E k chunk s"
| "web_step (E, WGone k) s = ws_onDisconnected k s"
| "web_step (E, WCredentials u h) s = setCredentials u h s"
| "web_step (E, WStart ok) s = snd (ws_start ok s)"
| "web_step (E, WStop) s = ws_stop s"

definition web_run :: "(WebEnv \<times> WebEvent) list \<Rightarrow> WebServer \<Rightarrow> WebServer" where
  "web_run es s = fold web_step es s"

end
