(* ===== verification/WebAuth.thy ===== *)
theory WebAuth
  imports WebServer
begin

text \<open>
  Who may use the web interface: what a request must carry to be served, where the session tokens come
  from, what the lockout of an address amounts to, and that a request does not depend on how the
  network cuts it up.
\<close>

section \<open>What a request carries\<close>

definition basic_ok :: "WebEnv \<Rightarrow> string \<Rightarrow> WebServer \<Rightarrow> bool" where
  "basic_ok E headers s \<longleftrightarrow>
     (case basic_creds E headers of None \<Rightarrow> False
      | Some (user, pass) \<Rightarrow> utf8 user = utf8 (ws_user s)
          \<and> verify (we_digests E) pass (ws_passwordHash s))"

definition locked_out :: "WebEnv \<Rightarrow> string \<Rightarrow> WebServer \<Rightarrow> bool" where
  "locked_out E ip s \<longleftrightarrow>
     (case fa_lockedUntil (failed_at ip s) of None \<Rightarrow> False | Some t \<Rightarrow> we_now E < t)"

text \<open>A live session: its token was issued at most 24 hours ago.\<close>

definition session_ok :: "WebEnv \<Rightarrow> string \<Rightarrow> WebServer \<Rightarrow> bool" where
  "session_ok E headers s \<longleftrightarrow>
     (case session_token headers of None \<Rightarrow> False
      | Some t \<Rightarrow> (case ws_tokens s t of None \<Rightarrow> False
          | Some n \<Rightarrow> now_secs E - n \<le> kSessionMaxAgeSec))"

definition password_ok :: "WebEnv \<Rightarrow> nat \<Rightarrow> string \<Rightarrow> WebServer \<Rightarrow> bool" where
  "password_ok E k headers s \<longleftrightarrow>
     \<not> locked_out E (we_peer E k) (evictExpiredFailedAuth E s) \<and> basic_ok E headers s"

text \<open>A request that signs in: a pairing link or a login, with the password.\<close>

definition signs_in :: "WebEnv \<Rightarrow> nat \<Rightarrow> WebRequest \<Rightarrow> WebServer \<Rightarrow> bool" where
  "signs_in E k r s \<longleftrightarrow> ws_user s \<noteq> []
     \<and> (pair_ok E (rq_method r) (rq_query r) s \<noteq> None
        \<or> rq_method r = ''POST'' \<and> rq_path r = ''/api/login'' \<and> password_ok E k (rq_headers r) s)"

text \<open>A request that is routed.\<close>

definition admitted :: "WebEnv \<Rightarrow> nat \<Rightarrow> WebRequest \<Rightarrow> WebServer \<Rightarrow> bool" where
  "admitted E k r s \<longleftrightarrow> ws_user s = []
     \<or> pair_ok E (rq_method r) (rq_query r) s = None
       \<and> \<not> (rq_method r = ''POST'' \<and> rq_path r = ''/api/login'')
       \<and> (session_ok E (rq_headers r) s \<or> password_ok E k (rq_headers r) s)"

text \<open>The request that bytes arriving at a socket complete.\<close>

definition completed :: "nat \<Rightarrow> string \<Rightarrow> WebServer \<Rightarrow> string option" where
  "completed k chunk s =
     (case ws_pending s k of
        None \<Rightarrow> None
      | Some it \<Rightarrow>
          let buf = pr_buffer it @ chunk in
          if pr_dispatched it then None
          else if pr_headersParsed it
          then (let needed = pr_headerEnd it + pr_contentLength it in
                if int (length buf) < needed then None else Some (take (nat needed) buf))
          else
            (case find_sub (crlf @ crlf) buf of
               None \<Rightarrow> None
             | Some e \<Rightarrow>
                 let cl = headerValue (take (e + 4) buf) ''Content-Length'';
                     n = (if cl = [] then 0 else ba_to_int cl);
                     needed = int e + 4 + n in
                 if n < 0 \<or> 200 * 1024 * 1024 < n \<or> int (length buf) < needed then None
                 else Some (take (nat needed) buf)))"

section \<open>Frames\<close>

lemma reply_fields [simp]:
  "ws_user (sendResponse k n t b c x s) = ws_user s"
  "ws_passwordHash (sendResponse k n t b c x s) = ws_passwordHash s"
  "ws_tokens (sendResponse k n t b c x s) = ws_tokens s"
  "ws_failed (sendResponse k n t b c x s) = ws_failed s"
  "ws_calls (sendResponse k n t b c x s) = ws_calls s"
  "ws_pending (sendResponse k n t b c x s) = ws_pending s"
  by (simp_all add: sendResponse_def disconnect_socket_def)

lemma json_fields [simp]:
  "ws_user (sendJson k n t x s) = ws_user s"
  "ws_passwordHash (sendJson k n t x s) = ws_passwordHash s"
  "ws_tokens (sendJson k n t x s) = ws_tokens s"
  "ws_failed (sendJson k n t x s) = ws_failed s"
  "ws_calls (sendJson k n t x s) = ws_calls s"
  "ws_pending (sendJson k n t x s) = ws_pending s"
  by (simp_all add: sendJson_def)

lemma error_fields [simp]:
  "ws_user (sendError E k n t s) = ws_user s"
  "ws_passwordHash (sendError E k n t s) = ws_passwordHash s"
  "ws_tokens (sendError E k n t s) = ws_tokens s"
  "ws_failed (sendError E k n t s) = ws_failed s"
  "ws_calls (sendError E k n t s) = ws_calls s"
  "ws_pending (sendError E k n t s) = ws_pending s"
  by (simp_all add: sendError_def)

lemma upgrade_fields [simp]:
  "ws_user (upgradeLegacyHash E p s) = ws_user s"
  "ws_tokens (upgradeLegacyHash E p s) = ws_tokens s"
  "ws_failed (upgradeLegacyHash E p s) = ws_failed s"
  "ws_calls (upgradeLegacyHash E p s) = ws_calls s"
  by (simp_all add: upgradeLegacyHash_def Let_def)

lemma table_fields [simp]:
  "ws_user (evictExpiredFailedAuth E s) = ws_user s"
  "ws_passwordHash (evictExpiredFailedAuth E s) = ws_passwordHash s"
  "ws_tokens (evictExpiredFailedAuth E s) = ws_tokens s"
  "ws_calls (evictExpiredFailedAuth E s) = ws_calls s"
  "ws_user (put_failed ip f s) = ws_user s"
  "ws_passwordHash (put_failed ip f s) = ws_passwordHash s"
  "ws_tokens (put_failed ip f s) = ws_tokens s"
  "ws_calls (put_failed ip f s) = ws_calls s"
  "ws_failed (put_failed ip f s) = AList.update ip f (ws_failed s)"
  by (simp_all add: evictExpiredFailedAuth_def put_failed_def Let_def)

lemma call_fields [simp]:
  "ws_user (engine_call c s) = ws_user s"
  "ws_tokens (engine_call c s) = ws_tokens s"
  "ws_failed (engine_call c s) = ws_failed s"
  by (simp_all add: engine_call_def)

lemma pending_fields [simp]:
  "ws_user (set_pending k r s) = ws_user s"
  "ws_passwordHash (set_pending k r s) = ws_passwordHash s"
  "ws_tokens (set_pending k r s) = ws_tokens s"
  "ws_failed (set_pending k r s) = ws_failed s"
  "ws_calls (set_pending k r s) = ws_calls s"
  "ws_user (disconnect_socket k s) = ws_user s"
  "ws_tokens (disconnect_socket k s) = ws_tokens s"
  "ws_failed (disconnect_socket k s) = ws_failed s"
  "ws_calls (disconnect_socket k s) = ws_calls s"
  by (simp_all add: set_pending_def disconnect_socket_def)

lemma checkAuth_fields [simp]:
  "ws_user (snd (checkAuth E h ip s)) = ws_user s"
  "ws_tokens (snd (checkAuth E h ip s)) = ws_tokens s"
  "ws_calls (snd (checkAuth E h ip s)) = ws_calls s"
  by (simp_all add: checkAuth_def Let_def split: option.split)

lemma checkAuth_iff:
  "fst (checkAuth E h (we_peer E k) s) \<longleftrightarrow> password_ok E k h s"
  by (auto simp: checkAuth_def password_ok_def locked_out_def basic_ok_def cte_eq Let_def
      split: option.split)

lemma checkSession_iff: "fst (checkSession E h s) \<longleftrightarrow> session_ok E h s"
  by (auto simp: checkSession_def session_ok_def split: option.split)

lemma checkSession_fields:
  "ws_user (snd (checkSession E h s)) = ws_user s"
  "ws_passwordHash (snd (checkSession E h s)) = ws_passwordHash s"
  "ws_failed (snd (checkSession E h s)) = ws_failed s"
  "ws_calls (snd (checkSession E h s)) = ws_calls s"
  "ws_tokens (snd (checkSession E h s)) t = Some n \<Longrightarrow> ws_tokens s t = Some n"
  by (auto simp: checkSession_def split: option.splits if_splits)

lemma password_ok_session:
  "password_ok E k h (snd (checkSession E h' s)) \<longleftrightarrow> password_ok E k h s"
  by (simp add: password_ok_def locked_out_def basic_ok_def failed_at_def evictExpiredFailedAuth_def
      checkSession_fields Let_def cong: option.case_cong)

text \<open>The gates let a request through exactly when it is admitted; they never call the engine.\<close>

lemma gates_through:
  "\<not> fst (handleAuthGates E k (rq_method r) (rq_path r) (rq_query r) (rq_headers r) s) \<longleftrightarrow> admitted E k r s"
  by (simp add: handleAuthGates_def admitted_def split_beta Let_def checkAuth_iff checkSession_iff
      password_ok_session split: option.split)

lemma gates_calls:
  "ws_calls (snd (handleAuthGates E k meth path query h s)) = ws_calls s"
  "ws_user (snd (handleAuthGates E k meth path query h s)) = ws_user s"
  by (simp_all add: handleAuthGates_def split_beta Let_def issueSessionCookie_def checkSession_fields
      split: option.split)

lemma gates_tokens:
  assumes "ws_tokens (snd (handleAuthGates E k (rq_method r) (rq_path r) (rq_query r) (rq_headers r) s)) t = Some n"
  shows "ws_tokens s t = Some n
    \<or> t = to_hex (we_random E) \<and> n = now_secs E \<and> signs_in E k r s"
  using assms checkSession_fields(5) [of E "rq_headers r" s t n]
  by (auto simp: handleAuthGates_def signs_in_def split_beta Let_def issueSessionCookie_def checkAuth_iff
      split: option.splits if_splits)

lemma command_fields:
  "ws_tokens (snd (handleAddTorrent E b s)) = ws_tokens s"
  "ws_tokens (snd (handleUploadTorrent E b x s)) = ws_tokens s"
  "ws_tokens (snd (handleRemoveTorrent E h s)) = ws_tokens s"
  "ws_tokens (snd (handlePauseTorrent E h s)) = ws_tokens s"
  "ws_tokens (snd (handleResumeTorrent E h s)) = ws_tokens s"
  "ws_failed (snd (handleAddTorrent E b s)) = ws_failed s"
  "ws_failed (snd (handleUploadTorrent E b x s)) = ws_failed s"
  "ws_failed (snd (handleRemoveTorrent E h s)) = ws_failed s"
  "ws_failed (snd (handlePauseTorrent E h s)) = ws_failed s"
  "ws_failed (snd (handleResumeTorrent E h s)) = ws_failed s"
  by (simp_all add: handleAddTorrent_def handleUploadTorrent_def handleRemoveTorrent_def
      handlePauseTorrent_def handleResumeTorrent_def Let_def split: option.split)

lemma answer_fields:
  "ws_tokens (answer E k n m r) = ws_tokens (snd r)" "ws_failed (answer E k n m r) = ws_failed (snd r)"
  by (simp_all add: answer_def)

lemma route_fields:
  "ws_tokens (route E k meth path h b s) = ws_tokens s"
  "ws_failed (route E k meth path h b s) = ws_failed s"
  by (simp_all add: route_def post_torrents_def answer_fields command_fields Let_def split: option.split)

section \<open>One step of the server\<close>

lemma dispatch_None: "parse_request q = None \<Longrightarrow> ws_dispatch E k q s = sendError E k 400 ''Bad Request'' s"
  by (simp add: ws_dispatch_def)

lemma dispatch_Some:
  assumes "parse_request q = Some r"
  shows "ws_dispatch E k q s =
    (let g = handleAuthGates E k (rq_method r) (rq_path r) (rq_query r) (rq_headers r) s
     in if fst g then snd g else route E k (rq_method r) (rq_path r) (rq_headers r) (rq_body r) (snd g))"
  using assms by (simp add: ws_dispatch_def split_beta Let_def)

text \<open>Bytes complete a request, which is dispatched, or leave everything but the socket alone.\<close>

lemma await_cases:
  "await_body E k r s =
     (if int (length (pr_buffer r)) < pr_headerEnd r + pr_contentLength r then set_pending k r s
      else ws_dispatch E k (take (nat (pr_headerEnd r + pr_contentLength r)) (pr_buffer r))
             (set_pending k (r\<lparr>pr_dispatched := True\<rparr>) s))"
  by (simp add: await_body_def Let_def)

lemma refuse_simps [simp]:
  "ws_calls (disconnect_socket k (sendError E k n m (set_pending k r s))) = ws_calls s"
  "ws_tokens (disconnect_socket k (sendError E k n m (set_pending k r s))) = ws_tokens s"
  "ws_failed (disconnect_socket k (sendError E k n m (set_pending k r s))) = ws_failed s"
  "ws_user (disconnect_socket k (sendError E k n m (set_pending k r s))) = ws_user s"
  by simp_all

definition only_socket :: "WebServer \<Rightarrow> WebServer \<Rightarrow> bool" where
  "only_socket s s' \<longleftrightarrow> ws_calls s' = ws_calls s \<and> ws_tokens s' = ws_tokens s \<and> ws_failed s' = ws_failed s
     \<and> ws_user s' = ws_user s"

lemma readMore_cases:
  "(completed k chunk s = None \<and> only_socket s (readMore E k chunk s))
   \<or> (\<exists>q it. completed k chunk s = Some q
        \<and> readMore E k chunk s = ws_dispatch E k q (set_pending k it s))"
proof (cases "ws_pending s k")
  case None
  then show ?thesis by (simp add: readMore_def completed_def only_socket_def)
next
  case (Some it)
  define buf where "buf = pr_buffer it @ chunk"
  consider "pr_dispatched it" | "\<not> pr_dispatched it" "pr_headersParsed it"
    | "\<not> pr_dispatched it" "\<not> pr_headersParsed it" "find_sub (crlf @ crlf) buf = None"
    | e where "\<not> pr_dispatched it" "\<not> pr_headersParsed it" "find_sub (crlf @ crlf) buf = Some e"
    by blast
  then show ?thesis
  proof cases
    case 1
    then show ?thesis using Some by (simp add: readMore_def completed_def only_socket_def)
  next
    case 2
    then show ?thesis
      using Some unfolding only_socket_def
      by (cases "int (length buf) < pr_headerEnd it + pr_contentLength it")
        (auto simp: readMore_def completed_def await_cases buf_def [symmetric])
  next
    case 3
    then show ?thesis
      using Some unfolding only_socket_def
      by (cases "32 * 1024 < length buf") (simp_all add: readMore_def completed_def buf_def [symmetric])
  next
    case (4 e)
    define cl where "cl = headerValue (take (e + 4) buf) ''Content-Length''"
    define n where "n = (if cl = [] then 0 else ba_to_int cl)"
    show ?thesis
    proof (cases "n < 0 \<or> 200 * 1024 * 1024 < n")
      case True
      then show ?thesis
        using Some 4 unfolding only_socket_def
        by (auto simp: readMore_def completed_def Let_def buf_def [symmetric] cl_def [symmetric]
            n_def [symmetric])
    next
      case False
      then show ?thesis
        using Some 4 unfolding only_socket_def
        by (cases "int (length buf) < int e + 4 + n")
          (auto simp: readMore_def completed_def await_cases buf_def [symmetric] cl_def [symmetric]
            n_def [symmetric])
    qed
  qed
qed

section \<open>Who is served\<close>

text \<open>The step of the event completes a request that signs in.\<close>

definition sign_in :: "WebEnv \<times> WebEvent \<Rightarrow> WebServer \<Rightarrow> bool" where
  "sign_in e s \<longleftrightarrow>
     (case snd e of
        WBytes k chunk \<Rightarrow>
          (case Option.bind (completed k chunk s) parse_request of
             None \<Rightarrow> False | Some r \<Rightarrow> signs_in (fst e) k r s)
      | _ \<Rightarrow> False)"

definition is_credentials :: "WebEvent \<Rightarrow> bool" where
  "is_credentials ev \<longleftrightarrow> (case ev of WCredentials _ _ \<Rightarrow> True | _ \<Rightarrow> False)"

lemma signs_in_pending [simp]: "signs_in E k r (set_pending k' it s) = signs_in E k r s"
  by (simp add: signs_in_def pair_ok_def password_ok_def locked_out_def failed_at_def basic_ok_def
      evictExpiredFailedAuth_def set_pending_def Let_def cong: option.case_cong)

lemma admitted_pending [simp]: "admitted E k r (set_pending k' it s) = admitted E k r s"
  by (simp add: admitted_def pair_ok_def password_ok_def session_ok_def locked_out_def failed_at_def
      basic_ok_def evictExpiredFailedAuth_def set_pending_def Let_def cong: option.case_cong)

lemma dispatch_tokens:
  assumes "ws_tokens (ws_dispatch E k q s) t = Some n"
  shows "ws_tokens s t = Some n
    \<or> t = to_hex (we_random E) \<and> n = now_secs E
      \<and> (\<exists>r. parse_request q = Some r \<and> signs_in E k r s)"
proof (cases "parse_request q")
  case None
  then show ?thesis using assms by (simp add: dispatch_None)
next
  case (Some r)
  then have "ws_tokens (snd (handleAuthGates E k (rq_method r) (rq_path r) (rq_query r) (rq_headers r) s)) t
      = Some n"
    using assms by (auto simp: dispatch_Some Let_def route_fields split: if_splits)
  from gates_tokens [OF this] show ?thesis using Some by blast
qed

lemma dispatch_calls:
  assumes "ws_calls (ws_dispatch E k q s) \<noteq> ws_calls s"
  shows "\<exists>r. parse_request q = Some r \<and> admitted E k r s"
proof (cases "parse_request q")
  case None
  then show ?thesis using assms by (simp add: dispatch_None)
next
  case (Some r)
  then show ?thesis
    using assms gates_through [of E k r s]
    by (auto simp: dispatch_Some Let_def gates_calls split: if_splits)
qed

lemma step_tokens:
  assumes "ws_tokens (web_step e s) t = Some n"
  shows "(ws_tokens s t = Some n \<and> \<not> is_credentials (snd e))
    \<or> t = to_hex (we_random (fst e)) \<and> n = now_secs (fst e) \<and> sign_in e s"
proof (cases e)
  case (Pair E ev)
  show ?thesis
  proof (cases ev)
    case (WBytes k chunk)
    show ?thesis
    proof (cases "completed k chunk s")
      case None
      then show ?thesis
        using readMore_cases [of k chunk s E] assms Pair WBytes
        by (simp add: only_socket_def is_credentials_def)
    next
      case (Some q)
      then obtain it where "readMore E k chunk s = ws_dispatch E k q (set_pending k it s)"
        using readMore_cases [of k chunk s E] by auto
      then show ?thesis
        using dispatch_tokens [of E k q "set_pending k it s" t n] assms Pair WBytes Some
        by (auto simp: sign_in_def is_credentials_def)
    qed
  qed (use assms Pair in \<open>auto simp: is_credentials_def onNewConnection_def set_pending_def
      ws_onDisconnected_def setCredentials_def ws_start_def ws_stop_def split: if_splits\<close>)
qed

text \<open>Every session token was issued by a sign-in since the credentials were last set.\<close>

definition issued_by ::
  "(WebEnv \<times> WebEvent) list \<Rightarrow> WebServer \<Rightarrow> string \<Rightarrow> int \<Rightarrow> bool" where
  "issued_by es s0 t n \<longleftrightarrow>
     (\<exists>pre e post. es = pre @ e # post \<and> t = to_hex (we_random (fst e)) \<and> n = now_secs (fst e)
        \<and> sign_in e (web_run pre s0) \<and> (\<forall>x \<in> set post. \<not> is_credentials (snd x)))"

lemma tokens_issued:
  assumes "ws_tokens s0 = (\<lambda>_. None)" "ws_tokens (web_run es s0) t = Some n"
  shows "issued_by es s0 t n"
  using assms(2)
proof (induction es rule: rev_induct)
  case Nil
  then show ?case using assms(1) by (simp add: web_run_def)
next
  case (snoc e es)
  from snoc.prems have "ws_tokens (web_step e (web_run es s0)) t = Some n" by (simp add: web_run_def)
  from step_tokens [OF this] show ?case
  proof
    assume "ws_tokens (web_run es s0) t = Some n \<and> \<not> is_credentials (snd e)"
    then obtain pre x post where "es = pre @ x # post" "t = to_hex (we_random (fst x))"
        "n = now_secs (fst x)" "sign_in x (web_run pre s0)" "\<forall>y \<in> set post. \<not> is_credentials (snd y)"
        "\<not> is_credentials (snd e)"
      using snoc.IH by (auto simp: issued_by_def)
    then show ?thesis
      unfolding issued_by_def by (intro exI [of _ pre] exI [of _ x] exI [of _ "post @ [e]"]) auto
  next
    assume "t = to_hex (we_random (fst e)) \<and> n = now_secs (fst e) \<and> sign_in e (web_run es s0)"
    then show ?thesis
      unfolding issued_by_def by (intro exI [of _ es] exI [of _ e] exI [of _ "[]"]) auto
  qed
qed

text \<open>
  C7: Once a user is set, the engine is called only for a request that proves itself: it carries the user
  and the password while its address is not locked out, or a session token that a request with the
  password was given at most 24 hours before, after the credentials were last set. This holds after
  every sequence of connections, bytes, changes of credentials, starts and stops.
\<close>

theorem calls_are_signed_in:
  assumes "ws_tokens s0 = (\<lambda>_. None)" "s = web_run es s0" "ws_user s \<noteq> []"
    and "ws_calls (web_step (E, WBytes k chunk) s) \<noteq> ws_calls s"
  shows "\<exists>r. Option.bind (completed k chunk s) parse_request = Some r
    \<and> (password_ok E k (rq_headers r) s
       \<or> (\<exists>t n. session_token (rq_headers r) = Some t \<and> issued_by es s0 t n
              \<and> now_secs E - n \<le> kSessionMaxAgeSec))"
proof -
  obtain q it where q: "completed k chunk s = Some q"
      "readMore E k chunk s = ws_dispatch E k q (set_pending k it s)"
    using readMore_cases [of k chunk s E] assms(4) by (auto simp: only_socket_def)
  then obtain r where r: "parse_request q = Some r" "admitted E k r s"
    using dispatch_calls [of E k q "set_pending k it s"] assms(4) by auto
  then have "session_ok E (rq_headers r) s \<or> password_ok E k (rq_headers r) s"
    using assms(3) by (auto simp: admitted_def)
  moreover have "\<exists>t n. session_token (rq_headers r) = Some t \<and> issued_by es s0 t n
      \<and> now_secs E - n \<le> kSessionMaxAgeSec" if "session_ok E (rq_headers r) s"
    using that tokens_issued [OF assms(1)] assms(2)
    by (auto simp: session_ok_def split: option.splits)
  ultimately show ?thesis using q(1) r(1) by auto
qed

text \<open>
  C8: A request that is not admitted is answered without a look at the engine: whatever the engine and the
  page hold, the server ends in the same state, with the same reply, and calls nothing.
\<close>

theorem strangers_learn_nothing:
  assumes "\<forall>r. parse_request q = Some r \<longrightarrow> \<not> admitted E k r s"
  shows "ws_dispatch (E\<lparr>we_engine := G, we_page := P, we_tmp := T\<rparr>) k q s = ws_dispatch E k q s
    \<and> ws_calls (ws_dispatch E k q s) = ws_calls s"
proof -
  let ?E = "E\<lparr>we_engine := G, we_page := P, we_tmp := T\<rparr>"
  have e: "evictExpiredFailedAuth ?E s' = evictExpiredFailedAuth E s'" for s'
    by (simp add: evictExpiredFailedAuth_def)
  have u: "upgradeLegacyHash ?E p s' = upgradeLegacyHash E p s'" for p s'
    by (simp add: upgradeLegacyHash_def)
  have b: "basic_creds ?E h = basic_creds E h" "pair_ok ?E m y s' = pair_ok E m y s'" for h m y s'
    by (simp_all add: basic_creds_def pair_ok_def pair_creds_def Let_def cong: option.case_cong if_cong)
  have a: "checkAuth ?E h ip s' = checkAuth E h ip s'" for h ip s'
    by (simp add: checkAuth_def e u b Let_def cong: option.case_cong if_cong)
  have c: "checkSession ?E h s' = checkSession E h s'" "issueSessionCookie ?E s' = issueSessionCookie E s'" for h s'
    by (simp_all add: checkSession_def issueSessionCookie_def now_secs_def Let_def cong: option.case_cong if_cong)
  have x: "sendError ?E k n m s' = sendError E k n m s'" for n m s' by (simp add: sendError_def)
  have g: "handleAuthGates ?E k m p y h s = handleAuthGates E k m p y h s" for m p y h
    by (simp add: handleAuthGates_def a b c u x Let_def cong: option.case_cong if_cong)
  show ?thesis
  proof (cases "parse_request q")
    case None
    then show ?thesis by (simp add: dispatch_None x)
  next
    case (Some r)
    then have "fst (handleAuthGates E k (rq_method r) (rq_path r) (rq_query r) (rq_headers r) s)"
      using assms gates_through [of E k r s] by blast
    then show ?thesis using Some by (simp add: dispatch_Some g gates_calls Let_def)
  qed
qed

section \<open>The lockout\<close>

lemma map_of_filter_distinct:
  assumes "distinct (map fst xs)" "map_of (filter P xs) k = Some v"
  shows "map_of xs k = Some v" "P (k, v)"
proof -
  from assms(2) have "(k, v) \<in> set xs" "P (k, v)" by (auto dest: map_of_SomeD)
  then show "map_of xs k = Some v" "P (k, v)" using assms(1) by (auto simp: map_of_eq_Some_iff)
qed

lemma distinct_keys_filter: "distinct (map fst xs) \<Longrightarrow> distinct (map fst (filter P xs))"
  by (induction xs) auto

text \<open>An entry is not locked and below five attempts, or locked at exactly five until a time in \<open>T\<close>.\<close>

definition entry_ok :: "int set \<Rightarrow> FailedAuthState \<Rightarrow> bool" where
  "entry_ok T f \<longleftrightarrow> (case fa_lockedUntil f of None \<Rightarrow> fa_attempts f < 5 | Some t \<Rightarrow> fa_attempts f = 5 \<and> t \<in> T)"

definition lock_inv :: "int set \<Rightarrow> WebServer \<Rightarrow> bool" where
  "lock_inv T s \<longleftrightarrow> distinct (map fst (ws_failed s)) \<and> length (ws_failed s) \<le> Suc kFailedAuthMax
     \<and> (\<forall>ip f. map_of (ws_failed s) ip = Some f \<longrightarrow> entry_ok T f)"

definition no_tie :: "WebEnv \<Rightarrow> WebServer \<Rightarrow> bool" where
  "no_tie E s \<longleftrightarrow> (\<forall>ip f. map_of (ws_failed s) ip = Some f \<longrightarrow> fa_lockedUntil f \<noteq> Some (we_now E))"

lemma evict_entry:
  assumes "distinct (map fst (ws_failed s))"
    and "map_of (ws_failed (evictExpiredFailedAuth E s)) ip = Some f"
  shows "map_of (ws_failed s) ip = Some f" "\<not> past_lockout (we_now E) f"
  using assms map_of_filter_distinct [OF assms(1), of "\<lambda>(ip, f). \<not> past_lockout (we_now E) f" ip f]
  by (auto simp: evictExpiredFailedAuth_def Let_def split: if_splits)

lemma evict_small: "length (ws_failed (evictExpiredFailedAuth E s)) \<le> kFailedAuthMax"
  by (simp add: evictExpiredFailedAuth_def Let_def)

lemma evict_distinct:
  "distinct (map fst (ws_failed s)) \<Longrightarrow> distinct (map fst (ws_failed (evictExpiredFailedAuth E s)))"
  by (simp add: evictExpiredFailedAuth_def Let_def distinct_keys_filter)

lemma length_update_le: "length (AList.update k v al) \<le> Suc (length al)"
  by (induction al) auto

lemma length_update_again: "length (AList.update k v' (AList.update k v al)) = length (AList.update k v al)"
  by (induction al) auto

lemma entry_ok_mono: "entry_ok T f \<Longrightarrow> T \<subseteq> T' \<Longrightarrow> entry_ok T' f"
  by (auto simp: entry_ok_def split: option.splits)

lemma lock_invD: "lock_inv T s \<Longrightarrow> map_of (ws_failed s) ip = Some f \<Longrightarrow> entry_ok T f"
  unfolding lock_inv_def by blast

lemma no_tieD: "no_tie E s \<Longrightarrow> map_of (ws_failed s) ip = Some f \<Longrightarrow> fa_lockedUntil f \<noteq> Some (we_now E)"
  unfolding no_tie_def by blast

lemma lock_inv_put:
  assumes "distinct (map fst (ws_failed s))" "length (AList.update ip f (ws_failed s)) \<le> Suc kFailedAuthMax"
    "\<And>ip' f'. map_of (ws_failed s) ip' = Some f' \<Longrightarrow> entry_ok T f'" "entry_ok T f"
  shows "lock_inv T (put_failed ip f s)"
proof -
  have "entry_ok T f'" if "map_of (AList.update ip f (ws_failed s)) ip' = Some f'" for ip' f'
    using that assms(3) [of ip' f'] assms(4) by (cases "ip' = ip") (auto simp: update_conv')
  then show ?thesis using assms(1,2) unfolding lock_inv_def by (simp add: distinct_update)
qed

lemma lock_inv_mono: "lock_inv T s \<Longrightarrow> T \<subseteq> T' \<Longrightarrow> lock_inv T' s"
  unfolding lock_inv_def using entry_ok_mono by blast

lemma lock_inv_failed: "ws_failed s' = ws_failed s \<Longrightarrow> lock_inv T s' = lock_inv T s"
  by (simp add: lock_inv_def)

lemma lock_inv_upgrade [simp]: "lock_inv T (upgradeLegacyHash E p s) = lock_inv T s"
  by (rule lock_inv_failed) simp

lemma lock_inv_check:
  assumes "lock_inv T s" "no_tie E s"
  shows "lock_inv (insert (we_now E + 5000) T) (snd (checkAuth E h ip s))"
proof -
  let ?T = "insert (we_now E + 5000) T"
  define s1 where "s1 = evictExpiredFailedAuth E s"
  define st where "st = failed_at ip s1"
  define s2 where "s2 = put_failed ip st s1"
  have kept: "entry_ok ?T f \<and> \<not> past_lockout (we_now E) f \<and> fa_lockedUntil f \<noteq> Some (we_now E)"
    if "map_of (ws_failed s1) ip' = Some f" for ip' f
  proof -
    have "distinct (map fst (ws_failed s))" using assms(1) by (simp add: lock_inv_def)
    from evict_entry [OF this that [unfolded s1_def]] show ?thesis
      using lock_invD [OF assms(1)] no_tieD [OF assms(2)] entry_ok_mono [of T f ?T] by blast
  qed
  have st: "entry_ok ?T st \<and> \<not> past_lockout (we_now E) st \<and> fa_lockedUntil st \<noteq> Some (we_now E)"
    using kept [of ip] by (auto simp: st_def failed_at_def entry_ok_def past_lockout_def split: option.splits)
  have d: "distinct (map fst (ws_failed s1))"
    using assms(1) by (simp add: s1_def lock_inv_def evict_distinct)
  have len: "length (AList.update ip f (ws_failed s1)) \<le> Suc kFailedAuthMax" for f
    using length_update_le [of ip f "ws_failed s1"] evict_small [of E s] by (simp add: s1_def)
  have s2: "lock_inv ?T s2" unfolding s2_def using d len kept st by (intro lock_inv_put) auto
  have again: "lock_inv ?T (put_failed ip f s2)" if "entry_ok ?T f" for f
    using s2 that len length_update_again
    by (intro lock_inv_put) (auto simp: s2_def distinct_update d dest: lock_invD)
  show ?thesis
  proof (cases "fa_lockedUntil st")
    case None
    then have n: "fa_attempts st < 5" using st by (simp add: entry_ok_def)
    have "entry_ok ?T \<lparr>fa_attempts = fa_attempts st + 1,
        fa_lockedUntil = (if 5 \<le> fa_attempts st + 1
          then Some (we_now E + 1000 * penalty_secs (fa_attempts st + 1)) else fa_lockedUntil st)\<rparr>"
    proof (cases "5 \<le> fa_attempts st + 1")
      case True
      then have "fa_attempts st = 4" using n by simp
      then show ?thesis by (simp add: entry_ok_def penalty_secs_def)
    qed (use None in \<open>simp add: entry_ok_def\<close>)
    moreover have "entry_ok ?T \<lparr>fa_attempts = 0, fa_lockedUntil = None\<rparr>" by (simp add: entry_ok_def)
    ultimately show ?thesis
      using s2 again None
      by (auto simp: checkAuth_def Let_def s1_def [symmetric] st_def [symmetric] s2_def [symmetric]
          split: option.split)
  next
    case (Some t)
    then have "we_now E < t" using st by (simp add: past_lockout_def)
    then show ?thesis
      using s2 Some
      by (simp add: checkAuth_def Let_def s1_def [symmetric] st_def [symmetric] s2_def [symmetric])
  qed
qed

lemma lock_inv_gates:
  assumes "lock_inv T s" "no_tie E s"
  shows "lock_inv (insert (we_now E + 5000) T) (snd (handleAuthGates E k meth path query h s))"
proof -
  let ?T = "insert (we_now E + 5000) T"
  have s: "lock_inv ?T s" using assms(1) lock_inv_mono by blast
  have c: "lock_inv ?T (snd (checkAuth E h (we_peer E k) s))" by (rule lock_inv_check [OF assms])
  have x: "lock_inv ?T (snd (checkSession E h s))"
    "lock_inv ?T (snd (checkAuth E h (we_peer E k) (snd (checkSession E h s))))"
    using s assms by (auto intro!: lock_inv_check simp: lock_inv_failed [OF checkSession_fields(3)]
        no_tie_def checkSession_fields)
  have simps: "lock_inv ?T (sendResponse k n t b y z s') = lock_inv ?T s'"
    "lock_inv ?T (sendJson k n t y s') = lock_inv ?T s'" "lock_inv ?T (sendError E k n t s') = lock_inv ?T s'"
    "lock_inv ?T (snd (issueSessionCookie E s')) = lock_inv ?T s'" for n t b y z s'
    by (rule lock_inv_failed; simp add: issueSessionCookie_def Let_def)+
  show ?thesis
    using s c x by (simp add: handleAuthGates_def split_beta Let_def simps split: option.split)
qed

lemma lock_inv_step:
  assumes "lock_inv T s" "no_tie (fst e) s"
  shows "lock_inv (insert (we_now (fst e) + 5000) T) (web_step e s)"
proof -
  obtain E ev where e: "e = (E, ev)" by (cases e)
  let ?T = "insert (we_now E + 5000) T"
  have s: "lock_inv ?T s" using assms(1) lock_inv_mono by blast
  show ?thesis
  proof (cases ev)
    case (WBytes k chunk)
    consider "only_socket s (readMore E k chunk s)"
      | q it where "readMore E k chunk s = ws_dispatch E k q (set_pending k it s)"
      using readMore_cases [of k chunk s E] by auto
    then have "lock_inv ?T (readMore E k chunk s)"
    proof cases
      case 1
      then show ?thesis using s by (simp add: only_socket_def lock_inv_def)
    next
      case (2 q it)
      let ?s = "set_pending k it s"
      have p: "lock_inv T ?s" "lock_inv ?T ?s" "no_tie E ?s"
        using assms s e by (simp_all add: lock_inv_def no_tie_def)
      show ?thesis
      proof (cases "parse_request q")
        case None
        then show ?thesis using p 2 by (simp add: dispatch_None lock_inv_def)
      next
        case (Some r)
        show ?thesis
          using lock_inv_gates [OF p(1,3), of k "rq_method r" "rq_path r" "rq_query r" "rq_headers r"] 2 Some
          by (simp add: dispatch_Some Let_def lock_inv_failed [OF route_fields(2)])
      qed
    qed
    then show ?thesis using e WBytes by simp
  qed (use s e in \<open>simp_all add: lock_inv_def onNewConnection_def set_pending_def ws_onDisconnected_def
      setCredentials_def ws_start_def ws_stop_def\<close>)
qed

text \<open>No request arrives in the very millisecond in which a lockout ends.\<close>

fun no_ties :: "(WebEnv \<times> WebEvent) list \<Rightarrow> WebServer \<Rightarrow> bool" where
  "no_ties [] s \<longleftrightarrow> True"
| "no_ties (e # es) s \<longleftrightarrow> no_tie (fst e) s \<and> no_ties es (web_step e s)"

lemma lock_inv_run:
  "lock_inv T s \<Longrightarrow> no_ties es s \<Longrightarrow> lock_inv ((\<lambda>e. we_now (fst e) + 5000) ` set es \<union> T) (web_run es s)"
proof (induction es arbitrary: s T)
  case (Cons e es)
  then have "lock_inv ((\<lambda>e. we_now (fst e) + 5000) ` set es \<union> insert (we_now (fst e) + 5000) T)
      (web_run es (web_step e s))"
    by (intro Cons.IH lock_inv_step) auto
  then show ?case by (simp add: web_run_def)
qed (simp add: web_run_def)


section \<open>Pairing\<close>

text \<open>An entry survives an eviction or is forgotten.\<close>

lemma failed_evict:
  assumes "distinct (map fst (ws_failed s))"
  shows "failed_at ip (evictExpiredFailedAuth E s) = failed_at ip s
    \<or> failed_at ip (evictExpiredFailedAuth E s) = \<lparr>fa_attempts = 0, fa_lockedUntil = None\<rparr>"
  using evict_entry(1) [OF assms, of E ip] by (auto simp: failed_at_def split: option.split)

lemma failed_put: "failed_at ip (put_failed ip' f s) = (if ip = ip' then f else failed_at ip s)"
  by (simp add: failed_at_def update_conv')

lemma failed_cong: "ws_failed s' = ws_failed s \<Longrightarrow> failed_at ip s' = failed_at ip s"
  by (simp add: failed_at_def)

lemma check_without_header:
  assumes "basic_creds E h = None"
  shows "fst (checkAuth E h ip' s) = False"
    "failed_at ip (snd (checkAuth E h ip' s)) = failed_at ip (evictExpiredFailedAuth E s)"
  using assms by (auto simp: checkAuth_def Let_def failed_put)

text \<open>
  A pairing link is a password check outside the lockout. A request \<open>GET /?pair=...\<close> that carries the
  right password is given a session whatever the state of its address, locked out or not; and one that
  carries a wrong password, without an \<open>Authorization\<close> header, counts as no attempt: every entry of the
  table stays as it was or is forgotten.
\<close>

theorem pairing_is_not_throttled:
  assumes "parse_request q = Some r" "ws_user s \<noteq> []" "rq_method r = ''GET''"
    "distinct (map fst (ws_failed s))" "basic_creds E (rq_headers r) = None"
  shows "case pair_ok E ''GET'' (rq_query r) s of
      Some pass \<Rightarrow> ws_tokens (ws_dispatch E k q s) (to_hex (we_random E)) = Some (now_secs E)
    | None \<Rightarrow> failed_at ip (ws_dispatch E k q s) \<in> {failed_at ip s, \<lparr>fa_attempts = 0, fa_lockedUntil = None\<rparr>}"
proof (cases "pair_ok E ''GET'' (rq_query r) s")
  case (Some pass)
  then show ?thesis
    using assms by (simp add: dispatch_Some handleAuthGates_def issueSessionCookie_def Let_def split_beta)
next
  case None
  let ?c = "snd (checkSession E (rq_headers r) s)"
  have f: "ws_failed ?c = ws_failed s" by (rule checkSession_fields)
  have "failed_at ip (evictExpiredFailedAuth E ?c) = failed_at ip (evictExpiredFailedAuth E s)"
    by (rule failed_cong) (simp add: evictExpiredFailedAuth_def f Let_def)
  then have e: "failed_at ip (evictExpiredFailedAuth E ?c)
      \<in> {failed_at ip s, \<lparr>fa_attempts = 0, fa_lockedUntil = None\<rparr>}"
    using failed_evict [OF assms(4), of ip E] by auto
  let ?g = "snd (handleAuthGates E k (rq_method r) (rq_path r) (rq_query r) (rq_headers r) s)"
  have r: "failed_at ip (sendResponse k n t b y z s') = failed_at ip s'" for n t b y z s'
    by (rule failed_cong) simp
  have g: "failed_at ip ?g \<in> {failed_at ip s, \<lparr>fa_attempts = 0, fa_lockedUntil = None\<rparr>}"
    using assms None e failed_cong [OF f]
    by (simp add: handleAuthGates_def split_beta check_without_header r)
  have "failed_at ip (ws_dispatch E k q s) = failed_at ip ?g"
    using assms(1) by (simp add: dispatch_Some Let_def failed_cong [OF route_fields(2)])
  then show ?thesis using g None by simp
qed

section \<open>Putting a request together\<close>

lemma starts_with_append: "starts_with p s \<Longrightarrow> starts_with p (s @ x)"
  by (auto simp: starts_with_def) (metis length_take min.absorb_iff2 min.commute take_eq_Nil2 diff_is_0_eq append_Nil2)

lemma starts_with_take: "length p \<le> m \<Longrightarrow> starts_with p (take m s) = starts_with p s"
  by (simp add: starts_with_def min_def)

lemma find_sub_bound: "find_sub p s = Some i \<Longrightarrow> i + length p \<le> length s"
proof (induction s arbitrary: i)
  case (Cons c s)
  show ?case
  proof (cases "starts_with p (c # s)")
    case True
    then have "length (take (length p) (c # s)) = length p" by (simp add: starts_with_def)
    then show ?thesis using True Cons.prems by simp
  qed (use Cons in auto)
qed (auto split: if_splits)

lemma find_sub_take_Some:
  "find_sub p s = Some i \<Longrightarrow> i + length p \<le> m \<Longrightarrow> find_sub p (take m s) = Some i"
proof (induction s arbitrary: i m)
  case (Cons c s)
  then show ?case
  proof (cases m)
    case (Suc m')
    show ?thesis
    proof (cases "starts_with p (c # s)")
      case True
      then show ?thesis using Cons.prems Suc starts_with_take [of p m "c # s"] by simp
    next
      case False
      then obtain j where j: "find_sub p s = Some j" "i = Suc j" using Cons.prems by auto
      then have "find_sub p (take m' s) = Some j" using Cons.prems Suc by (intro Cons.IH) auto
      moreover have "\<not> starts_with p (c # take m' s)"
        using False starts_with_take [of p m "c # s"] Cons.prems(2) Suc by auto
      ultimately show ?thesis using Suc j by simp
    qed
  qed (auto split: if_splits)
qed auto

lemma find_sub_take_None:
  "find_sub p s = Some i \<Longrightarrow> m < i + length p \<Longrightarrow> find_sub p (take m s) = None"
proof (induction s arbitrary: i m)
  case (Cons c s)
  show ?case
  proof (rule ccontr)
    assume "find_sub p (take m (c # s)) \<noteq> None"
    then obtain j where j: "find_sub p (take m (c # s)) = Some j" by blast
    show False
    proof (cases m)
      case 0
      then show False using j Cons.prems by (auto simp: starts_with_def split: if_splits)
    next
      case (Suc m')
      show False
      proof (cases "starts_with p (c # s)")
        case True
        then show False using find_sub_bound [OF j] Cons.prems by auto
      next
        case False
        then obtain i' where i: "find_sub p s = Some i'" "i = Suc i'" using Cons.prems by auto
        have "\<not> starts_with p (c # take m' s)"
          using False starts_with_append [of p "take m (c # s)" "drop m (c # s)"] Suc by auto
        then show False using Cons.IH [OF i(1), of m'] j Suc Cons.prems i by auto
      qed
    qed
  qed
qed (auto split: if_splits)

text \<open>The length the headers of \<open>q\<close> announce, \<open>e\<close> being where the blank line starts.\<close>

definition content_length :: "string \<Rightarrow> nat \<Rightarrow> int" where
  "content_length q e =
     (let cl = headerValue (take (e + 4) q) ''Content-Length'' in if cl = [] then 0 else ba_to_int cl)"

text \<open>A whole request: headers of at most 32 KiB and exactly the body they announce.\<close>

definition whole_request :: "string \<Rightarrow> bool" where
  "whole_request q \<longleftrightarrow>
     (case find_sub (crlf @ crlf) q of None \<Rightarrow> False
      | Some e \<Rightarrow> e + 4 \<le> 32 * 1024 \<and> 0 \<le> content_length q e
          \<and> content_length q e \<le> 200 * 1024 * 1024 \<and> int (length q) = int e + 4 + content_length q e)"

text \<open>What is kept of the socket while the request arrives.\<close>

definition arriving :: "string \<Rightarrow> string \<Rightarrow> PendingRequest" where
  "arriving q b =
     (case find_sub (crlf @ crlf) q of None \<Rightarrow> new_request
      | Some e \<Rightarrow>
          if length b < e + 4 then new_request\<lparr>pr_buffer := b\<rparr>
          else \<lparr>pr_buffer = b, pr_contentLength = content_length q e, pr_headerEnd = int e + 4,
                 pr_headersParsed = True, pr_dispatched = False\<rparr>)"

lemma find_sub_append: "find_sub p s = Some i \<Longrightarrow> find_sub p (s @ x) = Some i"
proof (induction s arbitrary: i)
  case (Cons c s)
  show ?case
  proof (cases "starts_with p (c # s)")
    case True
    then show ?thesis using Cons.prems starts_with_append [of p "c # s" x] by simp
  next
    case False
    then obtain j where j: "find_sub p s = Some j" "i = Suc j" using Cons.prems by auto
    have "length p \<le> length (c # s)" using find_sub_bound [OF j(1)] by simp
    then have "take (length p) ((c # s) @ x) = take (length p) (c # s)" by (subst take_append) simp
    then have "\<not> starts_with p (c # s @ x)" using False by (simp add: starts_with_def)
    then show ?thesis using Cons.IH [OF j(1)] j(2) by simp
  qed
next
  case Nil
  then show ?case by (cases x) (auto simp: starts_with_def split: if_splits)
qed

lemma prefix_take:
  assumes "b @ c = take (length (b @ c)) z"
  shows "b = take (length b) z"
proof -
  have "b = take (length b) (b @ c)" by simp
  also have "\<dots> = take (length b) (take (length (b @ c)) z)" by (rule arg_cong [OF assms])
  also have "\<dots> = take (length b) z" by (simp only: take_take length_append min_absorb1 [OF le_add1])
  finally show ?thesis .
qed

lemma length_blank: "length (crlf @ crlf) = 4"
  by (simp add: crlf_def)

lemma arriving_step:
  assumes q: "whole_request q" and s: "ws_pending s k = Some (arriving q b)"
    and whole: "b @ c = take (length (b @ c)) (q @ x)" and b: "length b < length q"
  shows "readMore E k c s =
    (if length (b @ c) < length q then set_pending k (arriving q (b @ c)) s
     else ws_dispatch E k q (set_pending k ((arriving q (b @ c))\<lparr>pr_dispatched := True\<rparr>) s))"
proof -
  obtain e where e: "find_sub (crlf @ crlf) q = Some e" "e + 4 \<le> 32 * 1024" "0 \<le> content_length q e"
      "content_length q e \<le> 200 * 1024 * 1024" "int (length q) = int e + 4 + content_length q e"
    using q by (auto simp: whole_request_def split: option.splits)
  define m where "m = length (b @ c)"
  define bc where "bc = b @ c"
  have bc: "bc = take m (q @ x)" "length bc = m"
    unfolding bc_def m_def by (rule whole) (rule refl)
  have le: "e + 4 \<le> length q" using e by linarith
  have full: "find_sub (crlf @ crlf) (q @ x) = Some e" by (rule find_sub_append [OF e(1)])
  have early: "find_sub (crlf @ crlf) bc = None" if "m < e + 4"
    using find_sub_take_None [OF full, unfolded length_blank] that by (simp add: bc(1))
  have late: "find_sub (crlf @ crlf) bc = Some e" if "e + 4 \<le> m"
    using find_sub_take_Some [OF full, unfolded length_blank] that by (simp add: bc(1))
  have headers: "take (e + 4) bc = take (e + 4) q" if "e + 4 \<le> m"
    using that le by (simp add: bc min_def)
  have all: "take (length q) bc = q" if "length q \<le> m" using that by (simp add: bc min_def)
  have needed: "nat (int e + 4 + content_length q e) = length q" using e(5) by linarith
  have cl: "(if headerValue (take (e + 4) q) ''Content-Length'' = [] then 0
      else ba_to_int (headerValue (take (e + 4) q) ''Content-Length'')) = content_length q e"
    by (simp add: content_length_def Let_def)
  have mb: "length b \<le> m" by (simp add: m_def)
  consider "m < e + 4" | "length b < e + 4" "e + 4 \<le> m" | "e + 4 \<le> length b" using mb by linarith
  then show ?thesis
  proof cases
    case 1
    then show ?thesis
      using s e(2) early le mb
      by (simp add: readMore_def arriving_def e(1) new_request_def bc_def [symmetric] bc(2))
  next
    case 2
    then show ?thesis
      using s e(3-5) late headers all needed cl
      by (simp add: readMore_def arriving_def e(1) new_request_def bc_def [symmetric] bc(2) await_cases Let_def)
  next
    case 3
    then show ?thesis
      using s e(5) mb all needed
      by (simp add: readMore_def arriving_def e(1) bc_def [symmetric] bc(2) await_cases)
  qed
qed

lemma login_pending:
  "ws_pending (upgradeLegacyHash E p s) = ws_pending s"
  "ws_pending (put_failed ip f s) = ws_pending s"
  "ws_pending (evictExpiredFailedAuth E s) = ws_pending s"
  "ws_pending (snd (checkSession E h s)) = ws_pending s"
  by (simp_all add: upgradeLegacyHash_def put_failed_def evictExpiredFailedAuth_def checkSession_def Let_def
      split: option.split)

lemma check_pending: "ws_pending (snd (checkAuth E h ip s)) = ws_pending s"
  by (simp add: checkAuth_def Let_def login_pending split: option.split)

lemma gates_pending: "ws_pending (snd (handleAuthGates E k meth path query h s)) = ws_pending s"
  by (simp add: handleAuthGates_def split_beta Let_def issueSessionCookie_def login_pending check_pending
      split: option.split)

lemma route_pending: "ws_pending (route E k meth path h b s) = ws_pending s"
  by (simp add: route_def post_torrents_def answer_def handleAddTorrent_def handleUploadTorrent_def
      handleRemoveTorrent_def handlePauseTorrent_def handleResumeTorrent_def engine_call_def Let_def
      split: option.split)

lemma dispatch_pending: "ws_pending (ws_dispatch E k q s) = ws_pending s"
  by (cases "parse_request q")
    (simp_all add: dispatch_None dispatch_Some Let_def gates_pending route_pending)

lemma set_pending_again: "set_pending k r' (set_pending k r s) = set_pending k r' s"
  by (simp add: set_pending_def)

lemma arriving_run:
  assumes "whole_request q" "b @ concat (map snd pre) = take (length (b @ concat (map snd pre))) (q @ x)"
    "length (b @ concat (map snd pre)) < length q" "ws_pending s k = Some (arriving q b)"
  shows "fold (\<lambda>(E, c). readMore E k c) pre s
    = set_pending k (arriving q (b @ concat (map snd pre))) s"
  using assms(2-4)
proof (induction pre arbitrary: b s)
  case Nil
  then show ?case by (cases s) (auto simp: set_pending_def)
next
  case (Cons ec pre)
  obtain E c where ec: "ec = (E, c)" by (cases ec)
  have "(b @ c) @ concat (map snd pre) = take (length ((b @ c) @ concat (map snd pre))) (q @ x)"
    using Cons.prems(1) by (simp only: ec list.map concat.simps snd_conv append_assoc)
  then have bc: "b @ c = take (length (b @ c)) (q @ x)" by (rule prefix_take)
  have step: "readMore E k c s = set_pending k (arriving q (b @ c)) s"
    using arriving_step [OF assms(1) Cons.prems(3) bc] Cons.prems(2) ec by simp
  have "fold (\<lambda>(E, c). readMore E k c) pre (set_pending k (arriving q (b @ c)) s)
      = set_pending k (arriving q ((b @ c) @ concat (map snd pre))) (set_pending k (arriving q (b @ c)) s)"
    using Cons.prems ec by (intro Cons.IH) (simp_all add: set_pending_def)
  then show ?case by (simp add: ec step set_pending_again)
qed

lemma arriving_new: "whole_request q \<Longrightarrow> arriving q [] = new_request"
  by (auto simp: arriving_def whole_request_def new_request_def split: option.splits)

lemma late_bytes:
  assumes "ws_pending s k = Some it" "pr_dispatched it"
  shows "fold (\<lambda>(E, c). readMore E k c) post s = s"
  using assms by (induction post arbitrary: s) (auto simp: readMore_def)


end
