(* ===== verification/WebSamples.thy ===== *)
theory WebSamples
  imports WebAuth
begin

text \<open>
  A concrete server with one torrent, requests to it, and the properties of \<open>WebAuth\<close> applied to them.
\<close>

section \<open>Concrete inputs\<close>

definition sample_web_torrent :: WebTorrent where
  "sample_web_torrent = \<lparr>wt_name = ''n'', wt_savePath = ''/d'', wt_totalSize = 1, wt_totalDone = 0,
     wt_progress = 0, wt_downloadRate = 0, wt_uploadRate = 0, wt_numPeers = 0, wt_numSeeds = 0,
     wt_stateString = [], wt_paused = False, wt_ratio = 0\<rparr>"

definition sample_web_engine :: WebEngine where
  "sample_web_engine = \<lparr>eg_count = 1, eg_at = (\<lambda>_. sample_web_torrent), eg_hashAt = (\<lambda>_. ''ab''),
     eg_index = (\<lambda>h. if h = ''ab'' then 0 else -1), eg_peers = (\<lambda>_. []), eg_files = (\<lambda>_. []),
     eg_downloadLimit = 0, eg_uploadLimit = 0\<rparr>"

text \<open>A world whose codecs are the identity: the password \<open>x\<close> has the legacy digest \<open>78\<close>.\<close>

definition sample_web :: "int \<Rightarrow> WebEnv" where
  "sample_web now = \<lparr>we_digests = \<lparr>dg_pbkdf2 = (\<lambda>p s i n. p), dg_sha256 = (\<lambda>p. p)\<rparr>,
     we_fromBase64 = (\<lambda>s. s), we_fromPercent = (\<lambda>s. s), we_fromUtf8 = (\<lambda>s. s),
     we_fromJson = (\<lambda>_. None), we_toJson = (\<lambda>_. []), we_page = None, we_home = ''/h'', we_now = now,
     we_salt = [1], we_random = [7], we_tmp = None, we_peer = (\<lambda>_. ''ip''), we_engine = sample_web_engine\<rparr>"

definition sample_signed_in :: "(WebEnv \<times> WebEvent) list" where
  "sample_signed_in = [(sample_web 0, WStart True), (sample_web 0, WCredentials ''u'' ''78''), (sample_web 0, WAccept 0)]"

definition sample_request :: "string \<Rightarrow> string \<Rightarrow> string" where
  "sample_request line creds = line @ '' HTTP/1.1'' @ crlf @ ''Authorization: Basic '' @ creds @ crlf @ crlf"

definition sample_pause :: string where
  "sample_pause = sample_request ''POST /api/torrents/ab/pause'' ''u:x''"

lemmas text_evals = crlf_def starts_with_def index_from_def ba_trimmed_def trim_by_def ascii_space_def
  code_def ba_mid_def before_first_def after_first_def contains_text_def

lemma sample_pause_parts:
  "find_sub (crlf @ crlf) sample_pause = Some 62"
  "length sample_pause = 66"
  "headerValue sample_pause ''Content-Length'' = []"
  "headerValue sample_pause ''Cookie'' = []"
  "headerValue sample_pause ''Authorization'' = ''Basic u:x''"
  "parse_request sample_pause = Some \<lparr>rq_method = ''POST'', rq_path = ''/api/torrents/ab/pause'',
     rq_query = [], rq_headers = sample_pause, rq_body = []\<rparr>"
  by (simp_all add: sample_pause_def sample_request_def text_evals headerValue_def parse_request_def)

lemma sample_whole: "whole_request sample_pause"
  by (simp add: whole_request_def sample_pause_parts content_length_def)

lemma sample_verify:
  "verify (we_digests (sample_web now)) ''x'' ''78''" "\<not> verify (we_digests (sample_web now)) ''y'' ''78''"
  by (simp_all add: verify_def isLegacy_def starts_with_def sample_web_def cte_eq utf8_def utf8_char_def
      code_def to_hex_def hex_digit_def latin1_def)

lemma sample_state:
  "ws_pending (web_run sample_signed_in mkWebServer) = [0 \<mapsto> new_request]"
  "ws_user (web_run sample_signed_in mkWebServer) = ''u''"
  "ws_passwordHash (web_run sample_signed_in mkWebServer) = ''78''"
  "ws_tokens (web_run sample_signed_in mkWebServer) = (\<lambda>_. None)"
  "ws_failed (web_run sample_signed_in mkWebServer) = []"
  "ws_calls (web_run sample_signed_in mkWebServer) = []"
  by (simp_all add: sample_signed_in_def web_run_def mkWebServer_def ws_start_def ws_stop_def
      setCredentials_def onNewConnection_def set_pending_def)

definition sample_guess :: string where
  "sample_guess = sample_request ''POST /api/torrents/ab/pause'' ''u:y''"

definition sample_pair :: string where
  "sample_pair = ''GET /?pair=u:x HTTP/1.1'' @ crlf @ crlf"

lemma sample_guess_parts:
  "find_sub (crlf @ crlf) sample_guess = Some 62"
  "length sample_guess = 66"
  "headerValue sample_guess ''Content-Length'' = []"
  "headerValue sample_guess ''Cookie'' = []"
  "headerValue sample_guess ''Authorization'' = ''Basic u:y''"
  "parse_request sample_guess = Some \<lparr>rq_method = ''POST'', rq_path = ''/api/torrents/ab/pause'',
     rq_query = [], rq_headers = sample_guess, rq_body = []\<rparr>"
  by (simp_all add: sample_guess_def sample_request_def text_evals headerValue_def parse_request_def)

lemma sample_pair_parts:
  "headerValue sample_pair ''Authorization'' = []"
  "parse_request sample_pair = Some \<lparr>rq_method = ''GET'', rq_path = ''/'', rq_query = ''pair=u:x'',
     rq_headers = sample_pair, rq_body = []\<rparr>"
  by (simp_all add: sample_pair_def text_evals headerValue_def parse_request_def)

lemma sample_creds:
  "basic_creds (sample_web now) sample_pause = Some (''u'', ''x'')"
  "basic_creds (sample_web now) sample_guess = Some (''u'', ''y'')"
  "basic_creds (sample_web now) sample_pair = None"
  by (simp_all add: basic_creds_def sample_pause_parts sample_guess_parts sample_pair_parts text_evals)
    (simp_all add: sample_web_def text_evals)

lemma sample_now: "we_now (sample_web n) = n"
  by (simp add: sample_web_def)

lemma sample_no_session:
  "session_token sample_pause = None" "session_token sample_guess = None"
  by (simp_all add: session_token_def sample_pause_parts sample_guess_parts)

lemma sample_completed:
  assumes "ws_pending s 0 = Some new_request"
  shows "completed 0 sample_pause s = Some sample_pause" "completed 0 sample_guess s = Some sample_guess"
  using assms by (simp_all add: completed_def new_request_def sample_pause_parts sample_guess_parts)

lemma sample_password:
  assumes "ws_user s = ''u''" "ws_passwordHash s = ''78''" "ws_failed s = []"
  shows "password_ok (sample_web now) k sample_pause s" "\<not> password_ok (sample_web now) k sample_guess s"
  using assms by (simp_all add: password_ok_def locked_out_def basic_ok_def sample_creds sample_verify
      evictExpiredFailedAuth_def failed_at_def)

lemma sample_pause_calls:
  "ws_calls (web_step (sample_web 0, WBytes 0 sample_pause) (web_run sample_signed_in mkWebServer))
     = [PauseTorrent 0]"
proof -
  let ?s = "web_run sample_signed_in mkWebServer"
  obtain it where it: "readMore (sample_web 0) 0 sample_pause ?s
      = ws_dispatch (sample_web 0) 0 sample_pause (set_pending 0 it ?s)"
    using readMore_cases [of 0 sample_pause ?s "sample_web 0"] sample_completed [of ?s] sample_state(1) by auto
  have p: "pair_ok E ''POST'' y s = None" for E y s by (simp add: pair_ok_def)
  have c: "checkSession (sample_web 0) sample_pause s = (False, s)" for s
    by (simp add: checkSession_def sample_no_session)
  have a: "fst (checkAuth (sample_web 0) sample_pause (we_peer (sample_web 0) 0) (set_pending 0 it ?s))"
    unfolding checkAuth_iff by (rule sample_password) (simp_all add: sample_state)
  have i: "torrentPathSegment (sample_web 0) ''/api/torrents/ab/pause'' ''/pause'' = ''ab''"
    by (simp add: torrentPathSegment_def text_evals ends_with_def chop_def) (simp add: sample_web_def)
  have "handlePauseTorrent (sample_web 0) ''ab'' s = (True, engine_call (PauseTorrent 0) s)" for s
    by (simp add: handlePauseTorrent_def findTorrentByHash_def) (simp add: sample_web_def sample_web_engine_def)
  then show ?thesis
    using a by (simp add: it dispatch_Some [OF sample_pause_parts(6)] handleAuthGates_def p c split_beta
        Let_def sample_state route_def text_evals ends_with_def i answer_def)
      (simp add: engine_call_def sample_state)
qed

theorem calls_are_signed_in_witness:
  "\<exists>r. Option.bind (completed 0 sample_pause (web_run sample_signed_in mkWebServer)) parse_request = Some r
    \<and> (password_ok (sample_web 0) 0 (rq_headers r) (web_run sample_signed_in mkWebServer)
       \<or> (\<exists>t n. session_token (rq_headers r) = Some t \<and> issued_by sample_signed_in mkWebServer t n
              \<and> now_secs (sample_web 0) - n \<le> kSessionMaxAgeSec))"
  by (rule calls_are_signed_in [OF _ refl])
    (simp_all add: sample_state sample_pause_calls del: web_step.simps, simp add: mkWebServer_def)

theorem strangers_learn_nothing_witness:
  "ws_dispatch ((sample_web 0)\<lparr>we_engine := sample_web_engine\<lparr>eg_count := 0\<rparr>, we_page := Some ''p'', we_tmp := None\<rparr>)
       0 sample_guess (web_run sample_signed_in mkWebServer)
     = ws_dispatch (sample_web 0) 0 sample_guess (web_run sample_signed_in mkWebServer)
    \<and> ws_calls (ws_dispatch (sample_web 0) 0 sample_guess (web_run sample_signed_in mkWebServer))
      = ws_calls (web_run sample_signed_in mkWebServer)"
proof (rule strangers_learn_nothing)
  show "\<forall>r. parse_request sample_guess = Some r
      \<longrightarrow> \<not> admitted (sample_web 0) 0 r (web_run sample_signed_in mkWebServer)"
    using sample_password(2) [OF sample_state(2,3,5)]
    by (simp add: sample_guess_parts admitted_def sample_state session_ok_def sample_no_session)
qed

definition sample_guessed :: "(WebEnv \<times> WebEvent) list" where
  "sample_guessed = sample_signed_in @ [(sample_web 0, WBytes 0 sample_guess), (sample_web 1, WAccept 1)]"

lemma sample_no_ties: "no_ties sample_guessed mkWebServer"
proof -
  let ?s = "web_run sample_signed_in mkWebServer"
  obtain it where it: "readMore (sample_web 0) 0 sample_guess ?s
      = ws_dispatch (sample_web 0) 0 sample_guess (set_pending 0 it ?s)"
    using readMore_cases [of 0 sample_guess ?s "sample_web 0"] sample_completed [of ?s] sample_state(1) by auto
  have split: "no_ties (xs @ ys) s \<longleftrightarrow> no_ties xs s \<and> no_ties ys (web_run xs s)" for xs ys s
    by (induction xs arbitrary: s) (simp_all add: web_run_def)
  have "no_ties sample_signed_in mkWebServer"
    by (simp add: sample_signed_in_def no_tie_def mkWebServer_def ws_start_def ws_stop_def setCredentials_def)
  moreover have "no_tie (sample_web 1) (readMore (sample_web 0) 0 sample_guess ?s)"
  proof -
    have "lock_inv {} (set_pending 0 it ?s)" "no_tie (sample_web 0) (set_pending 0 it ?s)"
      by (simp_all add: lock_inv_def no_tie_def sample_state)
    from lock_inv_gates [OF this, of 0 "''POST''" "''/api/torrents/ab/pause''" "[]" sample_guess]
    have "lock_inv {5000} (readMore (sample_web 0) 0 sample_guess ?s)"
      by (simp add: it dispatch_Some [OF sample_guess_parts(6)] Let_def lock_inv_failed [OF route_fields(2)]
          sample_now)
    from lock_invD [OF this] have "fa_lockedUntil f \<noteq> Some 1"
      if "map_of (ws_failed (readMore (sample_web 0) 0 sample_guess ?s)) ip = Some f" for ip f
      using that by (fastforce simp: entry_ok_def)
    then show ?thesis unfolding no_tie_def sample_now by blast
  qed
  ultimately show ?thesis
    by (simp add: sample_guessed_def split) (simp add: no_tie_def sample_state)
qed


definition sample_locked :: WebServer where
  "sample_locked = (web_run sample_signed_in mkWebServer)
     \<lparr>ws_failed := [(''ip'', \<lparr>fa_attempts = 5, fa_lockedUntil = Some 9999\<rparr>)]\<rparr>"

theorem pairing_is_not_throttled_witness:
  "case pair_ok (sample_web 0) ''GET'' ''pair=u:x'' sample_locked of
      Some pass \<Rightarrow> ws_tokens (ws_dispatch (sample_web 0) 0 sample_pair sample_locked)
        (to_hex (we_random (sample_web 0))) = Some (now_secs (sample_web 0))
    | None \<Rightarrow> failed_at ''ip'' (ws_dispatch (sample_web 0) 0 sample_pair sample_locked)
        \<in> {failed_at ''ip'' sample_locked, \<lparr>fa_attempts = 0, fa_lockedUntil = None\<rparr>}"
  using pairing_is_not_throttled [OF sample_pair_parts(2), of sample_locked "sample_web 0" "''ip''" 0]
  by (simp add: sample_locked_def sample_state sample_creds del: option.case)


end
