(* ===== verification/RssFeeds.thy ===== *)
theory RssFeeds
  imports QtText
begin

text \<open>
  \<open>services/integrations/rssmanager.cpp\<close>: the feeds, their items, and what is downloaded from them. A
  feed document is the list of tokens of \<open>QXmlStreamReader\<close>. The regular expressions, the date parser
  and the order in which a \<open>QSet\<close> lists its members are Qt's, a record \<open>RssEnv\<close>. What the manager asks of
  the engine and of the network is the list \<open>rs_out\<close>; times are in ms.
\<close>

section \<open>Data\<close>

record RssFeed =
  rf_url :: string
  rf_name :: string
  rf_savePath :: string
  rf_filterPattern :: string
  rf_enabled :: bool
  rf_autoDownload :: bool
  rf_checkIntervalMin :: int
  rf_lastChecked :: "int option"

definition new_feed :: "string \<Rightarrow> RssFeed" where
  "new_feed url = \<lparr>rf_url = url, rf_name = url, rf_savePath = [], rf_filterPattern = [],
     rf_enabled = True, rf_autoDownload = False, rf_checkIntervalMin = 30, rf_lastChecked = None\<rparr>"

record RssItem =
  ri_title :: string
  ri_link :: string
  ri_description :: string
  ri_pubDate :: "int option"
  ri_size :: int
  ri_downloaded :: bool

definition new_item :: RssItem where
  "new_item = \<lparr>ri_title = [], ri_link = [], ri_description = [], ri_pubDate = None, ri_size = 0,
     ri_downloaded = False\<rparr>"

text \<open>\<open>re_regex p\<close> is the case-insensitive search for \<open>p\<close>, none when \<open>p\<close> is no expression.\<close>

record RssEnv =
  re_regex :: "string \<Rightarrow> (string \<Rightarrow> bool) option"
  re_date :: "string \<Rightarrow> int option"
  re_order :: "string set \<Rightarrow> string list"
  re_tmp :: "int \<Rightarrow> string"

datatype RssOut = OutMagnet string string | OutLocal string string | OutFetch string string
  | OutFeed string | OutTorrentFile string string

datatype RssSignal = FeedAdded RssFeed | FeedUpdated nat "RssItem list" | FeedExists
  | FeedNetError string | FeedXmlError | ItemAutoDownloaded string string

record RssStore =
  st_feeds :: "RssFeed list"
  st_links :: "string list"

record RssManager =
  rs_session :: bool
  rs_savePath :: string
  rs_feeds :: "RssFeed list"
  rs_items :: "nat \<Rightarrow> RssItem list option"
  rs_links :: "string set"
  rs_timer :: int
  rs_store :: RssStore
  rs_out :: "RssOut list"
  rs_signals :: "RssSignal list"

definition rs_emit :: "RssSignal \<Rightarrow> RssManager \<Rightarrow> RssManager" where
  "rs_emit x s = s\<lparr>rs_signals := rs_signals s @ [x]\<rparr>"

definition rs_ask :: "RssOut \<Rightarrow> RssManager \<Rightarrow> RssManager" where
  "rs_ask x s = s\<lparr>rs_out := rs_out s @ [x]\<rparr>"

text \<open>\<open>m_items.value(i)\<close>.\<close>

definition itemsForFeed :: "RssManager \<Rightarrow> nat \<Rightarrow> RssItem list" where
  "itemsForFeed s i = (case rs_items s i of None \<Rightarrow> [] | Some xs \<Rightarrow> xs)"

section \<open>Persistence\<close>

definition saveFeeds :: "RssEnv \<Rightarrow> RssManager \<Rightarrow> RssManager" where
  "saveFeeds R s =
     (let downloaded = re_order R (rs_links s);
          kept = (if 5000 < length downloaded then drop (length downloaded - 5000) downloaded else downloaded)
      in s\<lparr>rs_store := \<lparr>st_feeds = rs_feeds s, st_links = kept\<rparr>\<rparr>)"

definition loadFeeds :: "RssManager \<Rightarrow> RssManager" where
  "loadFeeds s = s\<lparr>rs_feeds := st_feeds (rs_store s), rs_links := set (st_links (rs_store s))\<rparr>"

section \<open>The list of feeds\<close>

definition setupTimers :: "RssManager \<Rightarrow> RssManager" where
  "setupTimers s =
     (let m = foldl (\<lambda>m f. if rf_enabled f \<and> 0 < rf_checkIntervalMin f \<and> rf_checkIntervalMin f < m
                           then rf_checkIntervalMin f else m) 30 (rs_feeds s)
      in s\<lparr>rs_timer := m * 60 * 1000\<rparr>)"

definition checkFeed :: "nat \<Rightarrow> RssManager \<Rightarrow> RssManager" where
  "checkFeed i s = (if length (rs_feeds s) \<le> i then s else rs_ask (OutFeed (rf_url (rs_feeds s ! i))) s)"

definition addFeed :: "RssEnv \<Rightarrow> string \<Rightarrow> RssManager \<Rightarrow> RssManager" where
  "addFeed R url s =
     (let t = trimmed url in
      if t = [] then s
      else if list_ex (\<lambda>f. rf_url f = t) (rs_feeds s) then rs_emit FeedExists s
      else
        let s1 = saveFeeds R (s\<lparr>rs_feeds := rs_feeds s @ [new_feed t]\<rparr>);
            s2 = rs_emit (FeedAdded (new_feed t)) s1
        in checkFeed (length (rs_feeds s2) - 1) s2)"

text \<open>The items of the feeds behind the removed one move with them.\<close>

definition removeFeed :: "RssEnv \<Rightarrow> nat \<Rightarrow> RssManager \<Rightarrow> RssManager" where
  "removeFeed R i s =
     (if length (rs_feeds s) \<le> i then s
      else
        let items = (rs_items s)(i := None);
            shifted = (\<lambda>j. if j < i then items j else items (j + 1))
        in setupTimers (saveFeeds R
             (s\<lparr>rs_feeds := take i (rs_feeds s) @ drop (i + 1) (rs_feeds s), rs_items := shifted\<rparr>)))"

definition setFeedEnabled :: "RssEnv \<Rightarrow> nat \<Rightarrow> bool \<Rightarrow> RssManager \<Rightarrow> RssManager" where
  "setFeedEnabled R i on s =
     (if length (rs_feeds s) \<le> i then s
      else saveFeeds R (s\<lparr>rs_feeds := (rs_feeds s)[i := (rs_feeds s ! i)\<lparr>rf_enabled := on\<rparr>]\<rparr>))"

definition updateFeed :: "RssEnv \<Rightarrow> nat \<Rightarrow> RssFeed \<Rightarrow> RssManager \<Rightarrow> RssManager" where
  "updateFeed R i f s =
     (if length (rs_feeds s) \<le> i then s
      else setupTimers (saveFeeds R (s\<lparr>rs_feeds := (rs_feeds s)[i := f]\<rparr>)))"

text \<open>\<open>secsTo\<close>: whole seconds, towards zero.\<close>

definition secs_to :: "int \<Rightarrow> int \<Rightarrow> int" where
  "secs_to a b = (if a \<le> b then (b - a) div 1000 else - ((a - b) div 1000))"

definition due :: "int \<Rightarrow> RssFeed \<Rightarrow> bool" where
  "due now f \<longleftrightarrow> rf_enabled f
     \<and> \<not> (case rf_lastChecked f of None \<Rightarrow> False | Some t \<Rightarrow> secs_to t now < rf_checkIntervalMin f * 60)"

definition checkAllFeeds :: "int \<Rightarrow> RssManager \<Rightarrow> RssManager" where
  "checkAllFeeds now s =
     fold (\<lambda>i t. if due now (rs_feeds t ! i) then checkFeed i t else t) [0..<length (rs_feeds s)] s"

definition setSession :: "string \<Rightarrow> RssManager \<Rightarrow> RssManager" where
  "setSession path s = s\<lparr>rs_session := True, rs_savePath := path\<rparr>"

text \<open>The slot that runs 1.5 s after \<open>setSession\<close>.\<close>

definition refetch_empty :: "RssManager \<Rightarrow> RssManager" where
  "refetch_empty s =
     fold (\<lambda>i t. if rf_enabled (rs_feeds t ! i) \<and> itemsForFeed t i = [] then checkFeed i t else t)
       [0..<length (rs_feeds s)] s"

section \<open>Downloading\<close>

definition addFromLink :: "string \<Rightarrow> string \<Rightarrow> RssManager \<Rightarrow> RssManager" where
  "addFromLink link path s =
     (if \<not> rs_session s \<or> link = [] then s
      else if starts_with ''magnet:'' link then rs_ask (OutMagnet link path) s
      else if \<not> starts_with ''http'' link then rs_ask (OutLocal link path) s
      else rs_ask (OutFetch link path) s)"

text \<open>The reply to a fetched torrent: \<open>None\<close> is a network error, \<open>can_write\<close> whether the file opens.\<close>

definition onTorrentReply :: "RssEnv \<Rightarrow> int \<Rightarrow> bool \<Rightarrow> string option \<Rightarrow> string \<Rightarrow> RssManager \<Rightarrow> RssManager" where
  "onTorrentReply R now can_write reply path s =
     (case reply of None \<Rightarrow> s
      | Some body \<Rightarrow>
          if body = [] \<or> hd body \<noteq> CHR ''d'' then s
          else if \<not> can_write then s
          else rs_ask (OutTorrentFile (re_tmp R now) path) s)"

definition feed_path :: "RssManager \<Rightarrow> RssFeed \<Rightarrow> string" where
  "feed_path s f = (if rf_savePath f = [] then rs_savePath s else rf_savePath f)"

text \<open>One turn of the loop over the items: the manager and the items so far.\<close>

definition auto_item ::
  "(string \<Rightarrow> bool) option \<Rightarrow> RssFeed \<Rightarrow> string \<Rightarrow> RssItem \<Rightarrow> RssManager \<times> RssItem list
     \<Rightarrow> RssManager \<times> RssItem list" where
  "auto_item regex f path it acc =
     (let (s, done) = acc in
      if ri_downloaded it then (s, done @ [it])
      else if (case regex of None \<Rightarrow> False | Some m \<Rightarrow> \<not> m (ri_title it)) then (s, done @ [it])
      else
        let s1 = addFromLink (ri_link it) path s;
            s2 = s1\<lparr>rs_links := insert (ri_link it) (rs_links s1)\<rparr>
        in (rs_emit (ItemAutoDownloaded (rf_name f) (ri_title it)) s2,
            done @ [it\<lparr>ri_downloaded := True\<rparr>]))"

definition autoDownloadMatching :: "RssEnv \<Rightarrow> nat \<Rightarrow> RssManager \<Rightarrow> RssManager" where
  "autoDownloadMatching R i s =
     (if \<not> rs_session s \<or> length (rs_feeds s) \<le> i then s
      else
        let f = rs_feeds s ! i in
        if rf_filterPattern f \<noteq> [] \<and> re_regex R (rf_filterPattern f) = None
        then s\<lparr>rs_items := (rs_items s)(i \<mapsto> itemsForFeed s i)\<rparr>
        else
          let regex = (if rf_filterPattern f = [] then None else re_regex R (rf_filterPattern f));
              (s1, items) = fold (auto_item regex f (feed_path s f)) (itemsForFeed s i) (s, [])
          in saveFeeds R (s1\<lparr>rs_items := (rs_items s1)(i \<mapsto> items)\<rparr>))"

definition downloadItem :: "RssEnv \<Rightarrow> nat \<Rightarrow> nat \<Rightarrow> RssManager \<Rightarrow> RssManager" where
  "downloadItem R i j s =
     (if \<not> rs_session s \<or> length (rs_feeds s) \<le> i then s
      else
        let items = itemsForFeed s i; s0 = s\<lparr>rs_items := (rs_items s)(i \<mapsto> items)\<rparr> in
        if length items \<le> j then s0
        else
          let it = items ! j;
              s1 = addFromLink (ri_link it) (feed_path s (rs_feeds s ! i)) s0
          in saveFeeds R (s1\<lparr>rs_items := (rs_items s1)(i \<mapsto> items[j := it\<lparr>ri_downloaded := True\<rparr>]),
               rs_links := insert (ri_link it) (rs_links s1)\<rparr>))"

section \<open>Reading a feed\<close>

text \<open>\<open>XBad\<close> is where the document stops being well-formed.\<close>

datatype XTok = XStart string "(string \<times> string) list" | XEnd string | XText string | XBad

text \<open>\<open>readElementText\<close>: a child element is an error.\<close>

fun read_text :: "XTok list \<Rightarrow> (string \<times> XTok list) option" where
  "read_text (XText t # ts) =
     (case read_text ts of None \<Rightarrow> None | Some (u, r) \<Rightarrow> Some (t @ u, r))"
| "read_text (XEnd _ # ts) = Some ([], ts)"
| "read_text _ = None"

record XmlState =
  xs_inItem :: bool
  xs_inChannel :: bool
  xs_cur :: RssItem
  xs_title :: string
  xs_items :: "RssItem list"

definition attr :: "(string \<times> string) list \<Rightarrow> string \<Rightarrow> string" where
  "attr as n = (case map_of as n of None \<Rightarrow> [] | Some v \<Rightarrow> v)"

definition to_long_or_0 :: "string \<Rightarrow> int" where
  "to_long_or_0 s = (case to_long_long (trimmed s) of None \<Rightarrow> 0 | Some v \<Rightarrow> v)"

definition on_cur :: "(RssItem \<Rightarrow> RssItem) \<Rightarrow> XmlState \<Rightarrow> XmlState" where
  "on_cur g x = x\<lparr>xs_cur := g (xs_cur x)\<rparr>"

text \<open>The elements of an item that are read as text, and what is done with it.\<close>

definition text_field :: "RssEnv \<Rightarrow> string \<Rightarrow> (string \<Rightarrow> RssItem \<Rightarrow> RssItem) option" where
  "text_field R = map_of
     [(''title'', \<lambda>t it. it\<lparr>ri_title := t\<rparr>),
      (''link'', \<lambda>t it. it\<lparr>ri_link := t\<rparr>),
      (''description'', \<lambda>t it. it\<lparr>ri_description := t\<rparr>),
      (''summary'', \<lambda>t it. it\<lparr>ri_description := t\<rparr>),
      (''pubDate'', \<lambda>t it. it\<lparr>ri_pubDate := re_date R (trimmed t)\<rparr>),
      (''published'', \<lambda>t it. it\<lparr>ri_pubDate := re_date R (trimmed t)\<rparr>),
      (''updated'', \<lambda>t it. it\<lparr>ri_pubDate := re_date R (trimmed t)\<rparr>),
      (''torrent:magnetURI'', \<lambda>t it. it\<lparr>ri_link := t\<rparr>),
      (''magnetURI'', \<lambda>t it. it\<lparr>ri_link := t\<rparr>),
      (''torrent:contentLength'', \<lambda>t it. it\<lparr>ri_size := to_long_or_0 t\<rparr>),
      (''contentLength'', \<lambda>t it. it\<lparr>ri_size := to_long_or_0 t\<rparr>)]"

definition enclosure :: "(string \<times> string) list \<Rightarrow> RssItem \<Rightarrow> RssItem" where
  "enclosure as it =
     (let url = attr as ''url''; len = attr as ''length'';
          it1 = (if url \<noteq> [] then it\<lparr>ri_link := url\<rparr> else it)
      in if len \<noteq> [] then it1\<lparr>ri_size := to_long_or_0 len\<rparr> else it1)"

text \<open>
  A start element: either it is handled at once, or the text of the element is read and then handled.
\<close>

datatype XAct = Now XmlState | ReadText "string \<Rightarrow> XmlState"

definition on_start :: "RssEnv \<Rightarrow> string \<Rightarrow> (string \<times> string) list \<Rightarrow> XmlState \<Rightarrow> XAct" where
  "on_start R tag as x =
     (if tag = ''channel'' then Now (x\<lparr>xs_inChannel := True\<rparr>)
      else if tag = ''item'' \<or> tag = ''entry'' then Now (x\<lparr>xs_inItem := True, xs_cur := new_item\<rparr>)
      else if xs_inItem x then
        (if tag = ''link'' \<and> map_of as ''href'' \<noteq> None
         then Now (on_cur (\<lambda>it. it\<lparr>ri_link := attr as ''href''\<rparr>) x)
         else if tag = ''enclosure'' then Now (on_cur (enclosure as) x)
         else (case text_field R tag of None \<Rightarrow> Now x | Some g \<Rightarrow> ReadText (\<lambda>t. on_cur (g t) x)))
      else if xs_inChannel x \<and> tag = ''title'' then ReadText (\<lambda>t. x\<lparr>xs_title := t\<rparr>)
      else Now x)"

definition on_end :: "string set \<Rightarrow> string \<Rightarrow> XmlState \<Rightarrow> XmlState" where
  "on_end links tag x =
     (if tag = ''item'' \<or> tag = ''entry'' then
        let x1 = x\<lparr>xs_inItem := False\<rparr> in
        if ri_link (xs_cur x1) = [] then x1
        else
          let it = (if ri_link (xs_cur x1) \<in> links then (xs_cur x1)\<lparr>ri_downloaded := True\<rparr> else xs_cur x1)
          in x1\<lparr>xs_cur := it, xs_items := xs_items x1 @ [it]\<rparr>
      else if tag = ''channel'' then x\<lparr>xs_inChannel := False\<rparr>
      else x)"

lemma read_text_shorter: "read_text ts = Some (t, r) \<Longrightarrow> length r < length ts"
  by (induction ts arbitrary: t r rule: read_text.induct) (auto split: option.splits)

function read_tokens :: "RssEnv \<Rightarrow> string set \<Rightarrow> XTok list \<Rightarrow> XmlState \<Rightarrow> XmlState option" where
  "read_tokens R links [] x = Some x"
| "read_tokens R links (XStart tag as # ts) x =
     (case on_start R tag as x of
        Now x1 \<Rightarrow> read_tokens R links ts x1
      | ReadText g \<Rightarrow>
          (case read_text ts of None \<Rightarrow> None | Some (t, r) \<Rightarrow> read_tokens R links r (g t)))"
| "read_tokens R links (XEnd tag # ts) x = read_tokens R links ts (on_end links tag x)"
| "read_tokens R links (XText t # ts) x = read_tokens R links ts x"
| "read_tokens R links (XBad # ts) x = None"
  by pat_completeness auto
termination
  by (relation "measure (\<lambda>(R, links, ts, x). length ts)") (auto dest: read_text_shorter)

definition parseFeedXml :: "RssEnv \<Rightarrow> nat \<Rightarrow> XTok list \<Rightarrow> RssManager \<Rightarrow> RssManager" where
  "parseFeedXml R i ts s =
     (case read_tokens R (rs_links s) ts
             \<lparr>xs_inItem = False, xs_inChannel = False, xs_cur = new_item, xs_title = [], xs_items = []\<rparr> of
        None \<Rightarrow> rs_emit FeedXmlError s
      | Some x \<Rightarrow>
          let s1 = (if xs_title x \<noteq> [] \<and> i < length (rs_feeds s)
                    then s\<lparr>rs_feeds := (rs_feeds s)[i := (rs_feeds s ! i)\<lparr>rf_name := xs_title x\<rparr>]\<rparr> else s);
              s2 = rs_emit (FeedUpdated i (xs_items x)) (s1\<lparr>rs_items := (rs_items s1)(i \<mapsto> xs_items x)\<rparr>)
          in if i < length (rs_feeds s2) \<and> rf_autoDownload (rs_feeds s2 ! i)
             then autoDownloadMatching R i s2 else s2)"

text \<open>The position of a feed by its address.\<close>

fun find_feed :: "string \<Rightarrow> RssFeed list \<Rightarrow> nat option" where
  "find_feed u [] = None"
| "find_feed u (f # fs) = (if rf_url f = u then Some 0 else map_option Suc (find_feed u fs))"

text \<open>The reply to a feed request: \<open>None\<close> is a network error.\<close>

definition onFeedReply :: "RssEnv \<Rightarrow> int \<Rightarrow> string \<Rightarrow> XTok list option \<Rightarrow> RssManager \<Rightarrow> RssManager" where
  "onFeedReply R now url reply s =
     (case find_feed url (rs_feeds s) of
        None \<Rightarrow> s
      | Some i \<Rightarrow>
          (case reply of
             None \<Rightarrow> rs_emit (FeedNetError (rf_name (rs_feeds s ! i))) s
           | Some ts \<Rightarrow>
               saveFeeds R (parseFeedXml R i ts
                 (s\<lparr>rs_feeds := (rs_feeds s)[i := (rs_feeds s ! i)\<lparr>rf_lastChecked := Some now\<rparr>]\<rparr>))))"

section \<open>Events\<close>

datatype RssEvent = EvAdd string | EvRemove nat | EvEnable nat bool | EvUpdate nat RssFeed
  | EvCheckAll int | EvSession string | EvRefetch | EvReply int string "XTok list option"
  | EvTorrent int bool "string option" string

fun rss_step :: "RssEnv \<Rightarrow> RssEvent \<Rightarrow> RssManager \<Rightarrow> RssManager" where
  "rss_step R (EvAdd u) s = addFeed R u s"
| "rss_step R (EvRemove i) s = removeFeed R i s"
| "rss_step R (EvEnable i b) s = setFeedEnabled R i b s"
| "rss_step R (EvUpdate i f) s = updateFeed R i f s"
| "rss_step R (EvCheckAll now) s = checkAllFeeds now s"
| "rss_step R (EvSession p) s = setSession p s"
| "rss_step R EvRefetch s = refetch_empty s"
| "rss_step R (EvReply now u r) s = onFeedReply R now u r s"
| "rss_step R (EvTorrent now w r p) s = onTorrentReply R now w r p s"

definition rss_run :: "RssEnv \<Rightarrow> RssEvent list \<Rightarrow> RssManager \<Rightarrow> RssManager" where
  "rss_run R es s = fold (rss_step R) es s"

section \<open>The links asked for\<close>

fun link_of :: "RssOut \<Rightarrow> string option" where
  "link_of (OutMagnet l p) = Some l"
| "link_of (OutLocal l p) = Some l"
| "link_of (OutFetch l p) = Some l"
| "link_of _ = None"

definition asked :: "RssManager \<Rightarrow> string list" where
  "asked s = List.map_filter link_of (rs_out s)"

definition init_xml :: XmlState where
  "init_xml = \<lparr>xs_inItem = False, xs_inChannel = False, xs_cur = new_item, xs_title = [], xs_items = []\<rparr>"

text \<open>Every link occurs once in a document.\<close>

definition links_once :: "RssEnv \<Rightarrow> XTok list \<Rightarrow> bool" where
  "links_once R ts \<longleftrightarrow>
     (case read_tokens R {} ts init_xml of None \<Rightarrow> True | Some x \<Rightarrow> distinct (map ri_link (xs_items x)))"

definition reply_once :: "RssEnv \<Rightarrow> RssEvent \<Rightarrow> bool" where
  "reply_once R ev \<longleftrightarrow> (case ev of EvReply _ _ (Some ts) \<Rightarrow> links_once R ts | _ \<Rightarrow> True)"

lemma asked_frames [simp]:
  "asked (rs_emit x s) = asked s" "asked (saveFeeds R s) = asked s" "asked (setupTimers s) = asked s"
  "rs_links (rs_emit x s) = rs_links s" "rs_links (saveFeeds R s) = rs_links s"
  "rs_links (setupTimers s) = rs_links s" "rs_links (rs_ask o' s) = rs_links s"
  "rs_session (rs_emit x s) = rs_session s" "rs_feeds (rs_emit x s) = rs_feeds s"
  "rs_items (rs_emit x s) = rs_items s"
  by (simp_all add: asked_def rs_emit_def saveFeeds_def setupTimers_def rs_ask_def Let_def)

lemma asked_updates [simp]:
  "asked (s\<lparr>rs_items := X\<rparr>) = asked s" "asked (s\<lparr>rs_feeds := F\<rparr>) = asked s"
  "asked (s\<lparr>rs_links := L\<rparr>) = asked s" "asked (s\<lparr>rs_session := b, rs_savePath := p\<rparr>) = asked s"
  by (simp_all add: asked_def)

lemma asked_ask: "asked (rs_ask o' s) = asked s @ (case link_of o' of None \<Rightarrow> [] | Some l \<Rightarrow> [l])"
  by (simp add: asked_def rs_ask_def map_filter_simps List.map_filter_def split: option.split)

lemma asked_addFromLink:
  "rs_session s \<Longrightarrow> l \<noteq> [] \<Longrightarrow> asked (addFromLink l p s) = asked s @ [l]"
  "rs_links (addFromLink l p s) = rs_links s" "rs_session (addFromLink l p s) = rs_session s"
  "rs_feeds (addFromLink l p s) = rs_feeds s" "rs_items (addFromLink l p s) = rs_items s"
  by (simp_all add: addFromLink_def asked_ask) (simp_all add: rs_ask_def)

text \<open>Nothing is asked for twice, and whatever was is in the set of links.\<close>

definition once :: "RssManager \<Rightarrow> bool" where
  "once s \<longleftrightarrow> distinct (asked s) \<and> set (asked s) \<subseteq> rs_links s"

lemma once_cong: "asked s' = asked s \<Longrightarrow> rs_links s' = rs_links s \<Longrightarrow> once s' = once s"
  by (simp add: once_def)

definition fresh_items :: "string set \<Rightarrow> RssItem list \<Rightarrow> bool" where
  "fresh_items links items \<longleftrightarrow> distinct (map ri_link items)
     \<and> (\<forall>it \<in> set items. ri_link it \<noteq> [] \<and> (\<not> ri_downloaded it \<longrightarrow> ri_link it \<notin> links))"

lemma once_auto:
  assumes "once s" "rs_session s" "fresh_items (rs_links s) items"
  shows "once (fst (fold (auto_item m f p) items (s, d)))"
  using assms
proof (induction items arbitrary: s d)
  case (Cons it items)
  show ?case
  proof (cases "ri_downloaded it \<or> (case m of None \<Rightarrow> False | Some g \<Rightarrow> \<not> g (ri_title it))")
    case True
    then have "auto_item m f p it (s, d) = (s, d @ [it])" by (auto simp: auto_item_def)
    then show ?thesis using Cons by (simp add: fresh_items_def)
  next
    case False
    let ?l = "ri_link it"
    define t where "t = rs_emit (ItemAutoDownloaded (rf_name f) (ri_title it))
        ((addFromLink ?l p s)\<lparr>rs_links := insert ?l (rs_links (addFromLink ?l p s))\<rparr>)"
    have step: "auto_item m f p it (s, d) = (t, d @ [it\<lparr>ri_downloaded := True\<rparr>])"
      using False by (auto simp: auto_item_def t_def Let_def)
    have l: "?l \<noteq> []" "?l \<notin> rs_links s" using Cons.prems(3) False by (auto simp: fresh_items_def)
    have t: "asked t = asked s @ [?l]" "rs_links t = insert ?l (rs_links s)" "rs_session t"
      using l Cons.prems(2) by (simp_all add: t_def asked_addFromLink)
    have "once t" using Cons.prems(1) l t by (auto simp: once_def)
    moreover have "fresh_items (rs_links t) items"
      using Cons.prems(3) t(2) by (auto simp: fresh_items_def) (metis image_eqI)+
    ultimately show ?thesis using Cons.IH [of t] t by (simp add: step)
  qed
qed simp

lemma once_autoDownload:
  assumes "once s" "fresh_items (rs_links s) (itemsForFeed s i)"
  shows "once (autoDownloadMatching R i s)"
proof (cases "rs_session s")
  case True
  let ?f = "rs_feeds s ! i"
  let ?m = "if rf_filterPattern ?f = [] then None else re_regex R (rf_filterPattern ?f)"
  let ?r = "fold (auto_item ?m ?f (feed_path s ?f)) (itemsForFeed s i) (s, [])"
  have "once (fst ?r)" by (rule once_auto [OF assms(1) True assms(2)])
  then have "once (saveFeeds R ((fst ?r)\<lparr>rs_items := X\<rparr>))" for X unfolding once_def by simp
  moreover have "once (s\<lparr>rs_items := X\<rparr>)" for X using assms(1) unfolding once_def by simp
  ultimately show ?thesis using assms(1) by (auto simp: autoDownloadMatching_def Let_def split_beta)
qed (use assms in \<open>simp add: autoDownloadMatching_def\<close>)

section \<open>What the reader yields\<close>

definition same_read :: "string set \<Rightarrow> XmlState \<Rightarrow> XmlState \<Rightarrow> bool" where
  "same_read links x y \<longleftrightarrow> xs_inItem x = xs_inItem y \<and> xs_inChannel x = xs_inChannel y
     \<and> ri_link (xs_cur x) = ri_link (xs_cur y) \<and> map ri_link (xs_items x) = map ri_link (xs_items y)
     \<and> (\<forall>it \<in> set (xs_items x). ri_link it \<noteq> [] \<and> (\<not> ri_downloaded it \<longrightarrow> ri_link it \<notin> links))"

lemma same_end:
  "same_read links x y \<Longrightarrow> same_read links (on_end links tag x) (on_end {} tag y)"
  by (auto simp: same_read_def on_end_def Let_def)

lemma same_text_field:
  assumes "text_field R tag = Some g" "ri_link it = ri_link it'"
  shows "ri_link (g t it) = ri_link (g t it')"
  using map_of_SomeD [OF assms(1) [unfolded text_field_def]] assms(2) by auto

lemma same_start:
  assumes "same_read links x y"
  shows "case on_start R tag as x of
      Now x' \<Rightarrow> (\<exists>y'. on_start R tag as y = Now y' \<and> same_read links x' y')
    | ReadText g \<Rightarrow> (\<exists>h. on_start R tag as y = ReadText h \<and> (\<forall>t. same_read links (g t) (h t)))"
proof -
  have cur: "same_read links (on_cur g x) (on_cur h y)" if "ri_link (g (xs_cur x)) = ri_link (h (xs_cur y))" for g h
    using that assms by (simp add: same_read_def on_cur_def)
  have enc: "ri_link (enclosure as (xs_cur x)) = ri_link (enclosure as (xs_cur y))"
    using assms by (simp add: enclosure_def same_read_def Let_def)
  have field: "same_read links (on_cur (g t) x) (on_cur (g t) y)" if "text_field R tag = Some g" for g t
    using cur [of "g t" "g t"] same_text_field [OF that] assms unfolding same_read_def by blast
  have in_eq: "xs_inItem x = xs_inItem y" "xs_inChannel x = xs_inChannel y" using assms by (simp_all add: same_read_def)
  have href: "same_read links (on_cur (\<lambda>it. it\<lparr>ri_link := attr as ''href''\<rparr>) x)
      (on_cur (\<lambda>it. it\<lparr>ri_link := attr as ''href''\<rparr>) y)"
    by (rule cur) simp
  have flags: "same_read links (x\<lparr>xs_inChannel := True\<rparr>) (y\<lparr>xs_inChannel := True\<rparr>)"
    "same_read links (x\<lparr>xs_inItem := True, xs_cur := new_item\<rparr>) (y\<lparr>xs_inItem := True, xs_cur := new_item\<rparr>)"
    "same_read links (x\<lparr>xs_title := t\<rparr>) (y\<lparr>xs_title := t\<rparr>)" for t
    using assms by (simp_all add: same_read_def)
  show ?thesis
  proof (cases "tag = ''channel'' \<or> tag = ''item'' \<or> tag = ''entry''")
    case True
    then show ?thesis using flags(1,2) by (auto simp: on_start_def)
  next
    case outer: False
    show ?thesis
    proof (cases "xs_inItem x")
      case True
      consider "tag = ''link'' \<and> map_of as ''href'' \<noteq> None"
        | "\<not> (tag = ''link'' \<and> map_of as ''href'' \<noteq> None)" "tag = ''enclosure''"
        | "\<not> (tag = ''link'' \<and> map_of as ''href'' \<noteq> None)" "tag \<noteq> ''enclosure''" by blast
      then show ?thesis
      proof cases
        case 1
        then show ?thesis using outer True in_eq href by (simp add: on_start_def)
      next
        case 2
        then show ?thesis using True in_eq cur [of "enclosure as" "enclosure as"] enc
          by (simp add: on_start_def)
      next
        case 3
        have no: "(tag = ''link'' \<and> map_of as ''href'' \<noteq> None) = False" using 3(1) by blast
        have "on_start R tag as z = (case text_field R tag of None \<Rightarrow> Now z
            | Some g \<Rightarrow> ReadText (\<lambda>t. on_cur (g t) z))" if "xs_inItem z" for z
          unfolding on_start_def no using outer that 3(2) by simp
        then show ?thesis using True in_eq assms field by (cases "text_field R tag") auto
      qed
    next
      case False
      then show ?thesis using outer in_eq assms flags(3) by (auto simp: on_start_def)
    qed
  qed
qed

lemma same_tokens:
  assumes "read_tokens R links ts x = Some x'" "same_read links x y"
  shows "\<exists>y'. read_tokens R {} ts y = Some y' \<and> same_read links x' y'"
  using assms
proof (induction R links ts x arbitrary: y rule: read_tokens.induct)
  case (2 R links tag as ts x)
  show ?case
  proof (cases "on_start R tag as x")
    case (Now x1)
    then obtain y1 where "on_start R tag as y = Now y1" "same_read links x1 y1"
      using same_start [OF 2(4), of R tag as] by auto
    then show ?thesis using 2(1) [OF Now] 2(3) Now by simp
  next
    case (ReadText g)
    then obtain h where h: "on_start R tag as y = ReadText h" "\<And>t. same_read links (g t) (h t)"
      using same_start [OF 2(4), of R tag as] by auto
    obtain t r where tr: "read_text ts = Some (t, r)"
      using 2(3) ReadText by (auto split: option.splits)
    then show ?thesis using 2(2) [OF ReadText tr refl] 2(3) ReadText h by simp
  qed
qed (auto intro: same_end)

lemma document_fresh:
  assumes "links_once R ts" "read_tokens R links ts init_xml = Some x"
  shows "fresh_items links (xs_items x)"
proof -
  have "same_read links init_xml init_xml" by (simp add: same_read_def init_xml_def)
  from same_tokens [OF assms(2) this] obtain y where
    "read_tokens R {} ts init_xml = Some y" "same_read links x y" by blast
  then show ?thesis using assms(1) by (auto simp: links_once_def fresh_items_def same_read_def)
qed

lemma once_parse:
  assumes "once s" "links_once R ts"
  shows "once (parseFeedXml R i ts s)"
proof (cases "read_tokens R (rs_links s) ts init_xml")
  case None
  then show ?thesis using assms(1) by (simp add: parseFeedXml_def init_xml_def once_def)
next
  case (Some x)
  define s1 where "s1 = (if xs_title x \<noteq> [] \<and> i < length (rs_feeds s)
      then s\<lparr>rs_feeds := (rs_feeds s)[i := (rs_feeds s ! i)\<lparr>rf_name := xs_title x\<rparr>]\<rparr> else s)"
  define s2 where "s2 = rs_emit (FeedUpdated i (xs_items x)) (s1\<lparr>rs_items := (rs_items s1)(i \<mapsto> xs_items x)\<rparr>)"
  have o: "once s2" "rs_links s2 = rs_links s" "itemsForFeed s2 i = xs_items x"
    using assms(1) by (auto simp: s2_def s1_def once_def asked_def rs_emit_def itemsForFeed_def)
  have "once (autoDownloadMatching R i s2)"
    using document_fresh [OF assms(2) Some] o by (intro once_autoDownload) simp_all
  then show ?thesis
    using Some o(1) by (simp add: parseFeedXml_def init_xml_def Let_def s1_def [symmetric] s2_def [symmetric])
qed

section \<open>Asked for once\<close>

lemma once_simps [simp]:
  "once (rs_emit x s) = once s" "once (saveFeeds R s) = once s" "once (setupTimers s) = once s"
  "once (s\<lparr>rs_items := X\<rparr>) = once s" "once (s\<lparr>rs_feeds := F\<rparr>) = once s"
  "once (s\<lparr>rs_feeds := F, rs_items := X\<rparr>) = once s" "once (setSession p s) = once s"
  by (simp_all add: once_def asked_def setSession_def)
    (simp_all add: asked_def [symmetric])

lemma once_ask: "link_of x = None \<Longrightarrow> once (rs_ask x s) = once s"
  by (simp add: once_def asked_ask)

lemma once_checkFeed [simp]: "once (checkFeed i s) = once s"
  by (simp add: checkFeed_def once_ask)

lemma once_fold:
  assumes "\<And>i t. once (h i t) = once t"
  shows "once (fold h is s) = once s"
  using assms by (induction "is" arbitrary: s) simp_all

lemma once_step:
  assumes "once s" "reply_once R ev"
  shows "once (rss_step R ev s)"
proof (cases ev)
  case (EvReply now u r)
  show ?thesis
  proof (cases r)
    case None
    then show ?thesis using assms EvReply by (auto simp: onFeedReply_def split: option.split)
  next
    case (Some ts)
    then show ?thesis
      using assms EvReply by (auto simp: onFeedReply_def reply_once_def intro!: once_parse split: option.split)
  qed
next
  case (EvCheckAll now)
  have "once (if due now (rs_feeds t ! i) then checkFeed i t else t) = once t" for i t by simp
  then show ?thesis using assms EvCheckAll by (simp add: checkAllFeeds_def once_fold)
next
  case EvRefetch
  have "once (if rf_enabled (rs_feeds t ! i) \<and> itemsForFeed t i = [] then checkFeed i t else t) = once t" for i t
    by simp
  then show ?thesis using assms EvRefetch by (simp add: refetch_empty_def once_fold)
next
  case (EvTorrent now w r p)
  then show ?thesis using assms by (simp add: onTorrentReply_def once_ask split: option.split)
qed (use assms in \<open>simp_all add: addFeed_def removeFeed_def setFeedEnabled_def updateFeed_def Let_def\<close>)

text \<open>
  C17: The automatic download asks for every link at most once: whatever feeds are added, removed, edited and
  polled, whatever the replies are, and whichever rules match, no link goes to the engine or to the
  network twice, as long as no feed document lists a link twice. That includes links whose fetch failed:
  they are not tried again.
\<close>

theorem auto_download_once:
  assumes "rs_out s = []" "\<forall>ev \<in> set es. reply_once R ev"
  shows "distinct (asked (rss_run R es s)) \<and> set (asked (rss_run R es s)) \<subseteq> rs_links (rss_run R es s)"
proof -
  have "once s" using assms(1) by (simp add: once_def asked_def map_filter_simps)
  then have "once (rss_run R es s)"
    using assms(2) by (induction es arbitrary: s) (simp_all add: rss_run_def once_step)
  then show ?thesis by (simp add: once_def)
qed

section \<open>Restarts and removals\<close>

definition saved :: "RssEnv \<Rightarrow> RssManager \<Rightarrow> bool" where
  "saved R s \<longleftrightarrow> rs_store s = rs_store (saveFeeds R s)"

lemma saved_now [simp]: "saved R (saveFeeds R s)"
  by (simp add: saved_def saveFeeds_def Let_def)

lemma saved_cong:
  "rs_feeds s' = rs_feeds s \<Longrightarrow> rs_links s' = rs_links s \<Longrightarrow> rs_store s' = rs_store s \<Longrightarrow> saved R s' = saved R s"
  by (simp add: saved_def saveFeeds_def Let_def)

lemma saved_simps [simp]:
  "saved R (rs_emit x s) = saved R s" "saved R (rs_ask o' s) = saved R s"
  "saved R (setupTimers s) = saved R s" "saved R (checkFeed i s) = saved R s"
  "saved R (setSession p s) = saved R s"
  by (rule saved_cong; simp add: rs_emit_def rs_ask_def setupTimers_def checkFeed_def setSession_def Let_def)+

lemma saved_fold:
  assumes "\<And>i t. saved R (h i t) = saved R t"
  shows "saved R (fold h is s) = saved R s"
  using assms by (induction "is" arbitrary: s) simp_all

lemma saved_step: "saved R s \<Longrightarrow> saved R (rss_step R ev s)"
proof (cases ev)
  case (EvCheckAll now)
  assume "saved R s"
  moreover have "saved R (if due now (rs_feeds t ! i) then checkFeed i t else t) = saved R t" for i t by simp
  ultimately show ?thesis using EvCheckAll by (simp add: checkAllFeeds_def saved_fold)
next
  case EvRefetch
  assume "saved R s"
  moreover have "saved R (if rf_enabled (rs_feeds t ! i) \<and> itemsForFeed t i = [] then checkFeed i t else t)
      = saved R t" for i t by simp
  ultimately show ?thesis using EvRefetch by (simp add: refetch_empty_def saved_fold)
qed (simp_all add: addFeed_def removeFeed_def setFeedEnabled_def updateFeed_def onFeedReply_def
    onTorrentReply_def Let_def split: option.split)

lemma saved_run: "saved R s \<Longrightarrow> saved R (rss_run R es s)"
  by (induction es arbitrary: s) (simp_all add: rss_run_def saved_step)

text \<open>
  Nothing is lost at a restart: after any sequence of events the stored settings are the feeds and the
  links the manager has, so loading them gives both back, up to 5000 downloaded links. (Beyond, which
  links are forgotten is up to the order in which the set lists them, not to their age.)
\<close>

theorem restart_keeps_feeds:
  assumes "saved R s" "card (rs_links (rss_run R es s)) \<le> 5000"
    and "set (re_order R (rs_links (rss_run R es s))) = rs_links (rss_run R es s)"
      "distinct (re_order R (rs_links (rss_run R es s)))"
  shows "rs_feeds (loadFeeds (rss_run R es s)) = rs_feeds (rss_run R es s)
    \<and> rs_links (loadFeeds (rss_run R es s)) = rs_links (rss_run R es s)"
proof -
  let ?s = "rss_run R es s"
  have "length (re_order R (rs_links ?s)) \<le> 5000"
    using assms(2-4) distinct_card by fastforce
  then have "rs_store (saveFeeds R ?s) = \<lparr>st_feeds = rs_feeds ?s, st_links = re_order R (rs_links ?s)\<rparr>"
    by (simp add: saveFeeds_def Let_def)
  then show ?thesis using saved_run [OF assms(1), of es] assms(3) by (simp add: saved_def loadFeeds_def)
qed

text \<open>Removing a feed keeps every other feed with its items.\<close>

lemma remove_keeps_others:
  assumes "i < length (rs_feeds s)" "j < length (rs_feeds s)" "j \<noteq> i"
  shows "rs_feeds (removeFeed R i s) ! (if j < i then j else j - 1) = rs_feeds s ! j
    \<and> itemsForFeed (removeFeed R i s) (if j < i then j else j - 1) = itemsForFeed s j"
proof -
  have f: "rs_feeds (removeFeed R i s) = take i (rs_feeds s) @ drop (i + 1) (rs_feeds s)"
    "rs_items (removeFeed R i s) = (\<lambda>j. if j < i then ((rs_items s)(i := None)) j else ((rs_items s)(i := None)) (j + 1))"
    using assms(1) by (simp_all add: removeFeed_def setupTimers_def saveFeeds_def Let_def)
  show ?thesis
    using assms by (auto simp: f itemsForFeed_def nth_append min_def)
qed

section \<open>A concrete feed\<close>

definition sample_rss_env :: RssEnv where
  "sample_rss_env = \<lparr>re_regex = (\<lambda>p. Some (starts_with p)), re_date = (\<lambda>_. None),
     re_order = (\<lambda>S. if S = {} then [] else [''magnet:a'']), re_tmp = (\<lambda>_. ''t'')\<rparr>"

definition sample_rss :: RssManager where
  "sample_rss = \<lparr>rs_session = True, rs_savePath = ''/d'', rs_feeds = [(new_feed ''u'')\<lparr>rf_autoDownload := True\<rparr>],
     rs_items = (\<lambda>_. None), rs_links = {}, rs_timer = 0,
     rs_store = \<lparr>st_feeds = [(new_feed ''u'')\<lparr>rf_autoDownload := True\<rparr>], st_links = []\<rparr>, rs_out = [], rs_signals = []\<rparr>"

definition sample_feed_doc :: "XTok list" where
  "sample_feed_doc = [XStart ''channel'' [], XStart ''title'' [], XText ''F'', XEnd ''title'',
     XStart ''item'' [], XStart ''link'' [], XText ''magnet:a'', XEnd ''link'', XEnd ''item'', XEnd ''channel'']"

definition sample_poll :: "RssEvent list" where
  "sample_poll = [EvReply 0 ''u'' (Some sample_feed_doc), EvReply 9 ''u'' (Some sample_feed_doc)]"

lemma sample_read:
  "read_tokens sample_rss_env links sample_feed_doc init_xml = Some
     \<lparr>xs_inItem = False, xs_inChannel = False,
       xs_cur = new_item\<lparr>ri_link := ''magnet:a'', ri_downloaded := ''magnet:a'' \<in> links\<rparr>, xs_title = ''F'',
       xs_items = [new_item\<lparr>ri_link := ''magnet:a'', ri_downloaded := ''magnet:a'' \<in> links\<rparr>]\<rparr>"
  by (cases "''magnet:a'' \<in> links")
    (simp_all add: sample_feed_doc_def on_start_def on_end_def init_xml_def text_field_def on_cur_def
      new_item_def Let_def)

theorem auto_download_once_witness:
  "distinct (asked (rss_run sample_rss_env sample_poll sample_rss))
    \<and> set (asked (rss_run sample_rss_env sample_poll sample_rss))
      \<subseteq> rs_links (rss_run sample_rss_env sample_poll sample_rss)"
  by (rule auto_download_once)
    (simp_all add: sample_rss_def sample_poll_def reply_once_def links_once_def sample_read)

theorem restart_keeps_feeds_witness:
  "rs_feeds (loadFeeds (rss_run sample_rss_env [EvEnable 0 False] sample_rss))
      = rs_feeds (rss_run sample_rss_env [EvEnable 0 False] sample_rss)
    \<and> rs_links (loadFeeds (rss_run sample_rss_env [EvEnable 0 False] sample_rss))
      = rs_links (rss_run sample_rss_env [EvEnable 0 False] sample_rss)"
  by (rule restart_keeps_feeds)
    (simp_all add: rss_run_def setFeedEnabled_def saved_def saveFeeds_def sample_rss_def sample_rss_env_def)

end
