(* ===== verification/GeoIpDb.thy ===== *)
theory GeoIpDb
  imports QtText
begin

text \<open>
  \<open>services/integrations/geoipdb.cpp\<close>: the table of address ranges and countries, loaded from CSV and
  searched by halving. \<open>std::sort\<close> and \<open>std::upper_bound\<close> are their contracts: a stable sort by the
  first address, and the first element of the sorted table that starts behind the address.
\<close>

section \<open>Addresses\<close>

record IpParse =
  ip_acc :: "32 word"
  ip_octets :: nat
  ip_val :: int

text \<open>One character; \<open>None\<close> is \<open>return false\<close>.\<close>

definition ip_char :: "char \<Rightarrow> IpParse \<Rightarrow> IpParse option" where
  "ip_char ch p =
     (if ch = CHR ''.'' then
        (if ip_val p < 0 \<or> 255 < ip_val p \<or> 4 \<le> ip_octets p then None
         else Some (p\<lparr>ip_acc := or (push_bit 8 (ip_acc p)) (word_of_int (ip_val p)),
                      ip_octets := ip_octets p + 1, ip_val := -1\<rparr>))
      else if is_digit ch then
        (let v = (if ip_val p < 0 then 0 else ip_val p) * 10 + digit_val ch
         in if 255 < v then None else Some (p\<lparr>ip_val := v\<rparr>))
      else None)"

fun ip_chars :: "string \<Rightarrow> IpParse \<Rightarrow> IpParse option" where
  "ip_chars [] p = Some p"
| "ip_chars (c # cs) p = (case ip_char c p of None \<Rightarrow> None | Some q \<Rightarrow> ip_chars cs q)"

definition parseIpv4 :: "string \<Rightarrow> 32 word option" where
  "parseIpv4 s =
     (case ip_chars (s @ ''.'') \<lparr>ip_acc = 0, ip_octets = 0, ip_val = -1\<rparr> of
        None \<Rightarrow> None
      | Some p \<Rightarrow> if ip_octets p = 4 then Some (ip_acc p) else None)"

section \<open>The table\<close>

record GeoRange =
  gr_start :: "32 word"
  gr_end :: "32 word"
  gr_cc :: "char \<times> char"

text \<open>\<open>toUpper().toLatin1()\<close>: two Latin-1 letters have a capital outside Latin-1, which reads as 0.\<close>

definition upper_char :: "char \<Rightarrow> char" where
  "upper_char c =
     (let n = code c in
      if n = 181 \<or> n = 255 then char_of (0 :: nat)
      else if (97 \<le> n \<and> n \<le> 122) \<or> (224 \<le> n \<and> n \<le> 254 \<and> n \<noteq> 247) then char_of (n - 32) else c)"

definition unquote :: "string \<Rightarrow> string" where
  "unquote v0 =
     (let v = trimmed v0;
          w = (if 2 \<le> length v \<and> starts_with [CHR 0x22] v \<and> ends_with [CHR 0x22] v
               then take (length v - 2) (drop 1 v) else v)
      in trimmed w)"

definition geo_line :: "string \<Rightarrow> GeoRange option" where
  "geo_line line =
     (if CHR '','' \<notin> set line then None
      else
        let f0 = before_first CHR '','' line; r0 = after_first CHR '','' line in
        if CHR '','' \<notin> set r0 then None
        else
          let s0 = unquote f0; s1 = unquote (before_first CHR '','' r0);
              sc = unquote (after_first CHR '','' r0) in
          if CHR '':'' \<in> set s0 \<or> length sc \<noteq> 2 then None
          else
            (case (parseIpv4 s0, parseIpv4 s1) of
               (Some a, Some b) \<Rightarrow>
                 Some \<lparr>gr_start = min a b, gr_end = max a b,
                   gr_cc = (upper_char (sc ! 0), upper_char (sc ! 1))\<rparr>
             | _ \<Rightarrow> None))"

definition loadCsv :: "string \<Rightarrow> GeoRange list" where
  "loadCsv csv = sort_key gr_start (List.map_filter geo_line (split_skip_empty CHR 0x0A csv))"

text \<open>\<open>upper_bound\<close> on a table sorted by start.\<close>

definition upper_bound :: "GeoRange list \<Rightarrow> 32 word \<Rightarrow> nat" where
  "upper_bound rs ip = length (takeWhile (\<lambda>r. \<not> ip < gr_start r) rs)"

definition geo_find :: "GeoRange list \<Rightarrow> 32 word \<Rightarrow> GeoRange option" where
  "geo_find rs ip =
     (let k = upper_bound rs ip in
      if rs = [] \<or> k = 0 then None
      else let r = rs ! (k - 1) in if ip \<le> gr_end r then Some r else None)"

definition lookup_cc :: "GeoRange list \<Rightarrow> 32 word \<Rightarrow> (char \<times> char) option" where
  "lookup_cc rs ip = map_option gr_cc (geo_find rs ip)"

definition inCountry :: "GeoRange list \<Rightarrow> 32 word \<Rightarrow> char \<Rightarrow> char \<Rightarrow> bool" where
  "inCountry rs ip c0 c1 \<longleftrightarrow> (case geo_find rs ip of None \<Rightarrow> False | Some r \<Rightarrow> gr_cc r = (c0, c1))"

definition country :: "GeoRange list \<Rightarrow> string \<Rightarrow> string" where
  "country rs s =
     (case parseIpv4 s of None \<Rightarrow> []
      | Some ip \<Rightarrow> (case geo_find rs ip of None \<Rightarrow> [] | Some r \<Rightarrow> [fst (gr_cc r), snd (gr_cc r)]))"

section \<open>Addresses come back\<close>

lemma ip_chars_append:
  "ip_chars (a @ b) p = (case ip_chars a p of None \<Rightarrow> None | Some q \<Rightarrow> ip_chars b q)"
  by (induction a arbitrary: p) (auto split: option.split)

lemma digit_not_dot: "(d :: nat) < 10 \<Longrightarrow> char_of (48 + d) \<noteq> CHR ''.''"
proof
  assume d: "d < 10" "char_of (48 + d) = CHR ''.''"
  then have "code (char_of (48 + d)) = code (CHR ''.'')" by simp
  then show False using d(1) by (simp add: code_def)
qed

lemma ip_digit:
  assumes "d < 10" "ip_val p * 10 + int d \<le> 255" "0 \<le> ip_val p"
  shows "ip_char (char_of (48 + d)) p = Some (p\<lparr>ip_val := ip_val p * 10 + int d\<rparr>)"
  using assms digit_not_dot [of d] by (simp add: ip_char_def is_digit_char_of digit_val_char_of Let_def)

lemma ip_show:
  "n \<le> 255 \<Longrightarrow> ip_val p = -1 \<Longrightarrow> ip_chars (show_nat n) p = Some (p\<lparr>ip_val := int n\<rparr>)"
proof (induction n rule: show_nat.induct)
  case (1 n)
  show ?case
  proof (cases "n < 10")
    case True
    then show ?thesis
      using 1(2,3) digit_not_dot [OF True]
      by (simp add: show_nat.simps [of n] ip_char_def is_digit_char_of digit_val_char_of Let_def)
  next
    case False
    then have "ip_chars (show_nat (n div 10)) p = Some (p\<lparr>ip_val := int (n div 10)\<rparr>)" using 1 by simp
    moreover have "int (n div 10) * 10 + int (n mod 10) = int n" by (simp add: zdiv_int zmod_int)
    ultimately show ?thesis
      using False 1(2) ip_digit [of "n mod 10" "p\<lparr>ip_val := int (n div 10)\<rparr>"]
      by (simp add: show_nat.simps [of n] ip_chars_append)
  qed
qed

definition show_ip :: "nat \<Rightarrow> nat \<Rightarrow> nat \<Rightarrow> nat \<Rightarrow> string" where
  "show_ip a b c d = show_nat a @ ''.'' @ show_nat b @ ''.'' @ show_nat c @ ''.'' @ show_nat d"

lemma shift_octet: "n \<le> 255 \<Longrightarrow> or (push_bit 8 w) (word_of_nat n) = (w :: 32 word) * 256 + word_of_nat n"
proof -
  assume n: "n \<le> 255"
  have "and (push_bit 8 w) (word_of_nat n) = (0 :: 32 word)"
  proof (rule bit_word_eqI)
    fix i assume "i < LENGTH(32)"
    have "\<not> bit n i" if "8 \<le> i"
    proof -
      have "n < 2 ^ 8" using n by simp
      also have "(2 :: nat) ^ 8 \<le> 2 ^ i" using that by (intro power_increasing) auto
      finally show ?thesis by (simp add: bit_iff_odd)
    qed
    then show "bit (and (push_bit 8 w) (word_of_nat n)) i \<longleftrightarrow> bit (0 :: 32 word) i"
      by (auto simp: bit_simps)
  qed
  then show ?thesis by (simp flip: disjunctive_add_eq_or add: push_bit_eq_mult)
qed

text \<open>The text of an address is read as that address.\<close>

lemma parse_show_ip:
  assumes "a \<le> 255" "b \<le> 255" "c \<le> 255" "d \<le> 255"
  shows "parseIpv4 (show_ip a b c d) = Some (word_of_nat (((a * 256 + b) * 256 + c) * 256 + d))"
  using assms
  by (simp add: parseIpv4_def show_ip_def ip_chars_append ip_show ip_char_def shift_octet)

section \<open>The search\<close>

definition ranges_apart :: "GeoRange list \<Rightarrow> bool" where
  "ranges_apart rs \<longleftrightarrow> (\<forall>r \<in> set rs. \<forall>r' \<in> set rs.
     r = r' \<or> gr_end r < gr_start r' \<or> gr_end r' < gr_start r)"

lemma geo_line_ordered: "geo_line l = Some r \<Longrightarrow> gr_start r \<le> gr_end r"
  by (auto simp: geo_line_def Let_def min_def max_def split: if_splits option.splits)

lemma load_ordered: "r \<in> set (loadCsv csv) \<Longrightarrow> gr_start r \<le> gr_end r"
  by (auto simp: loadCsv_def map_filter_def geo_line_ordered)

lemma load_sorted: "sorted (map gr_start (loadCsv csv))"
  by (simp add: loadCsv_def)

text \<open>
  C28: The search by halving finds what a search of the whole table finds: when no two ranges of the table
  overlap, an address gets the country of the one range it lies in, and none when it lies in none.
\<close>

theorem find_is_exhaustive:
  assumes "ranges_apart (loadCsv csv)"
  shows "geo_find (loadCsv csv) ip = Some r
    \<longleftrightarrow> r \<in> set (loadCsv csv) \<and> gr_start r \<le> ip \<and> ip \<le> gr_end r"
proof -
  define rs where "rs = loadCsv csv"
  define k where "k = upper_bound rs ip"
  have sorted: "sorted (map gr_start rs)" by (simp add: rs_def load_sorted)
  have k_le: "k \<le> length rs" by (simp add: k_def upper_bound_def length_takeWhile_le)
  have below: "gr_start (rs ! i) \<le> ip" if "i < k" for i
    using that nth_mem [of i "takeWhile (\<lambda>r. \<not> ip < gr_start r) rs"]
    by (auto simp: k_def upper_bound_def takeWhile_nth dest!: set_takeWhileD)
  have above: "ip < gr_start (rs ! i)" if "k \<le> i" "i < length rs" for i
  proof -
    have "ip < gr_start (rs ! k)"
      using that nth_length_takeWhile [of "\<lambda>r. \<not> ip < gr_start r" rs] by (simp add: k_def upper_bound_def)
    also have "gr_start (rs ! k) \<le> gr_start (rs ! i)"
      using sorted_nth_mono [OF sorted that(1)] that by simp
    finally show ?thesis .
  qed
  have "geo_find rs ip = Some r \<longleftrightarrow> r \<in> set rs \<and> gr_start r \<le> ip \<and> ip \<le> gr_end r"
  proof
    assume "geo_find rs ip = Some r"
    then have "k \<noteq> 0" "r = rs ! (k - 1)" "ip \<le> gr_end r"
      by (auto simp: geo_find_def k_def Let_def split: if_splits)
    then show "r \<in> set rs \<and> gr_start r \<le> ip \<and> ip \<le> gr_end r" using k_le below [of "k - 1"] by simp
  next
    assume r: "r \<in> set rs \<and> gr_start r \<le> ip \<and> ip \<le> gr_end r"
    then obtain i where i: "i < length rs" "rs ! i = r" by (auto simp: in_set_conv_nth)
    have ik: "i < k" using above [of i] i r by (meson leD linorder_not_le)
    let ?q = "rs ! (k - 1)"
    have q: "?q \<in> set rs" "gr_start ?q \<le> ip" using ik k_le below [of "k - 1"] by auto
    have "gr_start r \<le> gr_start ?q"
      using sorted_nth_mono [OF sorted, of i "k - 1"] ik i k_le by simp
    then have "\<not> gr_end ?q < gr_start r"
      using load_ordered [of ?q csv] q(1) by (auto simp: rs_def)
    moreover have "\<not> gr_end r < gr_start ?q" using q(2) r by auto
    ultimately have "?q = r" using assms r q(1) by (auto simp: ranges_apart_def rs_def)
    then show "geo_find rs ip = Some r" using ik r i k_le by (auto simp: geo_find_def k_def [symmetric] Let_def)
  qed
  then show ?thesis by (simp add: rs_def)
qed

definition sample_csv :: string where
  "sample_csv = ''2.0.0.0,2.0.0.9,fr'' @ [CHR 0x0A] @ ''1.0.0.0,1.0.0.255,AU''"

theorem find_is_exhaustive_witness:
  "geo_find (loadCsv sample_csv) 33554437 = Some \<lparr>gr_start = 0x02000000, gr_end = 0x02000009, gr_cc = (CHR ''F'', CHR ''R'')\<rparr>"
proof -
  have l: "loadCsv sample_csv = [\<lparr>gr_start = 0x01000000, gr_end = 0x010000FF, gr_cc = (CHR ''A'', CHR ''U'')\<rparr>,
      \<lparr>gr_start = 0x02000000, gr_end = 0x02000009, gr_cc = (CHR ''F'', CHR ''R'')\<rparr>]"
    by code_simp
  have "ranges_apart (loadCsv sample_csv)" unfolding l ranges_apart_def by (simp add: word_less_def word_le_def)
  from find_is_exhaustive [OF this, of 33554437] show ?thesis unfolding l by simp
qed

end
