(* ===== verification/QtJson.thy ===== *)
theory QtJson
  imports QtText Complex_Main
begin

text \<open>
  JSON values as Qt's \<open>QJsonValue\<close> gives them, and its readers with their defaults. A number is an integer
  or, where it is none, a fraction. A missing value is \<open>None\<close>.
\<close>

datatype JVal = JvNull | JvBool bool | JvNum int | JvReal rat | JvStr string | JvArr "JVal list"
  | JvObj "(string \<times> JVal) list"

text \<open>\<open>toObject\<close>, \<open>toString\<close>, \<open>toArray\<close>, \<open>toBool\<close>.\<close>

definition j_object :: "JVal option \<Rightarrow> (string \<times> JVal) list" where
  "j_object v = (case v of Some (JvObj kvs) \<Rightarrow> kvs | _ \<Rightarrow> [])"

definition j_string_or :: "string \<Rightarrow> JVal option \<Rightarrow> string" where
  "j_string_or d v = (case v of Some (JvStr s) \<Rightarrow> s | _ \<Rightarrow> d)"

definition j_string :: "JVal option \<Rightarrow> string" where
  "j_string v = (case v of Some (JvStr s) \<Rightarrow> s | _ \<Rightarrow> [])"

definition j_array :: "JVal option \<Rightarrow> JVal list" where
  "j_array v = (case v of Some (JvArr xs) \<Rightarrow> xs | _ \<Rightarrow> [])"

definition j_bool :: "JVal option \<Rightarrow> bool" where
  "j_bool v = (case v of Some (JvBool b) \<Rightarrow> b | _ \<Rightarrow> False)"

text \<open>\<open>toDouble\<close>, and its conversion to an integer, which drops the fraction.\<close>

definition j_real :: "JVal option \<Rightarrow> rat" where
  "j_real v = (case v of Some (JvNum i) \<Rightarrow> of_int i | Some (JvReal r) \<Rightarrow> r | _ \<Rightarrow> 0)"

definition truncate :: "rat \<Rightarrow> int" where
  "truncate r = (if 0 \<le> r then \<lfloor>r\<rfloor> else \<lceil>r\<rceil>)"

definition j_num :: "JVal option \<Rightarrow> int" where
  "j_num v = (case v of Some (JvNum i) \<Rightarrow> i | Some (JvReal r) \<Rightarrow> truncate r | _ \<Rightarrow> 0)"

text \<open>\<open>toInt(d)\<close>: the default for everything that is no integer of 32 bits.\<close>

definition j_int :: "int \<Rightarrow> JVal option \<Rightarrow> int" where
  "j_int d v = (case v of Some (JvNum i) \<Rightarrow> if - (2 ^ 31) \<le> i \<and> i < 2 ^ 31 then i else d | _ \<Rightarrow> d)"

lemma j_num_real: "j_num v = truncate (j_real v)"
  by (auto simp: j_num_def j_real_def truncate_def split: option.split JVal.split)

end
