(* ===== verification/GameRecords.thy ===== *)
theory GameRecords
  imports QtJson "HOL-Library.AList"
begin

text \<open>
  What is remembered of the games: the achievements (\<open>services/games/achievementledger.cpp\<close>) and the
  play time (\<open>services/games/playlog.cpp\<close>). A \<open>QHash\<close> is an association list. The codec of JSON is Qt's:
  \<open>je_encode\<close> and \<open>je_decode\<close>, and \<open>je_double\<close> is an integer sent through a double and back.
\<close>

section \<open>JSON\<close>

record JsonEnv =
  je_encode :: "JVal \<Rightarrow> bytes"
  je_decode :: "bytes \<Rightarrow> JVal option"
  je_double :: "int \<Rightarrow> int"

section \<open>Achievements\<close>

type_synonym Unlocks = "(string \<times> int) list"

record LedgerGame =
  lg_title :: string
  lg_unlocks :: Unlocks

type_synonym Games = "(int \<times> LedgerGame) list"

definition kFormat :: int where "kFormat = 1"
definition kMaxFile :: nat where "kMaxFile = 32 * 1024 * 1024"

definition earliest :: "int \<Rightarrow> int \<Rightarrow> int" where
  "earliest a b = (if a \<le> 0 then b else if b \<le> 0 then a else min a b)"

definition game_json :: "JsonEnv \<Rightarrow> LedgerGame \<Rightarrow> JVal" where
  "game_json J g =
     JvObj ((if lg_title g = [] then [] else [(''title'', JvStr (lg_title g))])
       @ [(''unlocks'', JvObj (map (\<lambda>(k, t). (k, JvNum (je_double J t))) (lg_unlocks g)))])"

definition ledger_json :: "JsonEnv \<Rightarrow> Games \<Rightarrow> JVal" where
  "ledger_json J gs =
     JvObj [(''format'', JvNum kFormat),
       (''games'', JvObj (map (\<lambda>(i, g). (show_int i, game_json J g)) gs))]"

definition parse_game :: "JVal \<Rightarrow> LedgerGame" where
  "parse_game v =
     (let o' = j_object (Some v) in
      \<lparr>lg_title = j_string (map_of o' ''title''),
       lg_unlocks = map (\<lambda>(k, t). (k, j_num (Some t)))
         (filter (\<lambda>(k, t). k \<noteq> []) (j_object (map_of o' ''unlocks'')))\<rparr>)"

definition parse_entry :: "string \<times> JVal \<Rightarrow> (int \<times> LedgerGame) option" where
  "parse_entry kv =
     (let i = to_int (fst kv); g = parse_game (snd kv) in
      if i \<le> 0 \<or> lg_unlocks g = [] then None else Some (i, g))"

definition ledger_parse :: "JVal option \<Rightarrow> Games option" where
  "ledger_parse doc =
     (case map_of (j_object doc) ''games'' of
        Some (JvObj kvs) \<Rightarrow> Some (fold (\<lambda>(i, g). AList.update i g) (List.map_filter parse_entry kvs) [])
      | _ \<Rightarrow> None)"

text \<open>One unlock of the other record: the unlocks so far, and how many were new.\<close>

definition fold_unlock :: "string \<times> int \<Rightarrow> Unlocks \<times> int \<Rightarrow> Unlocks \<times> int" where
  "fold_unlock u acc =
     (let (k, t) = u; (m, added) = acc in
      case map_of m k of
        None \<Rightarrow> (AList.update k t m, added + 1)
      | Some have \<Rightarrow> (AList.update k (earliest have t) m, added))"

definition fold_game :: "int \<times> LedgerGame \<Rightarrow> Games \<times> int \<Rightarrow> Games \<times> int" where
  "fold_game e acc =
     (let (i, g) = e; (gs, added) = acc;
          mine = (case map_of gs i of None \<Rightarrow> \<lparr>lg_title = [], lg_unlocks = []\<rparr> | Some m \<Rightarrow> m);
          mine1 = (if lg_title mine = [] then mine\<lparr>lg_title := lg_title g\<rparr> else mine);
          (us, added1) = fold fold_unlock (lg_unlocks g) (lg_unlocks mine1, added)
      in (AList.update i (mine1\<lparr>lg_unlocks := us\<rparr>) gs, added1))"

definition ledger_fold :: "Games \<Rightarrow> Games \<Rightarrow> Games \<times> int" where
  "ledger_fold into from' = fold fold_game from' (into, 0)"

record Ledger =
  ld_loaded :: bool
  ld_games :: Games
  ld_file :: "bytes option"

definition ledger_load :: "JsonEnv \<Rightarrow> Ledger \<Rightarrow> Ledger" where
  "ledger_load J l =
     (if ld_loaded l then l
      else
        let l1 = l\<lparr>ld_loaded := True\<rparr> in
        case ld_file l1 of
          None \<Rightarrow> l1
        | Some b \<Rightarrow>
            if 0 < length b \<and> length b < kMaxFile
            then (case ledger_parse (je_decode J b) of None \<Rightarrow> l1 | Some gs \<Rightarrow> l1\<lparr>ld_games := gs\<rparr>)
            else l1)"

text \<open>\<open>ok\<close>: the file opens and the commit succeeds.\<close>

definition ledger_save :: "JsonEnv \<Rightarrow> bool \<Rightarrow> Ledger \<Rightarrow> Ledger" where
  "ledger_save J ok l = (if ok then l\<lparr>ld_file := Some (je_encode J (ledger_json J (ld_games l)))\<rparr> else l)"

definition title_of :: "Games \<Rightarrow> int \<Rightarrow> string" where
  "title_of gs i = (case map_of gs i of None \<Rightarrow> [] | Some g \<Rightarrow> lg_title g)"

definition unlocks_of :: "Games \<Rightarrow> int \<Rightarrow> Unlocks" where
  "unlocks_of gs i = (case map_of gs i of None \<Rightarrow> [] | Some g \<Rightarrow> lg_unlocks g)"

definition merged :: "JsonEnv \<Rightarrow> bool \<Rightarrow> int \<Rightarrow> string \<Rightarrow> Unlocks \<Rightarrow> Ledger \<Rightarrow> Unlocks \<times> Ledger" where
  "merged J ok appId title fromFiles l0 =
     (let l = ledger_load J l0 in
      if appId \<le> 0 then (fromFiles, l)
      else if fromFiles = [] \<and> map_of (ld_games l) appId = None then ([], l)
      else
        let titleBefore = title_of (ld_games l) appId;
            (gs, added) = ledger_fold (ld_games l) [(appId, \<lparr>lg_title = title, lg_unlocks = fromFiles\<rparr>)];
            l1 = l\<lparr>ld_games := gs\<rparr>;
            l2 = (if 0 < added \<or> title_of gs appId \<noteq> titleBefore then ledger_save J ok l1 else l1)
        in (unlocks_of (ld_games l2) appId, l2))"

definition importFrom :: "JsonEnv \<Rightarrow> bool \<Rightarrow> bytes option \<Rightarrow> Ledger \<Rightarrow> int \<times> Ledger" where
  "importFrom J ok file l0 =
     (let l = ledger_load J l0 in
      case file of
        None \<Rightarrow> (-1, l)
      | Some b \<Rightarrow>
          if length b = 0 \<or> kMaxFile \<le> length b then (-1, l)
          else
            (case ledger_parse (je_decode J b) of
               None \<Rightarrow> (-1, l)
             | Some theirs \<Rightarrow>
                 let (gs, added) = ledger_fold (ld_games l) theirs
                 in (added, ledger_save J ok (l\<lparr>ld_games := gs\<rparr>))))"

definition exportTo :: "JsonEnv \<Rightarrow> Ledger \<Rightarrow> bytes \<times> Ledger" where
  "exportTo J l0 = (let l = ledger_load J l0 in (je_encode J (ledger_json J (ld_games l)), l))"

section \<open>Merging records\<close>

definition join_time :: "int option \<Rightarrow> int option \<Rightarrow> int option" where
  "join_time a b = (case a of None \<Rightarrow> b | Some x \<Rightarrow> (case b of None \<Rightarrow> a | Some y \<Rightarrow> Some (earliest x y)))"

definition unlock_time :: "Games \<Rightarrow> int \<Rightarrow> string \<Rightarrow> int option" where
  "unlock_time gs i k = map_of (unlocks_of gs i) k"

lemma fold_unlocks_time:
  "distinct (map fst us) \<Longrightarrow>
     map_of (fst (fold fold_unlock us (m, n))) k = join_time (map_of m k) (map_of us k)"
proof (induction us arbitrary: m n)
  case (Cons u us)
  obtain k' t where u: "u = (k', t)" by (cases u)
  let ?v = "(case map_of m k' of None \<Rightarrow> t | Some h \<Rightarrow> earliest h t)"
  have "\<exists>n'. fold_unlock (k', t) (m, n) = (AList.update k' ?v m, n')"
    by (simp add: fold_unlock_def split: option.split)
  then obtain n' where n': "fold_unlock (k', t) (m, n) = (AList.update k' ?v m, n')" by blast
  have "k' \<notin> set (map fst us)" using Cons.prems u by simp
  then have "map_of us k' = None" by (simp add: map_of_eq_None_iff)
  then show ?case
    using Cons.IH [of "AList.update k' ?v m" n'] Cons.prems u
    by (cases "k = k'") (simp_all add: n' update_conv' join_time_def split: option.split)
qed (simp add: join_time_def split: option.split)

lemma fold_game_time:
  assumes "distinct (map fst (lg_unlocks g))"
  shows "unlock_time (fst (fold_game (i, g) (gs, n))) a k
    = (if a = i then join_time (unlock_time gs a k) (map_of (lg_unlocks g) k) else unlock_time gs a k)"
proof -
  define mine where "mine = (case map_of gs i of None \<Rightarrow> \<lparr>lg_title = [], lg_unlocks = []\<rparr> | Some m \<Rightarrow> m)"
  define mine1 where "mine1 = (if lg_title mine = [] then mine\<lparr>lg_title := lg_title g\<rparr> else mine)"
  have m: "lg_unlocks mine = unlocks_of gs i"
    by (simp add: mine_def unlocks_of_def split: option.split)
  have "fst (fold_game (i, g) (gs, n)) = AList.update i (mine1\<lparr>lg_unlocks := fst (fold fold_unlock (lg_unlocks g)
      (unlocks_of gs i, n))\<rparr>) gs"
    by (simp add: fold_game_def mine_def [symmetric] mine1_def m split_beta Let_def)
  then show ?thesis
    using fold_unlocks_time [OF assms, of "unlocks_of gs i" n k]
    by (simp add: unlock_time_def unlocks_of_def update_conv')
qed

definition games_ok :: "Games \<Rightarrow> bool" where
  "games_ok gs \<longleftrightarrow> distinct (map fst gs) \<and> (\<forall>(i, g) \<in> set gs. distinct (map fst (lg_unlocks g)))"

lemma fold_games_time:
  "games_ok from' \<Longrightarrow>
     unlock_time (fst (fold fold_game from' (into, n))) a k
       = join_time (unlock_time into a k) (unlock_time from' a k)"
proof (induction from' arbitrary: into n)
  case (Cons e from')
  obtain i g where e: "e = (i, g)" by (cases e)
  obtain gs n' where gs: "fold_game e (into, n) = (gs, n')" by fastforce
  have "map_of from' i = None" using Cons.prems e by (auto simp: games_ok_def map_of_eq_None_iff)
  then have none: "unlock_time from' i k = None" by (simp add: unlock_time_def unlocks_of_def)
  have "distinct (map fst (lg_unlocks g))" using Cons.prems e by (auto simp: games_ok_def)
  from fold_game_time [OF this, of i into n a k]
  have t: "unlock_time gs a k = (if a = i then join_time (unlock_time into a k) (map_of (lg_unlocks g) k)
      else unlock_time into a k)" using gs e by simp
  have "games_ok from'" using Cons.prems by (auto simp: games_ok_def)
  then show ?case
    using Cons.IH [of gs n'] none t e gs
    by (auto simp: unlock_time_def [of "_ # _"] unlocks_of_def [of "_ # _"] unlock_time_def [of from', symmetric]
        unlocks_of_def [of from', symmetric] join_time_def split: option.split)
qed (simp add: unlock_time_def unlocks_of_def join_time_def split: option.split)

text \<open>The first of the known times, 0 when both are unknown; \<open>None\<close> when neither record has the achievement.\<close>

definition first_known :: "int option \<Rightarrow> int option \<Rightarrow> int option" where
  "first_known a b =
     (let ts = (case a of None \<Rightarrow> [] | Some t \<Rightarrow> [t]) @ (case b of None \<Rightarrow> [] | Some t \<Rightarrow> [t]);
          known = filter (\<lambda>t. 0 < t) ts
      in if ts = [] then None else if known = [] then Some 0 else Some (Min (set known)))"

lemma join_first_known:
  assumes "\<And>t. a = Some t \<Longrightarrow> 0 \<le> t" "\<And>t. b = Some t \<Longrightarrow> 0 \<le> t"
  shows "join_time a b = first_known a b"
  using assms by (cases a; cases b) (auto simp: join_time_def first_known_def earliest_def min_def)

text \<open>
  C29: Folding one record into another is the join of the two: every achievement either of them has is
  there, at the earlier of the two known times, and folding in the other order gives the same times.
\<close>

theorem ledger_fold_joins:
  assumes "games_ok a" "games_ok b" "\<forall>i k t. unlock_time a i k = Some t \<longrightarrow> 0 \<le> t"
    "\<forall>i k t. unlock_time b i k = Some t \<longrightarrow> 0 \<le> t"
  shows "unlock_time (fst (ledger_fold a b)) i k = first_known (unlock_time a i k) (unlock_time b i k)
    \<and> unlock_time (fst (ledger_fold a b)) i k = unlock_time (fst (ledger_fold b a)) i k"
proof -
  have join: "join_time (unlock_time a i k) (unlock_time b i k) = first_known (unlock_time a i k) (unlock_time b i k)"
    "join_time (unlock_time b i k) (unlock_time a i k) = first_known (unlock_time b i k) (unlock_time a i k)"
    using assms(3,4) by (blast intro: join_first_known)+
  have "first_known x y = first_known y x" for x y
    by (cases x; cases y) (simp_all add: first_known_def insert_commute)
  then show ?thesis using assms(1,2) join by (simp add: ledger_fold_def fold_games_time)
qed

lemma fold_known:
  "\<forall>u \<in> set us. map_of m (fst u) \<noteq> None \<Longrightarrow> snd (fold fold_unlock us (m, n)) = n"
proof (induction us arbitrary: m n)
  case (Cons u us)
  obtain k t where u: "u = (k, t)" by (cases u)
  obtain h where h: "map_of m k = Some h" using Cons.prems u by auto
  have "fold_unlock u (m, n) = (AList.update k (earliest h t) m, n)" by (simp add: fold_unlock_def u h)
  then show ?case using Cons.IH [of "AList.update k (earliest h t) m" n] Cons.prems by (simp add: update_conv')
qed simp

text \<open>
  A better time for an achievement that is known already is not written down: the record in memory takes
  it, the file keeps the old one until something else is saved.
\<close>

lemma earlier_time_not_saved:
  assumes "ld_loaded l" "0 < appId" "map_of (ld_games l) appId = Some g" "lg_title g \<noteq> []"
    "\<forall>u \<in> set files. map_of (lg_unlocks g) (fst u) \<noteq> None"
  shows "ld_file (snd (merged J ok appId title files l)) = ld_file l"
proof -
  have "snd (ledger_fold (ld_games l) [(appId, \<lparr>lg_title = title, lg_unlocks = files\<rparr>)]) = 0"
    using assms fold_known [OF assms(5), of 0] by (simp add: ledger_fold_def fold_game_def Let_def split_beta)
  moreover have "title_of (fst (ledger_fold (ld_games l) [(appId, \<lparr>lg_title = title, lg_unlocks = files\<rparr>)])) appId
      = title_of (ld_games l) appId"
    using assms by (simp add: ledger_fold_def fold_game_def Let_def split_beta title_of_def update_conv')
  ultimately show ?thesis
    using assms(1-3) by (simp add: merged_def ledger_load_def Let_def split_beta)
qed

definition sample_record :: "int \<Rightarrow> Games" where
  "sample_record t = [(7, \<lparr>lg_title = ''G'', lg_unlocks = [(''A'', t)]\<rparr>)]"

lemma sample_record_time: "unlock_time (sample_record t) i k = (if i = 7 \<and> k = ''A'' then Some t else None)"
  by (simp add: sample_record_def unlock_time_def unlocks_of_def)

theorem ledger_fold_joins_witness:
  "unlock_time (fst (ledger_fold (sample_record 5) (sample_record 3))) 7 ''A''
      = first_known (unlock_time (sample_record 5) 7 ''A'') (unlock_time (sample_record 3) 7 ''A'')
    \<and> unlock_time (fst (ledger_fold (sample_record 5) (sample_record 3))) 7 ''A''
      = unlock_time (fst (ledger_fold (sample_record 3) (sample_record 5))) 7 ''A''"
  by (rule ledger_fold_joins) (auto simp: sample_record_time, auto simp: sample_record_def games_ok_def)

section \<open>Play time\<close>

record PlaySession =
  ps_startMs :: int
  ps_secs :: int

record PlayGame =
  pg_foldedSecs :: int
  pg_lastPlayedMs :: int
  pg_launches :: int
  pg_sessions :: "PlaySession list"

definition new_game :: PlayGame where
  "new_game = \<lparr>pg_foldedSecs = 0, pg_lastPlayedMs = 0, pg_launches = 0, pg_sessions = []\<rparr>"

record PlayLog =
  pl_games :: "(string \<times> PlayGame) list"
  pl_file :: "bytes option"

definition kMinSessionSecs :: int where "kMinSessionSecs = 30"
definition kMaxSessions :: nat where "kMaxSessions = 200"

definition game_of :: "PlayLog \<Rightarrow> string \<Rightarrow> PlayGame" where
  "game_of l h = (case map_of (pl_games l) h of None \<Rightarrow> new_game | Some g \<Rightarrow> g)"

definition put_game :: "string \<Rightarrow> PlayGame \<Rightarrow> PlayLog \<Rightarrow> PlayLog" where
  "put_game h g l = l\<lparr>pl_games := AList.update h g (pl_games l)\<rparr>"

definition session_json :: "JsonEnv \<Rightarrow> PlaySession \<Rightarrow> JVal" where
  "session_json J s = JvArr [JvNum (je_double J (ps_startMs s)), JvNum (je_double J (ps_secs s))]"

definition playgame_json :: "JsonEnv \<Rightarrow> PlayGame \<Rightarrow> JVal" where
  "playgame_json J g =
     JvObj [(''foldedSecs'', JvNum (je_double J (pg_foldedSecs g))),
       (''lastPlayed'', JvNum (je_double J (pg_lastPlayedMs g))),
       (''launches'', JvNum (je_double J (pg_launches g))),
       (''sessions'', JvArr (map (session_json J) (pg_sessions g)))]"

definition playlog_save :: "JsonEnv \<Rightarrow> bool \<Rightarrow> PlayLog \<Rightarrow> PlayLog" where
  "playlog_save J ok l =
     (if ok then l\<lparr>pl_file := Some (je_encode J (JvObj [(''v'', JvNum 1),
        (''games'', JvObj (map (\<lambda>(h, g). (h, playgame_json J g)) (pl_games l)))]))\<rparr>
      else l)"

definition jsonInt :: "JVal option \<Rightarrow> int" where
  "jsonInt v = (let d = j_num v in if 0 < d then d else 0)"

definition parse_session :: "JVal \<Rightarrow> PlaySession option" where
  "parse_session v =
     (case j_array (Some v) of
        [a, b] \<Rightarrow>
          (let s = \<lparr>ps_startMs = jsonInt (Some a), ps_secs = jsonInt (Some b)\<rparr>
           in if 0 < ps_startMs s \<and> 0 < ps_secs s then Some s else None)
      | _ \<Rightarrow> None)"

definition parse_playgame :: "JVal \<Rightarrow> PlayGame" where
  "parse_playgame v =
     (let o' = j_object (Some v) in
      \<lparr>pg_foldedSecs = jsonInt (map_of o' ''foldedSecs''), pg_lastPlayedMs = jsonInt (map_of o' ''lastPlayed''),
       pg_launches = jsonInt (map_of o' ''launches''),
       pg_sessions = List.map_filter parse_session (j_array (map_of o' ''sessions''))\<rparr>)"

definition playlog_load :: "JsonEnv \<Rightarrow> PlayLog \<Rightarrow> PlayLog" where
  "playlog_load J l =
     (case pl_file l of
        None \<Rightarrow> l
      | Some b \<Rightarrow>
          fold (\<lambda>(h, v). put_game h (parse_playgame v))
            (j_object (map_of (j_object (je_decode J b)) ''games'')) l)"

definition recordLaunch :: "JsonEnv \<Rightarrow> bool \<Rightarrow> string \<Rightarrow> int \<Rightarrow> PlayLog \<Rightarrow> PlayLog" where
  "recordLaunch J ok h now l =
     (let g = game_of l h in
      playlog_save J ok (put_game h (g\<lparr>pg_lastPlayedMs := now, pg_launches := pg_launches g + 1\<rparr>) l))"

text \<open>The loop that drops the oldest sessions into the running total.\<close>

function fold_oldest :: "PlayGame \<Rightarrow> PlayGame" where
  "fold_oldest g =
     (if kMaxSessions < length (pg_sessions g)
      then fold_oldest (g\<lparr>pg_foldedSecs := pg_foldedSecs g + ps_secs (hd (pg_sessions g)),
                           pg_sessions := tl (pg_sessions g)\<rparr>)
      else g)"
  by pat_completeness auto
termination
  by (relation "measure (\<lambda>g. length (pg_sessions g))") (auto simp: kMaxSessions_def)

declare fold_oldest.simps [simp del]

definition recordSession ::
  "JsonEnv \<Rightarrow> bool \<Rightarrow> string \<Rightarrow> int \<Rightarrow> int \<Rightarrow> PlayLog \<Rightarrow> bool \<times> PlayLog" where
  "recordSession J ok h startMs secs l =
     (if secs \<le> kMinSessionSecs \<or> startMs \<le> 0 then (False, l)
      else
        let g = game_of l h;
            g1 = fold_oldest (g\<lparr>pg_sessions := pg_sessions g @ [\<lparr>ps_startMs = startMs, ps_secs = secs\<rparr>]\<rparr>)
        in (True, playlog_save J ok (put_game h g1 l)))"

definition importTotals :: "string \<Rightarrow> int \<Rightarrow> int \<Rightarrow> int \<Rightarrow> PlayLog \<Rightarrow> PlayLog" where
  "importTotals h secs last' launches l =
     (if map_of (pl_games l) h \<noteq> None then l
      else if secs \<le> 0 \<and> last' \<le> 0 \<and> launches \<le> 0 then l
      else put_game h (new_game\<lparr>pg_foldedSecs := max 0 secs, pg_lastPlayedMs := max 0 last',
             pg_launches := max 0 launches\<rparr>) l)"

record PlaySummary =
  pu_totalSecs :: int
  pu_lastPlayedMs :: int
  pu_launches :: int

definition summary :: "PlayLog \<Rightarrow> string \<Rightarrow> PlaySummary" where
  "summary l h =
     (case map_of (pl_games l) h of
        None \<Rightarrow> \<lparr>pu_totalSecs = 0, pu_lastPlayedMs = 0, pu_launches = 0\<rparr>
      | Some g \<Rightarrow> \<lparr>pu_totalSecs = foldl (\<lambda>t x. t + ps_secs x) (pg_foldedSecs g) (pg_sessions g),
          pu_lastPlayedMs = pg_lastPlayedMs g, pu_launches = pg_launches g\<rparr>)"

text \<open>\<open>day\<close> numbers the local calendar days of a time in ms.\<close>

definition day_add :: "(int \<Rightarrow> int) \<Rightarrow> int \<Rightarrow> PlaySession \<Rightarrow> int list \<Rightarrow> int list" where
  "day_add day today s out =
     (let back = today - day (ps_startMs s); n = int (length out) in
      if 0 \<le> back \<and> back < n
      then out[nat (n - 1 - back) := out ! nat (n - 1 - back) + ps_secs s] else out)"

definition dailySecs :: "(int \<Rightarrow> int) \<Rightarrow> PlayLog \<Rightarrow> string \<Rightarrow> int \<Rightarrow> int \<Rightarrow> int list" where
  "dailySecs day l h days0 now =
     (let days = min 366 (max 0 days0); out = replicate (nat days) 0 in
      case map_of (pl_games l) h of
        None \<Rightarrow> out
      | Some g \<Rightarrow> if out = [] then out else fold (day_add day (day now)) (pg_sessions g) out)"

section \<open>Totals\<close>

datatype PlayEvent = PlLaunch string int | PlSession string int int | PlImport string int int int

fun play_step :: "JsonEnv \<Rightarrow> PlayEvent \<times> bool \<Rightarrow> PlayLog \<Rightarrow> PlayLog" where
  "play_step J (PlLaunch h now, ok) l = recordLaunch J ok h now l"
| "play_step J (PlSession h start secs, ok) l = snd (recordSession J ok h start secs l)"
| "play_step J (PlImport h secs lst n, ok) l = importTotals h secs lst n l"

definition play_run :: "JsonEnv \<Rightarrow> (PlayEvent \<times> bool) list \<Rightarrow> PlayLog \<Rightarrow> PlayLog" where
  "play_run J es l = fold (play_step J) es l"

text \<open>The seconds an event adds to a game, and the launches.\<close>

fun secs_of :: "string \<Rightarrow> PlayEvent \<times> bool \<Rightarrow> int" where
  "secs_of h (PlSession h' start secs, ok) = (if h' = h \<and> kMinSessionSecs < secs \<and> 0 < start then secs else 0)"
| "secs_of h _ = 0"

fun launches_of :: "string \<Rightarrow> PlayEvent \<times> bool \<Rightarrow> int" where
  "launches_of h (PlLaunch h' now, ok) = (if h' = h then 1 else 0)"
| "launches_of h _ = 0"

definition total_of :: "PlayGame \<Rightarrow> int" where
  "total_of g = pg_foldedSecs g + sum_list (map ps_secs (pg_sessions g))"

lemma foldl_secs: "foldl (\<lambda>t x. t + ps_secs x) n xs = n + sum_list (map ps_secs xs)"
  by (induction xs arbitrary: n) simp_all

lemma summary_game:
  "pu_totalSecs (summary l h) = total_of (game_of l h)" "pu_launches (summary l h) = pg_launches (game_of l h)"
  by (simp_all add: summary_def game_of_def total_of_def foldl_secs new_game_def split: option.split)

lemma total_fold_oldest:
  "total_of (fold_oldest g) = total_of g \<and> pg_launches (fold_oldest g) = pg_launches g
     \<and> length (pg_sessions (fold_oldest g)) \<le> kMaxSessions"
proof (induction g rule: fold_oldest.induct)
  case (1 g)
  show ?case
  proof (cases "kMaxSessions < length (pg_sessions g)")
    case True
    then obtain s ss where "pg_sessions g = s # ss" by (cases "pg_sessions g") auto
    then show ?thesis using 1 True by (simp add: fold_oldest.simps [of g] total_of_def)
  qed (simp add: fold_oldest.simps [of g])
qed

lemma game_put: "game_of (put_game h g l) h' = (if h' = h then g else game_of l h')"
  by (simp add: game_of_def put_game_def update_conv')

lemma game_save [simp]: "game_of (playlog_save J ok l) h = game_of l h"
  by (simp add: game_of_def playlog_save_def)

definition sessions_bounded :: "PlayLog \<Rightarrow> bool" where
  "sessions_bounded l \<longleftrightarrow> (\<forall>h. length (pg_sessions (game_of l h)) \<le> kMaxSessions)"

lemma play_step_totals:
  assumes "\<nexists>s n t. fst e = PlImport h s n t"
  shows "total_of (game_of (play_step J e l) h) = total_of (game_of l h) + secs_of h e
    \<and> pg_launches (game_of (play_step J e l) h) = pg_launches (game_of l h) + launches_of h e"
proof (cases e)
  case (Pair ev ok)
  show ?thesis
  proof (cases ev)
    case (PlLaunch h' now)
    then show ?thesis using Pair by (simp add: recordLaunch_def game_put Let_def total_of_def)
  next
    case (PlSession h' start secs)
    then show ?thesis
      using Pair by (auto simp: recordSession_def game_put Let_def total_fold_oldest) (simp add: total_of_def)
  next
    case (PlImport h' s n t)
    then show ?thesis using assms Pair by (auto simp: importTotals_def game_put)
  qed
qed

lemma bounded_step: "sessions_bounded l \<Longrightarrow> sessions_bounded (play_step J e l)"
  by (cases "(J, e, l)" rule: play_step.cases)
    (auto simp: sessions_bounded_def recordLaunch_def recordSession_def importTotals_def game_put new_game_def
      total_fold_oldest Let_def)

text \<open>
  C37: The play time shown for a game is the play time recorded: whatever the order of launches and sessions,
  and however many sessions have been dropped into the running total, the total is the sum of the
  seconds of every session long enough to count, and the launches are all counted; the file never
  keeps more than 200 sessions of a game.
\<close>

theorem play_time_is_kept:
  assumes "\<forall>e \<in> set es. \<nexists>s n t. fst e = PlImport h s n t" "sessions_bounded l"
  shows "pu_totalSecs (summary (play_run J es l) h) = pu_totalSecs (summary l h) + sum_list (map (secs_of h) es)
    \<and> pu_launches (summary (play_run J es l) h) = pu_launches (summary l h) + sum_list (map (launches_of h) es)
    \<and> length (pg_sessions (game_of (play_run J es l) h)) \<le> kMaxSessions"
  using assms
proof (induction es arbitrary: l)
  case Nil
  then show ?case by (simp add: play_run_def sessions_bounded_def)
next
  case (Cons e es)
  have "\<nexists>s n t. fst e = PlImport h s n t" using Cons.prems(1) by (metis list.set_intros(1))
  moreover have "\<forall>e \<in> set es. \<nexists>s n t. fst e = PlImport h s n t" using Cons.prems(1) by (metis list.set_intros(2))
  ultimately show ?case
    using Cons.IH [of "play_step J e l"] Cons.prems(2) bounded_step [of l J e] play_step_totals [of e h J l]
    by (simp add: play_run_def summary_game)
qed

definition sample_json :: JsonEnv where
  "sample_json = \<lparr>je_encode = (\<lambda>_. []), je_decode = (\<lambda>_. None), je_double = (\<lambda>i. i)\<rparr>"

theorem play_time_is_kept_witness:
  "pu_totalSecs (summary (play_run sample_json [(PlLaunch ''h'' 5, True), (PlSession ''h'' 9 40, False)] \<lparr>pl_games = [], pl_file = None\<rparr>) ''h'')
      = pu_totalSecs (summary \<lparr>pl_games = [], pl_file = None\<rparr> ''h'')
        + sum_list (map (secs_of ''h'') [(PlLaunch ''h'' 5, True), (PlSession ''h'' 9 40, False)])
    \<and> pu_launches (summary (play_run sample_json [(PlLaunch ''h'' 5, True), (PlSession ''h'' 9 40, False)] \<lparr>pl_games = [], pl_file = None\<rparr>) ''h'')
      = pu_launches (summary \<lparr>pl_games = [], pl_file = None\<rparr> ''h'')
        + sum_list (map (launches_of ''h'') [(PlLaunch ''h'' 5, True), (PlSession ''h'' 9 40, False)])
    \<and> length (pg_sessions (game_of (play_run sample_json [(PlLaunch ''h'' 5, True), (PlSession ''h'' 9 40, False)]
        \<lparr>pl_games = [], pl_file = None\<rparr>) ''h'')) \<le> kMaxSessions"
  by (rule play_time_is_kept) (auto simp: sessions_bounded_def game_of_def new_game_def)

end
