(* ===== verification/MkvChapters.thy ===== *)
theory MkvChapters
  imports QtText
begin

text \<open>
  \<open>services/metadata/mkvchapters.cpp\<close>: the chapters of a Matroska file. The file is the list of its
  bytes, and stays the same while it is read; positions are offsets into it. \<open>utf8\<close> is
  \<open>QString::fromUtf8\<close>. Sizes are at most \<open>2^56 - 1\<close> (\<open>vint_size\<close>), so no sum of a position and a size
  leaves \<open>qint64\<close> and natural numbers stand for them.
\<close>

section \<open>Reader\<close>

definition ID_EBML :: nat where "ID_EBML = 0x1A45DFA3"
definition ID_SEGMENT :: nat where "ID_SEGMENT = 0x18538067"
definition ID_CHAPTERS :: nat where "ID_CHAPTERS = 0x1043A770"
definition ID_EDITION :: nat where "ID_EDITION = 0x45B9"
definition ID_CHAPTERATOM :: nat where "ID_CHAPTERATOM = 0xB6"
definition ID_TIME_START :: nat where "ID_TIME_START = 0x91"
definition ID_TIME_END :: nat where "ID_TIME_END = 0x92"
definition ID_DISPLAY :: nat where "ID_DISPLAY = 0x80"
definition ID_CHAPSTRING :: nat where "ID_CHAPSTRING = 0x85"

definition MAX_CHAPTERS :: nat where "MAX_CHAPTERS = 500"
definition MAX_NAME_LEN :: nat where "MAX_NAME_LEN = 4096"
definition MAX_DEPTH :: nat where "MAX_DEPTH = 8"

text \<open>The loop that looks for the marker bit: the number of bytes and the mask.\<close>

fun marker :: "nat \<Rightarrow> nat \<Rightarrow> nat \<Rightarrow> nat \<times> nat" where
  "marker first msk len =
     (if msk = 0 \<or> (first div msk) mod 2 = 1 then (len, msk) else marker first (msk div 2) (len + 1))"

declare marker.simps [simp del]

text \<open>Bytes as a big-endian number behind what is read already.\<close>

definition big_endian :: "nat \<Rightarrow> bytes \<Rightarrow> nat" where
  "big_endian v bs = foldl (\<lambda>v b. v * 256 + unat b) v bs"

text \<open>A number: the position behind it, its value, and whether all its bits are ones.\<close>

definition readVint :: "bytes \<Rightarrow> nat \<Rightarrow> bool \<Rightarrow> (nat \<times> nat \<times> bool) option" where
  "readVint f pos keepMarker =
     (if length f \<le> pos then None
      else
        let first = unat (f ! pos) in
        if first = 0 then None
        else
          let (len, msk) = marker first 0x80 1 in
          if len < 1 \<or> 8 < len \<or> length f < pos + len then None
          else
            let rest = take (len - 1) (drop (pos + 1) f);
                v = big_endian (if keepMarker then first else first mod msk) rest;
                allOnes = (first mod msk = msk - 1 \<and> (\<forall>b \<in> set rest. b = 0xFF))
            in Some (pos + len, v, allOnes))"

text \<open>An element header: where its content starts, its ID, its size, and whether the size is unknown.\<close>

definition readHeader :: "bytes \<Rightarrow> nat \<Rightarrow> (nat \<times> nat \<times> nat \<times> bool) option" where
  "readHeader f pos =
     (case readVint f pos True of
        None \<Rightarrow> None
      | Some (p, rawId, _) \<Rightarrow>
          if 0xFFFFFFFF < rawId then None
          else (case readVint f p False of
                  None \<Rightarrow> None
                | Some (q, rawSize, unknown) \<Rightarrow> Some (q, rawId, rawSize, unknown)))"

definition readUInt :: "bytes \<Rightarrow> nat \<Rightarrow> nat \<Rightarrow> nat option" where
  "readUInt f pos sz =
     (if sz = 0 \<or> 8 < sz \<or> length f < pos + sz then None
      else Some (big_endian 0 (take sz (drop pos f))))"

definition readString :: "(bytes \<Rightarrow> string) \<Rightarrow> bytes \<Rightarrow> nat \<Rightarrow> nat \<Rightarrow> string" where
  "readString utf8 f pos sz =
     (if sz = 0 \<or> MAX_NAME_LEN < sz \<or> length f < pos + sz then []
      else trimmed (utf8 (take sz (drop pos f))))"

section \<open>Chapters\<close>

record MkvChapter =
  mc_startMs :: int
  mc_endMs :: int
  mc_name :: string
  mc_kind :: string

definition new_chapter :: MkvChapter where
  "new_chapter = \<lparr>mc_startMs = 0, mc_endMs = -1, mc_name = [], mc_kind = []\<rparr>"

fun has_text :: "string \<Rightarrow> string \<Rightarrow> bool" where
  "has_text p [] = (p = [])"
| "has_text p (c # cs) = (starts_with p (c # cs) \<or> has_text p cs)"

definition classifyChapter :: "string \<Rightarrow> string" where
  "classifyChapter nameRaw =
     (let n = to_lower nameRaw in
      if list_ex (\<lambda>p. has_text p n) [''intro'', ''opening'', ''recap'', ''previously'', ''abertura'']
      then ''intro''
      else if list_ex (\<lambda>p. has_text p n) [''credit'', ''ending'', ''outro'', ''encerramento'']
      then ''credits''
      else [])"

definition nsToMs :: "nat \<Rightarrow> int" where
  "nsToMs ns = int (ns div 1000000)"

lemma readVint_moves: "readVint f pos k = Some (p, v, u) \<Longrightarrow> pos < p \<and> p \<le> length f"
  by (auto simp: readVint_def Let_def split: if_splits prod.splits)

lemma readHeader_moves: "readHeader f pos = Some (p, i, n, u) \<Longrightarrow> pos < p \<and> p \<le> length f"
  by (auto simp: readHeader_def dest!: readVint_moves split: option.splits if_splits)

text \<open>The loop over a \<open>ChapterDisplay\<close>: the first name counts.\<close>

function display_loop :: "(bytes \<Rightarrow> string) \<Rightarrow> bytes \<Rightarrow> nat \<Rightarrow> nat \<Rightarrow> string \<Rightarrow> string" where
  "display_loop utf8 f dpos dstop name =
     (if dpos < dstop \<and> dpos < length f then
        (case readHeader f dpos of
           None \<Rightarrow> name
         | Some (p, did, dsize, du) \<Rightarrow>
             if du \<or> dstop < p + dsize then name
             else display_loop utf8 f (p + dsize) dstop
                    (if did = ID_CHAPSTRING \<and> name = [] then readString utf8 f p dsize else name))
      else name)"
  by pat_completeness auto
termination
  by (relation "measure (\<lambda>(utf8, f, dpos, dstop, name). dstop - dpos)") (auto dest: readHeader_moves)

declare display_loop.simps [simp del]

text \<open>One element of a chapter.\<close>

definition atom_element :: "(bytes \<Rightarrow> string) \<Rightarrow> bytes \<Rightarrow> nat \<Rightarrow> nat \<Rightarrow> nat \<Rightarrow> MkvChapter \<Rightarrow> MkvChapter" where
  "atom_element utf8 f i content sz ch =
     (if i = ID_TIME_START then
        (case readUInt f content sz of None \<Rightarrow> ch | Some ns \<Rightarrow> ch\<lparr>mc_startMs := nsToMs ns\<rparr>)
      else if i = ID_TIME_END then
        (case readUInt f content sz of None \<Rightarrow> ch | Some ns \<Rightarrow> ch\<lparr>mc_endMs := nsToMs ns\<rparr>)
      else if i = ID_DISPLAY then
        ch\<lparr>mc_name := display_loop utf8 f content (content + sz) (mc_name ch)\<rparr>
      else ch)"

text \<open>A chapter is classified only when the loop ends without an early return.\<close>

function atom_loop :: "(bytes \<Rightarrow> string) \<Rightarrow> bytes \<Rightarrow> nat \<Rightarrow> nat \<Rightarrow> MkvChapter \<Rightarrow> MkvChapter" where
  "atom_loop utf8 f pos stop ch =
     (if pos < stop \<and> pos < length f then
        (case readHeader f pos of
           None \<Rightarrow> ch
         | Some (content, i, sz, unknown) \<Rightarrow>
             if unknown \<or> stop < content + sz then ch
             else atom_loop utf8 f (content + sz) stop (atom_element utf8 f i content sz ch))
      else ch\<lparr>mc_kind := classifyChapter (mc_name ch)\<rparr>)"
  by pat_completeness auto
termination
  by (relation "measure (\<lambda>(utf8, f, pos, stop, ch). stop - pos)") (auto dest: readHeader_moves)

declare atom_loop.simps [simp del]

definition parseChapterAtom ::
  "(bytes \<Rightarrow> string) \<Rightarrow> bytes \<Rightarrow> nat \<Rightarrow> nat \<Rightarrow> MkvChapter \<Rightarrow> nat \<Rightarrow> MkvChapter" where
  "parseChapterAtom utf8 f start stop ch depth =
     (if MAX_DEPTH < depth then ch else atom_loop utf8 f start stop ch)"

function parseChapters ::
  "(bytes \<Rightarrow> string) \<Rightarrow> bytes \<Rightarrow> nat \<Rightarrow> nat \<Rightarrow> MkvChapter list \<Rightarrow> nat \<Rightarrow> MkvChapter list" where
  "parseChapters utf8 f pos stop out depth =
     (if MAX_DEPTH < depth then out
      else if pos < stop \<and> pos < length f \<and> length out < MAX_CHAPTERS then
        (case readHeader f pos of
           None \<Rightarrow> out
         | Some (content, i, sz, unknown) \<Rightarrow>
             if unknown \<or> stop < content + sz then out
             else
               parseChapters utf8 f (content + sz) stop
                 (if i = ID_EDITION then parseChapters utf8 f content (content + sz) out (depth + 1)
                  else if i = ID_CHAPTERATOM then
                    (let ch = parseChapterAtom utf8 f content (content + sz) new_chapter (depth + 1)
                     in if 0 \<le> mc_startMs ch then out @ [ch] else out)
                  else out) depth)
      else out)"
  by pat_completeness auto
termination
  by (relation "measures [\<lambda>(utf8, f, pos, stop, out, depth). Suc MAX_DEPTH - depth,
      \<lambda>(utf8, f, pos, stop, out, depth). stop - pos]") (auto dest: readHeader_moves)

declare parseChapters.simps [simp del]

section \<open>The file\<close>

text \<open>The walk over the children of the segment; \<open>guard\<close> is the number of turns left.\<close>

fun segment_loop :: "(bytes \<Rightarrow> string) \<Rightarrow> bytes \<Rightarrow> nat \<Rightarrow> nat \<Rightarrow> nat \<Rightarrow> MkvChapter list" where
  "segment_loop utf8 f segEnd child 0 = []"
| "segment_loop utf8 f segEnd child (Suc guard) =
     (if child < segEnd then
        (case readHeader f child of
           None \<Rightarrow> []
         | Some (content, cid, csize, unknown) \<Rightarrow>
             if unknown \<or> segEnd < content + csize then []
             else if cid = ID_CHAPTERS then parseChapters utf8 f content (content + csize) [] 0
             else if content + csize \<le> child then []
             else segment_loop utf8 f segEnd (content + csize) guard)
      else [])"

definition readMkvChapters :: "(bytes \<Rightarrow> string) \<Rightarrow> bytes \<Rightarrow> MkvChapter list" where
  "readMkvChapters utf8 f =
     (if length f < 64 then []
      else
        (case readHeader f 0 of
           None \<Rightarrow> []
         | Some (pos, i, sz, unknown) \<Rightarrow>
             if i \<noteq> ID_EBML \<or> unknown \<or> length f < pos + sz then []
             else
               (case readHeader f (pos + sz) of
                  None \<Rightarrow> []
                | Some (segStart, i2, size2, unknown2) \<Rightarrow>
                    if i2 \<noteq> ID_SEGMENT then []
                    else segment_loop utf8 f
                           (if unknown2 then length f else min (length f) (segStart + size2)) segStart 100000)))"

section \<open>Bounds\<close>

lemma marker_power:
  "0 < first \<Longrightarrow> first < 2 ^ Suc k \<Longrightarrow> \<exists>j \<le> k. marker first (2 ^ k) len = (len + j, 2 ^ (k - j))"
proof (induction k arbitrary: len)
  case 0
  then have "first = 1" by simp
  then show ?case by (subst marker.simps) simp
next
  case (Suc k)
  show ?case
  proof (cases "2 ^ Suc k \<le> first")
    case True
    have "first div 2 ^ Suc k = 1" using True Suc.prems(2) by (intro div_nat_eqI) simp_all
    then have "marker first (2 ^ Suc k) len = (len, 2 ^ Suc k)" by (subst marker.simps) simp
    then show ?thesis by (intro exI [of _ 0]) simp
  next
    case False
    then have "first div 2 ^ Suc k = 0" by simp
    then have step: "marker first (2 ^ Suc k) len = marker first (2 ^ k) (len + 1)" by (subst marker.simps) simp
    obtain j where "j \<le> k" "marker first (2 ^ k) (len + 1) = (len + 1 + j, 2 ^ (k - j))"
      using Suc.IH [of "len + 1"] Suc.prems(1) False by auto
    then show ?thesis using step by (intro exI [of _ "Suc j"]) simp
  qed
qed

lemma marker_range:
  "0 < first \<Longrightarrow> first < 256 \<Longrightarrow> \<exists>l. marker first 128 1 = (l, 2 ^ (8 - l)) \<and> 1 \<le> l \<and> l \<le> 8"
  using marker_power [of first 7 1] by (auto simp: Suc_le_eq)

lemma big_endian_less: "v < m \<Longrightarrow> big_endian v bs < m * 256 ^ length bs"
proof (induction bs arbitrary: v m)
  case (Cons b bs)
  have "unat b < 256" using unsigned_less [of b, where ?'a = nat] by simp
  then have "v * 256 + unat b < m * 256" using Cons.prems by auto
  from Cons.IH [OF this] show ?case by (simp add: big_endian_def algebra_simps)
qed (simp add: big_endian_def)

text \<open>The size of an element is below \<open>2^56\<close>.\<close>

lemma vint_size:
  assumes "readVint f pos False = Some (p, v, u)"
  shows "v < 2 ^ 56"
proof -
  define first where "first = unat (f ! pos)"
  obtain l m where m: "marker first 128 1 = (l, m)" by fastforce
  have b: "0 < first" "first < 256" "1 \<le> l" "l \<le> 8" "v = big_endian (first mod m) (take (l - 1) (drop (pos + 1) f))"
    using assms unsigned_less [of "f ! pos", where ?'a = nat]
    by (auto simp: readVint_def first_def [symmetric] m m [simplified] Let_def split: if_splits)
  have m2: "m = 2 ^ (8 - l)" using marker_range [OF b(1,2)] m by auto
  have len: "length (take (l - 1) (drop (pos + 1) f)) \<le> l - 1" by simp
  have "v < 2 ^ (8 - l) * 256 ^ length (take (l - 1) (drop (pos + 1) f))"
    unfolding b(5) by (rule big_endian_less) (simp add: m2)
  also have "\<dots> \<le> 2 ^ (8 - l) * 256 ^ (l - 1)"
    by (intro mult_left_mono power_increasing len) auto
  also have "\<dots> = 2 ^ (8 - l) * 2 ^ (8 * (l - 1))" by (simp add: power_mult)
  also have "\<dots> = 2 ^ (8 - l + 8 * (l - 1))" by (simp add: power_add)
  also have "\<dots> \<le> (2 :: nat) ^ 56" by (rule power_increasing) (use b(3,4) in linarith, simp)
  finally show ?thesis .
qed

lemma chapters_bounded:
  "length out \<le> MAX_CHAPTERS \<Longrightarrow> length (parseChapters utf8 f pos stop out depth) \<le> MAX_CHAPTERS"
proof (induction utf8 f pos stop out depth rule: parseChapters.induct)
  case (1 utf8 f pos stop out depth)
  show ?case
    using 1 by (subst parseChapters.simps) (auto simp: Let_def split: option.splits prod.splits)
qed

section \<open>A file as a muxer writes it\<close>

definition be_bytes :: "nat \<Rightarrow> nat \<Rightarrow> bytes" where
  "be_bytes k n = map (\<lambda>i. word_of_nat (n div 256 ^ i)) (rev [0..<k])"

text \<open>An element: its ID, its size in eight bytes, its content.\<close>

definition elem :: "bytes \<Rightarrow> bytes \<Rightarrow> bytes" where
  "elem idb body = idb @ (1 # be_bytes 7 (length body)) @ body"

definition enc_chapter :: "nat \<times> nat \<times> bytes \<Rightarrow> bytes" where
  "enc_chapter c = (let (s, e, name) = c in
     elem [0xB6] (elem [0x91] (be_bytes 8 s) @ elem [0x92] (be_bytes 8 e) @ elem [0x80] (elem [0x85] name)))"

definition enc_file :: "bytes \<Rightarrow> (nat \<times> bytes) list \<Rightarrow> (nat \<times> nat \<times> bytes) list \<Rightarrow> bytes" where
  "enc_file hdr others cs =
     elem (be_bytes 4 ID_EBML) hdr
     @ elem (be_bytes 4 ID_SEGMENT)
         (concat (map (\<lambda>(i, body). elem (be_bytes 4 i) body) others)
          @ elem (be_bytes 4 ID_CHAPTERS) (elem [0x45, 0xB9] (concat (map enc_chapter cs))))"

definition chapter_of :: "(bytes \<Rightarrow> string) \<Rightarrow> nat \<times> nat \<times> bytes \<Rightarrow> MkvChapter" where
  "chapter_of utf8 c = (let (s, e, name) = c; n = trimmed (utf8 name) in
     \<lparr>mc_startMs = nsToMs s, mc_endMs = nsToMs e, mc_name = n, mc_kind = classifyChapter n\<rparr>)"

definition holds_at :: "bytes \<Rightarrow> nat \<Rightarrow> bytes \<Rightarrow> bool" where
  "holds_at f pos bs \<longleftrightarrow> pos + length bs \<le> length f \<and> take (length bs) (drop pos f) = bs"

lemma holds_append: "holds_at f pos (a @ b) \<longleftrightarrow> holds_at f pos a \<and> holds_at f (pos + length a) b"
  by (auto simp: holds_at_def take_add add.commute add.left_commute)

lemma length_be_bytes [simp]: "length (be_bytes k n) = k"
  by (simp add: be_bytes_def)

lemma be_bytes_Suc: "be_bytes (Suc k) n = word_of_nat (n div 256 ^ k) # be_bytes k n"
  by (simp add: be_bytes_def)

lemma unat_byte: "unat (word_of_nat n :: byte) = n mod 256"
  by (simp add: unsigned_of_nat take_bit_eq_mod)

lemma big_endian_bytes: "big_endian v (be_bytes k n) = v * 256 ^ k + n mod 256 ^ k"
proof (induction k arbitrary: v)
  case (Suc k)
  have "n mod 256 ^ Suc k = 256 ^ k * (n div 256 ^ k mod 256) + n mod 256 ^ k"
    by (metis mod_mult2_eq mult.commute power_Suc)
  then show ?case
    using Suc.IH [of "v * 256 + n div 256 ^ k mod 256"]
    by (simp add: be_bytes_Suc big_endian_def unat_byte algebra_simps)
qed (simp add: be_bytes_def big_endian_def)

lemma vint_at:
  assumes "holds_at f pos (b # bs)" "marker (unat b) 128 1 = (Suc (length bs), m)" "unat b \<noteq> 0" "length bs < 8"
  shows "readVint f pos k = Some (pos + Suc (length bs), big_endian (if k then unat b else unat b mod m) bs,
    unat b mod m = m - 1 \<and> (\<forall>x \<in> set bs. x = 0xFF))"
proof -
  have f: "pos + Suc (length bs) \<le> length f" "take (Suc (length bs)) (drop pos f) = b # bs"
    using assms(1) by (simp_all add: holds_at_def)
  have d: "drop pos f = f ! pos # drop (Suc pos) f" using f(1) by (simp add: Cons_nth_drop_Suc)
  have "f ! pos = b" "take (length bs) (drop (Suc pos) f) = bs" using f(2) d by simp_all
  then show ?thesis using assms(2-4) f(1) by (simp add: readVint_def Let_def)
qed

lemma size_at:
  assumes "holds_at f pos (1 # be_bytes 7 n)" "n < 2 ^ 56 - 1"
  shows "readVint f pos False = Some (pos + 8, n, False)"
proof -
  have m: "marker (unat (1 :: byte)) 128 1 = (Suc (length (be_bytes 7 n)), 1)" by simp code_simp
  have v: "n mod 72057594037927936 = n" using assms(2) by simp
  have "\<not> (\<forall>x \<in> set (be_bytes 7 n). x = 0xFF)"
  proof
    assume "\<forall>x \<in> set (be_bytes 7 n). x = 0xFF"
    then have "be_bytes 7 n = replicate 7 0xFF" by (metis length_be_bytes replicate_length_same)
    then have "big_endian 0 (be_bytes 7 n) = big_endian 0 (replicate 7 0xFF)" by simp
    moreover have "replicate 7 (0xFF :: byte) = [0xFF, 0xFF, 0xFF, 0xFF, 0xFF, 0xFF, 0xFF]" by code_simp
    then have "big_endian 0 (replicate 7 0xFF) = 2 ^ 56 - 1" by (simp add: big_endian_def)
    ultimately show False using assms(2) v by (simp add: big_endian_bytes)
  qed
  then show ?thesis using vint_at [OF assms(1) m, of False] v by (simp add: big_endian_bytes)
qed

text \<open>The bytes of an ID, and the ID they stand for.\<close>

definition is_id :: "bytes \<Rightarrow> nat \<Rightarrow> bool" where
  "is_id bs i \<longleftrightarrow> (case bs of [] \<Rightarrow> False
     | b # r \<Rightarrow> fst (marker (unat b) 128 1) = length bs \<and> unat b \<noteq> 0 \<and> length r < 4
         \<and> i = big_endian (unat b) r)"

lemma id_at:
  assumes "holds_at f pos bs" "is_id bs i"
  shows "\<exists>u. readVint f pos True = Some (pos + length bs, i, u) \<and> i \<le> 0xFFFFFFFF"
proof -
  obtain b r where bs: "bs = b # r" using assms(2) by (cases bs) (auto simp: is_id_def)
  obtain m where m: "marker (unat b) 128 1 = (Suc (length r), m)"
    using assms(2) bs by (cases "marker (unat b) 128 1") (auto simp: is_id_def)
  have i: "i = big_endian (unat b) r" "length r \<le> 3" "unat b \<noteq> 0" using assms(2) bs by (auto simp: is_id_def)
  have "i < 256 * 256 ^ length r"
    unfolding i(1) by (rule big_endian_less) (use unsigned_less [of b, where ?'a = nat] in simp)
  also have "\<dots> \<le> 256 * 256 ^ 3" by (intro mult_left_mono power_increasing i(2)) simp_all
  finally show ?thesis using vint_at [of f pos b r m True] assms(1) bs m i by simp
qed

lemma header_at:
  assumes "holds_at f pos (elem idb body)" "is_id idb i" "length body < 2 ^ 56 - 1"
  shows "readHeader f pos = Some (pos + length idb + 8, i, length body, False)"
    "holds_at f (pos + length idb + 8) body" "pos + length idb + 8 + length body \<le> length f"
proof -
  have h: "holds_at f pos idb" "holds_at f (pos + length idb) (1 # be_bytes 7 (length body))"
      "holds_at f (pos + length idb + 8) body"
    using assms(1) holds_append [of f pos idb] holds_append [of f "pos + length idb" "1 # be_bytes 7 (length body)"]
    by (simp_all add: elem_def)
  obtain u where "readVint f pos True = Some (pos + length idb, i, u)" "i \<le> 0xFFFFFFFF"
    using id_at [OF h(1) assms(2)] by blast
  then show "readHeader f pos = Some (pos + length idb + 8, i, length body, False)"
    using size_at [OF h(2) assms(3)] by (simp add: readHeader_def)
  show "holds_at f (pos + length idb + 8) body" by (rule h(3))
  show "pos + length idb + 8 + length body \<le> length f" using h(3) by (simp add: holds_at_def)
qed

lemma length_elem: "length (elem idb body) = length idb + 8 + length body"
  by (simp add: elem_def)

lemma id4: "2 ^ 28 \<le> i \<Longrightarrow> i < 2 ^ 29 \<Longrightarrow> is_id (be_bytes 4 i) i"
proof -
  assume i: "(2 :: nat) ^ 28 \<le> i" "i < 2 ^ 29"
  define t where "t = i div 256 ^ 3"
  have t: "16 \<le> t" "t < 32" using i by (simp_all add: t_def div_le_mono less_mult_imp_div_less)
  have all: "list_all (\<lambda>n. fst (marker n 128 1) = 4) [16..<32]" by code_simp
  have "t \<in> set [16..<32]" unfolding set_upt using t by simp
  from bspec [OF iffD1 [OF list_all_iff all] this] have m: "fst (marker t 128 1) = 4" .
  have b: "unat (word_of_nat t :: byte) = t" using t by (simp add: unat_byte)
  have "be_bytes 4 i = word_of_nat t # be_bytes 3 i" using be_bytes_Suc [of 3 i] by (simp add: t_def)
  moreover have "t * 256 ^ 3 + i mod 256 ^ 3 = i" by (simp add: t_def)
  ultimately show ?thesis using m b t by (simp add: is_id_def big_endian_bytes)
qed

lemma known_ids:
  "is_id [0xB6] ID_CHAPTERATOM" "is_id [0x91] ID_TIME_START" "is_id [0x92] ID_TIME_END"
  "is_id [0x80] ID_DISPLAY" "is_id [0x85] ID_CHAPSTRING" "is_id [0x45, 0xB9] ID_EDITION"
  "is_id (be_bytes 4 ID_EBML) ID_EBML" "is_id (be_bytes 4 ID_SEGMENT) ID_SEGMENT"
  "is_id (be_bytes 4 ID_CHAPTERS) ID_CHAPTERS"
proof -
  have m: "fst (marker 0xB6 128 1) = 1" "fst (marker 0x91 128 1) = 1" "fst (marker 0x92 128 1) = 1"
    "fst (marker 0x80 128 1) = 1" "fst (marker 0x85 128 1) = 1" "fst (marker 0x45 128 1) = 2"
    by code_simp+
  show "is_id [0xB6] ID_CHAPTERATOM" "is_id [0x91] ID_TIME_START" "is_id [0x92] ID_TIME_END"
    "is_id [0x80] ID_DISPLAY" "is_id [0x85] ID_CHAPSTRING" "is_id [0x45, 0xB9] ID_EDITION"
    using m by (simp_all add: is_id_def big_endian_def ID_CHAPTERATOM_def ID_TIME_START_def ID_TIME_END_def
        ID_DISPLAY_def ID_CHAPSTRING_def ID_EDITION_def)
  show "is_id (be_bytes 4 ID_EBML) ID_EBML" "is_id (be_bytes 4 ID_SEGMENT) ID_SEGMENT"
    "is_id (be_bytes 4 ID_CHAPTERS) ID_CHAPTERS"
    by (rule id4; simp add: ID_EBML_def ID_SEGMENT_def ID_CHAPTERS_def)+
qed

section \<open>Reading it back\<close>

lemma uint_at:
  assumes "holds_at f pos (be_bytes 8 n)" "n < 2 ^ 64"
  shows "readUInt f pos 8 = Some n"
proof -
  have "n mod 256 ^ 8 = n" using assms(2) by simp
  then show ?thesis using assms(1) by (simp add: readUInt_def holds_at_def big_endian_bytes)
qed

lemma string_at:
  assumes "holds_at f pos name" "name \<noteq> []" "length name \<le> MAX_NAME_LEN"
  shows "readString utf8 f pos (length name) = trimmed (utf8 name)"
  using assms by (auto simp: readString_def holds_at_def)

text \<open>One turn of each loop at an element.\<close>

lemma display_at:
  assumes "holds_at f pos (elem idb body)" "is_id idb i" "length body < 2 ^ 56 - 1" "idb \<noteq> []"
    "pos + length idb + 8 + length body \<le> stop"
  shows "display_loop utf8 f pos stop name = display_loop utf8 f (pos + length idb + 8 + length body) stop
    (if i = ID_CHAPSTRING \<and> name = [] then readString utf8 f (pos + length idb + 8) (length body) else name)"
proof -
  note h = header_at [OF assms(1-3)]
  have "pos < stop" "pos < length f" using assms(5) h(3) by simp_all
  then show ?thesis using h(1) assms(5) by (subst display_loop.simps) (simp add: add.assoc)
qed

lemma atom_at:
  assumes "holds_at f pos (elem idb body)" "is_id idb i" "length body < 2 ^ 56 - 1"
    "pos + length idb + 8 + length body \<le> stop"
  shows "atom_loop utf8 f pos stop ch = atom_loop utf8 f (pos + length idb + 8 + length body) stop
    (atom_element utf8 f i (pos + length idb + 8) (length body) ch)"
proof -
  note h = header_at [OF assms(1-3)]
  have "pos < stop" "pos < length f" using assms(4) h(3) by simp_all
  then show ?thesis using h(1) assms(4) by (subst atom_loop.simps) (simp add: add.assoc)
qed

lemma chapters_at:
  assumes "holds_at f pos (elem idb body)" "is_id idb i" "length body < 2 ^ 56 - 1"
    "pos + length idb + 8 + length body \<le> stop" "depth \<le> MAX_DEPTH" "length out < MAX_CHAPTERS"
  shows "parseChapters utf8 f pos stop out depth
    = parseChapters utf8 f (pos + length idb + 8 + length body) stop
       (if i = ID_EDITION
        then parseChapters utf8 f (pos + length idb + 8) (pos + length idb + 8 + length body) out (depth + 1)
        else if i = ID_CHAPTERATOM then
          (let ch = parseChapterAtom utf8 f (pos + length idb + 8) (pos + length idb + 8 + length body)
                      new_chapter (depth + 1)
           in if 0 \<le> mc_startMs ch then out @ [ch] else out)
        else out) depth"
proof -
  note h = header_at [OF assms(1-3)]
  have "pos < stop" "pos < length f" using assms(4) h(3) by simp_all
  then show ?thesis using h(1) assms(4-6) by (subst parseChapters.simps) (simp add: add.assoc)
qed

lemma parse_end: "parseChapters utf8 f pos pos out depth = out"
  by (subst parseChapters.simps) simp

definition chapter_ok :: "nat \<times> nat \<times> bytes \<Rightarrow> bool" where
  "chapter_ok c \<longleftrightarrow> (let (s, e, name) = c in
     s < 2 ^ 64 \<and> e < 2 ^ 64 \<and> name \<noteq> [] \<and> length name \<le> MAX_NAME_LEN)"

lemma chapter_read:
  assumes "holds_at f pos (elem [0x91] (be_bytes 8 s) @ elem [0x92] (be_bytes 8 e) @ elem [0x80] (elem [0x85] name))"
    "chapter_ok (s, e, name)"
  shows "atom_loop utf8 f pos (pos + (52 + length name)) new_chapter = chapter_of utf8 (s, e, name)"
proof -
  let ?stop = "pos + (52 + length name)"
  have ok: "s < 2 ^ 64" "e < 2 ^ 64" "name \<noteq> []" "length name \<le> MAX_NAME_LEN"
    using assms(2) by (simp_all add: chapter_ok_def)
  have n: "length name < 2 ^ 56 - 20" using ok(4) by (simp add: MAX_NAME_LEN_def)
  have h: "holds_at f pos (elem [0x91] (be_bytes 8 s))" "holds_at f (pos + 17) (elem [0x92] (be_bytes 8 e))"
      "holds_at f (pos + 34) (elem [0x80] (elem [0x85] name))"
    using assms(1) by (simp_all add: holds_append length_elem ac_simps)
  have s: "atom_element utf8 f ID_TIME_START (pos + 9) 8 new_chapter = new_chapter\<lparr>mc_startMs := nsToMs s\<rparr>"
    using header_at(2) [OF h(1) known_ids(2)] uint_at [of f "pos + 9" s] ok(1)
    by (simp add: atom_element_def ac_simps)
  have e: "atom_element utf8 f ID_TIME_END (pos + 26) 8 ch = ch\<lparr>mc_endMs := nsToMs e\<rparr>" for ch
    using header_at(2) [OF h(2) known_ids(3)] uint_at [of f "pos + 26" e] ok(2)
    by (simp add: atom_element_def ID_TIME_START_def ID_TIME_END_def ac_simps)
  have d1: "holds_at f (pos + 43) (elem [0x85] name)"
    using header_at(2) [OF h(3) known_ids(4)] n by (simp add: length_elem ac_simps)
  have d2: "holds_at f (pos + 52) name" using header_at(2) [OF d1 known_ids(5)] n by (simp add: ac_simps)
  have "display_loop utf8 f (pos + 43) ?stop [] = trimmed (utf8 name)"
  proof -
    have "display_loop utf8 f (pos + 43) ?stop []
        = display_loop utf8 f ?stop ?stop (readString utf8 f (pos + 52) (length name))"
      using display_at [OF d1 known_ids(5), of ?stop utf8 "[]"] n by (simp add: ac_simps)
    then show ?thesis using string_at [OF d2 ok(3,4), of utf8] by (simp add: display_loop.simps [of _ _ ?stop])
  qed
  then have d: "atom_element utf8 f ID_DISPLAY (pos + 43) (9 + length name) ch = ch\<lparr>mc_name := trimmed (utf8 name)\<rparr>"
    if "mc_name ch = []" for ch
    using that by (simp add: atom_element_def ID_TIME_START_def ID_TIME_END_def ID_DISPLAY_def ac_simps)
  have "atom_loop utf8 f pos ?stop new_chapter
      = atom_loop utf8 f (pos + 17) ?stop (new_chapter\<lparr>mc_startMs := nsToMs s\<rparr>)"
    using atom_at [OF h(1) known_ids(2), of ?stop utf8 new_chapter] s by (simp add: ac_simps)
  also have "\<dots> = atom_loop utf8 f (pos + 34) ?stop (new_chapter\<lparr>mc_startMs := nsToMs s, mc_endMs := nsToMs e\<rparr>)"
    using atom_at [OF h(2) known_ids(3), of ?stop utf8 "new_chapter\<lparr>mc_startMs := nsToMs s\<rparr>"] e
    by (simp add: ac_simps)
  also have "\<dots> = atom_loop utf8 f ?stop ?stop
      (new_chapter\<lparr>mc_startMs := nsToMs s, mc_endMs := nsToMs e, mc_name := trimmed (utf8 name)\<rparr>)"
    using atom_at [OF h(3) known_ids(4), of ?stop utf8 "new_chapter\<lparr>mc_startMs := nsToMs s, mc_endMs := nsToMs e\<rparr>"]
      d n by (simp add: length_elem new_chapter_def ac_simps)
  finally show ?thesis by (simp add: atom_loop.simps [of _ _ ?stop] new_chapter_def chapter_of_def Let_def)
qed

lemma length_enc_chapter: "length (enc_chapter (s, e, name)) = 61 + length name"
  by (simp add: enc_chapter_def length_elem)

lemma nsToMs_nonneg: "0 \<le> nsToMs n"
  by (simp add: nsToMs_def)

lemma chapters_read:
  assumes "holds_at f pos (concat (map enc_chapter cs))" "\<forall>c \<in> set cs. chapter_ok c"
    "length out + length cs \<le> MAX_CHAPTERS" "depth < MAX_DEPTH"
  shows "parseChapters utf8 f pos (pos + length (concat (map enc_chapter cs))) out depth
    = out @ map (chapter_of utf8) cs"
  using assms(1-3)
proof (induction cs arbitrary: pos out)
  case (Cons c cs)
  obtain s e name where c: "c = (s, e, name)" by (cases c)
  let ?B = "elem [0x91] (be_bytes 8 s) @ elem [0x92] (be_bytes 8 e) @ elem [0x80] (elem [0x85] name)"
  let ?R = "concat (map enc_chapter cs)"
  have ok: "chapter_ok (s, e, name)" using Cons.prems(2) c by simp
  have h: "holds_at f pos (elem [0xB6] ?B)" "holds_at f (pos + (61 + length name)) ?R"
    using Cons.prems(1) length_enc_chapter [of s e name]
    by (simp_all add: c holds_append) (simp_all add: enc_chapter_def)
  have len: "length ?B = 52 + length name" by (simp add: length_elem)
  have small: "length ?B < 2 ^ 56 - 1" using ok len by (simp add: chapter_ok_def MAX_NAME_LEN_def)
  have "atom_loop utf8 f (pos + 9) (pos + 9 + (52 + length name)) new_chapter = chapter_of utf8 (s, e, name)"
    using header_at(2) [OF h(1) known_ids(1) small] by (intro chapter_read ok) (simp add: ac_simps)
  then have atom: "parseChapterAtom utf8 f (pos + 9) (pos + 9 + (52 + length name)) new_chapter (depth + 1)
      = chapter_of utf8 c"
    using assms(4) by (simp add: parseChapterAtom_def c)
  have start: "0 \<le> mc_startMs (chapter_of utf8 c)" by (simp add: chapter_of_def c Let_def nsToMs_nonneg)
  have ids: "ID_CHAPTERATOM \<noteq> ID_EDITION" by (simp add: ID_CHAPTERATOM_def ID_EDITION_def)
  let ?stop = "pos + (61 + length name) + length ?R"
  have "parseChapters utf8 f pos ?stop out depth
      = parseChapters utf8 f (pos + (61 + length name)) ?stop (out @ [chapter_of utf8 c]) depth"
    using chapters_at [OF h(1) known_ids(1) small, of ?stop depth out utf8] len assms(4) Cons.prems(3) atom start ids
    by (simp add: ac_simps)
  also have "\<dots> = (out @ [chapter_of utf8 c]) @ map (chapter_of utf8) cs"
    using Cons.prems h(2) by (intro Cons.IH) simp_all
  finally show ?case by (simp add: c length_enc_chapter ac_simps)
qed (simp add: parse_end)

lemma others_read:
  assumes "holds_at f pos (concat (map (\<lambda>(i, body). elem (be_bytes 4 i) body) others) @ rest)"
    "\<forall>(i, body) \<in> set others. 2 ^ 28 \<le> i \<and> i < 2 ^ 29 \<and> i \<noteq> ID_CHAPTERS \<and> length body < 2 ^ 56 - 1"
    "pos + length (concat (map (\<lambda>(i, body). elem (be_bytes 4 i) body) others)) \<le> segEnd"
  shows "segment_loop utf8 f segEnd pos (length others + n)
    = segment_loop utf8 f segEnd (pos + length (concat (map (\<lambda>(i, body). elem (be_bytes 4 i) body) others))) n"
  using assms
proof (induction others arbitrary: pos)
  case (Cons o' others)
  obtain i body where o': "o' = (i, body)" by (cases o')
  let ?next = "pos + (12 + length body)"
  have i: "2 ^ 28 \<le> i" "i < 2 ^ 29" "i \<noteq> ID_CHAPTERS" "length body < 2 ^ 56 - 1" using Cons.prems(2) o' by auto
  have h: "holds_at f pos (elem (be_bytes 4 i) body)"
      "holds_at f ?next (concat (map (\<lambda>(i, body). elem (be_bytes 4 i) body) others) @ rest)"
    using Cons.prems(1) by (simp_all add: o' holds_append length_elem)
  have "segment_loop utf8 f segEnd pos (Suc (length others + n)) = segment_loop utf8 f segEnd ?next (length others + n)"
    using header_at(1) [OF h(1) id4 [OF i(1,2)] i(4)] i(3) Cons.prems(3) o' by (simp add: length_elem ac_simps)
  also have "\<dots> = segment_loop utf8 f segEnd
      (?next + length (concat (map (\<lambda>(i, body). elem (be_bytes 4 i) body) others))) n"
    using Cons.prems(2,3) o' by (intro Cons.IH h(2)) (simp_all add: length_elem)
  finally show ?case by (simp add: o' length_elem ac_simps)
qed simp

text \<open>A file that fits: what a muxer writes, with at most 500 chapters and short names.\<close>

definition mkv_ok :: "bytes \<Rightarrow> (nat \<times> bytes) list \<Rightarrow> (nat \<times> nat \<times> bytes) list \<Rightarrow> bool" where
  "mkv_ok hdr others cs \<longleftrightarrow>
     64 \<le> length (enc_file hdr others cs) \<and> length (enc_file hdr others cs) < 2 ^ 56 - 1
     \<and> length others < 100000 \<and> length cs \<le> MAX_CHAPTERS \<and> list_all chapter_ok cs
     \<and> list_all (\<lambda>(i, body). 2 ^ 28 \<le> i \<and> i < 2 ^ 29 \<and> i \<noteq> ID_CHAPTERS) others"


definition sample_name :: bytes where
  "sample_name = [73, 110, 116, 114, 111]"

lemma sample_file_ok: "mkv_ok (replicate 20 0) [(0x1F43B675, [1, 2])] [(0, 5000000000, sample_name)]"
  by (simp add: mkv_ok_def enc_file_def length_elem length_enc_chapter chapter_ok_def sample_name_def
      MAX_CHAPTERS_def MAX_NAME_LEN_def ID_CHAPTERS_def)


end
