(* ===== verification/TrackerScrape.thy ===== *)
theory TrackerScrape
  imports QtText PasswordHash "HOL-Library.List_Lexorder"
begin

text \<open>
  \<open>services/discovery/trackerscrape.cpp\<close>: the UDP scrape protocol and the scraper that asks several
  trackers for the seeds of a set of magnets. Taking a magnet link and its trackers apart is \<open>QUrl\<close>'s
  work (a tracker comes as scheme, host and port); host lookups, datagrams and timeouts are events, and
  every random transaction number is an input of the event that draws it.
\<close>

section \<open>The protocol\<close>

definition kProtocolId :: "64 word" where "kProtocolId = 0x41727101980"
definition kActionConnect :: "32 word" where "kActionConnect = 0"
definition kActionScrape :: "32 word" where "kActionScrape = 2"
definition kMaxPerScrape :: nat where "kMaxPerScrape = 70"
definition kMaxTrackers :: nat where "kMaxTrackers = 6"

definition put32 :: "32 word \<Rightarrow> bytes" where
  "put32 v = [ucast (drop_bit 24 v), ucast (drop_bit 16 v), ucast (drop_bit 8 v), ucast v]"

definition put64 :: "64 word \<Rightarrow> bytes" where
  "put64 v = put32 (ucast (drop_bit 32 v)) @ put32 (ucast v)"

definition scrape_get32 :: "bytes \<Rightarrow> nat \<Rightarrow> 32 word" where
  "scrape_get32 b n =
     or (push_bit 24 (ucast (b ! n))) (or (push_bit 16 (ucast (b ! (n + 1))))
       (or (push_bit 8 (ucast (b ! (n + 2)))) (ucast (b ! (n + 3)))))"

definition scrape_get64 :: "bytes \<Rightarrow> nat \<Rightarrow> 64 word" where
  "scrape_get64 b n = or (push_bit 32 (ucast (scrape_get32 b n))) (ucast (scrape_get32 b (n + 4)))"

record TrackerUrl =
  tu_scheme :: string
  tu_host :: string
  tu_port :: int

definition udpTrackers :: "TrackerUrl list \<Rightarrow> string list" where
  "udpTrackers us =
     fold (\<lambda>u out.
       if to_lower (tu_scheme u) \<noteq> ''udp'' \<or> tu_host u = [] \<or> tu_port u \<le> 0 then out
       else
         let key = to_lower (tu_host u) @ '':'' @ show_int (tu_port u)
         in if key \<in> set out then out else out @ [key]) us []"

definition connectRequest :: "32 word \<Rightarrow> bytes" where
  "connectRequest tx = put64 kProtocolId @ put32 kActionConnect @ put32 tx"

definition parseConnect :: "bytes \<Rightarrow> 32 word \<Rightarrow> 64 word option" where
  "parseConnect reply tx =
     (if length reply < 16 \<or> scrape_get32 reply 0 \<noteq> kActionConnect \<or> scrape_get32 reply 4 \<noteq> tx then None
      else Some (scrape_get64 reply 8))"

definition scrapeRequest :: "64 word \<Rightarrow> 32 word \<Rightarrow> bytes list \<Rightarrow> bytes" where
  "scrapeRequest cid tx hashes = put64 cid @ put32 kActionScrape @ put32 tx @ concat hashes"

record Counts =
  co_seeders :: int
  co_leechers :: int

definition parseScrape :: "bytes \<Rightarrow> 32 word \<Rightarrow> nat \<Rightarrow> Counts list" where
  "parseScrape reply tx n =
     (if length reply < 8 + 12 * n \<or> scrape_get32 reply 0 \<noteq> kActionScrape \<or> scrape_get32 reply 4 \<noteq> tx then []
      else map (\<lambda>i. let p = 8 + 12 * i in
             \<lparr>co_seeders = sint (scrape_get32 reply p), co_leechers = sint (scrape_get32 reply (p + 8))\<rparr>) [0..<n])"

section \<open>The scraper\<close>

text \<open>One tracker: its socket is alive until it is deleted; \<open>as_batch\<close> is -1 while it connects.\<close>

record Ask =
  as_tracker :: string
  as_hashes :: "string list"
  as_done :: bool
  as_bound :: bool
  as_tx :: "32 word"
  as_cid :: "64 word"
  as_batch :: int

record Scraper =
  sp_pending :: int
  sp_asks :: "Ask list"
  sp_counts :: "(string \<times> Counts) list list"
  sp_finished :: nat
  sp_sent :: "(nat \<times> bytes) list"

text \<open>\<open>hashesByTracker\<close>, in the order of the input.\<close>

definition add_tracker :: "string \<Rightarrow> string \<Rightarrow> (string \<times> string list) list \<Rightarrow> (string \<times> string list) list" where
  "add_tracker h t m =
     (if t \<in> fst ` set m then map (\<lambda>(t', hs). if t' = t then (t', hs @ [h]) else (t', hs)) m
      else m @ [(t, [h])])"

definition by_tracker :: "(string \<times> string list) list \<Rightarrow> (string \<times> string list) list" where
  "by_tracker m = fold (\<lambda>(h, ts) acc. fold (add_tracker h) ts acc) m []"

text \<open>The trackers most magnets share go first, then by name.\<close>

definition tracker_order :: "(string \<times> string list) list \<Rightarrow> (string \<times> string list) list" where
  "tracker_order m = sort_key (\<lambda>(t, hs). - int (length hs)) (sort_key fst m)"

definition new_ask :: "string \<times> string list \<Rightarrow> Ask" where
  "new_ask e = \<lparr>as_tracker = fst e, as_hashes = snd e, as_done = False, as_bound = False,
     as_tx = 0, as_cid = 0, as_batch = -1\<rparr>"

text \<open>With no tracker, \<open>finished\<close> is emitted from a timer that fires at once.\<close>

definition scrape :: "(string \<times> string list) list \<Rightarrow> Scraper \<Rightarrow> Scraper" where
  "scrape trackersByHash s =
     (let ts = take kMaxTrackers (tracker_order (by_tracker trackersByHash));
          s1 = s\<lparr>sp_pending := int (length ts)\<rparr>
      in if ts = [] then s1\<lparr>sp_finished := Suc (sp_finished s1)\<rparr>
         else s1\<lparr>sp_asks := sp_asks s1 @ map new_ask ts\<rparr>)"

definition doneOne :: "Scraper \<Rightarrow> Scraper" where
  "doneOne s =
     (let s1 = s\<lparr>sp_pending := sp_pending s - 1\<rparr>
      in if sp_pending s1 = 0 then s1\<lparr>sp_finished := Suc (sp_finished s1)\<rparr> else s1)"

definition put_ask :: "nat \<Rightarrow> Ask \<Rightarrow> Scraper \<Rightarrow> Scraper" where
  "put_ask k a s = s\<lparr>sp_asks := (sp_asks s)[k := a]\<rparr>"

definition finish_ask :: "nat \<Rightarrow> Scraper \<Rightarrow> Scraper" where
  "finish_ask k s =
     (let a = sp_asks s ! k in
      if as_done a then s else doneOne (put_ask k (a\<lparr>as_done := True\<rparr>) s))"

text \<open>The hashes of batch \<open>i\<close>, and how many batches there are.\<close>

definition batch_keys :: "Ask \<Rightarrow> int \<Rightarrow> string list" where
  "batch_keys a i = take kMaxPerScrape (drop (nat i * kMaxPerScrape) (as_hashes a))"

definition batch_count :: "Ask \<Rightarrow> int" where
  "batch_count a = int ((length (as_hashes a) + kMaxPerScrape - 1) div kMaxPerScrape)"

definition send_ask :: "32 word \<Rightarrow> nat \<Rightarrow> Scraper \<Rightarrow> Scraper" where
  "send_ask rnd k s =
     (let a = (sp_asks s ! k)\<lparr>as_tx := rnd\<rparr>;
          msg = (if as_batch a < 0 then connectRequest rnd
                 else scrapeRequest (as_cid a) rnd (map from_hex (batch_keys a (as_batch a))))
      in (put_ask k a s)\<lparr>sp_sent := sp_sent s @ [(k, msg)]\<rparr>)"

text \<open>The answer of the host lookup: an IPv4 address was found and the socket bound, or not.\<close>

definition on_lookup :: "bool \<Rightarrow> 32 word \<Rightarrow> nat \<Rightarrow> Scraper \<Rightarrow> Scraper" where
  "on_lookup ok rnd k s =
     (if \<not> ok then finish_ask k s
      else send_ask rnd k (put_ask k ((sp_asks s ! k)\<lparr>as_bound := True\<rparr>) s))"

text \<open>The step to the next batch.\<close>

definition next_batch :: "32 word \<Rightarrow> nat \<Rightarrow> Scraper \<Rightarrow> Scraper" where
  "next_batch rnd k s =
     (let a = (sp_asks s ! k)\<lparr>as_batch := as_batch (sp_asks s ! k) + 1\<rparr>; s1 = put_ask k a s
      in if batch_count a \<le> as_batch a then finish_ask k s1 else send_ask rnd k s1)"

definition on_datagram :: "bytes \<Rightarrow> 32 word \<Rightarrow> nat \<Rightarrow> Scraper \<Rightarrow> Scraper" where
  "on_datagram reply rnd k s =
     (let a = sp_asks s ! k in
      if as_batch a < 0 then
        (case parseConnect reply (as_tx a) of
           None \<Rightarrow> s
         | Some cid \<Rightarrow> next_batch rnd k (put_ask k (a\<lparr>as_cid := cid\<rparr>) s))
      else
        let keys = batch_keys a (as_batch a); got = parseScrape reply (as_tx a) (length keys) in
        if got = [] then s
        else next_batch rnd k (s\<lparr>sp_counts := sp_counts s @ [zip keys got]\<rparr>))"

datatype ScrapeEvent = SeLookup nat bool "32 word" | SeDatagram nat bytes "32 word" | SeTimeout nat

text \<open>A datagram reaches a socket that is bound and still has a batch to ask for.\<close>

definition listening :: "Ask \<Rightarrow> bool" where
  "listening a \<longleftrightarrow> as_bound a \<and> as_batch a < batch_count a"

fun scrape_step :: "ScrapeEvent \<Rightarrow> Scraper \<Rightarrow> Scraper" where
  "scrape_step (SeLookup k ok rnd) s = (if k < length (sp_asks s) then on_lookup ok rnd k s else s)"
| "scrape_step (SeDatagram k b rnd) s =
     (if k < length (sp_asks s) \<and> listening (sp_asks s ! k) then on_datagram b rnd k s else s)"
| "scrape_step (SeTimeout k) s = (if k < length (sp_asks s) then finish_ask k s else s)"

definition scrape_run :: "ScrapeEvent list \<Rightarrow> Scraper \<Rightarrow> Scraper" where
  "scrape_run es s = fold scrape_step es s"

section \<open>The codec\<close>

lemma put32_get: "scrape_get32 (put32 v @ r) 0 = v"
proof (rule bit_word_eqI)
  fix n assume "n < LENGTH(32)"
  then consider "n < 8" | "8 \<le> n" "n < 16" | "16 \<le> n" "n < 24" | "24 \<le> n" "n < 32" by fastforce
  then show "bit (scrape_get32 (put32 v @ r) 0) n \<longleftrightarrow> bit v n"
    by cases (auto simp: scrape_get32_def put32_def bit_simps)
qed

lemma length_put32 [simp]: "length (put32 v) = 4"
  by (simp add: put32_def)

lemma get32_append: "scrape_get32 (a @ r) (length a + n) = scrape_get32 r n"
  by (simp add: scrape_get32_def nth_append)

lemma get32_append0: "scrape_get32 (a @ r) (length a) = scrape_get32 r 0"
  using get32_append [of a r 0] by simp

text \<open>A scrape reply as a tracker writes it.\<close>

definition scrape_reply :: "32 word \<Rightarrow> (32 word \<times> 32 word \<times> 32 word) list \<Rightarrow> bytes" where
  "scrape_reply tx cs = put32 kActionScrape @ put32 tx
     @ concat (map (\<lambda>(s, c, l). put32 s @ put32 c @ put32 l) cs)"

lemma replies_get:
  assumes "i < length cs" "cs ! i = (sd, c, l)" "length pre = 8"
  shows "scrape_get32 (pre @ concat (map (\<lambda>(s, c, l). put32 s @ put32 c @ put32 l) cs)) (8 + 12 * i) = sd"
    "scrape_get32 (pre @ concat (map (\<lambda>(s, c, l). put32 s @ put32 c @ put32 l) cs)) (8 + 12 * i + 8) = l"
proof -
  let ?e = "\<lambda>(s, c, l). put32 s @ put32 c @ put32 l"
  have len: "length (concat (map ?e xs)) = 12 * length xs" for xs
    by (induction xs) auto
  have "concat (map ?e cs) = concat (map ?e (take i cs @ cs ! i # drop (Suc i) cs))"
    by (subst id_take_nth_drop [OF assms(1), symmetric]) (rule refl)
  then have split: "pre @ concat (map ?e cs)
      = (pre @ concat (map ?e (take i cs))) @ put32 sd @ put32 c @ put32 l @ concat (map ?e (drop (Suc i) cs))"
    by (simp add: assms(2))
  have l1: "length (pre @ concat (map ?e (take i cs))) = 8 + 12 * i" using assms(1,3) len [of "take i cs"] by simp
  have l2: "length ((pre @ concat (map ?e (take i cs))) @ put32 sd @ put32 c) = 8 + 12 * i + 8" using l1 by simp
  let ?A = "pre @ concat (map ?e (take i cs))" and ?R = "concat (map ?e (drop (Suc i) cs))"
  have "scrape_get32 (?A @ put32 sd @ put32 c @ put32 l @ ?R) (length ?A) = sd"
    by (simp only: get32_append0 put32_get)
  then show "scrape_get32 (pre @ concat (map ?e cs)) (8 + 12 * i) = sd" by (simp only: split l1)
  have "scrape_get32 ((?A @ put32 sd @ put32 c) @ put32 l @ ?R) (length (?A @ put32 sd @ put32 c)) = l"
    by (simp only: get32_append0 put32_get)
  moreover have "?A @ put32 sd @ put32 c @ put32 l @ ?R = (?A @ put32 sd @ put32 c) @ put32 l @ ?R" by simp
  ultimately show "scrape_get32 (pre @ concat (map ?e cs)) (8 + 12 * i + 8) = l" by (simp only: split l2)
qed

text \<open>A tracker's reply is read as the counts it was written from, one for each hash, in order.\<close>

lemma parse_scrape_reply:
  "parseScrape (scrape_reply tx cs) tx (length cs)
     = map (\<lambda>(s, c, l). \<lparr>co_seeders = sint s, co_leechers = sint l\<rparr>) cs"
proof -
  let ?b = "concat (map (\<lambda>(s, c, l). put32 s @ put32 c @ put32 l) cs)"
  have len: "length (concat (map (\<lambda>(s, c, l). put32 s @ put32 c @ put32 l) xs)) = 12 * length xs" for xs
    by (induction xs) auto
  have reply: "scrape_reply tx cs = (put32 kActionScrape @ put32 tx) @ ?b" by (simp add: scrape_reply_def)
  have head: "scrape_get32 (scrape_reply tx cs) 0 = kActionScrape" "scrape_get32 (scrape_reply tx cs) 4 = tx"
    using put32_get [of kActionScrape] get32_append [of "put32 kActionScrape" "put32 tx @ ?b" 0] put32_get [of tx]
    by (simp_all add: scrape_reply_def)
  have "map (\<lambda>i. let p = 8 + 12 * i in
        \<lparr>co_seeders = sint (scrape_get32 (scrape_reply tx cs) p),
         co_leechers = sint (scrape_get32 (scrape_reply tx cs) (p + 8))\<rparr>) [0..<length cs]
      = map (\<lambda>(s, c, l). \<lparr>co_seeders = sint s, co_leechers = sint l\<rparr>) cs"
  proof (rule nth_equalityI)
    fix i assume "i < length (map (\<lambda>i. let p = 8 + 12 * i in
        \<lparr>co_seeders = sint (scrape_get32 (scrape_reply tx cs) p),
         co_leechers = sint (scrape_get32 (scrape_reply tx cs) (p + 8))\<rparr>) [0..<length cs])"
    then have i: "i < length cs" by simp
    obtain sd c l where e: "cs ! i = (sd, c, l)" by (cases "cs ! i") auto
    show "map (\<lambda>i. let p = 8 + 12 * i in
        \<lparr>co_seeders = sint (scrape_get32 (scrape_reply tx cs) p),
         co_leechers = sint (scrape_get32 (scrape_reply tx cs) (p + 8))\<rparr>) [0..<length cs] ! i
      = map (\<lambda>(s, c, l). \<lparr>co_seeders = sint s, co_leechers = sint l\<rparr>) cs ! i"
      using replies_get [OF i e, of "put32 kActionScrape @ put32 tx"] i e by (simp add: reply Let_def)
  qed simp
  then show ?thesis
    using head len [of cs] by (simp add: parseScrape_def) (simp add: scrape_reply_def)
qed

section \<open>One finished\<close>

definition open_asks :: "Scraper \<Rightarrow> nat" where
  "open_asks s = length (filter (\<lambda>a. \<not> as_done a) (sp_asks s))"

definition count_inv :: "Scraper \<Rightarrow> bool" where
  "count_inv s \<longleftrightarrow> sp_pending s = int (open_asks s) \<and> sp_finished s = (if open_asks s = 0 then 1 else 0)
     \<and> sp_asks s \<noteq> []"

lemma filter_put:
  "k < length xs \<Longrightarrow> length (filter P (xs[k := a])) + (if P (xs ! k) then 1 else 0)
     = length (filter P xs) + (if P a then 1 else 0)"
proof -
  assume k: "k < length xs"
  have "length (filter P xs) = length (filter P (take k xs @ xs ! k # drop (Suc k) xs))"
    using id_take_nth_drop [OF k] by simp
  then show ?thesis using k by (simp add: upd_conv_take_nth_drop)
qed

lemma open_put:
  assumes "k < length (sp_asks s)"
  shows "open_asks (put_ask k a s) + (if as_done (sp_asks s ! k) then 0 else 1)
    = open_asks s + (if as_done a then 0 else 1)"
  using filter_put [OF assms, of "\<lambda>a. \<not> as_done a" a] by (auto simp: open_asks_def put_ask_def)

lemma count_put:
  assumes "k < length (sp_asks s)" "as_done a = as_done (sp_asks s ! k)"
  shows "count_inv (put_ask k a s) = count_inv s"
  using open_put [OF assms(1), of a] assms by (simp add: count_inv_def put_ask_def split: if_splits)

lemma count_sent [simp]:
  "count_inv (s\<lparr>sp_sent := X\<rparr>) = count_inv s" "count_inv (s\<lparr>sp_counts := Y\<rparr>) = count_inv s"
  by (simp_all add: count_inv_def open_asks_def)

lemma count_finish:
  assumes "count_inv s" "k < length (sp_asks s)"
  shows "count_inv (finish_ask k s)"
proof (cases "as_done (sp_asks s ! k)")
  case False
  let ?t = "put_ask k ((sp_asks s ! k)\<lparr>as_done := True\<rparr>) s"
  have o: "Suc (open_asks ?t) = open_asks s" using open_put [OF assms(2)] False by simp
  have "sp_pending ?t = sp_pending s" "sp_finished ?t = sp_finished s" "sp_asks ?t \<noteq> []"
    using assms by (auto simp: put_ask_def count_inv_def)
  then show ?thesis
    using assms(1) o False by (auto simp: finish_ask_def doneOne_def count_inv_def open_asks_def Let_def)
qed (use assms in \<open>simp add: finish_ask_def\<close>)

lemma put_ask_simps [simp]:
  "length (sp_asks (put_ask k a s)) = length (sp_asks s)"
  "k < length (sp_asks s) \<Longrightarrow> sp_asks (put_ask k a s) ! k = a"
  by (simp_all add: put_ask_def)

lemma count_send: "count_inv s \<Longrightarrow> k < length (sp_asks s) \<Longrightarrow> count_inv (send_ask rnd k s)"
  by (simp add: send_ask_def Let_def count_put)

lemma count_next: "count_inv s \<Longrightarrow> k < length (sp_asks s) \<Longrightarrow> count_inv (next_batch rnd k s)"
  by (simp add: next_batch_def Let_def count_put count_finish count_send)

lemma count_step: "count_inv s \<Longrightarrow> count_inv (scrape_step e s)"
  by (cases e)
    (auto simp: on_lookup_def on_datagram_def Let_def count_put count_finish count_send
      intro!: count_next split: option.split)

lemma count_run: "count_inv s \<Longrightarrow> count_inv (scrape_run es s)"
  by (induction es arbitrary: s) (simp_all add: scrape_run_def count_step)

lemma done_step:
  assumes "k < length (sp_asks s)" "as_done (sp_asks s ! k)"
  shows "as_done (sp_asks (scrape_step e s) ! k) \<and> k < length (sp_asks (scrape_step e s))"
proof -
  have put: "as_done (sp_asks (put_ask j a t) ! k)" if "as_done (sp_asks t ! k)" "k < length (sp_asks t)"
    "j = k \<Longrightarrow> as_done a" for j a t
    using that by (cases "j = k") (simp_all add: put_ask_def)
  show ?thesis
    using assms
    by (cases e) (auto simp: on_lookup_def on_datagram_def next_batch_def send_ask_def finish_ask_def doneOne_def
        Let_def intro!: put split: option.split)
qed

lemma length_step: "length (sp_asks (scrape_step e s)) = length (sp_asks s)"
  by (cases e) (auto simp: on_lookup_def on_datagram_def next_batch_def send_ask_def finish_ask_def doneOne_def
      put_ask_def Let_def split: option.split)

lemma done_run:
  "k < length (sp_asks s) \<Longrightarrow> as_done (sp_asks s ! k) \<Longrightarrow> as_done (sp_asks (scrape_run es s) ! k)"
proof (induction es arbitrary: s)
  case (Cons e es)
  then show ?case using Cons.IH [of "scrape_step e s"] done_step [of k s e] by (simp add: scrape_run_def)
qed (simp add: scrape_run_def)

lemma timeout_done: "k < length (sp_asks s) \<Longrightarrow> as_done (sp_asks (scrape_step (SeTimeout k) s) ! k)"
  by (simp add: finish_ask_def doneOne_def Let_def)

lemma all_timed_out:
  "k < length (sp_asks s) \<Longrightarrow> SeTimeout k \<in> set es \<Longrightarrow> as_done (sp_asks (scrape_run es s) ! k)"
proof (induction es arbitrary: s)
  case (Cons e es)
  have k: "k < length (sp_asks (scrape_step e s))" using Cons.prems(1) by (simp add: length_step)
  show ?case
  proof (cases "e = SeTimeout k")
    case True
    then show ?thesis
      using done_run [OF k, of es] timeout_done [OF Cons.prems(1)] by (simp add: scrape_run_def)
  next
    case False
    then show ?thesis using Cons.IH [OF k] Cons.prems(2) by (simp add: scrape_run_def)
  qed
qed simp

lemma length_run: "length (sp_asks (scrape_run es s)) = length (sp_asks s)"
  by (induction es arbitrary: s) (simp_all add: scrape_run_def length_step)

lemma scrape_count:
  assumes "sp_finished s = 0" "sp_asks s = []" "by_tracker m \<noteq> []"
  shows "count_inv (scrape m s)"
proof -
  have "length (tracker_order (by_tracker m)) = length (by_tracker m)" by (simp add: tracker_order_def)
  then have "tracker_order (by_tracker m) \<noteq> []" using assms(3) by fastforce
  then have "take kMaxTrackers (tracker_order (by_tracker m)) \<noteq> []" by (simp add: kMaxTrackers_def)
  then show ?thesis
    using assms(1,2) by (simp add: scrape_def count_inv_def open_asks_def Let_def new_ask_def)
qed


definition sample_scraper :: Scraper where
  "sample_scraper = \<lparr>sp_pending = 0, sp_asks = [], sp_counts = [], sp_finished = 0, sp_sent = []\<rparr>"

definition sample_magnets :: "(string \<times> string list) list" where
  "sample_magnets = [(''ab'', [''t:1'', ''u:2'']), (''cd'', [''u:2''])]"

definition sample_scrape_events :: "ScrapeEvent list" where
  "sample_scrape_events = [SeLookup 0 True 7, SeTimeout 1, SeLookup 1 False 9, SeTimeout 0]"

lemma sample_asks: "length (sp_asks (scrape sample_magnets sample_scraper)) = 2"
  by code_simp


end
