(* ===== verification/DebridClients.thy ===== *)
theory DebridClients
  imports QtJson
begin

text \<open>
  The debrid services (\<open>services/integrations/realdebrid.cpp\<close>, \<open>torbox.cpp\<close>, \<open>debridpick.cpp\<close>,
  \<open>debridmanager.cpp\<close>): a client sends a magnet to the service, polls it until the files are there, and
  asks for the link to play. A request that has been sent and not answered is an element of \<open>dc_open\<close>;
  its reply is an event. The poll timer is whether it runs and its interval. Texts shown to the user are
  constructors.
\<close>

section \<open>Picking the file\<close>

definition looksLikeVideo :: "string \<Rightarrow> bool" where
  "looksLikeVideo path \<longleftrightarrow> list_ex (\<lambda>e. ends_with e (to_lower path))
     [''.mp4'', ''.mkv'', ''.avi'', ''.mov'', ''.wmv'', ''.m4v'', ''.webm'', ''.flv'', ''.mpg'', ''.mpeg'', ''.ts'', ''.m2ts'']"

text \<open>The best file so far: its index or id (-1 for none), its size, its name.\<close>

record DebridBest =
  db_video :: int
  db_videoBytes :: int
  db_videoName :: string
  db_any :: int
  db_anyBytes :: int
  db_anyName :: string

definition no_best :: DebridBest where
  "no_best = \<lparr>db_video = -1, db_videoBytes = -1, db_videoName = [], db_any = -1, db_anyBytes = -1, db_anyName = []\<rparr>"

definition offer :: "int \<Rightarrow> int \<Rightarrow> string \<Rightarrow> DebridBest \<Rightarrow> DebridBest" where
  "offer i bytes name b =
     (let b1 = (if db_anyBytes b < bytes then b\<lparr>db_any := i, db_anyBytes := bytes, db_anyName := name\<rparr> else b)
      in if looksLikeVideo name \<and> db_videoBytes b1 < bytes
         then b1\<lparr>db_video := i, db_videoBytes := bytes, db_videoName := name\<rparr> else b1)"

text \<open>Only selected files count for the index.\<close>

definition rd_file :: "JVal \<Rightarrow> int \<times> DebridBest \<Rightarrow> int \<times> DebridBest" where
  "rd_file v acc =
     (let f = map_of (j_object (Some v)); (selIdx, b) = acc in
      if j_int 0 (f ''selected'') \<noteq> 1 then acc
      else (selIdx + 1, offer (selIdx + 1) (j_num (f ''bytes'')) (j_string (f ''path'')) b))"

definition bestRealDebridLinkIndex :: "JVal list \<Rightarrow> int" where
  "bestRealDebridLinkIndex files =
     (let b = snd (fold rd_file files (-1, no_best)) in if 0 \<le> db_video b then db_video b else db_any b)"

definition tb_file :: "JVal \<Rightarrow> DebridBest \<Rightarrow> DebridBest" where
  "tb_file v b =
     (let f = map_of (j_object (Some v)); i = j_int (-1) (f ''id'') in
      if i < 0 then b else offer i (j_num (f ''size'')) (j_string (f ''name'')) b)"

definition bestTorBoxFile :: "JVal list \<Rightarrow> int \<times> string" where
  "bestTorBoxFile files =
     (let b = fold tb_file files no_best
      in if 0 \<le> db_video b then (db_video b, db_videoName b) else (db_any b, db_anyName b))"

section \<open>The state of a client\<close>

datatype DebridMsg = MsgNone | MsgNoToken | MsgInProgress | MsgRejected | MsgSending | MsgPreparing
  | MsgSelecting | MsgCaching | MsgUnlocking | MsgNotAccepted | MsgDetail string | MsgTooLong
  | MsgNoFile | MsgFailed string | MsgNoUnlock

datatype DebridSignal = DsAccount | DsBusy | DsStatus | DsReady string string | DsError DebridMsg

text \<open>What is asked of the service: account, a new transfer, its state, its files, the link of a file.\<close>

datatype DebridAsk = AskAccount | AskAdd string | AskInfo string | AskSelect string | AskLink string string

text \<open>A reply: network error, failed authentication, HTTP status, parsed body.\<close>

record DebridReply =
  dr_error :: bool
  dr_auth :: bool
  dr_http :: int
  dr_body :: "JVal option"

record DebridClient =
  dc_token :: string
  dc_secret :: string
  dc_authed :: bool
  dc_name :: string
  dc_plan :: string
  dc_expiry :: string
  dc_busy :: bool
  dc_progress :: int
  dc_status :: DebridMsg
  dc_jobId :: string
  dc_jobName :: string
  dc_timer :: bool
  dc_interval :: int
  dc_tries :: int
  dc_open :: "DebridAsk list"
  dc_signals :: "DebridSignal list"

record RealDebridClient = DebridClient +
  rd_filesSelected :: bool

definition kPollMs :: int where "kPollMs = 2500"
definition kMaxPolls :: int where "kMaxPolls = 400"

definition dc_emit :: "DebridSignal \<Rightarrow> 'a DebridClient_scheme \<Rightarrow> 'a DebridClient_scheme" where
  "dc_emit x c = c\<lparr>dc_signals := dc_signals c @ [x]\<rparr>"

definition dc_ask :: "DebridAsk \<Rightarrow> 'a DebridClient_scheme \<Rightarrow> 'a DebridClient_scheme" where
  "dc_ask a c = c\<lparr>dc_open := dc_open c @ [a]\<rparr>"

definition setBusy :: "bool \<Rightarrow> 'a DebridClient_scheme \<Rightarrow> 'a DebridClient_scheme" where
  "setBusy b c = (if dc_busy c = b then c else dc_emit DsBusy (c\<lparr>dc_busy := b\<rparr>))"

definition setStatus :: "DebridMsg \<Rightarrow> int \<Rightarrow> 'a DebridClient_scheme \<Rightarrow> 'a DebridClient_scheme" where
  "setStatus m p c =
     (let c1 = c\<lparr>dc_status := m\<rparr>; c2 = (if 0 \<le> p then c1\<lparr>dc_progress := p\<rparr> else c1) in dc_emit DsStatus c2)"

text \<open>\<open>start()\<close> keeps the interval of the timer; \<open>start(msec)\<close> sets it.\<close>

definition start_timer :: "'a DebridClient_scheme \<Rightarrow> 'a DebridClient_scheme" where
  "start_timer c = c\<lparr>dc_timer := True\<rparr>"

definition start_timer_at :: "int \<Rightarrow> 'a DebridClient_scheme \<Rightarrow> 'a DebridClient_scheme" where
  "start_timer_at i c = c\<lparr>dc_timer := True, dc_interval := i\<rparr>"

definition failJob :: "DebridMsg \<Rightarrow> 'a DebridClient_scheme \<Rightarrow> 'a DebridClient_scheme" where
  "failJob m c = dc_emit (DsError m) (setBusy False (setStatus MsgNone 0 (c\<lparr>dc_timer := False, dc_jobId := []\<rparr>)))"

definition cancelStream :: "'a DebridClient_scheme \<Rightarrow> 'a DebridClient_scheme" where
  "cancelStream c = setBusy False (setStatus MsgNone 0 (c\<lparr>dc_timer := False, dc_jobId := []\<rparr>))"

definition pollJob :: "'a DebridClient_scheme \<Rightarrow> 'a DebridClient_scheme" where
  "pollJob c =
     (if dc_jobId c = [] then c
      else
        let c1 = c\<lparr>dc_tries := dc_tries c + 1\<rparr> in
        if kMaxPolls < dc_tries c1 then failJob MsgTooLong c1 else dc_ask (AskInfo (dc_jobId c1)) c1)"

definition checkAccount :: "'a DebridClient_scheme \<Rightarrow> 'a DebridClient_scheme" where
  "checkAccount c = (if dc_token c = [] then c else dc_ask AskAccount c)"

definition debrid_setToken :: "string \<Rightarrow> 'a DebridClient_scheme \<Rightarrow> 'a DebridClient_scheme" where
  "debrid_setToken token c =
     (let t = trimmed token;
          c1 = dc_emit DsAccount (c\<lparr>dc_token := t, dc_secret := t, dc_authed := False, dc_name := [],
                 dc_plan := [], dc_expiry := []\<rparr>)
      in if t = [] then c1 else checkAccount c1)"

definition clearToken :: "'a DebridClient_scheme \<Rightarrow> 'a DebridClient_scheme" where
  "clearToken c = debrid_setToken [] c"

definition loadToken :: "'a DebridClient_scheme \<Rightarrow> 'a DebridClient_scheme" where
  "loadToken c = (let c1 = c\<lparr>dc_token := dc_secret c\<rparr> in if dc_token c1 = [] then c1 else checkAccount c1)"

text \<open>The account is forgotten when a check fails.\<close>

definition no_account :: "bool \<Rightarrow> 'a DebridClient_scheme \<Rightarrow> 'a DebridClient_scheme" where
  "no_account rejected c =
     (let c1 = dc_emit DsAccount (c\<lparr>dc_authed := False, dc_name := [], dc_plan := [], dc_expiry := []\<rparr>)
      in if rejected then dc_emit (DsError MsgRejected) c1 else c1)"

section \<open>Real-Debrid\<close>

definition rd_onAccount :: "DebridReply \<Rightarrow> RealDebridClient \<Rightarrow> RealDebridClient" where
  "rd_onAccount r c =
     (let o' = j_object (dr_body r); f = map_of o' in
      if dr_error r \<or> o' = [] then no_account (dr_auth r \<or> dr_http r = 401) c
      else
        let plan = j_string (f ''type'') in
        dc_emit DsAccount (c\<lparr>dc_name := j_string (f ''username''), dc_plan := plan,
          dc_expiry := take 10 (j_string (f ''expiration'')), dc_authed := (plan = ''premium'')\<rparr>))"

definition rd_streamMagnet :: "string \<Rightarrow> RealDebridClient \<Rightarrow> RealDebridClient" where
  "rd_streamMagnet magnet c =
     (if dc_token c = [] then dc_emit (DsError MsgNoToken) c
      else if dc_busy c then dc_emit (DsError MsgInProgress) c
      else
        dc_ask (AskAdd magnet) (setStatus MsgSending 0 (setBusy True
          (c\<lparr>dc_jobId := [], dc_jobName := [], rd_filesSelected := False, dc_tries := 0\<rparr>))))"

definition rd_onAddMagnet :: "DebridReply \<Rightarrow> RealDebridClient \<Rightarrow> RealDebridClient" where
  "rd_onAddMagnet r c =
     (let i = j_string (map_of (j_object (dr_body r)) ''id'') in
      if dr_error r \<or> i = [] then failJob MsgNotAccepted c
      else start_timer_at 0 (setStatus MsgPreparing 0 (c\<lparr>dc_jobId := i\<rparr>)))"

definition rd_downloaded :: "(string \<Rightarrow> JVal option) \<Rightarrow> RealDebridClient \<Rightarrow> RealDebridClient" where
  "rd_downloaded f c =
     (let links = j_array (f ''links''); idx = bestRealDebridLinkIndex (j_array (f ''files'')) in
      if idx < 0 \<or> int (length links) \<le> idx then failJob MsgNoFile c
      else
        let link = j_string (Some (links ! nat idx)) in
        if link = [] then failJob MsgNoFile c
        else dc_ask (AskLink link []) (setStatus MsgUnlocking 100 c))"

definition rd_onJobInfo :: "DebridReply \<Rightarrow> RealDebridClient \<Rightarrow> RealDebridClient" where
  "rd_onJobInfo r c =
     (let o' = j_object (dr_body r); f = map_of o' in
      if dc_jobId c = [] then c
      else if dr_error r \<or> o' = [] then start_timer c
      else
        let status = j_string (f ''status''); c1 = c\<lparr>dc_jobName := j_string (f ''filename'')\<rparr> in
        if status = ''waiting_files_selection'' then
          (if \<not> rd_filesSelected c1
           then dc_ask (AskSelect (dc_jobId c1)) (setStatus MsgSelecting 0 (c1\<lparr>rd_filesSelected := True\<rparr>))
           else start_timer c1)
        else if status = ''downloaded'' then rd_downloaded f c1
        else if status = ''downloading''
        then start_timer (setStatus MsgCaching (clamp_int (j_num (f ''progress'')) 0 100) c1)
        else if status \<in> {''magnet_conversion'', ''queued'', ''compressing'', ''uploading''}
        then start_timer (setStatus MsgPreparing (dc_progress c1) c1)
        else failJob (MsgFailed status) c1)"

definition rd_onSelected :: "RealDebridClient \<Rightarrow> RealDebridClient" where
  "rd_onSelected c = (if dc_jobId c \<noteq> [] then start_timer c else c)"

definition rd_onUnrestrict :: "DebridReply \<Rightarrow> RealDebridClient \<Rightarrow> RealDebridClient" where
  "rd_onUnrestrict r c =
     (let f = map_of (j_object (dr_body r)); url = j_string (f ''download'') in
      if dr_error r \<or> url = [] then failJob MsgNoUnlock c
      else dc_emit (DsReady url (j_string_or (dc_jobName c) (f ''filename'')))
             (setBusy False (setStatus MsgNone 100 (c\<lparr>dc_jobId := []\<rparr>))))"

fun rd_reply :: "DebridAsk \<Rightarrow> DebridReply \<Rightarrow> RealDebridClient \<Rightarrow> RealDebridClient" where
  "rd_reply AskAccount r c = rd_onAccount r c"
| "rd_reply (AskAdd m) r c = rd_onAddMagnet r c"
| "rd_reply (AskInfo i) r c = rd_onJobInfo r c"
| "rd_reply (AskSelect i) r c = rd_onSelected c"
| "rd_reply (AskLink l n) r c = rd_onUnrestrict r c"

section \<open>TorBox\<close>

type_synonym TorBoxClient = DebridClient

definition plan_name :: "int \<Rightarrow> string" where
  "plan_name plan =
     (if 0 \<le> plan \<and> plan < 4 then [''Free'', ''Essential'', ''Pro'', ''Standard''] ! nat plan
      else ''Plan '' @ show_int plan)"

definition tb_onAccount :: "DebridReply \<Rightarrow> TorBoxClient \<Rightarrow> TorBoxClient" where
  "tb_onAccount r c =
     (let root = map_of (j_object (dr_body r)); d = j_object (root ''data''); f = map_of d in
      if dr_error r \<or> \<not> j_bool (root ''success'') \<or> d = [] then no_account (dr_http r = 401) c
      else
        let plan = j_int 0 (f ''plan'') in
        dc_emit DsAccount (c\<lparr>dc_name := j_string (f ''email''), dc_plan := plan_name plan,
          dc_expiry := take 10 (j_string (f ''premium_expires_at'')), dc_authed := (0 < plan)\<rparr>))"

definition tb_streamMagnet :: "string \<Rightarrow> TorBoxClient \<Rightarrow> TorBoxClient" where
  "tb_streamMagnet magnet c =
     (if dc_token c = [] then dc_emit (DsError MsgNoToken) c
      else if dc_busy c then dc_emit (DsError MsgInProgress) c
      else
        dc_ask (AskAdd magnet) (setStatus MsgSending 0 (setBusy True
          (c\<lparr>dc_jobId := [], dc_jobName := [], dc_tries := 0\<rparr>))))"

definition tb_onCreate :: "DebridReply \<Rightarrow> TorBoxClient \<Rightarrow> TorBoxClient" where
  "tb_onCreate r c =
     (let root = map_of (j_object (dr_body r)); d = map_of (j_object (root ''data'')) in
      if dr_error r \<or> \<not> j_bool (root ''success'') then
        (let detail = j_string (root ''detail'')
         in failJob (if detail = [] then MsgNotAccepted else MsgDetail detail) c)
      else
        let i = (case d ''torrent_id'' of Some (JvStr s) \<Rightarrow> s | v \<Rightarrow> show_int (j_int 0 v));
            c1 = c\<lparr>dc_jobId := i\<rparr>
        in if i = [] \<or> i = ''0'' then failJob MsgNotAccepted c1
           else start_timer_at 0 (setStatus MsgPreparing 0 c1))"

text \<open>\<open>pct\<close> is the product of the progress and 100 in doubles, without its fraction.\<close>

definition tb_onJobInfo :: "(rat \<Rightarrow> int) \<Rightarrow> DebridReply \<Rightarrow> TorBoxClient \<Rightarrow> TorBoxClient" where
  "tb_onJobInfo pct r c =
     (let root = map_of (j_object (dr_body r)); o' = j_object (root ''data''); f = map_of o' in
      if dc_jobId c = [] then c
      else if dr_error r \<or> \<not> j_bool (root ''success'') then start_timer c
      else if o' = [] then start_timer c
      else
        let c1 = c\<lparr>dc_jobName := j_string (f ''name'')\<rparr> in
        if j_bool (f ''download_finished'') \<and> j_bool (f ''download_present'') then
          (let best = bestTorBoxFile (j_array (f ''files'')) in
           if fst best < 0 then failJob MsgNoFile c1
           else
             let c2 = setStatus MsgUnlocking 100 c1;
                 c3 = c2\<lparr>dc_jobName := (if snd best = [] then dc_jobName c2 else snd best)\<rparr>
             in dc_ask (AskLink (show_int (fst best)) (dc_jobName c3)) c3)
        else
          let state = j_string (f ''download_state'') in
          if starts_with ''stalled'' state \<or> state = ''error'' \<or> state = ''missingFiles''
          then failJob (MsgFailed state) c1
          else start_timer (setStatus MsgCaching (clamp_int (pct (j_real (f ''progress''))) 0 100) c1))"

definition tb_onRequestLink :: "DebridReply \<Rightarrow> string \<Rightarrow> TorBoxClient \<Rightarrow> TorBoxClient" where
  "tb_onRequestLink r name c =
     (let root = map_of (j_object (dr_body r)); url = j_string (root ''data'') in
      if dr_error r \<or> \<not> j_bool (root ''success'') \<or> url = [] then failJob MsgNoUnlock c
      else dc_emit (DsReady url name) (setBusy False (setStatus MsgNone 100 (c\<lparr>dc_jobId := []\<rparr>))))"

text \<open>The files of a transfer need no selection.\<close>

fun tb_reply :: "(rat \<Rightarrow> int) \<Rightarrow> DebridAsk \<Rightarrow> DebridReply \<Rightarrow> TorBoxClient \<Rightarrow> TorBoxClient" where
  "tb_reply pct AskAccount r c = tb_onAccount r c"
| "tb_reply pct (AskAdd m) r c = tb_onCreate r c"
| "tb_reply pct (AskInfo i) r c = tb_onJobInfo pct r c"
| "tb_reply pct (AskSelect i) r c = c"
| "tb_reply pct (AskLink l n) r c = tb_onRequestLink r n c"

end
