(* ===== verification/DebridJobs.thy ===== *)
theory DebridJobs
  imports DebridClients
begin

text \<open>
  What a debrid client does over time. The two clients share a contract, the locale \<open>debrid_provider\<close>: a
  job is one request or one running timer, and every reply to it moves it on or ends it. From it follow
  that a job is answered once and that it ends. \<open>debridmanager.cpp\<close> owns both clients and shows one.
\<close>

section \<open>Events\<close>

datatype DebridEvent = DvStart string | DvReply nat DebridReply | DvTimer | DvToken string | DvCheck | DvCancel

definition is_job :: "DebridAsk \<Rightarrow> bool" where
  "is_job a \<longleftrightarrow> a \<noteq> AskAccount"

definition jobs :: "'a DebridClient_scheme \<Rightarrow> DebridAsk list" where
  "jobs c = filter is_job (dc_open c)"

text \<open>Request \<open>k\<close> is answered.\<close>

definition close :: "nat \<Rightarrow> 'a DebridClient_scheme \<Rightarrow> 'a DebridClient_scheme" where
  "close k c = c\<lparr>dc_open := take k (dc_open c) @ drop (Suc k) (dc_open c)\<rparr>"

fun dc_step ::
  "(string \<Rightarrow> 'a DebridClient_scheme \<Rightarrow> 'a DebridClient_scheme)
    \<Rightarrow> (DebridAsk \<Rightarrow> DebridReply \<Rightarrow> 'a DebridClient_scheme \<Rightarrow> 'a DebridClient_scheme)
    \<Rightarrow> DebridEvent \<Rightarrow> 'a DebridClient_scheme \<Rightarrow> 'a DebridClient_scheme" where
  "dc_step start handle (DvStart m) c = start m c"
| "dc_step start handle (DvReply k r) c =
     (if k < length (dc_open c) then handle (dc_open c ! k) r (close k c) else c)"
| "dc_step start handle DvTimer c = (if dc_timer c then pollJob (c\<lparr>dc_timer := False\<rparr>) else c)"
| "dc_step start handle (DvToken t) c = debrid_setToken t c"
| "dc_step start handle DvCheck c = checkAccount c"
| "dc_step start handle DvCancel c = cancelStream c"

definition dc_run where
  "dc_run start handle es c = fold (dc_step start handle) es c"

text \<open>The event moves the job: the timer fires, or one of its requests is answered.\<close>

definition moves :: "DebridEvent \<Rightarrow> 'a DebridClient_scheme \<Rightarrow> bool" where
  "moves e c = (case e of DvTimer \<Rightarrow> dc_timer c
     | DvReply k r \<Rightarrow> k < length (dc_open c) \<and> is_job (dc_open c ! k) | _ \<Rightarrow> False)"

fun moves_in where
  "moves_in start handle [] c = (0 :: nat)"
| "moves_in start handle (e # es) c =
     (if moves e c then 1 else 0) + moves_in start handle es (dc_step start handle e c)"

text \<open>The signals that end a job, and the jobs a run starts.\<close>

fun ends_job :: "DebridSignal \<Rightarrow> bool" where
  "ends_job (DsReady u n) = True"
| "ends_job (DsError m) = (m \<notin> {MsgNoToken, MsgInProgress, MsgRejected})"
| "ends_job _ = False"

definition job_ends :: "'a DebridClient_scheme \<Rightarrow> nat" where
  "job_ends c = length (filter ends_job (dc_signals c))"

fun starts_in where
  "starts_in start handle [] c = (0 :: nat)"
| "starts_in start handle (e # es) c =
     (case e of DvStart m \<Rightarrow> if dc_token c \<noteq> [] \<and> \<not> dc_busy c then 1 else 0 | _ \<Rightarrow> 0)
       + starts_in start handle es (dc_step start handle e c)"

section \<open>A job\<close>

text \<open>No job, or one job that waits for one thing and can go on.\<close>

definition idle :: "'a DebridClient_scheme \<Rightarrow> bool" where
  "idle c \<longleftrightarrow> \<not> dc_busy c \<and> \<not> dc_timer c \<and> jobs c = []"

fun ask_ok :: "DebridAsk \<Rightarrow> 'a DebridClient_scheme \<Rightarrow> bool" where
  "ask_ok (AskAdd m) c = (dc_tries c = 0)"
| "ask_ok _ c = (dc_jobId c \<noteq> [])"

definition working :: "(DebridAsk \<Rightarrow> bool) \<Rightarrow> 'a DebridClient_scheme \<Rightarrow> bool" where
  "working sends c \<longleftrightarrow> dc_busy c \<and> 0 \<le> dc_tries c \<and> dc_tries c \<le> kMaxPolls
     \<and> (if dc_timer c then jobs c = [] \<and> dc_jobId c \<noteq> []
        else length (jobs c) = 1 \<and> sends (hd (jobs c)) \<and> ask_ok (hd (jobs c)) c)"

definition job_inv :: "(DebridAsk \<Rightarrow> bool) \<Rightarrow> 'a DebridClient_scheme \<Rightarrow> bool" where
  "job_inv sends c \<longleftrightarrow> idle c \<or> working sends c"

text \<open>How many moves are left at most.\<close>

fun ask_left :: "DebridAsk \<Rightarrow> int \<Rightarrow> nat" where
  "ask_left (AskAdd m) n = nat (3 * (kMaxPolls + 1)) + 1"
| "ask_left (AskInfo i) n = nat (3 * (kMaxPolls + 1 - n)) + 2"
| "ask_left (AskSelect i) n = nat (3 * (kMaxPolls + 1 - n)) + 1"
| "ask_left (AskLink l m) n = 1"
| "ask_left AskAccount n = 0"

definition moves_left :: "'a DebridClient_scheme \<Rightarrow> nat" where
  "moves_left c = (if \<not> dc_busy c then 0 else if dc_timer c then nat (3 * (kMaxPolls + 1 - dc_tries c))
     else sum_list (map (\<lambda>a. ask_left a (dc_tries c)) (jobs c)))"

text \<open>The parts of a client a job is made of.\<close>

definition same_job :: "'a DebridClient_scheme \<Rightarrow> 'a DebridClient_scheme \<Rightarrow> bool" where
  "same_job c d \<longleftrightarrow> dc_busy d = dc_busy c \<and> dc_timer d = dc_timer c \<and> dc_tries d = dc_tries c
     \<and> dc_jobId d = dc_jobId c \<and> jobs d = jobs c \<and> job_ends d = job_ends c"

lemma same_job_keeps:
  assumes "same_job c d"
  shows "job_inv sends d = job_inv sends c" "working sends d = working sends c" "moves_left d = moves_left c"
    "job_ends d = job_ends c" "dc_busy d = dc_busy c"
proof -
  have "ask_ok a d = ask_ok a c" for a using assms by (cases a) (simp_all add: same_job_def)
  then show "working sends d = working sends c" using assms by (simp add: working_def same_job_def)
  then show "job_inv sends d = job_inv sends c" using assms by (simp add: job_inv_def idle_def same_job_def)
qed (use assms in \<open>simp_all add: moves_left_def same_job_def\<close>)

text \<open>A job that was \<open>n\<close> moves from its end goes on closer to it, or has ended and said so.\<close>

definition goes_on :: "(DebridAsk \<Rightarrow> bool) \<Rightarrow> nat \<Rightarrow> nat \<Rightarrow> 'a DebridClient_scheme \<Rightarrow> bool" where
  "goes_on sends n k d \<longleftrightarrow>
     (working sends d \<and> moves_left d < n \<and> job_ends d = k) \<or> (idle d \<and> job_ends d = k + 1)"

section \<open>Shared steps\<close>

lemma jobs_ask [simp]: "jobs (dc_ask a c) = jobs c @ (if is_job a then [a] else [])"
  by (simp add: jobs_def dc_ask_def)

lemma client_frames [simp]:
  "dc_busy (dc_ask a c) = dc_busy c" "dc_timer (dc_ask a c) = dc_timer c" "dc_tries (dc_ask a c) = dc_tries c"
  "dc_jobId (dc_ask a c) = dc_jobId c" "job_ends (dc_ask a c) = job_ends c"
  "dc_busy (dc_emit x c) = dc_busy c" "dc_timer (dc_emit x c) = dc_timer c" "dc_tries (dc_emit x c) = dc_tries c"
  "dc_jobId (dc_emit x c) = dc_jobId c" "jobs (dc_emit x c) = jobs c"
  "job_ends (dc_emit x c) = job_ends c + (if ends_job x then 1 else 0)"
  "dc_busy (setBusy b c) = b" "dc_timer (setBusy b c) = dc_timer c" "dc_tries (setBusy b c) = dc_tries c"
  "dc_jobId (setBusy b c) = dc_jobId c" "jobs (setBusy b c) = jobs c" "job_ends (setBusy b c) = job_ends c"
  "dc_busy (setStatus m p c) = dc_busy c" "dc_timer (setStatus m p c) = dc_timer c"
  "dc_tries (setStatus m p c) = dc_tries c" "dc_jobId (setStatus m p c) = dc_jobId c"
  "jobs (setStatus m p c) = jobs c" "job_ends (setStatus m p c) = job_ends c"
  "dc_token (dc_ask a c) = dc_token c" "dc_token (dc_emit x c) = dc_token c"
  by (simp_all add: dc_ask_def dc_emit_def setBusy_def setStatus_def job_ends_def jobs_def Let_def)

lemma client_updates [simp]:
  "jobs (c\<lparr>dc_timer := a\<rparr>) = jobs c" "jobs (c\<lparr>dc_timer := a, dc_interval := i\<rparr>) = jobs c"
  "jobs (c\<lparr>dc_jobId := j\<rparr>) = jobs c" "jobs (c\<lparr>dc_jobName := j\<rparr>) = jobs c" "jobs (c\<lparr>dc_tries := n\<rparr>) = jobs c"
  "jobs (c\<lparr>dc_timer := a, dc_jobId := j\<rparr>) = jobs c"
  "jobs (c\<lparr>dc_jobId := j, dc_jobName := j', dc_tries := n\<rparr>) = jobs c"
  "job_ends (c\<lparr>dc_timer := a\<rparr>) = job_ends c" "job_ends (c\<lparr>dc_timer := a, dc_interval := i\<rparr>) = job_ends c"
  "job_ends (c\<lparr>dc_jobId := j\<rparr>) = job_ends c" "job_ends (c\<lparr>dc_jobName := j\<rparr>) = job_ends c"
  "job_ends (c\<lparr>dc_tries := n\<rparr>) = job_ends c" "job_ends (c\<lparr>dc_timer := a, dc_jobId := j\<rparr>) = job_ends c"
  "job_ends (c\<lparr>dc_jobId := j, dc_jobName := j', dc_tries := n\<rparr>) = job_ends c"
  by (simp_all add: jobs_def job_ends_def)

lemma selected_updates [simp]:
  fixes c :: RealDebridClient
  shows "jobs (c\<lparr>rd_filesSelected := b\<rparr>) = jobs c" "job_ends (c\<lparr>rd_filesSelected := b\<rparr>) = job_ends c"
    "jobs (c\<lparr>dc_jobId := j, dc_jobName := j', rd_filesSelected := b, dc_tries := n\<rparr>) = jobs c"
    "job_ends (c\<lparr>dc_jobId := j, dc_jobName := j', rd_filesSelected := b, dc_tries := n\<rparr>) = job_ends c"
  by (simp_all add: jobs_def job_ends_def)

lemma same_job_trans: "same_job a b \<Longrightarrow> same_job b c \<Longrightarrow> same_job a c"
  by (simp add: same_job_def)

lemma check_job: "same_job c (checkAccount c)"
  by (simp add: same_job_def checkAccount_def is_job_def)

lemma emit_job: "\<not> ends_job x \<Longrightarrow> same_job c (dc_emit x c)"
  by (simp add: same_job_def)

lemma account_update_job:
  "same_job c (c\<lparr>dc_authed := b, dc_name := n, dc_plan := p, dc_expiry := x\<rparr>)"
  "same_job c (c\<lparr>dc_token := t, dc_secret := t, dc_authed := b, dc_name := n, dc_plan := p, dc_expiry := x\<rparr>)"
  by (simp_all add: same_job_def jobs_def job_ends_def)

lemma token_job: "same_job c (debrid_setToken t c)"
proof -
  let ?d = "dc_emit DsAccount (c\<lparr>dc_token := trimmed t, dc_secret := trimmed t, dc_authed := False, dc_name := [],
      dc_plan := [], dc_expiry := []\<rparr>)"
  have d: "same_job c ?d" by (rule same_job_trans [OF account_update_job(2) emit_job]) simp
  have "debrid_setToken t c = (if trimmed t = [] then ?d else checkAccount ?d)"
    by (simp add: debrid_setToken_def Let_def)
  then show ?thesis using d same_job_trans [OF d check_job] by presburger
qed

lemma no_account_job: "same_job c (no_account b c)"
proof -
  let ?d = "dc_emit DsAccount (c\<lparr>dc_authed := False, dc_name := [], dc_plan := [], dc_expiry := []\<rparr>)"
  have d: "same_job c ?d" by (rule same_job_trans [OF account_update_job(1) emit_job]) simp
  have "same_job c (dc_emit (DsError MsgRejected) ?d)" by (rule same_job_trans [OF d emit_job]) simp
  then show ?thesis using d unfolding no_account_def Let_def by presburger
qed

lemma fail_ends:
  assumes "jobs c = []" "m \<notin> {MsgNoToken, MsgInProgress, MsgRejected}"
  shows "goes_on sends n (job_ends c) (failJob m c)"
  using assms by (simp add: goes_on_def idle_def failJob_def)

lemma poll_goes_on:
  assumes "dc_busy c" "\<not> dc_timer c" "jobs c = []" "dc_jobId c \<noteq> []" "0 \<le> dc_tries c" "dc_tries c \<le> kMaxPolls"
    "\<And>i. sends (AskInfo i)"
  shows "goes_on sends (nat (3 * (kMaxPolls + 1 - dc_tries c))) (job_ends c) (pollJob c)"
proof (cases "kMaxPolls < dc_tries c + 1")
  case True
  then show ?thesis using assms fail_ends [of "c\<lparr>dc_tries := dc_tries c + 1\<rparr>" MsgTooLong]
    by (simp add: pollJob_def Let_def)
next
  case False
  then show ?thesis
    using assms by (simp add: pollJob_def Let_def goes_on_def working_def moves_left_def is_job_def)
qed

lemma jobs_close:
  assumes "k < length (dc_open c)"
  shows "length (jobs (close k c)) + (if is_job (dc_open c ! k) then 1 else 0) = length (jobs c)"
    "\<not> is_job (dc_open c ! k) \<Longrightarrow> jobs (close k c) = jobs c"
    "is_job (dc_open c ! k) \<Longrightarrow> jobs c = [a] \<Longrightarrow> dc_open c ! k = a"
proof -
  have "jobs c = filter is_job (take k (dc_open c) @ dc_open c ! k # drop (Suc k) (dc_open c))"
    using id_take_nth_drop [OF assms] by (simp add: jobs_def)
  then have "jobs c = filter is_job (take k (dc_open c)) @ (if is_job (dc_open c ! k) then [dc_open c ! k] else [])
      @ filter is_job (drop (Suc k) (dc_open c))" by simp
  moreover have "jobs (close k c) = filter is_job (take k (dc_open c)) @ filter is_job (drop (Suc k) (dc_open c))"
    by (simp add: jobs_def close_def)
  ultimately show "length (jobs (close k c)) + (if is_job (dc_open c ! k) then 1 else 0) = length (jobs c)"
    "\<not> is_job (dc_open c ! k) \<Longrightarrow> jobs (close k c) = jobs c"
    "is_job (dc_open c ! k) \<Longrightarrow> jobs c = [a] \<Longrightarrow> dc_open c ! k = a"
    by (auto simp: append_eq_Cons_conv)
qed

lemma close_frames [simp]:
  "dc_busy (close k c) = dc_busy c" "dc_timer (close k c) = dc_timer c" "dc_tries (close k c) = dc_tries c"
  "dc_jobId (close k c) = dc_jobId c" "job_ends (close k c) = job_ends c"
  by (simp_all add: close_def job_ends_def)

lemma idle_left: "idle d \<Longrightarrow> moves_left d = 0"
  by (simp add: idle_def moves_left_def)

lemma ask_left_pos: "is_job a \<Longrightarrow> 0 < ask_left a n"
  by (cases a) (simp_all add: is_job_def)

section \<open>The contract\<close>

locale debrid_provider =
  fixes start :: "string \<Rightarrow> 'a DebridClient_scheme \<Rightarrow> 'a DebridClient_scheme"
    and handle :: "DebridAsk \<Rightarrow> DebridReply \<Rightarrow> 'a DebridClient_scheme \<Rightarrow> 'a DebridClient_scheme"
    and sends :: "DebridAsk \<Rightarrow> bool"
  assumes start_refused: "dc_token c = [] \<or> dc_busy c \<Longrightarrow> same_job c (start m c)"
    and start_works: "dc_token c \<noteq> [] \<Longrightarrow> idle c \<Longrightarrow>
      working sends (start m c) \<and> job_ends (start m c) = job_ends c"
    and account: "same_job c (handle AskAccount r c)"
    and sends_info: "sends (AskInfo i)"
    and sends_job: "sends a \<Longrightarrow> is_job a"
    and job: "dc_busy c \<Longrightarrow> \<not> dc_timer c \<Longrightarrow> jobs c = [] \<Longrightarrow> 0 \<le> dc_tries c \<Longrightarrow> dc_tries c \<le> kMaxPolls
      \<Longrightarrow> sends a \<Longrightarrow> ask_ok a c \<Longrightarrow> goes_on sends (ask_left a (dc_tries c)) (job_ends c) (handle a r c)"
begin

lemma job_moves:
  assumes "job_inv sends c" "moves e c"
  shows "dc_busy c \<and> goes_on sends (moves_left c) (job_ends c) (dc_step start handle e c)"
proof (cases e)
  case (DvReply k r)
  then have k: "k < length (dc_open c)" "is_job (dc_open c ! k)" using assms(2) by (simp_all add: moves_def)
  then have "jobs c \<noteq> []" using jobs_close(1) [OF k(1)] by force
  then have w: "working sends c" and nt: "\<not> dc_timer c"
    using assms(1) by (auto simp: job_inv_def idle_def working_def split: if_splits)
  then have one: "length (jobs c) = 1" by (simp add: working_def)
  then obtain a where a: "jobs c = [a]" by (cases "jobs c") auto
  have ka: "dc_open c ! k = a" by (rule jobs_close(3) [OF k a])
  have none: "jobs (close k c) = []" using jobs_close(1) [OF k(1)] k(2) one by simp
  have "ask_ok a (close k c)" using w nt a by (cases a) (simp_all add: working_def)
  then have "goes_on sends (ask_left a (dc_tries c)) (job_ends c) (handle a r (close k c))"
    using job [of "close k c" a r] w nt a none by (simp add: working_def)
  moreover have "moves_left c = ask_left a (dc_tries c)" using w nt a by (simp add: moves_left_def working_def)
  ultimately show ?thesis using w DvReply k(1) ka by (simp add: working_def)
next
  case DvTimer
  then have "dc_timer c" using assms(2) by (simp add: moves_def)
  then have w: "dc_busy c" "jobs c = []" "dc_jobId c \<noteq> []" "0 \<le> dc_tries c" "dc_tries c \<le> kMaxPolls"
    using assms(1) by (auto simp: job_inv_def idle_def working_def)
  then show ?thesis
    using poll_goes_on [of "c\<lparr>dc_timer := False\<rparr>" sends] \<open>dc_timer c\<close> DvTimer sends_info
    by (simp add: moves_left_def)
qed (use assms(2) in \<open>simp_all add: moves_def\<close>)

lemma job_stays:
  assumes "job_inv sends c" "\<not> moves e c" "e \<noteq> DvCancel" "\<nexists>m. e = DvStart m"
  shows "same_job c (dc_step start handle e c)"
proof (cases e)
  case (DvReply k r)
  show ?thesis
  proof (cases "k < length (dc_open c)")
    case True
    then have n: "\<not> is_job (dc_open c ! k)" using assms(2) DvReply by (simp add: moves_def)
    then have "dc_open c ! k = AskAccount" by (simp add: is_job_def)
    moreover have "same_job c (close k c)" using jobs_close(2) [OF True n] by (simp add: same_job_def)
    ultimately show ?thesis using True DvReply same_job_trans [OF _ account] by simp
  qed (use DvReply in \<open>simp add: same_job_def\<close>)
qed (use assms in \<open>simp_all add: moves_def same_job_def [of c c] check_job token_job\<close>)

lemma started:
  assumes "job_inv sends c"
  shows "job_inv sends (start m c) \<and> job_ends (start m c) = job_ends c
    \<and> (if dc_token c \<noteq> [] \<and> \<not> dc_busy c then dc_busy (start m c) else dc_busy (start m c) = dc_busy c)"
proof (cases "dc_token c \<noteq> [] \<and> \<not> dc_busy c")
  case True
  then have "idle c" using assms by (auto simp: job_inv_def working_def)
  then show ?thesis using start_works [of c m] True by (simp add: job_inv_def working_def)
next
  case False
  then have "same_job c (start m c)" using start_refused by blast
  then show ?thesis using assms same_job_keeps(1) [of c "start m c" sends] same_job_keeps(4,5) [of c "start m c"] False by simp
qed

lemma goes_on_inv: "goes_on sends n k d \<Longrightarrow> job_inv sends d \<and> job_ends d + (if dc_busy d then 1 else 0) = k + 1"
  by (auto simp: goes_on_def job_inv_def idle_def working_def)

lemma step_inv:
  assumes "job_inv sends c" "e \<noteq> DvCancel"
  shows "job_inv sends (dc_step start handle e c)"
    "job_ends (dc_step start handle e c) + (if dc_busy (dc_step start handle e c) then 1 else 0)
      = job_ends c + (if dc_busy c then 1 else 0)
        + (case e of DvStart m \<Rightarrow> if dc_token c \<noteq> [] \<and> \<not> dc_busy c then 1 else 0 | _ \<Rightarrow> 0)"
proof -
  let ?d = "dc_step start handle e c"
  consider m where "e = DvStart m" | "moves e c" "\<nexists>m. e = DvStart m" | "\<not> moves e c" "\<nexists>m. e = DvStart m" by blast
  then have "job_inv sends ?d \<and> job_ends ?d + (if dc_busy ?d then 1 else 0)
      = job_ends c + (if dc_busy c then 1 else 0)
        + (case e of DvStart m \<Rightarrow> if dc_token c \<noteq> [] \<and> \<not> dc_busy c then 1 else 0 | _ \<Rightarrow> 0)"
  proof cases
    case 1
    then show ?thesis using started [OF assms(1), of m] by auto
  next
    case 2
    then show ?thesis using job_moves [OF assms(1)] goes_on_inv by (cases e) (fastforce simp: moves_def)+
  next
    case 3
    have s: "same_job c ?d" by (rule job_stays [OF assms(1) 3(1) assms(2) 3(2)])
    then show ?thesis using 3(2) assms same_job_keeps(1) [OF s, of sends] same_job_keeps(4,5) [OF s] by (cases e) simp_all
  qed
  then show "job_inv sends ?d" "job_ends ?d + (if dc_busy ?d then 1 else 0)
      = job_ends c + (if dc_busy c then 1 else 0)
        + (case e of DvStart m \<Rightarrow> if dc_token c \<noteq> [] \<and> \<not> dc_busy c then 1 else 0 | _ \<Rightarrow> 0)" by blast+
qed

lemma answered_once:
  assumes "job_inv sends c" "DvCancel \<notin> set es"
  shows "job_inv sends (dc_run start handle es c)
    \<and> job_ends (dc_run start handle es c) + (if dc_busy (dc_run start handle es c) then 1 else 0)
      = job_ends c + (if dc_busy c then 1 else 0) + starts_in start handle es c"
  using assms
proof (induction es arbitrary: c)
  case (Cons e es)
  have e: "e \<noteq> DvCancel" using Cons.prems(2) by auto
  note s = step_inv [OF Cons.prems(1) e]
  have "DvCancel \<notin> set es" using Cons.prems(2) by simp
  then show ?case using Cons.IH [OF s(1)] s(2) by (simp add: dc_run_def)
qed (simp add: dc_run_def)

lemma moves_bounded:
  assumes "job_inv sends c" "\<forall>e \<in> set es. e \<noteq> DvCancel \<and> (\<nexists>m. e = DvStart m)"
  shows "moves_in start handle es c + moves_left (dc_run start handle es c) \<le> moves_left c
    \<and> job_inv sends (dc_run start handle es c)"
  using assms
proof (induction es arbitrary: c)
  case (Cons e es)
  let ?d = "dc_step start handle e c"
  have e: "e \<noteq> DvCancel" "\<nexists>m. e = DvStart m" using Cons.prems(2) by auto
  have inv: "job_inv sends ?d" by (rule step_inv(1) [OF Cons.prems(1) e(1)])
  have "(if moves e c then 1 else 0) + moves_left ?d \<le> moves_left c"
  proof (cases "moves e c")
    case True
    have g: "dc_busy c" "goes_on sends (moves_left c) (job_ends c) ?d" using job_moves [OF Cons.prems(1) True] by simp_all
    have "0 < moves_left c"
    proof -
      have "working sends c" using g(1) Cons.prems(1) by (auto simp: job_inv_def idle_def)
      then show ?thesis
      proof (cases "dc_timer c")
        case False
        then obtain a where "jobs c = [a]" "sends a"
          using \<open>working sends c\<close> by (cases "jobs c") (auto simp: working_def)
        then show ?thesis using False g(1) ask_left_pos [of a "dc_tries c"] sends_job by (simp add: moves_left_def)
      qed (auto simp: working_def moves_left_def)
    qed
    then have "moves_left ?d < moves_left c" using g(2) idle_left [of ?d] by (auto simp: goes_on_def)
    then show ?thesis using True by simp
  next
    case False
    then show ?thesis using same_job_keeps(3) [OF job_stays [OF Cons.prems(1) False e]] by simp
  qed
  moreover have "\<forall>e \<in> set es. e \<noteq> DvCancel \<and> (\<nexists>m. e = DvStart m)" using Cons.prems(2) by simp
  note Cons.IH [OF inv this]
  ultimately show ?case by (simp add: dc_run_def)
qed (simp add: dc_run_def)

text \<open>A job that has not ended waits for something that can happen.\<close>

lemma never_stuck:
  assumes "job_inv sends c" "dc_busy c"
  shows "\<exists>e. moves e c"
proof -
  have w: "working sends c" using assms by (auto simp: job_inv_def idle_def)
  show ?thesis
  proof (cases "dc_timer c")
    case True
    then show ?thesis by (intro exI [of _ DvTimer]) (simp add: moves_def)
  next
    case False
    then have "jobs c \<noteq> []" using w by (auto simp: working_def)
    then obtain a where "a \<in> set (dc_open c)" "is_job a" by (auto simp: jobs_def filter_empty_conv)
    then obtain k where "k < length (dc_open c)" "is_job (dc_open c ! k)" by (metis in_set_conv_nth)
    then show ?thesis by (intro exI [of _ "DvReply k undefined"]) (simp add: moves_def)
  qed
qed

end

section \<open>Both clients keep it\<close>

lemma timer_goes_on:
  assumes "dc_busy c" "jobs c = []" "dc_jobId c \<noteq> []" "0 \<le> dc_tries c" "dc_tries c \<le> kMaxPolls" "job_ends c = k"
    "nat (3 * (kMaxPolls + 1 - dc_tries c)) < n"
  shows "goes_on sends n k (start_timer c)" "goes_on sends n k (start_timer_at i c)"
  using assms by (simp_all add: goes_on_def working_def moves_left_def start_timer_def start_timer_at_def)

lemma ask_goes_on:
  assumes "dc_busy c" "\<not> dc_timer c" "jobs c = []" "0 \<le> dc_tries c" "dc_tries c \<le> kMaxPolls" "job_ends c = k"
    "is_job a" "sends a" "ask_ok a c" "ask_left a (dc_tries c) < n"
  shows "goes_on sends n k (dc_ask a c)"
proof -
  have "ask_ok a (dc_ask a c)" using assms(9) by (cases a) simp_all
  then show ?thesis using assms by (simp add: goes_on_def working_def moves_left_def)
qed

lemma ready_ends:
  assumes "\<not> dc_timer c" "jobs c = []" "job_ends c = k"
  shows "goes_on sends n k (dc_emit (DsReady u name) (setBusy False (setStatus m p (c\<lparr>dc_jobId := []\<rparr>))))"
  using assms by (simp add: goes_on_def idle_def)

lemma fail_goes:
  assumes "jobs c = []" "m \<notin> {MsgNoToken, MsgInProgress, MsgRejected}" "job_ends c = k"
  shows "goes_on sends n k (failJob m c)"
  using fail_ends [OF assms(1,2)] assms(3) by blast

lemma accepted_works:
  assumes "idle c" "sends (AskAdd m)" "dc_tries c = 0" "k = job_ends c"
  shows "working sends (dc_ask (AskAdd m) (setStatus MsgSending 0 (setBusy True c)))
    \<and> job_ends (dc_ask (AskAdd m) (setStatus MsgSending 0 (setBusy True c))) = k"
  using assms by (simp add: idle_def working_def is_job_def kMaxPolls_def)

lemma if_cases_goes: "(b \<Longrightarrow> goes_on sends n k x) \<Longrightarrow> (\<not> b \<Longrightarrow> goes_on sends n k y) \<Longrightarrow> goes_on sends n k (if b then x else y)"
  by simp

lemma rd_downloaded_goes:
  assumes "dc_busy c" "\<not> dc_timer c" "jobs c = []" "dc_jobId c \<noteq> []" "0 \<le> dc_tries c" "dc_tries c \<le> kMaxPolls"
    "job_ends c = k" "1 < n"
  shows "goes_on is_job n k (rd_downloaded f c)"
  using assms by (auto simp: rd_downloaded_def Let_def is_job_def intro!: fail_goes ask_goes_on)

lemma rd_info_goes:
  assumes "dc_busy c" "\<not> dc_timer c" "jobs c = []" "dc_jobId c \<noteq> []" "0 \<le> dc_tries c" "dc_tries c \<le> kMaxPolls"
  shows "goes_on is_job (nat (3 * (kMaxPolls + 1 - dc_tries c)) + 2) (job_ends c) (rd_onJobInfo r c)"
  unfolding rd_onJobInfo_def Let_def
  by (simp only: if_split HOL.simp_thms assms)
    (use assms in \<open>auto simp: is_job_def intro!: fail_goes ask_goes_on timer_goes_on rd_downloaded_goes\<close>)

interpretation real_debrid: debrid_provider rd_streamMagnet rd_reply is_job
proof (unfold_locales, goal_cases)
  case (1 c m)
  then show ?case by (auto simp: rd_streamMagnet_def same_job_def)
next
  case (2 c m)
  let ?c = "c\<lparr>dc_jobId := [], dc_jobName := [], rd_filesSelected := False, dc_tries := 0\<rparr>"
  have "idle ?c" using 2(2) by (simp add: idle_def)
  then have "working is_job (dc_ask (AskAdd m) (setStatus MsgSending 0 (setBusy True ?c)))
      \<and> job_ends (dc_ask (AskAdd m) (setStatus MsgSending 0 (setBusy True ?c))) = job_ends c"
    by (intro accepted_works) (simp_all add: is_job_def)
  then show ?case using 2 by (simp add: rd_streamMagnet_def idle_def)
next
  case (3 c r)
  show ?case
    using same_job_trans [OF _ emit_job [of DsAccount]] no_account_job
    by (auto simp: rd_onAccount_def Let_def same_job_def jobs_def job_ends_def dc_emit_def no_account_def)
next
  case (4 i)
  show ?case by (simp add: is_job_def)
next
  case (6 c a r)
  show ?case
  proof (cases a)
    case (AskAdd m)
    then show ?thesis using 6 by (auto simp: rd_onAddMagnet_def Let_def intro!: fail_goes timer_goes_on)
  next
    case (AskInfo i)
    then show ?thesis using 6 rd_info_goes [of c r] by simp
  next
    case (AskSelect i)
    then show ?thesis using 6 by (auto simp: rd_onSelected_def intro!: timer_goes_on)
  next
    case (AskLink l n)
    then show ?thesis using 6 by (auto simp: rd_onUnrestrict_def Let_def intro!: fail_goes ready_ends)
  qed (use 6 in \<open>simp add: is_job_def\<close>)
qed simp

definition tb_sends :: "DebridAsk \<Rightarrow> bool" where
  "tb_sends a \<longleftrightarrow> is_job a \<and> (\<nexists>i. a = AskSelect i)"

lemma tb_info_goes:
  assumes "dc_busy c" "\<not> dc_timer c" "jobs c = []" "dc_jobId c \<noteq> []" "0 \<le> dc_tries c" "dc_tries c \<le> kMaxPolls"
  shows "goes_on tb_sends (nat (3 * (kMaxPolls + 1 - dc_tries c)) + 2) (job_ends c) (tb_onJobInfo pct r c)"
  unfolding tb_onJobInfo_def Let_def if_not_P [OF assms(4)]
  by (intro if_cases_goes fail_goes ask_goes_on timer_goes_on) (use assms in \<open>simp_all add: is_job_def tb_sends_def\<close>)

interpretation torbox: debrid_provider tb_streamMagnet "tb_reply pct" tb_sends for pct
proof (unfold_locales, goal_cases)
  case (1 c m)
  then show ?case by (auto simp: tb_streamMagnet_def same_job_def)
next
  case (2 c m)
  let ?c = "c\<lparr>dc_jobId := [], dc_jobName := [], dc_tries := 0\<rparr>"
  have "idle ?c" using 2(2) by (simp add: idle_def)
  then have "working tb_sends (dc_ask (AskAdd m) (setStatus MsgSending 0 (setBusy True ?c)))
      \<and> job_ends (dc_ask (AskAdd m) (setStatus MsgSending 0 (setBusy True ?c))) = job_ends c"
    by (intro accepted_works) (simp_all add: tb_sends_def is_job_def)
  then show ?case using 2 by (simp add: tb_streamMagnet_def idle_def)
next
  case (3 c r)
  show ?case
    by (auto simp: tb_onAccount_def Let_def same_job_def jobs_def job_ends_def dc_emit_def no_account_def)
next
  case (4 i)
  show ?case by (simp add: tb_sends_def is_job_def)
next
  case (5 a)
  then show ?case by (simp add: tb_sends_def)
next
  case (6 c a r)
  show ?case
  proof (cases a)
    case (AskAdd m)
    then show ?thesis using 6 by (auto simp: tb_onCreate_def Let_def intro!: fail_goes timer_goes_on)
  next
    case (AskInfo i)
    then show ?thesis using 6 tb_info_goes [of c pct r] by simp
  next
    case (AskLink l n)
    then show ?thesis using 6 by (auto simp: tb_onRequestLink_def Let_def intro!: fail_goes ready_ends)
  qed (use 6 in \<open>simp_all add: tb_sends_def is_job_def\<close>)
qed

section \<open>A job is answered once, and ends\<close>

text \<open>
  C18: A job is answered exactly once. Whatever the user, the account and the service do, in whatever order
  their replies come, every transfer that was started has been announced as playable or as failed once,
  or is the one that still runs: no job is answered twice, none is lost, and no two run at a time. It
  holds of both services as long as nothing is cancelled.
\<close>

theorem debrid_job_answered_once:
  assumes "job_inv is_job c" "job_inv tb_sends d" "DvCancel \<notin> set es"
  shows "job_ends (dc_run rd_streamMagnet rd_reply es c)
        + (if dc_busy (dc_run rd_streamMagnet rd_reply es c) then 1 else 0)
      = job_ends c + (if dc_busy c then 1 else 0) + starts_in rd_streamMagnet rd_reply es c
    \<and> job_ends (dc_run tb_streamMagnet (tb_reply pct) es d)
        + (if dc_busy (dc_run tb_streamMagnet (tb_reply pct) es d) then 1 else 0)
      = job_ends d + (if dc_busy d then 1 else 0) + starts_in tb_streamMagnet (tb_reply pct) es d"
  using real_debrid.answered_once [OF assms(1,3)] torbox.answered_once [OF assms(2,3)] by blast

lemma moves_left_bounded: "job_inv sends c \<Longrightarrow> moves_left c \<le> 1205"
proof (cases "dc_busy c \<and> \<not> dc_timer c")
  case True
  assume "job_inv sends c"
  then have w: "working sends c" using True by (auto simp: job_inv_def idle_def)
  then obtain a where a: "jobs c = [a]" using True by (cases "jobs c") (auto simp: working_def)
  have "ask_left a (dc_tries c) \<le> 1205" using w by (cases a) (auto simp: working_def kMaxPolls_def)
  then show ?thesis using a True by (simp add: moves_left_def)
next
  case False
  assume "job_inv sends c"
  then show ?thesis using False by (auto simp: job_inv_def idle_def working_def moves_left_def kMaxPolls_def)
qed

text \<open>
  C19: Every job ends. However the service answers, and even if it never says anything useful, at most 1205
  replies and timer ticks can concern one job; and a job that has not ended is never stuck, as its timer
  runs or one of its requests is unanswered. So with every request answered (Qt times them out) each job
  ends as playable or failed.
\<close>

theorem debrid_job_ends:
  assumes "job_inv is_job c" "job_inv tb_sends d" "\<forall>e \<in> set es. e \<noteq> DvCancel \<and> (\<nexists>m. e = DvStart m)"
  shows "moves_in rd_streamMagnet rd_reply es c \<le> 1205
    \<and> (dc_busy (dc_run rd_streamMagnet rd_reply es c)
        \<longrightarrow> (\<exists>e. moves e (dc_run rd_streamMagnet rd_reply es c)))
    \<and> moves_in tb_streamMagnet (tb_reply pct) es d \<le> 1205
    \<and> (dc_busy (dc_run tb_streamMagnet (tb_reply pct) es d)
        \<longrightarrow> (\<exists>e. moves e (dc_run tb_streamMagnet (tb_reply pct) es d)))"
  using real_debrid.moves_bounded [OF assms(1,3)] torbox.moves_bounded [OF assms(2,3), of pct]
    moves_left_bounded [OF assms(1)] moves_left_bounded [OF assms(2)]
    real_debrid.never_stuck torbox.never_stuck by (meson le_trans add_leD1)

section \<open>No pause between polls\<close>

text \<open>
  \<open>start(0)\<close> sets the interval of the timer, and nothing sets it back: once a service has accepted a
  magnet, every later poll follows the reply before it at once.
\<close>

lemma interval_frames [simp]:
  "dc_interval (dc_ask a c) = dc_interval c" "dc_interval (dc_emit x c) = dc_interval c"
  "dc_interval (setBusy b c) = dc_interval c" "dc_interval (setStatus m p c) = dc_interval c"
  "dc_interval (failJob m c) = dc_interval c" "dc_interval (start_timer c) = dc_interval c"
  "dc_interval (start_timer_at i c) = i" "dc_interval (cancelStream c) = dc_interval c"
  "dc_interval (pollJob c) = dc_interval c" "dc_interval (checkAccount c) = dc_interval c"
  "dc_interval (debrid_setToken t c) = dc_interval c" "dc_interval (no_account b c) = dc_interval c"
  "dc_interval (close k c) = dc_interval c"
  by (simp_all add: dc_ask_def dc_emit_def setBusy_def setStatus_def failJob_def start_timer_def
      start_timer_at_def cancelStream_def pollJob_def checkAccount_def debrid_setToken_def no_account_def
      close_def Let_def)

lemma rd_interval: "dc_interval c = 0 \<Longrightarrow> dc_interval (rd_reply a r c) = 0"
  by (cases a) (simp_all add: rd_onAccount_def rd_onAddMagnet_def rd_onJobInfo_def rd_downloaded_def
      rd_onSelected_def rd_onUnrestrict_def Let_def)

lemma polls_without_pause:
  assumes "dc_interval c = 0"
  shows "dc_interval (dc_run rd_streamMagnet rd_reply es c) = 0"
  using assms
proof (induction es arbitrary: c)
  case (Cons e es)
  have "dc_interval (dc_step rd_streamMagnet rd_reply e c) = 0"
    using Cons.prems by (cases e) (simp_all add: rd_interval rd_streamMagnet_def)
  then show ?case using Cons.IH by (simp add: dc_run_def)
qed (simp add: dc_run_def)

lemma accepted_without_pause:
  "dc_jobId (rd_onAddMagnet r c) \<noteq> [] \<Longrightarrow> dc_interval (rd_onAddMagnet r c) = 0"
  "dc_jobId (tb_onCreate r c') \<noteq> [] \<Longrightarrow> dc_interval (tb_onCreate r c') = 0"
  by (auto simp: rd_onAddMagnet_def tb_onCreate_def Let_def failJob_def split: if_splits)

section \<open>Concrete clients\<close>

definition sample_debrid :: DebridClient where
  "sample_debrid = \<lparr>dc_token = ''t'', dc_secret = ''t'', dc_authed = True, dc_name = [], dc_plan = [], dc_expiry = [],
     dc_busy = False, dc_progress = 0, dc_status = MsgNone, dc_jobId = [], dc_jobName = [], dc_timer = False,
     dc_interval = kPollMs, dc_tries = 0, dc_open = [], dc_signals = []\<rparr>"

definition sample_real_debrid :: RealDebridClient where
  "sample_real_debrid = \<lparr>dc_token = ''t'', dc_secret = ''t'', dc_authed = True, dc_name = [], dc_plan = [], dc_expiry = [],
     dc_busy = False, dc_progress = 0, dc_status = MsgNone, dc_jobId = [], dc_jobName = [], dc_timer = False,
     dc_interval = kPollMs, dc_tries = 0, dc_open = [], dc_signals = [], rd_filesSelected = False\<rparr>"

lemma sample_debrid_inv: "job_inv is_job sample_real_debrid" "job_inv tb_sends sample_debrid"
  by (simp_all add: job_inv_def idle_def jobs_def sample_debrid_def sample_real_debrid_def)

definition reply_with :: "(string \<times> JVal) list \<Rightarrow> DebridReply" where
  "reply_with kvs = \<lparr>dr_error = False, dr_auth = False, dr_http = 200, dr_body = Some (JvObj kvs)\<rparr>"

definition sample_downloaded :: DebridReply where
  "sample_downloaded = reply_with [(''status'', JvStr ''downloaded''), (''filename'', JvStr ''f''),
     (''links'', JvArr [JvStr ''l'']),
     (''files'', JvArr [JvObj [(''selected'', JvNum 1), (''bytes'', JvNum 5), (''path'', JvStr ''a.mkv'')]])]"

definition sample_transfer :: "DebridEvent list" where
  "sample_transfer = [DvReply 0 (reply_with [(''id'', JvStr ''X'')]), DvTimer, DvReply 0 sample_downloaded,
     DvReply 0 (reply_with [(''download'', JvStr ''u'')])]"

text \<open>A transfer that is cancelled while the service has not accepted it yet runs to its end all the same.\<close>

lemma cancelled_stream_comes_back:
  "dc_busy (dc_run rd_streamMagnet rd_reply [DvStart ''m'', DvCancel] sample_real_debrid) = False"
  "last (dc_signals (dc_run rd_streamMagnet rd_reply (DvStart ''m'' # DvCancel # sample_transfer) sample_real_debrid))
     = DsReady ''u'' ''f''"
  by code_simp+

theorem debrid_job_answered_once_witness:
  "job_ends (dc_run rd_streamMagnet rd_reply (DvStart ''m'' # sample_transfer) sample_real_debrid) = 1"
proof -
  have "DvCancel \<notin> set (DvStart ''m'' # sample_transfer)" by (simp add: sample_transfer_def)
  from debrid_job_answered_once [OF sample_debrid_inv this]
  have "job_ends (dc_run rd_streamMagnet rd_reply (DvStart ''m'' # sample_transfer) sample_real_debrid)
      + (if dc_busy (dc_run rd_streamMagnet rd_reply (DvStart ''m'' # sample_transfer) sample_real_debrid) then 1 else 0)
    = job_ends sample_real_debrid + (if dc_busy sample_real_debrid then 1 else 0)
      + starts_in rd_streamMagnet rd_reply (DvStart ''m'' # sample_transfer) sample_real_debrid" by blast
  moreover have "dc_busy (dc_run rd_streamMagnet rd_reply (DvStart ''m'' # sample_transfer) sample_real_debrid) = False"
    "starts_in rd_streamMagnet rd_reply (DvStart ''m'' # sample_transfer) sample_real_debrid = 1"
    "job_ends sample_real_debrid = 0" "dc_busy sample_real_debrid = False"
    by code_simp+
  ultimately show ?thesis by simp
qed

theorem debrid_job_ends_witness:
  "moves_in rd_streamMagnet rd_reply sample_transfer (rd_streamMagnet ''m'' sample_real_debrid) \<le> 1205"
proof -
  have i: "job_inv is_job (rd_streamMagnet ''m'' sample_real_debrid)"
    using real_debrid.started [OF sample_debrid_inv(1)] by blast
  have "\<forall>e \<in> set sample_transfer. e \<noteq> DvCancel \<and> (\<nexists>m. e = DvStart m)" by (simp add: sample_transfer_def)
  from debrid_job_ends [OF i sample_debrid_inv(2) this] show ?thesis by blast
qed

end
