(* ===== verification/DebridService.thy ===== *)
theory DebridService
  imports DebridJobs
begin

text \<open>
  The file a debrid client plays is the largest video (\<open>debridpick.cpp\<close>), and the manager that owns both
  clients (\<open>debridmanager.cpp\<close>): the commands go to the active one, and only its signals are passed on.
\<close>

section \<open>The largest video\<close>

text \<open>The files on offer: index or id, size, name.\<close>

definition rd_offers :: "JVal list \<Rightarrow> (int \<times> int \<times> string) list" where
  "rd_offers files =
     (let sel = filter (\<lambda>v. j_int 0 (map_of (j_object (Some v)) ''selected'') = 1) files
      in zip (map int [0..<length sel])
           (map (\<lambda>v. let f = map_of (j_object (Some v)) in (j_num (f ''bytes''), j_string (f ''path''))) sel))"

definition tb_offers :: "JVal list \<Rightarrow> (int \<times> int \<times> string) list" where
  "tb_offers files =
     map (\<lambda>v. let f = map_of (j_object (Some v)) in (j_int (-1) (f ''id''), j_num (f ''size''), j_string (f ''name'')))
       (filter (\<lambda>v. 0 \<le> j_int (-1) (map_of (j_object (Some v)) ''id'')) files)"

definition offers :: "(int \<times> int \<times> string) list \<Rightarrow> DebridBest" where
  "offers xs = fold (\<lambda>(i, n, nm). offer i n nm) xs no_best"

definition videos :: "(int \<times> int \<times> string) list \<Rightarrow> (int \<times> int \<times> string) list" where
  "videos xs = filter (\<lambda>x. looksLikeVideo (snd (snd x))) xs"

text \<open>A video when there is one, and none is larger.\<close>

definition is_best :: "(int \<times> int \<times> string) list \<Rightarrow> int \<times> int \<times> string \<Rightarrow> bool" where
  "is_best xs x \<longleftrightarrow>
     (let ys = (if videos xs = [] then xs else videos xs)
      in x \<in> set ys \<and> (\<forall>y \<in> set ys. fst (snd y) \<le> fst (snd x)))"

text \<open>The first of the largest so far; -1 for none.\<close>

definition top_offer :: "(int \<times> int \<times> string) list \<Rightarrow> int \<times> int \<times> string \<Rightarrow> bool" where
  "top_offer ys t \<longleftrightarrow> (if ys = [] then fst t = -1 \<and> fst (snd t) = -1
     else t \<in> set ys \<and> (\<forall>y \<in> set ys. fst (snd y) \<le> fst (snd t)))"

lemma top_snoc:
  assumes "top_offer ys t" "0 \<le> fst (snd x)"
  shows "top_offer (ys @ [x]) (if fst (snd t) < fst (snd x) then x else t)"
  using assms by (cases "ys = []") (auto simp: top_offer_def)

lemma offers_top:
  "\<forall>x \<in> set xs. 0 \<le> fst (snd x) \<Longrightarrow>
     top_offer xs (db_any (offers xs), db_anyBytes (offers xs), db_anyName (offers xs))
     \<and> top_offer (videos xs) (db_video (offers xs), db_videoBytes (offers xs), db_videoName (offers xs))"
proof (induction xs rule: rev_induct)
  case Nil
  then show ?case by (simp add: top_offer_def videos_def offers_def no_best_def)
next
  case (snoc x xs)
  obtain i n nm where x: "x = (i, n, nm)" by (cases x) auto
  have IH: "top_offer xs (db_any (offers xs), db_anyBytes (offers xs), db_anyName (offers xs))"
    "top_offer (videos xs) (db_video (offers xs), db_videoBytes (offers xs), db_videoName (offers xs))" and n: "0 \<le> n"
    using snoc x by auto
  have step: "offers (xs @ [x]) = offer i n nm (offers xs)" by (simp add: offers_def x)
  have v: "videos (xs @ [x]) = videos xs @ (if looksLikeVideo nm then [x] else [])" by (simp add: videos_def x)
  have "top_offer (xs @ [x]) (db_any (offers (xs @ [x])), db_anyBytes (offers (xs @ [x])), db_anyName (offers (xs @ [x])))"
    unfolding step using top_snoc [OF IH(1), of x] n x by (simp add: offer_def Let_def split: if_splits)
  moreover have "top_offer (videos (xs @ [x]))
      (db_video (offers (xs @ [x])), db_videoBytes (offers (xs @ [x])), db_videoName (offers (xs @ [x])))"
    unfolding step v using top_snoc [OF IH(2), of x] IH(2) n x by (simp add: offer_def Let_def split: if_splits)
  ultimately show ?case by blast
qed

lemma fold_rd_file:
  "fold rd_file files (int k - 1, b)
     = (int k - 1 + int (length (filter (\<lambda>v. j_int 0 (map_of (j_object (Some v)) ''selected'') = 1) files)),
        fold (\<lambda>(i, n, nm). offer i n nm)
          (zip (map int [k..<k + length (filter (\<lambda>v. j_int 0 (map_of (j_object (Some v)) ''selected'') = 1) files)])
             (map (\<lambda>v. let f = map_of (j_object (Some v)) in (j_num (f ''bytes''), j_string (f ''path'')))
                (filter (\<lambda>v. j_int 0 (map_of (j_object (Some v)) ''selected'') = 1) files))) b)"
proof (induction files arbitrary: k b)
  case (Cons v files)
  show ?case
  proof (cases "j_int 0 (map_of (j_object (Some v)) ''selected'') = 1")
    case True
    have "rd_file v (int k - 1, b) = (int (Suc k) - 1, offer (int k) (j_num (map_of (j_object (Some v)) ''bytes''))
        (j_string (map_of (j_object (Some v)) ''path'')) b)"
      using True by (simp add: rd_file_def Let_def)
    then show ?thesis using True Cons.IH [of "Suc k"] by (simp add: upt_conv_Cons Let_def del: upt_Suc)
  next
    case False
    then show ?thesis using Cons.IH by (simp add: rd_file_def Let_def)
  qed
qed simp

lemma rd_best: "snd (fold rd_file files (-1, no_best)) = offers (rd_offers files)"
  using fold_rd_file [of files 0 no_best] by (simp add: offers_def rd_offers_def Let_def)

lemma tb_best: "fold tb_file files b = fold (\<lambda>(i, n, nm). offer i n nm) (tb_offers files) b"
  by (induction files arbitrary: b) (simp_all add: tb_offers_def tb_file_def Let_def)

lemma best_chosen:
  assumes "xs \<noteq> []" "\<forall>x \<in> set xs. 0 \<le> fst (snd x) \<and> 0 \<le> fst x"
  shows "is_best xs (if 0 \<le> db_video (offers xs)
     then (db_video (offers xs), db_videoBytes (offers xs), db_videoName (offers xs))
     else (db_any (offers xs), db_anyBytes (offers xs), db_anyName (offers xs)))"
proof -
  have b: "top_offer xs (db_any (offers xs), db_anyBytes (offers xs), db_anyName (offers xs))"
    "top_offer (videos xs) (db_video (offers xs), db_videoBytes (offers xs), db_videoName (offers xs))"
    using offers_top [of xs] assms(2) by auto
  show ?thesis
  proof (cases "videos xs = []")
    case True
    then show ?thesis using b assms(1) by (simp add: top_offer_def is_best_def)
  next
    case False
    then have v: "(db_video (offers xs), db_videoBytes (offers xs), db_videoName (offers xs)) \<in> set (videos xs)"
      using b(2) by (simp add: top_offer_def)
    then have "0 \<le> db_video (offers xs)" using assms(2) by (auto simp: videos_def)
    then show ?thesis using b(2) False by (simp add: top_offer_def is_best_def)
  qed
qed

text \<open>
  C36: What is played is the largest video of the transfer, or the largest file when it has none: for
  Real-Debrid the index counts the selected files only, in order, as the links of the reply do; for
  TorBox it is the id of the file, with its name.
\<close>

theorem plays_largest_video:
  assumes "rd_offers files \<noteq> []" "\<forall>x \<in> set (rd_offers files). 0 \<le> fst (snd x)"
    and "tb_offers files' \<noteq> []" "\<forall>x \<in> set (tb_offers files'). 0 \<le> fst (snd x)"
  shows "(\<exists>n nm. is_best (rd_offers files) (bestRealDebridLinkIndex files, n, nm))
    \<and> (\<exists>n. is_best (tb_offers files') (fst (bestTorBoxFile files'), n, snd (bestTorBoxFile files')))"
proof -
  have r: "\<forall>x \<in> set (rd_offers files). 0 \<le> fst (snd x) \<and> 0 \<le> fst x"
    using assms(2) by (fastforce simp: rd_offers_def Let_def dest: set_zip_leftD)
  have t: "\<forall>x \<in> set (tb_offers files'). 0 \<le> fst (snd x) \<and> 0 \<le> fst x"
    using assms(4) by (auto simp: tb_offers_def Let_def)
  show ?thesis
    using best_chosen [OF assms(1) r] best_chosen [OF assms(3) t]
    unfolding bestRealDebridLinkIndex_def bestTorBoxFile_def rd_best tb_best offers_def [symmetric] Let_def
    by (auto split: if_splits)
qed

section \<open>The manager\<close>

datatype DmSignal = DmProvider | DmProviders | DmAccount | DmBusy | DmStatus | DmReady string string | DmError DebridMsg

record DebridManager =
  dm_rd :: RealDebridClient
  dm_tb :: TorBoxClient
  dm_active :: nat
  dm_saved :: string
  dm_signals :: "DmSignal list"

definition provider_ids :: "string list" where
  "provider_ids = [''realdebrid'', ''torbox'']"

text \<open>The signals of a client, passed on when it is the active one.\<close>

fun forward :: "bool \<Rightarrow> DebridSignal \<Rightarrow> DmSignal list" where
  "forward act DsAccount = DmProviders # (if act then [DmAccount] else [])"
| "forward act DsBusy = (if act then [DmBusy] else [])"
| "forward act DsStatus = (if act then [DmStatus] else [])"
| "forward act (DsReady u n) = (if act then [DmReady u n] else [])"
| "forward act (DsError m) = (if act then [DmError m] else [])"

definition forward_new :: "bool \<Rightarrow> DebridSignal list \<Rightarrow> DebridSignal list \<Rightarrow> DmSignal list" where
  "forward_new act old new = concat (map (forward act) (drop (length old) new))"

definition dm_on_rd :: "(RealDebridClient \<Rightarrow> RealDebridClient) \<Rightarrow> DebridManager \<Rightarrow> DebridManager" where
  "dm_on_rd f m =
     (let c = f (dm_rd m)
      in m\<lparr>dm_rd := c, dm_signals := dm_signals m @ forward_new (dm_active m = 0) (dc_signals (dm_rd m)) (dc_signals c)\<rparr>)"

definition dm_on_tb :: "(TorBoxClient \<Rightarrow> TorBoxClient) \<Rightarrow> DebridManager \<Rightarrow> DebridManager" where
  "dm_on_tb f m =
     (let c = f (dm_tb m)
      in m\<lparr>dm_tb := c, dm_signals := dm_signals m @ forward_new (dm_active m = 1) (dc_signals (dm_tb m)) (dc_signals c)\<rparr>)"

text \<open>A command of the user, for the active client.\<close>

definition dm_user ::
  "(RealDebridClient \<Rightarrow> RealDebridClient) \<Rightarrow> (TorBoxClient \<Rightarrow> TorBoxClient) \<Rightarrow> DebridManager \<Rightarrow> DebridManager" where
  "dm_user f g m = (if dm_active m = 0 then dm_on_rd f m else if dm_active m = 1 then dm_on_tb g m else m)"

definition dm_setToken :: "string \<Rightarrow> DebridManager \<Rightarrow> DebridManager" where
  "dm_setToken t = dm_user (debrid_setToken t) (debrid_setToken t)"

definition dm_clearToken :: "DebridManager \<Rightarrow> DebridManager" where
  "dm_clearToken = dm_user clearToken clearToken"

definition dm_checkAccount :: "DebridManager \<Rightarrow> DebridManager" where
  "dm_checkAccount = dm_user checkAccount checkAccount"

definition dm_streamMagnet :: "string \<Rightarrow> DebridManager \<Rightarrow> DebridManager" where
  "dm_streamMagnet u = dm_user (rd_streamMagnet u) (tb_streamMagnet u)"

definition dm_cancelStream :: "DebridManager \<Rightarrow> DebridManager" where
  "dm_cancelStream = dm_user cancelStream cancelStream"

definition dm_busy :: "DebridManager \<Rightarrow> bool" where
  "dm_busy m = (if dm_active m = 0 then dc_busy (dm_rd m) else if dm_active m = 1 then dc_busy (dm_tb m) else False)"

fun index_of :: "string \<Rightarrow> string list \<Rightarrow> nat option" where
  "index_of x [] = None"
| "index_of x (y # ys) = (if x = y then Some 0 else map_option Suc (index_of x ys))"

text \<open>The running job of the old client is stopped before the switch.\<close>

definition setProviderId :: "string \<Rightarrow> DebridManager \<Rightarrow> DebridManager" where
  "setProviderId i m =
     (case index_of i provider_ids of
        None \<Rightarrow> m
      | Some k \<Rightarrow>
          if k = dm_active m then m
          else
            let m1 = (if dm_busy m then dm_cancelStream m else m)
            in m1\<lparr>dm_active := k, dm_saved := i,
                 dm_signals := dm_signals m1 @ [DmProvider, DmAccount, DmBusy, DmStatus]\<rparr>)"

definition dm_launch :: "DebridManager \<Rightarrow> DebridManager" where
  "dm_launch m =
     (case index_of (dm_saved m) provider_ids of None \<Rightarrow> m | Some k \<Rightarrow> m\<lparr>dm_active := k\<rparr>)"

text \<open>What happens to the manager: the user, and the replies and timers of both clients.\<close>

datatype DmEvent = DmProviderId string | DmToken string | DmClear | DmCheck | DmStream string | DmCancel
  | DmRdReply nat DebridReply | DmRdTimer | DmTbReply nat DebridReply | DmTbTimer

fun dm_step :: "(rat \<Rightarrow> int) \<Rightarrow> DmEvent \<Rightarrow> DebridManager \<Rightarrow> DebridManager" where
  "dm_step pct (DmProviderId i) m = setProviderId i m"
| "dm_step pct (DmToken t) m = dm_setToken t m"
| "dm_step pct DmClear m = dm_clearToken m"
| "dm_step pct DmCheck m = dm_checkAccount m"
| "dm_step pct (DmStream u) m = dm_streamMagnet u m"
| "dm_step pct DmCancel m = dm_cancelStream m"
| "dm_step pct (DmRdReply k r) m = dm_on_rd (dc_step rd_streamMagnet rd_reply (DvReply k r)) m"
| "dm_step pct DmRdTimer m = dm_on_rd (dc_step rd_streamMagnet rd_reply DvTimer) m"
| "dm_step pct (DmTbReply k r) m = dm_on_tb (dc_step tb_streamMagnet (tb_reply pct) (DvReply k r)) m"
| "dm_step pct DmTbTimer m = dm_on_tb (dc_step tb_streamMagnet (tb_reply pct) DvTimer) m"

definition dm_run :: "(rat \<Rightarrow> int) \<Rightarrow> DmEvent list \<Rightarrow> DebridManager \<Rightarrow> DebridManager" where
  "dm_run pct es m = fold (dm_step pct) es m"

text \<open>Only the active client is busy.\<close>

definition one_busy :: "DebridManager \<Rightarrow> bool" where
  "one_busy m \<longleftrightarrow> dm_active m < 2 \<and> (dm_active m \<noteq> 0 \<longrightarrow> \<not> dc_busy (dm_rd m)) \<and> (dm_active m \<noteq> 1 \<longrightarrow> \<not> dc_busy (dm_tb m))"

lemma busy_frames [simp]:
  "dc_busy (failJob m c) = False" "dc_busy (cancelStream c) = False" "dc_busy (start_timer c) = dc_busy c"
  "dc_busy (start_timer_at i c) = dc_busy c" "dc_busy (checkAccount c) = dc_busy c"
  "dc_busy (debrid_setToken t c) = dc_busy c" "dc_busy (clearToken c) = dc_busy c"
  "dc_busy (no_account b c) = dc_busy c"
  using token_job [of c t] token_job [of c "[]"] check_job [of c] no_account_job [of c b]
  by (simp_all add: failJob_def cancelStream_def start_timer_def start_timer_at_def clearToken_def same_job_def)

lemma poll_busy: "dc_busy (pollJob c) \<Longrightarrow> dc_busy c"
  by (auto simp: pollJob_def Let_def split: if_splits)

lemma replies_stop:
  "dc_busy (rd_reply a r c) \<Longrightarrow> dc_busy c" "dc_busy (tb_reply pct a r d) \<Longrightarrow> dc_busy d"
  by (cases a; auto simp: rd_onAccount_def rd_onAddMagnet_def rd_onJobInfo_def rd_downloaded_def rd_onSelected_def
      rd_onUnrestrict_def Let_def split: if_splits)
    (cases a; auto simp: tb_onAccount_def tb_onCreate_def tb_onJobInfo_def tb_onRequestLink_def Let_def
      split: if_splits)

lemma steps_stop:
  "dc_busy (dc_step rd_streamMagnet rd_reply (DvReply k r) c) \<Longrightarrow> dc_busy c"
  "dc_busy (dc_step tb_streamMagnet (tb_reply pct) (DvReply k r) d) \<Longrightarrow> dc_busy d"
  "dc_busy (dc_step rd_streamMagnet rd_reply DvTimer c) \<Longrightarrow> dc_busy c"
  "dc_busy (dc_step tb_streamMagnet (tb_reply pct) DvTimer d) \<Longrightarrow> dc_busy d"
  by (auto split: if_splits dest!: replies_stop poll_busy)

lemma on_client [simp]:
  "dm_active (dm_on_rd f m) = dm_active m" "dm_active (dm_on_tb g m) = dm_active m"
  "dm_rd (dm_on_rd f m) = f (dm_rd m)" "dm_tb (dm_on_rd f m) = dm_tb m"
  "dm_rd (dm_on_tb g m) = dm_rd m" "dm_tb (dm_on_tb g m) = g (dm_tb m)"
  by (simp_all add: dm_on_rd_def dm_on_tb_def Let_def)

lemma one_busy_client:
  "one_busy m \<Longrightarrow> (dc_busy (f (dm_rd m)) \<Longrightarrow> dc_busy (dm_rd m)) \<Longrightarrow> one_busy (dm_on_rd f m)"
  "one_busy m \<Longrightarrow> (dc_busy (g (dm_tb m)) \<Longrightarrow> dc_busy (dm_tb m)) \<Longrightarrow> one_busy (dm_on_tb g m)"
  by (auto simp: one_busy_def)

lemma one_busy_user: "one_busy m \<Longrightarrow> one_busy (dm_user f g m)"
  by (auto simp: dm_user_def one_busy_def)

lemma one_busy_switch:
  assumes "one_busy m"
  shows "one_busy (setProviderId i m)"
proof (cases "index_of i provider_ids")
  case (Some k)
  then have k: "k < 2" by (auto simp: provider_ids_def split: if_splits)
  let ?m = "if dm_busy m then dm_cancelStream m else m"
  have "\<not> dc_busy (dm_rd ?m) \<and> \<not> dc_busy (dm_tb ?m)"
    using assms by (auto simp: dm_cancelStream_def dm_user_def dm_busy_def one_busy_def)
  then have "one_busy (?m\<lparr>dm_active := k, dm_saved := i,
      dm_signals := dm_signals ?m @ [DmProvider, DmAccount, DmBusy, DmStatus]\<rparr>)"
    using k by (simp add: one_busy_def)
  then show ?thesis using Some assms by (simp add: setProviderId_def Let_def)
qed (use assms in \<open>simp add: setProviderId_def\<close>)

lemma one_busy_step: "one_busy m \<Longrightarrow> one_busy (dm_step pct e m)"
proof (cases e)
  case (DmRdReply k r)
  assume "one_busy m"
  then show ?thesis unfolding DmRdReply dm_step.simps by (rule one_busy_client) (rule steps_stop)
next
  case DmRdTimer
  assume "one_busy m"
  then show ?thesis unfolding DmRdTimer dm_step.simps by (rule one_busy_client) (rule steps_stop)
next
  case (DmTbReply k r)
  assume "one_busy m"
  then show ?thesis unfolding DmTbReply dm_step.simps by (rule one_busy_client) (rule steps_stop)
next
  case DmTbTimer
  assume "one_busy m"
  then show ?thesis unfolding DmTbTimer dm_step.simps by (rule one_busy_client) (rule steps_stop)
qed (simp_all add: one_busy_switch one_busy_user dm_setToken_def dm_clearToken_def dm_checkAccount_def
    dm_streamMagnet_def dm_cancelStream_def)

text \<open>
  At most one debrid service works at a time, and it is the one shown: whatever the user switches,
  starts and cancels, and whatever the replies of both services are, a client that is not the active one
  is not busy, and the manager shows a transfer exactly when one of the clients has one.
\<close>

theorem one_debrid_service_works:
  assumes "one_busy m"
  shows "one_busy (dm_run pct es m)
    \<and> dm_busy (dm_run pct es m) = (dc_busy (dm_rd (dm_run pct es m)) \<or> dc_busy (dm_tb (dm_run pct es m)))"
proof -
  have "one_busy (dm_run pct es m)"
    using assms by (induction es arbitrary: m) (simp_all add: dm_run_def one_busy_step)
  then show ?thesis by (auto simp: one_busy_def dm_busy_def less_2_cases_iff)
qed

section \<open>Concrete transfers\<close>

definition sample_debrid_manager :: DebridManager where
  "sample_debrid_manager = \<lparr>dm_rd = sample_real_debrid, dm_tb = sample_debrid, dm_active = 0, dm_saved = [], dm_signals = []\<rparr>"

theorem one_debrid_service_works_witness:
  "one_busy (dm_run floor [DmStream ''m'', DmProviderId ''torbox'', DmStream ''m''] sample_debrid_manager)"
proof -
  have "one_busy sample_debrid_manager"
    by (simp add: one_busy_def sample_debrid_manager_def sample_debrid_def sample_real_debrid_def)
  from one_debrid_service_works [OF this] show ?thesis by blast
qed

definition sample_files :: "JVal list" where
  "sample_files = [JvObj [(''selected'', JvNum 0), (''bytes'', JvNum 9), (''path'', JvStr ''x.mkv'')],
     JvObj [(''selected'', JvNum 1), (''bytes'', JvNum 7), (''path'', JvStr ''x.iso'')],
     JvObj [(''selected'', JvNum 1), (''bytes'', JvNum 5), (''path'', JvStr ''a.MKV'')]]"

definition sample_tb_files :: "JVal list" where
  "sample_tb_files = [JvObj [(''id'', JvNum 4), (''size'', JvNum 9), (''name'', JvStr ''x.iso'')]]"

lemma sample_offers:
  "rd_offers sample_files = [(0, 7, ''x.iso''), (1, 5, ''a.MKV'')]" "tb_offers sample_tb_files = [(4, 9, ''x.iso'')]"
  by code_simp+

theorem plays_largest_video_witness:
  "\<exists>n nm. is_best [(0, 7, ''x.iso''), (1, 5, ''a.MKV'')] (bestRealDebridLinkIndex sample_files, n, nm)"
  using plays_largest_video [of sample_files sample_tb_files] unfolding sample_offers by simp

end
