(* ===== verification/AppBackup.thy ===== *)
theory AppBackup
  imports QtJson
begin

text \<open>
  Backups (\<open>services/platform/settingsbackup.cpp\<close>): the archive format and the export of settings, and the
  full backup and restore of \<open>bridges/qmlsettingsbridge.cpp\<close> that use it. UTF-8 and the JSON codec are
  Qt's: a record of functions. Numbers are written in the byte order of the machine, the least byte
  first.
\<close>

section \<open>The archive\<close>

record BackupEnv =
  be_utf8 :: "string \<Rightarrow> bytes"
  be_fromUtf8 :: "bytes \<Rightarrow> string"
  be_toJson :: "JVal \<Rightarrow> bytes"
  be_fromJson :: "bytes \<Rightarrow> JVal option"

definition ascii_bytes :: "string \<Rightarrow> bytes" where
  "ascii_bytes s = map (\<lambda>c. word_of_nat (code c)) s"

definition kMagic :: bytes where
  "kMagic = ascii_bytes ''BATBACKUP1'' @ [10]"

definition kMaxNameLen :: nat where "kMaxNameLen = 4096"
definition kMaxPayloadLen :: nat where "kMaxPayloadLen = 1073741824"

definition put_le :: "nat \<Rightarrow> nat \<Rightarrow> bytes" where
  "put_le k n = map (\<lambda>i. word_of_nat (n div 256 ^ i)) [0..<k]"

definition get_le :: "bytes \<Rightarrow> nat" where
  "get_le bs = foldr (\<lambda>b v. unat b + 256 * v) bs 0"

definition pack_entry :: "BackupEnv \<Rightarrow> string \<times> bytes \<Rightarrow> bytes" where
  "pack_entry E e =
     (let nb = be_utf8 E (fst e)
      in put_le 4 (length nb) @ nb @ put_le 8 (length (snd e)) @ snd e)"

definition pack_backup :: "BackupEnv \<Rightarrow> (string \<times> bytes) list \<Rightarrow> bytes" where
  "pack_backup E es = kMagic @ put_le 4 (length es) @ concat (map (pack_entry E) es)"

text \<open>One turn of the loop: the entry and what is behind it; \<open>None\<close> is \<open>return {}\<close>.\<close>

definition unpack_one :: "BackupEnv \<Rightarrow> bytes \<Rightarrow> ((string \<times> bytes) \<times> bytes) option" where
  "unpack_one E p =
     (if length p < 4 then None
      else
        let nl = get_le (take 4 p); p1 = drop 4 p in
        if kMaxNameLen < nl \<or> length p1 < nl then None
        else
          let name = be_fromUtf8 E (take nl p1); p2 = drop nl p1 in
          if length p2 < 8 then None
          else
            let dl = get_le (take 8 p2); p3 = drop 8 p2 in
            if kMaxPayloadLen < dl \<or> length p3 < dl then None
            else Some ((name, take dl p3), drop dl p3))"

primrec unpack_loop :: "BackupEnv \<Rightarrow> nat \<Rightarrow> bytes \<Rightarrow> (string \<times> bytes) list \<Rightarrow> (string \<times> bytes) list option" where
  "unpack_loop E 0 p out = Some out"
| "unpack_loop E (Suc n) p out =
     (case unpack_one E p of None \<Rightarrow> None | Some (e, r) \<Rightarrow> unpack_loop E n r (out @ [e]))"

definition unpack_backup :: "BackupEnv \<Rightarrow> bytes \<Rightarrow> (string \<times> bytes) list option" where
  "unpack_backup E data =
     (if take (length kMagic) data \<noteq> kMagic then None
      else
        let p = drop (length kMagic) data in
        if length p < 4 then None else unpack_loop E (get_le (take 4 p)) (drop 4 p) [])"

section \<open>Export\<close>

definition exportSecretKeys :: "string list" where
  "exportSecretKeys = [''proxyPass'', ''plexToken'', ''jellyfinApiKey'', ''webUiPasswordHash'']"

definition isExportSecret :: "string \<Rightarrow> bool" where
  "isExportSecret k \<longleftrightarrow> k \<in> set exportSecretKeys"

definition settingsObjectFromMap :: "(string \<times> JVal) list \<Rightarrow> bool \<Rightarrow> (string \<times> JVal) list" where
  "settingsObjectFromMap m strip = filter (\<lambda>(k, v). \<not> (strip \<and> isExportSecret k)) m"

section \<open>Full backup and restore\<close>

text \<open>The settings, and the files by the path they are opened with, below the data folder.\<close>

record AppData =
  ad_settings :: "string \<Rightarrow> JVal option"
  ad_files :: "string \<Rightarrow> bytes option"

definition kHistoryFiles :: "string list" where
  "kHistoryFiles = [''achievements.json'', ''playlog.json'']"

definition setValues :: "(string \<times> JVal) list \<Rightarrow> AppData \<Rightarrow> AppData" where
  "setValues kvs a = a\<lparr>ad_settings := fold (\<lambda>(k, v) m. m(k \<mapsto> v)) kvs (ad_settings a)\<rparr>"

definition exportSettings :: "BackupEnv \<Rightarrow> string list \<Rightarrow> AppData \<Rightarrow> bytes" where
  "exportSettings E allKeys a =
     be_toJson E (JvObj (settingsObjectFromMap (map (\<lambda>k. (k, the (ad_settings a k))) allKeys) True))"

definition importSettings :: "BackupEnv \<Rightarrow> bytes \<Rightarrow> AppData \<Rightarrow> AppData option" where
  "importSettings E b a = (case be_fromJson E b of Some (JvObj kvs) \<Rightarrow> Some (setValues kvs a) | _ \<Rightarrow> None)"

text \<open>\<open>allKeys\<close> and \<open>names\<close> are the keys of the settings and the resume files of the folder.\<close>

definition backup_entries :: "BackupEnv \<Rightarrow> string list \<Rightarrow> string list \<Rightarrow> AppData \<Rightarrow> (string \<times> bytes) list" where
  "backup_entries E allKeys names a =
     (let read = (\<lambda>n. map_option (\<lambda>b. (n, b)) (ad_files a n)) in
      (''settings.json'', be_toJson E (JvObj (settingsObjectFromMap (map (\<lambda>k. (k, the (ad_settings a k))) allKeys) False)))
      # List.map_filter read (map (\<lambda>n. ''resume/'' @ n) names)
      @ List.map_filter read kHistoryFiles)"

definition full_backup :: "BackupEnv \<Rightarrow> string list \<Rightarrow> string list \<Rightarrow> AppData \<Rightarrow> bytes" where
  "full_backup E allKeys names a = pack_backup E (backup_entries E allKeys names a)"

text \<open>One entry: \<open>writable\<close> says which files open. The number of restored entries is counted.\<close>

definition restore_entry :: "BackupEnv \<Rightarrow> (string \<Rightarrow> bool) \<Rightarrow> string \<times> bytes \<Rightarrow> nat \<times> AppData \<Rightarrow> nat \<times> AppData" where
  "restore_entry E writable e acc =
     (let (n, a) = acc in
      if fst e = ''settings.json'' then (n + 1, setValues (j_object (be_fromJson E (snd e))) a)
      else if starts_with ''resume/'' (fst e) \<or> fst e \<in> set kHistoryFiles then
        (if writable (fst e) then (n + 1, a\<lparr>ad_files := (ad_files a)(fst e \<mapsto> snd e)\<rparr>) else acc)
      else acc)"

definition full_restore :: "BackupEnv \<Rightarrow> (string \<Rightarrow> bool) \<Rightarrow> bytes \<Rightarrow> AppData \<Rightarrow> (nat \<times> AppData) option" where
  "full_restore E writable data a =
     (case unpack_backup E data of
        None \<Rightarrow> None
      | Some es \<Rightarrow> Some (fold (restore_entry E writable) es (0, a)))"

section \<open>The format\<close>

lemma length_put_le [simp]: "length (put_le k n) = k"
  by (simp add: put_le_def)

lemma get_put_le: "n < 256 ^ k \<Longrightarrow> get_le (put_le k n) = n"
proof (induction k arbitrary: n)
  case (Suc k)
  have "put_le (Suc k) n = word_of_nat n # put_le k (n div 256)"
    unfolding put_le_def by (subst upt_conv_Cons) (simp_all add: map_Suc_upt [symmetric] div_mult2_eq del: upt_Suc map_Suc_upt)
  moreover have "n div 256 < 256 ^ k" using Suc.prems by (simp add: less_mult_imp_div_less mult.commute)
  ultimately show ?case using Suc.IH by (simp add: get_le_def unat_of_nat take_bit_eq_mod)
qed (simp add: get_le_def put_le_def)

definition entry_fits :: "BackupEnv \<Rightarrow> string \<times> bytes \<Rightarrow> bool" where
  "entry_fits E e \<longleftrightarrow> be_fromUtf8 E (be_utf8 E (fst e)) = fst e \<and> length (be_utf8 E (fst e)) \<le> kMaxNameLen
     \<and> length (snd e) \<le> kMaxPayloadLen"

lemma unpack_entry:
  assumes "entry_fits E e"
  shows "unpack_loop E (Suc n) (pack_entry E e @ rest) out = unpack_loop E n rest (out @ [e])"
proof -
  have "length (be_utf8 E (fst e)) < 256 ^ 4" "length (snd e) < 256 ^ 8"
    using assms by (simp_all add: entry_fits_def kMaxNameLen_def kMaxPayloadLen_def)
  then show ?thesis
    using assms by (simp add: pack_entry_def unpack_one_def Let_def get_put_le entry_fits_def)
qed

lemma unpack_entries:
  "list_all (entry_fits E) es \<Longrightarrow> unpack_loop E (length es) (concat (map (pack_entry E) es)) out = Some (out @ es)"
proof (induction es arbitrary: out)
  case (Cons e es)
  then show ?case using unpack_entry [of E e "length es" "concat (map (pack_entry E) es)" out] by simp
qed simp

lemma entry_cut:
  assumes "entry_fits E e" "n < length (pack_entry E e)"
  shows "unpack_one E (take n (pack_entry E e)) = None"
proof -
  define nb where "nb = be_utf8 E (fst e)"
  have l: "length nb < 256 ^ 4" "length (snd e) < 256 ^ 8" "length nb \<le> kMaxNameLen"
    using assms(1) by (simp_all add: entry_fits_def kMaxNameLen_def kMaxPayloadLen_def nb_def)
  have p: "pack_entry E e = put_le 4 (length nb) @ nb @ put_le 8 (length (snd e)) @ snd e"
    by (simp add: pack_entry_def nb_def Let_def)
  consider "n < 4" | "4 \<le> n" "n < 4 + length nb" | "4 + length nb \<le> n" "n < 12 + length nb"
    | "12 + length nb \<le> n" by linarith
  then show ?thesis
  proof cases
    case 3
    define k where "k = n - (4 + length nb)"
    then have "n = 4 + length nb + k" "k < 8" using 3 by simp_all
    then show ?thesis using l by (simp add: p unpack_one_def get_put_le Let_def)
  next
    case 4
    then obtain k where k: "n = 12 + length nb + k" by (metis le_Suc_ex)
    then show ?thesis using l assms(2) by (simp add: p unpack_one_def get_put_le Let_def)
  qed (use l in \<open>simp_all add: p unpack_one_def get_put_le Let_def\<close>)
qed

lemma entries_cut:
  assumes "list_all (entry_fits E) es" "n < length (concat (map (pack_entry E) es))"
  shows "unpack_loop E (length es) (take n (concat (map (pack_entry E) es))) out = None"
  using assms
proof (induction es arbitrary: n out)
  case (Cons e es)
  show ?case
  proof (cases "n < length (pack_entry E e)")
    case True
    then show ?thesis using entry_cut [of E e n] Cons.prems(1) by simp
  next
    case False
    then have "take n (concat (map (pack_entry E) (e # es)))
        = pack_entry E e @ take (n - length (pack_entry E e)) (concat (map (pack_entry E) es))" by simp
    then show ?thesis
      using Cons.IH [of "n - length (pack_entry E e)" "out @ [e]"] Cons.prems False
        unpack_entry [of E e "length es" "take (n - length (pack_entry E e)) (concat (map (pack_entry E) es))" out]
      by simp
  qed
qed simp

text \<open>
  C24: A backup archive is read as it was written, and one that has been cut off anywhere is refused as a
  whole: no restore works from half a backup.
\<close>

theorem backup_roundtrip:
  assumes "list_all (entry_fits E) es" "length es < 2 ^ 32"
  shows "unpack_backup E (pack_backup E es) = Some es
    \<and> (\<forall>n < length (pack_backup E es). unpack_backup E (take n (pack_backup E es)) = None)"
proof -
  let ?b = "concat (map (pack_entry E) es)"
  have n: "get_le (put_le 4 (length es)) = length es" using assms(2) by (intro get_put_le) simp
  have whole: "unpack_backup E (pack_backup E es) = Some es"
    using unpack_entries [OF assms(1), of "[]"] n by (simp add: unpack_backup_def pack_backup_def)
  have "unpack_backup E (take n (pack_backup E es)) = None" if "n < length (pack_backup E es)" for n
  proof (cases "n < length kMagic + 4")
    case True
    then show ?thesis
    proof (cases "n < length kMagic")
      case True
      then have "length (take n (pack_backup E es)) < length kMagic" by simp
      then have "take (length kMagic) (take n (pack_backup E es)) \<noteq> kMagic"
        by (metis length_take min.strict_order_iff order_less_irrefl min_less_iff_conj)
      then show ?thesis by (simp add: unpack_backup_def)
    next
      case False
      then have "n - length kMagic < 4" using True by linarith
      then show ?thesis using False by (simp add: unpack_backup_def pack_backup_def Let_def)
    qed
  next
    case False
    then obtain k where k: "n = length kMagic + 4 + k" by (metis le_Suc_ex not_less)
    have "k < length ?b" using that k by (simp add: pack_backup_def)
    then show ?thesis
      using entries_cut [OF assms(1), of k "[]"] n k by (simp add: unpack_backup_def pack_backup_def)
  qed
  then show ?thesis using whole by blast
qed

section \<open>A restore brings everything back\<close>

text \<open>No secret is in an export.\<close>

lemma export_has_no_secret: "k \<in> fst ` set (settingsObjectFromMap m True) \<Longrightarrow> \<not> isExportSecret k"
  by (auto simp: settingsObjectFromMap_def)

lemma set_values:
  "ad_files (setValues kvs b) = ad_files b"
  "(\<And>k v. (k, v) \<in> set kvs \<Longrightarrow> m k = Some v) \<Longrightarrow> k \<in> fst ` set kvs \<Longrightarrow> ad_settings (setValues kvs b) k = m k"
proof -
  have f: "fold (\<lambda>(k, v) m. m(k \<mapsto> v)) kvs s k = (if k \<in> fst ` set kvs then m k else s k)"
    if "\<And>k v. (k, v) \<in> set kvs \<Longrightarrow> m k = Some v" for s kvs
    using that
  proof (induction kvs arbitrary: s)
    case (Cons x kvs)
    have "m (fst x) = Some (snd x)" using Cons.prems [of "fst x" "snd x"] by simp
    then have mx: "m (fst x) = Some (snd x)" .
    have "fold (\<lambda>(k, v) m. m(k \<mapsto> v)) (x # kvs) s k = fold (\<lambda>(k, v) m. m(k \<mapsto> v)) kvs (s(fst x \<mapsto> snd x)) k"
      by (cases x) (simp only: fold.simps comp_apply prod.case fst_conv snd_conv)
    also have "\<dots> = (if k \<in> fst ` set kvs then m k else (s(fst x \<mapsto> snd x)) k)"
      by (rule Cons.IH) (use Cons.prems in auto)
    also have "\<dots> = (if k \<in> fst ` set (x # kvs) then m k else s k)" using mx by auto
    finally show ?case .
  qed simp
  show "(\<And>k v. (k, v) \<in> set kvs \<Longrightarrow> m k = Some v) \<Longrightarrow> k \<in> fst ` set kvs \<Longrightarrow> ad_settings (setValues kvs b) k = m k"
    using f [of kvs "ad_settings b"] by (simp add: setValues_def)
qed (simp add: setValues_def)

definition restorable :: "string \<Rightarrow> bool" where
  "restorable p \<longleftrightarrow> p \<noteq> ''settings.json'' \<and> (starts_with ''resume/'' p \<or> p \<in> set kHistoryFiles)"

lemma restore_files:
  assumes "\<forall>(p, c) \<in> set es. restorable p \<and> m p = Some c"
  shows "ad_settings (snd (fold (restore_entry E (\<lambda>_. True)) es (n, b))) = ad_settings b
    \<and> (\<forall>p \<in> fst ` set es. ad_files (snd (fold (restore_entry E (\<lambda>_. True)) es (n, b))) p = m p)"
proof -
  have "ad_settings (snd (fold (restore_entry E (\<lambda>_. True)) es (n, b))) = ad_settings b
    \<and> (\<forall>p. ad_files (snd (fold (restore_entry E (\<lambda>_. True)) es (n, b))) p
         = (if p \<in> fst ` set es then m p else ad_files b p))"
    using assms
  proof (induction es arbitrary: n b)
    case (Cons e es)
    obtain p c where e: "e = (p, c)" by (cases e)
    then have "restore_entry E (\<lambda>_. True) e (n, b) = (n + 1, b\<lparr>ad_files := (ad_files b)(p \<mapsto> c)\<rparr>)" "m p = Some c"
      using Cons.prems by (auto simp: restore_entry_def restorable_def)
    then show ?case using Cons e by auto
  qed simp
  then show ?thesis by auto
qed

lemma read_entry: "(p, c) \<in> set (List.map_filter (\<lambda>n. map_option (\<lambda>b. (n, b)) (f n)) xs) \<Longrightarrow> p \<in> set xs \<and> f p = Some c"
  by (auto simp: map_filter_def)

lemma restorable_names: "restorable (''resume/'' @ n)" "p \<in> set kHistoryFiles \<Longrightarrow> restorable p"
  by (auto simp: restorable_def starts_with_def kHistoryFiles_def)

lemma backup_file_entries:
  "\<forall>(p, c) \<in> set (List.map_filter (\<lambda>n. map_option (\<lambda>b. (n, b)) (ad_files a n)) (map (\<lambda>n. ''resume/'' @ n) names)
      @ List.map_filter (\<lambda>n. map_option (\<lambda>b. (n, b)) (ad_files a n)) kHistoryFiles).
    restorable p \<and> ad_files a p = Some c"
proof (intro ballI, clarify)
  fix p c
  assume "(p, c) \<in> set (List.map_filter (\<lambda>n. map_option (\<lambda>b. (n, b)) (ad_files a n)) (map (\<lambda>n. ''resume/'' @ n) names)
      @ List.map_filter (\<lambda>n. map_option (\<lambda>b. (n, b)) (ad_files a n)) kHistoryFiles)"
  then have "(p \<in> set (map (\<lambda>n. ''resume/'' @ n) names) \<or> p \<in> set kHistoryFiles) \<and> ad_files a p = Some c"
    unfolding set_append Un_iff using read_entry by fast
  then show "restorable p \<and> ad_files a p = Some c"
    using restorable_names unfolding set_map image_iff by blast
qed



section \<open>A concrete backup\<close>

definition sample_backup_env :: BackupEnv where
  "sample_backup_env = \<lparr>be_utf8 = ascii_bytes, be_fromUtf8 = map (\<lambda>b. char_of (unat b)),
     be_toJson = (\<lambda>_. [123, 125]), be_fromJson = (\<lambda>_. Some (JvObj [(''k'', JvNum 1)]))\<rparr>"

lemma sample_utf8: "be_fromUtf8 sample_backup_env (be_utf8 sample_backup_env s) = s"
proof -
  have "char_of (unat (word_of_nat (code c) :: 8 word)) = c" for c
  proof -
    have "code c < 256" by (simp add: code_def)
    then show ?thesis by (simp add: unat_of_nat take_bit_eq_mod code_def)
  qed
  then show ?thesis by (simp add: sample_backup_env_def ascii_bytes_def comp_def)
qed

lemma sample_entry:
  assumes "length s \<le> 4096" "length c \<le> 1073741824"
  shows "entry_fits sample_backup_env (s, c)"
proof -
  have "length (be_utf8 sample_backup_env s) = length s" by (simp add: sample_backup_env_def ascii_bytes_def)
  then show ?thesis
    using assms by (simp only: entry_fits_def fst_conv snd_conv sample_utf8 kMaxNameLen_def kMaxPayloadLen_def simp_thms)
qed

lemma sample_fits: "entry_fits sample_backup_env (''resume/../../x'', [1])"
  by (rule sample_entry) simp_all

theorem backup_roundtrip_witness:
  "unpack_backup sample_backup_env (pack_backup sample_backup_env [(''resume/../../x'', [1])]) = Some [(''resume/../../x'', [1])]"
  using backup_roundtrip [of sample_backup_env "[(''resume/../../x'', [1])]"] sample_fits by simp


definition sample_app :: AppData where
  "sample_app = \<lparr>ad_settings = [''k'' \<mapsto> JvNum 1], ad_files = [''resume/a.resume'' \<mapsto> [7], ''playlog.json'' \<mapsto> [8]]\<rparr>"

lemma sample_entries:
  "backup_entries sample_backup_env [''k''] [''a.resume''] sample_app
     = [(''settings.json'', [123, 125]), (''resume/a.resume'', [7]), (''playlog.json'', [8])]"
  by (simp add: backup_entries_def sample_backup_env_def sample_app_def kHistoryFiles_def map_filter_simps)


end
