(* ===== verification/Spec2Isabelle.thy ===== *)
theory Spec2Isabelle
  imports HttpDownloadInv HttpManager HttpMerge WireguardConfig VpnWiring SessionConfig SessionLimits
    Streaming StreamServer MediaGuard MediaSniff SessionQueue SessionWatch SessionViews SessionRemoved
    IpcFrames MediaFeed MediaPictures MediaReads MediaIntent WebSamples
    RssFeeds GeoIpDb GameRecords MkvChapters TrackerScrape DebridService AppBackup
begin

text \<open>
  BATorrent is a desktop BitTorrent client on top of libtorrent and Qt (\<open>src/src\<close>). The development
  models its own logic: direct downloads, the session that keeps the torrents, the VPN connection and
  the kill switch, streaming, the media player whose decoder runs in a process of its own, the guard
  against files that are not what they seem, the web interface, the RSS feeds and the records of games and
  chapters. libtorrent, Qt's
  network and file classes, the WireGuard helper process and the operating system are not in the
  repository; what they answer is an argument of the definitions that ask, or a field of a record of
  functions.

  \<^bold>\<open>Parts and how they interact.\<close> The engine seen by the user interface is a list of rows: the session's
  torrents first, then the direct downloads (\<open>HttpMerge\<close> over \<open>HttpManager\<close> over \<open>HttpDownload\<close>). The
  session ticks once a second (\<open>SessionTick\<close>), takes libtorrent's alerts (\<open>SessionAlerts\<close>), saves and
  loads its torrents (\<open>SessionPersist\<close>) and answers the commands on rows (\<open>SessionTorrents\<close>). The VPN
  manager (\<open>VpnManager\<close>) drives one tunnel (\<open>WgTunnel\<close>); its signals are wired to the session's proxy
  and kill switch (\<open>VpnWiring\<close>, \<open>SessionNetwork\<close>). The streaming server (\<open>StreamServer\<close>) reads a file
  that is still being downloaded behind the gate of \<open>Streaming\<close>, and asks \<open>MediaGuard\<close> first, which
  looks at the head of the file with \<open>MediaSniff\<close>. The user interface, the engine and the media child
  are processes that exchange frames (\<open>IpcFrames\<close>). The player (\<open>MediaPlayer\<close>) sends commands to the
  child (\<open>MediaHost\<close>), answers its questions about the film from a file or the streaming server
  (\<open>MediaFeed\<close>, \<open>RemoteSource\<close>) and takes its pictures out of a ring of shared memory (\<open>MediaFrames\<close>);
  \<open>MediaSystem\<close> runs both with their sockets. The web interface (\<open>WebServer\<close>) checks a password with
  \<open>PasswordHash\<close> and calls the engine.

  \<^bold>\<open>Theories and code\<close> (paths under \<open>src/src\<close>).

  \<^item> \<open>Prelude\<close>, \<open>QtText\<close>: list, option and integer lemmas; the parts of \<open>QString\<close> and \<open>QByteArray\<close> the code
    uses, on ASCII text.
  \<^item> \<open>RangePlan\<close>: \<open>services/downloads/rangeplan.h\<close>, the segments of a file, with the locale of what a
    planner promises.
  \<^item> \<open>HttpDownload\<close>, \<open>HttpDownloadInv\<close>: \<open>services/downloads/httpdownload.cpp\<close>, one segmented download as
    a state machine over replies, chunks, timers and the part file, and the invariant that what is
    written is what the server has. \<open>HttpManager\<close>: \<open>httpdownloadmanager.cpp\<close>, the list and its saved state.
    \<open>HttpMerge\<close>: \<open>httpmergeengine.cpp\<close>, the rows of both kinds.
  \<^item> \<open>WireguardConfig\<close>: \<open>services/vpn/wireguardconfig.h\<close>, parser and validator. \<open>WgTunnel\<close>:
    \<open>wgtunnel.h\<close>, \<open>wgtunnel_userspace.cpp\<close>. \<open>VpnManager\<close>: \<open>vpnmanager.cpp\<close>. \<open>VpnWiring\<close>:
    \<open>app/vpnwiring.cpp\<close> and the start of the engine.
  \<^item> \<open>SessionNetwork\<close>: \<open>torrent/sessionmanager_network.cpp\<close>, \<open>proxycontroller.cpp\<close>, the interface, the
    kill switch and the proxies. \<open>SessionLimits\<close>: \<open>sessionmanager_limits.cpp\<close>,
    \<open>sessionmanager_scheduler.cpp\<close>. \<open>SessionConfig\<close>: \<open>sessionconfig.cpp\<close>.
  \<^item> \<open>TorrentTable\<close>: rows and hashes (\<open>sessionmanager_query.cpp\<close>). \<open>SessionResume\<close>: \<open>sessionresume.cpp\<close>.
    \<open>TorrentPolicies\<close>: \<open>contentprobe.cpp\<close>, \<open>memguard.h\<close>, \<open>magnettrackers.h\<close>.
  \<^item> \<open>SessionTorrents\<close>: the state of the session and the commands on torrents
    (\<open>sessionmanager_pertorrent.cpp\<close>, \<open>sessionmanager_lifecycle.cpp\<close>). \<open>SessionSecurity\<close>: faults, labels
    and totals (\<open>sessionmanager_security.cpp\<close>, \<open>_stats.cpp\<close>, \<open>_categories.cpp\<close>). \<open>SessionPersist\<close>:
    saving, loading and adding (\<open>_persistence.cpp\<close>, \<open>_lifecycle.cpp\<close>). \<open>SessionAlerts\<close>: \<open>_alerts.cpp\<close>,
    \<open>_alerts_finish.cpp\<close>, \<open>_staging.cpp\<close>. \<open>SessionTick\<close>: \<open>_tick.cpp\<close>.
  \<^item> \<open>RowPass\<close>: the contract of the session's loops over its rows, as a locale, and its
    interpretations. \<open>SessionSamples\<close>: a concrete session. \<open>SessionQueue\<close>, \<open>SessionWatch\<close>,
    \<open>SessionKeep\<close>, \<open>SessionViews\<close>, \<open>SessionRemoved\<close>: the properties of the session.
  \<^item> \<open>Streaming\<close>: \<open>torrent/streamgate.h\<close>, \<open>sessionmanager_streaming.cpp\<close>. \<open>StreamServer\<close>: one connection of
    \<open>webui/streamserver.cpp\<close>. \<open>MediaSniff\<close>: \<open>services/security/mediasniff.cpp\<close>, \<open>suspiciousscan.cpp\<close>.
    \<open>MediaGuard\<close>: \<open>services/security/mediaguard.cpp\<close>.
  \<^item> \<open>IpcFrames\<close>: \<open>ipc/ipcprotocol.h\<close>. \<open>MediaFrames\<close>: \<open>ipc/mediaframe.cpp\<close>. \<open>RemoteSource\<close>:
    \<open>ipc/remotesource.cpp\<close>. \<open>MediaFeed\<close>: \<open>ipc/mediafeed.cpp\<close>. \<open>MediaPlayer\<close>:
    \<open>bridges/isolatedmediaplayer.cpp\<close>. \<open>MediaHost\<close>: \<open>ipc/mediahost.cpp\<close>. \<open>MediaSystem\<close>: both processes.
    \<open>MediaPictures\<close>, \<open>MediaReads\<close>, \<open>MediaIntent\<close>: what crosses from one to the other.
  \<^item> \<open>PasswordHash\<close>: \<open>services/security/passwordhash.cpp\<close>. \<open>WebServer\<close>: \<open>webui/webserver.cpp\<close>.
    \<open>WebAuth\<close>, \<open>WebSamples\<close>: who is served, and concrete requests.
  \<^item> \<open>RssFeeds\<close>: \<open>services/integrations/rssmanager.cpp\<close>. \<open>GeoIpDb\<close>: \<open>services/integrations/geoipdb.cpp\<close>.
    \<open>GameRecords\<close>: \<open>services/games/achievementledger.cpp\<close>, \<open>playlog.cpp\<close>. \<open>MkvChapters\<close>:
    \<open>services/metadata/mkvchapters.cpp\<close>. \<open>TrackerScrape\<close>: \<open>services/discovery/trackerscrape.cpp\<close>.
  \<^item> \<open>QtJson\<close>: JSON values and their readers. \<open>DebridClients\<close>: \<open>services/integrations/realdebrid.cpp\<close>,
    \<open>torbox.cpp\<close>, \<open>debridpick.cpp\<close>. \<open>DebridJobs\<close>: the contract both clients keep, as a locale, with its
    interpretations. \<open>DebridService\<close>: the choice of the file, \<open>debridmanager.cpp\<close>. \<open>AppBackup\<close>:
    \<open>services/platform/settingsbackup.cpp\<close> and the backup of \<open>bridges/qmlsettingsbridge.cpp\<close>.

  \<^bold>\<open>State.\<close> A class is a record of its members (\<open>HttpDownload\<close>, \<open>VpnManager\<close>, \<open>StreamConn\<close>, ...). The
  session manager is two records, \<open>SessionNet\<close> for what concerns the network and \<open>SessionT\<close> for the
  torrents, which has the first as a field; a torrent handle is a number, what libtorrent knows of it the
  record \<open>LtTorrent\<close> at that number, and the status cache a map. \<open>QSettings\<close> are maps from keys to values.
  Signals are appended to a list. Timers that only run a function are events of the model; a timer that
  matters for ordering is a field (\<open>t_removals\<close>, \<open>aq_scheduled\<close>, \<open>vm_retryPending\<close>).

  \<^bold>\<open>What the lemmas show.\<close> Downloads: the segments tile the file, every byte on disk is the server's byte
  at that offset, completion implies the whole file, saved state and merged rows survive the round trip.
  VPN: no peer traffic leaves outside the tunnel until the user asks for it, a connected tunnel is the
  one the session uses, a dropped one holds the session until a disconnect, retries back off and end.
  Session: what the queue does to every torrent of a tick and where it works against the kill switch and
  the user, that alerts are handled in order and once, that missing data needs two probes, the exact
  effect of seeding limits and disk pressure, the isolation of failing torrents, what a removal deletes,
  retries and remembers, and what is lost between removal, re-adding and restart. Streaming: the bytes
  served are the bytes of the requested range, readable runs are the longest ones. Guard: a file judged
  bad stays blocked, and the verdict is what the head of the file says. Processes: frames survive any
  chunking and the buffer is bounded; every picture shown is one the child decoded, in order, and no
  slot is overwritten while it is shown; the child reads only bytes of the film; what the user asked for
  last is what the child is told once the source is open. Web: the engine is called only for a request
  that proves itself, others learn nothing of it, requests are handled once, and how little the lockout
  of an address amounts to. Feeds: a link is asked for once, and feeds and links survive a restart. Records:
  two achievement records are joined, play time is never lost, the country of an address is that of its
  range, chapters are read as they were written, a scrape of trackers ends exactly once. Debrid services:
  a job is answered once and ends, what is played is the largest video, and what a cancel and the poll
  timer do wrong. Backups: what was saved is restored, half a backup is refused, and how a restore leaves
  its folder.

  \<^bold>\<open>Bounds and fuel.\<close> There is no fuel: every loop of the code runs over a list or a counter and is a fold
  or a structural recursion; loops that wait for the outside (segments, retries, alerts, removals) are
  sequences of events. Byte counts are integers, with the wrap-around of the 32-bit conversions written
  out where the code converts.

  \<^bold>\<open>Not modelled.\<close> The metadata resolvers, the add-on and search clients and the game installer talk to
  services outside the repository and reshape their JSON; most QML bridges and models reformat engine
  data for the user interface; the engine process turns every call into one message and back. Starting
  processes, sandboxes, shared memory and pipes are calls of the operating system, and the stream
  operators of the messages are those of \<open>QDataStream\<close>. The
  constructor of the session starts libtorrent. Display queries (peers, trackers, pieces) copy
  libtorrent's status. The Windows tunnel services and the Defender exclusion are calls of system
  commands.
\<close>

end
